(* ===== verification/Prelude.thy ===== *)
theory Prelude
  imports Main "HOL-Library.Word"
begin

text \<open>
  Shared vocabulary of the OpenWFD development: the widths of the C types the sources use, error
  numbers and the result of a C operation, checked access to C arrays, the allocator the sources
  call, and the generic lemmas on lists and words that the component theories share.
\<close>

unbundle bit_operations_syntax

named_theorems mem_simps \<open>evaluation of checked array accesses\<close>
named_theorems result_simps \<open>evaluation of C results\<close>

subsection \<open>C types\<close>

type_synonym u8 = "8 word"
type_synonym u16 = "16 word"
type_synonym u32 = "32 word"
type_synonym size_t = "64 word"

text \<open>
  Text is handled as \<open>char\<close> lists; \<open>NUL\<close> is the terminating zero byte of a C string.
\<close>

abbreviation NUL :: char where "NUL \<equiv> CHR 0x00"
abbreviation TAB :: char where "TAB \<equiv> CHR 0x09"
abbreviation LF :: char where "LF \<equiv> CHR 0x0A"
abbreviation CR :: char where "CR \<equiv> CHR 0x0D"
abbreviation DQUOTE :: char where "DQUOTE \<equiv> CHR 0x22"
abbreviation SQUOTE :: char where "SQUOTE \<equiv> CHR 0x27"
abbreviation BACKSLASH :: char where "BACKSLASH \<equiv> CHR 0x5C"
abbreviation SPACE :: char where "SPACE \<equiv> CHR '' ''"

text \<open>
  The C string that starts at the head of a byte array: everything before the first zero byte.
\<close>

definition cstr :: "char list \<Rightarrow> char list" where
  "cstr b = takeWhile (\<lambda>c. c \<noteq> NUL) b"

lemma cstr_append_NUL [simp]: "NUL \<notin> set s \<Longrightarrow> cstr (s @ NUL # rest) = s"
  unfolding cstr_def by (subst takeWhile_append2) auto

subsection \<open>Error numbers and results\<close>

text \<open>
  \<open>ESYS n\<close> is the negated \<open>errno\<close> value \<open>n\<close> that a failed system call left behind and the source
  passes on; the other constructors are the constants the sources return by name.
\<close>

datatype errno =
    ENOMEM | EINVAL | ENODEV | EALREADY | EPIPE | ETIMEDOUT | EFAULT | EAGAIN
  | EIO | ENXIO | EPROTO | ESYS nat

text \<open>
  The outcome of a C operation: a value, a negative error number, or \<open>Fault\<close>, which stands for an
  access outside the bounds of an array (undefined behaviour in C).
\<close>

datatype 'a result = Ok 'a | Err errno | Fault

fun rbind :: "'a result \<Rightarrow> ('a \<Rightarrow> 'b result) \<Rightarrow> 'b result" where
  "rbind (Ok x) f = f x"
| "rbind (Err e) f = Err e"
| "rbind Fault f = Fault"

fun is_ok :: "'a result \<Rightarrow> bool" where
  "is_ok (Ok _) = True"
| "is_ok _ = False"

lemma rbind_Ok_iff: "rbind m f = Ok y \<longleftrightarrow> (\<exists>x. m = Ok x \<and> f x = Ok y)"
  by (cases m) auto

lemma rbind_Fault_iff: "rbind m f = Fault \<longleftrightarrow> m = Fault \<or> (\<exists>x. m = Ok x \<and> f x = Fault)"
  by (cases m) auto

lemma rbind_Err_iff: "rbind m f = Err e \<longleftrightarrow> m = Err e \<or> (\<exists>x. m = Ok x \<and> f x = Err e)"
  by (cases m) auto

lemmas rbind_iffs [result_simps] = rbind_Ok_iff rbind_Fault_iff rbind_Err_iff

text \<open>
  Operations that also change an object are functions from the object to the changed object and
  a result. What an operation changed before it failed stays changed, as in the source.
\<close>

type_synonym ('s, 'a) op = "'s \<Rightarrow> 's \<times> 'a result"

definition sret :: "'a \<Rightarrow> ('s, 'a) op" where
  "sret x s = (s, Ok x)"

definition serr :: "errno \<Rightarrow> ('s, 'a) op" where
  "serr e s = (s, Err e)"

definition sget :: "('s \<Rightarrow> 'a) \<Rightarrow> ('s, 'a) op" where
  "sget g s = (s, Ok (g s))"

definition smod :: "('s \<Rightarrow> 's) \<Rightarrow> ('s, unit) op" where
  "smod f s = (f s, Ok ())"

definition slift :: "'a result \<Rightarrow> ('s, 'a) op" where
  "slift x s = (s, x)"

definition sbind :: "('s, 'a) op \<Rightarrow> ('a \<Rightarrow> ('s, 'b) op) \<Rightarrow> ('s, 'b) op" where
  "sbind m f s =
     (case m s of (s', Ok x) \<Rightarrow> f x s' | (s', Err e) \<Rightarrow> (s', Err e) | (s', Fault) \<Rightarrow> (s', Fault))"

lemma sbind_Ok [result_simps]: "m s = (s', Ok x) \<Longrightarrow> sbind m f s = f x s'"
  by (simp add: sbind_def)

lemma sbind_Err [result_simps]: "m s = (s', Err e) \<Longrightarrow> sbind m f s = (s', Err e)"
  by (simp add: sbind_def)

lemma op_simps [simp]:
  "sret x s = (s, Ok x)" "serr e s = (s, Err e)" "sget g s = (s, Ok (g s))" "smod h s = (h s, Ok ())"
  "slift y s = (s, y)"
  by (simp_all add: sret_def serr_def sget_def smod_def slift_def)

lemma sbind_simps [simp]:
  "sbind (sret x) f s = f x s" "sbind (serr e) f' s = (s, Err e)" "sbind (sget g) f s = f (g s) s"
  "sbind (smod h) f'' s = f'' () (h s)" "sbind (slift (Ok x)) f s = f x s"
  "sbind (slift (Err e)) f s = (s, Err e)" "sbind (slift Fault) f s = (s, Fault)"
  by (simp_all add: sbind_def)

lemma sbind_assoc: "sbind (sbind m f) g = sbind m (\<lambda>x. sbind (f x) g)"
  by (rule ext) (simp add: sbind_def split: prod.splits result.splits)

subsection \<open>Checked array access\<close>

text \<open>
  \<open>mem_read b i\<close> is \<open>b[i]\<close>, \<open>mem_write b i x\<close> is \<open>b[i] = x\<close> and \<open>memcpy d i s j n\<close> is \<open>memcpy(&d[i], &s[j], n)\<close>. All are a
  \<open>Fault\<close> outside the bounds of the arrays.
\<close>

definition mem_read :: "'a list \<Rightarrow> nat \<Rightarrow> 'a result" where
  "mem_read b i = (if i < length b then Ok (b ! i) else Fault)"

definition mem_write :: "'a list \<Rightarrow> nat \<Rightarrow> 'a \<Rightarrow> 'a list result" where
  "mem_write b i x = (if i < length b then Ok (b[i := x]) else Fault)"

definition memcpy :: "'a list \<Rightarrow> nat \<Rightarrow> 'a list \<Rightarrow> nat \<Rightarrow> nat \<Rightarrow> 'a list result" where
  "memcpy d i s j n =
     (if i + n \<le> length d \<and> j + n \<le> length s
      then Ok (take i d @ take n (drop j s) @ drop (i + n) d) else Fault)"

lemma mem_read_Ok [mem_simps]: "i < length b \<Longrightarrow> mem_read b i = Ok (b ! i)"
  by (simp add: mem_read_def)

lemma mem_write_Ok [mem_simps]: "i < length b \<Longrightarrow> mem_write b i x = Ok (b[i := x])"
  by (simp add: mem_write_def)

lemma memcpy_Ok [mem_simps]:
  "i + n \<le> length d \<Longrightarrow> j + n \<le> length s \<Longrightarrow>
     memcpy d i s j n = Ok (take i d @ take n (drop j s) @ drop (i + n) d)"
  by (simp add: memcpy_def)

text \<open>An array element that has or has not been written since its memory was allocated.\<close>

datatype 'a slot = Uninit | Init 'a

lemma length_splice:
  "i + n \<le> length d \<Longrightarrow> j + n \<le> length s \<Longrightarrow>
     length (take i d @ take n (drop j s) @ drop (i + n) d) = length d"
  by simp

subsection \<open>The allocator\<close>

text \<open>
  \<open>M k n\<close> is the outcome of the \<open>k\<close>-th allocation of a run when \<open>n\<close> bytes are requested: \<open>None\<close>
  when it fails, otherwise the (uninitialised, hence arbitrary) contents of the new block. What
  the sources rely on is the documented behaviour of \<open>malloc\<close>: a block has the requested size,
  and no request above \<open>PTRDIFF_MAX\<close> succeeds.
\<close>

type_synonym block_alloc = "size_t \<Rightarrow> char list option"
type_synonym allocator = "nat \<Rightarrow> block_alloc"

definition alloc_ok :: "block_alloc \<Rightarrow> bool" where
  "alloc_ok m \<longleftrightarrow> (\<forall>n b. m n = Some b \<longrightarrow> length b = unat n \<and> unat n < 2 ^ 63)"

definition allocator_ok :: "allocator \<Rightarrow> bool" where
  "allocator_ok M \<longleftrightarrow> (\<forall>k. alloc_ok (M k))"

text \<open>An allocator that serves every request below \<open>2 ^ 20\<close> with zeroed memory, for witnesses.\<close>

definition demo_alloc :: block_alloc where
  "demo_alloc n = (if n < 1048576 then Some (replicate (unat n) NUL) else None)"

text \<open>Enough memory for every request of at most \<open>B\<close> bytes.\<close>

definition serves :: "nat \<Rightarrow> block_alloc \<Rightarrow> bool" where
  "serves B m \<longleftrightarrow> (\<forall>n. unat n \<le> B \<longrightarrow> m n \<noteq> None)"

lemma servesD: "serves B m \<Longrightarrow> unat n \<le> B \<Longrightarrow> m n \<noteq> None"
  by (simp add: serves_def)

lemma serves_mono: "serves B m \<Longrightarrow> b \<le> B \<Longrightarrow> serves b m"
  by (auto simp: serves_def)

lemma demo_alloc_serves: "B < 1048576 \<Longrightarrow> serves B demo_alloc"
  by (auto simp: serves_def demo_alloc_def word_less_nat_alt)

lemma alloc_okD:
  "alloc_ok m \<Longrightarrow> m n = Some b \<Longrightarrow> length b = unat n"
  "alloc_ok m \<Longrightarrow> m n = Some b \<Longrightarrow> unat n < 2 ^ 63"
  by (auto simp: alloc_ok_def)

lemma allocator_okD: "allocator_ok M \<Longrightarrow> alloc_ok (M k)"
  by (simp add: allocator_ok_def)

lemma demo_alloc_ok: "alloc_ok demo_alloc"
  by (auto simp: alloc_ok_def demo_alloc_def word_less_nat_alt split: if_splits)

lemma demo_allocator_ok: "allocator_ok (\<lambda>_. demo_alloc)"
  by (simp add: allocator_ok_def demo_alloc_ok)

subsection \<open>Words as natural numbers\<close>

lemma unat_minus_le: "b \<le> a \<Longrightarrow> unat (a - b) = unat a - unat (b :: 'a::len word)"
  by (simp add: unat_sub)

lemma unat_plus_lt: "unat a + unat b < 2 ^ LENGTH('a) \<Longrightarrow> unat (a + b) = unat a + unat (b :: 'a::len word)"
  by (simp add: unat_word_ariths)

lemma unat_of_nat_lt: "n < 2 ^ LENGTH('a) \<Longrightarrow> unat (of_nat n :: 'a::len word) = n"
  by (simp add: unat_of_nat take_bit_nat_eq_self)

lemma sint_small:
  fixes w :: "'a::len word"
  assumes "unat w < 2 ^ (LENGTH('a) - Suc 0)"
  shows "sint w = int (unat w)"
proof -
  have "int (unat w) < 2 ^ (LENGTH('a) - Suc 0)" using assms by (metis of_nat_less_numeral_power_cancel_iff)
  moreover have "- (2 ^ (LENGTH('a) - Suc 0)) \<le> int (unat w)" by (rule order_trans [of _ 0]) simp_all
  ultimately show ?thesis unfolding sint_uint uint_nat by (intro signed_take_bit_int_eq_self)
qed

lemma unat_pow2: "k < LENGTH('a) \<Longrightarrow> unat (2 ^ k :: 'a::len word) = 2 ^ k"
  using unat_of_nat_lt [of "2 ^ k", where ?'a = 'a] by simp

lemma unat_min: "unat (min a b) = min (unat a) (unat (b :: 'a::len word))"
  by (auto simp: min_def word_le_nat_alt)

subsection \<open>Invariants of step functions\<close>

text \<open>
  The contract shared by the state machines of the program: a step function on a state, the
  events that can occur, and a predicate that every step keeps. Every run, in any order of events,
  then keeps it, at its end and on the way.
\<close>

locale stepper =
  fixes step :: "'s \<Rightarrow> 'e \<Rightarrow> 's"
    and event :: "'e \<Rightarrow> bool"
    and inv :: "'s \<Rightarrow> bool"
  assumes step_inv: "inv s \<Longrightarrow> event e \<Longrightarrow> inv (step s e)"
begin

lemma run_inv: "inv s \<Longrightarrow> list_all event es \<Longrightarrow> inv (foldl step s es)"
  by (induction es arbitrary: s) (auto intro: step_inv)

lemma run_prefix_inv: "inv s \<Longrightarrow> list_all event es \<Longrightarrow> inv (foldl step s (take n es))"
  by (rule run_inv) (auto simp: list_all_iff dest: in_set_takeD)

end

end
