(* ===== verification/Ring.thy ===== *)
theory Ring
  imports Prelude
begin

text \<open>
  The growing ring buffer of \<open>src/shl_ring.c\<close> and \<open>src/shl_ring.h\<close>. Sizes and positions are
  \<open>size_t\<close> words as in the source; the buffer is the array of its bytes. Every \<open>memcpy\<close> of the
  source is a checked \<open>memcpy\<close> of the model, so the results below include memory safety.

  \<open>ring_ok\<close> is the representation invariant and \<open>ring_data\<close> the bytes in the ring, oldest first. The
  locale \<open>byte_fifo\<close> is the contract the decoder and the control channel rely on.
\<close>

unbundle bit_operations_syntax

subsection \<open>State and operations\<close>

record shl_ring =
  rbuf :: "char list"
  rsize :: size_t
  rstart :: size_t
  rend :: size_t

definition ring_empty :: shl_ring where
  "ring_empty = \<lparr>rbuf = [], rsize = 0, rstart = 0, rend = 0\<rparr>"

definition RING_MASK :: "shl_ring \<Rightarrow> size_t \<Rightarrow> size_t" where
  "RING_MASK r v = v AND (rsize r - 1)"

definition ring_resize :: "block_alloc \<Rightarrow> shl_ring \<Rightarrow> size_t \<Rightarrow> shl_ring result" where
  "ring_resize malloc r nsize =
     (case malloc nsize of
        None \<Rightarrow> Err ENOMEM
      | Some buf \<Rightarrow>
          if rend r = rstart r then
            Ok (r\<lparr>rend := 0, rstart := 0, rbuf := buf, rsize := nsize\<rparr>)
          else if rend r > rstart r then
            rbind (memcpy buf 0 (rbuf r) (unat (rstart r)) (unat (rend r - rstart r))) (\<lambda>buf.
            Ok (r\<lparr>rend := rend r - rstart r, rstart := 0, rbuf := buf, rsize := nsize\<rparr>))
          else
            rbind (memcpy buf 0 (rbuf r) (unat (rstart r)) (unat (rsize r - rstart r))) (\<lambda>buf.
            rbind (memcpy buf (unat (rsize r - rstart r)) (rbuf r) 0 (unat (rend r))) (\<lambda>buf.
            Ok (r\<lparr>rend := rend r + (rsize r - rstart r), rstart := 0, rbuf := buf,
                  rsize := nsize\<rparr>))))"

text \<open>
  The loop of \<open>ring_pow2\<close> runs with \<open>i\<close> equal to 1, 2, 4, 8, 16 and 32 (\<open>8 * sizeof(size_t)\<close> is 64).
\<close>

definition ring_pow2 :: "size_t \<Rightarrow> size_t" where
  "ring_pow2 v =
     (if v = 0 then 4096
      else fold (\<lambda>i v. v OR drop_bit i v) [1, 2, 4, 8, 16, 32] (v - 1) + 1)"

definition ring_grow :: "block_alloc \<Rightarrow> shl_ring \<Rightarrow> size_t \<Rightarrow> shl_ring result" where
  "ring_grow malloc r add =
     (let len = (if rend r < rstart r then rstart r - rend r else rstart r + rsize r - rend r)
      in if len > add then Ok r
         else
           let len = ring_pow2 (rsize r + add - len + 1)
           in if len \<le> rsize r then Err ENOMEM else ring_resize malloc r len)"

definition shl_ring_push :: "block_alloc \<Rightarrow> shl_ring \<Rightarrow> char list \<Rightarrow> shl_ring result" where
  "shl_ring_push malloc r u8 =
     (let len = of_nat (length u8) :: size_t
      in rbind (ring_grow malloc r len) (\<lambda>r.
         rbind
           (if rstart r \<le> rend r then
              let l = min (rsize r - rend r) len
              in rbind (memcpy (rbuf r) (unat (rend r)) u8 0 (unat l)) (\<lambda>b.
                 Ok (r\<lparr>rbuf := b, rend := RING_MASK r (rend r + l)\<rparr>, len - l, unat l))
            else Ok (r, len, 0)) (\<lambda>(r, len, pos).
         if len = 0 then Ok r
         else
           rbind (memcpy (rbuf r) (unat (rend r)) u8 pos (unat len)) (\<lambda>b.
           Ok (r\<lparr>rbuf := b, rend := RING_MASK r (rend r + len)\<rparr>)))))"

text \<open>
  \<open>shl_ring_peek\<close> fills at most two \<open>iovec\<close> objects; a vector is its offset in the buffer and its
  length. The first component is the return value, the number of vectors that hold data.
\<close>

definition shl_ring_peek :: "shl_ring \<Rightarrow> nat \<times> (size_t \<times> size_t) list" where
  "shl_ring_peek r =
     (if rend r > rstart r then (1, [(rstart r, rend r - rstart r)])
      else if rend r < rstart r then
        (if rend r \<noteq> 0 then 2 else 1, [(rstart r, rsize r - rstart r), (0, rend r)])
      else (0, []))"

definition shl_ring_pull :: "shl_ring \<Rightarrow> size_t \<Rightarrow> shl_ring" where
  "shl_ring_pull r len =
     (let (r, len) =
        (if rstart r > rend r then
           let l = min (rsize r - rstart r) len
           in (r\<lparr>rstart := RING_MASK r (rstart r + l)\<rparr>, len - l)
         else (r, len))
      in if len = 0 then r
         else
           let l = min (rend r - rstart r) len
           in r\<lparr>rstart := RING_MASK r (rstart r + l)\<rparr>)"

definition shl_ring_flush :: "shl_ring \<Rightarrow> shl_ring" where
  "shl_ring_flush r = r\<lparr>rstart := 0, rend := 0\<rparr>"

definition shl_ring_clear :: "shl_ring \<Rightarrow> shl_ring" where
  "shl_ring_clear r = ring_empty"

definition shl_ring_length :: "shl_ring \<Rightarrow> size_t" where
  "shl_ring_length r =
     (if rend r > rstart r then rend r - rstart r
      else if rend r < rstart r then (rsize r - rstart r) + rend r
      else 0)"

text \<open>
  \<open>shl_ring_copy\<close> with a non-null \<open>len\<close>: the new block, which has one byte more than the copied data
  for the terminating zero, and the value stored to \<open>*len\<close>.
\<close>

definition shl_ring_copy :: "block_alloc \<Rightarrow> shl_ring \<Rightarrow> size_t \<Rightarrow> (char list \<times> size_t) result" where
  "shl_ring_copy malloc r len =
     (let (n, vec) = shl_ring_peek r;
          sum = (if n > 0 then snd (vec ! 0) else 0) + (if n > 1 then snd (vec ! 1) else 0);
          sum = (if len < sum then len else sum)
      in case malloc (sum + 1) of
           None \<Rightarrow> Err ENOMEM
         | Some b \<Rightarrow>
             rbind (mem_write b (unat sum) NUL) (\<lambda>b.
             if n > 0 then
               let l0 = min (snd (vec ! 0)) sum; rest = sum - l0
               in rbind (memcpy b 0 (rbuf r) (unat (fst (vec ! 0))) (unat l0)) (\<lambda>b.
                  if n > 1 \<and> rest > 0 then
                    let l1 = min (snd (vec ! 1)) rest
                    in rbind (memcpy b (unat l0) (rbuf r) (unat (fst (vec ! 1))) (unat l1)) (\<lambda>b.
                       Ok (b, sum))
                  else Ok (b, sum))
             else Ok (b, sum)))"

subsection \<open>Rounding up to a power of two\<close>

lemma bit_word_unat: "bit (v :: 'a::len word) n \<longleftrightarrow> odd (unat v div 2 ^ n)"
proof -
  have "bit v n \<longleftrightarrow> bit (unat v) n"
    by (auto simp: bit_unsigned_iff possible_bit_def dest: bit_imp_le_length)
  then show ?thesis by (simp add: bit_iff_odd)
qed

lemma smear_step:
  assumes "\<And>n. bit w n \<longleftrightarrow> (\<exists>k<i. bit (v :: size_t) (n + k))"
  shows "bit (w OR drop_bit i w) n \<longleftrightarrow> (\<exists>k<2 * i. bit v (n + k))"
proof -
  have "bit (w OR drop_bit i w) n \<longleftrightarrow> (\<exists>k<i. bit v (n + k)) \<or> (\<exists>k<i. bit v (i + n + k))"
    by (simp add: bit_or_iff bit_drop_bit_eq assms)
  also have "\<dots> \<longleftrightarrow> (\<exists>k<2 * i. bit v (n + k))"
  proof (intro iffI; elim disjE exE conjE)
    fix k assume "k < i" "bit v (n + k)"
    then show "\<exists>k<2 * i. bit v (n + k)" by (intro exI [of _ k]) auto
  next
    fix k assume "k < i" "bit v (i + n + k)"
    then show "\<exists>k<2 * i. bit v (n + k)" by (intro exI [of _ "i + k"]) (auto simp: ac_simps)
  next
    fix k assume k: "k < 2 * i" "bit v (n + k)"
    show "(\<exists>k<i. bit v (n + k)) \<or> (\<exists>k<i. bit v (i + n + k))"
    proof (cases "k < i")
      case False
      with k have "k - i < i" and "bit v (i + n + (k - i))" by (auto simp: ac_simps)
      then show ?thesis by blast
    qed (use k in blast)
  qed
  finally show ?thesis .
qed

lemma bit_smear:
  "bit (fold (\<lambda>i v. v OR drop_bit i v) [1, 2, 4, 8, 16, 32] v) n \<longleftrightarrow> (\<exists>k<64. bit (v :: size_t) (n + k))"
proof -
  define f where "f = (\<lambda>i (w :: size_t). w OR drop_bit i w)"
  have f: "(\<And>n. bit w n \<longleftrightarrow> (\<exists>k<i. bit v (n + k))) \<Longrightarrow> bit (f i w) n \<longleftrightarrow> (\<exists>k<2 * i. bit v (n + k))"
    for w i n unfolding f_def by (rule smear_step)
  have "bit v n \<longleftrightarrow> (\<exists>k<1. bit v (n + k))" for n by auto
  note s1 = f [OF this, simplified]
  note s2 = f [OF s1, simplified]
  note s4 = f [OF s2, simplified]
  note s8 = f [OF s4, simplified]
  note s16 = f [OF s8, simplified]
  note s32 = f [OF s16, simplified]
  show ?thesis using s32 [of n] by (simp add: f_def)
qed

lemma smear_eq_mask:
  assumes lo: "2 ^ m \<le> unat v" and hi: "unat v < 2 ^ Suc m"
  shows "fold (\<lambda>i v. v OR drop_bit i v) [1, 2, 4, 8, 16, 32] v = (mask (Suc m) :: size_t)"
proof (rule bit_eqI)
  fix n assume "possible_bit TYPE(size_t) n"
  then have n: "n < 64" by simp
  have "2 ^ m < (2 :: nat) ^ 64" using lo unsigned_less [of v, where ?'a = nat] by simp
  then have m: "m < 64" using power_less_imp_less_exp [of 2 m 64] by simp
  have "unat v div 2 ^ m = 1" using lo hi by (auto intro: div_nat_eqI)
  then have top: "bit v m" by (simp add: bit_word_unat)
  have above: "\<not> bit v j" if "m < j" for j
  proof -
    have "(2 :: nat) ^ Suc m \<le> 2 ^ j" using that by (intro power_increasing) auto
    with hi have "unat v div 2 ^ j = 0" by simp
    then show ?thesis by (simp add: bit_word_unat)
  qed
  have "(\<exists>k<64. bit v (n + k)) \<longleftrightarrow> n \<le> m"
  proof
    assume "n \<le> m"
    with m top show "\<exists>k<64. bit v (n + k)" by (intro exI [of _ "m - n"]) auto
  next
    assume "\<exists>k<64. bit v (n + k)"
    then show "n \<le> m" using above by (metis le_add1 le_trans not_le)
  qed
  then show "bit (fold (\<lambda>i v. v OR drop_bit i v) [1, 2, 4, 8, 16, 32] v) n =
      bit (mask (Suc m) :: size_t) n"
    unfolding bit_smear using n by (auto simp: bit_mask_iff)
qed

lemma ring_pow2_spec:
  assumes "0 < unat v" and "unat v \<le> 2 ^ 63"
  obtains k where "k < 64" "ring_pow2 v = 2 ^ k" "unat v \<le> 2 ^ k" "2 ^ k < 2 * unat v"
proof (cases "v = 1")
  case True
  with that [of 0] show ?thesis by (simp add: ring_pow2_def)
next
  case False
  have v: "v \<noteq> 0" using assms by auto
  then have v1: "unat (v - 1) = unat v - 1" by (simp add: unat_minus_one)
  have "unat v \<noteq> unat (1 :: size_t)" using False unfolding word_unat_eq_iff .
  then have "1 \<le> unat (v - 1)" using assms v1 by simp
  then obtain m where m: "2 ^ m \<le> unat (v - 1)" "unat (v - 1) < 2 ^ (m + 1)"
    using ex_power_ivl1 [of 2 "unat (v - 1)"] by auto
  have "(2 :: nat) ^ m < 2 ^ 63" using m assms v1 by linarith
  then have m63: "m < 63" using power_less_imp_less_exp [of 2 m 63] by simp
  have "ring_pow2 v = mask (Suc m) + 1"
    using v smear_eq_mask [of m "v - 1"] m by (simp add: ring_pow2_def)
  then have "ring_pow2 v = 2 ^ Suc m" by (simp add: mask_eq_exp_minus_1)
  moreover have "unat v \<le> 2 ^ Suc m" using m v1 by auto
  moreover have "2 ^ Suc m < 2 * unat v" using m v1 assms by auto
  ultimately show ?thesis using that [of "Suc m"] m63 by simp
qed

lemma ring_pow2_overflow:
  assumes "2 ^ 63 < unat v"
  shows "ring_pow2 v = 0"
proof -
  have v: "v \<noteq> 0" using assms by auto
  then have v1: "unat (v - 1) = unat v - 1" by (simp add: unat_minus_one)
  have "unat v < 2 ^ 64" using unsigned_less [of v, where ?'a = nat] by simp
  then have "fold (\<lambda>i v. v OR drop_bit i v) [1, 2, 4, 8, 16, 32] (v - 1) = (mask (Suc 63) :: size_t)"
    using assms v1 by (intro smear_eq_mask) auto
  then show ?thesis using v by (simp add: ring_pow2_def mask_eq_exp_minus_1)
qed

subsection \<open>Invariant and contents\<close>

definition is_pow2 :: "size_t \<Rightarrow> bool" where
  "is_pow2 s \<longleftrightarrow> (\<exists>k\<in>{0..<64}. s = 2 ^ k)"

definition ring_ok :: "shl_ring \<Rightarrow> bool" where
  "ring_ok r \<longleftrightarrow>
     length (rbuf r) = unat (rsize r) \<and> unat (rsize r) < 2 ^ 63 \<and>
     (if rsize r = 0 then rstart r = 0 \<and> rend r = 0
      else is_pow2 (rsize r) \<and> rstart r < rsize r \<and> rend r < rsize r)"

definition ring_data :: "shl_ring \<Rightarrow> char list" where
  "ring_data r =
     (if rstart r \<le> rend r
      then take (unat (rend r) - unat (rstart r)) (drop (unat (rstart r)) (rbuf r))
      else drop (unat (rstart r)) (rbuf r) @ take (unat (rend r)) (rbuf r))"

lemma is_pow2_unat: "is_pow2 s \<Longrightarrow> \<exists>k<64. unat s = 2 ^ k"
  by (force simp: is_pow2_def unat_pow2)

lemma mask_pow2:
  assumes "is_pow2 s"
  shows "unat (v AND (s - 1)) = unat v mod unat s"
proof -
  obtain k where k: "k < 64" "s = 2 ^ k" using assms by (auto simp: is_pow2_def)
  have "v AND (s - 1) = take_bit k v" by (simp add: k take_bit_eq_mask mask_eq_exp_minus_1)
  then have "unat (v AND (s - 1)) = take_bit k (unat v)" by (simp add: unsigned_take_bit_eq)
  with k show ?thesis by (simp add: take_bit_eq_mod unat_pow2)
qed

lemma unat_RING_MASK:
  "is_pow2 (rsize r) \<Longrightarrow> unat (RING_MASK r v) = unat v mod unat (rsize r)"
  by (simp add: RING_MASK_def mask_pow2)

lemma ring_data_bound: "ring_ok r \<Longrightarrow> length (ring_data r) < 2 ^ 63"
  by (auto simp: ring_ok_def ring_data_def word_less_nat_alt word_le_nat_alt split: if_splits)

lemma ring_data_lt_size: "ring_ok r \<Longrightarrow> rsize r \<noteq> 0 \<Longrightarrow> length (ring_data r) < unat (rsize r)"
  by (auto simp: ring_ok_def ring_data_def word_less_nat_alt word_le_nat_alt split: if_splits)

lemma ring_empty_ok [simp]: "ring_ok ring_empty" and ring_data_empty [simp]: "ring_data ring_empty = []"
  by (simp_all add: ring_empty_def ring_ok_def ring_data_def)

lemma shl_ring_flush_ok: "ring_ok r \<Longrightarrow> ring_ok (shl_ring_flush r)"
  by (auto simp: ring_ok_def shl_ring_flush_def word_gt_0)

lemma shl_ring_flush_data: "ring_data (shl_ring_flush r) = []"
  by (simp add: ring_data_def shl_ring_flush_def)

lemma shl_ring_length_data:
  assumes "ring_ok r"
  shows "unat (shl_ring_length r) = length (ring_data r)"
proof -
  have "rsize r = 0 \<or> rstart r < rsize r \<and> rend r < rsize r"
    using assms by (auto simp: ring_ok_def split: if_splits)
  moreover have "unat (rsize r) < 2 ^ 63" using assms by (simp add: ring_ok_def)
  moreover have "length (rbuf r) = unat (rsize r)" using assms by (simp add: ring_ok_def)
  ultimately show ?thesis
    using assms
    by (auto simp: shl_ring_length_def ring_data_def word_less_nat_alt word_le_nat_alt unat_minus_le
        unat_word_ariths ring_ok_def split: if_splits)
qed

subsection \<open>Removing data\<close>

lemma ring_okD:
  assumes "ring_ok r" and "rsize r \<noteq> 0"
  shows "is_pow2 (rsize r)" "unat (rstart r) < unat (rsize r)" "unat (rend r) < unat (rsize r)"
    "length (rbuf r) = unat (rsize r)" "unat (rsize r) < 2 ^ 63"
  using assms by (auto simp: ring_ok_def word_less_nat_alt)

lemma ring_okI:
  assumes "is_pow2 (rsize r)" "unat (rstart r) < unat (rsize r)" "unat (rend r) < unat (rsize r)"
    "length (rbuf r) = unat (rsize r)" "unat (rsize r) < 2 ^ 63"
  shows "ring_ok r"
  using assms by (auto simp: ring_ok_def word_less_nat_alt)

lemma ring_size0:
  assumes "ring_ok r" and "rsize r = 0"
  shows "rstart r = 0" "rend r = 0" "rbuf r = []"
  using assms by (auto simp: ring_ok_def)

text \<open>One advance of \<open>start\<close>, as both halves of \<open>shl_ring_pull\<close> do it.\<close>

lemma ring_advance_start:
  assumes ok: "ring_ok r"
    and l: "unat l \<le> (if rstart r \<le> rend r then unat (rend r) - unat (rstart r)
                     else unat (rsize r) - unat (rstart r))"
  shows "ring_ok (r\<lparr>rstart := RING_MASK r (rstart r + l)\<rparr>) \<and>
    ring_data (r\<lparr>rstart := RING_MASK r (rstart r + l)\<rparr>) = drop (unat l) (ring_data r)"
proof (cases "rsize r = 0")
  case True
  with ok l show ?thesis
    by (auto simp: ring_ok_def RING_MASK_def ring_data_def unat_eq_zero)
next
  case False
  note D = ring_okD [OF ok False]
  have "unat (rstart r + l) = unat (rstart r) + unat l"
    using l D by (intro unat_plus_lt) (auto split: if_splits)
  then have u: "unat (RING_MASK r (rstart r + l)) = (unat (rstart r) + unat l) mod unat (rsize r)"
    by (simp add: unat_RING_MASK D)
  have wrap: "unat (RING_MASK r (rstart r + l)) =
      (if unat (rstart r) + unat l = unat (rsize r) then 0 else unat (rstart r) + unat l)"
    unfolding u using l D by (auto split: if_splits)
  have "unat (RING_MASK r (rstart r + l)) < unat (rsize r)" unfolding u using D by simp
  then have "ring_ok (r\<lparr>rstart := RING_MASK r (rstart r + l)\<rparr>)"
    using ok False by (simp add: ring_ok_def word_less_nat_alt)
  moreover have "ring_data (r\<lparr>rstart := RING_MASK r (rstart r + l)\<rparr>) = drop (unat l) (ring_data r)"
    using l D by (auto simp: ring_data_def word_le_nat_alt wrap drop_take
        add.commute [of "unat (rstart r)" "unat l"])
  ultimately show ?thesis ..
qed

lemma shl_ring_pull_spec:
  assumes ok: "ring_ok r"
  shows "ring_ok (shl_ring_pull r len) \<and> ring_data (shl_ring_pull r len) = drop (unat len) (ring_data r)"
proof (cases "rstart r > rend r")
  case False
  then have le: "rstart r \<le> rend r" by simp
  let ?l = "min (rend r - rstart r) len"
  have lu: "unat ?l = min (unat (rend r) - unat (rstart r)) (unat len)"
    using le by (simp add: unat_min unat_minus_le)
  have "shl_ring_pull r len =
      (if len = 0 then r else r\<lparr>rstart := RING_MASK r (rstart r + ?l)\<rparr>)"
    using False by (simp add: shl_ring_pull_def)
  moreover have "drop (unat ?l) (ring_data r) = drop (unat len) (ring_data r)"
    using le lu by (auto simp: ring_data_def min_def)
  ultimately show ?thesis
    using ring_advance_start [OF ok, of ?l] ok le lu by (auto simp: unat_eq_zero)
next
  case True
  then have nz: "rsize r \<noteq> 0" using ring_size0 [OF ok] by auto
  note D = ring_okD [OF ok nz]
  let ?l = "min (rsize r - rstart r) len"
  let ?r1 = "r\<lparr>rstart := RING_MASK r (rstart r + ?l)\<rparr>"
  have sle: "rstart r \<le> rsize r" using D by (simp add: word_le_nat_alt)
  have lu: "unat ?l = min (unat (rsize r) - unat (rstart r)) (unat len)"
    using sle by (simp add: unat_min unat_minus_le)
  have adv: "ring_ok ?r1" "ring_data ?r1 = drop (unat ?l) (ring_data r)"
    using ring_advance_start [OF ok, of ?l] True lu by (auto simp: not_le)
  have pull: "shl_ring_pull r len =
      (if len - ?l = 0 then ?r1
       else ?r1\<lparr>rstart := RING_MASK ?r1 (rstart ?r1 + min (rend ?r1 - rstart ?r1) (len - ?l))\<rparr>)"
    using True by (simp add: shl_ring_pull_def Let_def)
  show ?thesis
  proof (cases "len - ?l = 0")
    case True
    then have "?l = len" by simp
    with pull adv True show ?thesis by simp
  next
    case False
    then have l: "?l = rsize r - rstart r" by (auto simp: min_def split: if_splits)
    then have "unat (rsize r) - unat (rstart r) \<le> unat len" using lu sle by (simp add: unat_minus_le)
    moreover have "unat len \<noteq> unat (rsize r) - unat (rstart r)"
      using False l sle by (metis eq_iff_diff_eq_0 unat_minus_le word_unat_eq_iff)
    ultimately have lt: "unat (rsize r) - unat (rstart r) < unat len" by simp
    have "unat (rstart ?r1) = unat (rstart r + (rsize r - rstart r)) mod unat (rsize r)"
      using l by (simp add: unat_RING_MASK D)
    then have rs: "rstart ?r1 = 0" by (simp add: unat_eq_zero)
    let ?m = "min (rend r) (len - ?l)"
    have m: "unat ?m = min (unat (rend r)) (unat len - (unat (rsize r) - unat (rstart r)))"
      using lu lt l by (simp add: unat_min unat_minus_le word_le_nat_alt sle)
    have "drop (unat ?m) (ring_data ?r1) = drop (unat len) (ring_data r)"
      using adv True rs D lt m lu l by (auto simp: ring_data_def word_le_nat_alt sle unat_minus_le min_def)
    then show ?thesis
      using pull False adv rs m ring_advance_start [OF adv(1), of ?m] by simp
  qed
qed

subsection \<open>Growing and adding data\<close>

lemma ring_resize_spec:
  assumes ok: "ring_ok r" and m: "alloc_ok malloc" and p: "is_pow2 ns" and lt: "rsize r < ns"
  shows "(malloc ns = None \<and> ring_resize malloc r ns = Err ENOMEM) \<or>
    (\<exists>r'. ring_resize malloc r ns = Ok r' \<and> ring_ok r' \<and> ring_data r' = ring_data r \<and> rsize r' = ns)"
proof (cases "malloc ns")
  case None
  then show ?thesis by (simp add: ring_resize_def)
next
  case (Some buf)
  then have len: "length buf = unat ns" and n63: "unat ns < 2 ^ 63" using alloc_okD [OF m] by auto
  have bl: "length (rbuf r) = unat (rsize r)" and ltn: "unat (rsize r) < unat ns"
    using ok lt by (auto simp: ring_ok_def word_less_nat_alt)
  consider "rend r = rstart r" | "rstart r < rend r" | "rend r < rstart r" by (meson linorder_neqE)
  then show ?thesis
  proof cases
    case 1
    have "ring_ok (r\<lparr>rend := 0, rstart := 0, rbuf := buf, rsize := ns\<rparr>)"
      using p len n63 ltn by (intro ring_okI) auto
    with 1 Some show ?thesis by (simp add: ring_resize_def ring_data_def)
  next
    case 2
    then have rs: "rsize r \<noteq> 0" using ring_size0 [OF ok] by auto
    note D = ring_okD [OF ok rs]
    have e: "unat (rend r - rstart r) = unat (rend r) - unat (rstart r)"
      using 2 by (simp add: unat_minus_le)
    let ?b = "take (unat (rend r) - unat (rstart r)) (drop (unat (rstart r)) (rbuf r)) @
        drop (unat (rend r) - unat (rstart r)) buf"
    let ?r = "r\<lparr>rend := rend r - rstart r, rstart := 0, rbuf := ?b, rsize := ns\<rparr>"
    have "ring_resize malloc r ns = Ok ?r"
      using 2 Some D len ltn by (auto simp: ring_resize_def e mem_simps word_less_nat_alt)
    moreover have "ring_ok ?r" using p n63 D len ltn e by (intro ring_okI) auto
    moreover have "ring_data ?r = ring_data r" using order_less_imp_le [OF 2] D e by (simp add: ring_data_def)
    ultimately show ?thesis by simp
  next
    case 3
    then have rs: "rsize r \<noteq> 0" using ring_size0 [OF ok] by auto
    note D = ring_okD [OF ok rs]
    let ?t = "unat (rsize r) - unat (rstart r)"
    have t: "unat (rsize r - rstart r) = ?t" using D by (simp add: unat_minus_le word_le_nat_alt)
    have lt': "unat (rend r) < unat (rstart r)" using 3 by (simp add: word_less_nat_alt)
    have e: "unat (rend r + (rsize r - rstart r)) = unat (rend r) + ?t"
      using D t by (subst unat_plus_lt) auto
    let ?b = "drop (unat (rstart r)) (rbuf r) @ take (unat (rend r)) (rbuf r) @
        drop (?t + unat (rend r)) buf"
    let ?r = "r\<lparr>rend := rend r + (rsize r - rstart r), rstart := 0, rbuf := ?b, rsize := ns\<rparr>"
    have "ring_resize malloc r ns = Ok ?r"
      using 3 Some D len ltn lt' by (auto simp: ring_resize_def t mem_simps not_less word_less_nat_alt
          add.commute [of "unat (rend r)"])
    moreover have "ring_ok ?r" using p n63 D len ltn lt' e by (intro ring_okI) auto
    moreover have "ring_data ?r = ring_data r" using 3 D e lt' by (simp add: ring_data_def word_le_nat_alt)
    ultimately show ?thesis by simp
  qed
qed

text \<open>The free space that \<open>ring_grow\<close> computes.\<close>

lemma ring_free:
  assumes ok: "ring_ok r"
  defines "len \<equiv> if rend r < rstart r then rstart r - rend r else rstart r + rsize r - rend r"
  shows "unat len + length (ring_data r) = unat (rsize r)"
proof (cases "rsize r = 0")
  case True
  then show ?thesis using ring_size0 [OF ok] by (simp add: len_def ring_data_def)
next
  case False
  note D = ring_okD [OF ok False]
  have "unat (rstart r + rsize r) = unat (rstart r) + unat (rsize r)" using D by (subst unat_plus_lt) auto
  then show ?thesis
    using D by (auto simp: len_def ring_data_def unat_minus_le word_less_nat_alt word_le_nat_alt not_less)
qed

lemma ring_grow_spec:
  assumes ok: "ring_ok r" and m: "alloc_ok malloc" and add: "unat add < 2 ^ 63"
  shows "ring_grow malloc r add = Err ENOMEM \<or>
    (\<exists>r'. ring_grow malloc r add = Ok r' \<and> ring_ok r' \<and> ring_data r' = ring_data r \<and>
       length (ring_data r) + unat add < unat (rsize r'))"
proof -
  define len where "len = (if rend r < rstart r then rstart r - rend r else rstart r + rsize r - rend r)"
  have free: "unat len + length (ring_data r) = unat (rsize r)" using ring_free [OF ok] by (simp add: len_def)
  have used: "length (ring_data r) < 2 ^ 63" by (rule ring_data_bound [OF ok])
  show ?thesis
  proof (cases "add < len")
    case True
    then have "ring_grow malloc r add = Ok r" unfolding ring_grow_def Let_def len_def [symmetric] by simp
    then show ?thesis using ok free True by (auto simp: word_less_nat_alt)
  next
    case False
    define v where "v = rsize r + add - len + 1"
    have "v = (rsize r - len) + add + 1" by (simp add: v_def)
    moreover have "unat (rsize r - len) = length (ring_data r)"
      using free by (simp add: unat_minus_le word_le_nat_alt)
    ultimately have v: "unat v = length (ring_data r) + unat add + 1"
      using used add by (simp add: unat_word_ariths)
    have g: "ring_grow malloc r add =
        (if ring_pow2 v \<le> rsize r then Err ENOMEM else ring_resize malloc r (ring_pow2 v))"
      using False unfolding ring_grow_def Let_def len_def [symmetric] v_def [symmetric] by simp
    show ?thesis
    proof (cases "unat v \<le> 2 ^ 63")
      case True
      then obtain k where k: "k < 64" "ring_pow2 v = 2 ^ k" "unat v \<le> 2 ^ k"
        using ring_pow2_spec [of v] v by auto
      then have "is_pow2 (ring_pow2 v)" by (auto simp: is_pow2_def)
      moreover have "unat v \<le> unat (ring_pow2 v)" using k by (simp add: unat_pow2)
      ultimately show ?thesis
        using g v ring_resize_spec [OF ok m, of "ring_pow2 v"] by (auto simp: not_le)
    next
      case False
      then show ?thesis using g ring_pow2_overflow [of v] by simp
    qed
  qed
qed

text \<open>Growing succeeds when there is memory for twice the data.\<close>

lemma ring_grow_succeeds:
  assumes ok: "ring_ok r" and m: "alloc_ok malloc" and add: "unat add < 2 ^ 63"
    and mem: "serves (2 * (length (ring_data r) + unat add + 1)) malloc"
  shows "ring_grow malloc r add \<noteq> Err ENOMEM"
proof -
  define len where "len = (if rend r < rstart r then rstart r - rend r else rstart r + rsize r - rend r)"
  have free: "unat len + length (ring_data r) = unat (rsize r)" using ring_free [OF ok] by (simp add: len_def)
  have used: "length (ring_data r) < 2 ^ 63" by (rule ring_data_bound [OF ok])
  show ?thesis
  proof (cases "add < len")
    case True
    then show ?thesis unfolding ring_grow_def Let_def len_def [symmetric] by simp
  next
    case False
    define v where "v = rsize r + add - len + 1"
    have "v = (rsize r - len) + add + 1" by (simp add: v_def)
    moreover have "unat (rsize r - len) = length (ring_data r)"
      using free by (simp add: unat_minus_le word_le_nat_alt)
    ultimately have v: "unat v = length (ring_data r) + unat add + 1"
      using used add by (simp add: unat_word_ariths)
    have g: "ring_grow malloc r add =
        (if ring_pow2 v \<le> rsize r then Err ENOMEM else ring_resize malloc r (ring_pow2 v))"
      using False unfolding ring_grow_def Let_def len_def [symmetric] v_def [symmetric] by simp
    have v63: "unat v \<le> 2 ^ 63"
    proof (rule ccontr)
      assume "\<not> unat v \<le> 2 ^ 63"
      then have "malloc (2 ^ 63) \<noteq> None" using mem v by (intro servesD [OF mem]) simp
      then show False using alloc_okD(2) [OF m, of "2 ^ 63"] by auto
    qed
    then obtain k where k: "k < 64" "ring_pow2 v = 2 ^ k" "unat v \<le> 2 ^ k" "2 ^ k < 2 * unat v"
      using ring_pow2_spec [of v] v by auto
    then have p: "unat (ring_pow2 v) = 2 ^ k" by (simp add: unat_pow2)
    then have lt: "rsize r < ring_pow2 v" using k(3) v free False by (simp add: word_less_nat_alt)
    have "malloc (ring_pow2 v) \<noteq> None" by (rule servesD [OF mem]) (use p k(4) v in simp)
    moreover have "is_pow2 (ring_pow2 v)" using k by (auto simp: is_pow2_def)
    ultimately show ?thesis using g lt ring_resize_spec [OF ok m, of "ring_pow2 v"] by (auto simp: not_le)
  qed
qed

text \<open>One copy of \<open>shl_ring_push\<close> at the end position, up to the end of the buffer.\<close>

lemma ring_append_at_end:
  assumes ok: "ring_ok r" and nz: "rsize r \<noteq> 0"
    and fit: "length (ring_data r) + length d < unat (rsize r)"
    and room: "unat (rend r) + length d \<le> unat (rsize r)"
    and l: "unat l = length d"
  defines "b \<equiv> take (unat (rend r)) (rbuf r) @ d @ drop (unat (rend r) + length d) (rbuf r)"
  shows "ring_ok (r\<lparr>rbuf := b, rend := RING_MASK r (rend r + l)\<rparr>) \<and>
    ring_data (r\<lparr>rbuf := b, rend := RING_MASK r (rend r + l)\<rparr>) = ring_data r @ d"
proof -
  note D = ring_okD [OF ok nz]
  have "unat (rend r + l) = unat (rend r) + length d" using l room D by (subst unat_plus_lt) auto
  then have u: "unat (RING_MASK r (rend r + l)) = (unat (rend r) + length d) mod unat (rsize r)"
    by (simp add: unat_RING_MASK D)
  have wrap: "unat (RING_MASK r (rend r + l)) =
      (if unat (rend r) + length d = unat (rsize r) then 0 else unat (rend r) + length d)"
    unfolding u using room by auto
  have "ring_ok (r\<lparr>rbuf := b, rend := RING_MASK r (rend r + l)\<rparr>)"
    using D room u by (intro ring_okI) (auto simp: b_def)
  moreover have "ring_data (r\<lparr>rbuf := b, rend := RING_MASK r (rend r + l)\<rparr>) = ring_data r @ d"
    using fit room D by (auto simp: ring_data_def b_def wrap word_le_nat_alt drop_take split: if_splits)
  ultimately show ?thesis ..
qed

lemma shl_ring_push_grows:
  assumes ok: "ring_ok r" and m: "alloc_ok malloc" and d: "length d < 2 ^ 63"
  shows "shl_ring_push malloc r d = Err ENOMEM \<and> ring_grow malloc r (of_nat (length d)) = Err ENOMEM \<or>
    (\<exists>r'. shl_ring_push malloc r d = Ok r' \<and> ring_ok r' \<and> ring_data r' = ring_data r @ d)"
proof -
  let ?len = "of_nat (length d) :: size_t"
  have len: "unat ?len = length d" using d by (intro unat_of_nat_lt) simp
  consider "ring_grow malloc r ?len = Err ENOMEM"
    | r1 where "ring_grow malloc r ?len = Ok r1" "ring_ok r1" "ring_data r1 = ring_data r"
        "length (ring_data r1) + length d < unat (rsize r1)"
    using ring_grow_spec [OF ok m, of ?len] len d by auto
  then show ?thesis
  proof cases
    case 1
    then show ?thesis by (simp add: shl_ring_push_def)
  next
    case 2
    then have nz: "rsize r1 \<noteq> 0" by auto
    note D = ring_okD [OF 2(2) nz]
    have ele: "rend r1 \<le> rsize r1" using D by (simp add: word_le_nat_alt)
    show ?thesis
    proof (cases "rstart r1 \<le> rend r1")
      case False
      then have room: "unat (rend r1) + length d \<le> unat (rsize r1)"
        using 2(4) D by (simp add: ring_data_def)
      have z: "?len = 0 \<longleftrightarrow> d = []" using len by (metis length_0_conv unat_eq_zero)
      from ring_append_at_end [OF 2(2) nz 2(4) room len] show ?thesis
        using 2 False room len z
        by (cases "d = []") (auto simp: shl_ring_push_def Let_def mem_simps D)
    next
      case True
      define l where "l = min (rsize r1 - rend r1) ?len"
      have lu: "unat l = min (unat (rsize r1) - unat (rend r1)) (length d)"
        using ele len by (simp add: l_def unat_min unat_minus_le)
      have lle: "l \<le> ?len" by (simp add: l_def)
      define d1 where "d1 = take (unat l) d"
      define d2 where "d2 = drop (unat l) d"
      have dd: "d = d1 @ d2" and l1: "length d1 = unat l" and l2: "length d2 = unat (?len - l)"
        using lu len lle by (auto simp: d1_def d2_def unat_minus_le)
      define r2 where "r2 = r1\<lparr>rbuf := take (unat (rend r1)) (rbuf r1) @ d1 @
          drop (unat (rend r1) + length d1) (rbuf r1), rend := RING_MASK r1 (rend r1 + l)\<rparr>"
      have fit1: "length (ring_data r1) + length d1 < unat (rsize r1)" using 2(4) dd by simp
      have room1: "unat (rend r1) + length d1 \<le> unat (rsize r1)" using l1 lu D by simp
      have r2: "ring_ok r2" "ring_data r2 = ring_data r1 @ d1"
        using ring_append_at_end [OF 2(2) nz fit1 room1 l1 [symmetric]] by (simp_all add: r2_def)
      have push: "shl_ring_push malloc r d =
          (if ?len - l = 0 then Ok r2
           else rbind (memcpy (rbuf r2) (unat (rend r2)) d (unat l) (unat (?len - l))) (\<lambda>b.
                Ok (r2\<lparr>rbuf := b, rend := RING_MASK r2 (rend r2 + (?len - l))\<rparr>)))"
        using 2 True D lu l1
        by (simp add: shl_ring_push_def Let_def mem_simps r2_def d1_def flip: l_def)
      show ?thesis
      proof (cases "?len - l = 0")
        case True
        then have "d2 = []" using l2 by simp
        then show ?thesis using True push r2 2 dd by simp
      next
        case False
        then have "length d2 > 0" using l2 by (metis unat_gt_0)
        then have full: "unat (rend r1) + length d1 = unat (rsize r1)"
          using arg_cong [OF dd, of length] l1 lu D by (simp add: min_def split: if_splits)
        have re: "unat (rend r2) = 0" and rs: "rsize r2 = rsize r1"
          using full D l1 by (auto simp: r2_def unat_RING_MASK unat_word_ariths)
        have room: "unat (rend r2) + length d2 \<le> unat (rsize r2)" using re rs 2 dd by auto
        have nz2: "rsize r2 \<noteq> 0" using rs nz by simp
        have fit2: "length (ring_data r2) + length d2 < unat (rsize r2)" using r2(2) rs 2(4) dd by simp
        have "memcpy (rbuf r2) (unat (rend r2)) d (unat l) (unat (?len - l)) =
            Ok (take (unat (rend r2)) (rbuf r2) @ d2 @ drop (unat (rend r2) + length d2) (rbuf r2))"
          unfolding l2 [symmetric] using room ring_okD(4) [OF r2(1) nz2]
          by (subst memcpy_Ok) (auto simp: d2_def lu)
        then show ?thesis
          using push False ring_append_at_end [OF r2(1) nz2 fit2 room l2 [symmetric]] r2(2) 2(3) dd
          by simp
      qed
    qed
  qed
qed

lemma shl_ring_push_spec:
  assumes "ring_ok r" and "alloc_ok malloc" and "length d < 2 ^ 63"
  shows "shl_ring_push malloc r d = Err ENOMEM \<or>
    (\<exists>r'. shl_ring_push malloc r d = Ok r' \<and> ring_ok r' \<and> ring_data r' = ring_data r @ d)"
  using shl_ring_push_grows [OF assms] by blast

lemma shl_ring_push_succeeds:
  assumes "ring_ok r" and "alloc_ok malloc" and "length d < 2 ^ 63"
    and "serves (2 * (length (ring_data r) + length d + 1)) malloc"
  shows "shl_ring_push malloc r d \<noteq> Err ENOMEM"
proof -
  have "unat (of_nat (length d) :: size_t) = length d" using assms(3) by (intro unat_of_nat_lt) simp
  then show ?thesis using ring_grow_succeeds [OF assms(1,2), of "of_nat (length d)"] shl_ring_push_grows [OF assms(1-3)] assms(3,4) by auto
qed

subsection \<open>Reading data\<close>

text \<open>The vectors of \<open>shl_ring_peek\<close> describe exactly the data of the ring.\<close>

definition vec_bytes :: "char list \<Rightarrow> size_t \<times> size_t \<Rightarrow> char list" where
  "vec_bytes b v = take (unat (snd v)) (drop (unat (fst v)) b)"

lemma shl_ring_peek_data:
  assumes ok: "ring_ok r"
  shows "concat (map (vec_bytes (rbuf r)) (take (fst (shl_ring_peek r)) (snd (shl_ring_peek r)))) =
    ring_data r"
proof (cases "rsize r = 0")
  case True
  then show ?thesis using ring_size0 [OF ok] by (simp add: shl_ring_peek_def ring_data_def)
next
  case False
  note D = ring_okD [OF ok False]
  have "rstart r \<le> rsize r" using D by (simp add: word_le_nat_alt)
  with D show ?thesis
    by (auto simp: shl_ring_peek_def ring_data_def vec_bytes_def unat_minus_le word_less_nat_alt
        word_le_nat_alt not_less numeral_2_eq_2)
qed

lemma shl_ring_peek_zero: "ring_ok r \<Longrightarrow> fst (shl_ring_peek r) = 0 \<longleftrightarrow> ring_data r = []"
proof (cases "rsize r = 0")
  case False
  assume ok: "ring_ok r"
  note D = ring_okD [OF ok False]
  show ?thesis using D
    by (auto simp: shl_ring_peek_def ring_data_def word_less_nat_alt word_le_nat_alt word_unat_eq_iff)
qed (auto simp: shl_ring_peek_def ring_data_def dest: ring_size0)

lemma length_ring_data_sum:
  assumes ok: "ring_ok r" and peek: "shl_ring_peek r = (n, vec)"
  shows "unat ((if n > 0 then snd (vec ! 0) else 0) + (if n > 1 then snd (vec ! 1) else 0)) =
    length (ring_data r)"
proof (cases "rsize r = 0")
  case True
  then show ?thesis using ring_size0 [OF ok] peek by (auto simp: shl_ring_peek_def ring_data_def)
next
  case False
  note D = ring_okD [OF ok False]
  have s: "rstart r \<le> rsize r" using D by (simp add: word_le_nat_alt)
  have "unat (rsize r - rstart r) + unat (rend r) < 2 ^ LENGTH(64)"
    using D s by (simp add: unat_minus_le)
  from unat_plus_lt [OF this] show ?thesis using peek D s
    by (auto simp: shl_ring_peek_def ring_data_def unat_minus_le word_less_nat_alt word_le_nat_alt
        split: if_splits)
qed

lemma shl_ring_copy_spec:
  fixes len :: size_t
  assumes ok: "ring_ok r" and m: "alloc_ok malloc"
  defines "n \<equiv> min (unat len) (length (ring_data r))"
  shows "shl_ring_copy malloc r len =
    (if malloc (of_nat n + 1) = None then Err ENOMEM else Ok (take n (ring_data r) @ [NUL], of_nat n))"
proof -
  obtain k vec where peek: "shl_ring_peek r = (k, vec)" by fastforce
  define sum where "sum = (if k > 0 then snd (vec ! 0) else 0) + (if k > 1 then snd (vec ! 1) else 0)"
  define sum' where "sum' = (if len < sum then len else sum)"
  have "unat sum = length (ring_data r)" using length_ring_data_sum [OF ok peek] by (simp add: sum_def)
  then have su: "unat sum' = n" by (auto simp: sum'_def n_def word_less_nat_alt)
  then have sn: "sum' = of_nat n" by (simp flip: su)
  have n63: "n < 2 ^ 63" using ring_data_bound [OF ok] by (simp add: n_def)
  have copy: "shl_ring_copy malloc r len = (case malloc (sum' + 1) of None \<Rightarrow> Err ENOMEM | Some b \<Rightarrow>
      rbind (mem_write b (unat sum') NUL) (\<lambda>b.
      if k > 0 then
        rbind (memcpy b 0 (rbuf r) (unat (fst (vec ! 0))) (unat (min (snd (vec ! 0)) sum'))) (\<lambda>b.
        if k > 1 \<and> sum' - min (snd (vec ! 0)) sum' > 0 then
          rbind (memcpy b (unat (min (snd (vec ! 0)) sum')) (rbuf r) (unat (fst (vec ! 1)))
            (unat (min (snd (vec ! 1)) (sum' - min (snd (vec ! 0)) sum')))) (\<lambda>b. Ok (b, sum'))
        else Ok (b, sum'))
      else Ok (b, sum')))"
    unfolding shl_ring_copy_def peek Let_def case_prod_conv sum_def [symmetric] sum'_def [symmetric] ..
  show ?thesis
  proof (cases "malloc (sum' + 1)")
    case None
    then show ?thesis using sn by (simp add: copy)
  next
    case (Some b)
    have "unat (sum' + 1) = n + 1" using su n63 by (subst unat_plus_lt) auto
    then have lb: "length b = n + 1" using Some alloc_okD(1) [OF m] by auto
    have "shl_ring_copy malloc r len = Ok (take n (ring_data r) @ [NUL], sum')"
    proof (cases "rsize r = 0")
      case True
      then have "k = 0" "n = 0" using ring_size0 [OF ok] peek by (auto simp: shl_ring_peek_def n_def ring_data_def)
      then show ?thesis using Some lb su
        by (cases b) (auto simp: copy mem_simps)
    next
      case False
      note D = ring_okD [OF ok False]
      have s: "unat (rsize r - rstart r) = unat (rsize r) - unat (rstart r)"
        using D by (simp add: unat_minus_le word_le_nat_alt)
      define b1 where "b1 = b[n := NUL]"
      have b1: "length b1 = n + 1" "drop n b1 = [NUL]" using lb
        by (auto simp: b1_def drop_update_swap intro: nth_equalityI)
      have w: "mem_write b (unat sum') NUL = Ok b1" using lb su by (simp add: mem_simps b1_def)
      consider "rstart r < rend r" | "rend r < rstart r" | "rend r = rstart r" by (meson linorder_neqE)
      then show ?thesis
      proof cases
        case 1
        then have p: "k = 1" "vec = [(rstart r, rend r - rstart r)]" using peek by (auto simp: shl_ring_peek_def)
        have rd: "ring_data r = take (unat (rend r) - unat (rstart r)) (drop (unat (rstart r)) (rbuf r))"
          using 1 by (simp add: ring_data_def order_less_imp_le)
        have "sum = rend r - rstart r" by (simp add: sum_def p)
        then have "min (rend r - rstart r) sum' = sum'" by (auto simp: sum'_def min_def)
        moreover have "n + unat (rstart r) \<le> unat (rend r)" using 1 D rd by (simp add: n_def word_less_nat_alt)
        ultimately show ?thesis using Some w b1 D su rd
          by (simp add: copy mem_simps Let_def p min_def add.commute)
      next
        case 2
        let ?t = "unat (rsize r) - unat (rstart r)"
        have p: "k = (if rend r \<noteq> 0 then 2 else 1)" "vec = [(rstart r, rsize r - rstart r), (0, rend r)]"
          using 2 peek less_not_sym [OF 2] by (auto simp: shl_ring_peek_def)
        have rd: "ring_data r = drop (unat (rstart r)) (rbuf r) @ take (unat (rend r)) (rbuf r)"
          using 2 by (auto simp: ring_data_def not_le [symmetric])
        show ?thesis
        proof (cases "n \<le> ?t")
          case True
          then have "min (rsize r - rstart r) sum' = sum'" using s su by (intro min_absorb2) (simp add: word_le_nat_alt)
          moreover have "take n (ring_data r) = take n (drop (unat (rstart r)) (rbuf r))"
            using True D rd by simp
          ultimately show ?thesis using Some w b1 D su True
            by (simp add: copy mem_simps Let_def p add.commute)
        next
          case False
          then have t: "unat (min (rsize r - rstart r) sum') = ?t" using s su by (simp add: unat_min)
          have "rend r \<noteq> 0" using False D rd by (auto simp: n_def)
          then have k2: "k = 2" by (simp add: p)
          have rest: "unat (sum' - min (rsize r - rstart r) sum') = n - ?t"
            using su t by (simp add: unat_minus_le)
          then have rest0: "sum' - min (rsize r - rstart r) sum' > 0" using False by (simp add: word_less_nat_alt)
          have "n - ?t \<le> unat (rend r)" using D rd by (simp add: n_def)
          then have l1: "unat (min (rend r) (sum' - min (rsize r - rstart r) sum')) = n - ?t"
            using rest by (simp add: unat_min)
          have "take n (ring_data r) = drop (unat (rstart r)) (rbuf r) @ take (n - ?t) (rbuf r)"
            using False D rd \<open>n - ?t \<le> unat (rend r)\<close> by simp
          moreover have "memcpy b1 0 (rbuf r) (unat (rstart r)) ?t =
              Ok (drop (unat (rstart r)) (rbuf r) @ drop ?t b1)"
            using D b1 False by (subst memcpy_Ok) auto
          moreover have "memcpy (drop (unat (rstart r)) (rbuf r) @ drop ?t b1) ?t (rbuf r) 0 (n - ?t) =
              Ok (drop (unat (rstart r)) (rbuf r) @ take (n - ?t) (rbuf r) @ [NUL])"
            using D b1 False \<open>n - ?t \<le> unat (rend r)\<close> by (subst memcpy_Ok) auto
          ultimately show ?thesis using Some w t rest0 l1 k2 by (simp add: copy p(2))
        qed
      next
        case 3
        then have "k = 0" "n = 0" using peek by (auto simp: shl_ring_peek_def n_def ring_data_def)
        then show ?thesis using Some b1 w
          by (simp add: copy mem_simps)
      qed
    qed
    then show ?thesis using sn Some by simp
  qed
qed

subsection \<open>The queue contract\<close>

text \<open>
  What a client of a byte queue relies on. A failed push reports \<open>ENOMEM\<close>; a successful one appends;
  a pull drops from the front. \<open>fifo_run\<close> performs a list of operations until one fails.
\<close>

datatype fifo_op = Push block_alloc "char list" | Pull size_t | Flush

fun fifo_op_ok :: "fifo_op \<Rightarrow> bool" where
  "fifo_op_ok (Push m d) \<longleftrightarrow> alloc_ok m \<and> length d < 2 ^ 63"
| "fifo_op_ok _ \<longleftrightarrow> True"

fun fifo_spec :: "char list \<Rightarrow> fifo_op \<Rightarrow> char list" where
  "fifo_spec q (Push m d) = q @ d"
| "fifo_spec q (Pull n) = drop (unat n) q"
| "fifo_spec q Flush = []"

fun fifo_run ::
    "(block_alloc \<Rightarrow> 'r \<Rightarrow> char list \<Rightarrow> 'r result) \<Rightarrow> ('r \<Rightarrow> size_t \<Rightarrow> 'r) \<Rightarrow> ('r \<Rightarrow> 'r) \<Rightarrow>
     'r \<Rightarrow> fifo_op list \<Rightarrow> 'r result" where
  "fifo_run push pull flush r [] = Ok r"
| "fifo_run push pull flush r (Push m d # ops) =
     rbind (push m r d) (\<lambda>r. fifo_run push pull flush r ops)"
| "fifo_run push pull flush r (Pull n # ops) = fifo_run push pull flush (pull r n) ops"
| "fifo_run push pull flush r (Flush # ops) = fifo_run push pull flush (flush r) ops"

locale byte_fifo =
  fixes push :: "block_alloc \<Rightarrow> 'r \<Rightarrow> char list \<Rightarrow> 'r result"
    and pull :: "'r \<Rightarrow> size_t \<Rightarrow> 'r"
    and flush :: "'r \<Rightarrow> 'r"
    and used :: "'r \<Rightarrow> size_t"
    and data :: "'r \<Rightarrow> char list"
    and good :: "'r \<Rightarrow> bool"
  assumes push_cases: "good r \<Longrightarrow> alloc_ok m \<Longrightarrow> length d < 2 ^ 63 \<Longrightarrow>
      push m r d = Err ENOMEM \<or> (\<exists>r'. push m r d = Ok r' \<and> good r' \<and> data r' = data r @ d)"
    and pull_good: "good r \<Longrightarrow> good (pull r n)"
    and pull_data: "good r \<Longrightarrow> data (pull r n) = drop (unat n) (data r)"
    and flush_good: "good r \<Longrightarrow> good (flush r)"
    and flush_data: "data (flush r) = []"
    and used_data: "good r \<Longrightarrow> unat (used r) = length (data r)"
begin

lemma data_fits: "good r \<Longrightarrow> length (data r) < 2 ^ 64"
  using used_data [of r] unsigned_less [of "used r", where ?'a = nat] by simp

lemma pull_all: "good r \<Longrightarrow> data (pull r (used r)) = []"
  by (simp add: pull_data used_data)

lemma pull_pull:
  "good r \<Longrightarrow> unat a + unat b < 2 ^ LENGTH(64) \<Longrightarrow> data (pull (pull r a) b) = data (pull r (a + b))"
  by (simp only: pull_data pull_good drop_drop unat_plus_lt add.commute [of "unat b"])

lemma push_pull_order:
  assumes "good r" "alloc_ok m" "length d < 2 ^ 63" and "push m r d = Ok r'"
  shows "data (pull r' (used r)) = d"
  using push_cases [OF assms(1-3)] assms by (auto simp: pull_data used_data)

lemma fifo_run_cases:
  assumes "good r" and "list_all fifo_op_ok ops"
  shows "fifo_run push pull flush r ops = Err ENOMEM \<or>
    (\<exists>r'. fifo_run push pull flush r ops = Ok r' \<and> good r' \<and>
       data r' = foldl fifo_spec (data r) ops)"
  using assms
proof (induction ops arbitrary: r)
  case (Cons op ops)
  show ?case
  proof (cases op)
    case (Push m d)
    then show ?thesis using Cons.prems push_cases [of r m d] Cons.IH by (auto; metis)
  next
    case (Pull n)
    then show ?thesis using Cons.prems Cons.IH [of "pull r n"] by (simp add: pull_data pull_good)
  next
    case Flush
    then show ?thesis using Cons.prems Cons.IH [of "flush r"] by (simp add: flush_data flush_good)
  qed
qed simp

end

interpretation rq: byte_fifo shl_ring_push shl_ring_pull shl_ring_flush shl_ring_length ring_data ring_ok
  by unfold_locales
    (simp_all add: shl_ring_push_spec shl_ring_pull_spec shl_ring_flush_ok shl_ring_flush_data
       shl_ring_length_data)

subsection \<open>Properties\<close>

text \<open>
  C3: The ring buffer is a byte queue. Any sequence of pushes, pulls and flushes on a well-formed
  ring runs without an access outside the buffer; it either stops with \<open>ENOMEM\<close> or ends in a
  well-formed ring whose contents are those of the abstract queue after the same operations.
\<close>

theorem shl_ring_refines_queue:
  assumes "ring_ok r" and "list_all fifo_op_ok ops"
  shows "fifo_run shl_ring_push shl_ring_pull shl_ring_flush r ops = Err ENOMEM \<or>
    (\<exists>r'. fifo_run shl_ring_push shl_ring_pull shl_ring_flush r ops = Ok r' \<and> ring_ok r' \<and>
       ring_data r' = foldl fifo_spec (ring_data r) ops \<and>
       unat (shl_ring_length r') = length (ring_data r'))"
  using rq.fifo_run_cases [OF assms] rq.used_data by blast

theorem shl_ring_refines_queue_witness:
  "fifo_run shl_ring_push shl_ring_pull shl_ring_flush ring_empty
       [Push demo_alloc ''abc'', Pull 2, Push demo_alloc ''de''] = Err ENOMEM \<or>
    (\<exists>r'. fifo_run shl_ring_push shl_ring_pull shl_ring_flush ring_empty
        [Push demo_alloc ''abc'', Pull 2, Push demo_alloc ''de''] = Ok r' \<and> ring_ok r' \<and>
       ring_data r' = ''cde'' \<and> unat (shl_ring_length r') = 3)"
  using shl_ring_refines_queue [of ring_empty "[Push demo_alloc ''abc'', Pull 2, Push demo_alloc ''de'']"]
  by (force simp: demo_alloc_ok)

text \<open>
  \<open>shl_ring_copy\<close> returns a fresh zero-terminated block with the first bytes of the queue, as
  many as asked for or as there are, and stores their number; it fails only when \<open>malloc\<close> fails.
  The ring itself is only read.
\<close>

lemma shl_ring_copy_correct:
  fixes len :: size_t
  assumes "ring_ok r" and "alloc_ok malloc"
  shows "shl_ring_copy malloc r len =
    (let n = min (unat len) (length (ring_data r))
     in if malloc (of_nat n + 1) = None then Err ENOMEM else Ok (take n (ring_data r) @ [NUL], of_nat n))"
  using shl_ring_copy_spec [OF assms, of len] by (simp add: Let_def)

lemma shl_ring_copy_correct_witness:
  "shl_ring_copy demo_alloc \<lparr>rbuf = ''cdab'', rsize = 4, rstart = 2, rend = 1\<rparr> 9 =
     Ok (''abc'' @ [NUL], 3)"
proof -
  let ?r = "\<lparr>rbuf = ''cdab'', rsize = 4, rstart = 2, rend = 1\<rparr>"
  have "ring_ok ?r" and "ring_data ?r = ''abc''" 
    by (simp_all add: ring_ok_def ring_data_def is_pow2_def word_le_nat_alt word_less_nat_alt bexI [of _ 2])
  with shl_ring_copy_correct [of ?r demo_alloc 9] show ?thesis
    by (simp add: demo_alloc_ok demo_alloc_def Let_def)
qed

end
