(* ===== verification/Cstring.thy ===== *)
theory Cstring
  imports Prelude
begin

text \<open>
  The string functions of the C library that the sources call, on C strings without their
  terminator: \<open>strncasecmp\<close>, \<open>strtoul\<close> (C locale, base 10, 64-bit \<open>unsigned long\<close>), \<open>strncmp\<close>,
  \<open>strchr\<close> and \<open>strdup\<close>; and strings that lie one after the other in a block.
\<close>

definition c_isspace :: "char \<Rightarrow> bool" where
  "c_isspace c \<longleftrightarrow> c = SPACE \<or> c \<in> {TAB, LF, CHR 0x0B, CHR 0x0C, CR}"

definition c_isdigit :: "char \<Rightarrow> bool" where
  "c_isdigit c \<longleftrightarrow> 48 \<le> (of_char c :: nat) \<and> (of_char c :: nat) \<le> 57"

definition c_tolower :: "char \<Rightarrow> char" where
  "c_tolower c =
     (if 65 \<le> (of_char c :: nat) \<and> (of_char c :: nat) \<le> 90 then char_of (of_char c + 32 :: nat) else c)"

text \<open>\<open>strncasecmp(a, b, n) == 0\<close> for C strings \<open>a\<close> and \<open>b\<close>.\<close>

definition strncaseeq :: "char list \<Rightarrow> char list \<Rightarrow> nat \<Rightarrow> bool" where
  "strncaseeq a b n \<longleftrightarrow> map c_tolower (take n a) = map c_tolower (take n b)"

definition dec_value :: "char list \<Rightarrow> nat" where
  "dec_value ds = foldl (\<lambda>v d. 10 * v + (of_char d - 48)) 0 ds"

text \<open>
  \<open>strtoul(s, &e, 10)\<close>: the value and the string at \<open>e\<close>. Leading white space and a sign are skipped,
  a value that does not fit is \<open>ULONG_MAX\<close>, a negative sign negates in \<open>unsigned long\<close>, and without
  a digit nothing is consumed.
\<close>

definition strtoul :: "char list \<Rightarrow> 64 word \<times> char list" where
  "strtoul s =
     (let t = dropWhile c_isspace s;
          neg = (t \<noteq> [] \<and> hd t = CHR ''-'');
          u = (if t \<noteq> [] \<and> (hd t = CHR ''-'' \<or> hd t = CHR ''+'') then tl t else t);
          ds = takeWhile c_isdigit u;
          v = dec_value ds
      in if ds = [] then (0, s)
         else (if v \<ge> 2 ^ 64 then - 1 else if neg then - of_nat v else of_nat v, dropWhile c_isdigit u))"

text \<open>\<open>strncmp(s, t, n)\<close>: the difference of the first bytes that differ (as \<open>unsigned char\<close>).\<close>

fun strncmp :: "char list \<Rightarrow> char list \<Rightarrow> nat \<Rightarrow> int" where
  "strncmp s t 0 = 0"
| "strncmp [] [] (Suc n) = 0"
| "strncmp [] (b # t) (Suc n) = - of_char b"
| "strncmp (a # s) [] (Suc n) = of_char a"
| "strncmp (a # s) (b # t) (Suc n) = (if a \<noteq> b then of_char a - of_char b else strncmp s t n)"

lemma of_char_eq_0: "(of_char c :: int) = 0 \<longleftrightarrow> c = NUL"
  using of_char_eq_iff [of c NUL, where ?'a = int] by simp

lemma strncmp_prefix:
  "NUL \<notin> set t \<Longrightarrow> strncmp s t (length t) = 0 \<longleftrightarrow> take (length t) s = t"
proof (induction t arbitrary: s)
  case (Cons b t)
  then show ?case by (cases s) (auto simp: of_char_eq_0)
qed simp

text \<open>The first difference of two strings neither of which is a prefix of the other.\<close>

fun first_diff :: "char list \<Rightarrow> char list \<Rightarrow> int" where
  "first_diff (a # s) (b # t) = (if a \<noteq> b then of_char a - of_char b else first_diff s t)"
| "first_diff _ _ = 0"

lemma strncmp_first_diff: "first_diff s t \<noteq> 0 \<Longrightarrow> strncmp (s @ r) t (length t) = first_diff s t"
  by (induction s t rule: first_diff.induct) auto

text \<open>The string after the first occurrence of \<open>c\<close>, if there is one.\<close>

definition after_chr :: "char \<Rightarrow> char list \<Rightarrow> char list option" where
  "after_chr c s = (if c \<in> set s then Some (tl (dropWhile (\<lambda>x. x \<noteq> c) s)) else None)"

definition strdup :: "block_alloc \<Rightarrow> char list \<Rightarrow> char list option" where
  "strdup malloc s = (case malloc (of_nat (length s + 1)) of None \<Rightarrow> None | Some _ \<Rightarrow> Some s)"

text \<open>Decimal numerals, and that \<open>strtoul\<close> reads them back.\<close>

fun dec_digits :: "nat \<Rightarrow> char list" where
  "dec_digits n = (if n < 10 then [char_of (48 + n)] else dec_digits (n div 10) @ [char_of (48 + n mod 10)])"

declare dec_digits.simps [simp del]

lemma of_char_digit: "n < 10 \<Longrightarrow> of_char (char_of (48 + n) :: char) = 48 + (n :: nat)"
  by (simp add: of_char_of)

lemma dec_digits_isdigit: "c \<in> set (dec_digits n) \<Longrightarrow> c_isdigit c"
  by (induction n rule: dec_digits.induct, subst (asm) (2) dec_digits.simps)
    (auto simp: c_isdigit_def of_char_digit split: if_splits)

lemma dec_value_digits: "dec_value (dec_digits n) = n"
  by (induction n rule: dec_digits.induct, subst dec_digits.simps)
    (auto simp: dec_value_def of_char_digit)

lemma dec_digits_not_Nil: "dec_digits n \<noteq> []"
  by (subst dec_digits.simps) simp

lemma digit_facts: "c_isdigit c \<Longrightarrow> \<not> c_isspace c \<and> c \<noteq> CHR ''-'' \<and> c \<noteq> CHR ''+''"
  by (auto simp: c_isdigit_def c_isspace_def)

lemma strtoul_digits_suffix:
  assumes sp: "list_all c_isspace sp" and r: "r = [] \<or> \<not> c_isdigit (hd r)"
  shows "strtoul (sp @ dec_digits n @ r) = (if n \<ge> 2 ^ 64 then - 1 else of_nat n, r)"
proof -
  have d: "\<forall>c\<in>set (dec_digits n). c_isdigit c" by (simp add: dec_digits_isdigit)
  obtain c cs where cs: "dec_digits n = c # cs" using dec_digits_not_Nil by (cases "dec_digits n") auto
  then have c: "\<not> c_isspace c" "c \<noteq> CHR ''-''" "c \<noteq> CHR ''+''" using d digit_facts by auto
  have 1: "dropWhile c_isspace (sp @ dec_digits n @ r) = dec_digits n @ r"
    using sp c(1) by (simp add: cs dropWhile_append list_all_iff)
  have "takeWhile c_isdigit r = []" "dropWhile c_isdigit r = r" using r by (cases r; simp)+
  then have 2: "takeWhile c_isdigit (dec_digits n @ r) = dec_digits n"
    "dropWhile c_isdigit (dec_digits n @ r) = r"
    using d by (simp_all add: takeWhile_append2 dropWhile_append2)
  have 3: "hd (dec_digits n @ r) = c" "dec_digits n @ r \<noteq> []" using cs by simp_all
  show ?thesis unfolding strtoul_def Let_def 1 using c 3 by (simp add: 2 dec_value_digits cs [symmetric] dec_digits_not_Nil)
qed

lemma strtoul_digits:
  "n < 2 ^ 64 \<Longrightarrow> list_all c_isspace sp \<Longrightarrow> strtoul (sp @ dec_digits n) = (of_nat n, [])"
  using strtoul_digits_suffix [of sp "[]" n] by simp

text \<open>Strings one after the other, each with its terminator.\<close>

definition flat :: "char list list \<Rightarrow> char list" where
  "flat ts = concat (map (\<lambda>t. t @ [NUL]) ts)"

lemma flat_simps [simp]: "flat [] = []" "flat (t # ts) = t @ NUL # flat ts" "flat (ts @ us) = flat ts @ flat us"
  by (simp_all add: flat_def)

end
