(* ===== verification/Rtsp_Header.thy ===== *)
theory Rtsp_Header
  imports Cstring
begin

text \<open>
  The header-line helpers of \<open>src/rtsp_decoder.c\<close>: the in-place clean-up of a received line
  (\<open>sanitize_header_line\<close>), and the recognition of the content length (\<open>parse_header_line\<close>) with
  the string functions of \<open>Cstring\<close>.

  The clean-up is proved equal to a function on lists; its result has no zero byte, no trailing
  blank and is never longer than its input.
\<close>

subsection \<open>Cleaning a header line\<close>

text \<open>
  The variables the loop of \<open>sanitize_header_line\<close> carries besides its two pointers, and one pass
  through the loop body on the character \<open>c\<close>: \<open>None\<close> is a \<open>continue\<close>, otherwise the character that
  is stored.
\<close>

record san_state =
  last_c :: char
  quoted :: bool
  escaped :: bool

definition sanitize_char :: "char \<Rightarrow> san_state \<Rightarrow> char option \<times> san_state" where
  "sanitize_char c s =
     (let prev = last_c s; s = s\<lparr>last_c := c\<rparr>
      in if quoted s then
           if prev = BACKSLASH \<and> \<not> escaped s then
             (Some (if c = NUL then CHR ''0'' else c), s\<lparr>escaped := True\<rparr>)
           else
             let s = s\<lparr>escaped := False\<rparr>
             in if c = DQUOTE then (Some c, s\<lparr>quoted := False\<rparr>)
                else if c = NUL then (None, s)
                else (Some c, s)
         else if c = NUL then (None, s)
         else
           let (c, s) = (if c = CR \<or> c = LF \<or> c = TAB then (SPACE, s\<lparr>last_c := SPACE\<rparr>) else (c, s))
           in if c = SPACE \<and> prev = SPACE then (None, s)
              else if c = DQUOTE then (Some c, s\<lparr>quoted := True, escaped := False\<rparr>)
              else (Some c, s))"

text \<open>\<open>i\<close> and \<open>dst\<close> are the offsets of the pointers \<open>src\<close> and \<open>dst\<close>; \<open>n\<close> passes are left.\<close>

fun sanitize_loop :: "nat \<Rightarrow> char list \<Rightarrow> nat \<Rightarrow> nat \<Rightarrow> san_state \<Rightarrow> (char list \<times> nat) result" where
  "sanitize_loop 0 line i dst s = Ok (line, dst)"
| "sanitize_loop (Suc n) line i dst s =
     rbind (mem_read line i) (\<lambda>c.
     case sanitize_char c s of
       (None, s) \<Rightarrow> sanitize_loop n line (Suc i) dst s
     | (Some c, s) \<Rightarrow>
         rbind (mem_write line dst c) (\<lambda>line. sanitize_loop n line (Suc i) (Suc dst) s))"

fun sanitize_trim :: "char list \<Rightarrow> nat \<Rightarrow> (char list \<times> nat) result" where
  "sanitize_trim line 0 = Ok (line, 0)"
| "sanitize_trim line (Suc dst) =
     rbind (mem_read line dst) (\<lambda>c.
     if c = SPACE then rbind (mem_write line dst NUL) (\<lambda>line. sanitize_trim line dst)
     else Ok (line, Suc dst))"

definition san_init :: san_state where
  "san_init = \<lparr>last_c = NUL, quoted = False, escaped = False\<rparr>"

definition sanitize_header_line :: "char list \<Rightarrow> size_t \<Rightarrow> (char list \<times> size_t) result" where
  "sanitize_header_line line len =
     rbind (sanitize_loop (unat len) line 0 0 san_init) (\<lambda>(line, dst).
     rbind (mem_write line dst NUL) (\<lambda>line.
     rbind (sanitize_trim line dst) (\<lambda>(line, dst). Ok (line, of_nat dst))))"

text \<open>The same as functions on lists.\<close>

fun sanitize_out :: "san_state \<Rightarrow> char list \<Rightarrow> char list" where
  "sanitize_out s [] = []"
| "sanitize_out s (c # cs) =
     (case sanitize_char c s of (None, s) \<Rightarrow> sanitize_out s cs | (Some c, s) \<Rightarrow> c # sanitize_out s cs)"

definition rtrim :: "char list \<Rightarrow> char list" where
  "rtrim cs = rev (dropWhile (\<lambda>c. c = SPACE) (rev cs))"

definition sanitized :: "char list \<Rightarrow> char list" where
  "sanitized cs = rtrim (sanitize_out san_init cs)"

lemma sanitize_char_not_NUL: "sanitize_char c s = (Some d, s') \<Longrightarrow> d \<noteq> NUL"
  by (auto simp: sanitize_char_def Let_def split: if_splits)

lemma sanitize_out_NUL_free: "NUL \<notin> set (sanitize_out s cs)"
  by (induction cs arbitrary: s) (auto split: prod.splits option.splits dest: sanitize_char_not_NUL [OF sym])

lemma length_sanitize_out: "length (sanitize_out s cs) \<le> length cs"
  by (induction cs arbitrary: s) (auto split: prod.splits option.splits intro: le_SucI)

lemma set_rtrim: "set (rtrim cs) \<subseteq> set cs"
  by (auto simp: rtrim_def dest: set_dropWhileD)

lemma length_rtrim: "length (rtrim cs) \<le> length cs"
  using length_dropWhile_le [of "\<lambda>c. c = SPACE" "rev cs"] by (simp add: rtrim_def)

lemma rtrim_snoc: "rtrim (cs @ [c]) = (if c = SPACE then rtrim cs else cs @ [c])"
  by (simp add: rtrim_def)

lemma rtrim_no_trailing: "rtrim cs \<noteq> [] \<Longrightarrow> last (rtrim cs) \<noteq> SPACE"
  by (metis (mono_tags, lifting) hd_dropWhile last_rev rev_is_Nil_conv rtrim_def)

lemma sanitized_NUL_free: "NUL \<notin> set (sanitized cs)"
  using set_rtrim [of "sanitize_out san_init cs"] sanitize_out_NUL_free by (auto simp: sanitized_def)

lemma length_sanitized: "length (sanitized cs) \<le> length cs"
  using length_rtrim length_sanitize_out le_trans unfolding sanitized_def by blast

text \<open>
  The loop never overtakes itself: \<open>done\<close> is stored before the read position and \<open>cs\<close> is unread.
\<close>

lemma sanitize_loop_spec:
  assumes "length don \<le> i" "i + length cs < length line" "take (length don) line = don"
    "take (length cs) (drop i line) = cs"
  shows "\<exists>rest. sanitize_loop (length cs) line i (length don) s =
      Ok (don @ sanitize_out s cs @ rest, length don + length (sanitize_out s cs)) \<and>
    length (don @ sanitize_out s cs @ rest) = length line"
  using assms
proof (induction cs arbitrary: don i line s)
  case Nil
  then show ?case
    by (intro exI [of _ "drop (length don) line"]) (simp, metis append_take_drop_id)
next
  case (Cons c cs)
  then have i: "i < length line" and c: "line ! i = c"
    by (auto simp: take_Suc_conv_app_nth nth_append nth_drop take_eq_Nil
        dest!: arg_cong [where f = "\<lambda>xs. xs ! 0"])
  have tl: "take (length cs) (drop (Suc i) line) = cs"
    using Cons.prems(4) by (metis drop_Suc length_Cons list.sel(3) tl_drop tl_take diff_Suc_1)
  obtain d s' where step: "sanitize_char c s = (d, s')" by fastforce
  show ?case
  proof (cases d)
    case None
    with step i c Cons.prems tl Cons.IH [of don "Suc i" line s'] show ?thesis
      by (simp add: mem_simps)
  next
    case (Some x)
    let ?line = "line[length don := x]"
    have "take (Suc (length don)) ?line = don @ [x]"
      using Cons.prems by (simp add: take_Suc_conv_app_nth)
    moreover have "take (length cs) (drop (Suc i) ?line) = cs"
      using tl Cons.prems(1) by (simp add: drop_update_cancel)
    ultimately show ?thesis
      using step i c Cons.prems Some Cons.IH [of "don @ [x]" "Suc i" ?line s']
      by (simp add: mem_simps)
  qed
qed

lemma sanitize_trim_spec:
  assumes "line = out @ NUL # rest" "NUL \<notin> set out"
  shows "\<exists>rest'. sanitize_trim line (length out) = Ok (rtrim out @ NUL # rest', length (rtrim out)) \<and>
    length (rtrim out @ NUL # rest') = length line"
  using assms
proof (induction out arbitrary: line rest rule: rev_induct)
  case Nil
  then show ?case by (simp add: rtrim_def)
next
  case (snoc c out)
  show ?case
  proof (cases "c = SPACE")
    case True
    with snoc.prems snoc.IH [of "out @ NUL # NUL # rest" "NUL # rest"] show ?thesis
      by (simp add: mem_simps nth_append rtrim_snoc list_update_append)
  qed (use snoc.prems in \<open>simp add: mem_simps nth_append rtrim_snoc\<close>)
qed

lemma sanitize_header_line_spec:
  assumes len: "length line = unat len + 1"
  obtains rest where
    "sanitize_header_line line len =
       Ok (sanitized (take (unat len) line) @ NUL # rest,
           of_nat (length (sanitized (take (unat len) line))))"
    "length (sanitized (take (unat len) line) @ NUL # rest) = length line"
proof -
  let ?cs = "take (unat len) line"
  let ?out = "sanitize_out san_init ?cs"
  obtain rest where loop: "sanitize_loop (unat len) line 0 0 san_init = Ok (?out @ rest, length ?out)"
    and l1: "length (?out @ rest) = length line"
    using sanitize_loop_spec [of "[]" 0 ?cs line san_init] len by auto
  then obtain x rest1 where rest: "rest = x # rest1"
    using length_sanitize_out [of san_init ?cs] len by (cases rest) auto
  obtain rest' where
    "sanitize_trim (?out @ NUL # rest1) (length ?out) = Ok (rtrim ?out @ NUL # rest', length (rtrim ?out))"
    "length (rtrim ?out @ NUL # rest') = length (?out @ NUL # rest1)"
    using sanitize_trim_spec [OF refl sanitize_out_NUL_free] by blast
  then show thesis
    using loop rest l1
    by (intro that [of rest']) (simp_all add: sanitize_header_line_def mem_simps sanitized_def)
qed

subsection \<open>Reading the content length\<close>

text \<open>
  \<open>parse_header_line\<close> on a line (a C string) and the value of \<open>dec->remaining_body\<close>: the new value of
  \<open>dec->remaining_body\<close>.
\<close>

definition parse_header_line :: "size_t \<Rightarrow> char list \<Rightarrow> size_t result" where
  "parse_header_line remaining line =
     (if strncaseeq line ''content-length:'' 15 then
        let (l, e) = strtoul (drop 15 line)
        in if drop 15 line = [] \<or> e \<noteq> [] then Err EINVAL
           else if remaining \<noteq> 0 \<and> remaining \<noteq> l then Err EINVAL
           else Ok l
      else Ok remaining)"

lemma parse_header_line_cases:
  "parse_header_line rem line = Err EINVAL \<or> (\<exists>l. parse_header_line rem line = Ok l)"
  by (simp add: parse_header_line_def Let_def split: prod.splits)

lemma parse_content_length:
  assumes "map c_tolower k = ''content-length:''" and "list_all c_isspace sp" and "n < 2 ^ 64"
  shows "parse_header_line rem (k @ sp @ dec_digits n) =
    (if rem \<noteq> 0 \<and> rem \<noteq> of_nat n then Err EINVAL else Ok (of_nat n))"
proof -
  have "length k = 15" using arg_cong [OF assms(1), of length] by simp
  moreover have "map c_tolower ''content-length:'' = ''content-length:''" by (simp add: c_tolower_def)
  ultimately have "strncaseeq (k @ sp @ dec_digits n) ''content-length:'' 15"
    "drop 15 (k @ sp @ dec_digits n) = sp @ dec_digits n"
    using assms(1) by (simp_all add: strncaseeq_def)
  then show ?thesis
    using strtoul_digits [OF assms(3,2)] dec_digits_not_Nil by (simp add: parse_header_line_def)
qed

lemma parse_other_line:
  "\<not> strncaseeq line ''content-length:'' 15 \<Longrightarrow> parse_header_line rem line = Ok rem"
  by (simp add: parse_header_line_def)

subsection \<open>Properties\<close>

text \<open>
  The in-place clean-up of a header line stays inside the line (a block of \<open>len\<close> bytes and a
  terminator), leaves the C string that the list function \<open>sanitized\<close> describes, and returns its
  length; this string has no zero byte, does not end in a blank and is not longer than the input.
\<close>

lemma sanitize_header_line_correct:
  assumes "length line = unat len + 1"
  shows "\<exists>line'. sanitize_header_line line len =
      Ok (line', of_nat (length (sanitized (take (unat len) line)))) \<and>
    length line' = length line \<and> cstr line' = sanitized (take (unat len) line) \<and>
    NUL \<notin> set (cstr line') \<and> length (cstr line') \<le> unat len \<and>
    (cstr line' = [] \<or> last (cstr line') \<noteq> SPACE)"
proof -
  let ?s = "sanitized (take (unat len) line)"
  obtain rest where "sanitize_header_line line len = Ok (?s @ NUL # rest, of_nat (length ?s))"
    "length (?s @ NUL # rest) = length line"
    using sanitize_header_line_spec [OF assms] .
  moreover have "?s = [] \<or> last ?s \<noteq> SPACE" using rtrim_no_trailing by (auto simp: sanitized_def)
  moreover have "length ?s \<le> unat len" using length_sanitized [of "take (unat len) line"] by simp
  ultimately show ?thesis by (intro exI [of _ "?s @ NUL # rest"]) (simp add: sanitized_NUL_free)
qed

lemma sanitize_header_line_correct_witness:
  "\<exists>line'. sanitize_header_line (''CSeq:'' @ [TAB] @ ''  2 '' @ [CR, LF, NUL]) 12 = Ok (line', 7) \<and>
    cstr line' = ''CSeq: 2''"
proof -
  have "sanitized (''CSeq:'' @ [TAB] @ ''  2 '' @ [CR, LF]) = ''CSeq: 2''"
    by (simp add: sanitized_def sanitize_char_def san_init_def rtrim_def)
  then show ?thesis
    using sanitize_header_line_correct [of "''CSeq:'' @ [TAB] @ ''  2 '' @ [CR, LF, NUL]" 12]
    by auto
qed

text \<open>
  A content-length line, in any mixture of cases and with any white space before the number,
  announces exactly the decimal number it holds, up to \<open>ULONG_MAX\<close>; it is rejected when another
  length has been announced before.
\<close>

lemma content_length_line_correct:
  assumes "map c_tolower k = ''content-length:''" and "list_all c_isspace sp" and "n < 2 ^ 64"
  shows "parse_header_line rem (k @ sp @ dec_digits n) =
    (if rem \<noteq> 0 \<and> rem \<noteq> of_nat n then Err EINVAL else Ok (of_nat n))"
  using assms by (rule parse_content_length)

theorem content_length_line_correct_witness:
  "parse_header_line 0 (''Content-LENGTH:'' @ '' '' @ dec_digits 42) = Ok 42"
proof -
  have "map c_tolower ''Content-LENGTH:'' = ''content-length:''" by code_simp
  from content_length_line_correct [OF this, of "'' ''" 42 0] show ?thesis by (simp add: c_isspace_def)
qed

end
