(* ===== verification/Rtsp_Decoder.thy ===== *)
theory Rtsp_Decoder
  imports Ring Rtsp_Header
begin

text \<open>
  The streaming RTSP message decoder of \<open>src/rtsp_decoder.c\<close>. The decoder object is a record with
  the ring buffer of received bytes, the state of the line scanner and the message under
  construction; \<open>delivered\<close> logs the messages handed to the callback and \<open>ticks\<close> counts the
  allocations, whose outcome is an argument.

  The concrete decoder works on byte counts in the ring; the abstract decoder \<open>spec_char\<close> works on
  lists of characters and lines. The main results are memory safety and the simulation of the
  abstract decoder by the concrete one, hence that the way the input is cut into chunks does not
  matter, and that a well-formed message comes out as it was sent.
\<close>

subsection \<open>Data\<close>

record owfd_rtsp_msg =
  header_num :: size_t
  header :: "char list option slot list"
  header_len :: "size_t slot list"
  body :: "char list option"
  body_len :: size_t

datatype dec_state = STATE_NEW | STATE_HEADER | STATE_HEADER_QUOTE | STATE_HEADER_NL | STATE_BODY

record owfd_rtsp_decoder =
  cb :: bool
  ring :: shl_ring
  dstate :: dec_state
  last_chr :: char
  remaining_body :: size_t
  dquoted :: bool
  header_size :: size_t
  msg :: owfd_rtsp_msg
  delivered :: "owfd_rtsp_msg list"
  ticks :: nat

type_synonym 'a dec_op = "(owfd_rtsp_decoder, 'a) op"

subsection \<open>Construction and destruction\<close>

text \<open>The object has 120 bytes, a pointer and a \<open>size_t\<close> have 8.\<close>

definition owfd_rtsp_decoder_new :: "allocator \<Rightarrow> bool \<Rightarrow> owfd_rtsp_decoder result" where
  "owfd_rtsp_decoder_new M has_cb =
     (case M 0 120 of None \<Rightarrow> Err ENOMEM | Some _ \<Rightarrow>
      case M 1 (8 * 8) of None \<Rightarrow> Err ENOMEM | Some _ \<Rightarrow>
      case M 2 (8 * 8) of None \<Rightarrow> Err ENOMEM | Some _ \<Rightarrow>
        Ok \<lparr>cb = has_cb, ring = ring_empty, dstate = STATE_NEW, last_chr = NUL, remaining_body = 0,
            dquoted = False, header_size = 8,
            msg = \<lparr>header_num = 0, header = replicate 8 (Init None), header_len = replicate 8 (Init 0),
                   body = None, body_len = 0\<rparr>,
            delivered = [], ticks = 3\<rparr>)"

fun slot_val :: "'a slot \<Rightarrow> 'a result" where
  "slot_val Uninit = Fault"
| "slot_val (Init x) = Ok x"

text \<open>\<open>free\<close> of every header line; freeing a pointer that was never written is a \<open>Fault\<close>.\<close>

fun free_headers :: "nat \<Rightarrow> owfd_rtsp_msg \<Rightarrow> unit result" where
  "free_headers 0 m = Ok ()"
| "free_headers (Suc n) m =
     rbind (free_headers n m) (\<lambda>_. rbind (mem_read (header m) n) (\<lambda>p. rbind (slot_val p) (\<lambda>_. Ok ())))"

definition owfd_rtsp_decoder_free :: "owfd_rtsp_decoder \<Rightarrow> unit result" where
  "owfd_rtsp_decoder_free d = free_headers (unat (header_num (msg d))) (msg d)"

definition owfd_rtsp_decoder_flush :: "owfd_rtsp_decoder \<Rightarrow> owfd_rtsp_decoder" where
  "owfd_rtsp_decoder_flush d =
     d\<lparr>ring := shl_ring_flush (ring d), dstate := STATE_NEW, last_chr := NUL, remaining_body := 0\<rparr>"

subsection \<open>Messages and header lines\<close>

definition clear_header :: "owfd_rtsp_msg \<Rightarrow> nat \<Rightarrow> owfd_rtsp_msg result" where
  "clear_header m i =
     rbind (mem_read (header m) i) (\<lambda>p.
     rbind (slot_val p) (\<lambda>_.
     rbind (mem_write (header m) i (Init None)) (\<lambda>h.
     rbind (mem_write (header_len m) i (Init 0)) (\<lambda>l.
     Ok (m\<lparr>header := h, header_len := l\<rparr>)))))"

fun clear_headers :: "nat \<Rightarrow> owfd_rtsp_msg \<Rightarrow> owfd_rtsp_msg result" where
  "clear_headers 0 m = Ok m"
| "clear_headers (Suc n) m = rbind (clear_headers n m) (\<lambda>m. clear_header m n)"

definition msg_done :: "unit dec_op" where
  "msg_done =
     sbind (smod (\<lambda>d. if cb d then d\<lparr>delivered := delivered d @ [msg d]\<rparr> else d)) (\<lambda>_.
     sbind (sget msg) (\<lambda>m.
     sbind (slift (clear_headers (unat (header_num m)) m)) (\<lambda>m.
     smod (\<lambda>d. d\<lparr>msg := m\<lparr>header_num := 0, body := None, body_len := 0\<rparr>\<rparr>))))"

text \<open>
  \<open>realloc\<close> of an array of 8-byte elements to \<open>bytes\<close> bytes: the old elements are kept, new ones are
  not initialised.
\<close>

definition realloc_array :: "block_alloc \<Rightarrow> 'a slot list \<Rightarrow> size_t \<Rightarrow> 'a slot list option" where
  "realloc_array m xs bytes =
     (case m bytes of
        None \<Rightarrow> None
      | Some _ \<Rightarrow> Some (take (unat bytes div 8) xs @ replicate (unat bytes div 8 - length xs) Uninit))"

definition tick :: "owfd_rtsp_decoder \<Rightarrow> owfd_rtsp_decoder" where
  "tick d = d\<lparr>ticks := Suc (ticks d)\<rparr>"

definition grow_headers :: "allocator \<Rightarrow> unit dec_op" where
  "grow_headers M d =
     (if header_size d = header_num (msg d) + 2 then
        let n = header_size d * 2
        in if n < header_size d then (d, Err ENOMEM)
           else
             case realloc_array (M (ticks d)) (header (msg d)) (8 * n) of
               None \<Rightarrow> (tick d, Err ENOMEM)
             | Some h \<Rightarrow>
                 let d = tick (d\<lparr>msg := (msg d)\<lparr>header := h\<rparr>\<rparr>)
                 in case realloc_array (M (ticks d)) (header_len (msg d)) (8 * n) of
                      None \<Rightarrow> (tick d, Err ENOMEM)
                    | Some l \<Rightarrow>
                        (tick (d\<lparr>msg := (msg d)\<lparr>header_len := l\<rparr>, header_size := n\<rparr>), Ok ())
      else (d, Ok ()))"

definition push_header_line :: "allocator \<Rightarrow> char list \<Rightarrow> size_t \<Rightarrow> unit dec_op" where
  "push_header_line M line len =
     sbind (grow_headers M) (\<lambda>_.
     sbind (sget msg) (\<lambda>m.
     let n = header_num m
     in sbind (slift (mem_write (header m) (unat n) (Init (Some line)))) (\<lambda>h.
        sbind (slift (mem_write (header_len m) (unat n) (Init len))) (\<lambda>l.
        sbind (slift (mem_write h (unat (n + 1)) (Init None))) (\<lambda>h.
        sbind (slift (mem_write l (unat (n + 1)) (Init 0))) (\<lambda>l.
        smod (\<lambda>d. d\<lparr>msg := m\<lparr>header := h, header_len := l, header_num := n + 1\<rparr>\<rparr>)))))))"

definition finish_header_line :: "allocator \<Rightarrow> size_t \<Rightarrow> unit dec_op" where
  "finish_header_line M rlen =
     sbind (\<lambda>d. (tick d, shl_ring_copy (M (ticks d)) (ring d) rlen)) (\<lambda>(line, l).
     sbind (smod (\<lambda>d. d\<lparr>ring := shl_ring_pull (ring d) rlen\<rparr>)) (\<lambda>_.
     sbind (slift (sanitize_header_line line l)) (\<lambda>(line, l).
     sbind (\<lambda>d. (d, parse_header_line (remaining_body d) (cstr line))) (\<lambda>rb.
     sbind (smod (\<lambda>d. d\<lparr>remaining_body := rb\<rparr>)) (\<lambda>_.
     push_header_line M line l)))))"

subsection \<open>The scanner\<close>

definition is_lws :: "char \<Rightarrow> bool" where
  "is_lws c \<longleftrightarrow> c = CR \<or> c = LF \<or> c = TAB \<or> c = SPACE"

definition feed_char_new :: "char \<Rightarrow> size_t \<Rightarrow> size_t dec_op" where
  "feed_char_new ch rlen =
     (if is_lws ch then sret (rlen + 1)
      else
        sbind (smod (\<lambda>d. d\<lparr>dstate := STATE_HEADER, remaining_body := 0,
                           ring := shl_ring_pull (ring d) rlen\<rparr>)) (\<lambda>_. sret 1))"

text \<open>The last two cases of the switch begin with the same conditional end of the previous line.\<close>

definition finish_if_newline :: "allocator \<Rightarrow> size_t \<Rightarrow> size_t dec_op" where
  "finish_if_newline M rlen =
     sbind (sget last_chr) (\<lambda>lc.
     if lc = CR \<or> lc = LF then sbind (finish_header_line M rlen) (\<lambda>_. sret 0) else sret rlen)"

definition feed_char_header :: "allocator \<Rightarrow> char \<Rightarrow> size_t \<Rightarrow> size_t dec_op" where
  "feed_char_header M ch rlen =
     sbind (sget last_chr) (\<lambda>lc.
     if ch = CR then
       if lc = CR \<or> lc = LF then
         sbind (smod (\<lambda>d. d\<lparr>dstate := STATE_HEADER_NL\<rparr>)) (\<lambda>_.
         sbind (finish_header_line M rlen) (\<lambda>_.
         sbind (sget remaining_body) (\<lambda>rb.
         sbind (if rb = 0 then msg_done else sret ()) (\<lambda>_. sret (0 + 1)))))
       else sret (rlen + 1)
     else if ch = LF then
       if lc = LF then
         sbind (finish_header_line M rlen) (\<lambda>_.
         sbind (smod (\<lambda>d. d\<lparr>dstate := STATE_BODY\<rparr>)) (\<lambda>_.
         sbind (sget remaining_body) (\<lambda>rb.
         sbind (if rb = 0 then sbind (smod (\<lambda>d. d\<lparr>dstate := STATE_NEW\<rparr>)) (\<lambda>_. msg_done) else sret ()) (\<lambda>_.
         sbind (smod (\<lambda>d. d\<lparr>ring := shl_ring_pull (ring d) 1\<rparr>)) (\<lambda>_. sret 0)))))
       else if lc = CR then sret (rlen + 1)
       else sret (rlen + 1)
     else if ch = DQUOTE then
       sbind (finish_if_newline M rlen) (\<lambda>rlen.
       sbind (smod (\<lambda>d. d\<lparr>dstate := STATE_HEADER_QUOTE, dquoted := False\<rparr>)) (\<lambda>_. sret (rlen + 1)))
     else if ch = TAB \<or> ch = SPACE then sret (rlen + 1)
     else sbind (finish_if_newline M rlen) (\<lambda>rlen. sret (rlen + 1)))"

definition feed_char_header_quote :: "char \<Rightarrow> size_t \<Rightarrow> size_t dec_op" where
  "feed_char_header_quote ch rlen d =
     (if last_chr d = BACKSLASH \<and> \<not> dquoted d then (d\<lparr>dquoted := True\<rparr>, Ok (rlen + 1))
      else
        let d = d\<lparr>dquoted := False\<rparr>
        in if ch = DQUOTE then (d\<lparr>dstate := STATE_HEADER\<rparr>, Ok (rlen + 1)) else (d, Ok (rlen + 1)))"

definition feed_char_body :: "allocator \<Rightarrow> char \<Rightarrow> size_t \<Rightarrow> size_t dec_op" where
  "feed_char_body M ch rlen =
     sbind (sget remaining_body) (\<lambda>rb.
     if rb = 0 then
       sbind (smod (\<lambda>d. d\<lparr>dstate := STATE_NEW\<rparr>)) (\<lambda>_. feed_char_new ch rlen)
     else
       sbind (smod (\<lambda>d. d\<lparr>remaining_body := rb - 1\<rparr>)) (\<lambda>_.
       let rlen = rlen + 1
       in if rb - 1 = 0 then
            sbind (\<lambda>d. (tick d, shl_ring_copy (M (ticks d)) (ring d) rlen)) (\<lambda>(line, l).
            sbind (smod (\<lambda>d. d\<lparr>msg := (msg d)\<lparr>body := Some line, body_len := l\<rparr>\<rparr>)) (\<lambda>_.
            sbind msg_done (\<lambda>_.
            sbind (smod (\<lambda>d. d\<lparr>dstate := STATE_NEW, ring := shl_ring_pull (ring d) rlen\<rparr>)) (\<lambda>_.
            sret 0))))
          else sret rlen))"

definition feed_char_header_nl :: "allocator \<Rightarrow> char \<Rightarrow> size_t \<Rightarrow> size_t dec_op" where
  "feed_char_header_nl M ch rlen =
     (if ch = LF then
        sbind (smod (\<lambda>d. d\<lparr>ring := shl_ring_pull (ring d) (rlen + 1), dstate := STATE_BODY\<rparr>)) (\<lambda>_.
        sbind (smod (\<lambda>d. if remaining_body d = 0 then d\<lparr>dstate := STATE_NEW\<rparr> else d)) (\<lambda>_. sret 0))
      else
        sbind (smod (\<lambda>d. d\<lparr>ring := shl_ring_pull (ring d) rlen, dstate := STATE_BODY\<rparr>)) (\<lambda>_.
        feed_char_body M ch 0))"

definition feed_char :: "allocator \<Rightarrow> char \<Rightarrow> size_t \<Rightarrow> size_t dec_op" where
  "feed_char M ch rlen =
     sbind (sget dstate) (\<lambda>s.
     case s of
       STATE_NEW \<Rightarrow> feed_char_new ch rlen
     | STATE_HEADER \<Rightarrow> feed_char_header M ch rlen
     | STATE_HEADER_QUOTE \<Rightarrow> feed_char_header_quote ch rlen
     | STATE_HEADER_NL \<Rightarrow> feed_char_header_nl M ch rlen
     | STATE_BODY \<Rightarrow> feed_char_body M ch rlen)"

fun feed_loop :: "allocator \<Rightarrow> char list \<Rightarrow> size_t \<Rightarrow> unit dec_op" where
  "feed_loop M [] rlen = sret ()"
| "feed_loop M (c # cs) rlen =
     sbind (feed_char M c rlen) (\<lambda>l.
     sbind (smod (\<lambda>d. d\<lparr>last_chr := c\<rparr>)) (\<lambda>_. feed_loop M cs l))"

definition owfd_rtsp_decoder_feed :: "allocator \<Rightarrow> char list \<Rightarrow> unit dec_op" where
  "owfd_rtsp_decoder_feed M buf d =
     (let rlen = shl_ring_length (ring d)
      in case shl_ring_push (M (ticks d)) (ring d) buf of
           Err _ \<Rightarrow> (tick d, Err ENOMEM)
         | Fault \<Rightarrow> (d, Fault)
         | Ok r \<Rightarrow>
             (case feed_loop M buf rlen (tick (d\<lparr>ring := r\<rparr>)) of
                (d, Err e) \<Rightarrow> (owfd_rtsp_decoder_flush d, Err e)
              | (d, res) \<Rightarrow> (d, res)))"

subsection \<open>The abstract decoder\<close>

record adec =
  a_cb :: bool
  a_state :: dec_state
  a_last :: char
  a_rem :: size_t
  a_quoted :: bool
  a_pend :: "char list"
  a_lines :: "char list list"
  a_out :: "(char list list \<times> char list option) list"

definition a_done :: "char list option \<Rightarrow> adec \<Rightarrow> adec" where
  "a_done b a = a\<lparr>a_out := (if a_cb a then a_out a @ [(a_lines a, b)] else a_out a), a_lines := []\<rparr>"

definition a_finish :: "adec \<Rightarrow> adec option" where
  "a_finish a =
     (let line = sanitized (a_pend a)
      in case parse_header_line (a_rem a) line of
           Ok rb \<Rightarrow> Some (a\<lparr>a_rem := rb, a_lines := a_lines a @ [line], a_pend := []\<rparr>)
         | _ \<Rightarrow> None)"

definition a_push :: "char \<Rightarrow> adec \<Rightarrow> adec" where
  "a_push c a = a\<lparr>a_pend := a_pend a @ [c]\<rparr>"

definition spec_new :: "char \<Rightarrow> adec \<Rightarrow> adec" where
  "spec_new c a =
     (if is_lws c then a_push c a else a\<lparr>a_state := STATE_HEADER, a_rem := 0, a_pend := [c]\<rparr>)"

definition spec_body :: "char \<Rightarrow> adec \<Rightarrow> adec" where
  "spec_body c a =
     (if a_rem a = 0 then spec_new c (a\<lparr>a_state := STATE_NEW\<rparr>)
      else if a_rem a = 1 then
        a_done (Some (a_pend a @ [c])) (a\<lparr>a_rem := 0, a_state := STATE_NEW, a_pend := []\<rparr>)
      else a_push c (a\<lparr>a_rem := a_rem a - 1\<rparr>))"

definition a_newline :: "adec \<Rightarrow> bool" where
  "a_newline a \<longleftrightarrow> a_last a = CR \<or> a_last a = LF"

definition spec_header :: "char \<Rightarrow> adec \<Rightarrow> adec option" where
  "spec_header c a =
     (if c = CR then
        if a_newline a then
          map_option (\<lambda>a. a_push c (if a_rem a = 0 then a_done None a else a))
            (a_finish (a\<lparr>a_state := STATE_HEADER_NL\<rparr>))
        else Some (a_push c a)
      else if c = LF then
        if a_last a = LF then
          map_option (\<lambda>a. if a_rem a = 0 then a_done None (a\<lparr>a_state := STATE_NEW\<rparr>)
                          else a\<lparr>a_state := STATE_BODY\<rparr>) (a_finish a)
        else Some (a_push c a)
      else if c = DQUOTE then
        map_option (\<lambda>a. a_push c (a\<lparr>a_state := STATE_HEADER_QUOTE, a_quoted := False\<rparr>))
          (if a_newline a then a_finish a else Some a)
      else if c = TAB \<or> c = SPACE then Some (a_push c a)
      else map_option (a_push c) (if a_newline a then a_finish a else Some a))"

definition spec_quote :: "char \<Rightarrow> adec \<Rightarrow> adec" where
  "spec_quote c a =
     (if a_last a = BACKSLASH \<and> \<not> a_quoted a then a_push c (a\<lparr>a_quoted := True\<rparr>)
      else if c = DQUOTE then a_push c (a\<lparr>a_quoted := False, a_state := STATE_HEADER\<rparr>)
      else a_push c (a\<lparr>a_quoted := False\<rparr>))"

definition spec_nl :: "char \<Rightarrow> adec \<Rightarrow> adec" where
  "spec_nl c a =
     (if c = LF then a\<lparr>a_pend := [], a_state := (if a_rem a = 0 then STATE_NEW else STATE_BODY)\<rparr>
      else spec_body c (a\<lparr>a_pend := [], a_state := STATE_BODY\<rparr>))"

definition spec_char :: "char \<Rightarrow> adec \<Rightarrow> adec option" where
  "spec_char c a =
     (case a_state a of
        STATE_NEW \<Rightarrow> Some (spec_new c a)
      | STATE_HEADER \<Rightarrow> spec_header c a
      | STATE_HEADER_QUOTE \<Rightarrow> Some (spec_quote c a)
      | STATE_HEADER_NL \<Rightarrow> Some (spec_nl c a)
      | STATE_BODY \<Rightarrow> Some (spec_body c a))"

fun spec_run :: "char list \<Rightarrow> adec \<Rightarrow> adec option" where
  "spec_run [] a = Some a"
| "spec_run (c # cs) a =
     (case spec_char c a of None \<Rightarrow> None | Some a \<Rightarrow> spec_run cs (a\<lparr>a_last := c\<rparr>))"

subsection \<open>Invariant and abstraction\<close>

definition line_ok :: "char list option slot \<Rightarrow> size_t slot \<Rightarrow> bool" where
  "line_ok h l \<longleftrightarrow>
     (\<exists>s rest. h = Init (Some (s @ NUL # rest)) \<and> NUL \<notin> set s \<and> l = Init (of_nat (length s)))"

definition msg_ok :: "owfd_rtsp_msg \<Rightarrow> bool" where
  "msg_ok m \<longleftrightarrow>
     unat (header_num m) < length (header m) \<and> unat (header_num m) < length (header_len m) \<and>
     (\<forall>i<unat (header_num m). line_ok (header m ! i) (header_len m ! i)) \<and>
     header m ! unat (header_num m) = Init None \<and> header_len m ! unat (header_num m) = Init 0 \<and>
     (case body m of None \<Rightarrow> body_len m = 0 | Some b \<Rightarrow> unat (body_len m) < length b \<and> b ! unat (body_len m) = NUL)"

definition slot_line :: "char list option slot \<Rightarrow> char list" where
  "slot_line h = (case h of Init (Some b) \<Rightarrow> cstr b | _ \<Rightarrow> [])"

definition msg_lines :: "owfd_rtsp_msg \<Rightarrow> char list list" where
  "msg_lines m = map slot_line (take (unat (header_num m)) (header m))"

definition msg_body :: "owfd_rtsp_msg \<Rightarrow> char list option" where
  "msg_body m = map_option (take (unat (body_len m))) (body m)"

definition msg_abs :: "owfd_rtsp_msg \<Rightarrow> char list list \<times> char list option" where
  "msg_abs m = (msg_lines m, msg_body m)"

definition dec_ok :: "owfd_rtsp_decoder \<Rightarrow> bool" where
  "dec_ok d \<longleftrightarrow>
     ring_ok (ring d) \<and> msg_ok (msg d) \<and> body (msg d) = None \<and> list_all msg_ok (delivered d) \<and>
     unat (header_num (msg d)) + 2 \<le> unat (header_size d) \<and> 8 * unat (header_size d) < 2 ^ 63 \<and>
     unat (header_size d) \<le> length (header (msg d)) \<and> unat (header_size d) \<le> length (header_len (msg d))"

definition dec_abs :: "owfd_rtsp_decoder \<Rightarrow> char list \<Rightarrow> adec" where
  "dec_abs d p =
     \<lparr>a_cb = cb d, a_state = dstate d, a_last = last_chr d, a_rem = remaining_body d,
      a_quoted = dquoted d, a_pend = p, a_lines = msg_lines (msg d), a_out = map msg_abs (delivered d)\<rparr>"

text \<open>
  The outcome of an operation of the concrete decoder against the expected abstract state: \<open>rest\<close> is
  the input in the ring that has not been scanned yet, \<open>oom\<close> whether memory may have run out.
\<close>

definition sim :: "bool \<Rightarrow> adec option \<Rightarrow> char list \<Rightarrow> owfd_rtsp_decoder \<times> size_t result \<Rightarrow> bool" where
  "sim oom exp rest r \<longleftrightarrow>
     dec_ok (fst r) \<and>
     (case snd r of
        Fault \<Rightarrow> False
      | Err e \<Rightarrow> e = ENOMEM \<and> oom \<or> e = EINVAL \<and> exp = None
      | Ok l \<Rightarrow> \<exists>p. exp = Some (dec_abs (fst r) p) \<and> ring_data (ring (fst r)) = p @ rest \<and>
               unat l = length p)"

text \<open>
  What a decoder holds, its unfinished data and its lines, and whether some allocation of its next step may fail: the array of lines is doubled
  when it is full, and every element takes 8 bytes.
\<close>

definition load :: "owfd_rtsp_decoder \<Rightarrow> nat" where
  "load d = length (ring_data (ring d)) + unat (header_num (msg d))"

definition short_of :: "allocator \<Rightarrow> nat \<Rightarrow> bool" where
  "short_of M n \<longleftrightarrow> (\<exists>k. \<not> serves (16 * (n + 2)) (M k))"

lemma load_simps [simp]:
  "load (d\<lparr>dstate := s\<rparr>) = load d" "load (d\<lparr>last_chr := c\<rparr>) = load d" "load (d\<lparr>remaining_body := b\<rparr>) = load d"
  "load (d\<lparr>dquoted := q\<rparr>) = load d" "load (tick d) = load d"
  by (simp_all add: load_def tick_def)

lemma short_of_mono: "short_of M n \<Longrightarrow> n \<le> m \<Longrightarrow> short_of M m"
  unfolding short_of_def by (meson add_mono mult_le_mono order_refl serves_mono)

lemma short_ofI: "M k sz = None \<Longrightarrow> unat sz \<le> 16 * (n + 2) \<Longrightarrow> short_of M n"
  by (auto simp: short_of_def serves_def)

lemma sim_mono: "sim x a rest r \<Longrightarrow> (x \<Longrightarrow> y) \<Longrightarrow> sim y a rest r"
  by (auto simp: sim_def split: result.splits)

subsection \<open>Finishing a message\<close>

lemma clear_headers_ok:
  assumes "msg_ok m" "n \<le> unat (header_num m)"
  shows "\<exists>h l. clear_headers n m = Ok (m\<lparr>header := h, header_len := l\<rparr>) \<and>
    length h = length (header m) \<and> length l = length (header_len m) \<and>
    (\<forall>i<n. h ! i = Init None \<and> l ! i = Init 0) \<and>
    (\<forall>i. n \<le> i \<longrightarrow> h ! i = header m ! i \<and> l ! i = header_len m ! i)"
  using assms(2)
proof (induction n)
  case 0
  show ?case by (auto intro!: exI [of _ "header m"] exI [of _ "header_len m"])
next
  case (Suc n)
  then obtain h l where IH: "clear_headers n m = Ok (m\<lparr>header := h, header_len := l\<rparr>)"
    "length h = length (header m)" "length l = length (header_len m)"
    "\<forall>i<n. h ! i = Init None \<and> l ! i = Init 0"
    "\<forall>i. n \<le> i \<longrightarrow> h ! i = header m ! i \<and> l ! i = header_len m ! i"
    by auto
  have n: "n < length (header m)" "n < length (header_len m)" "line_ok (header m ! n) (header_len m ! n)"
    using assms(1) Suc.prems by (auto simp: msg_ok_def)
  have "clear_headers (Suc n) m = Ok (m\<lparr>header := h[n := Init None], header_len := l[n := Init 0]\<rparr>)"
    using IH(1-3) IH(5) n by (auto simp: clear_header_def mem_simps line_ok_def)
  moreover have "\<forall>i<Suc n. h[n := Init None] ! i = Init None \<and> l[n := Init 0] ! i = Init 0"
    using IH(2-4) n by (auto simp: nth_list_update less_Suc_eq)
  ultimately show ?case using IH(2-5) by (intro exI conjI) auto
qed

lemma msg_done_ok:
  assumes ok: "dec_ok d" and m: "msg_ok m" and
    d': "d' = d\<lparr>msg := m\<rparr>" and same: "m = (msg d)\<lparr>body := body m, body_len := body_len m\<rparr>"
  shows "\<exists>e. msg_done d' = (e, Ok ()) \<and> dec_ok e \<and> ring e = ring d \<and>
    dec_abs e p = a_done (msg_body m) (dec_abs d p)"
proof -
  obtain h l where c: "clear_headers (unat (header_num m)) m = Ok (m\<lparr>header := h, header_len := l\<rparr>)"
    "length h = length (header m)" "length l = length (header_len m)"
    "\<forall>i<unat (header_num m). h ! i = Init None \<and> l ! i = Init 0"
    "\<forall>i. unat (header_num m) \<le> i \<longrightarrow> h ! i = header m ! i \<and> l ! i = header_len m ! i"
    using clear_headers_ok [OF m order_refl] by blast
  have h0: "h ! 0 = Init None \<and> l ! 0 = Init 0"
    using c(4,5) m by (cases "unat (header_num m) = 0") (auto simp: msg_ok_def)
  have same': "header_num m = header_num (msg d)" "header m = header (msg d)"
    "header_len m = header_len (msg d)"
    by (subst same, simp)+
  define e where "e = d\<lparr>msg := m\<lparr>header := h, header_len := l, header_num := 0, body := None, body_len := 0\<rparr>,
    delivered := (if cb d then delivered d @ [m] else delivered d)\<rparr>"
  have "msg_done d' = (e, Ok ())"
    using c(1) by (simp add: msg_done_def d' e_def)
  moreover have "dec_ok e"
    using ok m h0 c(2,3) by (auto simp: dec_ok_def msg_ok_def e_def same' line_ok_def)
  moreover have "dec_abs e p = a_done (msg_body m) (dec_abs d p)"
    by (simp add: dec_abs_def a_done_def e_def msg_abs_def msg_lines_def same')
  ultimately show ?thesis by (auto simp: e_def)
qed

subsection \<open>Storing header lines\<close>

lemma msg_ok_arrays:
  assumes "msg_ok m"
    and "unat (header_num m) < length h" "unat (header_num m) < length l"
    and "\<And>i. i \<le> unat (header_num m) \<Longrightarrow> h ! i = header m ! i"
    and "\<And>i. i \<le> unat (header_num m) \<Longrightarrow> l ! i = header_len m ! i"
  shows "msg_ok (m\<lparr>header := h, header_len := l\<rparr>)"
    and "msg_lines (m\<lparr>header := h, header_len := l\<rparr>) = msg_lines m"
  using assms by (auto simp: msg_ok_def msg_lines_def intro!: nth_equalityI split: option.splits)

lemma realloc_array_spec:
  assumes "realloc_array m xs (8 * n) = Some ys" "alloc_ok m" "8 * unat n < 2 ^ 64"
  shows "length ys = unat n" "\<And>i. i < length xs \<Longrightarrow> i < unat n \<Longrightarrow> ys ! i = xs ! i" "8 * unat n < 2 ^ 63"
proof -
  have u: "unat (8 * n) = 8 * unat n" using assms(3) by (simp add: unat_word_ariths)
  obtain b where "m (8 * n) = Some b" using assms(1) by (auto simp: realloc_array_def split: option.splits)
  then show "8 * unat n < 2 ^ 63" using alloc_okD(2) [OF assms(2)] u by metis
  have ys: "ys = take (unat n) xs @ replicate (unat n - length xs) Uninit"
    using assms(1) u by (auto simp: realloc_array_def split: option.splits)
  show "length ys = unat n" by (simp add: ys)
  show "\<And>i. i < length xs \<Longrightarrow> i < unat n \<Longrightarrow> ys ! i = xs ! i" by (simp add: ys nth_append)
qed

lemma grow_headers_ok:
  assumes ok: "dec_ok d" and M: "allocator_ok M"
  obtains e res where "grow_headers M d = (e, res)" "dec_ok e" "ring e = ring d"
    "dec_abs e = dec_abs d" "header_num (msg e) = header_num (msg d)"
    "res = Err ENOMEM \<and> short_of M (load d) \<or> res = Ok () \<and> unat (header_num (msg d)) + 2 < unat (header_size e)"
proof (cases "header_size d = header_num (msg d) + 2")
  case False
  let ?n = "header_num (msg d)" and ?s = "header_size d"
  have "unat ?n + 2 \<le> unat ?s" "8 * unat ?s < 2 ^ 63" using ok by (auto simp: dec_ok_def)
  then have "unat (?n + 2) = unat ?n + 2" by (simp add: unat_word_ariths)
  then have "unat ?n + 2 \<noteq> unat ?s" using False by (metis word_unat_eq_iff)
  then show ?thesis using ok False that [of d "Ok ()"] by (simp add: grow_headers_def dec_ok_def)
next
  case True
  let ?n = "header_size d * 2"
  have b: "8 * unat (header_size d) < 2 ^ 63" "unat (header_num (msg d)) + 2 \<le> unat (header_size d)"
    using ok by (auto simp: dec_ok_def)
  then have n: "unat ?n = unat (header_size d) * 2" by (simp add: unat_word_ariths)
  then have nlt: "\<not> ?n < header_size d" and n8: "8 * unat ?n < 2 ^ 64"
    using b by (simp_all add: word_less_nat_alt)
  have "unat (8 * w) = 8 * unat w" if "8 * unat w < 2 ^ 64" for w :: size_t using that by (simp add: unat_word_ariths)
  from this [OF n8] have "unat (8 * ?n) = 8 * unat ?n" .
  moreover have "unat (header_size d) \<le> unat (header_num (msg d)) + 2"
    unfolding True by (simp add: unat_word_ariths)
  ultimately have "unat (8 * ?n) \<le> 16 * (load d + 2)" using n by (simp add: load_def)
  then have short: "short_of M (load d)" if "realloc_array (M k) xs (8 * ?n) = None" for k and xs :: "'b slot list"
    using that by (intro short_ofI) (auto simp: realloc_array_def split: option.splits)
  show ?thesis
  proof (cases "realloc_array (M (ticks d)) (header (msg d)) (8 * ?n)")
    case None
    have "dec_ok (tick d)" "dec_abs (tick d) = dec_abs d"
      using ok by (auto simp: dec_ok_def tick_def dec_abs_def fun_eq_iff)
    then show ?thesis using True None nlt short [OF None]
      by (intro that [of "tick d" "Err ENOMEM"]) (auto simp: grow_headers_def tick_def)
  next
    case (Some h)
    note H = realloc_array_spec [OF Some allocator_okD [OF M] n8]
    define d1 where "d1 = tick (d\<lparr>msg := (msg d)\<lparr>header := h\<rparr>\<rparr>)"
    have m1: "msg_ok (msg d1)" "msg_lines (msg d1) = msg_lines (msg d)"
      using msg_ok_arrays [of "msg d" h "header_len (msg d)"] ok H n b
      by (auto simp: dec_ok_def d1_def tick_def)
    have d1: "dec_ok d1" "dec_abs d1 = dec_abs d"
      using ok m1 H n by (auto simp: dec_ok_def dec_abs_def d1_def tick_def fun_eq_iff)
    show ?thesis
    proof (cases "realloc_array (M (ticks d1)) (header_len (msg d)) (8 * ?n)")
      case None
      have "dec_ok (tick d1)" "dec_abs (tick d1) = dec_abs d"
        using d1 by (auto simp: dec_ok_def tick_def dec_abs_def fun_eq_iff)
      then show ?thesis using True None nlt Some short [OF None]
        by (intro that [of "tick d1" "Err ENOMEM"]) (auto simp: grow_headers_def tick_def d1_def)
    next
      case (Some l)
      note L = realloc_array_spec [OF Some allocator_okD [OF M] n8]
      define d2 where "d2 = tick (d1\<lparr>msg := (msg d1)\<lparr>header_len := l\<rparr>, header_size := ?n\<rparr>)"
      have m2: "msg_ok (msg d2)" "msg_lines (msg d2) = msg_lines (msg d)"
        using msg_ok_arrays [of "msg d1" "header (msg d1)" l] m1 ok H L n b
        by (auto simp: dec_ok_def d1_def d2_def tick_def)
      have "dec_ok d2" "dec_abs d2 = dec_abs d"
        using ok m2 H L n b by (auto simp: dec_ok_def dec_abs_def d1_def d2_def tick_def fun_eq_iff)
      then show ?thesis
        using True Some nlt \<open>realloc_array _ (header (msg d)) _ = Some h\<close> n b
        by (intro that [of d2 "Ok ()"]) (auto simp: grow_headers_def tick_def d1_def d2_def)
    qed
  qed
qed

lemma push_header_line_ok:
  assumes ok: "dec_ok d" and M: "allocator_ok M"
    and line: "NUL \<notin> set s" "line = s @ NUL # rest"
  obtains e res where "push_header_line M line (of_nat (length s)) d = (e, res)" "dec_ok e"
    "ring e = ring d"
    "res = Err ENOMEM \<and> short_of M (load d) \<or> res = Ok () \<and> dec_abs e p = (dec_abs d p)\<lparr>a_lines := msg_lines (msg d) @ [s]\<rparr>"
proof -
  obtain e res where g: "grow_headers M d = (e, res)" "dec_ok e" "ring e = ring d"
    "dec_abs e = dec_abs d" "header_num (msg e) = header_num (msg d)"
    "res = Err ENOMEM \<and> short_of M (load d) \<or> res = Ok () \<and> unat (header_num (msg d)) + 2 < unat (header_size e)"
    using grow_headers_ok [OF ok M] .
  show ?thesis
  proof (cases "res = Err ENOMEM")
    case True
    then show ?thesis using g by (intro that [of e "Err ENOMEM"]) (auto simp: push_header_line_def sbind_Err)
  next
    case False
    then have res: "res = Ok ()" and lt: "unat (header_num (msg e)) + 2 < unat (header_size e)"
      using g by auto
    let ?m = "msg e" and ?n = "header_num (msg e)"
    have n1: "unat (?n + 1) = unat ?n + 1" and lens: "unat ?n + 1 < length (header ?m)" "unat ?n + 1 < length (header_len ?m)"
      using g(2) lt by (auto simp: dec_ok_def unat_word_ariths)
    define h where "h = (header ?m)[unat ?n := Init (Some line), Suc (unat ?n) := Init None]"
    define l where "l = (header_len ?m)[unat ?n := Init (of_nat (length s)), Suc (unat ?n) := Init 0]"
    define f where "f = e\<lparr>msg := ?m\<lparr>header := h, header_len := l, header_num := ?n + 1\<rparr>\<rparr>"
    have push: "push_header_line M line (of_nat (length s)) d = (f, Ok ())"
      using g(1) res lens by (simp add: push_header_line_def sbind_Ok mem_simps n1 h_def l_def f_def Let_def)
    have lines: "msg_lines (msg f) = msg_lines ?m @ [s]"
      using lens line by (simp add: msg_lines_def f_def n1 h_def take_Suc_conv_app_nth slot_line_def)
    have "line_ok (h ! i) (l ! i)" if "i < unat (?n + 1)" for i
      using that g(2) lens line n1
      by (auto simp: h_def l_def nth_list_update line_ok_def dec_ok_def msg_ok_def less_Suc_eq)
    then have "msg_ok (msg f)" using g(2) lens n1
      by (auto simp: msg_ok_def dec_ok_def f_def h_def l_def)
    then have "dec_ok f" using g(2) lt n1 by (auto simp: dec_ok_def f_def h_def l_def)
    moreover have "dec_abs f p = (dec_abs d p)\<lparr>a_lines := msg_lines (msg d) @ [s]\<rparr>"
      using fun_cong [OF g(4), of p] lines by (simp add: dec_abs_def f_def)
    ultimately show ?thesis using push g(3) by (intro that [of f "Ok ()"]) (auto simp: f_def)
  qed
qed

lemma dec_ok_upd [simp]:
  "dec_ok (d\<lparr>dstate := s\<rparr>) = dec_ok d" "dec_ok (d\<lparr>last_chr := c\<rparr>) = dec_ok d"
  "dec_ok (d\<lparr>remaining_body := b\<rparr>) = dec_ok d" "dec_ok (d\<lparr>dquoted := q\<rparr>) = dec_ok d"
  "dec_ok (tick d) = dec_ok d" "dec_ok d \<Longrightarrow> ring_ok r \<Longrightarrow> dec_ok (d\<lparr>ring := r\<rparr>)"
  by (auto simp: dec_ok_def tick_def)

lemma dec_abs_upd [simp]:
  "dec_abs (d\<lparr>dstate := s\<rparr>) p = (dec_abs d p)\<lparr>a_state := s\<rparr>"
  "dec_abs (d\<lparr>last_chr := c\<rparr>) p = (dec_abs d p)\<lparr>a_last := c\<rparr>"
  "dec_abs (d\<lparr>remaining_body := b\<rparr>) p = (dec_abs d p)\<lparr>a_rem := b\<rparr>"
  "dec_abs (d\<lparr>dquoted := q\<rparr>) p = (dec_abs d p)\<lparr>a_quoted := q\<rparr>"
  "dec_abs (tick d) p = dec_abs d p" "dec_abs (d\<lparr>ring := r\<rparr>) p = dec_abs d p"
  by (simp_all add: dec_abs_def tick_def)

lemma dec_abs_sel [simp]:
  "a_cb (dec_abs d p) = cb d" "a_state (dec_abs d p) = dstate d" "a_last (dec_abs d p) = last_chr d"
  "a_rem (dec_abs d p) = remaining_body d" "a_quoted (dec_abs d p) = dquoted d"
  "a_pend (dec_abs d p) = p" "a_lines (dec_abs d p) = msg_lines (msg d)"
  by (simp_all add: dec_abs_def)

lemma dec_abs_pend: "(dec_abs d p)\<lparr>a_pend := q\<rparr> = dec_abs d q"
  by (simp add: dec_abs_def)

lemma tick_sel [simp]: "ring (tick d) = ring d" "msg (tick d) = msg d" "remaining_body (tick d) = remaining_body d"
  by (simp_all add: tick_def)

lemma dec_ok_ring: "dec_ok d \<Longrightarrow> ring_ok (ring d)"
  by (simp add: dec_ok_def)

lemma pull_prefix:
  assumes "ring_ok r" "ring_data r = p @ rest" "unat n = length p"
  shows "ring_ok (shl_ring_pull r n)" "ring_data (shl_ring_pull r n) = rest"
  using assms rq.pull_good rq.pull_data by simp_all

lemma copy_prefix:
  assumes "ring_ok r" "alloc_ok m" "ring_data r = p @ rest" "unat n = length p"
  shows "shl_ring_copy m r n = Err ENOMEM \<or> shl_ring_copy m r n = Ok (p @ [NUL], n)"
proof -
  have "(of_nat (length p) :: size_t) = n" by (simp flip: assms(4))
  then show ?thesis using shl_ring_copy_spec [OF assms(1,2), of n] assms(3,4) by simp
qed

lemma copy_short:
  assumes "ring_ok (ring d)" "alloc_ok (M k)" "ring_data (ring d) = p @ rest" "unat n = length p"
    and "shl_ring_copy (M k) (ring d) n = Err ENOMEM"
  shows "short_of M (load d)"
proof -
  have "M k (n + 1) = None" using assms shl_ring_copy_spec [OF assms(1,2), of n] by (auto split: if_splits simp flip: assms(4))
  moreover have "unat (n + 1) \<le> length p + 1" using assms(4) by (simp add: unat_word_ariths)
  ultimately show ?thesis using assms(3) by (intro short_ofI) (auto simp: load_def)
qed

lemma finish_header_line_ok:
  assumes ok: "dec_ok d" and M: "allocator_ok M"
    and data: "ring_data (ring d) = p @ rest" "unat rlen = length p"
  obtains e res where "finish_header_line M rlen d = (e, res)" "dec_ok e"
    "res = Err ENOMEM \<and> short_of M (load d) \<or> res = Err EINVAL \<and> a_finish (dec_abs d p) = None \<or>
     res = Ok () \<and> a_finish (dec_abs d p) = Some (dec_abs e []) \<and> ring_data (ring e) = rest"
proof (cases "shl_ring_copy (M (ticks d)) (ring d) rlen = Err ENOMEM")
  case True
  then show ?thesis using ok that [of "tick d" "Err ENOMEM"] copy_short [OF dec_ok_ring [OF ok] allocator_okD [OF M] data]
    by (simp add: finish_header_line_def sbind_def)
next
  case False
  then have copy: "shl_ring_copy (M (ticks d)) (ring d) rlen = Ok (p @ [NUL], rlen)"
    using copy_prefix [OF dec_ok_ring [OF ok] allocator_okD [OF M] data] by blast
  obtain tail where san: "sanitize_header_line (p @ [NUL]) rlen =
      Ok (sanitized p @ NUL # tail, of_nat (length (sanitized p)))"
    using sanitize_header_line_spec [of "p @ [NUL]" rlen] data(2) by auto
  define d1 where "d1 = (tick d)\<lparr>ring := shl_ring_pull (ring d) rlen\<rparr>"
  have d1: "dec_ok d1" "dec_abs d1 p = dec_abs d p" "ring_data (ring d1) = rest"
    using ok pull_prefix [OF dec_ok_ring [OF ok] data] by (simp_all add: d1_def)
  have less: "load (d1\<lparr>remaining_body := rb\<rparr>) \<le> load d" for rb using d1(3) data(1) by (simp add: load_def) (simp add: d1_def)
  have run: "finish_header_line M rlen d =
      (case parse_header_line (remaining_body d) (sanitized p) of
         Ok rb \<Rightarrow> push_header_line M (sanitized p @ NUL # tail) (of_nat (length (sanitized p)))
                   (d1\<lparr>remaining_body := rb\<rparr>)
       | Err x \<Rightarrow> (d1, Err x) | Fault \<Rightarrow> (d1, Fault))"
    using copy san by (simp add: finish_header_line_def sbind_def d1_def sanitized_NUL_free split: result.splits)
  show ?thesis
  proof (cases "parse_header_line (remaining_body d) (sanitized p)")
    case (Ok rb)
    obtain e res where "push_header_line M (sanitized p @ NUL # tail) (of_nat (length (sanitized p)))
        (d1\<lparr>remaining_body := rb\<rparr>) = (e, res)" "dec_ok e" "ring e = ring (d1\<lparr>remaining_body := rb\<rparr>)"
      "res = Err ENOMEM \<and> short_of M (load (d1\<lparr>remaining_body := rb\<rparr>)) \<or> res = Ok () \<and>
        dec_abs e [] = (dec_abs (d1\<lparr>remaining_body := rb\<rparr>) [])\<lparr>a_lines := msg_lines (msg d1) @ [sanitized p]\<rparr>"
      using push_header_line_ok [of "d1\<lparr>remaining_body := rb\<rparr>" M "sanitized p" _ tail "[]"]
        d1 M sanitized_NUL_free by auto
    then show ?thesis using run Ok d1 short_of_mono [OF _ less]
      by (intro that [of e res]) (auto simp: a_finish_def d1_def dec_abs_def)
  qed (use run d1 that parse_header_line_cases [of "remaining_body d" "sanitized p"] in
        \<open>auto simp: a_finish_def\<close>)
qed

subsection \<open>Simulation\<close>

text \<open>The situation in which the scanner is called: \<open>p\<close> is scanned, \<open>c\<close> is next.\<close>

definition scanning :: "owfd_rtsp_decoder \<Rightarrow> char list \<Rightarrow> char \<Rightarrow> char list \<Rightarrow> size_t \<Rightarrow> bool" where
  "scanning d p c rest rlen \<longleftrightarrow>
     dec_ok d \<and> ring_data (ring d) = p @ c # rest \<and> unat rlen = length p"

lemma scanning_Suc: "scanning d p c rest rlen \<Longrightarrow> unat (rlen + 1) = length (p @ [c])"
  using ring_data_bound [of "ring d"] by (auto simp: scanning_def dec_ok_def unat_word_ariths)

lemma sim_push:
  assumes "scanning d p c rest rlen" "dec_ok e" "ring e = ring d" "dec_abs e p = a"
  shows "sim x (Some (a_push c a)) rest (e, Ok (rlen + 1))"
  using assms scanning_Suc [OF assms(1)]
  by (auto simp: sim_def scanning_def a_push_def dec_abs_pend intro!: exI [of _ "p @ [c]"])

lemma feed_char_new_sim:
  assumes s: "scanning d p c rest rlen"
  shows "sim x (Some (spec_new c (dec_abs d p))) rest (feed_char_new c rlen d)"
proof (cases "is_lws c")
  case True
  then show ?thesis using sim_push [OF s, of d] s
    by (simp add: feed_char_new_def spec_new_def scanning_def)
next
  case False
  then show ?thesis using s pull_prefix [of "ring d" p "c # rest" rlen]
    by (auto simp: feed_char_new_def spec_new_def scanning_def sim_def dec_ok_ring dec_abs_def
        dec_ok_def intro!: exI [of _ "[c]"])
qed

lemma feed_char_header_quote_sim:
  assumes s: "scanning d p c rest rlen"
  shows "sim x (Some (spec_quote c (dec_abs d p))) rest (feed_char_header_quote c rlen d)"
proof -
  have "dec_ok d" using s by (simp add: scanning_def)
  then show ?thesis
    using sim_push [OF s, of "d\<lparr>dquoted := False, dstate := STATE_HEADER\<rparr>"]
      sim_push [OF s, of "d\<lparr>dquoted := False\<rparr>"] sim_push [OF s, of "d\<lparr>dquoted := True\<rparr>"]
    by (auto simp: feed_char_header_quote_def spec_quote_def Let_def)
qed

lemma feed_char_body_sim:
  assumes s: "scanning d p c rest rlen" and M: "allocator_ok M"
  shows "sim (short_of M (load d)) (Some (spec_body c (dec_abs d p))) rest (feed_char_body M c rlen d)"
proof -
  have ok: "dec_ok d" using s by (simp add: scanning_def)
  consider "remaining_body d = 0" | "remaining_body d = 1" | "remaining_body d \<noteq> 0" "remaining_body d \<noteq> 1"
    by blast
  then show ?thesis
  proof cases
    case 1
    then show ?thesis using feed_char_new_sim [of "d\<lparr>dstate := STATE_NEW\<rparr>" p c rest rlen] s
      by (simp add: feed_char_body_def spec_body_def scanning_def)
  next
    case 2
    let ?p = "p @ [c]"
    have data: "ring_data (ring d) = ?p @ rest" "unat (rlen + 1) = length ?p"
      using s scanning_Suc [OF s] by (simp_all add: scanning_def)
    define d1 where "d1 = d\<lparr>remaining_body := 0\<rparr>"
    have ok1: "dec_ok d1" "ring d1 = ring d" using ok by (simp_all add: d1_def)
    show ?thesis
    proof (cases "shl_ring_copy (M (ticks d)) (ring d) (rlen + 1) = Err ENOMEM")
      case True
      then have "short_of M (load d)" by (rule copy_short [OF dec_ok_ring [OF ok] allocator_okD [OF M] data])
      then show ?thesis using True 2 ok by (simp add: feed_char_body_def sbind_def sim_def Let_def)
    next
      case False
      then have copy: "shl_ring_copy (M (ticks d)) (ring d) (rlen + 1) = Ok (?p @ [NUL], rlen + 1)"
        using copy_prefix [OF dec_ok_ring [OF ok] allocator_okD [OF M] data] by blast
      let ?m = "(msg d)\<lparr>body := Some (?p @ [NUL]), body_len := rlen + 1\<rparr>"
      have m: "msg_ok ?m" "msg_body ?m = Some ?p"
        using ok data(2) by (auto simp: dec_ok_def msg_ok_def msg_body_def nth_append)
      obtain e where e: "msg_done ((tick d1)\<lparr>msg := ?m\<rparr>) = (e, Ok ())" "dec_ok e" "ring e = ring d"
        "dec_abs e [] = a_done (Some ?p) (dec_abs d1 [])"
        using msg_done_ok [of "tick d1" ?m "(tick d1)\<lparr>msg := ?m\<rparr>" "[]"] ok1 m
        by (auto simp: d1_def)
      define f where "f = e\<lparr>dstate := STATE_NEW, ring := shl_ring_pull (ring d) (rlen + 1)\<rparr>"
      have "feed_char_body M c rlen d = (f, Ok 0)"
        using 2 copy e(1,3)
        by (simp add: feed_char_body_def sbind_def d1_def tick_def f_def Let_def)
      moreover have "dec_ok f" "ring_data (ring f) = rest"
        using e(2) pull_prefix [OF dec_ok_ring [OF ok] data] by (simp_all add: f_def)
      moreover have "spec_body c (dec_abs d p) = dec_abs f []"
        using 2 e(4) by (simp add: spec_body_def f_def d1_def a_done_def dec_abs_def)
      ultimately show ?thesis by (auto simp: sim_def)
    qed
  next
    case 3
    then have "remaining_body d - 1 \<noteq> 0" by simp
    then show ?thesis using 3 ok sim_push [OF s, of "d\<lparr>remaining_body := remaining_body d - 1\<rparr>"]
      by (simp add: feed_char_body_def spec_body_def Let_def)
  qed
qed

lemma feed_char_header_nl_sim:
  assumes s: "scanning d p c rest rlen" and M: "allocator_ok M"
  shows "sim (short_of M (load d)) (Some (spec_nl c (dec_abs d p))) rest (feed_char_header_nl M c rlen d)"
proof -
  have ok: "dec_ok d" and data: "ring_data (ring d) = p @ c # rest" "unat rlen = length p"
    using s by (simp_all add: scanning_def)
  show ?thesis
  proof (cases "c = LF")
    case True
    have "ring_data (ring d) = (p @ [c]) @ rest" using data by simp
    from pull_prefix [OF dec_ok_ring [OF ok] this scanning_Suc [OF s]]
    show ?thesis using True ok
      by (auto simp: feed_char_header_nl_def spec_nl_def sim_def dec_abs_def dec_ok_def)
  next
    case False
    let ?d = "d\<lparr>ring := shl_ring_pull (ring d) rlen, dstate := STATE_BODY\<rparr>"
    have "scanning ?d [] c rest 0"
      using ok pull_prefix [OF dec_ok_ring [OF ok] data] by (simp add: scanning_def)
    from feed_char_body_sim [OF this M] have "sim (short_of M (load d)) (Some (spec_body c (dec_abs ?d []))) rest (feed_char_body M c 0 ?d)"
    proof (rule sim_mono)
      have "load ?d \<le> load d" using pull_prefix [OF dec_ok_ring [OF ok] data] data(1) by (simp add: load_def)
      then show "short_of M (load d)" if "short_of M (load ?d)" using that by (rule short_of_mono [rotated])
    qed
    then show ?thesis using False by (simp add: feed_char_header_nl_def spec_nl_def dec_abs_pend)
  qed
qed

lemma sim_push0:
  assumes "dec_ok e" "ring_data (ring e) = c # rest" "dec_abs e [] = a"
  shows "sim x (Some (a_push c a)) rest (e, Ok 1)"
  using assms by (auto simp: sim_def a_push_def dec_abs_pend intro!: exI [of _ "[c]"])

lemma sim_fail: "dec_ok e \<Longrightarrow> x \<Longrightarrow> sim x a rest (e, Err ENOMEM)" "dec_ok e \<Longrightarrow> sim x None rest (e, Err EINVAL)"
  by (simp_all add: sim_def)

lemma done_if_empty:
  assumes "dec_ok e"
  obtains f where "(if remaining_body e = 0 then msg_done else sret ()) e = (f, Ok ())" "dec_ok f" "ring f = ring e"
    "dec_abs f [] = (if remaining_body e = 0 then a_done None (dec_abs e []) else dec_abs e [])"
proof (cases "remaining_body e = 0")
  case True
  have "msg_body (msg e) = None" "msg_ok (msg e)" using assms by (auto simp: msg_body_def dec_ok_def)
  then show ?thesis using True msg_done_ok [OF assms, of "msg e" e "[]"] that by auto
qed (use assms that [of e] in auto)

lemma finish_if_newline_sim:
  assumes s: "scanning d p c rest rlen" and M: "allocator_ok M" and c: "c \<noteq> CR" "c \<noteq> LF"
    and g: "\<And>e. dec_ok (g e) = dec_ok e" "\<And>e. ring (g e) = ring e"
      "\<And>e p. dec_abs (g e) p = h (dec_abs e p)"
  shows "sim (short_of M (load d)) (map_option (\<lambda>a. a_push c (h a))
      (if a_newline (dec_abs d p) then a_finish (dec_abs d p) else Some (dec_abs d p))) rest
    (sbind (finish_if_newline M rlen) (\<lambda>rlen. sbind (smod g) (\<lambda>_. sret (rlen + 1))) d)"
proof (cases "a_newline (dec_abs d p)")
  case False
  then show ?thesis using sim_push [OF s, of "g d"] g s
    by (simp add: a_newline_def finish_if_newline_def sbind_assoc scanning_def)
next
  case True
  have ok: "dec_ok d" and data: "ring_data (ring d) = p @ c # rest" "unat rlen = length p"
    using s by (simp_all add: scanning_def)
  from finish_header_line_ok [OF ok M data] obtain e res where e:
    "finish_header_line M rlen d = (e, res)" "dec_ok e"
    "res = Err ENOMEM \<and> short_of M (load d) \<or> res = Err EINVAL \<and> a_finish (dec_abs d p) = None \<or>
     res = Ok () \<and> a_finish (dec_abs d p) = Some (dec_abs e []) \<and> ring_data (ring e) = c # rest" .
  then show ?thesis using True sim_push0 [of "g e" c rest] g
    by (auto simp: a_newline_def finish_if_newline_def sbind_def sim_fail)
qed

lemma feed_char_header_CR:
  assumes s: "scanning d p CR rest rlen" and M: "allocator_ok M"
  shows "sim (short_of M (load d)) (spec_header CR (dec_abs d p)) rest (feed_char_header M CR rlen d)"
proof (cases "a_newline (dec_abs d p)")
  case False
  then show ?thesis using sim_push [OF s, of d] s
    by (simp add: a_newline_def feed_char_header_def spec_header_def scanning_def)
next
  case True
  let ?d = "d\<lparr>dstate := STATE_HEADER_NL\<rparr>"
  have ok: "dec_ok ?d" and data: "ring_data (ring ?d) = p @ CR # rest" "unat rlen = length p"
    using s by (simp_all add: scanning_def)
  from finish_header_line_ok [OF ok M data] obtain e res where e:
    "finish_header_line M rlen ?d = (e, res)" "dec_ok e"
    "res = Err ENOMEM \<and> short_of M (load ?d) \<or> res = Err EINVAL \<and> a_finish (dec_abs ?d p) = None \<or>
     res = Ok () \<and> a_finish (dec_abs ?d p) = Some (dec_abs e []) \<and> ring_data (ring e) = CR # rest" .
  from done_if_empty [OF e(2)] obtain f where f:
    "(if remaining_body e = 0 then msg_done else sret ()) e = (f, Ok ())" "dec_ok f" "ring f = ring e"
    "dec_abs f [] = (if remaining_body e = 0 then a_done None (dec_abs e []) else dec_abs e [])" .
  have run: "feed_char_header M CR rlen d =
      (case res of Ok _ \<Rightarrow> (f, Ok 1) | Err x \<Rightarrow> (e, Err x) | Fault \<Rightarrow> (e, Fault))"
    using True e(1) by (simp add: a_newline_def feed_char_header_def sbind_def f(1) split: result.split)
  have spec: "spec_header CR (dec_abs d p) =
      map_option (\<lambda>a. a_push CR (if a_rem a = 0 then a_done None a else a)) (a_finish (dec_abs ?d p))"
    using True by (simp add: spec_header_def)
  from e(3) show ?thesis
  proof (elim disjE conjE)
    assume "res = Ok ()" "a_finish (dec_abs ?d p) = Some (dec_abs e [])" "ring_data (ring e) = CR # rest"
    then show ?thesis using sim_push0 [OF f(2) _ f(4), of CR rest] f(3) run spec by simp
  qed (use run spec e(2) in \<open>simp_all add: sim_fail\<close>)
qed

lemma feed_char_header_LF:
  assumes s: "scanning d p LF rest rlen" and M: "allocator_ok M"
  shows "sim (short_of M (load d)) (spec_header LF (dec_abs d p)) rest (feed_char_header M LF rlen d)"
proof (cases "last_chr d = LF")
  case False
  then show ?thesis using sim_push [OF s, of d] s
    by (simp add: feed_char_header_def spec_header_def scanning_def)
next
  case True
  have ok: "dec_ok d" and data: "ring_data (ring d) = p @ LF # rest" "unat rlen = length p"
    using s by (simp_all add: scanning_def)
  from finish_header_line_ok [OF ok M data] obtain e res where e:
    "finish_header_line M rlen d = (e, res)" "dec_ok e"
    "res = Err ENOMEM \<and> short_of M (load d) \<or> res = Err EINVAL \<and> a_finish (dec_abs d p) = None \<or>
     res = Ok () \<and> a_finish (dec_abs d p) = Some (dec_abs e []) \<and> ring_data (ring e) = LF # rest" .
  let ?e = "if remaining_body e = 0 then e\<lparr>dstate := STATE_NEW\<rparr> else e\<lparr>dstate := STATE_BODY\<rparr>"
  have "dec_ok ?e" using e(2) by simp
  from done_if_empty [OF this] obtain f where f:
    "(if remaining_body ?e = 0 then msg_done else sret ()) ?e = (f, Ok ())" "dec_ok f" "ring f = ring ?e"
    "dec_abs f [] = (if remaining_body ?e = 0 then a_done None (dec_abs ?e []) else dec_abs ?e [])" .
  define g where "g = f\<lparr>ring := shl_ring_pull (ring f) 1\<rparr>"
  have g: "dec_ok g" "dec_abs g [] = dec_abs f []"
    using f(2) rq.pull_good [OF dec_ok_ring [OF f(2)]] by (simp_all add: g_def)
  have gr: "ring_data (ring g) = rest" if "ring_data (ring e) = LF # rest"
    using that f(3) rq.pull_data [OF dec_ok_ring [OF f(2)], of 1] by (simp add: g_def split: if_splits)
  have "sim (short_of M (load d)) (Some (dec_abs f [])) rest (g, Ok 0)" if "ring_data (ring e) = LF # rest"
    using g gr [OF that] by (auto simp: sim_def)
  moreover have run: "feed_char_header M LF rlen d =
      (case res of Ok _ \<Rightarrow> (g, Ok 0) | Err x \<Rightarrow> (e, Err x) | Fault \<Rightarrow> (e, Fault))"
    using True e(1) f(1)
    by (cases "remaining_body e = 0") (auto simp: feed_char_header_def sbind_def g_def split: result.split)
  moreover have "spec_header LF (dec_abs d p) =
      map_option (\<lambda>a. if a_rem a = 0 then a_done None (a\<lparr>a_state := STATE_NEW\<rparr>)
                       else a\<lparr>a_state := STATE_BODY\<rparr>) (a_finish (dec_abs d p))"
    using True by (simp add: spec_header_def)
  moreover have "dec_abs f [] = (if remaining_body e = 0 then a_done None ((dec_abs e [])\<lparr>a_state := STATE_NEW\<rparr>)
      else (dec_abs e [])\<lparr>a_state := STATE_BODY\<rparr>)"
    using f(4) by (cases "remaining_body e = 0") simp_all
  ultimately show ?thesis using e(2,3) by (elim disjE conjE) (simp_all add: sim_fail)
qed

lemma feed_char_header_sim:
  assumes s: "scanning d p c rest rlen" and M: "allocator_ok M"
  shows "sim (short_of M (load d)) (spec_header c (dec_abs d p)) rest (feed_char_header M c rlen d)"
proof -
  have ok: "dec_ok d" using s by (simp add: scanning_def)
  consider "c = CR" | "c = LF" | "c = DQUOTE" | "c = TAB \<or> c = SPACE"
    | "c \<noteq> CR" "c \<noteq> LF" "c \<noteq> DQUOTE" "c \<noteq> TAB" "c \<noteq> SPACE" by blast
  then show ?thesis
  proof cases
    case 1
    then show ?thesis using feed_char_header_CR s M by blast
  next
    case 2
    then show ?thesis using feed_char_header_LF s M by blast
  next
    case 3
    then show ?thesis
      using finish_if_newline_sim [OF s M, of "\<lambda>d. d\<lparr>dstate := STATE_HEADER_QUOTE, dquoted := False\<rparr>"
          "\<lambda>a. a\<lparr>a_state := STATE_HEADER_QUOTE, a_quoted := False\<rparr>"]
      by (simp add: feed_char_header_def spec_header_def)
  next
    case 4
    then show ?thesis using sim_push [OF s, of d] ok by (auto simp: feed_char_header_def spec_header_def)
  next
    case 5
    have "sbind (finish_if_newline M rlen) (\<lambda>rlen. sbind (smod (\<lambda>d. d)) (\<lambda>_. sret (rlen + 1))) =
        sbind (finish_if_newline M rlen) (\<lambda>rlen. sret (rlen + 1))"
      by (rule ext) (simp add: sbind_def split: prod.splits result.splits)
    then show ?thesis using 5 finish_if_newline_sim [OF s M, of "\<lambda>d. d" "\<lambda>a. a"]
      by (simp add: feed_char_header_def spec_header_def)
  qed
qed

lemma feed_char_sim:
  assumes s: "scanning d p c rest rlen" and M: "allocator_ok M"
  shows "sim (short_of M (load d)) (spec_char c (dec_abs d p)) rest (feed_char M c rlen d)"
  using feed_char_new_sim [OF s] feed_char_header_sim [OF s M] feed_char_header_quote_sim [OF s]
    feed_char_header_nl_sim [OF s M] feed_char_body_sim [OF s M]
  by (simp add: feed_char_def spec_char_def split: dec_state.split)

text \<open>A character adds at most one character to the unfinished data and one line.\<close>

lemma spec_char_adds:
  assumes "spec_char c a = Some b"
  shows "length (a_pend b) \<le> length (a_pend a) + 1 \<and> length (a_lines b) \<le> length (a_lines a) + 1"
  using assms
  by (auto simp: spec_char_def spec_new_def spec_header_def spec_quote_def spec_nl_def spec_body_def a_push_def a_done_def a_finish_def Let_def
    split: dec_state.splits if_splits result.splits)

lemma length_msg_lines: "dec_ok d \<Longrightarrow> length (msg_lines (msg d)) = unat (header_num (msg d))"
  by (auto simp: dec_ok_def msg_ok_def msg_lines_def)

lemma feed_loop_sim:
  assumes "dec_ok d" "ring_data (ring d) = p @ cs" "unat rlen = length p" and M: "allocator_ok M"
  shows "\<exists>e res. feed_loop M cs rlen d = (e, res) \<and> dec_ok e \<and>
    (res = Err ENOMEM \<and> short_of M (load d + length cs) \<or> res = Err EINVAL \<and> spec_run cs (dec_abs d p) = None \<or>
     res = Ok () \<and> spec_run cs (dec_abs d p) = Some (dec_abs e (ring_data (ring e))) \<and> load e \<le> load d + length cs)"
  using assms(1-3)
proof (induction cs arbitrary: d p rlen)
  case (Cons c cs)
  obtain e res where e: "feed_char M c rlen d = (e, res)" by fastforce
  have "scanning d p c cs rlen" using Cons.prems by (simp add: scanning_def)
  from feed_char_sim [OF this M] have sim: "sim (short_of M (load d)) (spec_char c (dec_abs d p)) cs (e, res)" by (simp add: e)
  show ?case
  proof (cases res)
    case (Ok l)
    with sim obtain q where q: "spec_char c (dec_abs d p) = Some (dec_abs e q)" "dec_ok e"
      "ring_data (ring e) = q @ cs" "unat l = length q"
      by (auto simp: sim_def)
    let ?e = "e\<lparr>last_chr := c\<rparr>"
    have "load ?e \<le> load d + 1"
      using spec_char_adds [OF q(1)] length_msg_lines [OF q(2)] length_msg_lines [OF Cons.prems(1)] q(3) Cons.prems(2) by (simp add: load_def)
    then have le: "load ?e + length cs \<le> load d + length (c # cs)" by simp
    obtain f r where f: "feed_loop M cs l ?e = (f, r)" "dec_ok f"
        "r = Err ENOMEM \<and> short_of M (load ?e + length cs) \<or> r = Err EINVAL \<and> spec_run cs (dec_abs ?e q) = None \<or>
         r = Ok () \<and> spec_run cs (dec_abs ?e q) = Some (dec_abs f (ring_data (ring f))) \<and> load f \<le> load ?e + length cs"
      using Cons.IH [of ?e q l] q by auto
    have run: "feed_loop M (c # cs) rlen d = (f, r)" "spec_run (c # cs) (dec_abs d p) = spec_run cs (dec_abs ?e q)"
      using f(1) Ok e q(1) by (simp_all add: sbind_def)
    show ?thesis unfolding run using f(2,3) short_of_mono [OF _ le] le by auto
  next
    case (Err x)
    have "short_of M (load d) \<Longrightarrow> short_of M (load d + length (c # cs))" by (erule short_of_mono) simp
    then show ?thesis using Err sim e by (auto simp: sim_def sbind_def)
  qed (use sim e in \<open>auto simp: sim_def sbind_def\<close>)
qed simp

lemma flush_ok: "dec_ok d \<Longrightarrow> dec_ok (owfd_rtsp_decoder_flush d)"
  using rq.flush_good by (auto simp: dec_ok_def owfd_rtsp_decoder_flush_def)

definition dec_view :: "owfd_rtsp_decoder \<Rightarrow> adec" where
  "dec_view d = dec_abs d (ring_data (ring d))"

lemma owfd_rtsp_decoder_feed_short:
  assumes ok: "dec_ok d" and M: "allocator_ok M" and len: "length buf < 2 ^ 63"
  obtains e res where "owfd_rtsp_decoder_feed M buf d = (e, res)" "dec_ok e"
    "res = Err ENOMEM \<and> short_of M (load d + 2 * length buf) \<or> res = Err EINVAL \<and> spec_run buf (dec_view d) = None \<or>
     res = Ok () \<and> spec_run buf (dec_view d) = Some (dec_view e) \<and> load e \<le> load d + 2 * length buf"
proof -
  consider "shl_ring_push (M (ticks d)) (ring d) buf = Err ENOMEM"
    | r where "shl_ring_push (M (ticks d)) (ring d) buf = Ok r" "ring_ok r" "ring_data r = ring_data (ring d) @ buf"
    using rq.push_cases [OF dec_ok_ring [OF ok] allocator_okD [OF M] len] by blast
  then show ?thesis
  proof cases
    case 1
    have "\<not> serves (2 * (length (ring_data (ring d)) + length buf + 1)) (M (ticks d))"
      using shl_ring_push_succeeds [OF dec_ok_ring [OF ok] allocator_okD [OF M] len] 1 by blast
    then have "\<not> serves (16 * (load d + 2 * length buf + 2)) (M (ticks d))"
      by (rule contrapos_nn) (erule serves_mono, simp add: load_def)
    then have "short_of M (load d + 2 * length buf)" by (auto simp: short_of_def)
    then show ?thesis using 1 ok that [of "tick d" "Err ENOMEM"] by (simp add: owfd_rtsp_decoder_feed_def)
  next
    case 2
    let ?d = "tick (d\<lparr>ring := r\<rparr>)"
    have used: "unat (shl_ring_length (ring d)) = length (ring_data (ring d))"
      by (rule rq.used_data [OF dec_ok_ring [OF ok]])
    have l: "load ?d + length buf = load d + 2 * length buf" using 2(3) by (simp add: load_def)
    have view: "dec_abs ?d (ring_data (ring d)) = dec_view d" by (simp add: dec_view_def)
    obtain e res where e: "feed_loop M buf (shl_ring_length (ring d)) ?d = (e, res)" "dec_ok e"
      "res = Err ENOMEM \<and> short_of M (load d + 2 * length buf) \<or> res = Err EINVAL \<and> spec_run buf (dec_view d) = None \<or>
       res = Ok () \<and> spec_run buf (dec_view d) = Some (dec_view e) \<and> load e \<le> load d + 2 * length buf"
      using feed_loop_sim [of ?d "ring_data (ring d)" buf, OF _ _ used M] ok 2 unfolding l view by (auto simp: dec_view_def)
    show ?thesis
    proof (cases res)
      case (Err x)
      then have "owfd_rtsp_decoder_feed M buf d = (owfd_rtsp_decoder_flush e, res)" using e(1) 2(1) by (simp add: owfd_rtsp_decoder_feed_def)
      then show ?thesis by (rule that) (use e(2,3) Err flush_ok in auto)
    qed (use e 2(1) in \<open>auto simp: owfd_rtsp_decoder_feed_def intro: that\<close>)
  qed
qed

lemma owfd_rtsp_decoder_feed_sim:
  assumes "dec_ok d" and "allocator_ok M" and "length buf < 2 ^ 63"
  obtains e res where "owfd_rtsp_decoder_feed M buf d = (e, res)" "dec_ok e"
    "res = Err ENOMEM \<or> res = Err EINVAL \<and> spec_run buf (dec_view d) = None \<or>
     res = Ok () \<and> spec_run buf (dec_view d) = Some (dec_view e)"
  using owfd_rtsp_decoder_feed_short [OF assms] by metis

lemma spec_run_append:
  "spec_run (xs @ ys) a = (case spec_run xs a of None \<Rightarrow> None | Some b \<Rightarrow> spec_run ys b)"
  by (induction xs arbitrary: a) (auto split: option.splits)

text \<open>Feeding a list of chunks, up to the first error.\<close>

fun feed_all :: "allocator \<Rightarrow> char list list \<Rightarrow> unit dec_op" where
  "feed_all M [] = sret ()"
| "feed_all M (b # bs) = sbind (owfd_rtsp_decoder_feed M b) (\<lambda>_. feed_all M bs)"

lemma feed_all_short:
  assumes "dec_ok d" and "list_all (\<lambda>b. length b < 2 ^ 63) bs" and M: "allocator_ok M"
  shows "\<exists>e res. feed_all M bs d = (e, res) \<and> dec_ok e \<and>
    (res = Err ENOMEM \<and> short_of M (load d + 2 * length (concat bs)) \<or>
     res = Err EINVAL \<and> spec_run (concat bs) (dec_view d) = None \<or>
     res = Ok () \<and> spec_run (concat bs) (dec_view d) = Some (dec_view e))"
  using assms(1,2)
proof (induction bs arbitrary: d)
  case (Cons b bs)
  let ?n = "load d + 2 * length (concat (b # bs))"
  have "length b < 2 ^ 63" using Cons.prems by simp
  with owfd_rtsp_decoder_feed_short [OF Cons.prems(1) M] obtain e res where e:
    "owfd_rtsp_decoder_feed M b d = (e, res)" "dec_ok e"
    "res = Err ENOMEM \<and> short_of M (load d + 2 * length b) \<or> res = Err EINVAL \<and> spec_run b (dec_view d) = None \<or>
     res = Ok () \<and> spec_run b (dec_view d) = Some (dec_view e) \<and> load e \<le> load d + 2 * length b" by blast
  have "short_of M (load d + 2 * length b) \<Longrightarrow> short_of M ?n" by (erule short_of_mono) simp
  moreover have "short_of M (load e + 2 * length (concat bs)) \<Longrightarrow> short_of M ?n" if "load e \<le> load d + 2 * length b"
    by (erule short_of_mono) (use that in simp)
  ultimately show ?case using e Cons.IH [OF e(2)] Cons.prems(2)
    by (elim disjE conjE) (auto simp: sbind_def spec_run_append)
qed simp


lemma free_headers_ok: "msg_ok m \<Longrightarrow> n \<le> unat (header_num m) \<Longrightarrow> free_headers n m = Ok ()"
proof (induction n)
  case (Suc n)
  then have "line_ok (header m ! n) (header_len m ! n)" "n < length (header m)" by (auto simp: msg_ok_def)
  then show ?case using Suc by (auto simp: mem_simps line_ok_def)
qed simp

lemma owfd_rtsp_decoder_new_ok:
  "owfd_rtsp_decoder_new M f = Ok d \<Longrightarrow> dec_ok d"
  by (auto simp: owfd_rtsp_decoder_new_def dec_ok_def msg_ok_def split: option.splits)

lemma owfd_rtsp_decoder_new_view:
  "owfd_rtsp_decoder_new M f = Ok d \<Longrightarrow> dec_view d =
     \<lparr>a_cb = f, a_state = STATE_NEW, a_last = NUL, a_rem = 0, a_quoted = False, a_pend = [], a_lines = [],
      a_out = []\<rparr>"
  by (auto simp: owfd_rtsp_decoder_new_def dec_view_def dec_abs_def msg_lines_def split: option.splits)

subsection \<open>A message as it is sent\<close>

text \<open>
  A header line in canonical form: not empty, without control characters and quotes, and with single
  blanks inside only.
\<close>

fun single_blanks :: "char list \<Rightarrow> bool" where
  "single_blanks (a # b # cs) \<longleftrightarrow> \<not> (a = SPACE \<and> b = SPACE) \<and> single_blanks (b # cs)"
| "single_blanks _ \<longleftrightarrow> True"

definition plain_char :: "char \<Rightarrow> bool" where
  "plain_char c \<longleftrightarrow> c \<notin> {NUL, TAB, CR, LF, DQUOTE}"

definition canonical_line :: "char list \<Rightarrow> bool" where
  "canonical_line l \<longleftrightarrow>
     l \<noteq> [] \<and> hd l \<noteq> SPACE \<and> last l \<noteq> SPACE \<and> single_blanks l \<and> list_all plain_char l"

definition encode_msg :: "char list list \<Rightarrow> char list \<Rightarrow> char list" where
  "encode_msg ls b = concat (map (\<lambda>l. l @ [CR, LF]) ls) @ [CR, LF] @ b"

text \<open>The content length that the header lines announce.\<close>

fun content_length :: "size_t \<Rightarrow> char list list \<Rightarrow> size_t result" where
  "content_length n [] = Ok n"
| "content_length n (l # ls) = rbind (parse_header_line n l) (\<lambda>n. content_length n ls)"

lemma sanitize_plain:
  "list_all plain_char (c # cs) \<Longrightarrow> single_blanks (c # cs) \<Longrightarrow> \<not> quoted s \<Longrightarrow> \<not> (last_c s = SPACE \<and> c = SPACE) \<Longrightarrow>
   sanitize_out s (c # cs @ ds) = (c # cs) @ sanitize_out (s\<lparr>last_c := last (c # cs)\<rparr>) ds"
proof (induction cs arbitrary: c s)
  case Nil
  then show ?case by (auto simp: sanitize_char_def plain_char_def Let_def)
next
  case (Cons d cs)
  have "sanitize_char c s = (Some c, s\<lparr>last_c := c\<rparr>)"
    using Cons.prems by (auto simp: sanitize_char_def plain_char_def Let_def)
  then show ?case using Cons.IH [of d "s\<lparr>last_c := c\<rparr>"] Cons.prems by simp
qed

lemma rtrim_id: "l \<noteq> [] \<Longrightarrow> last l \<noteq> SPACE \<Longrightarrow> rtrim l = l"
  by (cases l rule: rev_cases) (simp_all add: rtrim_def)

lemma sanitized_canonical:
  assumes "canonical_line l"
  shows "sanitized (l @ [CR, LF]) = l"
proof -
  obtain c cs where l: "l = c # cs" using assms by (cases l) (auto simp: canonical_line_def)
  have "sanitize_out san_init (l @ [CR, LF]) =
      l @ sanitize_out (san_init\<lparr>last_c := last l\<rparr>) [CR, LF]"
    using sanitize_plain [of c cs san_init "[CR, LF]"] assms
    by (simp add: l canonical_line_def san_init_def)
  also have "\<dots> = l @ [SPACE]"
    using assms by (simp add: sanitize_char_def san_init_def canonical_line_def Let_def)
  finally show ?thesis using assms
    by (simp add: sanitized_def rtrim_snoc rtrim_id canonical_line_def)
qed

lemma spec_run_plain:
  assumes "list_all plain_char xs" "a_state a = STATE_HEADER" "\<not> a_newline a"
  shows "spec_run (xs @ ys) a =
    spec_run ys (a\<lparr>a_pend := a_pend a @ xs, a_last := (if xs = [] then a_last a else last xs)\<rparr>)"
  using assms
proof (induction xs arbitrary: a)
  case (Cons x xs)
  have "spec_char x a = Some (a_push x a)"
    using Cons.prems by (auto simp: spec_char_def spec_header_def plain_char_def)
  moreover have "\<not> a_newline ((a_push x a)\<lparr>a_last := x\<rparr>)"
    using Cons.prems by (auto simp: a_newline_def plain_char_def)
  ultimately show ?case using Cons.prems Cons.IH [of "(a_push x a)\<lparr>a_last := x\<rparr>"]
    by (simp add: a_push_def)
qed simp

text \<open>The rest of a line after its first character, and the line end.\<close>

lemma spec_run_line_end:
  assumes "canonical_line (c # cs)" "a_state a = STATE_HEADER" "a_last a = c"
  shows "spec_run (cs @ CR # LF # ys) a = spec_run ys (a\<lparr>a_pend := a_pend a @ cs @ [CR, LF], a_last := LF\<rparr>)"
proof -
  have nl: "\<not> a_newline a" and last: "\<not> a_newline (a\<lparr>a_last := (if cs = [] then a_last a else last cs)\<rparr>)"
    using assms by (auto simp: a_newline_def canonical_line_def plain_char_def list_all_iff split: if_splits)
  have "spec_run (cs @ CR # LF # ys) a = spec_run (CR # LF # ys)
      (a\<lparr>a_pend := a_pend a @ cs, a_last := (if cs = [] then a_last a else last cs)\<rparr>)"
    using assms nl by (intro spec_run_plain) (simp_all add: canonical_line_def)
  then show ?thesis using assms last
    by (simp add: spec_char_def spec_header_def a_push_def a_newline_def)
qed

definition headers_end :: "size_t \<Rightarrow> char list list \<Rightarrow> adec \<Rightarrow> adec" where
  "headers_end n ls a =
     (let b = a\<lparr>a_rem := n, a_lines := a_lines a @ ls, a_state := STATE_HEADER_NL, a_pend := []\<rparr>
      in (a_push CR (if n = 0 then a_done None b else b))\<lparr>a_last := CR\<rparr>)"

lemma spec_run_lines:
  assumes "canonical_line l" "list_all canonical_line ls" "content_length (a_rem a) (l # ls) = Ok n"
    "a_state a = STATE_HEADER" "a_last a = LF" "a_pend a = l @ [CR, LF]"
  shows "spec_run (concat (map (\<lambda>l. l @ [CR, LF]) ls) @ CR # ys) a =
    spec_run ys (headers_end n (l # ls) a)"
  using assms
proof (induction ls arbitrary: l a)
  case Nil
  then show ?case
    by (auto simp: spec_char_def spec_header_def a_newline_def a_finish_def sanitized_canonical Let_def
        a_push_def a_done_def rbind_Ok_iff headers_end_def intro!: arg_cong [where f = "spec_run ys"] split: result.splits)
next
  case (Cons l' ls)
  from Cons.prems obtain m where m: "parse_header_line (a_rem a) l = Ok m" "content_length m (l' # ls) = Ok n"
    by (auto simp: rbind_Ok_iff)
  obtain c cs where l': "l' = c # cs" using Cons.prems by (cases l') (auto simp: canonical_line_def)
  let ?b = "a\<lparr>a_rem := m, a_lines := a_lines a @ [l]\<rparr>"
  have "c \<noteq> CR" "c \<noteq> LF" "c \<noteq> DQUOTE" "c \<noteq> TAB" "c \<noteq> SPACE"
    using Cons.prems by (auto simp: l' canonical_line_def plain_char_def)
  then have "spec_char c a = Some (?b\<lparr>a_pend := [c]\<rparr>)"
    using Cons.prems m
    by (simp add: spec_char_def spec_header_def a_newline_def a_finish_def sanitized_canonical a_push_def)
  then have "spec_run (concat (map (\<lambda>l. l @ [CR, LF]) (l' # ls)) @ CR # ys) a =
      spec_run (concat (map (\<lambda>l. l @ [CR, LF]) ls) @ CR # ys) (?b\<lparr>a_pend := l' @ [CR, LF], a_last := LF\<rparr>)"
    using spec_run_line_end [of c cs "?b\<lparr>a_pend := [c], a_last := c\<rparr>"] Cons.prems by (simp add: l')
  also have "\<dots> = spec_run ys (headers_end n (l' # ls) (?b\<lparr>a_pend := l' @ [CR, LF], a_last := LF\<rparr>))"
    using Cons.prems m by (intro Cons.IH) simp_all
  also have "headers_end n (l' # ls) (?b\<lparr>a_pend := l' @ [CR, LF], a_last := LF\<rparr>) = headers_end n (l # l' # ls) a"
    by (simp add: headers_end_def Let_def a_push_def a_done_def)
  finally show ?case .
qed

lemma spec_run_body:
  assumes "a_state a = STATE_BODY" "a_rem a = of_nat (length (c # cs))" "length (c # cs) < 2 ^ 64"
  shows "\<exists>b. spec_run (c # cs) a = Some b \<and> a_state b = STATE_NEW \<and> a_pend b = [] \<and> a_lines b = [] \<and>
    a_cb b = a_cb a \<and>
    a_out b = (if a_cb a then a_out a @ [(a_lines a, Some (a_pend a @ c # cs))] else a_out a)"
  using assms
proof (induction cs arbitrary: c a)
  case Nil
  then show ?case by (simp add: spec_char_def spec_body_def a_done_def)
next
  case (Cons d cs)
  have u: "unat (a_rem a) = length (c # d # cs)" using Cons.prems by (simp add: unat_of_nat_lt del: of_nat_Suc)
  then have "a_rem a \<noteq> 0" "a_rem a \<noteq> 1" by auto
  then have "spec_char c a = Some (a_push c (a\<lparr>a_rem := a_rem a - 1\<rparr>))"
    using Cons.prems by (simp add: spec_char_def spec_body_def)
  then show ?case
    using Cons.prems Cons.IH [of "(a_push c (a\<lparr>a_rem := a_rem a - 1\<rparr>))\<lparr>a_last := c\<rparr>" d]
    by (cases "a_cb a") (simp_all add: a_push_def)
qed

text \<open>From the initial state on, a message with canonical header lines is delivered as it was sent.\<close>

lemma spec_run_msg:
  assumes lines: "ls \<noteq> []" "list_all canonical_line ls"
    and cl: "content_length 0 ls = Ok (of_nat (length b))" and len: "length b < 2 ^ 64"
    and a: "a_state a = STATE_NEW" "a_cb a"
  shows "\<exists>a'. spec_run (encode_msg ls b) a = Some a' \<and> a_state a' = STATE_NEW \<and> a_pend a' = [] \<and>
    a_lines a' = [] \<and> a_cb a' \<and>
    a_out a' = a_out a @ [(a_lines a @ ls, if b = [] then None else Some b)]"
proof -
  obtain l ls' where ls: "ls = l # ls'" using lines by (cases ls) auto
  obtain c cs where l: "l = c # cs" using lines by (cases l) (auto simp: ls canonical_line_def)
  let ?n = "of_nat (length b) :: size_t"
  have n0: "?n = 0 \<longleftrightarrow> b = []" using len unat_of_nat_lt [of "length b", where ?'a = 64] by auto
  let ?a0 = "a\<lparr>a_state := STATE_HEADER, a_rem := 0, a_pend := l @ [CR, LF], a_last := LF\<rparr>"
  let ?a1 = "a\<lparr>a_state := STATE_HEADER_NL, a_rem := ?n, a_pend := [CR], a_last := CR\<rparr>"
  have "\<not> is_lws c" using lines by (auto simp: ls l canonical_line_def plain_char_def is_lws_def)
  then have "spec_char c a = Some (a\<lparr>a_state := STATE_HEADER, a_rem := 0, a_pend := [c]\<rparr>)"
    using a by (simp add: spec_char_def spec_new_def)
  then have "spec_run (encode_msg ls b) a =
      spec_run (concat (map (\<lambda>l. l @ [CR, LF]) ls') @ CR # LF # b) ?a0"
    using spec_run_line_end [of c cs "a\<lparr>a_state := STATE_HEADER, a_rem := 0, a_pend := [c], a_last := c\<rparr>"] lines
    by (simp add: encode_msg_def ls l)
  also have "\<dots> = spec_run (LF # b)
      (if b = [] then ?a1\<lparr>a_lines := [], a_out := a_out a @ [(a_lines a @ ls, None)]\<rparr>
       else ?a1\<lparr>a_lines := a_lines a @ ls\<rparr>)"
  proof -
    have "headers_end ?n (l # ls') ?a0 =
        (if b = [] then ?a1\<lparr>a_lines := [], a_out := a_out a @ [(a_lines a @ ls, None)]\<rparr>
       else ?a1\<lparr>a_lines := a_lines a @ ls\<rparr>)"
      using a n0 by (cases "b = []") (simp_all add: headers_end_def ls Let_def a_push_def a_done_def)
    then show ?thesis
      using spec_run_lines [of l ls' ?a0 ?n "LF # b"] lines cl by (simp only: ls) simp
  qed
  finally have run: "spec_run (encode_msg ls b) a = \<dots>" .
  show ?thesis
  proof (cases b)
    case Nil
    then show ?thesis using run a by (simp add: spec_char_def spec_nl_def)
  next
    case (Cons d ds)
    let ?a2 = "?a1\<lparr>a_lines := a_lines a @ ls, a_pend := [], a_state := STATE_BODY, a_last := LF\<rparr>"
    have "spec_run (encode_msg ls b) a = spec_run b ?a2"
      using run n0 Cons by (simp add: spec_char_def spec_nl_def del: of_nat_Suc)
    then show ?thesis using spec_run_body [of ?a2 d ds] Cons len a by simp
  qed
qed

subsection \<open>Properties\<close>

text \<open>
  C1: The decoder is memory safe and implements the abstract decoder. Whatever bytes arrive, feeding
  them to a well-formed decoder never accesses memory outside its arrays and leaves the decoder
  well-formed. It succeeds only with the state, header lines and delivered messages of the abstract
  decoder, and it reports \<open>EINVAL\<close> only when the abstract decoder rejects the input (an invalid or
  contradictory content length); the only other error is \<open>ENOMEM\<close>.
\<close>

theorem owfd_rtsp_decoder_feed_refines:
  assumes "dec_ok d" and "allocator_ok M" and "length buf < 2 ^ 63"
  shows "case owfd_rtsp_decoder_feed M buf d of (e, res) \<Rightarrow>
    dec_ok e \<and>
    (res = Err ENOMEM \<or>
     res = Err EINVAL \<and> spec_run buf (dec_view d) = None \<or>
     res = Ok () \<and> spec_run buf (dec_view d) = Some (dec_view e))"
  by (rule owfd_rtsp_decoder_feed_sim [OF assms]) simp

definition demo_decoder :: owfd_rtsp_decoder where
  "demo_decoder = (case owfd_rtsp_decoder_new (\<lambda>_. demo_alloc) True of Ok d \<Rightarrow> d)"

lemma demo_decoder: "owfd_rtsp_decoder_new (\<lambda>_. demo_alloc) True = Ok demo_decoder"
  by (simp add: demo_decoder_def owfd_rtsp_decoder_new_def demo_alloc_def)

theorem owfd_rtsp_decoder_feed_refines_witness:
  "case owfd_rtsp_decoder_feed (\<lambda>_. demo_alloc) ''OPTIONS'' demo_decoder of (e, res) \<Rightarrow>
    dec_ok e \<and>
    (res = Err ENOMEM \<or>
     res = Err EINVAL \<and> spec_run ''OPTIONS'' (dec_view demo_decoder) = None \<or>
     res = Ok () \<and> spec_run ''OPTIONS'' (dec_view demo_decoder) = Some (dec_view e))"
  by (rule owfd_rtsp_decoder_feed_refines [OF owfd_rtsp_decoder_new_ok [OF demo_decoder] demo_allocator_ok])
    simp



text \<open>
  C2: What is sent is received. A message of canonical header lines, whose content-length lines
  announce the length of the body, is delivered by a fresh decoder with exactly these lines and this
  body, in whatever chunks the encoding arrives, and leaves the decoder ready for the next message. Memory suffices when every request of at
  most 32 times the length of the message (and one byte more) is served.
\<close>

theorem rtsp_message_roundtrip:
  assumes "owfd_rtsp_decoder_new M True = Ok d" and "allocator_ok M"
    and "ls \<noteq> []" and "list_all canonical_line ls"
    and "content_length 0 ls = Ok (of_nat (length b))" and "length b < 2 ^ 64"
    and "concat bs = encode_msg ls b" and "list_all (\<lambda>b. length b < 2 ^ 63) bs"
    and "\<forall>k. serves (32 * (length (encode_msg ls b) + 1)) (M k)"
  shows "case feed_all M bs d of (e, res) \<Rightarrow>
    res = Ok () \<and> map msg_abs (delivered e) = [(ls, if b = [] then None else Some b)] \<and>
    dstate e = STATE_NEW \<and> ring_data (ring e) = [] \<and> list_all msg_ok (delivered e)"
proof -
  note v = owfd_rtsp_decoder_new_view [OF assms(1)]
  have "\<exists>a'. spec_run (concat bs) (dec_view d) = Some a' \<and> a_state a' = STATE_NEW \<and> a_pend a' = [] \<and>
    a_lines a' = [] \<and> a_cb a' \<and> a_out a' = [(ls, if b = [] then None else Some b)]"
    using spec_run_msg [OF assms(3-6), of "dec_view d"] v by (simp add: assms(7))
  moreover have "load d = 0"
    using assms(1) by (auto simp: owfd_rtsp_decoder_new_def load_def split: option.splits)
  then have "\<not> short_of M (load d + 2 * length (concat bs))"
    using assms(9) by (auto simp: short_of_def assms(7) algebra_simps)
  ultimately show ?thesis using feed_all_short [OF owfd_rtsp_decoder_new_ok [OF assms(1)] assms(8,2)]
    by (auto simp: dec_view_def dec_abs_def dec_ok_def)
qed

theorem rtsp_message_roundtrip_witness:
  "case feed_all (\<lambda>_. demo_alloc)
       [''PLAY * RTSP/1.0'' @ [CR], LF # ''Content-Length: 2'' @ [CR, LF, CR], LF # ''a'', ''b''] demo_decoder of
     (e, res) \<Rightarrow>
    res = Ok () \<and>
    map msg_abs (delivered e) = [([''PLAY * RTSP/1.0'', ''Content-Length: 2''], Some ''ab'')] \<and>
    dstate e = STATE_NEW \<and> ring_data (ring e) = [] \<and> list_all msg_ok (delivered e)"
proof -
  have "list_all canonical_line [''PLAY * RTSP/1.0'', ''Content-Length: 2'']"
    by (simp add: canonical_line_def plain_char_def)
  have "parse_header_line 0 ''PLAY * RTSP/1.0'' = Ok 0"
    by (rule parse_other_line) (simp add: strncaseeq_def c_tolower_def)
  moreover have "parse_header_line 0 (''Content-Length:'' @ '' '' @ dec_digits 2) = Ok 2"
  proof (subst parse_content_length)
    show "map c_tolower ''Content-Length:'' = ''content-length:''" by code_simp
  qed (simp_all add: c_isspace_def)
  moreover have "''Content-Length:'' @ '' '' @ dec_digits 2 = ''Content-Length: 2''" by code_simp
  ultimately have "content_length 0 [''PLAY * RTSP/1.0'', ''Content-Length: 2''] = Ok (of_nat (length ''ab''))"
    by (simp only: content_length.simps rbind.simps) simp
  moreover note \<open>list_all canonical_line _\<close>
  moreover have "serves (32 * (length (encode_msg [''PLAY * RTSP/1.0'', ''Content-Length: 2''] ''ab'') + 1)) demo_alloc"
    by (rule demo_alloc_serves) (simp add: encode_msg_def)
  ultimately show ?thesis
    using rtsp_message_roundtrip [OF demo_decoder demo_allocator_ok, of "[''PLAY * RTSP/1.0'', ''Content-Length: 2'']"
        "''ab''" "[''PLAY * RTSP/1.0'' @ [CR], LF # ''Content-Length: 2'' @ [CR, LF, CR], LF # ''a'', ''b'']"]
    by (simp add: encode_msg_def del: feed_all.simps)
qed

text \<open>Feeding and flushing a decoder in any order.\<close>

datatype dec_event = Feed allocator "char list" | FlushDec

fun dec_step :: "owfd_rtsp_decoder \<Rightarrow> dec_event \<Rightarrow> owfd_rtsp_decoder" where
  "dec_step d (Feed M buf) = fst (owfd_rtsp_decoder_feed M buf d)"
| "dec_step d FlushDec = owfd_rtsp_decoder_flush d"

fun dec_event_ok :: "dec_event \<Rightarrow> bool" where
  "dec_event_ok (Feed M buf) \<longleftrightarrow> allocator_ok M \<and> length buf < 2 ^ 63"
| "dec_event_ok FlushDec \<longleftrightarrow> True"

interpretation decoder_run: stepper dec_step dec_event_ok dec_ok
proof
  fix d e
  assume "dec_ok d" "dec_event_ok e"
  then show "dec_ok (dec_step d e)"
    by (cases e) (auto simp: flush_ok elim: owfd_rtsp_decoder_feed_sim)
qed

text \<open>
  C13: The decoder object stays well-formed from its creation to its destruction: after any sequence
  of feeds, successful or not, and flushes, every header array has room for the next line and its
  terminator, every stored line is zero-terminated with its length recorded, every delivered message
  was complete, and \<open>owfd_rtsp_decoder_free\<close> frees initialised pointers only.
\<close>

theorem owfd_rtsp_decoder_invariant:
  assumes "owfd_rtsp_decoder_new M f = Ok d" and "list_all dec_event_ok es"
  shows "dec_ok (foldl dec_step d es) \<and> owfd_rtsp_decoder_free (foldl dec_step d es) = Ok ()"
proof -
  have "dec_ok (foldl dec_step d es)"
    using decoder_run.run_inv owfd_rtsp_decoder_new_ok assms by blast
  then show ?thesis using free_headers_ok by (auto simp: owfd_rtsp_decoder_free_def dec_ok_def)
qed

theorem owfd_rtsp_decoder_invariant_witness:
  "dec_ok (foldl dec_step demo_decoder [Feed (\<lambda>_. demo_alloc) ''PLAY'', FlushDec]) \<and>
   owfd_rtsp_decoder_free (foldl dec_step demo_decoder [Feed (\<lambda>_. demo_alloc) ''PLAY'', FlushDec]) = Ok ()"
  by (rule owfd_rtsp_decoder_invariant [OF demo_decoder]) (simp add: demo_allocator_ok)

text \<open>
  \<open>owfd_rtsp_decoder_flush\<close>, which also runs after every failed feed, keeps the header lines that
  were already collected: they reappear in front of the lines of the next message.
\<close>

lemma flush_keeps_stale_headers:
  assumes "dec_ok d" and "cb d" and "allocator_ok M"
    and "ls \<noteq> []" and "list_all canonical_line ls"
    and "content_length 0 ls = Ok (of_nat (length b))" and "length (encode_msg ls b) < 2 ^ 63"
  shows "case owfd_rtsp_decoder_feed M (encode_msg ls b) (owfd_rtsp_decoder_flush d) of (e, res) \<Rightarrow>
    res = Err ENOMEM \<or>
    res = Ok () \<and> map msg_abs (delivered e) =
      map msg_abs (delivered d) @ [(msg_lines (msg d) @ ls, if b = [] then None else Some b)]"
proof -
  let ?d = "owfd_rtsp_decoder_flush d"
  have "length b < 2 ^ 64" using assms(7) by (simp add: encode_msg_def)
  from spec_run_msg [OF assms(4-6) this, of "dec_view ?d"] assms(2)
  have "\<exists>a'. spec_run (encode_msg ls b) (dec_view ?d) = Some a' \<and>
      a_out a' = a_out (dec_view ?d) @ [(a_lines (dec_view ?d) @ ls, if b = [] then None else Some b)]"
    by (auto simp: dec_view_def dec_abs_def owfd_rtsp_decoder_flush_def)
  moreover obtain e res where "owfd_rtsp_decoder_feed M (encode_msg ls b) ?d = (e, res)"
    "res = Err ENOMEM \<or> res = Err EINVAL \<and> spec_run (encode_msg ls b) (dec_view ?d) = None \<or>
     res = Ok () \<and> spec_run (encode_msg ls b) (dec_view ?d) = Some (dec_view e)"
    using owfd_rtsp_decoder_feed_sim [OF flush_ok [OF assms(1)] assms(3,7)] by metis
  ultimately show ?thesis by (auto simp: dec_view_def dec_abs_def owfd_rtsp_decoder_flush_def)
qed

theorem flush_keeps_stale_headers_witness:
  "case owfd_rtsp_decoder_feed (\<lambda>_. demo_alloc) (encode_msg [''PLAY''] [])
       (owfd_rtsp_decoder_flush demo_decoder) of (e, res) \<Rightarrow>
    res = Err ENOMEM \<or>
    res = Ok () \<and> map msg_abs (delivered e) =
      map msg_abs (delivered demo_decoder) @ [(msg_lines (msg demo_decoder) @ [''PLAY''], None)]"
proof -
  have "cb demo_decoder" using demo_decoder by (simp add: demo_decoder_def owfd_rtsp_decoder_new_def demo_alloc_def)
  moreover have "list_all canonical_line [''PLAY'']" by (simp add: canonical_line_def plain_char_def)
  moreover have "content_length 0 [''PLAY''] = Ok (of_nat (length []))"
    by (simp add: parse_other_line strncaseeq_def c_tolower_def)
  ultimately show ?thesis
    using flush_keeps_stale_headers [OF owfd_rtsp_decoder_new_ok [OF demo_decoder] _ demo_allocator_ok, of "[''PLAY'']" "[]"]
    by (simp add: encode_msg_def)
qed

end
