(* ===== verification/Rtsp_Tokenizer.thy ===== *)
theory Rtsp_Tokenizer
  imports Cstring
begin

text \<open>
  The tokenizer for RTSP header lines of \<open>src/rtsp_tokenizer.c\<close>. It writes the tokens of a line,
  each with a terminating zero byte, into one block. The write position is an integer, since the
  code also decrements it.

  The reference \<open>rtsp_tokens\<close> collects tokens as lists. The theorems show that the tokenizer
  implements it within its block of \<open>2 * len + 1\<close> bytes, that quoted tokens are read back, and where
  the code leaves its block.
\<close>

subsection \<open>The tokenizer\<close>

record rtok =
  t_buf :: "char list"
  t_dst :: int
  t_num :: size_t
  t_last :: char
  t_quoted :: bool
  t_escaped :: bool

text \<open>\<open>*dst++ = x\<close>, and the end of a token.\<close>

definition put :: "char \<Rightarrow> rtok \<Rightarrow> rtok result" where
  "put x s =
     (if 0 \<le> t_dst s \<and> nat (t_dst s) < length (t_buf s)
      then Ok (s\<lparr>t_buf := (t_buf s)[nat (t_dst s) := x], t_dst := t_dst s + 1\<rparr>) else Fault)"

definition end_token :: "rtok \<Rightarrow> rtok result" where
  "end_token s = rbind (put NUL s) (\<lambda>s. Ok (s\<lparr>t_num := t_num s + 1\<rparr>))"

definition end_token_if :: "char \<Rightarrow> rtok \<Rightarrow> rtok result" where
  "end_token_if prev s = (if prev \<noteq> NUL then end_token s else Ok s)"

definition is_special :: "char \<Rightarrow> bool" where
  "is_special c \<longleftrightarrow> c \<in> set ''()[]{}<>@,;:/?='' \<or> c = BACKSLASH"

text \<open>\<open>c <= 31 || c == 127\<close>, where \<open>char\<close> is a signed type: bytes above 127 are negative.\<close>

definition is_ctl :: "char \<Rightarrow> bool" where
  "is_ctl c \<longleftrightarrow> (of_char c :: nat) \<le> 31 \<or> 128 \<le> (of_char c :: nat) \<or> (of_char c :: nat) = 127"

text \<open>The character an escape sequence stands for, the sequence for the zero byte apart.\<close>

definition unescape :: "char \<Rightarrow> char" where
  "unescape c =
     (if c = CHR ''n'' then LF else if c = CHR ''r'' then CR else if c = CHR ''t'' then TAB
      else if c = CHR ''a'' then CHR 0x07 else if c = CHR ''f'' then CHR 0x0C
      else if c = CHR ''v'' then CHR 0x0B else if c = CHR ''b'' then CHR 0x08
      else if c = CHR ''e'' then CHR 0x1B else c)"

definition tokenize_char :: "char \<Rightarrow> rtok \<Rightarrow> rtok result" where
  "tokenize_char c s =
     (let prev = t_last s; s = s\<lparr>t_last := c\<rparr>
      in if t_quoted s then
           if t_escaped s then
             rbind (if c = CHR ''0'' \<or> c = NUL then Ok (s\<lparr>t_dst := t_dst s - 1\<rparr>) else put (unescape c) s)
               (\<lambda>s. Ok (s\<lparr>t_escaped := False\<rparr>))
           else if c = DQUOTE then
             rbind (end_token s) (\<lambda>s. Ok (s\<lparr>t_quoted := False, t_last := NUL\<rparr>))
           else if c = BACKSLASH then Ok (s\<lparr>t_escaped := True\<rparr>)
           else if c = NUL then Ok s
           else put c s
         else if c = DQUOTE then
           rbind (end_token_if prev s) (\<lambda>s. Ok (s\<lparr>t_quoted := True, t_escaped := False, t_last := NUL\<rparr>))
         else if c = NUL then Ok s
         else if c = SPACE then
           rbind (end_token_if prev s) (\<lambda>s. Ok (s\<lparr>t_last := NUL\<rparr>))
         else if is_special c then
           rbind (end_token_if prev s) (\<lambda>s.
           rbind (put c s) (\<lambda>s.
           rbind (end_token s) (\<lambda>s. Ok (s\<lparr>t_last := NUL\<rparr>))))
         else if is_ctl c then
           rbind (end_token_if prev s) (\<lambda>s. Ok (s\<lparr>t_last := NUL\<rparr>))
         else put c s)"

fun tokenize_loop :: "char list \<Rightarrow> rtok \<Rightarrow> rtok result" where
  "tokenize_loop [] s = Ok s"
| "tokenize_loop (c # cs) s = rbind (tokenize_char c s) (tokenize_loop cs)"

text \<open>The result is the block with the tokens and their number, the return value.\<close>

definition owfd_rtsp_tokenize :: "block_alloc \<Rightarrow> char list \<Rightarrow> (char list \<times> size_t) result" where
  "owfd_rtsp_tokenize malloc line =
     (let len = of_nat (length line) :: size_t; l = len * 2 + 1
      in if l \<le> len then Err ENOMEM
         else case malloc l of
           None \<Rightarrow> Err ENOMEM
         | Some t \<Rightarrow>
             rbind (mem_write t 0 NUL) (\<lambda>t.
             rbind (tokenize_loop line
                 \<lparr>t_buf = t, t_dst = 0, t_num = 0, t_last = NUL, t_quoted = False, t_escaped = False\<rparr>) (\<lambda>s.
             rbind (end_token_if (t_last s) s) (\<lambda>s. Ok (t_buf s, t_num s)))))"

subsection \<open>The reference\<close>

record ktok =
  k_done :: "char list list"
  k_cur :: "char list"
  k_last :: char
  k_quoted :: bool
  k_escaped :: bool

definition k_end :: "ktok \<Rightarrow> ktok" where
  "k_end s = s\<lparr>k_done := k_done s @ [k_cur s], k_cur := []\<rparr>"

definition k_end_if :: "char \<Rightarrow> ktok \<Rightarrow> ktok" where
  "k_end_if prev s = (if prev \<noteq> NUL then k_end s else s)"

definition k_put :: "char \<Rightarrow> ktok \<Rightarrow> ktok" where
  "k_put c s = s\<lparr>k_cur := k_cur s @ [c]\<rparr>"

text \<open>\<open>None\<close> for the escape sequence of the zero byte, which no token can hold.\<close>

definition token_char :: "char \<Rightarrow> ktok \<Rightarrow> ktok option" where
  "token_char c s =
     (let prev = k_last s; s = s\<lparr>k_last := c\<rparr>
      in if k_quoted s then
           if k_escaped s then
             if c = CHR ''0'' then None else Some ((k_put (unescape c) s)\<lparr>k_escaped := False\<rparr>)
           else if c = DQUOTE then Some ((k_end s)\<lparr>k_quoted := False, k_last := NUL\<rparr>)
           else if c = BACKSLASH then Some (s\<lparr>k_escaped := True\<rparr>)
           else Some (k_put c s)
         else if c = DQUOTE then
           Some ((k_end_if prev s)\<lparr>k_quoted := True, k_escaped := False, k_last := NUL\<rparr>)
         else if is_special c then
           Some ((k_end (k_put c (k_end_if prev s)))\<lparr>k_last := NUL\<rparr>)
         else if c = SPACE \<or> is_ctl c then Some ((k_end_if prev s)\<lparr>k_last := NUL\<rparr>)
         else Some (k_put c s))"

fun token_run :: "char list \<Rightarrow> ktok \<Rightarrow> ktok option" where
  "token_run [] s = Some s"
| "token_run (c # cs) s = (case token_char c s of None \<Rightarrow> None | Some s \<Rightarrow> token_run cs s)"

definition k_init :: ktok where
  "k_init = \<lparr>k_done = [], k_cur = [], k_last = NUL, k_quoted = False, k_escaped = False\<rparr>"

definition rtsp_tokens :: "char list \<Rightarrow> char list list option" where
  "rtsp_tokens line = map_option (\<lambda>s. k_done (k_end_if (k_last s) s)) (token_run line k_init)"

subsection \<open>The tokenizer implements the reference\<close>

definition written :: "rtok \<Rightarrow> char list \<Rightarrow> bool" where
  "written s bs \<longleftrightarrow> t_dst s = int (length bs) \<and> take (length bs) (t_buf s) = bs"

text \<open>
  \<open>n\<close> characters have been read: what is written are the finished tokens and the current one, with
  room for two bytes per character, one of them kept back while a token is open.
\<close>

definition tok_rel :: "nat \<Rightarrow> nat \<Rightarrow> rtok \<Rightarrow> ktok \<Rightarrow> bool" where
  "tok_rel len n s k \<longleftrightarrow>
     written s (flat (k_done k) @ k_cur k) \<and> length (t_buf s) = 2 * len + 1 \<and>
     length (flat (k_done k) @ k_cur k) + of_bool (k_last k \<noteq> NUL) \<le> 2 * n \<and>
     t_num s = of_nat (length (k_done k)) \<and> t_last s = k_last k \<and> t_quoted s = k_quoted k \<and>
     t_escaped s = k_escaped k \<and> list_all (\<lambda>t. NUL \<notin> set t) (k_done k) \<and> NUL \<notin> set (k_cur k)"

lemma put_written:
  assumes "written s bs" "length bs < length (t_buf s)"
  obtains b where "put x s = Ok (s\<lparr>t_buf := b, t_dst := int (length bs) + 1\<rparr>)" "length b = length (t_buf s)"
    "take (Suc (length bs)) b = bs @ [x]"
  using assms that [of "(t_buf s)[length bs := x]"]
  by (simp add: put_def written_def take_Suc_conv_app_nth)

lemma end_token_written:
  assumes "written s bs" "length bs < length (t_buf s)"
  obtains b where "end_token s = Ok (s\<lparr>t_buf := b, t_dst := int (length bs) + 1, t_num := t_num s + 1\<rparr>)"
    "length b = length (t_buf s)" "take (Suc (length bs)) b = bs @ [NUL]"
  by (rule put_written [OF assms, of NUL]) (auto simp: end_token_def intro: that)

lemma unescape_not_NUL: "c \<noteq> NUL \<Longrightarrow> unescape c \<noteq> NUL"
  by (simp add: unescape_def)

text \<open>The three effects a character can have on the block: nothing, one more byte, a token end.\<close>

lemma tok_rel_put:
  assumes "tok_rel len n s k" "n < len" "c \<noteq> NUL" "x \<noteq> NUL"
  obtains s' where "put x (s\<lparr>t_last := c\<rparr>) = Ok s'" "tok_rel len (Suc n) s' (k_put x (k\<lparr>k_last := c\<rparr>))"
proof -
  let ?bs = "flat (k_done k) @ k_cur k"
  have "written (s\<lparr>t_last := c\<rparr>) ?bs" "length ?bs < length (t_buf (s\<lparr>t_last := c\<rparr>))"
    using assms by (auto simp: tok_rel_def written_def)
  from put_written [OF this, of x] obtain b where
    "put x (s\<lparr>t_last := c\<rparr>) = Ok (s\<lparr>t_last := c, t_buf := b, t_dst := int (length ?bs) + 1\<rparr>)"
    "length b = length (t_buf s)" "take (Suc (length ?bs)) b = ?bs @ [x]" by auto
  then show ?thesis using assms
    by (intro that) (auto simp: tok_rel_def written_def k_put_def)
qed

lemma tok_rel_end_if:
  assumes "tok_rel len n s k" "n \<le> len" "k_last k = NUL \<longrightarrow> k_cur k = []"
  obtains s' where "end_token_if (t_last s) (s\<lparr>t_last := c\<rparr>) = Ok s'"
    "tok_rel len n (s'\<lparr>t_last := NUL\<rparr>) ((k_end_if (k_last k) k)\<lparr>k_last := NUL\<rparr>)" "t_last s' = c"
    "k_cur (k_end_if (k_last k) k) = []"
proof (cases "k_last k = NUL")
  case True
  then show ?thesis using assms that [of "s\<lparr>t_last := c\<rparr>"]
    by (auto simp: end_token_if_def k_end_if_def tok_rel_def written_def)
next
  case False
  let ?bs = "flat (k_done k) @ k_cur k"
  have "written (s\<lparr>t_last := c\<rparr>) ?bs" "length ?bs < length (t_buf (s\<lparr>t_last := c\<rparr>))"
    using assms False by (auto simp: tok_rel_def written_def)
  from end_token_written [OF this] obtain b where
    "end_token (s\<lparr>t_last := c\<rparr>) =
      Ok (s\<lparr>t_last := c, t_buf := b, t_dst := int (length ?bs) + 1, t_num := t_num s + 1\<rparr>)"
    "length b = length (t_buf s)" "take (Suc (length ?bs)) b = ?bs @ [NUL]" by auto
  then show ?thesis using assms False
    by (intro that) (auto simp: tok_rel_def written_def k_end_if_def k_end_def end_token_if_def)
qed

lemma tok_rel_read: "tok_rel len n s k \<Longrightarrow> tok_rel len (Suc n) (s\<lparr>t_last := c\<rparr>) (k\<lparr>k_last := c\<rparr>)"
  by (auto simp: tok_rel_def written_def)

lemma tok_rel_mono: "tok_rel len n s k \<Longrightarrow> n \<le> m \<Longrightarrow> tok_rel len m s k"
  by (auto simp: tok_rel_def)

lemma tok_rel_flags:
  "tok_rel len n s k \<Longrightarrow> tok_rel len n (s\<lparr>t_quoted := q\<rparr>) (k\<lparr>k_quoted := q\<rparr>)"
  "tok_rel len n s k \<Longrightarrow> tok_rel len n (s\<lparr>t_escaped := q\<rparr>) (k\<lparr>k_escaped := q\<rparr>)"
  by (auto simp: tok_rel_def written_def)

lemma tok_rel_end:
  assumes "tok_rel len n s k" "n \<le> len" "k_last k \<noteq> NUL"
  obtains s' where "end_token s = Ok s'" "tok_rel len n (s'\<lparr>t_last := NUL\<rparr>) ((k_end k)\<lparr>k_last := NUL\<rparr>)"
proof -
  have last: "t_last s = k_last k" using assms by (simp add: tok_rel_def)
  from tok_rel_end_if [OF assms(1,2), of "t_last s"] assms(3) obtain s' where
    "end_token_if (t_last s) (s\<lparr>t_last := t_last s\<rparr>) = Ok s'"
    "tok_rel len n (s'\<lparr>t_last := NUL\<rparr>) ((k_end_if (k_last k) k)\<lparr>k_last := NUL\<rparr>)" by blast
  moreover have "s\<lparr>t_last := k_last k\<rparr> = s" using last by (cases s) simp
  ultimately show ?thesis using last assms(3) by (intro that [of s']) (auto simp: end_token_if_def k_end_if_def)
qed

definition tok_inv :: "ktok \<Rightarrow> bool" where
  "tok_inv k \<longleftrightarrow> (k_last k = NUL \<longrightarrow> k_cur k = [])"

lemma tokenize_char_quoted:
  assumes rel: "tok_rel len n s k" and n: "n < len" and c: "c \<noteq> NUL" and q: "k_quoted k"
    and step: "token_char c k = Some k'"
  shows "\<exists>s'. tokenize_char c s = Ok s' \<and> tok_rel len (Suc n) s' k' \<and> tok_inv k'"
proof -
  have eq: "t_quoted s = k_quoted k" "t_escaped s = k_escaped k" using rel by (auto simp: tok_rel_def)
  note read = tok_rel_read [OF rel, of c]
  show ?thesis
  proof (cases "k_escaped k")
    case True
    then have c0: "c \<noteq> CHR ''0''" using step q by (auto simp: token_char_def)
    from tok_rel_put [OF rel n c unescape_not_NUL [OF c]] obtain s' where
      "put (unescape c) (s\<lparr>t_last := c\<rparr>) = Ok s'"
      "tok_rel len (Suc n) s' (k_put (unescape c) (k\<lparr>k_last := c\<rparr>))" .
    then show ?thesis using True q eq c c0 step
      by (auto simp: tokenize_char_def token_char_def tok_inv_def k_put_def intro: tok_rel_flags)
  next
    case False
    consider "c = DQUOTE" | "c = BACKSLASH" | "c \<noteq> DQUOTE" "c \<noteq> BACKSLASH" by blast
    then show ?thesis
    proof cases
      case 1
      have "k_last (k\<lparr>k_last := c\<rparr>) \<noteq> NUL" using c by simp
      from tok_rel_end [OF read _ this] n obtain s' where "end_token (s\<lparr>t_last := c\<rparr>) = Ok s'"
        "tok_rel len (Suc n) (s'\<lparr>t_last := NUL\<rparr>) ((k_end (k\<lparr>k_last := c\<rparr>))\<lparr>k_last := NUL\<rparr>)" by auto
      then show ?thesis using 1 False q eq step
        by (auto simp: tokenize_char_def token_char_def tok_inv_def k_end_def tok_rel_def written_def)
    next
      case 2
      then show ?thesis using False q eq step tok_rel_flags(2) [OF read]
        by (auto simp: tokenize_char_def token_char_def tok_inv_def)
    next
      case 3
      from tok_rel_put [OF rel n c c] obtain s' where "put c (s\<lparr>t_last := c\<rparr>) = Ok s'"
        "tok_rel len (Suc n) s' (k_put c (k\<lparr>k_last := c\<rparr>))" .
      then show ?thesis using 3 False q eq step c
        by (auto simp: tokenize_char_def token_char_def tok_inv_def k_put_def)
    qed
  qed
qed

lemma special_facts: "is_special c \<Longrightarrow> c \<noteq> DQUOTE \<and> c \<noteq> SPACE \<and> c \<noteq> NUL"
  by (auto simp: is_special_def)

lemma tokenize_char_unquoted:
  assumes rel: "tok_rel len n s k" and n: "n < len" and c: "c \<noteq> NUL" and q: "\<not> k_quoted k"
    and inv: "tok_inv k" and step: "token_char c k = Some k'"
  shows "\<exists>s'. tokenize_char c s = Ok s' \<and> tok_rel len (Suc n) s' k' \<and> tok_inv k'"
proof -
  have eq: "t_quoted s = k_quoted k" "t_last s = k_last k" using rel by (auto simp: tok_rel_def)
  from tok_rel_end_if [OF rel, of c] n inv obtain s1 where s1:
    "end_token_if (t_last s) (s\<lparr>t_last := c\<rparr>) = Ok s1"
    "tok_rel len n (s1\<lparr>t_last := NUL\<rparr>) ((k_end_if (k_last k) k)\<lparr>k_last := NUL\<rparr>)" "t_last s1 = c"
    "k_cur (k_end_if (k_last k) k) = []"
    by (auto simp: tok_inv_def)
  note rel1 = tok_rel_mono [OF s1(2), of "Suc n"]
  consider "c = DQUOTE" | "is_special c" | "\<not> is_special c" "c = SPACE \<or> is_ctl c" "c \<noteq> DQUOTE"
    | "c \<noteq> DQUOTE" "\<not> is_special c" "c \<noteq> SPACE" "\<not> is_ctl c" by blast
  then show ?thesis
  proof cases
    case 1
    then show ?thesis using q eq step s1(1,4) rel1
      by (cases "k_last k = NUL")
        (auto simp: tokenize_char_def token_char_def tok_inv_def k_end_if_def k_end_def tok_rel_def
          written_def Let_def)
  next
    case 2
    note sp = special_facts [OF 2]
    have "s1\<lparr>t_last := c\<rparr> = s1" using s1(3) by simp
    with tok_rel_put [OF s1(2) n c c] obtain s2 where s2: "put c s1 = Ok s2"
      "tok_rel len (Suc n) s2 (k_put c ((k_end_if (k_last k) k)\<lparr>k_last := c\<rparr>))" by auto
    have "k_last (k_put c ((k_end_if (k_last k) k)\<lparr>k_last := c\<rparr>)) \<noteq> NUL" using c by (simp add: k_put_def)
    from tok_rel_end [OF s2(2) _ this] n obtain s3 where "end_token s2 = Ok s3"
      "tok_rel len (Suc n) (s3\<lparr>t_last := NUL\<rparr>)
         ((k_end (k_put c ((k_end_if (k_last k) k)\<lparr>k_last := c\<rparr>)))\<lparr>k_last := NUL\<rparr>)" by auto
    then show ?thesis using q eq step s1(1) s2(1) 2 sp
      by (cases "k_last k = NUL")
        (auto simp: tokenize_char_def token_char_def tok_inv_def k_end_if_def k_end_def k_put_def Let_def
          tok_rel_def written_def)
  next
    case 3
    then show ?thesis using q eq step s1(1,4) rel1 c
      by (cases "k_last k = NUL")
        (auto simp: tokenize_char_def token_char_def tok_inv_def k_end_if_def k_end_def Let_def)
  next
    case 4
    from tok_rel_put [OF rel n c c] obtain s' where "put c (s\<lparr>t_last := c\<rparr>) = Ok s'"
      "tok_rel len (Suc n) s' (k_put c (k\<lparr>k_last := c\<rparr>))" .
    then show ?thesis using 4 q eq step c
      by (auto simp: tokenize_char_def token_char_def tok_inv_def k_put_def)
  qed
qed

lemma tokenize_loop_rel:
  assumes "tok_rel len n s k" "n + length cs \<le> len" "NUL \<notin> set cs" "tok_inv k" "token_run cs k = Some k'"
  shows "\<exists>s'. tokenize_loop cs s = Ok s' \<and> tok_rel len (n + length cs) s' k' \<and> tok_inv k'"
  using assms
proof (induction cs arbitrary: n s k)
  case (Cons c cs)
  then obtain k1 where k1: "token_char c k = Some k1" "token_run cs k1 = Some k'" by (auto split: option.splits)
  have "n < len" "c \<noteq> NUL" using Cons.prems by auto
  then obtain s1 where "tokenize_char c s = Ok s1" "tok_rel len (Suc n) s1 k1" "tok_inv k1"
    using tokenize_char_quoted [OF Cons.prems(1) _ _ _ k1(1)]
      tokenize_char_unquoted [OF Cons.prems(1) _ _ _ Cons.prems(4) k1(1)] by blast
  then show ?case using Cons.IH [of "Suc n" s1 k1] Cons.prems k1 by simp
qed simp

lemma owfd_rtsp_tokenize_spec:
  assumes m: "alloc_ok malloc" and line: "NUL \<notin> set line" "length line < 2 ^ 63"
    and toks: "rtsp_tokens line = Some ts"
  shows "(if malloc (of_nat (2 * length line + 1)) = None then owfd_rtsp_tokenize malloc line = Err ENOMEM
      else \<exists>rest. owfd_rtsp_tokenize malloc line = Ok (flat ts @ rest, of_nat (length ts))) \<and>
    list_all (\<lambda>t. NUL \<notin> set t) ts"
proof -
  let ?len = "of_nat (length line) :: size_t"
  have u: "unat ?len = length line" using line by (intro unat_of_nat_lt) simp
  have ul: "unat (?len * 2 + 1) = 2 * length line + 1" using line u by (simp add: unat_word_ariths)
  define N where "N = (of_nat (2 * length line + 1) :: size_t)"
  have l: "\<not> ?len * 2 + 1 \<le> ?len" "?len * 2 + 1 = N"
    using u ul by (simp_all add: word_le_nat_alt N_def)
  have lN: "\<not> N \<le> ?len" "unat N = 2 * length line + 1" using l ul by simp_all
  obtain k where k: "token_run line k_init = Some k" "ts = k_done (k_end_if (k_last k) k)"
    using toks by (auto simp: rtsp_tokens_def)
  let ?s = "\<lambda>t. \<lparr>t_buf = t, t_dst = 0, t_num = 0, t_last = NUL, t_quoted = False, t_escaped = False\<rparr>"
  have run: "\<exists>s s' rest. tokenize_loop line (?s t) = Ok s \<and> end_token_if (t_last s) s = Ok s' \<and>
      t_buf s' = flat ts @ rest \<and> t_num s' = of_nat (length ts) \<and> list_all (\<lambda>t. NUL \<notin> set t) ts"
    if t: "length t = 2 * length line + 1" for t
  proof -
    have "tok_rel (length line) 0 (?s t) k_init" "tok_inv k_init"
      using t by (simp_all add: tok_rel_def written_def k_init_def tok_inv_def)
    from tokenize_loop_rel [OF this(1) _ line(1) this(2) k(1)] obtain s where s:
      "tokenize_loop line (?s t) = Ok s" "tok_rel (length line) (length line) s k" "tok_inv k" by auto
    from tok_rel_end_if [OF s(2), of "t_last s"] s(3) obtain s' where s':
      "end_token_if (t_last s) s = Ok s'"
      "tok_rel (length line) (length line) (s'\<lparr>t_last := NUL\<rparr>) ((k_end_if (k_last k) k)\<lparr>k_last := NUL\<rparr>)"
      "k_cur (k_end_if (k_last k) k) = []"
      by (auto simp: tok_inv_def)
    then have "take (length (flat ts)) (t_buf s') = flat ts" "t_num s' = of_nat (length ts)"
      "list_all (\<lambda>t. NUL \<notin> set t) ts"
      by (simp_all add: tok_rel_def written_def k(2))
    then show ?thesis using s(1) s'(1) by (metis append_take_drop_id)
  qed
  have "\<exists>rest. owfd_rtsp_tokenize malloc line = Ok (flat ts @ rest, of_nat (length ts))"
    if "malloc N = Some t" for t
  proof -
    have "length t = 2 * length line + 1" using alloc_okD(1) [OF m that] lN by simp
    with run [of "t[0 := NUL]"] show ?thesis using lN that
      unfolding owfd_rtsp_tokenize_def Let_def l(2) by (auto simp: mem_simps)
  qed
  moreover have "list_all (\<lambda>t. NUL \<notin> set t) ts" using run [of "replicate (2 * length line + 1) NUL"] by auto
  moreover have "owfd_rtsp_tokenize malloc line = Err ENOMEM" if "malloc N = None"
    using that lN unfolding owfd_rtsp_tokenize_def Let_def l(2) by simp
  ultimately show ?thesis unfolding N_def [symmetric] by auto
qed

subsection \<open>Quoting\<close>

text \<open>A token as a quoted string: a backslash before every quote and backslash.\<close>

fun quote_chars :: "char list \<Rightarrow> char list" where
  "quote_chars [] = []"
| "quote_chars (c # cs) = (if c = DQUOTE \<or> c = BACKSLASH then [BACKSLASH, c] else [c]) @ quote_chars cs"

definition quote :: "char list \<Rightarrow> char list" where
  "quote t = DQUOTE # quote_chars t @ [DQUOTE]"

lemma token_run_append:
  "token_run (xs @ ys) k = (case token_run xs k of None \<Rightarrow> None | Some k \<Rightarrow> token_run ys k)"
  by (induction xs arbitrary: k) (auto split: option.splits)

lemma token_run_quote_chars:
  assumes "k_quoted k" "\<not> k_escaped k"
  shows "\<exists>c. token_run (quote_chars t) k = Some (k\<lparr>k_cur := k_cur k @ t, k_last := c\<rparr>)"
  using assms
proof (induction t arbitrary: k)
  case Nil
  show ?case by (intro exI [of _ "k_last k"]) simp
next
  case (Cons c cs)
  have "token_run (if c = DQUOTE \<or> c = BACKSLASH then [BACKSLASH, c] else [c]) k =
      Some (k\<lparr>k_cur := k_cur k @ [c], k_last := c\<rparr>)"
    using Cons.prems by (auto simp: token_char_def k_put_def unescape_def)
  then show ?case
    using Cons.prems Cons.IH [of "k\<lparr>k_cur := k_cur k @ [c], k_last := c\<rparr>"] by (simp add: token_run_append)
qed

lemma token_run_quote:
  assumes "\<not> k_quoted k" "k_cur k = []" "k_last k = NUL"
  shows "\<exists>e. token_run (quote t) k = Some (k\<lparr>k_done := k_done k @ [t], k_escaped := e\<rparr>)"
proof -
  let ?k = "k\<lparr>k_quoted := True, k_escaped := False\<rparr>"
  have "token_char DQUOTE k = Some ?k" using assms by (simp add: token_char_def k_end_if_def Let_def)
  moreover obtain c where "token_run (quote_chars t) ?k = Some (?k\<lparr>k_cur := k_cur ?k @ t, k_last := c\<rparr>)"
    using token_run_quote_chars [of ?k t] by auto
  ultimately show ?thesis using assms
    by (intro exI [of _ False]) (simp add: quote_def token_run_append token_char_def k_end_def)
qed

lemma token_run_quotes:
  assumes "\<not> k_quoted k" "k_cur k = []" "k_last k = NUL"
  shows "\<exists>e. token_run (concat (map quote ts)) k = Some (k\<lparr>k_done := k_done k @ ts, k_escaped := e\<rparr>)"
  using assms
proof (induction ts arbitrary: k)
  case Nil
  show ?case by (intro exI [of _ "k_escaped k"]) simp
next
  case (Cons t ts)
  obtain e where "token_run (quote t) k = Some (k\<lparr>k_done := k_done k @ [t], k_escaped := e\<rparr>)"
    using token_run_quote [OF Cons.prems] by blast
  then show ?case
    using Cons.IH [of "k\<lparr>k_done := k_done k @ [t], k_escaped := e\<rparr>"] Cons.prems by (simp add: token_run_append)
qed

lemma rtsp_tokens_quote: "rtsp_tokens (concat (map quote ts)) = Some ts"
  using token_run_quotes [of k_init ts] by (auto simp: rtsp_tokens_def k_init_def k_end_if_def)

subsection \<open>Properties\<close>

text \<open>
  C14: On every line without the escape sequence \<open>\0\<close> inside quotes the tokenizer stays inside its
  block of \<open>2 * len + 1\<close> bytes and returns the tokens of the reference one after the other, each
  zero-terminated and free of zero bytes, and their number; it fails only when \<open>malloc\<close> fails.
\<close>

theorem owfd_rtsp_tokenize_correct:
  assumes "alloc_ok malloc" and "NUL \<notin> set line" and "length line < 2 ^ 63" and "rtsp_tokens line = Some ts"
  shows "(if malloc (of_nat (2 * length line + 1)) = None then owfd_rtsp_tokenize malloc line = Err ENOMEM
      else \<exists>rest. owfd_rtsp_tokenize malloc line = Ok (flat ts @ rest, of_nat (length ts))) \<and>
    list_all (\<lambda>t. NUL \<notin> set t) ts"
  by (rule owfd_rtsp_tokenize_spec [OF assms])

theorem owfd_rtsp_tokenize_correct_witness:
  "\<exists>rest. owfd_rtsp_tokenize demo_alloc ''CSeq: 2'' = Ok (flat [''CSeq'', '':'', ''2''] @ rest, 3)"
proof -
  have "rtsp_tokens ''CSeq: 2'' = Some [''CSeq'', '':'', ''2'']" by code_simp
  from owfd_rtsp_tokenize_correct [OF demo_alloc_ok _ _ this] show ?thesis
    by (simp add: demo_alloc_def del: flat_simps)
qed

text \<open>
  C15: Tokens survive quoting. Any list of tokens without zero bytes, written one after the other as
  quoted strings, is read back token for token.
\<close>

theorem rtsp_quote_roundtrip:
  assumes "alloc_ok malloc" and "list_all (\<lambda>t. NUL \<notin> set t) ts" and "length (concat (map quote ts)) < 2 ^ 63"
    and "malloc (of_nat (2 * length (concat (map quote ts)) + 1)) \<noteq> None"
  shows "\<exists>rest. owfd_rtsp_tokenize malloc (concat (map quote ts)) = Ok (flat ts @ rest, of_nat (length ts))"
proof -
  have "NUL \<notin> set (quote_chars t)" if "NUL \<notin> set t" for t
    using that by (induction t) auto
  then have "NUL \<notin> set (concat (map quote ts))" using assms(2) by (auto simp: quote_def list_all_iff)
  from owfd_rtsp_tokenize_spec [OF assms(1) this assms(3) rtsp_tokens_quote] assms(4) show ?thesis by simp
qed

theorem rtsp_quote_roundtrip_witness:
  "\<exists>rest. owfd_rtsp_tokenize demo_alloc (concat (map quote [''a b'', [DQUOTE]])) =
     Ok (flat [''a b'', [DQUOTE]] @ rest, 2)"
  using rtsp_quote_roundtrip [of demo_alloc "[''a b'', [DQUOTE]]"]
  by (simp add: demo_alloc_ok demo_alloc_def quote_def)

text \<open>
  A line that begins with the quoted escape sequence \<open>\0\<close> makes the tokenizer write in front of
  its block: the decrement of \<open>dst\<close>, meant to drop the character, leaves position -1.
\<close>

lemma rtsp_tokenize_zero_escape_underflow:
  assumes "alloc_ok malloc" and "length line < 2 ^ 62"
    and "malloc (of_nat (2 * length (DQUOTE # BACKSLASH # CHR ''0'' # CHR ''x'' # line) + 1)) \<noteq> None"
  shows "owfd_rtsp_tokenize malloc (DQUOTE # BACKSLASH # CHR ''0'' # CHR ''x'' # line) = Fault"
proof -
  let ?line = "DQUOTE # BACKSLASH # CHR ''0'' # CHR ''x'' # line"
  let ?len = "of_nat (length ?line) :: size_t"
  define N where "N = (of_nat (2 * length ?line + 1) :: size_t)"
  have u: "unat ?len = length ?line" using assms(2) by (intro unat_of_nat_lt) simp
  have N: "unat N = 2 * length ?line + 1" using assms(2) unfolding N_def by (intro unat_of_nat_lt) simp
  have l: "?len * 2 + 1 = N" "\<not> N \<le> ?len" using u N by (simp_all add: N_def word_le_nat_alt)
  obtain t where t: "malloc N = Some t" using assms(3) by (auto simp: N_def)
  then have "t \<noteq> []" using alloc_okD(1) [OF assms(1) t] N by auto
  then show ?thesis using t l(2) unfolding owfd_rtsp_tokenize_def Let_def l(1)
    by (simp add: mem_simps tokenize_char_def put_def end_token_if_def)
qed

theorem rtsp_tokenize_zero_escape_underflow_witness:
  "owfd_rtsp_tokenize demo_alloc [DQUOTE, BACKSLASH, CHR ''0'', CHR ''x'', DQUOTE] = Fault"
  using rtsp_tokenize_zero_escape_underflow [OF demo_alloc_ok, of "[DQUOTE]"] by (simp add: demo_alloc_def)

end
