(* ===== verification/Wp.thy ===== *)
theory Wp
  imports Prelude
begin

text \<open>
  Weakest preconditions for the operations with explicit state of the prelude. A postcondition sees
  the result, a value, an error or a fault, and the final state. The rules are equations, so that a
  proof about a long operation is a simplification with \<open>wp_simps\<close> that stops at the operations that have
  a rule of their own in \<open>wp_rules\<close>.
\<close>

named_theorems wp_simps "weakest preconditions of the basic operations"
named_theorems wp_rules "sufficient preconditions of the operations of a component"

definition wp :: "('s, 'a) op \<Rightarrow> ('a result \<Rightarrow> 's \<Rightarrow> bool) \<Rightarrow> 's \<Rightarrow> bool" where
  "wp f Q s = (case f s of (s', r) \<Rightarrow> Q r s')"

definition andthen :: "('a \<Rightarrow> ('s, 'b) op) \<Rightarrow> ('b result \<Rightarrow> 's \<Rightarrow> bool) \<Rightarrow> 'a result \<Rightarrow> 's \<Rightarrow> bool" where
  "andthen g Q r s = (case r of Ok x \<Rightarrow> wp (g x) Q s | Err e \<Rightarrow> Q (Err e) s | Fault \<Rightarrow> Q Fault s)"

lemma andthen_simps [wp_simps]:
  "andthen g Q (Ok x) s = wp (g x) Q s" "andthen g Q (Err e) s = Q (Err e) s" "andthen g Q Fault s = Q Fault s"
  by (simp_all add: andthen_def)

lemma wp_sbind [wp_simps]: "wp (sbind f g) Q s = wp f (andthen g Q) s"
  by (simp add: wp_def sbind_def andthen_def split: prod.splits result.splits)

lemma wp_basic [wp_simps]:
  "wp (sret x) Q s = Q (Ok x) s" "wp (serr e) Q s = Q (Err e) s" "wp (sget g) Q s = Q (Ok (g s)) s"
  "wp (smod h) Q' s = Q' (Ok ()) (h s)" "wp (slift r) Q s = Q r s"
  by (simp_all add: wp_def)

lemma wp_read [wp_simps]: "wp (\<lambda>s. (s, h s)) Q s = Q (h s) s"
  by (simp add: wp_def)

lemma wp_if [wp_simps]: "wp (if b then f else g) Q s = (if b then wp f Q s else wp g Q s)"
  by simp

lemma wpD: "wp f Q s \<Longrightarrow> Q (snd (f s)) (fst (f s))"
  by (simp add: wp_def split: prod.splits)

lemma wp_iff: "wp f Q s \<longleftrightarrow> Q (snd (f s)) (fst (f s))"
  by (simp add: wp_def split: prod.splits)

lemma wp_mono: "wp f Q s \<Longrightarrow> (\<And>r s'. Q r s' \<Longrightarrow> Q' r s') \<Longrightarrow> wp f Q' s"
  by (simp add: wp_iff)

lemma wp_sbindI: "wp f R s \<Longrightarrow> (\<And>r s'. R r s' \<Longrightarrow> andthen g Q r s') \<Longrightarrow> wp (sbind f g) Q s"
  unfolding wp_sbind by (rule wp_mono)

subsection \<open>Triples\<close>

text \<open>
  The triple of a precondition, an operation that then does not fault, and a postcondition on the state,
  whether the result is a value or an error. In a sequence the first part may stop the whole with an
  error, so what holds in the middle must give the postcondition.
\<close>

definition triple :: "('s \<Rightarrow> bool) \<Rightarrow> ('s, 'a) op \<Rightarrow> ('s \<Rightarrow> bool) \<Rightarrow> bool" where
  "triple P f Q \<longleftrightarrow> (\<forall>s. P s \<longrightarrow> wp f (\<lambda>r s'. r \<noteq> Fault \<and> Q s') s)"

named_theorems triples "triples of the operations of a component"

lemma tripleI: "(\<And>s. P s \<Longrightarrow> wp f (\<lambda>r s'. r \<noteq> Fault \<and> Q s') s) \<Longrightarrow> triple P f Q"
  by (simp add: triple_def)

lemma tripleD: "triple P f Q \<Longrightarrow> P s \<Longrightarrow> snd (f s) \<noteq> Fault \<and> Q (fst (f s))"
  by (simp add: triple_def wp_iff)

lemma triple_sbind:
  assumes "triple P f R" and "\<And>x. triple R (g x) Q" and "\<And>s. R s \<Longrightarrow> Q s"
  shows "triple P (sbind f g) Q"
proof (rule tripleI)
  fix s
  assume "P s"
  then have "wp f (\<lambda>r s'. r \<noteq> Fault \<and> R s') s" using assms(1) by (simp add: triple_def)
  then show "wp (sbind f g) (\<lambda>r s'. r \<noteq> Fault \<and> Q s') s"
    by (rule wp_sbindI) (use assms(2,3) in \<open>auto simp: andthen_def triple_def split: result.splits\<close>)
qed

lemma triple_weaken: "triple P f Q \<Longrightarrow> (\<And>s. P' s \<Longrightarrow> P s) \<Longrightarrow> (\<And>s. Q s \<Longrightarrow> Q' s) \<Longrightarrow> triple P' f Q'"
  unfolding triple_def by (blast intro: wp_mono)

lemma triple_if: "triple P f Q \<Longrightarrow> triple P g Q \<Longrightarrow> triple P (if b then f else g) Q"
  by simp

lemma triple_basic:
  "(\<And>s. P s \<Longrightarrow> Q s) \<Longrightarrow> triple P (sret x) Q" "(\<And>s. P s \<Longrightarrow> Q s) \<Longrightarrow> triple P (serr e) Q"
  "(\<And>s. P s \<Longrightarrow> Q s) \<Longrightarrow> triple P (sget g) Q" "y \<noteq> Fault \<Longrightarrow> (\<And>s. P s \<Longrightarrow> Q s) \<Longrightarrow> triple P (slift y) Q"
  "(\<And>s. P s \<Longrightarrow> Q (h s)) \<Longrightarrow> triple P (smod h) Q"
  by (simp_all add: triple_def wp_simps)

end
