(* ===== verification/Kernel.thy ===== *)
theory Kernel
  imports Wp
begin

text \<open>
  The system calls of the control channels (\<open>src/rtsp_ctrl.c\<close>, \<open>src/wpa_ctrl.c\<close>) and the helpers of \<open>src/shared.c\<close>, as
  operations on the part of the kernel they change: the open descriptors of the program and the interest
  list of the one epoll instance of a component. What a call returns is decided by the answers \<open>K\<close>: the
  \<open>n\<close>-th system call of a run gets the answer \<open>K n\<close>, an error or a success with the data of the call, so that a
  statement about all \<open>K\<close> holds for every behaviour of the kernel and of the peers.

  Descriptors are never used twice, as if a closed number were not given out again. Using a descriptor that
  is not open is a \<open>Fault\<close>: in the program such a call would hit whatever was opened in between.
\<close>

unbundle bit_operations_syntax

subsection \<open>Answers\<close>

text \<open>
  \<open>a_alloc\<close> is the allocator at that time, \<open>a_bytes\<close> the data to read, \<open>a_num\<close> a number (of bytes written or of
  ready descriptors, a signal, a process), \<open>a_events\<close> the ready descriptors with their events, \<open>a_time\<close> the microseconds
  the call itself takes and \<open>a_wait\<close> those it would wait for something to happen.
\<close>

record answer =
  a_err :: "errno option"
  a_alloc :: block_alloc
  a_bytes :: "char list"
  a_num :: nat
  a_events :: "(int \<times> u32) list"
  a_time :: nat
  a_wait :: nat

type_synonym answers = "nat \<Rightarrow> answer"

text \<open>The negated error number that a function returns.\<close>

fun errno_val :: "errno \<Rightarrow> int" where
  "errno_val ENOMEM = - 12"
| "errno_val EINVAL = - 22"
| "errno_val ENODEV = - 19"
| "errno_val EALREADY = - 114"
| "errno_val EPIPE = - 32"
| "errno_val ETIMEDOUT = - 110"
| "errno_val EFAULT = - 14"
| "errno_val EAGAIN = - 11"
| "errno_val EIO = - 5"
| "errno_val ENXIO = - 6"
| "errno_val EPROTO = - 71"
| "errno_val (ESYS n) = - int n"

text \<open>What the sources rely on: the allocator behaves, and a failed call has set \<open>errno\<close>.\<close>

definition answers_ok :: "answers \<Rightarrow> bool" where
  "answers_ok K \<longleftrightarrow> (\<forall>n. alloc_ok (a_alloc (K n)) \<and> a_err (K n) \<noteq> Some (ESYS 0))"

record kernel =
  calls :: nat
  now_us :: nat
  next_fd :: int
  open_fds :: "int set"
  interest :: "int \<rightharpoonup> u32"

abbreviation (input) EINTR :: errno where "EINTR \<equiv> ESYS 4"
abbreviation (input) EINPROGRESS :: errno where "EINPROGRESS \<equiv> ESYS 115"
abbreviation (input) EPOLLIN :: u32 where "EPOLLIN \<equiv> 0x1"
abbreviation (input) EPOLLOUT :: u32 where "EPOLLOUT \<equiv> 0x4"
abbreviation (input) EPOLLERR :: u32 where "EPOLLERR \<equiv> 0x8"
abbreviation (input) EPOLLHUP :: u32 where "EPOLLHUP \<equiv> 0x10"

subsection \<open>Calls\<close>

definition tick :: "answers \<Rightarrow> 'a kernel_scheme \<Rightarrow> 'a kernel_scheme" where
  "tick K s = s\<lparr>calls := calls s + 1, now_us := now_us s + a_time (K (calls s))\<rparr>"

definition sys_call :: "answers \<Rightarrow> ('a kernel_scheme, answer) op" where
  "sys_call K s = (tick K s, Ok (K (calls s)))"

text \<open>A call that only succeeds or fails.\<close>

definition sys :: "answers \<Rightarrow> ('a kernel_scheme, answer) op" where
  "sys K = sbind (sys_call K) (\<lambda>a. case a_err a of None \<Rightarrow> sret a | Some e \<Rightarrow> serr e)"

text \<open>\<open>socket\<close>, \<open>epoll_create1\<close>, \<open>timerfd_create\<close> and their like.\<close>

definition sys_open :: "answers \<Rightarrow> ('a kernel_scheme, int) op" where
  "sys_open K =
     sbind (sys K) (\<lambda>_.
     sbind (sget next_fd) (\<lambda>fd.
     sbind (smod (\<lambda>s. s\<lparr>next_fd := fd + 1, open_fds := insert fd (open_fds s)\<rparr>)) (\<lambda>_.
     sret fd)))"

text \<open>Closing the last descriptor of a file takes it out of the interest list. The result of \<open>close\<close> is not used.\<close>

definition sys_close :: "int \<Rightarrow> ('a kernel_scheme, unit) op" where
  "sys_close fd =
     sbind (sget open_fds) (\<lambda>fds.
     if fd \<notin> fds then slift Fault
     else smod (\<lambda>s. s\<lparr>open_fds := open_fds s - {fd}, interest := (interest s)(fd := None)\<rparr>))"

definition sys_use :: "int \<Rightarrow> ('a kernel_scheme, unit) op" where
  "sys_use fd = sbind (sget open_fds) (\<lambda>fds. if fd \<in> fds then sret () else slift Fault)"

definition epoll_add :: "answers \<Rightarrow> int \<Rightarrow> u32 \<Rightarrow> ('a kernel_scheme, unit) op" where
  "epoll_add K fd ev =
     sbind (sys_use fd) (\<lambda>_.
     sbind (sys K) (\<lambda>_.
     sbind (sget interest) (\<lambda>m.
     if m fd \<noteq> None then serr (ESYS 17) else smod (\<lambda>s. s\<lparr>interest := (interest s)(fd \<mapsto> ev)\<rparr>))))"

definition epoll_mod :: "answers \<Rightarrow> int \<Rightarrow> u32 \<Rightarrow> ('a kernel_scheme, unit) op" where
  "epoll_mod K fd ev =
     sbind (sys_use fd) (\<lambda>_.
     sbind (sys K) (\<lambda>_.
     sbind (sget interest) (\<lambda>m.
     if m fd = None then serr (ESYS 2) else smod (\<lambda>s. s\<lparr>interest := (interest s)(fd \<mapsto> ev)\<rparr>))))"

definition epoll_del :: "answers \<Rightarrow> int \<Rightarrow> ('a kernel_scheme, unit) op" where
  "epoll_del K fd =
     sbind (sys_use fd) (\<lambda>_.
     sbind (sys K) (\<lambda>_.
     sbind (sget interest) (\<lambda>m.
     if m fd = None then serr (ESYS 2) else smod (\<lambda>s. s\<lparr>interest := (interest s)(fd := None)\<rparr>))))"

text \<open>
  \<open>epoll_wait\<close> reports descriptors of the interest list, at most \<open>n\<close>, each with some of the events it is watched for,
  or an error condition, which is always watched.
\<close>

definition ready :: "(int \<rightharpoonup> u32) \<Rightarrow> (int \<times> u32) list \<Rightarrow> (int \<times> u32) list" where
  "ready m evs =
     filter (\<lambda>e. snd e \<noteq> 0)
       (map (\<lambda>(fd, e). (fd, e AND (case m fd of None \<Rightarrow> 0 | Some w \<Rightarrow> w OR (EPOLLHUP OR EPOLLERR)))) evs)"

definition epoll_wait :: "answers \<Rightarrow> nat \<Rightarrow> ('a kernel_scheme, (int \<times> u32) list) op" where
  "epoll_wait K n = sbind (sys K) (\<lambda>a. sbind (sget interest) (\<lambda>m. sret (take n (ready m (a_events a)))))"

definition sys_read :: "answers \<Rightarrow> int \<Rightarrow> nat \<Rightarrow> ('a kernel_scheme, char list) op" where
  "sys_read K fd n = sbind (sys_use fd) (\<lambda>_. sbind (sys K) (\<lambda>a. sret (take n (a_bytes a))))"

text \<open>A write takes some of the bytes; the result is their number.\<close>

definition sys_write :: "answers \<Rightarrow> int \<Rightarrow> char list \<Rightarrow> ('a kernel_scheme, nat) op" where
  "sys_write K fd bs = sbind (sys_use fd) (\<lambda>_. sbind (sys K) (\<lambda>a. sret (min (a_num a) (length bs))))"

text \<open>
  \<open>ppoll\<close> on one descriptor waits until something happens, at most for the timeout; the result are the events of the
  descriptor, or \<open>None\<close> when the time is over.
\<close>

definition sys_ppoll :: "answers \<Rightarrow> int \<Rightarrow> nat \<Rightarrow> ('a kernel_scheme, u32 option) op" where
  "sys_ppoll K fd timeout =
     sbind (sys_use fd) (\<lambda>_.
     sbind (smod (\<lambda>s. s\<lparr>now_us := now_us s + min (a_wait (K (calls s))) timeout\<rparr>)) (\<lambda>_.
     sbind (sys K) (\<lambda>a. sret (case a_events a of [] \<Rightarrow> None | e # _ \<Rightarrow> Some (snd e)))))"

subsection \<open>Time\<close>

text \<open>
  \<open>get_time_us\<close> and \<open>us_to_timespec\<close> of \<open>src/shared.c\<close>. A \<open>timespec\<close> is a pair of seconds and nanoseconds; the times of the
  program are not negative and far below \<open>2 ^ 63\<close>, so that the C division is \<open>div\<close> and nothing overflows.
\<close>

definition clock_gettime :: "'a kernel_scheme \<Rightarrow> int \<times> int" where
  "clock_gettime s = (int (now_us s) div 1000000, int (now_us s) mod 1000000 * 1000)"

definition get_time_us :: "('a kernel_scheme, int) op" where
  "get_time_us = sbind (sget clock_gettime) (\<lambda>ts. sret (fst ts * 1000 * 1000 + snd ts div 1000))"

definition us_to_timespec :: "int \<Rightarrow> int \<times> int" where
  "us_to_timespec us = (us div (1000 * 1000), us mod (1000 * 1000) * 1000)"

text \<open>How long the kernel waits for a \<open>timespec\<close>, in microseconds.\<close>

definition timespec_us :: "int \<times> int \<Rightarrow> nat" where
  "timespec_us ts = nat (fst ts * 1000000 + snd ts div 1000)"

lemma timespec_us_to_timespec: "timespec_us (us_to_timespec us) = nat us"
  by (simp add: timespec_us_def us_to_timespec_def)

lemma get_time_us_now: "get_time_us s = (s, Ok (int (now_us s)))"
  by (simp add: get_time_us_def clock_gettime_def)

text \<open>
  A call whose failure the caller looks at: the error number, or \<open>None\<close>.
\<close>

definition attempt :: "('s, 'a) op \<Rightarrow> ('s, errno + 'a) op" where
  "attempt m s = (case m s of (s', Ok x) \<Rightarrow> (s', Ok (Inr x)) | (s', Err e) \<Rightarrow> (s', Ok (Inl e)) | (s', Fault) \<Rightarrow> (s', Fault))"

text \<open>Closing a descriptor when a call failed, and passing the error on.\<close>

definition close_on_error :: "int \<Rightarrow> ('s kernel_scheme, 'a) op \<Rightarrow> ('s kernel_scheme, 'a) op" where
  "close_on_error fd m =
     sbind (attempt m) (\<lambda>r. case r of Inl e \<Rightarrow> sbind (sys_close fd) (\<lambda>_. serr e) | Inr x \<Rightarrow> sret x)"

subsection \<open>Weakest preconditions\<close>

lemma tick_simps [simp]:
  "next_fd (tick K s) = next_fd s" "open_fds (tick K s) = open_fds s" "interest (tick K s) = interest s"
  "calls (tick K s) = calls s + 1" "kernel.more (tick K s) = kernel.more s"
  by (simp_all add: tick_def)

definition on_error :: "errno option \<Rightarrow> (errno \<Rightarrow> 'a) \<Rightarrow> 'a \<Rightarrow> 'a" where
  "on_error e f x = (case e of None \<Rightarrow> x | Some e \<Rightarrow> f e)"

lemma on_error_simps [simp]: "on_error None f x = x" "on_error (Some e) f x = f e"
  by (simp_all add: on_error_def)

lemma on_errorI: "x \<Longrightarrow> (\<And>e. f e) \<Longrightarrow> on_error r f x"
  by (cases r) simp_all

lemma wp_sys [wp_simps]:
  "wp (sys_call K) Q s = Q (Ok (K (calls s))) (tick K s)"
  "wp (sys K) Q' s = on_error (a_err (K (calls s))) (\<lambda>e. Q' (Err e) (tick K s)) (Q' (Ok (K (calls s))) (tick K s))"
  by (simp_all add: wp_def sys_call_def sys_def sbind_def split: option.splits)

lemma wp_sys_open [wp_simps]:
  "wp (sys_open K) Q s = on_error (a_err (K (calls s))) (\<lambda>e. Q (Err e) (tick K s))
     (Q (Ok (next_fd s)) ((tick K s)\<lparr>next_fd := next_fd s + 1, open_fds := insert (next_fd s) (open_fds s)\<rparr>))"
  by (simp add: sys_open_def wp_simps)

lemma wp_sys_close [wp_simps]:
  "wp (sys_close fd) Q s =
     (if fd \<in> open_fds s then Q (Ok ()) (s\<lparr>open_fds := open_fds s - {fd}, interest := (interest s)(fd := None)\<rparr>) else Q Fault s)"
  by (simp add: sys_close_def wp_simps)

lemma wp_sys_use [wp_simps]: "wp (sys_use fd) Q s = (if fd \<in> open_fds s then Q (Ok ()) s else Q Fault s)"
  by (simp add: sys_use_def wp_simps)

lemma wp_get_time_us [wp_simps]: "wp get_time_us Q s = Q (Ok (int (now_us s))) s"
  by (simp add: wp_def get_time_us_now)

lemma wp_sys_ppoll [wp_simps]:
  "wp (sys_ppoll K fd timeout) Q s =
     (if fd \<in> open_fds s then
        let s' = tick K (s\<lparr>now_us := now_us s + min (a_wait (K (calls s))) timeout\<rparr>) in
        on_error (a_err (K (calls s))) (\<lambda>e. Q (Err e) s')
          (Q (Ok (case a_events (K (calls s)) of [] \<Rightarrow> None | e # _ \<Rightarrow> Some (snd e))) s')
      else Q Fault s)"
  by (simp add: sys_ppoll_def wp_simps Let_def)

lemma wp_attempt [wp_simps]:
  "wp (attempt m) Q s = wp m (\<lambda>r s'. case r of Ok x \<Rightarrow> Q (Ok (Inr x)) s' | Err e \<Rightarrow> Q (Ok (Inl e)) s' | Fault \<Rightarrow> Q Fault s') s"
  by (simp add: wp_def attempt_def split: prod.splits result.splits)

lemma wp_close_on_error:
  "wp (close_on_error fd m) Q s = wp m (\<lambda>r s'. case r of
       Ok x \<Rightarrow> Q (Ok x) s'
     | Err e \<Rightarrow> if fd \<in> open_fds s' then Q (Err e) (s'\<lparr>open_fds := open_fds s' - {fd}, interest := (interest s')(fd := None)\<rparr>) else Q Fault s'
     | Fault \<Rightarrow> Q Fault s') s"
  unfolding close_on_error_def wp_simps
  by (rule arg_cong [where f = "\<lambda>Q. wp m Q s"], intro ext) (simp add: wp_simps split: result.splits)

end
