(* ===== verification/Rtsp_Ctrl.thy ===== *)
theory Rtsp_Ctrl
  imports Kernel Ring
begin

text \<open>
  The RTSP control channel of \<open>src/rtsp_ctrl.c\<close>: a TCP connection watched by an epoll instance, with a ring
  buffer for outgoing data and a callback for connection and data. The state contains the part of the kernel
  that the channel changes. A callback may close the channel, open it again and send, but neither dispatch nor
  drop the last reference; it is given by a function from what it is called with to the calls it makes.
\<close>

unbundle bit_operations_syntax

subsection \<open>State\<close>

text \<open>
  \<open>rc_cb\<close> names the registered callback. \<open>wire\<close> is what was written to the current connection and \<open>seen\<close> what
  callbacks were called with, where \<open>None\<close> is the null pointer of a new connection; \<open>rc_data\<close> stands for the
  pointer of the client.
\<close>

record rtsp_ctrl = kernel +
  rc_ref :: "64 word"
  rc_efd :: int
  rc_fd :: int
  rc_cb :: "nat option"
  out_ring :: shl_ring
  connected :: bool
  wire :: "char list"
  seen :: "(nat \<times> char list option) list"
  rc_data :: nat

datatype ctrl_call = Closes | Opens_fd nat | Opens_tcp bool nat | Sends "char list"

type_synonym handlers = "nat \<Rightarrow> char list option \<Rightarrow> rtsp_ctrl \<Rightarrow> ctrl_call list"

text \<open>The two sets of events the channel waits for: without and with readiness to write.\<close>

definition WATCH_IN :: u32 where
  "WATCH_IN = EPOLLHUP OR EPOLLERR OR EPOLLIN"

definition WATCH_INOUT :: u32 where
  "WATCH_INOUT = EPOLLHUP OR EPOLLERR OR EPOLLIN OR EPOLLOUT"

subsection \<open>Operations\<close>

text \<open>\<open>mem\<close> tells whether \<open>calloc\<close> serves the request.\<close>

definition owfd_rtsp_ctrl_new :: "answers \<Rightarrow> bool \<Rightarrow> kernel \<Rightarrow> kernel \<times> rtsp_ctrl result" where
  "owfd_rtsp_ctrl_new K mem k =
     (if \<not> mem then (k, Err ENOMEM)
      else case sys_open K k of
        (k, Ok efd) \<Rightarrow> (k, Ok (kernel.extend k \<lparr>rc_ref = 1, rc_efd = efd, rc_fd = - 1, rc_cb = None, out_ring = ring_empty,
          connected = False, wire = [], seen = [], rc_data = 0\<rparr>))
      | (k, Err e) \<Rightarrow> (k, Err e)
      | (k, Fault) \<Rightarrow> (k, Fault))"

definition owfd_rtsp_ctrl_ref :: "(rtsp_ctrl, unit) op" where
  "owfd_rtsp_ctrl_ref = sbind (sget rc_ref) (\<lambda>n. if n = 0 then sret () else smod (\<lambda>s. s\<lparr>rc_ref := n + 1\<rparr>))"

definition owfd_rtsp_ctrl_set_data :: "nat \<Rightarrow> (rtsp_ctrl, unit) op" where
  "owfd_rtsp_ctrl_set_data d = smod (\<lambda>s. s\<lparr>rc_data := d\<rparr>)"

definition owfd_rtsp_ctrl_is_open :: "rtsp_ctrl \<Rightarrow> bool" where
  "owfd_rtsp_ctrl_is_open s \<longleftrightarrow> rc_fd s \<ge> 0"

definition owfd_rtsp_ctrl_is_connected :: "rtsp_ctrl \<Rightarrow> bool" where
  "owfd_rtsp_ctrl_is_connected s \<longleftrightarrow> owfd_rtsp_ctrl_is_open s \<and> connected s"

definition owfd_rtsp_ctrl_close :: "(rtsp_ctrl, unit) op" where
  "owfd_rtsp_ctrl_close =
     sbind (sget owfd_rtsp_ctrl_is_open) (\<lambda>open.
     if \<not> open then sret ()
     else
       sbind (sget rc_fd) (\<lambda>fd.
       sbind (sys_close fd) (\<lambda>_.
       smod (\<lambda>s. s\<lparr>rc_fd := - 1, connected := False, rc_cb := None, out_ring := shl_ring_flush (out_ring s)\<rparr>))))"

definition owfd_rtsp_ctrl_unref :: "(rtsp_ctrl, unit) op" where
  "owfd_rtsp_ctrl_unref =
     sbind (sget rc_ref) (\<lambda>n.
     if n = 0 then sret ()
     else
       sbind (smod (\<lambda>s. s\<lparr>rc_ref := n - 1\<rparr>)) (\<lambda>_.
       if n - 1 \<noteq> 0 then sret ()
       else
         sbind owfd_rtsp_ctrl_close (\<lambda>_.
         sbind (sget rc_efd) (\<lambda>efd.
         sbind (sys_close efd) (\<lambda>_.
         smod (\<lambda>s. s\<lparr>out_ring := shl_ring_clear (out_ring s)\<rparr>))))))"

text \<open>The two \<open>fcntl\<close> calls and the \<open>epoll_ctl\<close>; the descriptor belongs to the channel only on success.\<close>

definition owfd_rtsp_ctrl_open_tcp_fd :: "answers \<Rightarrow> int \<Rightarrow> nat option \<Rightarrow> (rtsp_ctrl, unit) op" where
  "owfd_rtsp_ctrl_open_tcp_fd K fd h =
     sbind (sget owfd_rtsp_ctrl_is_open) (\<lambda>open.
     if open then serr EALREADY
     else if fd < 0 then serr EINVAL
     else
       sbind (sys_use fd) (\<lambda>_.
       sbind (sys K) (\<lambda>_.
       sbind (sys K) (\<lambda>_.
       sbind (epoll_add K fd WATCH_INOUT) (\<lambda>_.
       smod (\<lambda>s. s\<lparr>rc_fd := fd, connected := False, rc_cb := h, wire := []\<rparr>))))))"

definition owfd_rtsp_ctrl_open_tcp :: "answers \<Rightarrow> bool \<Rightarrow> nat option \<Rightarrow> (rtsp_ctrl, unit) op" where
  "owfd_rtsp_ctrl_open_tcp K src h =
     sbind (sget owfd_rtsp_ctrl_is_open) (\<lambda>open.
     if open then serr EALREADY
     else
       sbind (sys_open K) (\<lambda>fd.
       sbind (if src then close_on_error fd (sbind (sys K) (\<lambda>_. sret ())) else sret ()) (\<lambda>_.
       sbind (close_on_error fd (sbind (sys K) (\<lambda>_. sret ()))) (\<lambda>_.
       close_on_error fd (owfd_rtsp_ctrl_open_tcp_fd K fd h)))))"

definition owfd_rtsp_ctrl_send :: "answers \<Rightarrow> char list \<Rightarrow> (rtsp_ctrl, unit) op" where
  "owfd_rtsp_ctrl_send K buf =
     sbind (sget owfd_rtsp_ctrl_is_open) (\<lambda>open.
     if \<not> open then serr ENODEV
     else
       sbind (sget (\<lambda>s. fst (shl_ring_peek (out_ring s)) = 0)) (\<lambda>empty.
       sbind (sys_call K) (\<lambda>a.
       sbind (sget out_ring) (\<lambda>r.
       sbind (slift (shl_ring_push (a_alloc a) r buf)) (\<lambda>r.
       sbind (smod (\<lambda>s. s\<lparr>out_ring := r\<rparr>)) (\<lambda>_.
       if empty then sbind (sget rc_fd) (\<lambda>fd. epoll_mod K fd WATCH_INOUT) else sret ()))))))"

text \<open>\<open>text\<close> is the result of \<open>vasprintf\<close>, \<open>None\<close> when it fails.\<close>

definition owfd_rtsp_ctrl_vsendf :: "answers \<Rightarrow> char list option \<Rightarrow> (rtsp_ctrl, unit) op" where
  "owfd_rtsp_ctrl_vsendf K text = (case text of None \<Rightarrow> serr ENOMEM | Some buf \<Rightarrow> owfd_rtsp_ctrl_send K buf)"

subsection \<open>The callback\<close>

text \<open>
  A client that opens the channel with a descriptor of its own, which it closes when that fails.
  The outcome of a call of the client does not matter to the channel; only a fault does.
\<close>

definition ignored :: "('s, 'a) op \<Rightarrow> ('s, unit) op" where
  "ignored m = sbind (attempt m) (\<lambda>_. sret ())"

fun client_call :: "answers \<Rightarrow> ctrl_call \<Rightarrow> (rtsp_ctrl, unit) op" where
  "client_call K Closes = owfd_rtsp_ctrl_close"
| "client_call K (Opens_fd h) =
     sbind (sys_open K) (\<lambda>fd. close_on_error fd (owfd_rtsp_ctrl_open_tcp_fd K fd (Some h)))"
| "client_call K (Opens_tcp src h) = owfd_rtsp_ctrl_open_tcp K src (Some h)"
| "client_call K (Sends buf) = owfd_rtsp_ctrl_send K buf"

fun client_calls :: "answers \<Rightarrow> ctrl_call list \<Rightarrow> (rtsp_ctrl, unit) op" where
  "client_calls K [] = sret ()"
| "client_calls K (c # cs) = sbind (ignored (client_call K c)) (\<lambda>_. client_calls K cs)"

definition call_back :: "answers \<Rightarrow> handlers \<Rightarrow> char list option \<Rightarrow> (rtsp_ctrl, unit) op" where
  "call_back K H buf s =
     (case rc_cb s of
        None \<Rightarrow> (s, Ok ())
      | Some h \<Rightarrow> client_calls K (H h buf s) (s\<lparr>seen := seen s @ [(h, buf)]\<rparr>))"

subsection \<open>Dispatching\<close>

definition connect_done :: "answers \<Rightarrow> handlers \<Rightarrow> (rtsp_ctrl, unit) op" where
  "connect_done K H =
     sbind (sget connected) (\<lambda>c.
     if c then sret ()
     else
       sbind (smod (\<lambda>s. s\<lparr>connected := True\<rparr>)) (\<lambda>_.
       sbind (call_back K H None) (\<lambda>_.
       sbind (sget connected) (\<lambda>c. if c then sret () else serr EPIPE))))"

text \<open>The loop runs at most as often as its argument says; \<open>None\<close> stands for a read that has to be repeated later.\<close>

definition sys_read_again :: "answers \<Rightarrow> int \<Rightarrow> nat \<Rightarrow> (rtsp_ctrl, char list option) op" where
  "sys_read_again K fd n =
     sbind (attempt (sys_read K fd n)) (\<lambda>r.
     case r of Inr bs \<Rightarrow> sret (Some bs) | Inl e \<Rightarrow> if e \<noteq> EAGAIN \<and> e \<noteq> EINTR then serr e else sret None)"

primrec recv_loop :: "answers \<Rightarrow> handlers \<Rightarrow> nat \<Rightarrow> (rtsp_ctrl, unit) op" where
  "recv_loop K H 0 = sret ()"
| "recv_loop K H (Suc rounds) =
     sbind (sget rc_fd) (\<lambda>fd.
     sbind (sys_read_again K fd 4096) (\<lambda>l.
     case l of
       None \<Rightarrow> sret ()
     | Some bs \<Rightarrow>
         if bs = [] then sret ()
         else
           sbind (call_back K H (Some bs)) (\<lambda>_.
           sbind (sget connected) (\<lambda>c. if c then recv_loop K H rounds else sret ()))))"

definition recv_all :: "answers \<Rightarrow> handlers \<Rightarrow> (rtsp_ctrl, unit) op" where
  "recv_all K H =
     sbind (recv_loop K H 128) (\<lambda>_.
     sbind (sget connected) (\<lambda>c. if c then sret () else serr EPIPE))"

definition ring_vec :: "shl_ring \<Rightarrow> char list" where
  "ring_vec r = (let (n, vec) = shl_ring_peek r in concat (map (vec_bytes (rbuf r)) (take n vec)))"

text \<open>What is written stays in the ring; \<open>writev\<close> gets both vectors.\<close>

definition send_all :: "answers \<Rightarrow> (rtsp_ctrl, unit) op" where
  "send_all K =
     sbind (sget rc_fd) (\<lambda>fd.
     sbind (sget out_ring) (\<lambda>r.
     let (n, vec) = shl_ring_peek r in
     sbind
       (if n > 0 then
          let sum = snd (vec ! 0) + (if n > 1 then snd (vec ! 1) else 0) in
          sbind (attempt (sys_write K fd (ring_vec r))) (\<lambda>l.
          case l of
            Inl e \<Rightarrow> if e \<noteq> EAGAIN \<and> e \<noteq> EINTR then serr e else sret (\<not> - 1 < sint sum)
          | Inr l \<Rightarrow> sbind (smod (\<lambda>s. s\<lparr>wire := wire s @ take l (ring_vec r)\<rparr>)) (\<lambda>_. sret (\<not> int l < sint sum)))
        else sret True) (\<lambda>done.
     if done then epoll_mod K fd WATCH_IN else sret ())))"

definition dispatch_ctrl :: "answers \<Rightarrow> handlers \<Rightarrow> u32 \<Rightarrow> (rtsp_ctrl, unit) op" where
  "dispatch_ctrl K H events =
     sbind (if events AND EPOLLIN \<noteq> 0 then sbind (connect_done K H) (\<lambda>_. recv_all K H) else sret ()) (\<lambda>_.
     sbind (if events AND EPOLLOUT \<noteq> 0 then sbind (connect_done K H) (\<lambda>_. send_all K) else sret ()) (\<lambda>_.
     if events AND (EPOLLHUP OR EPOLLERR) \<noteq> 0 then serr EPIPE else sret ()))"

text \<open>\<open>m\<close>, and the channel closed when it fails.\<close>

definition or_close :: "(rtsp_ctrl, unit) op \<Rightarrow> (rtsp_ctrl, unit) op" where
  "or_close m =
     sbind (attempt m) (\<lambda>r. case r of Inl e \<Rightarrow> sbind owfd_rtsp_ctrl_close (\<lambda>_. serr e) | Inr x \<Rightarrow> sret ())"

definition owfd_rtsp_ctrl_dispatch :: "answers \<Rightarrow> handlers \<Rightarrow> (rtsp_ctrl, unit) op" where
  "owfd_rtsp_ctrl_dispatch K H =
     sbind (sget owfd_rtsp_ctrl_is_open) (\<lambda>open.
     if \<not> open then serr ENODEV
     else
       sbind (sget rc_efd) (\<lambda>efd.
       sbind (sys_use efd) (\<lambda>_.
       sbind (attempt (epoll_wait K 1)) (\<lambda>r.
       case r of
         Inl e \<Rightarrow> if e = EAGAIN \<or> e = EINTR then sret () else serr e
       | Inr [] \<Rightarrow> sret ()
       | Inr (e # _) \<Rightarrow> or_close (dispatch_ctrl K H (snd e))))))"

lemma tick_fields [simp]:
  "rc_efd (tick K s) = rc_efd s" "rc_fd (tick K s) = rc_fd s" "rc_cb (tick K s) = rc_cb s" "out_ring (tick K s) = out_ring s"
  "connected (tick K s) = connected s" "rc_ref (tick K s) = rc_ref s" "wire (tick K s) = wire s" "seen (tick K s) = seen s"
  by (simp_all add: tick_def)

subsection \<open>What dispatching relies on\<close>

text \<open>
  A predicate on the channel that every allowed call of the client keeps is kept by the dispatcher, whatever
  the kernel answers and the callbacks do with allowed calls. The contract names the steps of the dispatcher
  that change the channel themselves: it marks the channel as connected, it closes it, and it writes when the
  epoll instance reports that the connection is ready for it.
\<close>

definition handlers_ok :: "(ctrl_call \<Rightarrow> bool) \<Rightarrow> handlers \<Rightarrow> bool" where
  "handlers_ok fine H \<longleftrightarrow> (\<forall>h buf s. list_all fine (H h buf s))"

lemma triple_attempt: "triple P m P \<Longrightarrow> triple P (attempt m) P"
  by (force simp: triple_def wp_iff attempt_def split: prod.splits result.splits)

locale ctrl_contract =
  fixes K :: answers and fine :: "ctrl_call \<Rightarrow> bool" and I :: "rtsp_ctrl \<Rightarrow> bool"
  assumes tick_I: "I s \<Longrightarrow> I (tick K s)"
    and seen_I: "I s \<Longrightarrow> I (s\<lparr>seen := x\<rparr>)"
    and linked_I: "I s \<Longrightarrow> 0 \<le> rc_fd s \<Longrightarrow> I (s\<lparr>connected := True\<rparr>)"
    and owns: "I s \<Longrightarrow> rc_efd s \<in> open_fds s \<and> (connected s \<longrightarrow> 0 \<le> rc_fd s) \<and> (0 \<le> rc_fd s \<longrightarrow> rc_fd s \<in> open_fds s)"
    and close_I: "triple I owfd_rtsp_ctrl_close I"
    and call_I: "fine c \<Longrightarrow> triple I (client_call K c) I"
    and send_all_I: "I s \<Longrightarrow> 0 \<le> rc_fd s \<Longrightarrow> e \<in> set (ready (interest s) es) \<Longrightarrow> snd e AND EPOLLOUT \<noteq> 0 \<Longrightarrow>
      I s' \<Longrightarrow> 0 \<le> rc_fd s' \<Longrightarrow> wp (send_all K) (\<lambda>r s'. r \<noteq> Fault \<and> I s') s'"
begin

lemma client_calls_I: "list_all fine cs \<Longrightarrow> triple I (client_calls K cs) I"
proof (induction cs)
  case (Cons c cs)
  have "triple I (ignored (client_call K c)) I"
    unfolding ignored_def by (rule triple_sbind [OF triple_attempt [OF call_I]]) (use Cons in \<open>simp_all add: triple_basic\<close>)
  then show ?case using Cons by (simp add: triple_sbind)
qed (simp add: triple_basic)

lemma call_back_I:
  assumes "handlers_ok fine H"
  shows "triple I (call_back K H buf) I"
proof (rule tripleI)
  fix s
  assume i: "I s"
  show "wp (call_back K H buf) (\<lambda>r s'. r \<noteq> Fault \<and> I s') s"
  proof (cases "rc_cb s")
    case (Some h)
    have "triple I (client_calls K (H h buf s)) I" using assms client_calls_I by (simp add: handlers_ok_def)
    then show ?thesis using i Some seen_I tripleD [of I "client_calls K (H h buf s)" I "s\<lparr>seen := seen s @ [(h, buf)]\<rparr>"]
      by (simp add: wp_iff call_back_def)
  qed (simp add: call_back_def wp_iff i)
qed

text \<open>What a part of the dispatcher leaves behind: when it succeeds, the channel is connected.\<close>

definition linked_up :: "'a result \<Rightarrow> rtsp_ctrl \<Rightarrow> bool" where
  "linked_up r s \<longleftrightarrow> r \<noteq> Fault \<and> I s \<and> (is_ok r \<longrightarrow> connected s)"

lemma check_connected:
  assumes "wp m (\<lambda>r s'. r \<noteq> Fault \<and> I s') s"
  shows "wp (sbind m (\<lambda>_. sbind (sget connected) (\<lambda>c. if c then sret () else serr EPIPE))) linked_up s"
  using assms by (rule wp_sbindI) (auto simp: andthen_def linked_up_def wp_simps split: result.splits)

lemma connect_done_I:
  assumes H: "handlers_ok fine H" and i: "I s" "0 \<le> rc_fd s"
  shows "wp (connect_done K H) linked_up s"
proof (cases "connected s")
  case False
  have "wp (call_back K H None) (\<lambda>r s'. r \<noteq> Fault \<and> I s') (s\<lparr>connected := True\<rparr>)"
    using call_back_I [OF H] linked_I [OF i] by (simp add: triple_def)
  from check_connected [OF this] show ?thesis using False
    by (simp add: connect_done_def wp_sbind [of "sget _"] wp_sbind [of "smod _"] wp_basic andthen_simps)
qed (simp add: connect_done_def wp_simps linked_up_def i)

lemma recv_loop_I:
  assumes H: "handlers_ok fine H"
  shows "I s \<Longrightarrow> connected s \<Longrightarrow> wp (recv_loop K H n) (\<lambda>r s'. r \<noteq> Fault \<and> I s') s"
proof (induction n arbitrary: s)
  case (Suc n)
  let ?Q = "\<lambda>r s'. r \<noteq> Fault \<and> I s'"
  have fd: "rc_fd s \<in> open_fds s" using owns Suc.prems by blast
  have rest: "wp (sbind (call_back K H (Some bs)) (\<lambda>_. sbind (sget connected) (\<lambda>c. if c then recv_loop K H n else sret ()))) ?Q s'"
    if "I s'" for bs s'
  proof (rule wp_sbindI)
    show "wp (call_back K H (Some bs)) ?Q s'" using call_back_I [OF H] that by (simp add: triple_def)
  next
    fix r s'
    assume "?Q r s'"
    then show "andthen (\<lambda>_. sbind (sget connected) (\<lambda>c. if c then recv_loop K H n else sret ())) ?Q r s'"
      using Suc.IH by (auto simp: andthen_def wp_simps split: result.splits)
  qed
  show "wp (recv_loop K H (Suc n)) ?Q s"
    using fd Suc.prems(1) unfolding recv_loop.simps sys_read_again_def sys_read_def
    by (auto simp: wp_simps tick_I intro!: on_errorI rest [unfolded wp_sbind])
qed (simp add: wp_simps)

lemma recv_all_I: "handlers_ok fine H \<Longrightarrow> I s \<Longrightarrow> connected s \<Longrightarrow> wp (recv_all K H) linked_up s"
  unfolding recv_all_def by (rule check_connected) (rule recv_loop_I)

lemma connected_open_I: "I s \<Longrightarrow> connected s \<Longrightarrow> 0 \<le> rc_fd s"
  using owns by blast

text \<open>Both parts of the dispatcher connect first, then do their work.\<close>

lemma connected_then:
  assumes H: "handlers_ok fine H" and i: "I s" "0 \<le> rc_fd s"
    and m: "\<And>s. I s \<Longrightarrow> connected s \<Longrightarrow> 0 \<le> rc_fd s \<Longrightarrow> wp m Q s" and err: "\<And>e s. I s \<Longrightarrow> Q (Err e) s"
  shows "wp (sbind (connect_done K H) (\<lambda>_. m)) Q s"
  using connect_done_I [OF H i]
  by (rule wp_sbindI) (auto simp: andthen_def linked_up_def m err connected_open_I split: result.splits)

lemma dispatch_ctrl_I:
  assumes H: "handlers_ok fine H" and i: "I s" "0 \<le> rc_fd s"
    and send: "\<And>s'. events AND EPOLLOUT \<noteq> 0 \<Longrightarrow> I s' \<Longrightarrow> 0 \<le> rc_fd s' \<Longrightarrow> wp (send_all K) (\<lambda>r s'. r \<noteq> Fault \<and> I s') s'"
  shows "wp (dispatch_ctrl K H events) (\<lambda>r s'. r \<noteq> Fault \<and> I s') s"
proof -
  let ?Q = "\<lambda>r s'. r \<noteq> Fault \<and> I s'"
  let ?rest = "\<lambda>_. if events AND (EPOLLHUP OR EPOLLERR) \<noteq> 0 then serr EPIPE else sret ()"
  have rest: "andthen ?rest ?Q r s'" if "?Q r s'" for r :: "unit result" and s'
    using that by (auto simp: andthen_def wp_simps split: result.splits)
  have out: "wp (if events AND EPOLLOUT \<noteq> 0 then sbind (connect_done K H) (\<lambda>_. send_all K) else sret ()) ?Q s'"
    if "I s'" "0 \<le> rc_fd s'" for s'
    using that by (auto simp: wp_basic intro!: connected_then [OF H] send)
  have recv: "wp (recv_all K H) (\<lambda>r s'. r \<noteq> Fault \<and> I s' \<and> (is_ok r \<longrightarrow> 0 \<le> rc_fd s')) s'"
    if "I s'" "connected s'" for s'
    by (rule wp_mono [OF recv_all_I [OF H that]]) (auto simp: linked_up_def dest: owns)
  have "wp (if events AND EPOLLIN \<noteq> 0 then sbind (connect_done K H) (\<lambda>_. recv_all K H) else sret ())
      (\<lambda>r s'. r \<noteq> Fault \<and> I s' \<and> (is_ok r \<longrightarrow> 0 \<le> rc_fd s')) s"
    using i by (auto simp: wp_basic intro!: connected_then [OF H] recv)
  then show ?thesis unfolding dispatch_ctrl_def
  proof (rule wp_sbindI)
    fix r :: "unit result" and s'
    assume a: "r \<noteq> Fault \<and> I s' \<and> (is_ok r \<longrightarrow> 0 \<le> rc_fd s')"
    show "andthen (\<lambda>_. sbind (if events AND EPOLLOUT \<noteq> 0 then sbind (connect_done K H) (\<lambda>_. send_all K) else sret ()) ?rest) ?Q r s'"
    proof (cases r)
      case (Ok x)
      then have "I s'" "0 \<le> rc_fd s'" using a by auto
      then show ?thesis unfolding Ok andthen_simps by (rule wp_sbindI [OF out]) (rule rest)
    qed (use a in \<open>simp_all add: andthen_simps\<close>)
  qed
qed

lemma or_close_I:
  assumes "wp m (\<lambda>r s'. r \<noteq> Fault \<and> I s') s"
  shows "wp (or_close m) (\<lambda>r s'. r \<noteq> Fault \<and> I s') s"
proof -
  let ?Q = "\<lambda>r s'. r \<noteq> Fault \<and> I s'"
  have close: "wp (sbind owfd_rtsp_ctrl_close (\<lambda>_. serr e)) ?Q s'" if "I s'" for e s'
    using triple_sbind [OF close_I triple_basic(2)] that by (fastforce simp: triple_def)
  show ?thesis unfolding or_close_def wp_sbind wp_attempt
    by (rule wp_mono [OF assms]) (auto simp: andthen_simps wp_basic close split: result.splits)
qed

lemma dispatch_I:
  assumes H: "handlers_ok fine H"
  shows "triple I (owfd_rtsp_ctrl_dispatch K H) I"
proof (rule tripleI)
  fix s
  assume i: "I s"
  let ?Q = "\<lambda>r s'. r \<noteq> Fault \<and> I s'"
  show "wp (owfd_rtsp_ctrl_dispatch K H) ?Q s"
  proof (cases "0 \<le> rc_fd s")
    case True
    have evs: "wp (case evs of [] \<Rightarrow> sret () | e # _ \<Rightarrow> or_close (dispatch_ctrl K H (snd e))) ?Q (tick K s)"
      if e: "evs = take (Suc 0) (ready (interest s) es)" for es evs
    proof (cases evs)
      case (Cons e es')
      then have "e \<in> set (ready (interest s) es)" using e by (metis in_set_takeD list.set_intros(1))
      then have "wp (or_close (dispatch_ctrl K H (snd e))) ?Q (tick K s)"
        using send_all_I [OF i True] by (intro or_close_I dispatch_ctrl_I [OF H]) (auto simp: tick_I i True)
      then show ?thesis by (simp add: Cons)
    qed (simp add: wp_simps tick_I i)
    show ?thesis
      using i True owns [OF i] evs [OF refl] unfolding owfd_rtsp_ctrl_dispatch_def owfd_rtsp_ctrl_is_open_def epoll_wait_def
      by (auto simp: wp_simps tick_I intro!: on_errorI)
  qed (simp add: owfd_rtsp_ctrl_dispatch_def owfd_rtsp_ctrl_is_open_def wp_simps i)
qed

end

subsection \<open>The invariant of the channel\<close>

text \<open>
  \<open>F\<close> are the descriptors that others own. The channel owns its epoll instance and, while it is open, the
  connection, which is the only descriptor watched. A closed channel has no callback and no data to send.
\<close>

definition ctrl_inv :: "int set \<Rightarrow> rtsp_ctrl \<Rightarrow> bool" where
  "ctrl_inv F s \<longleftrightarrow>
     rc_ref s \<noteq> 0 \<and> rc_efd s \<notin> F \<and> (\<forall>fd\<in>insert (rc_efd s) F. fd < next_fd s) \<and> 0 \<le> next_fd s \<and> ring_ok (out_ring s) \<and>
     (if rc_fd s < 0
      then open_fds s = insert (rc_efd s) F \<and> interest s = Map.empty \<and> \<not> connected s \<and> rc_cb s = None \<and> ring_data (out_ring s) = []
      else rc_fd s \<notin> insert (rc_efd s) F \<and> rc_fd s < next_fd s \<and> open_fds s = insert (rc_fd s) (insert (rc_efd s) F) \<and>
        (interest s = [rc_fd s \<mapsto> WATCH_IN] \<or> interest s = [rc_fd s \<mapsto> WATCH_INOUT]))"

lemma ctrl_inv_tick [simp]: "ctrl_inv F (tick K s) = ctrl_inv F s"
  by (simp add: ctrl_inv_def)

lemma ctrl_inv_update [simp]:
  "ctrl_inv F (s\<lparr>rc_data := x\<rparr>) = ctrl_inv F s" "ctrl_inv F (s\<lparr>wire := x'\<rparr>) = ctrl_inv F s"
  "ctrl_inv F (s\<lparr>seen := x''\<rparr>) = ctrl_inv F s" "n \<noteq> 0 \<Longrightarrow> rc_ref s \<noteq> 0 \<Longrightarrow> ctrl_inv F (s\<lparr>rc_ref := n\<rparr>) = ctrl_inv F s"
  by (simp_all add: ctrl_inv_def)

abbreviation keeps :: "int set \<Rightarrow> (rtsp_ctrl, 'a) op \<Rightarrow> bool" where
  "keeps F m \<equiv> triple (ctrl_inv F) m (ctrl_inv F)"

lemma keeps_sbind [triples]: "keeps F m \<Longrightarrow> (\<And>x. keeps F (f x)) \<Longrightarrow> keeps F (sbind m f)"
  by (rule triple_sbind)

lemma keeps_basic [triples]:
  "keeps F (sret x)" "keeps F (serr e)" "keeps F (sget g)" "y \<noteq> Fault \<Longrightarrow> keeps F (slift y)" "keeps F (sys_call K)" "keeps F (sys K)"
  by (rule triple_basic; simp) (simp_all add: triple_def wp_simps on_errorI)

lemma close_keeps [triples]: "keeps F owfd_rtsp_ctrl_close"
proof (rule tripleI)
  fix s
  assume i: "ctrl_inv F s"
  show "wp owfd_rtsp_ctrl_close (\<lambda>r s'. r \<noteq> Fault \<and> ctrl_inv F s') s"
  proof (cases "rc_fd s < 0")
    case True
    then show ?thesis using i by (simp add: owfd_rtsp_ctrl_close_def owfd_rtsp_ctrl_is_open_def wp_simps)
  next
    case False
    then have "ctrl_inv F (s\<lparr>open_fds := open_fds s - {rc_fd s}, interest := (interest s)(rc_fd s := None), rc_fd := - 1,
        connected := False, rc_cb := None, out_ring := shl_ring_flush (out_ring s)\<rparr>)"
      using i by (auto simp: ctrl_inv_def shl_ring_flush_ok shl_ring_flush_data)
    then show ?thesis using i False
      by (simp add: owfd_rtsp_ctrl_close_def owfd_rtsp_ctrl_is_open_def wp_simps ctrl_inv_def)
  qed
qed

text \<open>Opening with a descriptor \<open>fd\<close> that somebody else owns: on success it belongs to the channel.\<close>

lemma open_tcp_fd_spec:
  assumes i: "ctrl_inv (insert fd F) s" and fd: "fd \<notin> F"
  shows "wp (owfd_rtsp_ctrl_open_tcp_fd K fd h)
    (\<lambda>r s'. case r of Ok x \<Rightarrow> ctrl_inv F s' | Err e \<Rightarrow> ctrl_inv (insert fd F) s' | Fault \<Rightarrow> False) s"
proof (cases "rc_fd s < 0 \<and> 0 \<le> fd")
  case True
  then have "ctrl_inv F ((tick K (tick K (tick K s)))\<lparr>interest := [fd \<mapsto> WATCH_INOUT], rc_fd := fd, connected := False, rc_cb := h, wire := []\<rparr>)"
    using i fd by (auto simp: ctrl_inv_def)
  then show ?thesis
    using i True unfolding owfd_rtsp_ctrl_open_tcp_fd_def owfd_rtsp_ctrl_is_open_def epoll_add_def wp_simps
    by (auto simp: ctrl_inv_def wp_simps intro!: on_errorI)
next
  case False
  then show ?thesis
    using i unfolding owfd_rtsp_ctrl_open_tcp_fd_def owfd_rtsp_ctrl_is_open_def by (auto simp: wp_simps)
qed

lemma new_descriptor:
  assumes "ctrl_inv F s"
  shows "ctrl_inv (insert (next_fd s) F) ((tick K s)\<lparr>next_fd := next_fd s + 1, open_fds := insert (next_fd s) (open_fds s)\<rparr>)"
    and "next_fd s \<notin> F"
  using assms by (auto simp: ctrl_inv_def)

lemma drop_descriptor:
  assumes "ctrl_inv (insert fd F) s" and "fd \<notin> F"
  shows "ctrl_inv F (s\<lparr>open_fds := open_fds s - {fd}, interest := (interest s)(fd := None)\<rparr>)" and "fd \<in> open_fds s"
  using assms by (auto simp: ctrl_inv_def split: if_splits)

text \<open>An operation with a descriptor that it closes when it fails.\<close>

lemma close_on_error_wp:
  assumes m: "wp m (\<lambda>r s'. case r of Ok x \<Rightarrow> Q (Ok x) s' | Err e \<Rightarrow> ctrl_inv (insert fd F) s' | Fault \<Rightarrow> False) s" and fd: "fd \<notin> F"
    and err: "\<And>e s'. ctrl_inv F s' \<Longrightarrow> Q (Err e) s'"
  shows "wp (close_on_error fd m) Q s"
  unfolding wp_close_on_error by (rule wp_mono [OF m]) (auto simp: drop_descriptor fd err split: result.splits)

lemma sys_wp: "(\<And>x. Q (Ok x) (tick K s)) \<Longrightarrow> (\<And>e. Q (Err e) (tick K s)) \<Longrightarrow> wp (sys K) Q s"
  by (simp add: wp_simps on_errorI)

lemma open_tcp_keeps: "keeps F (owfd_rtsp_ctrl_open_tcp K src h)"
proof (rule tripleI)
  fix s
  assume i: "ctrl_inv F s"
  let ?Q = "\<lambda>r s'. r \<noteq> Fault \<and> ctrl_inv F s'" and ?fd = "next_fd s"
  let ?s = "(tick K s)\<lparr>next_fd := ?fd + 1, open_fds := insert ?fd (open_fds s)\<rparr>"
  have new: "ctrl_inv (insert ?fd F) ?s" and fd: "?fd \<notin> F" using new_descriptor [OF i] by simp_all
  have last: "wp (close_on_error ?fd (owfd_rtsp_ctrl_open_tcp_fd K ?fd h)) ?Q s'" if "ctrl_inv (insert ?fd F) s'" for s'
    by (rule close_on_error_wp [OF wp_mono [OF open_tcp_fd_spec [OF that fd]] fd]) (auto split: result.splits)
  have step: "wp (sbind (close_on_error ?fd (sbind (sys K) (\<lambda>_. sret ()))) f) ?Q s'"
    if "ctrl_inv (insert ?fd F) s'" "\<And>s'. ctrl_inv (insert ?fd F) s' \<Longrightarrow> wp (f ()) ?Q s'" for s' and f :: "unit \<Rightarrow> (rtsp_ctrl, unit) op"
    unfolding wp_sbind [of _ f]
    by (rule close_on_error_wp [OF _ fd]) (auto simp: wp_simps that intro!: on_errorI)
  show "wp (owfd_rtsp_ctrl_open_tcp K src h) ?Q s"
  proof (cases "rc_fd s \<ge> 0")
    case False
    then have "wp (owfd_rtsp_ctrl_open_tcp K src h) ?Q s =
        wp (sys_open K) (andthen (\<lambda>fd.
          sbind (if src then close_on_error fd (sbind (sys K) (\<lambda>_. sret ())) else sret ()) (\<lambda>_.
          sbind (close_on_error fd (sbind (sys K) (\<lambda>_. sret ()))) (\<lambda>_.
          close_on_error fd (owfd_rtsp_ctrl_open_tcp_fd K fd h)))) ?Q) s"
      unfolding owfd_rtsp_ctrl_open_tcp_def by (simp add: owfd_rtsp_ctrl_is_open_def wp_sbind wp_basic andthen_simps)
    also have "\<dots>"
      unfolding wp_sys_open
    proof (rule on_errorI)
      show "andthen (\<lambda>fd.
          sbind (if src then close_on_error fd (sbind (sys K) (\<lambda>_. sret ())) else sret ()) (\<lambda>_.
          sbind (close_on_error fd (sbind (sys K) (\<lambda>_. sret ()))) (\<lambda>_.
          close_on_error fd (owfd_rtsp_ctrl_open_tcp_fd K fd h)))) ?Q (Ok ?fd) ?s"
      proof (cases src)
        case True
        then show ?thesis using new by (simp only: andthen_simps if_True) (intro step last)
      next
        case False
        then show ?thesis using new
          by (simp only: andthen_simps if_False wp_sbind [of "sret ()"] wp_basic(1)) (intro step last)
      qed
    qed (simp add: andthen_simps i)
    finally show ?thesis .
  qed (simp add: owfd_rtsp_ctrl_open_tcp_def owfd_rtsp_ctrl_is_open_def wp_simps i)
qed

lemma ring_push_ok:
  assumes "ring_ok r" and "alloc_ok m" and "length buf < 2 ^ 63"
  shows "shl_ring_push m r buf \<noteq> Fault" and "shl_ring_push m r buf = Ok r' \<Longrightarrow> ring_ok r' \<and> ring_data r' = ring_data r @ buf"
  using shl_ring_push_spec [OF assms] by auto

lemma send_keeps:
  assumes "answers_ok K" and "length buf < 2 ^ 63"
  shows "keeps F (owfd_rtsp_ctrl_send K buf)"
proof (rule tripleI)
  fix s
  assume i: "ctrl_inv F s"
  show "wp (owfd_rtsp_ctrl_send K buf) (\<lambda>r s'. r \<noteq> Fault \<and> ctrl_inv F s') s"
  proof (cases "rc_fd s \<ge> 0")
    case True
    have "alloc_ok (a_alloc (K (calls s)))" using assms(1) by (simp add: answers_ok_def)
    note push = ring_push_ok [OF _ this assms(2), of "out_ring s"]
    have ok: "ring_ok (out_ring s)" using i by (simp add: ctrl_inv_def)
    have in1: "ctrl_inv F ((tick K s)\<lparr>out_ring := r\<rparr>)" "ctrl_inv F ((tick K ((tick K s)\<lparr>out_ring := r\<rparr>)))"
      "ctrl_inv F ((tick K ((tick K s)\<lparr>out_ring := r\<rparr>))\<lparr>interest := [rc_fd s \<mapsto> WATCH_INOUT]\<rparr>)" if "ring_ok r" for r
      using i that True by (simp_all add: ctrl_inv_def)
    have int: "interest s (rc_fd s) \<noteq> None" "(interest s)(rc_fd s \<mapsto> WATCH_INOUT) = [rc_fd s \<mapsto> WATCH_INOUT]" "rc_fd s \<in> open_fds s"
      using i True by (auto simp: ctrl_inv_def)
    show ?thesis
      using push(1) [OF ok] push(2) [OF ok] in1 int i True
      unfolding owfd_rtsp_ctrl_send_def owfd_rtsp_ctrl_is_open_def epoll_mod_def
      by (cases "shl_ring_push (a_alloc (K (calls s))) (out_ring s) buf") (auto simp: wp_simps intro!: on_errorI)
  qed (simp add: owfd_rtsp_ctrl_send_def owfd_rtsp_ctrl_is_open_def wp_simps i)
qed

fun call_ok :: "ctrl_call \<Rightarrow> bool" where
  "call_ok (Sends buf) \<longleftrightarrow> length buf < 2 ^ 63"
| "call_ok _ \<longleftrightarrow> True"

lemma opens_fd_keeps: "keeps F (client_call K (Opens_fd h))"
proof (rule tripleI)
  fix s
  assume i: "ctrl_inv F s"
  let ?s = "(tick K s)\<lparr>next_fd := next_fd s + 1, open_fds := insert (next_fd s) (open_fds s)\<rparr>"
  note new = new_descriptor [OF i]
  have "wp (close_on_error (next_fd s) (owfd_rtsp_ctrl_open_tcp_fd K (next_fd s) (Some h))) (\<lambda>r s'. r \<noteq> Fault \<and> ctrl_inv F s') ?s"
    by (rule close_on_error_wp [OF wp_mono [OF open_tcp_fd_spec [OF new]] new(2)]) (auto split: result.splits)
  then show "wp (client_call K (Opens_fd h)) (\<lambda>r s'. r \<noteq> Fault \<and> ctrl_inv F s') s"
    unfolding client_call.simps wp_sbind wp_sys_open by (auto simp: andthen_simps i intro!: on_errorI)
qed

lemma client_call_keeps:
  assumes "answers_ok K" and "call_ok c"
  shows "keeps F (client_call K c)"
  using assms by (cases c) (simp_all add: close_keeps opens_fd_keeps open_tcp_keeps send_keeps del: client_call.simps(2))

lemma connected_open: "ctrl_inv F s \<Longrightarrow> connected s \<Longrightarrow> 0 \<le> rc_fd s"
  by (auto simp: ctrl_inv_def split: if_splits)

lemma open_fd_open: "ctrl_inv F s \<Longrightarrow> 0 \<le> rc_fd s \<Longrightarrow> rc_fd s \<in> open_fds s"
  by (simp add: ctrl_inv_def)

lemma ring_vec_data: "ring_ok r \<Longrightarrow> ring_vec r = ring_data r"
  using shl_ring_peek_data [of r] by (cases "shl_ring_peek r") (simp add: ring_vec_def)

text \<open>The sum of the lengths is the number of bytes in the ring, and as a signed number it is not negative.\<close>

lemma ring_vec_sum:
  assumes ok: "ring_ok r" and peek: "shl_ring_peek r = (n, vec)" and n: "n > 0"
  shows "sint (snd (vec ! 0) + (if n > 1 then snd (vec ! 1) else 0)) = int (length (ring_data r))"
proof -
  let ?w = "snd (vec ! 0) + (if n > 1 then snd (vec ! 1) else 0)"
  have "unat ?w = length (ring_data r)" using length_ring_data_sum [OF ok peek] n by simp
  then show ?thesis using ring_data_bound [OF ok] sint_small [of ?w] by simp
qed

lemma send_all_wp:
  assumes ok: "ring_ok (out_ring s)" and fd: "rc_fd s \<in> open_fds s" "interest s (rc_fd s) \<noteq> None"
  shows "wp (send_all K) Q s \<longleftrightarrow>
    (let d = ring_data (out_ring s); done = \<lambda>s. wp (epoll_mod K (rc_fd s) WATCH_IN) Q s in
     if d = [] then done s
     else on_error (a_err (K (calls s))) (\<lambda>e. if e = EAGAIN \<or> e = EINTR then Q (Ok ()) (tick K s) else Q (Err e) (tick K s))
       (let l = min (a_num (K (calls s))) (length d); s' = (tick K s)\<lparr>wire := wire s @ take l d\<rparr> in
        if l < length d then Q (Ok ()) s' else done s'))"
proof (cases "shl_ring_peek (out_ring s)")
  case (Pair n vec)
  note z = shl_ring_peek_zero [OF ok, unfolded Pair fst_conv]
  note [simp] = ring_vec_data [OF ok]
  show ?thesis
  proof (cases "n > 0")
    case True
    note sum = ring_vec_sum [OF ok Pair this]
    show ?thesis
      using True z sum fd
      by (cases "a_err (K (calls s))") (auto simp: send_all_def Pair wp_simps sys_write_def Let_def)
  next
    case False
    then show ?thesis using z by (simp add: send_all_def Pair wp_simps)
  qed
qed

lemma epoll_mod_keeps:
  assumes i: "ctrl_inv F s" "0 \<le> rc_fd s" and ev: "ev = WATCH_IN \<or> ev = WATCH_INOUT"
  shows "wp (epoll_mod K (rc_fd s) ev) (\<lambda>r s'. r \<noteq> Fault \<and> ctrl_inv F s') s"
proof -
  have "ctrl_inv F ((tick K s)\<lparr>interest := (interest s)(rc_fd s \<mapsto> ev)\<rparr>)" using i ev by (auto simp: ctrl_inv_def)
  then show ?thesis using i open_fd_open [OF i] by (simp add: epoll_mod_def wp_simps on_errorI)
qed

lemma send_all_keeps:
  assumes i: "ctrl_inv F s" "0 \<le> rc_fd s"
  shows "wp (send_all K) (\<lambda>r s'. r \<noteq> Fault \<and> ctrl_inv F s') s"
proof -
  have "ring_ok (out_ring s)" "interest s (rc_fd s) \<noteq> None" using i by (auto simp: ctrl_inv_def)
  note wp = send_all_wp [OF this(1) open_fd_open [OF i] this(2)]
  have mod: "wp (epoll_mod K (rc_fd s) WATCH_IN) (\<lambda>r s'. r \<noteq> Fault \<and> ctrl_inv F s') s'"
    if "ctrl_inv F s'" "rc_fd s' = rc_fd s" for s'
    using epoll_mod_keeps [OF that(1), of WATCH_IN] that(2) i(2) by simp
  show ?thesis unfolding wp Let_def by (auto simp: i intro!: on_errorI mod)
qed

text \<open>The invariant fulfils the contract of the dispatcher.\<close>

definition sane_answers :: "answers \<Rightarrow> ctrl_call \<Rightarrow> bool" where
  "sane_answers K c \<longleftrightarrow> answers_ok K \<and> call_ok c"

interpretation ctrl_run_inv: ctrl_contract K "sane_answers K" "ctrl_inv F" for K F
proof unfold_locales
  show "rc_efd s \<in> open_fds s \<and> (connected s \<longrightarrow> 0 \<le> rc_fd s) \<and> (0 \<le> rc_fd s \<longrightarrow> rc_fd s \<in> open_fds s)" if "ctrl_inv F s" for s
    using that by (auto simp: ctrl_inv_def split: if_splits)
  show "ctrl_inv F (s\<lparr>connected := True\<rparr>)" if "ctrl_inv F s" "0 \<le> rc_fd s" for s
    using that by (simp add: ctrl_inv_def)
qed (auto simp: sane_answers_def intro: close_keeps client_call_keeps send_all_keeps)

lemma dispatch_keeps:
  assumes "answers_ok K" "handlers_ok call_ok H"
  shows "keeps F (owfd_rtsp_ctrl_dispatch K H)"
  by (rule ctrl_run_inv.dispatch_I) (use assms in \<open>simp add: handlers_ok_def sane_answers_def list_all_iff\<close>)

subsection \<open>Runs\<close>

text \<open>
  The life of a channel: calls of the client, dispatches, references taken and dropped. Nothing may be called
  when the last reference is gone, and nobody holds \<open>2 ^ 64\<close> references.
\<close>

datatype ctrl_event = Does ctrl_call | Dispatches | Takes_ref | Drops_ref

fun ctrl_op :: "answers \<Rightarrow> handlers \<Rightarrow> ctrl_event \<Rightarrow> (rtsp_ctrl, unit) op" where
  "ctrl_op K H (Does c) = client_call K c"
| "ctrl_op K H Dispatches = owfd_rtsp_ctrl_dispatch K H"
| "ctrl_op K H Takes_ref = owfd_rtsp_ctrl_ref"
| "ctrl_op K H Drops_ref = owfd_rtsp_ctrl_unref"

definition ctrl_step :: "answers \<Rightarrow> handlers \<Rightarrow> rtsp_ctrl \<Rightarrow> ctrl_event \<Rightarrow> rtsp_ctrl" where
  "ctrl_step K H s e = (if rc_ref s = 0 \<or> e = Takes_ref \<and> rc_ref s = - 1 then s else fst (ctrl_op K H e s))"

fun event_ok :: "ctrl_event \<Rightarrow> bool" where
  "event_ok (Does c) \<longleftrightarrow> call_ok c"
| "event_ok _ \<longleftrightarrow> True"

text \<open>A channel that is gone has closed what it owned.\<close>

definition ctrl_alive :: "int set \<Rightarrow> rtsp_ctrl \<Rightarrow> bool" where
  "ctrl_alive F s \<longleftrightarrow> (if rc_ref s = 0 then open_fds s = F else ctrl_inv F s)"

lemma unref_keeps:
  assumes i: "ctrl_inv F s"
  shows "wp owfd_rtsp_ctrl_unref (\<lambda>r s'. r \<noteq> Fault \<and> ctrl_alive F s') s"
proof (cases "rc_ref s = 1")
  case True
  have "wp owfd_rtsp_ctrl_close (\<lambda>r s'. r = Ok () \<and> rc_ref s' = 0 \<and> open_fds s' = insert (rc_efd s') F \<and> rc_efd s' \<notin> F)
      (s\<lparr>rc_ref := 0\<rparr>)"
    using i by (auto simp: ctrl_inv_def owfd_rtsp_ctrl_close_def owfd_rtsp_ctrl_is_open_def wp_simps)
  then have "wp (sbind owfd_rtsp_ctrl_close (\<lambda>_. sbind (sget rc_efd) (\<lambda>efd. sbind (sys_close efd) (\<lambda>_.
      smod (\<lambda>s. s\<lparr>out_ring := shl_ring_clear (out_ring s)\<rparr>))))) (\<lambda>r s'. r \<noteq> Fault \<and> ctrl_alive F s') (s\<lparr>rc_ref := 0\<rparr>)"
    by (rule wp_sbindI) (auto simp: andthen_simps wp_simps ctrl_alive_def)
  then show ?thesis using True
    by (simp add: owfd_rtsp_ctrl_unref_def wp_sbind [of "sget rc_ref"] wp_sbind [of "smod _"] wp_basic andthen_simps)
next
  case False
  then have "rc_ref s - 1 \<noteq> 0" "rc_ref s \<noteq> 0" using i by (auto simp: ctrl_inv_def)
  then show ?thesis using i by (simp add: owfd_rtsp_ctrl_unref_def wp_simps ctrl_alive_def)
qed

lemma ref_keeps:
  assumes i: "ctrl_inv F s" and "rc_ref s \<noteq> - 1"
  shows "wp owfd_rtsp_ctrl_ref (\<lambda>r s'. r \<noteq> Fault \<and> ctrl_alive F s') s"
proof -
  have "rc_ref s + 1 \<noteq> 0" using assms(2) by (metis add.commute eq_neg_iff_add_eq_0)
  then show ?thesis using i by (auto simp: owfd_rtsp_ctrl_ref_def wp_simps ctrl_alive_def ctrl_inv_def)
qed

lemma ctrl_op_keeps:
  assumes KH: "answers_ok K" "handlers_ok call_ok H" and i: "ctrl_alive F s" "rc_ref s \<noteq> 0" and e: "event_ok e" "\<not> (e = Takes_ref \<and> rc_ref s = - 1)"
  shows "wp (ctrl_op K H e) (\<lambda>r s'. r \<noteq> Fault \<and> ctrl_alive F s') s"
proof -
  have inv: "ctrl_inv F s" using i by (simp add: ctrl_alive_def)
  have alive: "wp m (\<lambda>r s'. r \<noteq> Fault \<and> ctrl_alive F s') s" if "keeps F m" for m :: "(rtsp_ctrl, unit) op"
  proof -
    have "wp m (\<lambda>r s'. r \<noteq> Fault \<and> ctrl_inv F s') s" using that inv by (simp add: triple_def)
    then show ?thesis by (rule wp_mono) (auto simp: ctrl_alive_def ctrl_inv_def)
  qed
  show ?thesis
  proof (cases e)
    case Takes_ref
    then show ?thesis using ref_keeps [OF inv] e by simp
  next
    case (Does c)
    then show ?thesis using alive [OF client_call_keeps [OF KH(1)]] e by simp
  qed (use alive [OF dispatch_keeps [OF KH]] unref_keeps [OF inv] in simp_all)
qed

lemma ctrl_step_alive:
  assumes "answers_ok K" "handlers_ok call_ok H" and "ctrl_alive F s" and "event_ok e"
  shows "ctrl_alive F (ctrl_step K H s e)"
  using ctrl_op_keeps [OF assms(1,2,3) _ assms(4)] assms(3) by (auto simp: ctrl_step_def wp_iff)

interpretation ctrl_run: stepper "ctrl_step K H" "\<lambda>e. answers_ok K \<and> handlers_ok call_ok H \<and> event_ok e" "ctrl_alive F" for K H F
  by unfold_locales (simp add: ctrl_step_alive)

lemma ctrl_new_alive:
  assumes "owfd_rtsp_ctrl_new K mem k = (k', Ok s)" and "\<forall>fd\<in>open_fds k. fd < next_fd k" and "0 \<le> next_fd k"
    and "interest k = Map.empty"
  shows "ctrl_alive (open_fds k) s"
proof -
  have "mem" using assms(1) by (cases mem) (simp_all add: owfd_rtsp_ctrl_new_def)
  moreover have "sys_open K k = (tick K k\<lparr>next_fd := next_fd k + 1, open_fds := insert (next_fd k) (open_fds k)\<rparr>, Ok (next_fd k))"
    using assms(1) \<open>mem\<close>
    by (cases "a_err (K (calls k))") (auto simp: owfd_rtsp_ctrl_new_def sys_open_def sys_def sys_call_def sbind_def)
  ultimately show ?thesis using assms
    by (auto simp: owfd_rtsp_ctrl_new_def ctrl_alive_def ctrl_inv_def kernel.defs tick_def)
qed

text \<open>
  C9: The channel never loses or misuses a descriptor. From its creation, through any sequence of client calls,
  dispatches and reference changes, for every behaviour of the kernel, of the peer and of the callbacks, no
  operation faults, in particular none uses or closes a descriptor that is not open and the ring is used within
  its bounds. While the channel lives it owns exactly its epoll instance and, when open, the connection, which
  is watched for input; when the last reference is dropped everything it opened is closed.
\<close>

theorem rtsp_ctrl_run_invariant:
  assumes "owfd_rtsp_ctrl_new K mem k = (k', Ok s0)" and "\<forall>fd\<in>open_fds k. fd < next_fd k" and "0 \<le> next_fd k"
    and "interest k = Map.empty" and "answers_ok K" and "handlers_ok call_ok H" and "list_all event_ok es"
    and "s = foldl (ctrl_step K H) s0 es"
  shows "(if rc_ref s = 0 then open_fds s = open_fds k
      else if owfd_rtsp_ctrl_is_open s then open_fds s = insert (rc_fd s) (insert (rc_efd s) (open_fds k)) \<and>
        (interest s = [rc_fd s \<mapsto> WATCH_IN] \<or> interest s = [rc_fd s \<mapsto> WATCH_INOUT])
      else open_fds s = insert (rc_efd s) (open_fds k) \<and> interest s = Map.empty \<and> ring_data (out_ring s) = []) \<and>
    (rc_ref s \<noteq> 0 \<longrightarrow> event_ok e \<longrightarrow> \<not> (e = Takes_ref \<and> rc_ref s = - 1) \<longrightarrow> snd (ctrl_op K H e s) \<noteq> Fault)"
proof -
  have "ctrl_alive (open_fds k) s"
    unfolding assms(8) by (rule ctrl_run.run_inv [OF ctrl_new_alive [OF assms(1-4)]]) (use assms(5-7) in \<open>simp add: list_all_iff\<close>)
  then show ?thesis
    using ctrl_op_keeps [OF assms(5,6), of "open_fds k" s e]
    by (auto simp: ctrl_alive_def ctrl_inv_def owfd_rtsp_ctrl_is_open_def wp_iff)
qed

subsection \<open>What is transmitted\<close>

lemma dispatch_out:
  assumes i: "ctrl_inv F s" "connected s" and w: "interest s = [rc_fd s \<mapsto> WATCH_INOUT]" and d: "ring_data (out_ring s) \<noteq> []"
    and a: "a_err (K (calls s)) = None" "a_events (K (calls s)) = [(rc_fd s, EPOLLOUT)]" "a_err (K (calls s + 1)) = None"
  shows "a_num (K (calls s + 1)) < length (ring_data (out_ring s)) \<Longrightarrow> owfd_rtsp_ctrl_dispatch K H s =
      ((tick K (tick K s))\<lparr>wire := wire s @ take (a_num (K (calls s + 1))) (ring_data (out_ring s))\<rparr>, Ok ())"
    and "length (ring_data (out_ring s)) \<le> a_num (K (calls s + 1)) \<Longrightarrow> a_err (K (calls s + 2)) = None \<Longrightarrow> \<exists>s'.
      owfd_rtsp_ctrl_dispatch K H s = (s', Ok ()) \<and> wire s' = wire s @ ring_data (out_ring s) \<and>
      interest s' = [rc_fd s \<mapsto> WATCH_IN] \<and> rc_fd s' = rc_fd s \<and> out_ring s' = out_ring s"
proof -
  have fd: "0 \<le> rc_fd s" "rc_fd s \<in> open_fds s" using i connected_open open_fd_open by blast+
  have efd: "rc_efd s \<in> open_fds s" and ok: "ring_ok (out_ring s)" using i fd by (auto simp: ctrl_inv_def)
  have r: "ready (interest s) [(rc_fd s, EPOLLOUT)] = [(rc_fd s, EPOLLOUT)]" by (simp add: ready_def w WATCH_INOUT_def)
  have linked: "wp (connect_done K H) Q s' = Q (Ok ()) s'" if "connected s'" for Q s'
    using that by (simp add: connect_done_def wp_simps)
  have send: "wp (send_all K) Q (tick K s) \<longleftrightarrow>
      (let d = ring_data (out_ring s); s' = (tick K (tick K s))\<lparr>wire := wire s @ take (min (a_num (K (calls s + 1))) (length d)) d\<rparr> in
       if a_num (K (calls s + 1)) < length d then Q (Ok ()) s' else wp (epoll_mod K (rc_fd s) WATCH_IN) Q s')" for Q
    using send_all_wp [of "tick K s" K Q] ok fd w d a(3) by (auto simp: Let_def min_def)
  have main: "wp (owfd_rtsp_ctrl_dispatch K H) Q s \<longleftrightarrow>
      wp (send_all K) (\<lambda>r s'. case r of Ok x \<Rightarrow> Q (Ok ()) s' | Err e \<Rightarrow> wp (sbind owfd_rtsp_ctrl_close (\<lambda>_. serr e)) Q s' | Fault \<Rightarrow> Q Fault s') (tick K s)" for Q
    unfolding owfd_rtsp_ctrl_dispatch_def owfd_rtsp_ctrl_is_open_def epoll_wait_def dispatch_ctrl_def or_close_def
    using fd efd a r i(2)
    by (simp add: wp_simps linked cong: if_cong) (rule arg_cong [where f = "\<lambda>Q. wp (send_all K) Q (tick K s)"], intro ext,
      simp add: andthen_def wp_simps split: result.splits)
  show "a_num (K (calls s + 1)) < length (ring_data (out_ring s)) \<Longrightarrow> owfd_rtsp_ctrl_dispatch K H s =
      ((tick K (tick K s))\<lparr>wire := wire s @ take (a_num (K (calls s + 1))) (ring_data (out_ring s))\<rparr>, Ok ())"
    using main [of "\<lambda>r s'. (s', r) = ((tick K (tick K s))\<lparr>wire := wire s @ take (a_num (K (calls s + 1))) (ring_data (out_ring s))\<rparr>, Ok ())"]
    by (simp add: wp_iff [of "owfd_rtsp_ctrl_dispatch K H"] send Let_def prod_eq_iff)
  show "length (ring_data (out_ring s)) \<le> a_num (K (calls s + 1)) \<Longrightarrow> a_err (K (calls s + 2)) = None \<Longrightarrow> \<exists>s'.
      owfd_rtsp_ctrl_dispatch K H s = (s', Ok ()) \<and> wire s' = wire s @ ring_data (out_ring s) \<and>
      interest s' = [rc_fd s \<mapsto> WATCH_IN] \<and> rc_fd s' = rc_fd s \<and> out_ring s' = out_ring s"
    using main [of "\<lambda>r s'. r = Ok () \<and> wire s' = wire s @ ring_data (out_ring s) \<and>
      interest s' = [rc_fd s \<mapsto> WATCH_IN] \<and> rc_fd s' = rc_fd s \<and> out_ring s' = out_ring s"] fd w
    by (auto simp: wp_iff [of "owfd_rtsp_ctrl_dispatch K H"] send Let_def epoll_mod_def wp_simps eval_nat_numeral prod_eq_iff)
qed

text \<open>
  A connection that is watched for input only although its ring holds data. Calls that do not open a
  connection leave it like that, whatever happens, and nothing is written.
\<close>

definition quiet :: "int set \<Rightarrow> char list \<Rightarrow> rtsp_ctrl \<Rightarrow> bool" where
  "quiet F w s \<longleftrightarrow> ctrl_inv F s \<and> wire s = w \<and> (rc_fd s < 0 \<or> interest s = [rc_fd s \<mapsto> WATCH_IN] \<and> ring_data (out_ring s) \<noteq> [])"

fun stays :: "ctrl_call \<Rightarrow> bool" where
  "stays (Sends buf) \<longleftrightarrow> length buf < 2 ^ 63"
| "stays Closes \<longleftrightarrow> True"
| "stays _ \<longleftrightarrow> False"

fun stays_event :: "ctrl_event \<Rightarrow> bool" where
  "stays_event (Does c) \<longleftrightarrow> stays c"
| "stays_event _ \<longleftrightarrow> True"

lemma quiet_close: "triple (quiet F w) owfd_rtsp_ctrl_close (quiet F w)"
proof (rule tripleI)
  fix s
  assume q: "quiet F w s"
  have "wp owfd_rtsp_ctrl_close (\<lambda>r s'. wire s' = w \<and> rc_fd s' < 0) s"
    using q open_fd_open [of F s] by (auto simp: quiet_def owfd_rtsp_ctrl_close_def owfd_rtsp_ctrl_is_open_def wp_simps)
  moreover have "wp owfd_rtsp_ctrl_close (\<lambda>r s'. r \<noteq> Fault \<and> ctrl_inv F s') s"
    using q close_keeps [of F] by (auto simp: quiet_def triple_def)
  ultimately show "wp owfd_rtsp_ctrl_close (\<lambda>r s'. r \<noteq> Fault \<and> quiet F w s') s" by (simp add: wp_iff quiet_def)
qed

lemma quiet_send:
  assumes K: "answers_ok K" and buf: "length buf < 2 ^ 63"
  shows "triple (quiet F w) (owfd_rtsp_ctrl_send K buf) (quiet F w)"
proof (rule tripleI)
  fix s
  assume q: "quiet F w s"
  have inv: "wp (owfd_rtsp_ctrl_send K buf) (\<lambda>r s'. r \<noteq> Fault \<and> ctrl_inv F s') s"
    using q send_keeps [OF assms, of F] by (auto simp: quiet_def triple_def)
  have "wp (owfd_rtsp_ctrl_send K buf) (\<lambda>r s'. wire s' = w \<and> (rc_fd s' < 0 \<or> interest s' = [rc_fd s' \<mapsto> WATCH_IN] \<and> ring_data (out_ring s') \<noteq> [])) s"
  proof (cases "rc_fd s \<ge> 0")
    case True
    have ok: "ring_ok (out_ring s)" "alloc_ok (a_alloc (K (calls s)))" using q K by (auto simp: quiet_def ctrl_inv_def answers_ok_def)
    have "fst (shl_ring_peek (out_ring s)) \<noteq> 0" using q True shl_ring_peek_zero [OF ok(1)] by (auto simp: quiet_def)
    then show ?thesis using ring_push_ok [OF ok buf] q True
      by (cases "shl_ring_push (a_alloc (K (calls s))) (out_ring s) buf")
        (auto simp: owfd_rtsp_ctrl_send_def owfd_rtsp_ctrl_is_open_def wp_simps quiet_def)
  qed (use q in \<open>simp add: owfd_rtsp_ctrl_send_def owfd_rtsp_ctrl_is_open_def wp_simps quiet_def\<close>)
  with inv show "wp (owfd_rtsp_ctrl_send K buf) (\<lambda>r s'. r \<noteq> Fault \<and> quiet F w s') s" by (simp add: wp_iff quiet_def)
qed

lemma ready_in: "e \<in> set (ready [fd \<mapsto> WATCH_IN] es) \<Longrightarrow> snd e AND EPOLLOUT = 0"
proof -
  assume "e \<in> set (ready [fd \<mapsto> WATCH_IN] es)"
  then obtain x where "snd e = x AND (WATCH_IN OR (EPOLLHUP OR EPOLLERR)) \<or> snd e = 0"
    by (auto simp: ready_def split: if_splits)
  moreover have "(WATCH_IN OR (EPOLLHUP OR EPOLLERR)) AND EPOLLOUT = 0" by (simp add: WATCH_IN_def)
  ultimately show ?thesis using and.assoc [of x "WATCH_IN OR (EPOLLHUP OR EPOLLERR)" EPOLLOUT] by auto
qed

definition sane_stays :: "answers \<Rightarrow> ctrl_call \<Rightarrow> bool" where
  "sane_stays K c \<longleftrightarrow> answers_ok K \<and> stays c"

interpretation ctrl_quiet: ctrl_contract K "sane_stays K" "quiet F w" for K F w
proof unfold_locales
  show "rc_efd s \<in> open_fds s \<and> (connected s \<longrightarrow> 0 \<le> rc_fd s) \<and> (0 \<le> rc_fd s \<longrightarrow> rc_fd s \<in> open_fds s)" if "quiet F w s" for s
    using that ctrl_run_inv.owns [of F s] by (simp add: quiet_def)
  show "quiet F w (s\<lparr>connected := True\<rparr>)" if "quiet F w s" "0 \<le> rc_fd s" for s
    using that ctrl_run_inv.linked_I [of F s] by (simp add: quiet_def)
  show "triple (quiet F w) (client_call K c) (quiet F w)" if "sane_stays K c" for c
    using that quiet_close quiet_send by (cases c) (auto simp: sane_stays_def)
  show "wp (send_all K) (\<lambda>r s'. r \<noteq> Fault \<and> quiet F w s') s'"
    if "quiet F w s" "0 \<le> rc_fd s" "e \<in> set (ready (interest s) es)" "snd e AND EPOLLOUT \<noteq> 0" for s e es s'
    using that ready_in by (fastforce simp: quiet_def)
qed (auto simp: quiet_def intro: quiet_close)

lemma unref_wire:
  assumes i: "ctrl_inv F s"
  shows "wp owfd_rtsp_ctrl_unref (\<lambda>r s'. wire s' = wire s \<and> (rc_ref s' = 0 \<or> s' = s\<lparr>rc_ref := rc_ref s - 1\<rparr>)) s"
proof (cases "rc_ref s = 1")
  case True
  have "wp owfd_rtsp_ctrl_close (\<lambda>r s'. rc_ref s' = 0 \<and> wire s' = wire s) (s\<lparr>rc_ref := 0\<rparr>)"
    using i by (auto simp: ctrl_inv_def owfd_rtsp_ctrl_close_def owfd_rtsp_ctrl_is_open_def wp_simps)
  then have "wp (sbind owfd_rtsp_ctrl_close (\<lambda>_. sbind (sget rc_efd) (\<lambda>efd. sbind (sys_close efd) (\<lambda>_.
      smod (\<lambda>s. s\<lparr>out_ring := shl_ring_clear (out_ring s)\<rparr>))))) (\<lambda>r s'. rc_ref s' = 0 \<and> wire s' = wire s) (s\<lparr>rc_ref := 0\<rparr>)"
    by (rule wp_sbindI) (auto simp: andthen_def wp_simps split: result.splits)
  then show ?thesis using True
    by (simp add: owfd_rtsp_ctrl_unref_def wp_sbind [of "sget rc_ref"] wp_sbind [of "smod _"] wp_basic andthen_simps wp_iff)
next
  case False
  then have "rc_ref s - 1 \<noteq> 0" "rc_ref s \<noteq> 0" using i by (auto simp: ctrl_inv_def)
  then show ?thesis by (simp add: owfd_rtsp_ctrl_unref_def wp_simps)
qed

lemma quiet_run:
  assumes K: "answers_ok K" and H: "handlers_ok stays H" and s: "quiet F w s" and es: "list_all stays_event es"
  shows "wire (foldl (ctrl_step K H) s es) = w"
proof -
  have step: "wire (ctrl_step K H s e) = w \<and> (rc_ref (ctrl_step K H s e) = 0 \<or> quiet F w (ctrl_step K H s e))"
    if q: "wire s = w" "rc_ref s = 0 \<or> quiet F w s" and e: "stays_event e" for s e
  proof (cases "rc_ref s = 0 \<or> e = Takes_ref \<and> rc_ref s = - 1")
    case False
    then have q': "quiet F w s" using q by simp
    have keep: "wire (fst (m s)) = w \<and> (rc_ref (fst (m s)) = 0 \<or> quiet F w (fst (m s)))" if "triple (quiet F w) m (quiet F w)"
      for m :: "(rtsp_ctrl, unit) op"
      using tripleD [OF that q'] by (simp add: quiet_def)
    show ?thesis
    proof (cases e)
      case (Does c)
      then show ?thesis using keep [OF ctrl_quiet.call_I] e False K by (simp add: ctrl_step_def sane_stays_def)
    next
      case Dispatches
      have "handlers_ok (sane_stays K) H" using H K by (simp add: handlers_ok_def sane_stays_def list_all_iff)
      then show ?thesis using keep [OF ctrl_quiet.dispatch_I] Dispatches False by (simp add: ctrl_step_def)
    next
      case Takes_ref
      then have "rc_ref s + 1 \<noteq> 0" using False by (metis add.commute eq_neg_iff_add_eq_0)
      then show ?thesis using Takes_ref q' False by (simp add: ctrl_step_def owfd_rtsp_ctrl_ref_def quiet_def)
    next
      case Drops_ref
      have inv: "ctrl_inv F s" using q' by (simp add: quiet_def)
      define s' where "s' = fst (owfd_rtsp_ctrl_unref s)"
      have u: "wire s' = w" "rc_ref s' = 0 \<or> s' = s\<lparr>rc_ref := rc_ref s - 1\<rparr>"
        using unref_wire [OF inv] q' by (simp_all add: wp_iff quiet_def s'_def)
      have "rc_ref s' = 0 \<or> quiet F w s'"
      proof (cases "rc_ref s - 1 = 0")
        case False
        moreover have "rc_ref s \<noteq> 0" using inv by (simp add: ctrl_inv_def)
        ultimately have "ctrl_inv F (s\<lparr>rc_ref := rc_ref s - 1\<rparr>)" using inv ctrl_inv_update(4) [of "rc_ref s - 1" s F] by blast
        then have "quiet F w (s\<lparr>rc_ref := rc_ref s - 1\<rparr>)" using q' by (simp add: quiet_def)
        then show ?thesis using u(2) by fastforce
      qed (use u(2) in auto)
      then show ?thesis using u(1) False by (simp add: ctrl_step_def Drops_ref s'_def)
    qed
  qed (use q in \<open>simp add: ctrl_step_def\<close>)
  have "wire s = w \<Longrightarrow> rc_ref s = 0 \<or> quiet F w s \<Longrightarrow> list_all stays_event es \<Longrightarrow> wire (foldl (ctrl_step K H) s es) = w" for s
    by (induction es arbitrary: s) (simp_all add: step)
  then show ?thesis using s es by (simp add: quiet_def)
qed

definition demo_answer :: answer where
  "demo_answer = \<lparr>a_err = None, a_alloc = demo_alloc, a_bytes = [], a_num = 100, a_events = [(4, EPOLLOUT)], a_time = 10, a_wait = 0\<rparr>"

lemma demo_answers_ok: "answers_ok (\<lambda>_. demo_answer)"
  by (simp add: answers_ok_def demo_answer_def demo_alloc_ok)

definition demo_kernel :: kernel where
  "demo_kernel = \<lparr>calls = 0, now_us = 0, next_fd = 3, open_fds = {0, 1, 2}, interest = Map.empty\<rparr>"

definition demo_channel :: rtsp_ctrl where
  "demo_channel = (case snd (owfd_rtsp_ctrl_new (\<lambda>_. demo_answer) True demo_kernel) of Ok s \<Rightarrow> s)"

lemma demo_channel_new: "owfd_rtsp_ctrl_new (\<lambda>_. demo_answer) True demo_kernel = (fst (sys_open (\<lambda>_. demo_answer) demo_kernel), Ok demo_channel)"
  by (simp add: owfd_rtsp_ctrl_new_def demo_channel_def sys_open_def sys_def sys_call_def sbind_def demo_answer_def)

theorem rtsp_ctrl_run_invariant_witness:
  "open_fds (foldl (ctrl_step (\<lambda>_. demo_answer) (\<lambda>_ _ _. [])) demo_channel [Does (Opens_fd 1), Takes_ref, Drops_ref, Drops_ref]) = {0, 1, 2}"
proof -
  let ?es = "[Does (Opens_fd 1), Takes_ref, Drops_ref, Drops_ref]"
  let ?s = "foldl (ctrl_step (\<lambda>_. demo_answer) (\<lambda>_ _ _. [])) demo_channel ?es"
  have "rc_ref ?s = 0"
    by (simp add: ctrl_step_def demo_channel_def owfd_rtsp_ctrl_new_def demo_kernel_def kernel.defs demo_answer_def sys_open_def sys_def
      sys_call_def tick_def close_on_error_def attempt_def owfd_rtsp_ctrl_open_tcp_fd_def owfd_rtsp_ctrl_is_open_def sys_use_def epoll_add_def
      owfd_rtsp_ctrl_ref_def owfd_rtsp_ctrl_unref_def owfd_rtsp_ctrl_close_def sys_close_def sbind_def)
  with rtsp_ctrl_run_invariant [OF demo_channel_new _ _ _ demo_answers_ok _ _ refl, of "\<lambda>_ _ _. []" ?es Dispatches]
  show ?thesis by (simp add: demo_kernel_def handlers_ok_def)
qed

text \<open>
  C34: What the first message meets. When the connection is ready for writing and takes all data of the ring, a dispatch
  transmits exactly that data, in order; but the data stays in the ring, so that the channel counts as busy and never asks
  for readiness to write again: whatever the client and the peer do on this connection, nothing is transmitted any more.
\<close>

theorem rtsp_ctrl_transmits_once:
  assumes "ctrl_inv F s" and "connected s" and "interest s = [rc_fd s \<mapsto> WATCH_INOUT]" and "ring_data (out_ring s) = d" and "d \<noteq> []"
    and "a_err (K (calls s)) = None" and "a_events (K (calls s)) = [(rc_fd s, EPOLLOUT)]"
    and "a_err (K (calls s + 1)) = None" and "length d \<le> a_num (K (calls s + 1))" and "a_err (K (calls s + 2)) = None"
    and "answers_ok K" and "handlers_ok stays H" and "list_all stays_event es"
  shows "\<exists>s'. owfd_rtsp_ctrl_dispatch K H s = (s', Ok ()) \<and> wire s' = wire s @ d \<and>
    wire (foldl (ctrl_step K H) s' es) = wire s @ d"
proof -
  have "handlers_ok call_ok H"
  proof -
    have "call_ok c" if "stays c" for c using that by (cases c) simp_all
    then show ?thesis using assms(12) by (auto simp: handlers_ok_def list_all_iff)
  qed
  from dispatch_keeps [OF assms(11) this, of F] have inv: "ctrl_inv F (fst (owfd_rtsp_ctrl_dispatch K H s))"
    using assms(1) tripleD by fastforce
  obtain s' where s': "owfd_rtsp_ctrl_dispatch K H s = (s', Ok ())" "wire s' = wire s @ d"
      "interest s' = [rc_fd s \<mapsto> WATCH_IN]" "rc_fd s' = rc_fd s" "out_ring s' = out_ring s"
    using dispatch_out(2) [OF assms(1-3) _ assms(6-8)] assms(4,5,9,10) by auto
  then have "quiet F (wire s @ d) s'" using inv assms(4,5) by (simp add: quiet_def)
  from quiet_run [OF assms(11,12) this assms(13)] show ?thesis using s' by blast
qed

definition demo_linked :: rtsp_ctrl where
  "demo_linked = \<lparr>calls = 0, now_us = 0, next_fd = 5, open_fds = {3, 4}, interest = [4 \<mapsto> WATCH_INOUT], rc_ref = 1, rc_efd = 3, rc_fd = 4,
     rc_cb = None, out_ring = \<lparr>rbuf = ''PLAY....'', rsize = 8, rstart = 0, rend = 4\<rparr>, connected = True, wire = [], seen = [], rc_data = 0\<rparr>"

lemma demo_linked_inv: "ctrl_inv {} demo_linked" and demo_linked_data: "ring_data (out_ring demo_linked) = ''PLAY''"
proof -
  have "is_pow2 8" unfolding is_pow2_def by (rule bexI [of _ 3]) simp_all
  then show "ctrl_inv {} demo_linked" by (auto simp: ctrl_inv_def demo_linked_def ring_ok_def)
qed (simp add: demo_linked_def ring_data_def)

theorem rtsp_ctrl_transmits_once_witness:
  "\<exists>s'. owfd_rtsp_ctrl_dispatch (\<lambda>_. demo_answer) (\<lambda>_ _ _. []) demo_linked = (s', Ok ()) \<and> wire s' = wire demo_linked @ ''PLAY'' \<and>
    wire (foldl (ctrl_step (\<lambda>_. demo_answer) (\<lambda>_ _ _. [])) s' [Does (Sends ''TEARDOWN''), Dispatches, Dispatches]) = wire demo_linked @ ''PLAY''"
  by (rule rtsp_ctrl_transmits_once [OF demo_linked_inv _ _ demo_linked_data _ _ _ _ _ _ demo_answers_ok])
    (simp_all add: demo_linked_def demo_answer_def handlers_ok_def)

text \<open>
  A connection that takes only a part of the data is sent that part again: the next write starts with the first
  byte once more.
\<close>

lemma rtsp_ctrl_partial_write_repeats:
  assumes "ctrl_inv F s" and "connected s" and "interest s = [rc_fd s \<mapsto> WATCH_INOUT]" and "ring_data (out_ring s) = d" and "d \<noteq> []"
    and "\<forall>n\<in>{0, 2}. a_err (K (calls s + n)) = None \<and> a_events (K (calls s + n)) = [(rc_fd s, EPOLLOUT)]"
    and "a_err (K (calls s + 1)) = None" and "a_num (K (calls s + 1)) = l" and "l < length d"
    and "a_err (K (calls s + 3)) = None" and "length d \<le> a_num (K (calls s + 3))" and "a_err (K (calls s + 4)) = None"
  shows "\<exists>s' s''. owfd_rtsp_ctrl_dispatch K H s = (s', Ok ()) \<and> owfd_rtsp_ctrl_dispatch K H s' = (s'', Ok ()) \<and>
    wire s'' = wire s @ take l d @ d"
proof -
  let ?s' = "(tick K (tick K s))\<lparr>wire := wire s @ take l d\<rparr>"
  have 1: "owfd_rtsp_ctrl_dispatch K H s = (?s', Ok ())"
    using dispatch_out(1) [OF assms(1-3), of K H] assms(4-9) by simp
  have "ctrl_inv F ?s'" using assms(1) by simp
  from dispatch_out(2) [OF this, of K H] show ?thesis
    using 1 assms(2-6,10-12) by (auto simp: eval_nat_numeral)
qed

lemma rtsp_ctrl_partial_write_repeats_witness:
  "\<exists>s' s''. owfd_rtsp_ctrl_dispatch (\<lambda>n. demo_answer\<lparr>a_num := if n = 1 then 2 else 100\<rparr>) (\<lambda>_ _ _. []) demo_linked = (s', Ok ()) \<and>
    owfd_rtsp_ctrl_dispatch (\<lambda>n. demo_answer\<lparr>a_num := if n = 1 then 2 else 100\<rparr>) (\<lambda>_ _ _. []) s' = (s'', Ok ()) \<and>
    wire s'' = wire demo_linked @ take 2 ''PLAY'' @ ''PLAY''"
  by (rule rtsp_ctrl_partial_write_repeats [OF demo_linked_inv _ _ demo_linked_data])
    (simp_all add: demo_linked_def demo_answer_def)

subsection \<open>Connections that never begin or never end\<close>

text \<open>
  A socket that does not block reports that the connection is in progress; the channel takes this for a failure, so that
  \<open>owfd_rtsp_ctrl_open_tcp\<close> never opens a connection that needs the network.
\<close>

lemma open_tcp_in_progress:
  assumes "rc_fd s < 0" and "a_err (K (calls s)) = None" and "a_err (K (calls s + 1)) = Some EINPROGRESS"
  shows "\<exists>s'. owfd_rtsp_ctrl_open_tcp K False h s = (s', Err EINPROGRESS) \<and> rc_fd s' = rc_fd s \<and> next_fd s \<notin> open_fds s'"
proof -
  have "wp (owfd_rtsp_ctrl_open_tcp K False h) (\<lambda>r s'. r = Err EINPROGRESS \<and> rc_fd s' = rc_fd s \<and> next_fd s \<notin> open_fds s') s"
    using assms by (simp add: owfd_rtsp_ctrl_open_tcp_def owfd_rtsp_ctrl_is_open_def wp_simps wp_close_on_error)
  then show ?thesis by (cases "owfd_rtsp_ctrl_open_tcp K False h s") (simp add: wp_iff)
qed

text \<open>
  When the peer ends its side of the connection, reading gives no bytes; the channel stays open and connected, and no
  callback tells the client.
\<close>

lemma end_of_stream_ignored:
  assumes "ctrl_inv F s" and "connected s" and "a_err (K (calls s)) = None" and "a_events (K (calls s)) = [(rc_fd s, EPOLLIN)]"
    and "a_err (K (calls s + 1)) = None" and "a_bytes (K (calls s + 1)) = []"
  shows "owfd_rtsp_ctrl_dispatch K H s = (tick K (tick K s), Ok ())"
proof -
  have fd: "0 \<le> rc_fd s" "rc_fd s \<in> open_fds s" "rc_efd s \<in> open_fds s" using ctrl_run_inv.owns [OF assms(1)] assms(2) by blast+
  have w: "interest s = [rc_fd s \<mapsto> WATCH_IN] \<or> interest s = [rc_fd s \<mapsto> WATCH_INOUT]" using assms(1) fd by (simp add: ctrl_inv_def)
  have r: "ready (interest s) [(rc_fd s, EPOLLIN)] = [(rc_fd s, EPOLLIN)]"
    using w by (auto simp: ready_def WATCH_IN_def WATCH_INOUT_def)
  have "recv_loop K H (Suc n) (tick K s) = (tick K (tick K s), Ok ())" for n
  proof -
    have "wp (recv_loop K H (Suc n)) (\<lambda>r s'. r = Ok () \<and> s' = tick K (tick K s)) (tick K s)"
      using fd assms(5,6) by (simp add: sys_read_again_def sys_read_def wp_simps)
    then show ?thesis by (simp add: wp_iff prod_eq_iff)
  qed
  from this [of 127] have "wp (owfd_rtsp_ctrl_dispatch K H) (\<lambda>r s'. r = Ok () \<and> s' = tick K (tick K s)) s"
    unfolding owfd_rtsp_ctrl_dispatch_def owfd_rtsp_ctrl_is_open_def epoll_wait_def dispatch_ctrl_def or_close_def connect_done_def recv_all_def
    using fd assms(2-4) r by (simp add: wp_simps wp_iff [of "recv_loop K H 128"] cong: if_cong)
  then show ?thesis by (simp add: wp_iff prod_eq_iff)
qed

end
