(* ===== verification/Wpa_Parser.thy ===== *)
theory Wpa_Parser
  imports Cstring
begin

text \<open>
  The parser for events of \<open>wpa_supplicant\<close>, \<open>src/wpa_parser.c\<close> with the types of \<open>src/wpa.h\<close>: the
  table of event names and its binary search, the tokenizer for event arguments, the recognition of
  MAC addresses and one parser per event. The arguments lie one after the other in a block and are
  visited by pointer; every access is checked.

  The search is proved complete for the table of the source through the locale \<open>sorted_table\<close>, the
  tokenizer is proved equal to a list function, and the parsers are proved to visit exactly the
  arguments.
\<close>

subsection \<open>Events\<close>

datatype wpa_event_type =
    OWFD_WPA_EVENT_UNKNOWN
  | OWFD_WPA_EVENT_AP_STA_CONNECTED
  | OWFD_WPA_EVENT_AP_STA_DISCONNECTED
  | OWFD_WPA_EVENT_P2P_DEVICE_FOUND
  | OWFD_WPA_EVENT_P2P_FIND_STOPPED
  | OWFD_WPA_EVENT_P2P_GO_NEG_REQUEST
  | OWFD_WPA_EVENT_P2P_GO_NEG_SUCCESS
  | OWFD_WPA_EVENT_P2P_GO_NEG_FAILURE
  | OWFD_WPA_EVENT_P2P_GROUP_FORMATION_SUCCESS
  | OWFD_WPA_EVENT_P2P_GROUP_FORMATION_FAILURE
  | OWFD_WPA_EVENT_P2P_GROUP_STARTED
  | OWFD_WPA_EVENT_P2P_GROUP_REMOVED
  | OWFD_WPA_EVENT_P2P_PROV_DISC_SHOW_PIN
  | OWFD_WPA_EVENT_P2P_PROV_DISC_ENTER_PIN
  | OWFD_WPA_EVENT_P2P_PROV_DISC_PBC_REQ
  | OWFD_WPA_EVENT_P2P_PROV_DISC_PBC_RESP
  | OWFD_WPA_EVENT_P2P_SERV_DISC_REQ
  | OWFD_WPA_EVENT_P2P_SERV_DISC_RESP
  | OWFD_WPA_EVENT_P2P_INVITATION_RECEIVED
  | OWFD_WPA_EVENT_P2P_INVITATION_RESULT

datatype wpa_role = OWFD_WPA_EVENT_ROLE_GO | OWFD_WPA_EVENT_ROLE_CLIENT

text \<open>The members of the payload union; a MAC address is its string, the array has 18 bytes.\<close>

datatype wpa_payload =
    No_payload
  | Ap_sta_connected "char list"
  | Ap_sta_disconnected "char list"
  | P2p_device_found "char list" "char list"
  | P2p_go_neg_success "char list" wpa_role
  | P2p_group_started "char list" wpa_role "char list"
  | P2p_prov_disc_show_pin "char list" "char list"
  | P2p_prov_disc_enter_pin "char list"
  | P2p_prov_disc_pbc_req "char list"
  | P2p_prov_disc_pbc_resp "char list"

record owfd_wpa_event =
  ev_type :: wpa_event_type
  ev_priority :: u32
  ev_raw :: "char list option"
  ev_p :: wpa_payload

text \<open>All bytes of the structure are zero.\<close>

definition owfd_wpa_event_init :: owfd_wpa_event where
  "owfd_wpa_event_init =
     \<lparr>ev_type = OWFD_WPA_EVENT_UNKNOWN, ev_priority = 0, ev_raw = None, ev_p = No_payload\<rparr>"

definition owfd_wpa_event_reset :: "owfd_wpa_event \<Rightarrow> owfd_wpa_event" where
  "owfd_wpa_event_reset ev = owfd_wpa_event_init"

definition event_list :: "(char list \<times> wpa_event_type) list" where
  "event_list =
     [(''AP-STA-CONNECTED'', OWFD_WPA_EVENT_AP_STA_CONNECTED),
      (''AP-STA-DISCONNECTED'', OWFD_WPA_EVENT_AP_STA_DISCONNECTED),
      (''P2P-DEVICE-FOUND'', OWFD_WPA_EVENT_P2P_DEVICE_FOUND),
      (''P2P-FIND-STOPPED'', OWFD_WPA_EVENT_P2P_FIND_STOPPED),
      (''P2P-GO-NEG-FAILURE'', OWFD_WPA_EVENT_P2P_GO_NEG_FAILURE),
      (''P2P-GO-NEG-REQUEST'', OWFD_WPA_EVENT_P2P_GO_NEG_REQUEST),
      (''P2P-GO-NEG-SUCCESS'', OWFD_WPA_EVENT_P2P_GO_NEG_SUCCESS),
      (''P2P-GROUP-FORMATION-FAILURE'', OWFD_WPA_EVENT_P2P_GROUP_FORMATION_FAILURE),
      (''P2P-GROUP-FORMATION-SUCCESS'', OWFD_WPA_EVENT_P2P_GROUP_FORMATION_SUCCESS),
      (''P2P-GROUP-REMOVED'', OWFD_WPA_EVENT_P2P_GROUP_REMOVED),
      (''P2P-GROUP-STARTED'', OWFD_WPA_EVENT_P2P_GROUP_STARTED),
      (''P2P-INVITATION-RECEIVED'', OWFD_WPA_EVENT_P2P_INVITATION_RECEIVED),
      (''P2P-INVITATION-RESULT'', OWFD_WPA_EVENT_P2P_INVITATION_RESULT),
      (''P2P-PROV-DISC-ENTER-PIN'', OWFD_WPA_EVENT_P2P_PROV_DISC_ENTER_PIN),
      (''P2P-PROV-DISC-PBC-REQ'', OWFD_WPA_EVENT_P2P_PROV_DISC_PBC_REQ),
      (''P2P-PROV-DISC-PBC-RESP'', OWFD_WPA_EVENT_P2P_PROV_DISC_PBC_RESP),
      (''P2P-PROV-DISC-SHOW-PIN'', OWFD_WPA_EVENT_P2P_PROV_DISC_SHOW_PIN),
      (''P2P-SERV-DISC-REQ'', OWFD_WPA_EVENT_P2P_SERV_DISC_REQ),
      (''P2P-SERV-DISC-RESP'', OWFD_WPA_EVENT_P2P_SERV_DISC_RESP)]"

definition owfd_wpa_event_name :: "wpa_event_type \<Rightarrow> char list" where
  "owfd_wpa_event_name type =
     (case find (\<lambda>e. snd e = type) event_list of Some e \<Rightarrow> fst e | None \<Rightarrow> ''UNKNOWN'')"

subsection \<open>Finding the event\<close>

text \<open>
  \<open>event_comp\<close> reads the byte of the key after the name; the terminator of a key that ends there is
  not a blank and not another character.
\<close>

definition event_comp :: "char list \<Rightarrow> char list \<times> wpa_event_type \<Rightarrow> int" where
  "event_comp k t =
     (let r = strncmp k (fst t) (length (fst t))
      in if r \<noteq> 0 then r
         else if length (fst t) < length k \<and> k ! length (fst t) \<noteq> SPACE then 1 else 0)"

text \<open>\<open>bsearch\<close> of the C library on the elements from \<open>l\<close> up to, but not including, \<open>u\<close>.\<close>

function bsearch_range :: "('k \<Rightarrow> 'e \<Rightarrow> int) \<Rightarrow> 'k \<Rightarrow> 'e list \<Rightarrow> nat \<Rightarrow> nat \<Rightarrow> 'e option" where
  "bsearch_range cmp k xs l u =
     (if l < u then
        let i = (l + u) div 2; r = cmp k (xs ! i)
        in if r < 0 then bsearch_range cmp k xs l i
           else if r > 0 then bsearch_range cmp k xs (Suc i) u
           else Some (xs ! i)
      else None)"
  by pat_completeness auto
termination
  by (relation "measure (\<lambda>(cmp, k, xs, l, u). u - l)") auto

declare bsearch_range.simps [simp del]

definition bsearch :: "('k \<Rightarrow> 'e \<Rightarrow> int) \<Rightarrow> 'k \<Rightarrow> 'e list \<Rightarrow> 'e option" where
  "bsearch cmp k xs = bsearch_range cmp k xs 0 (length xs)"

lemma bsearch_range_sound:
  "u \<le> length xs \<Longrightarrow> bsearch_range cmp k xs l u = Some e \<Longrightarrow> e \<in> set xs \<and> cmp k e = 0"
proof (induction cmp k xs l u rule: bsearch_range.induct)
  case (1 cmp k xs l u)
  show ?case
  proof (cases "l < u")
    case True
    let ?i = "(l + u) div 2"
    have "?i < u" using True by simp
    then show ?thesis using 1 True
      by (subst (asm) (3) bsearch_range.simps) (auto simp: Let_def split: if_splits)
  qed (use 1 in \<open>simp add: bsearch_range.simps\<close>)
qed

text \<open>
  A table that is sorted for a comparison function: an entry that matches a key lies after all
  entries below and before all entries above the key.
\<close>

locale sorted_table =
  fixes cmp :: "'k \<Rightarrow> 'e \<Rightarrow> int" and xs :: "'e list"
  assumes below: "i < length xs \<Longrightarrow> j < i \<Longrightarrow> cmp k (xs ! i) = 0 \<Longrightarrow> cmp k (xs ! j) > 0"
    and above: "j < length xs \<Longrightarrow> i < j \<Longrightarrow> cmp k (xs ! i) = 0 \<Longrightarrow> cmp k (xs ! j) < 0"
begin

lemma match_unique:
  "i < length xs \<Longrightarrow> j < length xs \<Longrightarrow> cmp k (xs ! i) = 0 \<Longrightarrow> cmp k (xs ! j) = 0 \<Longrightarrow> i = j"
  using below [of i j k] below [of j i k] by (cases i j rule: linorder_cases) auto

lemma range_complete:
  assumes "l \<le> i" "i < u" "u \<le> length xs" "cmp k (xs ! i) = 0"
  shows "bsearch_range cmp k xs l u = Some (xs ! i)"
  using assms
proof (induction "u - l" arbitrary: l u rule: less_induct)
  case less
  let ?m = "(l + u) div 2"
  have m: "l \<le> ?m" "?m < u" using less.prems by auto
  consider "?m < i" | "?m = i" | "i < ?m" by linarith
  then show ?case
  proof cases
    case 1
    then have "cmp k (xs ! ?m) > 0" using less.prems by (intro below [of i]) auto
    then show ?thesis using 1 m less.prems less.hyps [of u "Suc ?m"]
      by (subst bsearch_range.simps) (auto simp: Let_def)
  next
    case 2
    then show ?thesis using less.prems by (subst bsearch_range.simps) (auto simp: Let_def)
  next
    case 3
    then have "cmp k (xs ! ?m) < 0" using less.prems m by (intro above [of _ i]) auto
    then show ?thesis using 3 m less.prems less.hyps [of ?m l]
      by (subst bsearch_range.simps) (auto simp: Let_def)
  qed
qed

lemma bsearch_iff: "bsearch cmp k xs = Some e \<longleftrightarrow> e \<in> set xs \<and> cmp k e = 0"
proof
  assume "bsearch cmp k xs = Some e"
  then show "e \<in> set xs \<and> cmp k e = 0" unfolding bsearch_def by (rule bsearch_range_sound [OF order_refl])
next
  assume "e \<in> set xs \<and> cmp k e = 0"
  then obtain i where "i < length xs" "e = xs ! i" "cmp k (xs ! i) = 0" by (auto simp: in_set_conv_nth)
  then show "bsearch cmp k xs = Some e" using range_complete [of 0 i "length xs"] by (simp add: bsearch_def)
qed

end

text \<open>The names of the table differ pairwise inside both names, in the order of the table.\<close>

lemma event_list_diffs:
  "list_all (\<lambda>i. list_all (\<lambda>j. j < i \<longrightarrow>
       first_diff (fst (event_list ! i)) (fst (event_list ! j)) > 0 \<and>
       first_diff (fst (event_list ! j)) (fst (event_list ! i)) < 0) [0..<19]) [0..<19]"
  unfolding event_list_def by (simp add: upt_rec)

lemma event_list_NUL_free: "e \<in> set event_list \<Longrightarrow> NUL \<notin> set (fst e)"
  by (auto simp: event_list_def)

lemma event_comp_match:
  "e \<in> set event_list \<Longrightarrow> event_comp k e = 0 \<longleftrightarrow>
     (\<exists>r. k = fst e @ r \<and> (r = [] \<or> hd r = SPACE))"
proof -
  assume e: "e \<in> set event_list"
  have "event_comp k e = 0 \<longleftrightarrow>
      take (length (fst e)) k = fst e \<and> \<not> (length (fst e) < length k \<and> k ! length (fst e) \<noteq> SPACE)"
    using strncmp_prefix [OF event_list_NUL_free [OF e], of k] by (auto simp: event_comp_def Let_def)
  also have "\<dots> \<longleftrightarrow> (\<exists>r. k = fst e @ r \<and> (r = [] \<or> hd r = SPACE))"
  proof
    assume *: "take (length (fst e)) k = fst e \<and> \<not> (length (fst e) < length k \<and> k ! length (fst e) \<noteq> SPACE)"
    let ?r = "drop (length (fst e)) k"
    have "k = fst e @ ?r" using * by (metis append_take_drop_id)
    moreover have "?r = [] \<or> hd ?r = SPACE" using * by (cases "length (fst e) < length k") (auto simp: hd_drop_conv_nth)
    ultimately show "\<exists>r. k = fst e @ r \<and> (r = [] \<or> hd r = SPACE)" by blast
  next
    assume "\<exists>r. k = fst e @ r \<and> (r = [] \<or> hd r = SPACE)"
    then show "take (length (fst e)) k = fst e \<and> \<not> (length (fst e) < length k \<and> k ! length (fst e) \<noteq> SPACE)"
      by (auto simp: hd_conv_nth nth_append)
  qed
  finally show ?thesis .
qed

lemma event_comp_diff:
  assumes "e \<in> set event_list" "event_comp k e = 0" "first_diff (fst e) (fst f) \<noteq> 0"
  shows "event_comp k f = first_diff (fst e) (fst f)"
proof -
  obtain r where "k = fst e @ r" using event_comp_match [OF assms(1), of k] assms(2) by blast
  then have "strncmp k (fst f) (length (fst f)) = first_diff (fst e) (fst f)"
    using strncmp_first_diff [OF assms(3)] by simp
  then show ?thesis using assms(3) by (simp add: event_comp_def)
qed

lemma event_list_diff:
  assumes "i < length event_list" "j < i"
  shows "first_diff (fst (event_list ! i)) (fst (event_list ! j)) > 0"
    "first_diff (fst (event_list ! j)) (fst (event_list ! i)) < 0"
  using event_list_diffs assms by (auto simp: list_all_iff event_list_def)

interpretation events: sorted_table event_comp event_list
proof
  fix i j k
  assume "i < length event_list" "j < i" "event_comp k (event_list ! i) = 0"
  then show "event_comp k (event_list ! j) > 0"
    using event_list_diff(1) [of i j] event_comp_diff [of "event_list ! i" k "event_list ! j"] by simp
next
  fix i j k
  assume "j < length event_list" "i < j" "event_comp k (event_list ! i) = 0"
  then show "event_comp k (event_list ! j) < 0"
    using event_list_diff(2) [of j i] event_comp_diff [of "event_list ! i" k "event_list ! j"] by simp
qed

subsection \<open>Splitting the arguments\<close>

record wtok =
  w_buf :: "char list"
  w_dst :: nat
  w_n :: size_t
  w_last :: char
  w_quoted :: bool
  w_escaped :: bool

definition w_put :: "char \<Rightarrow> wtok \<Rightarrow> wtok result" where
  "w_put x s = rbind (mem_write (w_buf s) (w_dst s) x) (\<lambda>b. Ok (s\<lparr>w_buf := b, w_dst := Suc (w_dst s)\<rparr>))"

definition w_char :: "char \<Rightarrow> wtok \<Rightarrow> wtok result" where
  "w_char c s =
     (if w_quoted s then
        if w_escaped s then w_put c (s\<lparr>w_escaped := False, w_last := c\<rparr>)
        else if c = SQUOTE then Ok (s\<lparr>w_quoted := False\<rparr>)
        else if c = BACKSLASH then Ok (s\<lparr>w_escaped := True\<rparr>)
        else w_put c (s\<lparr>w_last := c\<rparr>)
      else if c = SPACE \<or> c = LF \<or> c = TAB \<or> c = CR then
        rbind (if w_last s \<noteq> NUL then rbind (w_put NUL s) (\<lambda>s. Ok (s\<lparr>w_n := w_n s + 1\<rparr>)) else Ok s)
          (\<lambda>s. Ok (s\<lparr>w_last := NUL\<rparr>))
      else if c = SQUOTE then Ok (s\<lparr>w_quoted := True, w_escaped := False, w_last := c\<rparr>)
      else w_put c (s\<lparr>w_last := c\<rparr>))"

fun w_loop :: "char list \<Rightarrow> wtok \<Rightarrow> wtok result" where
  "w_loop [] s = Ok s"
| "w_loop (c # cs) s = rbind (w_char c s) (w_loop cs)"

definition tokenize :: "block_alloc \<Rightarrow> char list \<Rightarrow> (char list \<times> size_t) result" where
  "tokenize malloc src =
     (case malloc (of_nat (length src) + 1) of
        None \<Rightarrow> Err ENOMEM
      | Some buf \<Rightarrow>
          rbind (mem_write buf 0 NUL) (\<lambda>buf.
          rbind (w_loop src \<lparr>w_buf = buf, w_dst = 0, w_n = 0, w_last = NUL, w_quoted = False,
                             w_escaped = False\<rparr>) (\<lambda>s.
          if w_last s \<noteq> NUL then
            rbind (mem_write (w_buf s) (w_dst s) NUL) (\<lambda>b. Ok (b, w_n s + 1))
          else Ok (w_buf s, w_n s))))"

text \<open>The reference: finished arguments, the current one, and whether one has been begun.\<close>

record vtok =
  v_done :: "char list list"
  v_cur :: "char list"
  v_open :: bool
  v_quoted :: bool
  v_escaped :: bool

definition v_put :: "char \<Rightarrow> vtok \<Rightarrow> vtok" where
  "v_put c v = v\<lparr>v_cur := v_cur v @ [c], v_open := True\<rparr>"

definition v_end :: "vtok \<Rightarrow> vtok" where
  "v_end v = (if v_open v then v\<lparr>v_done := v_done v @ [v_cur v], v_cur := [], v_open := False\<rparr> else v)"

definition v_char :: "char \<Rightarrow> vtok \<Rightarrow> vtok" where
  "v_char c v =
     (if v_quoted v then
        if v_escaped v then v_put c (v\<lparr>v_escaped := False\<rparr>)
        else if c = SQUOTE then v\<lparr>v_quoted := False\<rparr>
        else if c = BACKSLASH then v\<lparr>v_escaped := True\<rparr>
        else v_put c v
      else if c = SPACE \<or> c = LF \<or> c = TAB \<or> c = CR then v_end v
      else if c = SQUOTE then v\<lparr>v_quoted := True, v_escaped := False, v_open := True\<rparr>
      else v_put c v)"

definition v_init :: vtok where
  "v_init = \<lparr>v_done = [], v_cur = [], v_open = False, v_quoted = False, v_escaped = False\<rparr>"

definition event_args :: "char list \<Rightarrow> char list list" where
  "event_args src = v_done (v_end (fold v_char src v_init))"

definition w_rel :: "nat \<Rightarrow> nat \<Rightarrow> wtok \<Rightarrow> vtok \<Rightarrow> bool" where
  "w_rel len n s v \<longleftrightarrow>
     w_dst s = length (flat (v_done v) @ v_cur v) \<and>
     take (w_dst s) (w_buf s) = flat (v_done v) @ v_cur v \<and>
     length (w_buf s) = len + 1 \<and> w_dst s \<le> n \<and> n \<le> len \<and>
     w_n s = of_nat (length (v_done v)) \<and> (w_last s \<noteq> NUL) = v_open v \<and> w_quoted s = v_quoted v \<and>
     w_escaped s = v_escaped v \<and> (\<not> v_open v \<longrightarrow> v_cur v = []) \<and> (v_quoted v \<longrightarrow> v_open v) \<and>
     list_all (\<lambda>t. NUL \<notin> set t) (v_done v) \<and> NUL \<notin> set (v_cur v)"

lemma w_char_rel:
  assumes "w_rel len n s v" "n < len" "c \<noteq> NUL"
  shows "\<exists>s'. w_char c s = Ok s' \<and> w_rel len (Suc n) s' (v_char c v)"
proof -
  have lt: "w_dst s < length (w_buf s)" using assms by (auto simp: w_rel_def)
  have put: "\<exists>b. mem_write (w_buf s) (w_dst s) x = Ok b \<and> length b = length (w_buf s) \<and>
      take (Suc (w_dst s)) b = flat (v_done v) @ v_cur v @ [x]" for x
    using lt assms(1) by (intro exI [of _ "(w_buf s)[w_dst s := x]"])
      (auto simp: mem_simps take_Suc_conv_app_nth w_rel_def)
  from put [of c] obtain b where b: "mem_write (w_buf s) (w_dst s) c = Ok b" "length b = length (w_buf s)"
    "take (Suc (w_dst s)) b = flat (v_done v) @ v_cur v @ [c]" by blast
  from put [of NUL] obtain d where d: "mem_write (w_buf s) (w_dst s) NUL = Ok d" "length d = length (w_buf s)"
    "take (Suc (w_dst s)) d = flat (v_done v) @ v_cur v @ [NUL]" by blast
  show ?thesis
  proof (cases "v_quoted v")
    case True
    then show ?thesis using assms b
      by (cases "v_escaped v"; cases "c = SQUOTE"; cases "c = BACKSLASH")
        (auto simp: w_char_def v_char_def w_put_def v_put_def w_rel_def)
  next
    case False
    then show ?thesis using assms b d
      by (cases "c = SPACE \<or> c = LF \<or> c = TAB \<or> c = CR"; cases "c = SQUOTE"; cases "v_open v")
        (auto simp: w_char_def v_char_def w_put_def v_put_def v_end_def w_rel_def)
  qed
qed

lemma w_loop_rel:
  assumes "w_rel len n s v" "n + length cs \<le> len" "NUL \<notin> set cs"
  shows "\<exists>s'. w_loop cs s = Ok s' \<and> w_rel len (n + length cs) s' (fold v_char cs v)"
  using assms
proof (induction cs arbitrary: n s v)
  case (Cons c cs)
  then obtain s' where "w_char c s = Ok s'" "w_rel len (Suc n) s' (v_char c v)"
    using w_char_rel [OF Cons.prems(1), of c] by auto
  then show ?case using Cons.IH [of "Suc n" s' "v_char c v"] Cons.prems by simp
qed simp

lemma tokenize_spec:
  assumes m: "alloc_ok malloc" and src: "NUL \<notin> set src" "length src < 2 ^ 63"
  shows "list_all (\<lambda>t. NUL \<notin> set t) (event_args src) \<and>
    (if malloc (of_nat (length src) + 1) = None then tokenize malloc src = Err ENOMEM
     else \<exists>rest. tokenize malloc src = Ok (flat (event_args src) @ rest, of_nat (length (event_args src))))"
proof -
  let ?s = "\<lambda>b. \<lparr>w_buf = b, w_dst = 0, w_n = 0, w_last = NUL, w_quoted = False, w_escaped = False\<rparr>"
  let ?v = "fold v_char src v_init"
  have run: "\<exists>s. w_loop src (?s b) = Ok s \<and> w_rel (length src) (length src) s ?v"
    if "length b = length src + 1" for b
    using w_loop_rel [of "length src" 0 "?s b" v_init src] src that
    by (simp add: w_rel_def v_init_def)
  have "w_rel (length src) (length src) (SOME s. w_rel (length src) (length src) s ?v) ?v"
    using run [of "replicate (length src + 1) NUL"] by (auto intro: someI)
  then have nul: "list_all (\<lambda>t. NUL \<notin> set t) (event_args src)"
    by (auto simp: w_rel_def event_args_def v_end_def)
  show ?thesis
  proof (cases "malloc (of_nat (length src) + 1)")
    case (Some b)
    have "unat (of_nat (length src) :: size_t) = length src" using src by (intro unat_of_nat_lt) simp
    then have "unat (of_nat (length src) + 1 :: size_t) = length src + 1"
      using src by (simp add: unat_word_ariths)
    then have b: "length b = length src + 1" using alloc_okD(1) [OF m Some] by simp
    then obtain s where s: "w_loop src (?s (b[0 := NUL])) = Ok s" "w_rel (length src) (length src) s ?v"
      using run [of "b[0 := NUL]"] by auto
    have tok: "tokenize malloc src =
        (if w_last s \<noteq> NUL then rbind (mem_write (w_buf s) (w_dst s) NUL) (\<lambda>b. Ok (b, w_n s + 1))
         else Ok (w_buf s, w_n s))"
      using Some b s(1) by (simp add: tokenize_def mem_simps)
    have buf: "w_buf s = flat (v_done ?v) @ v_cur ?v @ drop (w_dst s) (w_buf s)"
      using s(2) by (metis append.assoc append_take_drop_id w_rel_def)
    show ?thesis
    proof (cases "v_open ?v")
      case True
      have "take (Suc (w_dst s)) ((w_buf s)[w_dst s := NUL]) = flat (v_done ?v) @ v_cur ?v @ [NUL]"
        using s(2) by (auto simp: w_rel_def take_Suc_conv_app_nth)
      then have "(w_buf s)[w_dst s := NUL] =
          (flat (v_done ?v) @ v_cur ?v @ [NUL]) @ drop (Suc (w_dst s)) ((w_buf s)[w_dst s := NUL])"
        by (metis append_take_drop_id)
      then show ?thesis using tok True s(2) nul Some
        by (auto simp: w_rel_def mem_simps event_args_def v_end_def)
    next
      case False
      then show ?thesis using tok s(2) nul Some buf by (auto simp: w_rel_def event_args_def v_end_def)
    qed
  qed (use nul in \<open>simp add: tokenize_def\<close>)
qed

subsection \<open>Reading the arguments\<close>

text \<open>The C string at an offset of a block.\<close>

definition cstr_at :: "char list \<Rightarrow> nat \<Rightarrow> char list result" where
  "cstr_at b off = (if NUL \<in> set (drop off b) then Ok (cstr (drop off b)) else Fault)"

text \<open>
  One conversion \<open>%2x\<close> of \<open>sscanf\<close>: blanks are skipped, then at most two characters are read, a sign
  included; a lone sign and a lone \<open>0x\<close> do not match. The result is the unread rest.
\<close>

definition c_isxdigit :: "char \<Rightarrow> bool" where
  "c_isxdigit c \<longleftrightarrow> c_isdigit c \<or> c \<in> set ''abcdefABCDEF''"

definition scan_2x :: "char list \<Rightarrow> char list option" where
  "scan_2x s =
     (case dropWhile c_isspace s of
        [] \<Rightarrow> None
      | c # cs \<Rightarrow>
          if c = CHR ''+'' \<or> c = CHR ''-'' then
            (case cs of d # ds \<Rightarrow> if c_isxdigit d then Some ds else None | [] \<Rightarrow> None)
          else if c_isxdigit c then
            (case cs of
               d # ds \<Rightarrow> if c = CHR ''0'' \<and> (d = CHR ''x'' \<or> d = CHR ''X'') then None
                         else if c_isxdigit d then Some ds else Some cs
             | [] \<Rightarrow> Some [])
          else None)"

text \<open>\<open>n\<close> such conversions with colons between them.\<close>

fun scan_hex_fields :: "nat \<Rightarrow> char list \<Rightarrow> bool" where
  "scan_hex_fields 0 s = True"
| "scan_hex_fields (Suc n) s =
     (case scan_2x s of
        None \<Rightarrow> False
      | Some r \<Rightarrow> n = 0 \<or> (r \<noteq> [] \<and> hd r = CHR '':'' \<and> scan_hex_fields n (tl r)))"

text \<open>The \<open>strcpy\<close> goes to an array of 18 bytes.\<close>

definition parse_mac :: "char list \<Rightarrow> char list result" where
  "parse_mac src =
     (if length src > 17 then Err EINVAL
      else if \<not> scan_hex_fields 6 src then Err EINVAL
      else if length src + 1 \<le> 18 then Ok src else Fault)"

definition parse_ap_sta_connected :: "char list \<Rightarrow> size_t \<Rightarrow> wpa_payload result" where
  "parse_ap_sta_connected tokens num =
     (if num < 1 then Err EINVAL
      else rbind (cstr_at tokens 0) (\<lambda>t. rbind (parse_mac t) (\<lambda>mac. Ok (Ap_sta_connected mac))))"

definition parse_ap_sta_disconnected :: "char list \<Rightarrow> size_t \<Rightarrow> wpa_payload result" where
  "parse_ap_sta_disconnected tokens num =
     (if num < 1 then Err EINVAL
      else rbind (cstr_at tokens 0) (\<lambda>t. rbind (parse_mac t) (\<lambda>mac. Ok (Ap_sta_disconnected mac))))"

fun device_name_loop :: "block_alloc \<Rightarrow> nat \<Rightarrow> char list \<Rightarrow> nat \<Rightarrow> char list result" where
  "device_name_loop malloc 0 tokens off = Err EINVAL"
| "device_name_loop malloc (Suc n) tokens off =
     rbind (cstr_at tokens off) (\<lambda>t.
     if strncmp t ''name='' 5 \<noteq> 0 then device_name_loop malloc n tokens (off + length t + 1)
     else case strdup malloc (drop 5 t) of None \<Rightarrow> Err ENOMEM | Some s \<Rightarrow> Ok s)"

definition parse_p2p_device_found :: "block_alloc \<Rightarrow> char list \<Rightarrow> size_t \<Rightarrow> wpa_payload result" where
  "parse_p2p_device_found malloc tokens num =
     (if num < 2 then Err EINVAL
      else
        rbind (cstr_at tokens 0) (\<lambda>t.
        rbind (parse_mac t) (\<lambda>mac.
        rbind (device_name_loop malloc (unat num - 1) tokens (length t + 1)) (\<lambda>name.
        Ok (P2p_device_found mac name)))))"

definition parse_role :: "char list \<Rightarrow> wpa_role result" where
  "parse_role s =
     (if s = ''GO'' then Ok OWFD_WPA_EVENT_ROLE_GO
      else if s = ''client'' then Ok OWFD_WPA_EVENT_ROLE_CLIENT
      else Err EINVAL)"

fun go_neg_loop ::
    "nat \<Rightarrow> char list \<Rightarrow> nat \<Rightarrow> wpa_role option \<Rightarrow> char list option \<Rightarrow> wpa_payload result" where
  "go_neg_loop 0 tokens off role peer =
     (case (role, peer) of (Some r, Some m) \<Rightarrow> Ok (P2p_go_neg_success m r) | _ \<Rightarrow> Err EINVAL)"
| "go_neg_loop (Suc n) tokens off role peer =
     rbind (cstr_at tokens off) (\<lambda>t.
     if strncmp t ''role='' 5 = 0 then
       rbind (parse_role (drop 5 t)) (\<lambda>r. go_neg_loop n tokens (off + length t + 1) (Some r) peer)
     else if strncmp t ''peer_dev='' 9 = 0 then
       rbind (parse_mac (drop 9 t)) (\<lambda>m. go_neg_loop n tokens (off + length t + 1) role (Some m))
     else go_neg_loop n tokens (off + length t + 1) role peer)"

definition parse_p2p_go_neg_success :: "char list \<Rightarrow> size_t \<Rightarrow> wpa_payload result" where
  "parse_p2p_go_neg_success tokens num =
     (if num < 2 then Err EINVAL else go_neg_loop (unat num) tokens 0 None None)"

fun go_mac_loop :: "nat \<Rightarrow> char list \<Rightarrow> nat \<Rightarrow> char list result" where
  "go_mac_loop 0 tokens off = Err EINVAL"
| "go_mac_loop (Suc n) tokens off =
     rbind (cstr_at tokens off) (\<lambda>t.
     if strncmp t ''go_dev_addr='' 12 \<noteq> 0 then go_mac_loop n tokens (off + length t + 1)
     else parse_mac (drop 12 t))"

definition parse_p2p_group_started :: "block_alloc \<Rightarrow> char list \<Rightarrow> size_t \<Rightarrow> wpa_payload result" where
  "parse_p2p_group_started malloc tokens num =
     (if num < 3 then Err EINVAL
      else
        rbind (cstr_at tokens 0) (\<lambda>t.
        case strdup malloc t of
          None \<Rightarrow> Err ENOMEM
        | Some ifname \<Rightarrow>
            let off = length t + 1
            in rbind (cstr_at tokens off) (\<lambda>u.
               rbind (parse_role u) (\<lambda>role.
               rbind (go_mac_loop (unat num - 2) tokens (off + length u + 1)) (\<lambda>mac.
               Ok (P2p_group_started mac role ifname))))))"

definition parse_p2p_prov_disc_show_pin :: "block_alloc \<Rightarrow> char list \<Rightarrow> size_t \<Rightarrow> wpa_payload result" where
  "parse_p2p_prov_disc_show_pin malloc tokens num =
     (if num < 2 then Err EINVAL
      else
        rbind (cstr_at tokens 0) (\<lambda>t.
        rbind (parse_mac t) (\<lambda>mac.
        rbind (cstr_at tokens (length t + 1)) (\<lambda>u.
        case strdup malloc u of None \<Rightarrow> Err ENOMEM | Some pin \<Rightarrow> Ok (P2p_prov_disc_show_pin mac pin)))))"

definition parse_p2p_prov_disc_enter_pin :: "char list \<Rightarrow> size_t \<Rightarrow> wpa_payload result" where
  "parse_p2p_prov_disc_enter_pin tokens num =
     (if num < 1 then Err EINVAL
      else rbind (cstr_at tokens 0) (\<lambda>t. rbind (parse_mac t) (\<lambda>mac. Ok (P2p_prov_disc_enter_pin mac))))"

definition parse_p2p_prov_disc_pbc_req :: "char list \<Rightarrow> size_t \<Rightarrow> wpa_payload result" where
  "parse_p2p_prov_disc_pbc_req tokens num =
     (if num < 1 then Err EINVAL
      else rbind (cstr_at tokens 0) (\<lambda>t. rbind (parse_mac t) (\<lambda>mac. Ok (P2p_prov_disc_pbc_req mac))))"

definition parse_p2p_prov_disc_pbc_resp :: "char list \<Rightarrow> size_t \<Rightarrow> wpa_payload result" where
  "parse_p2p_prov_disc_pbc_resp tokens num =
     (if num < 1 then Err EINVAL
      else rbind (cstr_at tokens 0) (\<lambda>t. rbind (parse_mac t) (\<lambda>mac. Ok (P2p_prov_disc_pbc_resp mac))))"

subsection \<open>Parsing an event\<close>

text \<open>
  The priority prefix: \<open>None\<close> when an opening bracket is never closed, otherwise the priority and the
  text after the prefix. \<open>ev->priority\<close> is an \<open>unsigned int\<close>, so the value of \<open>strtoul\<close> is truncated.
\<close>

definition parse_priority :: "char list \<Rightarrow> (u32 \<times> char list) option" where
  "parse_priority event =
     (if event \<noteq> [] \<and> hd event = CHR ''<'' then
        case after_chr (CHR ''>'') event of
          None \<Rightarrow> None
        | Some t \<Rightarrow>
            let (v, e) = strtoul (tl event); p = ucast v :: u32
            in if p \<ge> 5 \<or> length e \<noteq> length t + 1 \<or> event ! 1 = CHR ''='' \<or> event ! 1 = CHR ''-''
               then Some (0, t) else Some (p, t)
      else Some (0, event))"

definition parse_payload ::
    "block_alloc \<Rightarrow> wpa_event_type \<Rightarrow> char list \<Rightarrow> size_t \<Rightarrow> wpa_payload result" where
  "parse_payload malloc type tokens num =
     (case type of
        OWFD_WPA_EVENT_AP_STA_CONNECTED \<Rightarrow> parse_ap_sta_connected tokens num
      | OWFD_WPA_EVENT_AP_STA_DISCONNECTED \<Rightarrow> parse_ap_sta_disconnected tokens num
      | OWFD_WPA_EVENT_P2P_DEVICE_FOUND \<Rightarrow> parse_p2p_device_found malloc tokens num
      | OWFD_WPA_EVENT_P2P_GO_NEG_SUCCESS \<Rightarrow> parse_p2p_go_neg_success tokens num
      | OWFD_WPA_EVENT_P2P_GROUP_STARTED \<Rightarrow> parse_p2p_group_started malloc tokens num
      | OWFD_WPA_EVENT_P2P_PROV_DISC_SHOW_PIN \<Rightarrow> parse_p2p_prov_disc_show_pin malloc tokens num
      | OWFD_WPA_EVENT_P2P_PROV_DISC_ENTER_PIN \<Rightarrow> parse_p2p_prov_disc_enter_pin tokens num
      | OWFD_WPA_EVENT_P2P_PROV_DISC_PBC_REQ \<Rightarrow> parse_p2p_prov_disc_pbc_req tokens num
      | OWFD_WPA_EVENT_P2P_PROV_DISC_PBC_RESP \<Rightarrow> parse_p2p_prov_disc_pbc_resp tokens num
      | _ \<Rightarrow> Ok No_payload)"

text \<open>\<open>M 0\<close>, \<open>M 1\<close> and \<open>M 2\<close> answer the allocations of the raw text, the tokens and the payload.\<close>

definition owfd_wpa_event_parse :: "allocator \<Rightarrow> char list \<Rightarrow> (owfd_wpa_event, unit) op" where
  "owfd_wpa_event_parse M event ev =
     (let ev = owfd_wpa_event_reset ev
      in case parse_priority event of
           None \<Rightarrow> (ev\<lparr>ev_type := OWFD_WPA_EVENT_UNKNOWN\<rparr>, Ok ())
         | Some (prio, t) \<Rightarrow>
             let ev = ev\<lparr>ev_priority := prio\<rparr>
             in case bsearch event_comp t event_list of
                  None \<Rightarrow> (ev\<lparr>ev_type := OWFD_WPA_EVENT_UNKNOWN\<rparr>, Ok ())
                | Some code \<Rightarrow>
                    let ev = ev\<lparr>ev_type := snd code\<rparr>;
                        t = dropWhile (\<lambda>c. c = SPACE) (drop (length (fst code)) t)
                    in case strdup (M 0) t of
                         None \<Rightarrow> (owfd_wpa_event_reset ev, Err ENOMEM)
                       | Some raw \<Rightarrow>
                           let ev = ev\<lparr>ev_raw := Some raw\<rparr>
                           in case tokenize (M 1) raw of
                                Err _ \<Rightarrow> (owfd_wpa_event_reset ev, Err ENOMEM)
                              | Fault \<Rightarrow> (ev, Fault)
                              | Ok (tokens, num) \<Rightarrow>
                                  (case parse_payload (M 2) (ev_type ev) tokens num of
                                     Ok p \<Rightarrow> (ev\<lparr>ev_p := p\<rparr>, Ok ())
                                   | Err e \<Rightarrow> (owfd_wpa_event_reset ev, Err e)
                                   | Fault \<Rightarrow> (ev, Fault)))"

subsection \<open>What the parsers compute\<close>

definition valid_mac :: "char list \<Rightarrow> bool" where
  "valid_mac s \<longleftrightarrow> length s \<le> 17 \<and> scan_hex_fields 6 s"

definition mac_payload :: "(char list \<Rightarrow> wpa_payload) \<Rightarrow> char list list \<Rightarrow> wpa_payload option" where
  "mac_payload f args =
     (case args of m # _ \<Rightarrow> if valid_mac m then Some (f m) else None | [] \<Rightarrow> None)"

text \<open>The value of the first argument that begins with the key.\<close>

definition arg_value :: "char list \<Rightarrow> char list list \<Rightarrow> char list option" where
  "arg_value key args = map_option (drop (length key)) (find (\<lambda>t. take (length key) t = key) args)"

definition role_of :: "char list \<Rightarrow> wpa_role option" where
  "role_of s = (if s = ''GO'' then Some OWFD_WPA_EVENT_ROLE_GO
                else if s = ''client'' then Some OWFD_WPA_EVENT_ROLE_CLIENT else None)"

fun go_neg_of :: "char list list \<Rightarrow> wpa_role option \<Rightarrow> char list option \<Rightarrow> wpa_payload option" where
  "go_neg_of [] role peer =
     (case (role, peer) of (Some r, Some m) \<Rightarrow> Some (P2p_go_neg_success m r) | _ \<Rightarrow> None)"
| "go_neg_of (t # ts) role peer =
     (if take 5 t = ''role='' then
        (case role_of (drop 5 t) of None \<Rightarrow> None | Some r \<Rightarrow> go_neg_of ts (Some r) peer)
      else if take 9 t = ''peer_dev='' then
        (if valid_mac (drop 9 t) then go_neg_of ts role (Some (drop 9 t)) else None)
      else go_neg_of ts role peer)"

text \<open>The payload of an event with the given arguments, \<open>None\<close> when they are not acceptable.\<close>

definition payload_of :: "wpa_event_type \<Rightarrow> char list list \<Rightarrow> wpa_payload option" where
  "payload_of type args =
     (case type of
        OWFD_WPA_EVENT_AP_STA_CONNECTED \<Rightarrow> mac_payload Ap_sta_connected args
      | OWFD_WPA_EVENT_AP_STA_DISCONNECTED \<Rightarrow> mac_payload Ap_sta_disconnected args
      | OWFD_WPA_EVENT_P2P_DEVICE_FOUND \<Rightarrow>
          (case arg_value ''name='' (tl args) of
             None \<Rightarrow> None | Some n \<Rightarrow> mac_payload (\<lambda>m. P2p_device_found m n) args)
      | OWFD_WPA_EVENT_P2P_GO_NEG_SUCCESS \<Rightarrow>
          (if length args < 2 then None else go_neg_of args None None)
      | OWFD_WPA_EVENT_P2P_GROUP_STARTED \<Rightarrow>
          (case args of
             i # r # opts \<Rightarrow>
               (case (role_of r, arg_value ''go_dev_addr='' opts) of
                  (Some role, Some m) \<Rightarrow> if valid_mac m then Some (P2p_group_started m role i) else None
                | _ \<Rightarrow> None)
           | _ \<Rightarrow> None)
      | OWFD_WPA_EVENT_P2P_PROV_DISC_SHOW_PIN \<Rightarrow>
          (case args of _ # pin # _ \<Rightarrow> mac_payload (\<lambda>m. P2p_prov_disc_show_pin m pin) args | _ \<Rightarrow> None)
      | OWFD_WPA_EVENT_P2P_PROV_DISC_ENTER_PIN \<Rightarrow> mac_payload P2p_prov_disc_enter_pin args
      | OWFD_WPA_EVENT_P2P_PROV_DISC_PBC_REQ \<Rightarrow> mac_payload P2p_prov_disc_pbc_req args
      | OWFD_WPA_EVENT_P2P_PROV_DISC_PBC_RESP \<Rightarrow> mac_payload P2p_prov_disc_pbc_resp args
      | _ \<Rightarrow> Some No_payload)"

lemma parse_mac_eq: "parse_mac s = (if valid_mac s then Ok s else Err EINVAL)"
  by (auto simp: parse_mac_def valid_mac_def)

lemma parse_role_eq: "parse_role s = (case role_of s of None \<Rightarrow> Err EINVAL | Some r \<Rightarrow> Ok r)"
  by (simp add: parse_role_def role_of_def)

lemma cstr_at_flat: "NUL \<notin> set t \<Longrightarrow> cstr_at (flat pre @ t @ NUL # rest) (length (flat pre)) = Ok t"
  by (simp add: cstr_at_def)

lemmas cstr_at_0 = cstr_at_flat [where pre = "[]", simplified]
lemmas cstr_at_1 = cstr_at_flat [where pre = "[p]" for p, simplified]

lemma strncmp_key: "NUL \<notin> set key \<Longrightarrow> n = length key \<Longrightarrow> strncmp t key n = 0 \<longleftrightarrow> take n t = key"
  by (simp add: strncmp_prefix)

lemma arg_value_simps [simp]:
  "arg_value key [] = None"
  "arg_value ''name='' (t # ts) = (if take 5 t = ''name='' then Some (drop 5 t) else arg_value ''name='' ts)"
  "arg_value ''go_dev_addr='' (t # ts) =
     (if take 12 t = ''go_dev_addr='' then Some (drop 12 t) else arg_value ''go_dev_addr='' ts)"
  by (simp_all add: arg_value_def eval_nat_numeral)

lemma device_name_loop_spec:
  assumes "list_all (\<lambda>t. NUL \<notin> set t) ts"
  shows "device_name_loop m (length ts) (flat pre @ flat ts @ rest) (length (flat pre)) =
    (case arg_value ''name='' ts of
       None \<Rightarrow> Err EINVAL
     | Some n \<Rightarrow> (case strdup m n of None \<Rightarrow> Err ENOMEM | Some s \<Rightarrow> Ok s))"
  using assms
proof (induction ts arbitrary: pre)
  case (Cons t ts)
  have key: "strncmp t ''name='' 5 = 0 \<longleftrightarrow> take 5 t = ''name=''" by (rule strncmp_key) simp_all
  show ?case using Cons.prems Cons.IH [of "pre @ [t]"]
    by (simp add: cstr_at_flat key)
qed simp

lemma go_mac_loop_spec:
  assumes "list_all (\<lambda>t. NUL \<notin> set t) ts"
  shows "go_mac_loop (length ts) (flat pre @ flat ts @ rest) (length (flat pre)) =
    (case arg_value ''go_dev_addr='' ts of
       Some m \<Rightarrow> if valid_mac m then Ok m else Err EINVAL | None \<Rightarrow> Err EINVAL)"
  using assms
proof (induction ts arbitrary: pre)
  case (Cons t ts)
  have key: "strncmp t ''go_dev_addr='' 12 = 0 \<longleftrightarrow> take 12 t = ''go_dev_addr=''" by (rule strncmp_key) simp_all
  show ?case using Cons.prems Cons.IH [of "pre @ [t]"]
    by (simp add: cstr_at_flat key parse_mac_eq)
qed simp

lemma go_neg_loop_spec:
  assumes "list_all (\<lambda>t. NUL \<notin> set t) ts"
  shows "go_neg_loop (length ts) (flat pre @ flat ts @ rest) (length (flat pre)) role peer =
    (case go_neg_of ts role peer of None \<Rightarrow> Err EINVAL | Some p \<Rightarrow> Ok p)"
  using assms
proof (induction ts arbitrary: pre role peer)
  case (Cons t ts)
  have k1: "strncmp t ''role='' 5 = 0 \<longleftrightarrow> take 5 t = ''role=''" by (rule strncmp_key) simp_all
  have k2: "strncmp t ''peer_dev='' 9 = 0 \<longleftrightarrow> take 9 t = ''peer_dev=''" by (rule strncmp_key) simp_all
  show ?case using Cons.prems Cons.IH [of "pre @ [t]"]
    by (simp add: cstr_at_flat k1 k2 parse_role_eq parse_mac_eq split: option.split)
qed (simp split: option.split)

lemma num_less:
  assumes "length ts < 2 ^ 64" "unat (k :: size_t) = n"
  shows "(of_nat (length ts) :: size_t) < k \<longleftrightarrow> length ts < n"
  using assms unat_of_nat_lt [of "length ts", where ?'a = 64] by (simp add: word_less_nat_alt)

lemma strdup_cases: "strdup m s = None \<or> strdup m s = Some s"
  by (simp add: strdup_def split: option.split)

text \<open>A copy of a part of an argument that finds no memory.\<close>

definition copy_fails :: "block_alloc \<Rightarrow> char list list \<Rightarrow> bool" where
  "copy_fails m args \<longleftrightarrow> (\<exists>t\<in>set args. \<exists>n. strdup m (drop n t) = None)"

lemma copy_failsI: "t \<in> set args \<Longrightarrow> strdup m t = None \<Longrightarrow> copy_fails m args"
  unfolding copy_fails_def by (metis drop0)

lemma arg_value_copy_fails: "arg_value key ts = Some v \<Longrightarrow> strdup m v = None \<Longrightarrow> set ts \<subseteq> set args \<Longrightarrow> copy_fails m args"
  by (auto simp: arg_value_def copy_fails_def find_Some_iff) (metis nth_mem subsetD)

lemma parse_payload_spec:
  assumes nul: "list_all (\<lambda>t. NUL \<notin> set t) args" and len: "length args < 2 ^ 64"
  shows "parse_payload m type (flat args @ rest) (of_nat (length args)) = Err ENOMEM \<and> copy_fails m args \<or>
    parse_payload m type (flat args @ rest) (of_nat (length args)) =
      (case payload_of type args of None \<Rightarrow> Err EINVAL | Some p \<Rightarrow> Ok p)"
proof -
  have n: "(of_nat (length args) :: size_t) < 1 \<longleftrightarrow> length args < 1"
    "(of_nat (length args) :: size_t) < 2 \<longleftrightarrow> length args < 2"
    "(of_nat (length args) :: size_t) < 3 \<longleftrightarrow> length args < 3"
    "unat (of_nat (length args) :: size_t) = length args"
    using num_less [OF len, of 1 1] num_less [OF len, of 2 2] num_less [OF len, of 3 3] len
    by (simp_all add: unat_of_nat_lt)
  note defs = parse_ap_sta_connected_def parse_ap_sta_disconnected_def parse_p2p_prov_disc_enter_pin_def
    parse_p2p_prov_disc_pbc_req_def parse_p2p_prov_disc_pbc_resp_def
  show ?thesis
  proof (cases args)
    case Nil
    then show ?thesis
      by (cases type) (simp_all add: parse_payload_def payload_of_def defs mac_payload_def
          parse_p2p_device_found_def parse_p2p_go_neg_success_def parse_p2p_group_started_def
          parse_p2p_prov_disc_show_pin_def)
  next
    case (Cons a as)
    have nul': "NUL \<notin> set a" "list_all (\<lambda>t. NUL \<notin> set t) as" using nul Cons by auto
    show ?thesis
    proof (cases type)
      case OWFD_WPA_EVENT_P2P_DEVICE_FOUND
      then show ?thesis
        using device_name_loop_spec [OF nul'(2), of m "[a]" rest] n nul' Cons
          strdup_cases [of m "the (arg_value ''name='' as)"] arg_value_copy_fails [of "''name=''" as _ m args]
        by (cases "arg_value ''name='' as"; cases as)
          (auto simp: parse_payload_def payload_of_def parse_p2p_device_found_def cstr_at_0 parse_mac_eq
            mac_payload_def)
    next
      case OWFD_WPA_EVENT_P2P_GO_NEG_SUCCESS
      then show ?thesis
        using go_neg_loop_spec [OF nul, of "[]" rest None None] n
        by (simp add: parse_payload_def payload_of_def parse_p2p_go_neg_success_def)
    next
      case OWFD_WPA_EVENT_P2P_GROUP_STARTED
      show ?thesis
      proof (cases as)
        case Nil
        then show ?thesis using OWFD_WPA_EVENT_P2P_GROUP_STARTED n Cons
          by (simp add: parse_payload_def payload_of_def parse_p2p_group_started_def)
      next
        case (Cons b bs)
        with nul' have nb: "NUL \<notin> set b" "list_all (\<lambda>t. NUL \<notin> set t) bs" by auto
        have "length args < 3 \<longleftrightarrow> bs = []" "unat (of_nat (length args) :: size_t) - 2 = length bs"
          using n(4) \<open>args = a # as\<close> Cons by (cases bs; simp)+
        then show ?thesis
          using OWFD_WPA_EVENT_P2P_GROUP_STARTED go_mac_loop_spec [OF nb(2), of "[a, b]" rest] n(3) nul' nb
            \<open>args = a # as\<close> Cons strdup_cases [of m a] copy_failsI [of a args m]
          by (cases "bs = []")
            (auto simp: parse_payload_def payload_of_def parse_p2p_group_started_def cstr_at_0 cstr_at_1
              parse_role_eq Let_def split: option.splits)
      qed
    next
      case OWFD_WPA_EVENT_P2P_PROV_DISC_SHOW_PIN
      then show ?thesis using n nul' Cons strdup_cases [of m "hd as"] copy_failsI [of "hd as" args m]
        by (cases as)
          (auto simp: parse_payload_def payload_of_def parse_p2p_prov_disc_show_pin_def cstr_at_0 cstr_at_1
            parse_mac_eq mac_payload_def)
    qed (use n nul' Cons in \<open>simp_all add: parse_payload_def payload_of_def defs cstr_at_0 parse_mac_eq
          mac_payload_def\<close>)
  qed
qed

text \<open>
  The event a text denotes: \<open>None\<close> when it is not one of the table, otherwise its type and the text
  after the name and the blanks that follow it.
\<close>

definition event_of :: "char list \<Rightarrow> (wpa_event_type \<times> char list) option" where
  "event_of t =
     map_option (\<lambda>e. (snd e, dropWhile (\<lambda>c. c = SPACE) (drop (length (fst e)) t))) (bsearch event_comp t event_list)"

lemma length_event_args: "length (event_args s) \<le> length s"
proof -
  have "length (v_done (fold v_char s v)) + of_bool (v_open (fold v_char s v)) \<le>
      length s + (length (v_done v) + of_bool (v_open v))" for v
  proof (induction s arbitrary: v)
    case (Cons c s)
    have "length (v_done (v_char c v)) + of_bool (v_open (v_char c v)) \<le> Suc (length (v_done v) + of_bool (v_open v))"
      by (simp add: v_char_def v_put_def v_end_def)
    then show ?case using Cons.IH [of "v_char c v"] by simp
  qed simp
  from this [of v_init] show ?thesis
    by (cases "v_open (fold v_char s v_init)") (simp_all add: event_args_def v_end_def, simp_all add: v_init_def)
qed

lemma length_event_arg:
  assumes "t \<in> set (event_args s)"
  shows "length t \<le> length s"
proof -
  have "\<forall>t\<in>insert (v_cur (fold v_char s v)) (set (v_done (fold v_char s v))). length t \<le> k + length s"
    if "\<forall>t\<in>insert (v_cur v) (set (v_done v)). length t \<le> k" for v k
    using that
  proof (induction s arbitrary: v k)
    case (Cons c s)
    have "\<forall>t\<in>insert (v_cur (v_char c v)) (set (v_done (v_char c v))). length t \<le> Suc k"
      using Cons.prems by (auto simp: v_char_def v_put_def v_end_def)
    from Cons.IH [OF this] show ?case by simp
  qed simp
  from this [of v_init 0] show ?thesis using assms by (auto simp: v_init_def event_args_def v_end_def split: if_splits)
qed

lemma strdup_served: "serves (length s + 1) m \<Longrightarrow> length s < 2 ^ 63 \<Longrightarrow> strdup m s = Some s"
  using servesD [of "length s + 1" m "of_nat (length s + 1)"] unat_of_nat_lt [of "length s + 1", where ?'a = 64]
  by (auto simp: strdup_def)

lemma owfd_wpa_event_parse_cases:
  assumes M: "allocator_ok M" and event: "NUL \<notin> set event" "length event < 2 ^ 63"
    and pr: "parse_priority event = Some (prio, t)" and ev: "event_of t = Some (type, raw)"
  shows "owfd_wpa_event_parse M event ev = (owfd_wpa_event_init, Err ENOMEM) \<and> (\<exists>k. \<not> serves (length event + 1) (M k)) \<or>
    owfd_wpa_event_parse M event ev =
      (case payload_of type (event_args raw) of
         None \<Rightarrow> (owfd_wpa_event_init, Err EINVAL)
       | Some p \<Rightarrow> (\<lparr>ev_type = type, ev_priority = prio, ev_raw = Some raw, ev_p = p\<rparr>, Ok ()))"
proof -
  have t: "set t \<subseteq> set event \<and> length t \<le> length event"
    using pr length_dropWhile_le [of "\<lambda>x. x \<noteq> CHR ''>''" event]
    by (auto simp: parse_priority_def after_chr_def Let_def split: if_splits prod.splits
        dest!: list.set_sel(2) [rotated] set_dropWhileD)
  obtain code where code: "bsearch event_comp t event_list = Some code" "type = snd code"
    "raw = dropWhile (\<lambda>c. c = SPACE) (drop (length (fst code)) t)"
    using ev by (auto simp: event_of_def)
  have raw: "NUL \<notin> set raw" "length raw < 2 ^ 63" and le: "length raw \<le> length event"
    using t event code(3) length_dropWhile_le [of "\<lambda>c. c = SPACE" "drop (length (fst code)) t"]
    by (auto dest!: set_dropWhileD in_set_dropD)
  let ?ev = "\<lparr>ev_type = type, ev_priority = prio, ev_raw = Some raw, ev_p = No_payload\<rparr>"
  have run: "owfd_wpa_event_parse M event ev =
      (case strdup (M 0) raw of
         None \<Rightarrow> (owfd_wpa_event_init, Err ENOMEM)
       | Some _ \<Rightarrow>
           (case tokenize (M 1) raw of
              Err _ \<Rightarrow> (owfd_wpa_event_init, Err ENOMEM)
            | Fault \<Rightarrow> (?ev, Fault)
            | Ok (tokens, num) \<Rightarrow>
                (case parse_payload (M 2) type tokens num of
                   Ok p \<Rightarrow> (?ev\<lparr>ev_p := p\<rparr>, Ok ())
                 | Err e \<Rightarrow> (owfd_wpa_event_init, Err e)
                 | Fault \<Rightarrow> (?ev, Fault))))"
    using pr code strdup_cases [of "M 0" raw]
    by (auto simp: owfd_wpa_event_parse_def owfd_wpa_event_reset_def owfd_wpa_event_init_def Let_def
        split: result.splits prod.splits)
  note tok = tokenize_spec [OF allocator_okD [OF M, of 1] raw]
  have copy: "\<not> serves (length event + 1) m" if "strdup m u = None" "length u \<le> length raw" for m u
    using strdup_served [of u m] serves_mono [of "length event + 1" m "length u + 1"] that raw(2) le by auto
  have toks: "\<not> serves (length event + 1) (M 1)" if "tokenize (M 1) raw = Err ENOMEM"
    using that tok copy [of "M 1" raw] by (auto simp: strdup_def add.commute split: if_splits)
  have pay: "\<not> serves (length event + 1) (M 2)" if fails: "copy_fails (M 2) (event_args raw)"
  proof -
    obtain u n where u: "u \<in> set (event_args raw)" "strdup (M 2) (drop n u) = None" using fails unfolding copy_fails_def by blast
    then show ?thesis using copy [OF u(2)] length_event_arg [OF u(1)] by simp
  qed
  show ?thesis
  proof (cases "strdup (M 0) raw = None \<or> tokenize (M 1) raw = Err ENOMEM")
    case True
    then show ?thesis using run toks copy [of "M 0" raw] by (auto split: option.splits)
  next
    case False
    then obtain rest where "tokenize (M 1) raw = Ok (flat (event_args raw) @ rest, of_nat (length (event_args raw)))"
      using tok by (auto split: if_splits)
    moreover have "length (event_args raw) < 2 ^ 64" using length_event_args [of raw] raw(2) by simp
    ultimately show ?thesis
      using run False parse_payload_spec [of "event_args raw" "M 2" type rest] tok pay
      by (auto split: option.splits)
  qed
qed

subsection \<open>Properties\<close>

lemma owfd_wpa_event_parse_spec:
  assumes "allocator_ok M" and "NUL \<notin> set event" and "length event < 2 ^ 63"
  shows "owfd_wpa_event_parse M event ev = (owfd_wpa_event_init, Err ENOMEM) \<and> (\<exists>k. \<not> serves (length event + 1) (M k)) \<or>
    owfd_wpa_event_parse M event ev =
      (case parse_priority event of
         None \<Rightarrow> (owfd_wpa_event_init, Ok ())
       | Some (prio, t) \<Rightarrow>
           (case event_of t of
              None \<Rightarrow> (owfd_wpa_event_init\<lparr>ev_priority := prio\<rparr>, Ok ())
            | Some (type, raw) \<Rightarrow>
                (case payload_of type (event_args raw) of
                   None \<Rightarrow> (owfd_wpa_event_init, Err EINVAL)
                 | Some p \<Rightarrow>
                     (\<lparr>ev_type = type, ev_priority = prio, ev_raw = Some raw, ev_p = p\<rparr>, Ok ()))))"
proof (cases "parse_priority event")
  case None
  then show ?thesis
    by (simp add: owfd_wpa_event_parse_def owfd_wpa_event_reset_def owfd_wpa_event_init_def)
next
  case (Some pt)
  obtain prio t where pt: "pt = (prio, t)" by fastforce
  show ?thesis
  proof (cases "event_of t")
    case None
    then show ?thesis using Some pt
      by (simp add: owfd_wpa_event_parse_def owfd_wpa_event_reset_def owfd_wpa_event_init_def event_of_def)
  next
    case (Some tr)
    obtain type raw where tr: "tr = (type, raw)" by fastforce
    show ?thesis
      using owfd_wpa_event_parse_cases [OF assms, of prio t type raw ev] \<open>parse_priority event = Some pt\<close> pt Some tr
      by simp
  qed
qed

text \<open>The length bound is that of the buffers.\<close>

lemma owfd_wpa_event_parse_safe:
  assumes "allocator_ok M" and "NUL \<notin> set event" and "length event < 2 ^ 63"
  shows "snd (owfd_wpa_event_parse M event ev) \<noteq> Fault"
  using owfd_wpa_event_parse_spec [OF assms, of ev] by (auto split: option.splits prod.splits)

text \<open>
  The binary search over the table of event names finds an entry exactly when the text begins
  with its name followed by a blank or the end of the text; the table is in the order that the
  search needs, and at most one entry can match.
\<close>

lemma event_lookup_correct:
  "bsearch event_comp t event_list = Some e \<longleftrightarrow>
     e \<in> set event_list \<and> (\<exists>r. t = fst e @ r \<and> (r = [] \<or> hd r = SPACE))"
  unfolding events.bsearch_iff using event_comp_match by blast

text \<open>
  The argument tokenizer stays inside its block of \<open>len + 1\<close> bytes and returns the arguments of
  the text, quotes resolved, each zero-terminated and free of zero bytes, and their number.
\<close>

lemma wpa_tokenize_correct:
  assumes "alloc_ok malloc" and "NUL \<notin> set src" and "length src < 2 ^ 63"
  shows "list_all (\<lambda>t. NUL \<notin> set t) (event_args src) \<and>
    (if malloc (of_nat (length src) + 1) = None then tokenize malloc src = Err ENOMEM
     else \<exists>rest. tokenize malloc src = Ok (flat (event_args src) @ rest, of_nat (length (event_args src))))"
  by (rule tokenize_spec [OF assms])

lemma wpa_tokenize_correct_witness:
  "\<exists>rest. tokenize demo_alloc (''a '' @ [SQUOTE] @ ''b c'' @ [SQUOTE]) = Ok (flat [''a'', ''b c''] @ rest, 2)"
proof -
  have "event_args (''a '' @ [SQUOTE] @ ''b c'' @ [SQUOTE]) = [''a'', ''b c'']" by code_simp
  then show ?thesis
    using wpa_tokenize_correct [OF demo_alloc_ok, of "''a '' @ [SQUOTE] @ ''b c'' @ [SQUOTE]"]
    by (simp add: demo_alloc_def del: flat_simps)
qed

text \<open>
  C4: Parsing an event never accesses memory outside its blocks and leaves either a complete event
  or a cleared one. For an event of the table the result is its type, its priority, the raw text and
  the payload that the arguments denote; unacceptable arguments give \<open>EINVAL\<close>, and the event is
  cleared. Any other text is accepted as an unknown event without raw text and payload. \<open>ENOMEM\<close> is reported, with a cleared event, only when the
  allocator refuses a request of at most the length of the text and one byte.
\<close>

theorem owfd_wpa_event_parse_correct:
  assumes "allocator_ok M" and "NUL \<notin> set event" and "length event < 2 ^ 63"
  shows "owfd_wpa_event_parse M event ev = (owfd_wpa_event_init, Err ENOMEM) \<and> (\<exists>k. \<not> serves (length event + 1) (M k)) \<or>
    owfd_wpa_event_parse M event ev =
      (case parse_priority event of
         None \<Rightarrow> (owfd_wpa_event_init, Ok ())
       | Some (prio, t) \<Rightarrow>
           (case event_of t of
              None \<Rightarrow> (owfd_wpa_event_init\<lparr>ev_priority := prio\<rparr>, Ok ())
            | Some (type, raw) \<Rightarrow>
                (case payload_of type (event_args raw) of
                   None \<Rightarrow> (owfd_wpa_event_init, Err EINVAL)
                 | Some p \<Rightarrow>
                     (\<lparr>ev_type = type, ev_priority = prio, ev_raw = Some raw, ev_p = p\<rparr>, Ok ()))))"
  by (rule owfd_wpa_event_parse_spec [OF assms])

theorem owfd_wpa_event_parse_correct_witness:
  "owfd_wpa_event_parse (\<lambda>_. demo_alloc) ''AP-STA-CONNECTED 0:0:0:0:0:0'' owfd_wpa_event_init =
     (\<lparr>ev_type = OWFD_WPA_EVENT_AP_STA_CONNECTED, ev_priority = 0, ev_raw = Some ''0:0:0:0:0:0'',
       ev_p = Ap_sta_connected ''0:0:0:0:0:0''\<rparr>, Ok ())"
proof -
  have "event_of ''AP-STA-CONNECTED 0:0:0:0:0:0'' = Some (OWFD_WPA_EVENT_AP_STA_CONNECTED, ''0:0:0:0:0:0'')"
    by code_simp
  moreover have "event_args ''0:0:0:0:0:0'' = [''0:0:0:0:0:0'']" by code_simp
  moreover have "valid_mac ''0:0:0:0:0:0''" by code_simp
  moreover have "serves (length ''AP-STA-CONNECTED 0:0:0:0:0:0'' + 1) demo_alloc" by (rule demo_alloc_serves) simp
  ultimately show ?thesis
    using owfd_wpa_event_parse_correct [OF demo_allocator_ok, of "''AP-STA-CONNECTED 0:0:0:0:0:0''"]
    by (simp add: parse_priority_def payload_of_def mac_payload_def)
qed

text \<open>
  The priority of a parsed event is always one of the five priorities, whatever number the
  prefix holds, and a prefix with one digit below five gives that priority.
\<close>

lemma event_priority_bounds:
  "(case parse_priority event of None \<Rightarrow> True | Some (p, t) \<Rightarrow> p < 5) \<and>
   parse_priority (CHR ''<'' # dec_digits n @ CHR ''>'' # t) =
     (if n < 2 ^ 64 \<and> n mod 2 ^ 32 < 5 then Some (of_nat n, t) else Some (0, t))"
proof
  show "case parse_priority event of None \<Rightarrow> True | Some (p, t) \<Rightarrow> p < 5"
    by (auto simp: parse_priority_def Let_def not_le split: option.split prod.split)
next
  let ?e = "CHR ''<'' # dec_digits n @ CHR ''>'' # t"
  have "c_isdigit c \<Longrightarrow> c \<noteq> CHR ''>'' \<and> c \<noteq> CHR ''=''" for c by (auto simp: c_isdigit_def)
  then have d: "\<forall>c\<in>set (dec_digits n). c \<noteq> CHR ''>'' \<and> c \<noteq> CHR ''='' \<and> c \<noteq> CHR ''-''"
    using dec_digits_isdigit digit_facts by blast
  then have "dropWhile (\<lambda>x. x \<noteq> CHR ''>'') ?e = CHR ''>'' # t" by (simp add: dropWhile_append)
  then have after: "after_chr (CHR ''>'') ?e = Some t" by (simp add: after_chr_def)
  have first: "?e ! 1 \<noteq> CHR ''=''" "?e ! 1 \<noteq> CHR ''-''"
    using d dec_digits_not_Nil [of n] by (cases "dec_digits n"; simp)+
  have num: "strtoul (tl ?e) = (if n \<ge> 2 ^ 64 then - 1 else of_nat n, CHR ''>'' # t)"
    using strtoul_digits_suffix [of "[]" "CHR ''>'' # t" n] by (simp add: c_isdigit_def)
  show "parse_priority ?e = (if n < 2 ^ 64 \<and> n mod 2 ^ 32 < 5 then Some (of_nat n, t) else Some (0, t))"
  proof (cases "n < 2 ^ 64")
    case True
    have "(ucast (of_nat n :: 64 word) :: u32) = of_nat n"
      using True by (intro word_unat_eq_iff [THEN iffD2]) (simp add: unat_of_nat unsigned_ucast_eq take_bit_eq_mod)
    moreover have "(5 :: u32) \<le> of_nat n \<longleftrightarrow> 5 \<le> n mod 2 ^ 32"
      by (simp add: word_le_nat_alt unat_of_nat take_bit_eq_mod)
    ultimately show ?thesis using True after first num by (auto simp: parse_priority_def)
  next
    case False
    have "(5 :: u32) \<le> ucast (- 1 :: 64 word)" by code_simp
    then show ?thesis using False after num by (simp add: parse_priority_def)
  qed
qed

end
