(* ===== verification/Loops.thy ===== *)
theory Loops
  imports Wp
begin

text \<open>
  Operations that may run for ever: \<open>None\<close> is the outcome of a run that does not end. A loop repeats a round, an
  operation that tells whether it is done and what it carries into the next round.

  \<open>ends\<close> is total correctness (the operation returns and the postcondition holds), \<open>safe\<close> is partial correctness
  with the same postconditions, for statements that do not depend on the progress of time.
\<close>

type_synonym ('s, 'a) lop = "'s \<Rightarrow> ('s \<times> 'a result) option"

definition olift :: "('s, 'a) op \<Rightarrow> ('s, 'a) lop" where
  "olift m s = Some (m s)"

definition obind :: "('s, 'a) lop \<Rightarrow> ('a \<Rightarrow> ('s, 'b) lop) \<Rightarrow> ('s, 'b) lop" where
  "obind m f s =
     (case m s of
        None \<Rightarrow> None
      | Some (s', Ok x) \<Rightarrow> f x s'
      | Some (s', Err e) \<Rightarrow> Some (s', Err e)
      | Some (s', Fault) \<Rightarrow> Some (s', Fault))"

definition oattempt :: "('s, 'a) lop \<Rightarrow> ('s, errno + 'a) lop" where
  "oattempt m s =
     (case m s of
        None \<Rightarrow> None
      | Some (s', Ok x) \<Rightarrow> Some (s', Ok (Inr x))
      | Some (s', Err e) \<Rightarrow> Some (s', Ok (Inl e))
      | Some (s', Fault) \<Rightarrow> Some (s', Fault))"

partial_function (option) until_done :: "('c \<Rightarrow> ('s, bool \<times> 'c) lop) \<Rightarrow> 'c \<Rightarrow> ('s, 'c) lop" where
  "until_done round c s =
     (case round c s of
        None \<Rightarrow> None
      | Some (s', Ok (finished, c')) \<Rightarrow> if finished then Some (s', Ok c') else until_done round c' s'
      | Some (s', Err e) \<Rightarrow> Some (s', Err e)
      | Some (s', Fault) \<Rightarrow> Some (s', Fault))"

definition safe :: "('s, 'a) lop \<Rightarrow> ('a result \<Rightarrow> 's \<Rightarrow> bool) \<Rightarrow> 's \<Rightarrow> bool" where
  "safe m Q s = (case m s of None \<Rightarrow> True | Some (s', r) \<Rightarrow> Q r s')"

definition ends :: "('s, 'a) lop \<Rightarrow> ('a result \<Rightarrow> 's \<Rightarrow> bool) \<Rightarrow> 's \<Rightarrow> bool" where
  "ends m Q s = (case m s of None \<Rightarrow> False | Some (s', r) \<Rightarrow> Q r s')"

text \<open>The continuation of a sequence.\<close>

definition next_safe :: "('a \<Rightarrow> ('s, 'b) lop) \<Rightarrow> ('b result \<Rightarrow> 's \<Rightarrow> bool) \<Rightarrow> 'a result \<Rightarrow> 's \<Rightarrow> bool" where
  "next_safe f Q r s = (case r of Ok x \<Rightarrow> safe (f x) Q s | Err e \<Rightarrow> Q (Err e) s | Fault \<Rightarrow> Q Fault s)"

definition next_ends :: "('a \<Rightarrow> ('s, 'b) lop) \<Rightarrow> ('b result \<Rightarrow> 's \<Rightarrow> bool) \<Rightarrow> 'a result \<Rightarrow> 's \<Rightarrow> bool" where
  "next_ends f Q r s = (case r of Ok x \<Rightarrow> ends (f x) Q s | Err e \<Rightarrow> Q (Err e) s | Fault \<Rightarrow> Q Fault s)"

named_theorems lop_simps "preconditions of operations that may not end"

lemma next_simps [lop_simps]:
  "next_safe f Q (Ok x) s = safe (f x) Q s" "next_safe f Q (Err e) s = Q (Err e) s" "next_safe f Q Fault s = Q Fault s"
  "next_ends f Q (Ok x) s = ends (f x) Q s" "next_ends f Q (Err e) s = Q (Err e) s" "next_ends f Q Fault s = Q Fault s"
  by (simp_all add: next_safe_def next_ends_def)

lemma safe_simps [lop_simps]:
  "safe (olift m) Q s = wp m Q s" "safe (obind n f) Q s = safe n (next_safe f Q) s"
  "safe (oattempt n') Q' s = safe n' (\<lambda>r s'. case r of Ok x \<Rightarrow> Q' (Ok (Inr x)) s' | Err e \<Rightarrow> Q' (Ok (Inl e)) s' | Fault \<Rightarrow> Q' Fault s') s"
  by (simp_all add: safe_def olift_def obind_def oattempt_def wp_def next_safe_def split: option.splits prod.splits result.splits)

lemma ends_simps [lop_simps]:
  "ends (olift m) Q s = wp m Q s" "ends (obind n f) Q s = ends n (next_ends f Q) s"
  "ends (oattempt n') Q' s = ends n' (\<lambda>r s'. case r of Ok x \<Rightarrow> Q' (Ok (Inr x)) s' | Err e \<Rightarrow> Q' (Ok (Inl e)) s' | Fault \<Rightarrow> Q' Fault s') s"
  by (simp_all add: ends_def olift_def obind_def oattempt_def wp_def next_ends_def split: option.splits prod.splits result.splits)

lemma safe_mono: "safe m Q s \<Longrightarrow> (\<And>r s'. Q r s' \<Longrightarrow> Q' r s') \<Longrightarrow> safe m Q' s"
  by (auto simp: safe_def split: option.splits)

lemma safe_obindI: "safe m R s \<Longrightarrow> (\<And>r s'. R r s' \<Longrightarrow> next_safe f Q r s') \<Longrightarrow> safe (obind m f) Q s"
  unfolding safe_simps by (rule safe_mono)

lemma ends_mono: "ends m Q s \<Longrightarrow> (\<And>r s'. Q r s' \<Longrightarrow> Q' r s') \<Longrightarrow> ends m Q' s"
  by (auto simp: ends_def split: option.splits)

lemma ends_and_safe: "ends m Q s \<Longrightarrow> safe m Q' s \<Longrightarrow> ends m (\<lambda>r s'. Q r s' \<and> Q' r s') s"
  by (auto simp: ends_def safe_def split: option.splits)

lemma ends_iff: "ends m Q s \<longleftrightarrow> (\<exists>s' r. m s = Some (s', r) \<and> Q r s')"
  by (auto simp: ends_def split: option.splits)

lemma safe_iff: "safe m Q s \<longleftrightarrow> (\<forall>s' r. m s = Some (s', r) \<longrightarrow> Q r s')"
  by (auto simp: safe_def split: option.splits)

text \<open>What the next round needs, or the postcondition when the loop is left.\<close>

definition round_post :: "('c \<Rightarrow> 's \<Rightarrow> bool) \<Rightarrow> ('c result \<Rightarrow> 's \<Rightarrow> bool) \<Rightarrow> (bool \<times> 'c) result \<Rightarrow> 's \<Rightarrow> bool" where
  "round_post I Q r s = (case r of Ok (finished, c) \<Rightarrow> if finished then Q (Ok c) s else I c s | Err e \<Rightarrow> Q (Err e) s | Fault \<Rightarrow> Q Fault s)"

lemma round_post_simps [wp_simps]:
  "round_post I Q (Ok (True, c)) s = Q (Ok c) s" "round_post I Q (Ok (False, c)) s = I c s"
  "round_post I Q (Err e) s = Q (Err e) s" "round_post I Q Fault s = Q Fault s"
  "round_post I Q (Ok (b, c)) s = (if b then Q (Ok c) s else I c s)"
  by (simp_all add: round_post_def)

text \<open>One round of the loop.\<close>

lemma until_done_unroll:
  "ends (until_done round c) Q s = ends (round c) (round_post (\<lambda>c s. ends (until_done round c) Q s) Q) s"
  "safe (until_done round c) Q s = safe (round c) (round_post (\<lambda>c s. safe (until_done round c) Q s) Q) s"
  by (auto simp: ends_def safe_def round_post_def until_done.simps [of round c s] split: option.splits prod.splits result.splits)

lemma until_done_safe:
  fixes round :: "'c \<Rightarrow> ('s, bool \<times> 'c) lop"
  assumes round: "\<And>c s. I c s \<Longrightarrow> safe (round c) (round_post I Q) s" and "I c s"
  shows "safe (until_done round c) Q s"
proof -
  have "rnd = round \<longrightarrow> I c s \<longrightarrow> Q (snd y) (fst y)" if "until_done rnd c s = Some y" for rnd c s y
    using that
  proof (rule until_done.raw_induct [where P = "\<lambda>rnd c s y. rnd = round \<longrightarrow> I c s \<longrightarrow> Q (snd y) (fst y)", rotated])
    fix loop :: "('c \<Rightarrow> ('s, bool \<times> 'c) lop) \<Rightarrow> 'c \<Rightarrow> ('s, 'c) lop" and rnd c s y
    assume rest: "\<And>rnd c s y. loop rnd c s = Some y \<Longrightarrow> rnd = round \<longrightarrow> I c s \<longrightarrow> Q (snd y) (fst y)"
      and y: "(case rnd c s of None \<Rightarrow> None
        | Some (s', Ok (finished, c')) \<Rightarrow> if finished then Some (s', Ok c') else loop rnd c' s'
        | Some (s', Err e) \<Rightarrow> Some (s', Err e) | Some (s', Fault) \<Rightarrow> Some (s', Fault)) = Some y"
    show "rnd = round \<longrightarrow> I c s \<longrightarrow> Q (snd y) (fst y)"
    proof (intro impI)
      assume "rnd = round" "I c s"
      with round [OF this(2)] y rest show "Q (snd y) (fst y)"
        by (auto simp: safe_def round_post_def split: option.splits prod.splits result.splits if_splits)
    qed
  qed
  then show ?thesis using assms(2) by (auto simp: safe_iff)
qed

lemma until_done_ends:
  fixes m :: "'c \<Rightarrow> nat"
  assumes round: "\<And>c s. I c s \<Longrightarrow> ends (round c) (round_post (\<lambda>c' s'. I c' s' \<and> m c' < m c) Q) s" and "I c s"
  shows "ends (until_done round c) Q s"
  using assms(2)
proof (induction "m c" arbitrary: c s rule: less_induct)
  case less
  note step = until_done.simps [of round c s]
  obtain s' r where r: "round c s = Some (s', r)" "round_post (\<lambda>c' s'. I c' s' \<and> m c' < m c) Q r s'"
    using round [OF less.prems] by (auto simp: ends_iff)
  show ?case
  proof (cases r)
    case (Ok x)
    obtain finished c' where x: "x = (finished, c')" by (cases x)
    show ?thesis
    proof (cases finished)
      case False
      then have "I c' s'" "m c' < m c" using r(2) by (simp_all add: Ok x round_post_def)
      then have "ends (until_done round c') Q s'" by (intro less.hyps)
      then show ?thesis using False by (simp add: ends_def step r(1) Ok x)
    qed (use r(2) in \<open>simp add: ends_def step r(1) Ok x round_post_def\<close>)
  qed (use r(2) in \<open>simp_all add: ends_def step r(1) round_post_def\<close>)
qed

subsection \<open>Operations that return\<close>

definition returns :: "('s, 'a) lop \<Rightarrow> bool" where
  "returns m \<longleftrightarrow> (\<forall>s. m s \<noteq> None)"

named_theorems returning "operations that return"

lemma returnsD: "returns m \<Longrightarrow> ends m (\<lambda>_ _. True) s"
  by (auto simp: returns_def ends_def split: option.split)

lemma returnsI: "(\<And>s. ends m (\<lambda>_ _. True) s) \<Longrightarrow> returns m"
  unfolding returns_def ends_iff by fastforce

lemma returns_olift [returning]: "returns (olift m)"
  by (simp add: returns_def olift_def)

lemma returns_obind [returning]: "returns m \<Longrightarrow> (\<And>x. returns (f x)) \<Longrightarrow> returns (obind m f)"
  by (auto simp: returns_def obind_def split: option.splits result.splits)

lemma returns_oattempt [returning]: "returns m \<Longrightarrow> returns (oattempt m)"
  by (auto simp: returns_def oattempt_def split: option.splits result.splits)

lemma returns_cases [returning]:
  "returns m \<Longrightarrow> returns m' \<Longrightarrow> returns (if b then m else m')"
  "(\<And>e. returns (f e)) \<Longrightarrow> (\<And>x. returns (g x)) \<Longrightarrow> returns (case r of Inl e \<Rightarrow> f e | Inr x \<Rightarrow> g x)"
  "returns m \<Longrightarrow> (\<And>x. returns (g x)) \<Longrightarrow> returns (case p of None \<Rightarrow> m | Some x \<Rightarrow> g x)"
  by (simp_all split: sum.split option.split)

end
