(* ===== verification/Wpa_Ctrl.thy ===== *)
theory Wpa_Ctrl
  imports Kernel Loops
begin

text \<open>
  The control channel to wpa_supplicant of \<open>src/wpa_ctrl.c\<close>: one datagram socket for requests and their replies, one for
  events, a timer that pings the peer, all watched by one epoll instance. The state contains the part of the kernel
  that the channel changes and the socket files it has bound. Requests and the reading of events are loops that end when the peer
  or the clock lets them, so their operations are those of the theory \<open>Loops\<close>.
\<close>

unbundle bit_operations_syntax

subsection \<open>State\<close>

text \<open>
  \<open>wc_timer\<close> is the interval of the timer, zero when it is disarmed. \<open>bound\<close> are the files of the bound sockets.
  \<open>wc_seen\<close> are the events given to callbacks and \<open>wc_sent\<close> the datagrams sent.
\<close>

record wpa_ctrl = kernel +
  wc_ref :: "64 word"
  wc_data :: nat
  wc_mask :: nat
  wc_efd :: int
  wc_tfd :: int
  req_fd :: int
  req_name :: "char list"
  ev_fd :: int
  ev_name :: "char list"
  wc_cb :: "nat option"
  wc_timer :: "int \<times> int"
  bound :: "char list set"
  wc_seen :: "(nat \<times> char list) list"
  wc_sent :: "(int \<times> char list) list"

type_synonym ('z, 'a) wop = "('z wpa_ctrl_scheme, 'a) op"
type_synonym ('z, 'a) wlop = "('z wpa_ctrl_scheme, 'a) lop"

text \<open>
  A callback is an operation of the client on a state that extends the channel.
\<close>

type_synonym 'z wpa_handlers = "nat \<Rightarrow> char list \<Rightarrow> ('z, unit) wlop"

datatype wpa_sock = Req | Ev

fun sock_fd :: "wpa_sock \<Rightarrow> 'z wpa_ctrl_scheme \<Rightarrow> int" where
  "sock_fd Req = req_fd"
| "sock_fd Ev = ev_fd"

fun set_sock_fd :: "wpa_sock \<Rightarrow> int \<Rightarrow> 'z wpa_ctrl_scheme \<Rightarrow> 'z wpa_ctrl_scheme" where
  "set_sock_fd Req fd s = s\<lparr>req_fd := fd\<rparr>"
| "set_sock_fd Ev fd s = s\<lparr>ev_fd := fd\<rparr>"

fun sock_name :: "wpa_sock \<Rightarrow> 'z wpa_ctrl_scheme \<Rightarrow> char list" where
  "sock_name Req = req_name"
| "sock_name Ev = ev_name"

fun set_sock_name :: "wpa_sock \<Rightarrow> char list \<Rightarrow> 'z wpa_ctrl_scheme \<Rightarrow> 'z wpa_ctrl_scheme" where
  "set_sock_name Req n s = s\<lparr>req_name := n\<rparr>"
| "set_sock_name Ev n s = s\<lparr>ev_name := n\<rparr>"

abbreviation (input) WATCH :: u32 where "WATCH \<equiv> 0x19"
abbreviation (input) EADDRINUSE :: errno where "EADDRINUSE \<equiv> ESYS 98"
abbreviation (input) REQ_REPLY_MAX :: nat where "REQ_REPLY_MAX \<equiv> 512"

subsection \<open>Creation and references\<close>

definition owfd_wpa_ctrl_new :: "answers \<Rightarrow> bool \<Rightarrow> kernel \<Rightarrow> kernel \<times> wpa_ctrl result" where
  "owfd_wpa_ctrl_new K mem k =
     (if \<not> mem then (k, Err ENOMEM)
      else
        case
          sbind (sys_open K) (\<lambda>efd.
          close_on_error efd (
            sbind (sys_open K) (\<lambda>tfd.
            close_on_error tfd (
              sbind (epoll_add K tfd WATCH) (\<lambda>_.
              sret (efd, tfd)))))) k
        of
          (k, Ok (efd, tfd)) \<Rightarrow>
            (k, Ok (kernel.extend k \<lparr>wc_ref = 1, wc_data = 0, wc_mask = 0, wc_efd = efd, wc_tfd = tfd, req_fd = - 1, req_name = [],
              ev_fd = - 1, ev_name = [], wc_cb = None, wc_timer = (0, 0), bound = {}, wc_seen = [], wc_sent = []\<rparr>))
        | (k, Err e) \<Rightarrow> (k, Err e)
        | (k, Fault) \<Rightarrow> (k, Fault))"

definition owfd_wpa_ctrl_ref :: "('z, unit) wop" where
  "owfd_wpa_ctrl_ref = sbind (sget wc_ref) (\<lambda>n. if n = 0 then sret () else smod (\<lambda>s. s\<lparr>wc_ref := n + 1\<rparr>))"

definition owfd_wpa_ctrl_set_data :: "nat \<Rightarrow> ('z, unit) wop" where
  "owfd_wpa_ctrl_set_data d = smod (\<lambda>s. s\<lparr>wc_data := d\<rparr>)"

definition owfd_wpa_ctrl_set_sigmask :: "nat \<Rightarrow> ('z, unit) wop" where
  "owfd_wpa_ctrl_set_sigmask m = smod (\<lambda>s. s\<lparr>wc_mask := m\<rparr>)"

definition owfd_wpa_ctrl_is_open :: "'z wpa_ctrl_scheme \<Rightarrow> bool" where
  "owfd_wpa_ctrl_is_open s \<longleftrightarrow> ev_fd s \<ge> 0"

subsection \<open>Sockets\<close>

definition sys_unlink :: "char list \<Rightarrow> ('z, unit) wop" where
  "sys_unlink name = smod (\<lambda>s. s\<lparr>bound := bound s - {name}\<rparr>)"

text \<open>
  The name is what \<open>mktemp\<close> makes of the template with the process id and the counter of bound sockets, of which \<open>snprintf\<close> keeps the first
  106 characters (\<open>UNIX_PATH_MAX - 1\<close> bytes with the zero); it fits into \<open>sun_path\<close>. A name that is
  in use is removed and tried once more.
\<close>

definition temp_name :: "answer \<Rightarrow> char list" where
  "temp_name a = take 106 (a_bytes a)"

definition bind_socket :: "answers \<Rightarrow> int \<Rightarrow> wpa_sock \<Rightarrow> ('z, unit) wop" where
  "bind_socket K fd sock =
     sbind (sys_call K) (\<lambda>a.
     sbind (smod (set_sock_name sock (temp_name a))) (\<lambda>_.
     sbind (sys_use fd) (\<lambda>_.
     sbind (attempt (sys K)) (\<lambda>r.
     sbind
       (case r of
          Inl e \<Rightarrow>
            if e = EADDRINUSE then
              sbind (sys_unlink (temp_name a)) (\<lambda>_.
              sbind (sys K) (\<lambda>_. sret ()))
            else serr e
        | Inr _ \<Rightarrow> sret ()) (\<lambda>_.
     smod (\<lambda>s. s\<lparr>bound := insert (temp_name a) (bound s)\<rparr>))))))"

text \<open>
  The 108 bytes of the address that \<open>connect_socket\<close> makes of the path, which is a string without zero bytes.
\<close>

definition strncpy :: "char list \<Rightarrow> nat \<Rightarrow> char list" where
  "strncpy src n = take n (src @ replicate n NUL)"

definition sun_path :: "char list \<Rightarrow> char list result" where
  "sun_path ctrl_path =
     (if take 10 ctrl_path = ''@abstract:'' then
        if length ctrl_path > 108 - 2 then Err EINVAL
        else Ok ([NUL] @ strncpy (drop 10 ctrl_path) 106 @ [NUL])
      else
        if length ctrl_path > 108 - 1 then Err EINVAL
        else Ok (strncpy ctrl_path 107 @ [NUL]))"

definition connect_socket :: "answers \<Rightarrow> int \<Rightarrow> char list \<Rightarrow> ('z, unit) wop" where
  "connect_socket K fd ctrl_path =
     sbind (slift (sun_path ctrl_path)) (\<lambda>_. sbind (sys_use fd) (\<lambda>_. sbind (sys K) (\<lambda>_. sret ())))"

definition unlink_on_error :: "wpa_sock \<Rightarrow> ('z, 'a) wop \<Rightarrow> ('z, 'a) wop" where
  "unlink_on_error sock m =
     sbind (attempt m) (\<lambda>r.
     case r of
       Inl e \<Rightarrow> sbind (sget (sock_name sock)) (\<lambda>name. sbind (sys_unlink name) (\<lambda>_. serr e))
     | Inr x \<Rightarrow> sret x)"

definition open_socket :: "answers \<Rightarrow> wpa_sock \<Rightarrow> char list \<Rightarrow> ('z, int) wop" where
  "open_socket K sock ctrl_path =
     sbind (sys_open K) (\<lambda>fd.
     close_on_error fd (
       sbind (bind_socket K fd sock) (\<lambda>_.
       unlink_on_error sock (
         sbind (connect_socket K fd ctrl_path) (\<lambda>_.
         sbind (epoll_add K fd WATCH) (\<lambda>_.
         sret fd))))))"

text \<open>What \<open>epoll_ctl\<close> returns is not looked at.\<close>

definition close_socket :: "answers \<Rightarrow> wpa_sock \<Rightarrow> ('z, unit) wop" where
  "close_socket K sock =
     sbind (sget (sock_fd sock)) (\<lambda>fd.
     sbind (attempt (epoll_del K fd)) (\<lambda>_.
     sbind (sget (sock_name sock)) (\<lambda>name.
     sbind (sys_unlink name) (\<lambda>_.
     sbind (sys_close fd) (\<lambda>_.
     smod (set_sock_fd sock (- 1)))))))"

definition arm_timer :: "answers \<Rightarrow> int \<Rightarrow> ('z, unit) wop" where
  "arm_timer K usecs =
     sbind (sget wc_tfd) (\<lambda>fd.
     sbind (sys_use fd) (\<lambda>_.
     sbind (sys K) (\<lambda>_.
     smod (\<lambda>s. s\<lparr>wc_timer := us_to_timespec usecs\<rparr>))))"

definition disarm_timer :: "answers \<Rightarrow> ('z, unit) wop" where
  "disarm_timer K = sbind (attempt (arm_timer K 0)) (\<lambda>_. sret ())"

subsection \<open>Requests\<close>

text \<open>
  The end of a round: the time since the start is subtracted from the remaining timeout, and the loop ends when there
  is none left. \<open>x\<close> is what the round has received.
\<close>

definition recalculate :: "int \<Rightarrow> int \<Rightarrow> bool \<Rightarrow> 'x \<Rightarrow> ('z, (bool \<times> int \<times> 'x)) wop" where
  "recalculate start timeout finished x =
     sbind get_time_us (\<lambda>now.
     let t = timeout - (now - start) in
     if t \<le> 0 then if \<not> finished then serr ETIMEDOUT else sret (True, 0, x)
     else sret (finished, t, x))"

text \<open>Waiting for the socket; the result tells whether it is worth trying.\<close>

definition wait_socket :: "answers \<Rightarrow> int \<Rightarrow> int \<Rightarrow> ('z, bool) wop" where
  "wait_socket K fd timeout =
     sbind (attempt (sys_ppoll K fd (timespec_us (us_to_timespec timeout)))) (\<lambda>r.
     case r of
       Inl e \<Rightarrow> if e \<noteq> EAGAIN then serr e else sret False
     | Inr None \<Rightarrow> serr ETIMEDOUT
     | Inr (Some revents) \<Rightarrow> if revents AND (EPOLLHUP OR EPOLLERR) \<noteq> 0 then serr EPIPE else sret True)"

text \<open>A send or receive that may have to be repeated.\<close>

definition again :: "('z, 'a) wop \<Rightarrow> ('z, 'a option) wop" where
  "again m = sbind (attempt m) (\<lambda>r. case r of Inl e \<Rightarrow> if e \<noteq> EAGAIN \<and> e \<noteq> EINTR then serr e else sret None | Inr x \<Rightarrow> sret (Some x))"

definition send_round :: "answers \<Rightarrow> int \<Rightarrow> char list \<Rightarrow> int \<Rightarrow> int \<times> unit \<Rightarrow> ('z, (bool \<times> int \<times> unit)) wop" where
  "send_round K fd cmd start c =
     sbind (wait_socket K fd (fst c)) (\<lambda>try.
     sbind
       (if \<not> try then sret False
        else
          sbind (again (sys_write K fd cmd)) (\<lambda>l.
          case l of
            None \<Rightarrow> sret False
          | Some l \<Rightarrow>
              if l > 0 then sbind (smod (\<lambda>s. s\<lparr>wc_sent := wc_sent s @ [(fd, take l cmd)]\<rparr>)) (\<lambda>_. sret True) else sret False)) (\<lambda>finished.
     recalculate start (fst c) finished ()))"

definition timed_send :: "answers \<Rightarrow> int \<Rightarrow> char list \<Rightarrow> int \<Rightarrow> ('z, (int \<times> unit)) wlop" where
  "timed_send K fd cmd timeout =
     obind (olift get_time_us) (\<lambda>start. until_done (\<lambda>c. olift (send_round K fd cmd start c)) (timeout, ()))"

text \<open>\<open>cap\<close> is the size of the buffer for the reply. Datagrams that begin with \<open><\<close> are events and skipped.\<close>

definition recv_round :: "answers \<Rightarrow> int \<Rightarrow> nat \<Rightarrow> int \<Rightarrow> int \<times> char list \<Rightarrow> ('z, (bool \<times> int \<times> char list)) wop" where
  "recv_round K fd cap start c =
     sbind (wait_socket K fd (fst c)) (\<lambda>try.
     sbind
       (if \<not> try then sret None
        else
          sbind (again (sys_read K fd cap)) (\<lambda>bs.
          case bs of
            None \<Rightarrow> sret None
          | Some bs \<Rightarrow> if bs \<noteq> [] \<and> hd bs \<noteq> CHR ''<'' then sret (Some bs) else sret None)) (\<lambda>reply.
     recalculate start (fst c) (reply \<noteq> None) (case reply of None \<Rightarrow> [] | Some bs \<Rightarrow> bs)))"

definition timed_recv :: "answers \<Rightarrow> int \<Rightarrow> nat \<Rightarrow> int \<Rightarrow> ('z, (int \<times> char list)) wlop" where
  "timed_recv K fd cap timeout =
     obind (olift get_time_us) (\<lambda>start. until_done (\<lambda>c. olift (recv_round K fd cap start c)) (timeout, []))"

definition wpa_request :: "answers \<Rightarrow> int \<Rightarrow> char list \<Rightarrow> nat \<Rightarrow> int option \<Rightarrow> ('z, char list) wlop" where
  "wpa_request K fd cmd cap t2 =
     (if fd < 0 then olift (serr ENODEV)
      else
        let t = (case t2 of None \<Rightarrow> - 1 | Some t \<Rightarrow> t);
            t = (if t < 0 \<or> t > 10 * 1000 * 1000 then 10 * 1000 * 1000 else t)
        in
        obind (timed_send K fd cmd t) (\<lambda>c.
        obind (timed_recv K fd cap (fst c)) (\<lambda>c.
        olift (sret (snd c)))))"

definition wpa_request_ok :: "answers \<Rightarrow> int \<Rightarrow> char list \<Rightarrow> int option \<Rightarrow> ('z, unit) wlop" where
  "wpa_request_ok K fd cmd t =
     obind (wpa_request K fd cmd REQ_REPLY_MAX t) (\<lambda>reply.
     olift (if reply \<noteq> ''OK'' @ [LF] then serr EINVAL else sret ()))"

subsection \<open>Opening and closing\<close>

text \<open>
  The error path of \<open>owfd_wpa_ctrl_open\<close> leaves in the descriptor what \<open>open_socket\<close> returned, a negative error number.
\<close>

definition detach :: "answers \<Rightarrow> ('z, unit) wlop" where
  "detach K =
     obind (olift (sget ev_fd)) (\<lambda>fd.
     obind (oattempt (wpa_request K fd ''DETACH'' REQ_REPLY_MAX (Some 0))) (\<lambda>_. olift (sret ())))"

definition try_open_socket :: "answers \<Rightarrow> wpa_sock \<Rightarrow> char list \<Rightarrow> ('z, (errno + unit)) wop" where
  "try_open_socket K sock ctrl_path =
     sbind (attempt (open_socket K sock ctrl_path)) (\<lambda>r.
     case r of
       Inl e \<Rightarrow> sbind (smod (set_sock_fd sock (errno_val e))) (\<lambda>_. sret (Inl e))
     | Inr fd \<Rightarrow> sbind (smod (set_sock_fd sock fd)) (\<lambda>_. sret (Inr ())))"

definition owfd_wpa_ctrl_open :: "answers \<Rightarrow> char list \<Rightarrow> nat option \<Rightarrow> ('z, unit) wlop" where
  "owfd_wpa_ctrl_open K ctrl_path h =
     obind (olift (sget owfd_wpa_ctrl_is_open)) (\<lambda>open.
     if open then olift (serr EALREADY)
     else
       obind (olift (arm_timer K 10000000)) (\<lambda>_.
       obind (olift (try_open_socket K Req ctrl_path)) (\<lambda>r.
       case r of
         Inl e \<Rightarrow> olift (sbind (disarm_timer K) (\<lambda>_. serr e))
       | Inr _ \<Rightarrow>
           obind (olift (try_open_socket K Ev ctrl_path)) (\<lambda>r.
           case r of
             Inl e \<Rightarrow> olift (sbind (close_socket K Req) (\<lambda>_. sbind (disarm_timer K) (\<lambda>_. serr e)))
           | Inr _ \<Rightarrow>
               obind (olift (sget ev_fd)) (\<lambda>fd.
               obind (oattempt (wpa_request_ok K fd ''ATTACH'' None)) (\<lambda>r.
               case r of
                 Inl e \<Rightarrow>
                   obind (detach K) (\<lambda>_.
                   olift (sbind (close_socket K Ev) (\<lambda>_. sbind (close_socket K Req) (\<lambda>_. sbind (disarm_timer K) (\<lambda>_. serr e)))))
               | Inr _ \<Rightarrow> olift (smod (\<lambda>s. s\<lparr>wc_cb := h\<rparr>))))))))"

definition owfd_wpa_ctrl_close :: "answers \<Rightarrow> ('z, unit) wlop" where
  "owfd_wpa_ctrl_close K =
     obind (olift (sget owfd_wpa_ctrl_is_open)) (\<lambda>open.
     if \<not> open then olift (sret ())
     else
       obind (detach K) (\<lambda>_.
       olift (sbind (close_socket K Ev) (\<lambda>_. sbind (close_socket K Req) (\<lambda>_. sbind (disarm_timer K) (\<lambda>_.
         smod (\<lambda>s. s\<lparr>wc_cb := None\<rparr>)))))))"

definition owfd_wpa_ctrl_unref :: "answers \<Rightarrow> ('z, unit) wlop" where
  "owfd_wpa_ctrl_unref K =
     obind (olift (sget wc_ref)) (\<lambda>n.
     if n = 0 then olift (sret ())
     else
       obind (olift (smod (\<lambda>s. s\<lparr>wc_ref := n - 1\<rparr>))) (\<lambda>_.
       if n - 1 \<noteq> 0 then olift (sret ())
       else
         obind (owfd_wpa_ctrl_close K) (\<lambda>_.
         olift (sbind (sget wc_tfd) (\<lambda>tfd. sbind (sys_close tfd) (\<lambda>_. sbind (sget wc_efd) sys_close))))))"

definition owfd_wpa_ctrl_request :: "answers \<Rightarrow> char list \<Rightarrow> nat \<Rightarrow> int \<Rightarrow> ('z, char list) wlop" where
  "owfd_wpa_ctrl_request K cmd cap timeout =
     obind (olift (sget owfd_wpa_ctrl_is_open)) (\<lambda>open.
     if \<not> open then olift (serr ENODEV)
     else
       let timeout = (if timeout < 0 then - 1 else if timeout > 1000000 then 1000000 else timeout) in
       obind (olift (sget req_fd)) (\<lambda>fd. wpa_request K fd cmd cap (Some (timeout * 1000))))"

definition owfd_wpa_ctrl_request_ok :: "answers \<Rightarrow> char list \<Rightarrow> int \<Rightarrow> ('z, unit) wlop" where
  "owfd_wpa_ctrl_request_ok K cmd timeout =
     obind (owfd_wpa_ctrl_request K cmd REQ_REPLY_MAX timeout) (\<lambda>reply.
     olift (if reply \<noteq> ''OK'' @ [LF] then serr EINVAL else sret ()))"

subsection \<open>Dispatching\<close>

definition wpa_call_back :: "'z wpa_handlers \<Rightarrow> char list \<Rightarrow> ('z, unit) wlop" where
  "wpa_call_back H buf s =
     (case wc_cb s of
        None \<Rightarrow> Some (s, Ok ())
      | Some h \<Rightarrow> H h buf (s\<lparr>wc_seen := wc_seen s @ [(h, buf)]\<rparr>))"

definition read_ev_round :: "answers \<Rightarrow> 'z wpa_handlers \<Rightarrow> unit \<Rightarrow> ('z, (bool \<times> unit)) wlop" where
  "read_ev_round K H c =
     obind (olift (sget ev_fd)) (\<lambda>fd.
     obind (olift (again (sys_read K fd REQ_REPLY_MAX))) (\<lambda>bs.
     case bs of
       None \<Rightarrow> olift (sret (True, ()))
     | Some bs \<Rightarrow>
         if bs = [] then olift (sret (True, ()))
         else
           obind (if hd bs = CHR ''<'' then wpa_call_back H bs else olift (sret ())) (\<lambda>_.
           olift (sbind (sget owfd_wpa_ctrl_is_open) (\<lambda>open. if \<not> open then serr ENODEV else sret (False, ()))))))"

definition read_ev :: "answers \<Rightarrow> 'z wpa_handlers \<Rightarrow> ('z, unit) wlop" where
  "read_ev K H = until_done (read_ev_round K H) ()"

definition read_req_round :: "answers \<Rightarrow> unit \<Rightarrow> ('z, (bool \<times> unit)) wlop" where
  "read_req_round K c =
     olift (
       sbind (sget req_fd) (\<lambda>fd.
       sbind (again (sys_read K fd REQ_REPLY_MAX)) (\<lambda>bs.
       sret (bs = None \<or> bs = Some [], ()))))"

definition read_req :: "answers \<Rightarrow> ('z, unit) wlop" where
  "read_req K = until_done (read_req_round K) ()"

definition read_tfd :: "answers \<Rightarrow> ('z, unit) wlop" where
  "read_tfd K =
     obind (olift (sget wc_tfd)) (\<lambda>fd.
     obind (olift (again (sys_read K fd 8))) (\<lambda>l.
     if (case l of None \<Rightarrow> False | Some bs \<Rightarrow> length bs = 8) then
       obind (olift (sget req_fd)) (\<lambda>fd.
       obind (wpa_request K fd ''PING'' 10 None) (\<lambda>reply.
       olift (if reply \<noteq> ''PONG'' @ [LF] then serr ETIMEDOUT else sret ())))
     else olift (sret ())))"

text \<open>The input is drained before an error condition counts.\<close>

definition drain :: "u32 \<Rightarrow> ('z, unit) wlop \<Rightarrow> ('z, unit) wlop" where
  "drain events m =
     obind (if events AND EPOLLIN \<noteq> 0 then m else olift (sret ())) (\<lambda>_.
     olift (if events AND (EPOLLHUP OR EPOLLERR) \<noteq> 0 then serr EPIPE else sret ()))"

definition dispatch_ev :: "answers \<Rightarrow> 'z wpa_handlers \<Rightarrow> u32 \<Rightarrow> ('z, unit) wlop" where
  "dispatch_ev K H events = drain events (read_ev K H)"

definition dispatch_req :: "answers \<Rightarrow> u32 \<Rightarrow> ('z, unit) wlop" where
  "dispatch_req K events = drain events (read_req K)"

definition dispatch_tfd :: "answers \<Rightarrow> u32 \<Rightarrow> ('z, unit) wlop" where
  "dispatch_tfd K events =
     obind (oattempt
       (if events AND (EPOLLHUP OR EPOLLERR) \<noteq> 0 then olift (serr EFAULT)
        else if events AND EPOLLIN \<noteq> 0 then read_tfd K
        else olift (sret ()))) (\<lambda>r.
     case r of
       Inr _ \<Rightarrow> olift (sret ())
     | Inl e \<Rightarrow> olift (sbind (sget wc_tfd) (\<lambda>fd. sbind (attempt (epoll_del K fd)) (\<lambda>_. serr e))))"

text \<open>The events carry the address of the field that held the descriptor when it was added.\<close>

datatype wpa_source = From_ev | From_req | From_tfd

definition event_source :: "'z wpa_ctrl_scheme \<Rightarrow> int \<Rightarrow> wpa_source" where
  "event_source s fd = (if fd = ev_fd s then From_ev else if fd = req_fd s then From_req else From_tfd)"

fun dispatch_event :: "answers \<Rightarrow> 'z wpa_handlers \<Rightarrow> wpa_source \<times> u32 \<Rightarrow> ('z, unit) wlop" where
  "dispatch_event K H (From_ev, events) = dispatch_ev K H events"
| "dispatch_event K H (From_req, events) = dispatch_req K events"
| "dispatch_event K H (From_tfd, events) = dispatch_tfd K events"

fun dispatch_events :: "answers \<Rightarrow> 'z wpa_handlers \<Rightarrow> (wpa_source \<times> u32) list \<Rightarrow> ('z, unit) wlop" where
  "dispatch_events K H [] = olift (sret ())"
| "dispatch_events K H (e # es) = obind (dispatch_event K H e) (\<lambda>_. dispatch_events K H es)"

definition owfd_wpa_ctrl_dispatch :: "answers \<Rightarrow> 'z wpa_handlers \<Rightarrow> ('z, unit) wlop" where
  "owfd_wpa_ctrl_dispatch K H =
     obind (olift (sget owfd_wpa_ctrl_is_open)) (\<lambda>open.
     if \<not> open then olift (serr ENODEV)
     else
       obind (olift (sget wc_efd)) (\<lambda>efd.
       obind (olift (sys_use efd)) (\<lambda>_.
       obind (olift (attempt (epoll_wait K 2))) (\<lambda>r.
       case r of
         Inl e \<Rightarrow> if e = EAGAIN \<or> e = EINTR then olift (sret ()) else olift (serr e)
       | Inr evs \<Rightarrow>
           obind (olift (sget event_source)) (\<lambda>source.
           dispatch_events K H (map (\<lambda>(fd, e). (source fd, e)) evs))))))"

end
