(* ===== verification/Wpa_Ctrl_Correct.thy ===== *)
theory Wpa_Ctrl_Correct
  imports Wpa_Ctrl
begin

text \<open>
  What the channel to wpa_supplicant owns: its descriptors, the interest list of its epoll instance, and its socket
  files. Every operation keeps it, whatever kernel, peer and callbacks do.
\<close>

subsection \<open>What requests change\<close>

text \<open>Waiting, sending and receiving change the clock and what was sent, nothing else.\<close>

definition polled :: "'z wpa_ctrl_scheme \<Rightarrow> 'z wpa_ctrl_scheme \<Rightarrow> bool" where
  "polled s s' \<longleftrightarrow> (\<exists>c n l. s' = s\<lparr>calls := c, now_us := n, wc_sent := l\<rparr>)"

lemma polled_refl [simp]: "polled s s"
proof -
  have "s = s\<lparr>calls := calls s, now_us := now_us s, wc_sent := wc_sent s\<rparr>" by simp
  then show ?thesis unfolding polled_def by blast
qed

lemma polled_updates [simp]:
  "polled s s' \<Longrightarrow> polled s (tick K s')" "polled s s' \<Longrightarrow> polled s (s'\<lparr>now_us := n\<rparr>)"
  "polled s s' \<Longrightarrow> polled s (s'\<lparr>wc_sent := l\<rparr>)"
proof -
  assume "polled s s'"
  then obtain c m k where s': "s' = s\<lparr>calls := c, now_us := m, wc_sent := k\<rparr>" by (auto simp: polled_def)
  show "polled s (tick K s')" unfolding polled_def
    by (rule exI [of _ "calls s' + 1"], rule exI [of _ "now_us s' + a_time (K (calls s'))"], rule exI [of _ k]) (simp add: tick_def s')
  show "polled s (s'\<lparr>now_us := n\<rparr>)" unfolding polled_def
    by (rule exI [of _ c], rule exI [of _ n], rule exI [of _ k]) (simp add: s')
  show "polled s (s'\<lparr>wc_sent := l\<rparr>)" unfolding polled_def
    by (rule exI [of _ c], rule exI [of _ m], rule exI [of _ l]) (simp add: s')
qed

lemma polled_trans: "polled s s' \<Longrightarrow> polled s' s'' \<Longrightarrow> polled s s''"
proof -
  assume "polled s s'" "polled s' s''"
  then obtain c n l c' n' l' where "s' = s\<lparr>calls := c, now_us := n, wc_sent := l\<rparr>" "s'' = s'\<lparr>calls := c', now_us := n', wc_sent := l'\<rparr>"
    by (auto simp: polled_def)
  then have "s'' = s\<lparr>calls := c', now_us := n', wc_sent := l'\<rparr>" by simp
  then show ?thesis unfolding polled_def by blast
qed

lemma polled_fields:
  "polled s s' \<Longrightarrow> open_fds s' = open_fds s" "polled s s' \<Longrightarrow> interest s' = interest s"
  "polled s s' \<Longrightarrow> ev_fd s' = ev_fd s" "polled s s' \<Longrightarrow> req_fd s' = req_fd s"
  by (auto simp: polled_def)

lemma recalculate_wp [wp_simps]:
  "wp (recalculate start timeout finished x) Q s =
     (let t = timeout - (int (now_us s) - start) in
      if t \<le> 0 then if finished then Q (Ok (True, 0, x)) s else Q (Err ETIMEDOUT) s else Q (Ok (finished, t, x)) s)"
  by (simp add: recalculate_def wp_simps Let_def)

lemma wait_socket_wp [wp_simps]:
  "wp (wait_socket K fd timeout) Q s =
     (if fd \<in> open_fds s then
        let s' = tick K (s\<lparr>now_us := now_us s + min (a_wait (K (calls s))) (nat timeout)\<rparr>) in
        on_error (a_err (K (calls s))) (\<lambda>e. if e = EAGAIN then Q (Ok False) s' else Q (Err e) s')
          (case a_events (K (calls s)) of
             [] \<Rightarrow> Q (Err ETIMEDOUT) s'
           | e # _ \<Rightarrow> if snd e AND (EPOLLHUP OR EPOLLERR) \<noteq> 0 then Q (Err EPIPE) s' else Q (Ok True) s')
      else Q Fault s)"
  by (cases "a_err (K (calls s))")
    (auto simp: wait_socket_def wp_simps timespec_us_to_timespec Let_def split: list.split)

lemma again_wp [wp_simps]:
  "wp (again m) Q s = wp m (\<lambda>r s'. case r of
       Ok x \<Rightarrow> Q (Ok (Some x)) s' | Err e \<Rightarrow> if e = EAGAIN \<or> e = EINTR then Q (Ok None) s' else Q (Err e) s' | Fault \<Rightarrow> Q Fault s') s"
  unfolding again_def wp_sbind wp_attempt
  by (rule arg_cong [where f = "\<lambda>Q. wp m Q s"], intro ext) (simp add: wp_simps split: result.splits)

lemma send_round_polled:
  assumes "polled s0 s" and "fd \<in> open_fds s"
  shows "wp (send_round K fd cmd start c) (round_post (\<lambda>_ s'. polled s0 s' \<and> fd \<in> open_fds s') (\<lambda>r s'. r \<noteq> Fault \<and> polled s0 s')) s"
  using assms unfolding send_round_def sys_write_def
  by (auto simp: wp_simps Let_def intro!: on_errorI split: list.split)

lemma recv_round_polled:
  assumes "polled s0 s" and "fd \<in> open_fds s"
  shows "wp (recv_round K fd cap start c) (round_post (\<lambda>_ s'. polled s0 s' \<and> fd \<in> open_fds s') (\<lambda>r s'. r \<noteq> Fault \<and> polled s0 s')) s"
  using assms unfolding recv_round_def sys_read_def
  by (auto simp: wp_simps Let_def intro!: on_errorI split: list.split)

lemma timed_polled:
  assumes "polled s0 s" and "fd \<in> open_fds s"
  shows "safe (timed_send K fd cmd t) (\<lambda>r s'. r \<noteq> Fault \<and> polled s0 s') s" "safe (timed_recv K fd cap t) (\<lambda>r s'. r \<noteq> Fault \<and> polled s0 s') s"
  unfolding timed_send_def timed_recv_def lop_simps wp_simps
  by (rule until_done_safe [where I = "\<lambda>_ s. polled s0 s \<and> fd \<in> open_fds s"];
      simp add: assms lop_simps send_round_polled recv_round_polled)+

lemma wpa_request_polled:
  assumes "fd < 0 \<or> fd \<in> open_fds s"
  shows "safe (wpa_request K fd cmd cap t) (\<lambda>r s'. r \<noteq> Fault \<and> polled s s') s"
proof (cases "fd < 0")
  case False
  then have fd: "fd \<in> open_fds s" using assms by simp
  let ?t = "let t = (case t of None \<Rightarrow> - 1 | Some t \<Rightarrow> t) in (if t < 0 \<or> t > 10 * 1000 * 1000 then 10 * 1000 * 1000 else t)"
  have recv: "safe (timed_recv K fd cap t') (next_safe (\<lambda>c. olift (sret (snd c))) (\<lambda>r s'. r \<noteq> Fault \<and> polled s s')) s'" if "polled s s'" for t' s'
    by (rule safe_mono [OF timed_polled(2) [OF that]])
      (use fd that in \<open>auto simp: polled_fields lop_simps wp_simps next_safe_def split: result.splits\<close>)
  have "safe (timed_send K fd cmd ?t) (next_safe (\<lambda>c. obind (timed_recv K fd cap (fst c)) (\<lambda>c. olift (sret (snd c)))) (\<lambda>r s'. r \<noteq> Fault \<and> polled s s')) s"
    by (rule safe_mono [OF timed_polled(1) [OF polled_refl fd]]) (auto simp: next_safe_def lop_simps recv split: result.splits)
  then show ?thesis using False by (simp add: wpa_request_def lop_simps Let_def)
qed (simp add: wpa_request_def lop_simps wp_simps)

lemma wpa_request_ok_polled:
  assumes "fd < 0 \<or> fd \<in> open_fds s"
  shows "safe (wpa_request_ok K fd cmd t) (\<lambda>r s'. r \<noteq> Fault \<and> polled s s') s"
  unfolding wpa_request_ok_def
  by (rule safe_obindI [OF wpa_request_polled [OF assms]]) (auto simp: next_safe_def safe_simps wp_basic split: result.splits)

subsection \<open>What the channel owns\<close>

text \<open>
  \<open>F\<close> are the descriptors of others, \<open>A\<close> the sockets of the channel that are open. The sockets are watched, and so is the
  timer as long as \<open>lost\<close> does not hold. Socket files exist only for open sockets.
\<close>

definition own :: "(64 word \<Rightarrow> 'z \<Rightarrow> bool) \<Rightarrow> int set \<Rightarrow> bool \<Rightarrow> wpa_sock set \<Rightarrow> 'z wpa_ctrl_scheme \<Rightarrow> bool" where
  "own P F lost A s \<longleftrightarrow>
     P (wc_ref s) (wpa_ctrl.more s) \<and> 0 \<le> next_fd s \<and> wc_efd s \<noteq> wc_tfd s \<and> wc_efd s \<notin> F \<and> wc_tfd s \<notin> F \<and>
     (\<forall>fd\<in>insert (wc_efd s) (insert (wc_tfd s) F). fd < next_fd s) \<and>
     (\<forall>x\<in>A. 0 \<le> sock_fd x s \<and> sock_fd x s < next_fd s \<and> sock_fd x s \<notin> insert (wc_efd s) (insert (wc_tfd s) F)) \<and>
     (\<forall>x. x \<notin> A \<longrightarrow> sock_fd x s < 0) \<and>
     (\<forall>x\<in>A. \<forall>y\<in>A. sock_fd x s = sock_fd y s \<longrightarrow> x = y) \<and>
     open_fds s = (\<lambda>x. sock_fd x s) ` A \<union> insert (wc_efd s) (insert (wc_tfd s) F) \<and>
     dom (interest s) - {wc_tfd s} = (\<lambda>x. sock_fd x s) ` A \<and> (lost \<longrightarrow> interest s (wc_tfd s) = None) \<and>
     (\<forall>n\<in>bound s. \<exists>x\<in>A. sock_name x s = n)"

lemma tick_wpa [simp]:
  "wpa_ctrl.more (tick K s) = wpa_ctrl.more s" "wc_ref (tick K s) = wc_ref s" "wc_efd (tick K s) = wc_efd s" "wc_tfd (tick K s) = wc_tfd s" "sock_fd x (tick K s) = sock_fd x s"
  "sock_name x (tick K s) = sock_name x s" "bound (tick K s) = bound s" "wc_cb (tick K s) = wc_cb s" "req_fd (tick K s) = req_fd s"
  "ev_fd (tick K s) = ev_fd s" "wc_timer (tick K s) = wc_timer s" "wc_sent (tick K s) = wc_sent s" "wc_seen (tick K s) = wc_seen s"
  "req_name (tick K s) = req_name s" "ev_name (tick K s) = ev_name s"
  by (cases x; simp add: tick_def)+

lemma sock_update [simp]:
  "sock_fd x (s\<lparr>calls := c\<rparr>) = sock_fd x s" "sock_fd x (s\<lparr>now_us := n\<rparr>) = sock_fd x s" "sock_fd x (s\<lparr>wc_sent := l\<rparr>) = sock_fd x s"
  "sock_fd x (s\<lparr>wc_seen := l'\<rparr>) = sock_fd x s" "sock_fd x (s\<lparr>wc_timer := t\<rparr>) = sock_fd x s" "sock_fd x (s\<lparr>interest := m\<rparr>) = sock_fd x s"
  "sock_fd x (s\<lparr>open_fds := fds\<rparr>) = sock_fd x s" "sock_fd x (s\<lparr>next_fd := fd\<rparr>) = sock_fd x s" "sock_fd x (s\<lparr>bound := b\<rparr>) = sock_fd x s"
  "sock_fd x (s\<lparr>wc_cb := h\<rparr>) = sock_fd x s" "sock_fd x (s\<lparr>wc_ref := r\<rparr>) = sock_fd x s" "sock_fd x (set_sock_name y n' s) = sock_fd x s"
  "sock_fd x (set_sock_fd y fd s) = (if x = y then fd else sock_fd x s)" "sock_fd x (s\<lparr>wc_mask := k\<rparr>) = sock_fd x s"
  "sock_fd x (s\<lparr>wc_data := d\<rparr>) = sock_fd x s"
  by (cases x; cases y; simp)+

lemma sock_name_update [simp]:
  "sock_name x (s\<lparr>calls := c\<rparr>) = sock_name x s" "sock_name x (s\<lparr>now_us := n\<rparr>) = sock_name x s" "sock_name x (s\<lparr>wc_sent := l\<rparr>) = sock_name x s"
  "sock_name x (s\<lparr>wc_seen := l'\<rparr>) = sock_name x s" "sock_name x (s\<lparr>wc_timer := t\<rparr>) = sock_name x s" "sock_name x (s\<lparr>interest := m\<rparr>) = sock_name x s"
  "sock_name x (s\<lparr>open_fds := fds\<rparr>) = sock_name x s" "sock_name x (s\<lparr>next_fd := fd\<rparr>) = sock_name x s" "sock_name x (s\<lparr>bound := b\<rparr>) = sock_name x s"
  "sock_name x (s\<lparr>wc_cb := h\<rparr>) = sock_name x s" "sock_name x (s\<lparr>wc_ref := r\<rparr>) = sock_name x s" "sock_name x (set_sock_fd y fd s) = sock_name x s"
  "sock_name x (set_sock_name y n' s) = (if x = y then n' else sock_name x s)" "sock_name x (s\<lparr>wc_mask := k\<rparr>) = sock_name x s"
  "sock_name x (s\<lparr>wc_data := d\<rparr>) = sock_name x s"
  by (cases x; cases y; simp)+

lemma set_sock_fields [simp]:
  "wpa_ctrl.more (set_sock_fd x fd s) = wpa_ctrl.more s" "wpa_ctrl.more (set_sock_name x n s) = wpa_ctrl.more s"
  "wc_ref (set_sock_fd x fd s) = wc_ref s" "next_fd (set_sock_fd x fd s) = next_fd s" "wc_efd (set_sock_fd x fd s) = wc_efd s"
  "wc_tfd (set_sock_fd x fd s) = wc_tfd s" "open_fds (set_sock_fd x fd s) = open_fds s" "interest (set_sock_fd x fd s) = interest s"
  "bound (set_sock_fd x fd s) = bound s" "wc_cb (set_sock_fd x fd s) = wc_cb s" "calls (set_sock_fd x fd s) = calls s"
  "wc_ref (set_sock_name x n s) = wc_ref s" "next_fd (set_sock_name x n s) = next_fd s" "wc_efd (set_sock_name x n s) = wc_efd s"
  "wc_tfd (set_sock_name x n s) = wc_tfd s" "open_fds (set_sock_name x n s) = open_fds s" "interest (set_sock_name x n s) = interest s"
  "bound (set_sock_name x n s) = bound s" "wc_cb (set_sock_name x n s) = wc_cb s" "calls (set_sock_name x n s) = calls s"
  by (cases x; simp)+

text \<open>The updates that do not touch what is owned.\<close>

lemma own_update [simp]:
  "own P F lost A (tick K s) = own P F lost A s" "own P F lost A (s\<lparr>now_us := n\<rparr>) = own P F lost A s" "own P F lost A (s\<lparr>wc_sent := l\<rparr>) = own P F lost A s"
  "own P F lost A (s\<lparr>wc_seen := l'\<rparr>) = own P F lost A s" "own P F lost A (s\<lparr>wc_timer := t\<rparr>) = own P F lost A s"
  "own P F lost A (s\<lparr>wc_cb := h\<rparr>) = own P F lost A s" "own P F lost A (s\<lparr>calls := c\<rparr>) = own P F lost A s" "own P F lost A (s\<lparr>wc_mask := k\<rparr>) = own P F lost A s" "own P F lost A (s\<lparr>wc_data := d\<rparr>) = own P F lost A s"
  by (simp_all add: own_def)

lemma own_polled: "polled s s' \<Longrightarrow> own P F lost A s' = own P F lost A s"
  by (auto simp: polled_def)

lemma own_fds:
  "own P F lost A s \<Longrightarrow> wc_efd s \<in> open_fds s" "own P F lost A s \<Longrightarrow> wc_tfd s \<in> open_fds s"
  "own P F lost A s \<Longrightarrow> sock_fd x s < 0 \<or> sock_fd x s \<in> open_fds s"
  "own P F lost A s \<Longrightarrow> x \<in> A \<Longrightarrow> sock_fd x s \<in> open_fds s"
proof -
  assume o: "own P F lost A s"
  show "wc_efd s \<in> open_fds s" "wc_tfd s \<in> open_fds s" using o by (simp_all add: own_def)
  show "sock_fd x s < 0 \<or> sock_fd x s \<in> open_fds s" using o by (cases "x \<in> A") (auto simp: own_def)
  show "x \<in> A \<Longrightarrow> sock_fd x s \<in> open_fds s" using o by (auto simp: own_def)
qed

lemma own_facts:
  assumes "own P F lost A s"
  shows "open_fds s = (\<lambda>x. sock_fd x s) ` A \<union> insert (wc_efd s) (insert (wc_tfd s) F)"
    and "dom (interest s) - {wc_tfd s} = (\<lambda>x. sock_fd x s) ` A" and "\<forall>n\<in>bound s. \<exists>x\<in>A. sock_name x s = n"
  using assms by (simp_all add: own_def)

lemma own_sign:
  assumes "own P F lost A s"
  shows "0 \<le> sock_fd x s \<longleftrightarrow> x \<in> A"
proof -
  have "\<forall>x\<in>A. 0 \<le> sock_fd x s" "\<forall>x. x \<notin> A \<longrightarrow> sock_fd x s < 0" using assms unfolding own_def by simp_all
  then show ?thesis by force
qed

lemma own_cong:
  assumes "own P F lost A s" and "wpa_ctrl.more s' = wpa_ctrl.more s" and "wc_ref s' = wc_ref s" and "next_fd s' = next_fd s" and "wc_efd s' = wc_efd s" and "wc_tfd s' = wc_tfd s"
    and "open_fds s' = open_fds s" and "interest s' = interest s" and "\<And>x. sock_fd x s' = sock_fd x s"
    and "\<forall>n\<in>bound s'. \<exists>x\<in>A. sock_name x s' = n"
  shows "own P F lost A s'"
  using assms by (simp add: own_def)

lemma errno_negative: "e \<noteq> ESYS 0 \<Longrightarrow> errno_val e < 0"
  by (cases e) auto

lemma close_socket_own:
  assumes o: "own P F lost A s" and x: "x \<in> A"
  shows "wp (close_socket K x) (\<lambda>r s'. r = Ok () \<and> own P F lost (A - {x}) s' \<and> wc_cb s' = wc_cb s) s"
proof -
  have u: "sock_fd x s \<in> open_fds s" using own_fds(4) [OF o x] .
  have t: "sock_fd x s \<noteq> wc_tfd s" "sock_fd x s \<noteq> wc_efd s" "sock_fd x s \<notin> F" using o x by (auto simp: own_def)
  have "\<forall>y\<in>A. sock_fd x s = sock_fd y s \<longrightarrow> x = y" using o x by (simp add: own_def)
  then have fds: "(\<lambda>y. sock_fd y s) ` A - {sock_fd x s} = (\<lambda>y. sock_fd y s) ` (A - {x})" by auto
  have img: "(\<lambda>y. if y = x then - 1 else sock_fd y s) ` (A - {x}) = (\<lambda>y. sock_fd y s) ` (A - {x})" by auto
  have open_fds: "insert (wc_efd s) (insert (wc_tfd s) ((\<lambda>y. sock_fd y s) ` A \<union> F)) - {sock_fd x s} =
      insert (wc_efd s) (insert (wc_tfd s) ((\<lambda>y. sock_fd y s) ` (A - {x}) \<union> F))"
    and dom: "dom (interest s) - {sock_fd x s} - {wc_tfd s} = (\<lambda>y. sock_fd y s) ` (A - {x})"
    using own_facts(2) [OF o] t unfolding fds [symmetric] by auto
  have names: "\<forall>n\<in>bound s - {sock_name x s}. \<exists>y\<in>A - {x}. sock_name y s = n" using own_facts(3) [OF o] by auto
  have neg: "sock_fd y s < 0" if "y \<noteq> x" "y \<notin> A" for y using that o by (simp add: own_def)
  have inv: "own P F lost (A - {x}) (set_sock_fd x (- 1) ((tick K s)\<lparr>bound := bound s - {sock_name x s},
      open_fds := open_fds s - {sock_fd x s}, interest := (interest s)(sock_fd x s := None)\<rparr>))"
    using o t(1) unfolding own_def by (simp add: open_fds dom names img neg)
  show ?thesis
    using u inv unfolding close_socket_def epoll_del_def sys_unlink_def
    by (auto simp: wp_simps intro!: on_errorI)
qed

text \<open>Opening: the new descriptor belongs to nobody yet.\<close>

lemma unowned:
  assumes "own P F lost A s"
  shows "own P (insert (next_fd s) F) lost A ((tick K s)\<lparr>next_fd := next_fd s + 1, open_fds := insert (next_fd s) (open_fds s)\<rparr>)"
    and "next_fd s \<notin> F" and "0 \<le> next_fd s"
  using assms by (auto simp: own_def)

lemma abandon:
  assumes "own P (insert fd F) lost A s" and "fd \<notin> F"
  shows "own P F lost A (s\<lparr>open_fds := open_fds s - {fd}, interest := (interest s)(fd := None)\<rparr>)" and "fd \<in> open_fds s"
proof -
  have "\<forall>x\<in>A. sock_fd x s \<noteq> fd" using assms by (auto simp: own_def)
  then have img: "(\<lambda>x. sock_fd x s) ` A - {fd} = (\<lambda>x. sock_fd x s) ` A" by auto
  have "fd \<noteq> wc_tfd s" "fd \<noteq> wc_efd s" using assms by (auto simp: own_def)
  then have fds: "insert (wc_efd s) (insert (wc_tfd s) (insert fd ((\<lambda>x. sock_fd x s) ` A \<union> F))) - {fd} =
      insert (wc_efd s) (insert (wc_tfd s) ((\<lambda>x. sock_fd x s) ` A \<union> F))"
    and dom: "dom (interest s) - {fd} - {wc_tfd s} = (\<lambda>x. sock_fd x s) ` A"
    using own_facts(2) [OF assms(1)] img assms(2) by auto
  show "own P F lost A (s\<lparr>open_fds := open_fds s - {fd}, interest := (interest s)(fd := None)\<rparr>)"
    using assms(1) unfolding own_def by (simp add: fds dom)
  show "fd \<in> open_fds s" using assms by (simp add: own_def)
qed

text \<open>While a socket is being opened, its file may exist although the socket is not yet one of the channel's.\<close>

definition pending :: "(64 word \<Rightarrow> 'z \<Rightarrow> bool) \<Rightarrow> int set \<Rightarrow> bool \<Rightarrow> wpa_sock set \<Rightarrow> wpa_sock \<Rightarrow> 'z wpa_ctrl_scheme \<Rightarrow> bool" where
  "pending P F lost A x s \<longleftrightarrow> own P F lost A (s\<lparr>bound := bound s - {sock_name x s}\<rparr>)"

lemma pending_simps [simp]:
  "pending P F lost A x (tick K s) = pending P F lost A x s"
  by (simp add: pending_def own_def)

lemma bind_socket_pending:
  assumes K: "answers_ok K" and o: "own P F lost A s" and x: "x \<notin> A" and fd: "fd \<in> open_fds s" "interest s fd = None"
  shows "wp (bind_socket K fd x)
    (\<lambda>r s'. r \<noteq> Fault \<and> pending P F lost A x s' \<and> (\<forall>e. r = Err e \<longrightarrow> own P F lost A s' \<and> e \<noteq> ESYS 0) \<and>
       fd \<in> open_fds s' \<and> interest s' fd = None \<and> wc_cb s' = wc_cb s) s"
proof -
  have err: "a_err (K n) \<noteq> Some (ESYS 0)" for n using K by (simp add: answers_ok_def)
  have names: "\<forall>n\<in>bound s. \<exists>y\<in>A. sock_name y s = n" using own_facts(3) [OF o] .
  have set: "own P F lost A (set_sock_name x n s'\<lparr>bound := b\<rparr>)" "own P F lost A (tick K (set_sock_name x n s')\<lparr>bound := b\<rparr>)"
      "own P F lost A (tick K (tick K (set_sock_name x n s')\<lparr>bound := b'\<rparr>)\<lparr>bound := b\<rparr>)"
    if "s' = tick K s" "b \<subseteq> bound s" for n s' b b'
  proof -
    have nn: "\<exists>y\<in>A. y \<noteq> x \<and> sock_name y s = n'" if "n' \<in> b" for n' using that \<open>b \<subseteq> bound s\<close> names x by fastforce
    show "own P F lost A (set_sock_name x n s'\<lparr>bound := b\<rparr>)" "own P F lost A (tick K (set_sock_name x n s')\<lparr>bound := b\<rparr>)"
      "own P F lost A (tick K (tick K (set_sock_name x n s')\<lparr>bound := b'\<rparr>)\<lparr>bound := b\<rparr>)"
      using that(1) by (auto intro!: own_cong [OF o] dest!: nn)
  qed
  have set0: "own P F lost A (set_sock_name x n (tick K s))" for n
  proof -
    have "\<exists>y\<in>A. y \<noteq> x \<and> sock_name y s = n'" if "n' \<in> bound s" for n' using that names x by fastforce
    then show ?thesis by (fastforce intro!: own_cong [OF o])
  qed
  show ?thesis
    using fd err set0 set [OF refl] unfolding bind_socket_def sys_unlink_def
    by (auto simp: wp_simps pending_def insert_Diff_if on_error_def split: option.splits)
qed

lemma unlink_pending: "pending P F lost A x s \<Longrightarrow> own P F lost A (s\<lparr>bound := bound s - {sock_name x s}\<rparr>)"
  by (simp add: pending_def)

text \<open>The new socket becomes one of the channel's.\<close>

lemma adopt:
  assumes p: "pending P (insert fd F) lost A x s" and x: "x \<notin> A" and fd: "fd \<notin> F" "0 \<le> fd"
  shows "own P F lost (insert x A) (set_sock_fd x fd (s\<lparr>interest := (interest s)(fd \<mapsto> w)\<rparr>))"
proof -
  have o: "own P (insert fd F) lost A (s\<lparr>bound := bound s - {sock_name x s}\<rparr>)" using p by (simp add: pending_def)
  then have new: "\<forall>y\<in>A. sock_fd y s \<noteq> fd" "fd \<noteq> wc_tfd s" "fd \<noteq> wc_efd s" "fd < next_fd s" using fd by (auto simp: own_def)
  have names: "\<forall>n\<in>bound s. \<exists>y\<in>insert x A. sock_name y s = n" using own_facts(3) [OF o] by auto
  have img: "(\<lambda>y. if y = x then fd else sock_fd y s) ` insert x A = insert fd ((\<lambda>y. sock_fd y s) ` A)" using x by auto
  have dom: "dom ((interest s)(fd \<mapsto> w)) - {wc_tfd s} = insert fd ((\<lambda>y. sock_fd y s) ` A)"
    using own_facts(2) [OF o] new by auto
  show ?thesis
    using o names new fd x img dom unfolding own_def by (auto simp del: image_insert)
qed

lemma wp_unlink_on_error:
  "wp (unlink_on_error x m) Q s = wp m (\<lambda>r s'. case r of
       Ok y \<Rightarrow> Q (Ok y) s' | Err e \<Rightarrow> Q (Err e) (s'\<lparr>bound := bound s' - {sock_name x s'}\<rparr>) | Fault \<Rightarrow> Q Fault s') s"
  unfolding unlink_on_error_def wp_sbind wp_attempt sys_unlink_def
  by (rule arg_cong [where f = "\<lambda>Q. wp m Q s"], intro ext) (simp add: wp_simps split: result.splits)

lemma sun_path_cases: "sun_path path = Err EINVAL \<or> (\<exists>a. sun_path path = Ok a)"
  by (auto simp: sun_path_def)

text \<open>The part of \<open>open_socket\<close> behind the binding of the file.\<close>

lemma connect_pending:
  assumes K: "answers_ok K" and p: "pending P (insert fd F) lost A x s" and x: "x \<notin> A" and fd: "fd \<notin> F" "0 \<le> fd"
    and s: "fd \<in> open_fds s" "interest s fd = None"
  shows "wp (unlink_on_error x (sbind (connect_socket K fd path) (\<lambda>_. sbind (epoll_add K fd WATCH) (\<lambda>_. sret fd))))
    (\<lambda>r s'. case r of Ok fd' \<Rightarrow> fd' = fd \<and> own P F lost (insert x A) (set_sock_fd x fd s') \<and> wc_cb s' = wc_cb s
      | Err e \<Rightarrow> own P (insert fd F) lost A s' \<and> e \<noteq> ESYS 0 \<and> wc_cb s' = wc_cb s | Fault \<Rightarrow> False) s"
proof -
  have err: "a_err (K n) \<noteq> Some (ESYS 0)" for n using K by (simp add: answers_ok_def)
  have p': "pending P (insert fd F) lost A x (tick K (tick K s))" "pending P (insert fd F) lost A x (tick K s)" using p by simp_all
  note ad = adopt [OF p'(1) x fd, where w = WATCH] and ul = unlink_pending [OF p] unlink_pending [OF p'(1)] unlink_pending [OF p'(2)]
  show ?thesis
    using sun_path_cases [of path] err s ad ul
    unfolding wp_unlink_on_error connect_socket_def epoll_add_def
    by (auto simp: wp_simps on_error_def split: option.splits)
qed

lemma open_socket_own:
  assumes K: "answers_ok K" and o: "own P F lost A s" and x: "x \<notin> A"
  shows "wp (open_socket K x path) (\<lambda>r s'. case r of
      Ok fd \<Rightarrow> own P F lost (insert x A) (set_sock_fd x fd s') \<and> wc_cb s' = wc_cb s
    | Err e \<Rightarrow> own P F lost A s' \<and> e \<noteq> ESYS 0 \<and> wc_cb s' = wc_cb s | Fault \<Rightarrow> False) s" (is "wp _ ?Q s")
proof -
  let ?fd = "next_fd s"
  let ?s = "(tick K s)\<lparr>next_fd := ?fd + 1, open_fds := insert ?fd (open_fds s)\<rparr>"
  note new = unowned(1) [OF o, of K] unowned(2,3) [OF o]
  have s1: "?fd \<in> open_fds ?s" "interest ?s ?fd = None"
  proof -
    have "?fd \<noteq> wc_tfd s" "?fd \<notin> (\<lambda>y. sock_fd y s) ` A" using o by (auto simp: own_def)
    then have "?fd \<notin> dom (interest s)" using own_facts(2) [OF o] by blast
    then show "?fd \<in> open_fds ?s" "interest ?s ?fd = None" by auto
  qed
  have err: "a_err (K n) \<noteq> Some (ESYS 0)" for n using K by (simp add: answers_ok_def)
  have body: "wp (sbind (bind_socket K ?fd x) (\<lambda>_. unlink_on_error x (sbind (connect_socket K ?fd path) (\<lambda>_. sbind (epoll_add K ?fd WATCH) (\<lambda>_. sret ?fd)))))
    (\<lambda>r s'. case r of Ok fd' \<Rightarrow> fd' = ?fd \<and> own P F lost (insert x A) (set_sock_fd x ?fd s') \<and> wc_cb s' = wc_cb s
      | Err e \<Rightarrow> own P (insert ?fd F) lost A s' \<and> e \<noteq> ESYS 0 \<and> wc_cb s' = wc_cb s | Fault \<Rightarrow> False) ?s"
  proof (rule wp_sbindI [OF bind_socket_pending [OF K new(1) x s1]])
    fix r :: "unit result" and s'
    assume a: "r \<noteq> Fault \<and> pending P (insert ?fd F) lost A x s' \<and> (\<forall>e. r = Err e \<longrightarrow> own P (insert ?fd F) lost A s' \<and> e \<noteq> ESYS 0) \<and>
      ?fd \<in> open_fds s' \<and> interest s' ?fd = None \<and> wc_cb s' = wc_cb ?s"
    then have "wp (unlink_on_error x (sbind (connect_socket K ?fd path) (\<lambda>_. sbind (epoll_add K ?fd WATCH) (\<lambda>_. sret ?fd))))
      (\<lambda>r s''. case r of Ok fd' \<Rightarrow> fd' = ?fd \<and> own P F lost (insert x A) (set_sock_fd x ?fd s'') \<and> wc_cb s'' = wc_cb s
        | Err e \<Rightarrow> own P (insert ?fd F) lost A s'' \<and> e \<noteq> ESYS 0 \<and> wc_cb s'' = wc_cb s | Fault \<Rightarrow> False) s'"
      by (elim conjE, intro wp_mono [OF connect_pending [OF K _ x new(2,3), of P lost s' path]]) (auto split: result.splits)
    then show "andthen (\<lambda>_. unlink_on_error x (sbind (connect_socket K ?fd path) (\<lambda>_. sbind (epoll_add K ?fd WATCH) (\<lambda>_. sret ?fd))))
      (\<lambda>r s''. case r of Ok fd' \<Rightarrow> fd' = ?fd \<and> own P F lost (insert x A) (set_sock_fd x ?fd s'') \<and> wc_cb s'' = wc_cb s
        | Err e \<Rightarrow> own P (insert ?fd F) lost A s'' \<and> e \<noteq> ESYS 0 \<and> wc_cb s'' = wc_cb s | Fault \<Rightarrow> False) r s'"
      using a by (cases r) (simp_all add: andthen_simps)
  qed
  have "wp (close_on_error ?fd (sbind (bind_socket K ?fd x) (\<lambda>_. unlink_on_error x (sbind (connect_socket K ?fd path)
      (\<lambda>_. sbind (epoll_add K ?fd WATCH) (\<lambda>_. sret ?fd)))))) ?Q ?s"
    unfolding wp_close_on_error by (rule wp_mono [OF body]) (auto simp: abandon [OF _ new(2)] split: result.splits)
  then show ?thesis
    using o err by (auto simp: open_socket_def wp_sbind [of "sys_open K"] wp_sys_open andthen_simps on_error_def split: option.splits)
qed

lemma timer_keeps:
  assumes "own P F lost A s"
  shows "wp (arm_timer K t) (\<lambda>r s'. r \<noteq> Fault \<and> own P F lost A s' \<and> wc_cb s' = wc_cb s) s" "wp (disarm_timer K) (\<lambda>r s'. r = Ok () \<and> own P F lost A s' \<and> wc_cb s' = wc_cb s) s"
  using assms own_fds(2) [OF assms] by (auto simp: disarm_timer_def arm_timer_def wp_simps intro!: on_errorI)

lemma try_open_socket_own:
  assumes K: "answers_ok K" and o: "own P F lost A s" and x: "x \<notin> A"
  shows "wp (try_open_socket K x path) (\<lambda>r s'. wc_cb s' = wc_cb s \<and>
    ((\<exists>e. r = Ok (Inl e) \<and> own P F lost A s') \<or> (r = Ok (Inr ()) \<and> own P F lost (insert x A) s'))) s"
proof -
  have err: "own P F lost A (set_sock_fd x (errno_val e) s')" if "own P F lost A s'" "e \<noteq> ESYS 0" for s' e
  proof -
    have "(\<lambda>y. if y = x then errno_val e else sock_fd y s') ` A = (\<lambda>y. sock_fd y s') ` A" using x by auto
    then show ?thesis using that x errno_negative [OF that(2)] unfolding own_def by auto
  qed
  show ?thesis unfolding try_open_socket_def wp_sbind wp_attempt
    by (rule wp_mono [OF open_socket_own [OF K o x, of path]]) (auto simp: andthen_simps wp_sbind wp_basic err split: result.splits)
qed

text \<open>The two states of a channel: closed, or open with both sockets.\<close>

definition wpa_inv :: "(64 word \<Rightarrow> 'z \<Rightarrow> bool) \<Rightarrow> int set \<Rightarrow> bool \<Rightarrow> 'z wpa_ctrl_scheme \<Rightarrow> bool" where
  "wpa_inv P F lost s \<longleftrightarrow> own P F lost {} s \<and> wc_cb s = None \<or> own P F lost {Req, Ev} s"


subsection \<open>Every operation keeps what the channel owns\<close>

lemma inv_polled: "polled s s' \<Longrightarrow> wpa_inv P F lost s' = wpa_inv P F lost s"
  by (auto simp: polled_def wpa_inv_def)

abbreviation kept :: "(64 word \<Rightarrow> 'z \<Rightarrow> bool) \<Rightarrow> int set \<Rightarrow> bool \<Rightarrow> ('z, 'a) wlop \<Rightarrow> 'z wpa_ctrl_scheme \<Rightarrow> bool" where
  "kept P F lost m s \<equiv> safe m (\<lambda>r s'. r \<noteq> Fault \<and> wpa_inv P F lost s') s"

lemma inv_fds: "wpa_inv P F lost s \<Longrightarrow> sock_fd x s < 0 \<or> sock_fd x s \<in> open_fds s"
  by (auto simp: wpa_inv_def dest: own_fds(3))

lemma inv_tfd: "wpa_inv P F lost s \<Longrightarrow> wc_tfd s \<in> open_fds s" "wpa_inv P F lost s \<Longrightarrow> wc_efd s \<in> open_fds s"
  by (auto simp: wpa_inv_def dest: own_fds)

lemma inv_open: "wpa_inv P F lost s \<Longrightarrow> owfd_wpa_ctrl_is_open s \<longleftrightarrow> own P F lost {Req, Ev} s"
proof
  assume i: "wpa_inv P F lost s"
  show "own P F lost {Req, Ev} s" if "owfd_wpa_ctrl_is_open s"
  proof (rule ccontr)
    assume "\<not> own P F lost {Req, Ev} s"
    then have "own P F lost {} s" using i by (simp add: wpa_inv_def)
    then show False using that own_sign [of P F lost "{}" s Ev] by (simp add: owfd_wpa_ctrl_is_open_def)
  qed
  show "owfd_wpa_ctrl_is_open s" if "own P F lost {Req, Ev} s"
    using own_sign [OF that, of Ev] by (simp add: owfd_wpa_ctrl_is_open_def)
qed

lemma inv_closed: "wpa_inv P F lost s \<Longrightarrow> \<not> owfd_wpa_ctrl_is_open s \<Longrightarrow> own P F lost {} s \<and> wc_cb s = None"
  using inv_open [of P F lost s] unfolding wpa_inv_def by blast

lemma inv_req_fd: "wpa_inv P F lost s \<Longrightarrow> owfd_wpa_ctrl_is_open s \<Longrightarrow> req_fd s \<in> open_fds s \<and> ev_fd s \<in> open_fds s"
  using own_fds(4) [of P F lost "{Req, Ev}" s Req] own_fds(4) [of P F lost "{Req, Ev}" s Ev] by (simp add: inv_open)

text \<open>The two ways to get rid of an open channel: the error path of opening, and closing.\<close>

lemma detach_own:
  assumes "own P F lost A s"
  shows "safe (detach K) (\<lambda>r s'. r = Ok () \<and> own P F lost A s' \<and> wc_cb s' = wc_cb s) s"
proof -
  have "ev_fd s < 0 \<or> ev_fd s \<in> open_fds s" using own_fds(3) [OF assms, of Ev] by simp
  from wpa_request_polled [OF this] show ?thesis unfolding detach_def lop_simps wp_simps
    by (rule safe_mono) (auto simp: lop_simps wp_simps own_polled assms polled_def split: result.splits)
qed

lemma shut_wp:
  assumes o: "own P F lost {Req, Ev} s" and Q: "\<And>s'. own P F lost {} s' \<Longrightarrow> wc_cb s' = wc_cb s \<Longrightarrow> wp m Q s'"
  shows "wp (sbind (close_socket K Ev) (\<lambda>_. sbind (close_socket K Req) (\<lambda>_. sbind (disarm_timer K) (\<lambda>_. m)))) Q s"
proof (rule wp_sbindI [OF close_socket_own [OF o]])
  show "Ev \<in> {Req, Ev}" by simp
next
  fix r :: "unit result" and s1
  assume "r = Ok () \<and> own P F lost ({Req, Ev} - {Ev}) s1 \<and> wc_cb s1 = wc_cb s"
  moreover have "{Req, Ev} - {Ev} = {Req}" by auto
  ultimately have r: "r = Ok ()" and o1: "own P F lost {Req} s1" and cb: "wc_cb s1 = wc_cb s" by auto
  have "wp (sbind (close_socket K Req) (\<lambda>_. sbind (disarm_timer K) (\<lambda>_. m))) Q s1"
  proof (rule wp_sbindI [OF close_socket_own [OF o1]])
    fix r :: "unit result" and s2
    assume "r = Ok () \<and> own P F lost ({Req} - {Req}) s2 \<and> wc_cb s2 = wc_cb s1"
    then have r: "r = Ok ()" and o2: "own P F lost {} s2" and "wc_cb s2 = wc_cb s" using cb by auto
    then show "andthen (\<lambda>_. sbind (disarm_timer K) (\<lambda>_. m)) Q r s2"
      unfolding r andthen_simps by (intro wp_sbindI [OF timer_keeps(2) [OF o2]]) (auto simp: andthen_simps Q)
  qed simp
  then show "andthen (\<lambda>_. sbind (close_socket K Req) (\<lambda>_. sbind (disarm_timer K) (\<lambda>_. m))) Q r s1"
    by (simp add: r andthen_simps)
qed

lemma close_kept:
  assumes i: "wpa_inv P F lost s"
  shows "safe (owfd_wpa_ctrl_close K) (\<lambda>r s'. r = Ok () \<and> own P F lost {} s' \<and> wc_cb s' = None) s"
proof (cases "owfd_wpa_ctrl_is_open s")
  case True
  then have o: "own P F lost {Req, Ev} s" using inv_open [OF i] by simp
  show ?thesis unfolding owfd_wpa_ctrl_close_def lop_simps wp_simps
    by (simp add: True lop_simps, rule safe_mono [OF detach_own [OF o]]) (auto simp: lop_simps wp_basic intro!: shut_wp)
qed (use inv_closed [OF i] in \<open>simp add: owfd_wpa_ctrl_close_def lop_simps wp_simps\<close>)


text \<open>Opening succeeds as a whole or leaves a closed channel.\<close>

definition all_or_nothing :: "(64 word \<Rightarrow> 'z \<Rightarrow> bool) \<Rightarrow> int set \<Rightarrow> bool \<Rightarrow> nat option \<Rightarrow> unit result \<Rightarrow> 'z wpa_ctrl_scheme \<Rightarrow> bool" where
  "all_or_nothing P F lost h r s =
     (case r of
        Ok _ \<Rightarrow> own P F lost {Req, Ev} s \<and> wc_cb s = h
      | Err _ \<Rightarrow> own P F lost {} s \<and> wc_cb s = None
      | Fault \<Rightarrow> False)"

lemma attach_all_or_nothing:
  assumes o: "own P F lost {Req, Ev} s" and cb: "wc_cb s = None"
  shows "safe (obind (olift (sget ev_fd)) (\<lambda>fd.
      obind (oattempt (wpa_request_ok K fd ''ATTACH'' None)) (\<lambda>r.
      case r of
        Inl e \<Rightarrow>
          obind (detach K) (\<lambda>_.
          olift (sbind (close_socket K Ev) (\<lambda>_. sbind (close_socket K Req) (\<lambda>_. sbind (disarm_timer K) (\<lambda>_. serr e)))))
      | Inr _ \<Rightarrow> olift (smod (\<lambda>s. s\<lparr>wc_cb := h\<rparr>))))) (all_or_nothing P F lost h) s"
proof -
  have fd: "ev_fd s < 0 \<or> ev_fd s \<in> open_fds s" using own_fds(3) [OF o, of Ev] by simp
  have keep: "own P F lost {Req, Ev} s' \<and> wc_cb s' = None" if "polled s s'" for s'
    using that own_polled [OF that] o cb by (auto simp: polled_def)
  have fail: "safe (obind (detach K) (\<lambda>_. olift (sbind (close_socket K Ev) (\<lambda>_. sbind (close_socket K Req)
      (\<lambda>_. sbind (disarm_timer K) (\<lambda>_. serr e)))))) (all_or_nothing P F lost h) s'" if "polled s s'" for e s'
  proof (rule safe_obindI [OF detach_own])
    show "own P F lost {Req, Ev} s'" using keep [OF that] ..
  next
    fix r :: "unit result" and s''
    assume a: "r = Ok () \<and> own P F lost {Req, Ev} s'' \<and> wc_cb s'' = wc_cb s'"
    then show "next_safe (\<lambda>_. olift (sbind (close_socket K Ev) (\<lambda>_. sbind (close_socket K Req)
        (\<lambda>_. sbind (disarm_timer K) (\<lambda>_. serr e))))) (all_or_nothing P F lost h) r s''"
      using keep [OF that] by (auto simp: lop_simps wp_basic all_or_nothing_def intro!: shut_wp)
  qed
  have ok: "all_or_nothing P F lost h (Ok ()) (s'\<lparr>wc_cb := h\<rparr>)" if "polled s s'" for s'
    using keep [OF that] by (simp add: all_or_nothing_def)
  show ?thesis unfolding safe_simps wp_basic next_simps
    by (rule safe_mono [OF wpa_request_ok_polled [OF fd]])
      (auto simp: lop_simps wp_basic fail [unfolded safe_simps] ok split: result.splits)
qed

lemma open_all_or_nothing:
  assumes K: "answers_ok K" and o: "own P F lost {} s" and cb: "wc_cb s = None"
  shows "safe (owfd_wpa_ctrl_open K path h) (all_or_nothing P F lost h) s"
proof -
  have closed: "\<not> owfd_wpa_ctrl_is_open s" using own_sign [OF o, of Ev] by (simp add: owfd_wpa_ctrl_is_open_def)
  have dis: "wp (sbind (disarm_timer K) (\<lambda>_. serr e)) (all_or_nothing P F lost h) s'" if "own P F lost {} s'" "wc_cb s' = None" for e s'
    using that by (intro wp_sbindI [OF timer_keeps(2)]) (auto simp: andthen_simps wp_basic all_or_nothing_def)
  have req: "wp (sbind (close_socket K Req) (\<lambda>_. sbind (disarm_timer K) (\<lambda>_. serr e))) (all_or_nothing P F lost h) s'"
    if "own P F lost {Req} s'" "wc_cb s' = None" for e s'
    using that dis by (intro wp_sbindI [OF close_socket_own]) (auto simp: andthen_simps)
  let ?attach = "obind (olift (sget ev_fd)) (\<lambda>fd.
      obind (oattempt (wpa_request_ok K fd ''ATTACH'' None)) (\<lambda>r.
      case r of
        Inl e \<Rightarrow>
          obind (detach K) (\<lambda>_.
          olift (sbind (close_socket K Ev) (\<lambda>_. sbind (close_socket K Req) (\<lambda>_. sbind (disarm_timer K) (\<lambda>_. serr e)))))
      | Inr _ \<Rightarrow> olift (smod (\<lambda>s. s\<lparr>wc_cb := h\<rparr>))))"
  let ?ev = "\<lambda>r. case r of
      Inl e \<Rightarrow> olift (sbind (close_socket K Req) (\<lambda>_. sbind (disarm_timer K) (\<lambda>_. serr e)))
    | Inr _ \<Rightarrow> ?attach"
  let ?req = "\<lambda>r. case r of
      Inl e \<Rightarrow> olift (sbind (disarm_timer K) (\<lambda>_. serr e))
    | Inr _ \<Rightarrow> obind (olift (try_open_socket K Ev path)) ?ev"
  have comm: "{Ev, Req} = {Req, Ev}" by auto
  have second: "safe (obind (olift (try_open_socket K Ev path)) ?ev) (all_or_nothing P F lost h) s'"
    if "own P F lost {Req} s'" "wc_cb s' = None" for s'
  proof (rule safe_obindI, unfold safe_simps)
    show "wp (try_open_socket K Ev path) (\<lambda>r s''. wc_cb s'' = wc_cb s' \<and>
        ((\<exists>e. r = Ok (Inl e) \<and> own P F lost {Req} s'') \<or> (r = Ok (Inr ()) \<and> own P F lost (insert Ev {Req}) s''))) s'"
      using that by (intro try_open_socket_own [OF K]) auto
  next
    fix r :: "(errno + unit) result" and s''
    assume "wc_cb s'' = wc_cb s' \<and> ((\<exists>e. r = Ok (Inl e) \<and> own P F lost {Req} s'') \<or> (r = Ok (Inr ()) \<and> own P F lost (insert Ev {Req}) s''))"
    then show "next_safe ?ev (all_or_nothing P F lost h) r s''"
      unfolding comm using that by (elim conjE disjE exE) (simp_all add: next_simps safe_simps(1) req attach_all_or_nothing)
  qed
  have first: "safe (obind (olift (try_open_socket K Req path)) ?req) (all_or_nothing P F lost h) s'"
    if "own P F lost {} s'" "wc_cb s' = None" for s'
  proof (rule safe_obindI, unfold safe_simps)
    show "wp (try_open_socket K Req path) (\<lambda>r s''. wc_cb s'' = wc_cb s' \<and>
        ((\<exists>e. r = Ok (Inl e) \<and> own P F lost {} s'') \<or> (r = Ok (Inr ()) \<and> own P F lost (insert Req {}) s''))) s'"
      using that by (intro try_open_socket_own [OF K]) auto
  next
    fix r :: "(errno + unit) result" and s''
    assume "wc_cb s'' = wc_cb s' \<and> ((\<exists>e. r = Ok (Inl e) \<and> own P F lost {} s'') \<or> (r = Ok (Inr ()) \<and> own P F lost (insert Req {}) s''))"
    then show "next_safe ?req (all_or_nothing P F lost h) r s''"
      using that by (elim conjE disjE exE) (simp_all add: next_simps safe_simps(1) dis second)
  qed
  have "safe (obind (olift (arm_timer K 10000000)) (\<lambda>_. obind (olift (try_open_socket K Req path)) ?req)) (all_or_nothing P F lost h) s"
  proof (rule safe_obindI, unfold safe_simps(1), rule timer_keeps(1) [OF o])
    fix r :: "unit result" and s'
    assume "r \<noteq> Fault \<and> own P F lost {} s' \<and> wc_cb s' = wc_cb s"
    then show "next_safe (\<lambda>_. obind (olift (try_open_socket K Req path)) ?req) (all_or_nothing P F lost h) r s'"
      using first cb by (cases r) (simp_all add: next_simps all_or_nothing_def)
  qed
  then show ?thesis using closed unfolding owfd_wpa_ctrl_open_def
    by (simp add: safe_simps wp_basic next_simps)
qed


lemma open_kept:
  assumes K: "answers_ok K" and i: "wpa_inv P F lost s"
  shows "kept P F lost (owfd_wpa_ctrl_open K path h) s"
proof (cases "owfd_wpa_ctrl_is_open s")
  case False
  show ?thesis
    by (rule safe_mono [OF open_all_or_nothing [OF K]])
      (use inv_closed [OF i False] in \<open>auto simp: all_or_nothing_def wpa_inv_def split: result.splits\<close>)
qed (simp add: owfd_wpa_ctrl_open_def safe_simps wp_basic next_simps i)

lemma request_polled:
  assumes i: "wpa_inv P F lost s"
  shows "safe (owfd_wpa_ctrl_request K cmd cap timeout) (\<lambda>r s'. r \<noteq> Fault \<and> polled s s') s"
    and "safe (owfd_wpa_ctrl_request_ok K cmd timeout) (\<lambda>r s'. r \<noteq> Fault \<and> polled s s') s"
proof -
  have fd: "req_fd s < 0 \<or> req_fd s \<in> open_fds s" using inv_fds [OF i, of Req] by simp
  show request: "safe (owfd_wpa_ctrl_request K cmd cap timeout) (\<lambda>r s'. r \<noteq> Fault \<and> polled s s') s" for cap
    using wpa_request_polled [OF fd] by (auto simp: owfd_wpa_ctrl_request_def lop_simps wp_basic Let_def)
  show "safe (owfd_wpa_ctrl_request_ok K cmd timeout) (\<lambda>r s'. r \<noteq> Fault \<and> polled s s') s"
    unfolding owfd_wpa_ctrl_request_ok_def
    by (rule safe_obindI [OF request]) (auto simp: next_safe_def safe_simps wp_basic split: result.splits)
qed

lemma request_kept:
  assumes i: "wpa_inv P F lost s"
  shows "kept P F lost (owfd_wpa_ctrl_request K cmd cap timeout) s" "kept P F lost (owfd_wpa_ctrl_request_ok K cmd timeout) s"
  using inv_polled i by (blast intro: safe_mono [OF request_polled(1) [OF i]] safe_mono [OF request_polled(2) [OF i]])+

text \<open>A part of the dispatcher that succeeds leaves the channel open.\<close>

definition stays_open :: "(64 word \<Rightarrow> 'z \<Rightarrow> bool) \<Rightarrow> int set \<Rightarrow> bool \<Rightarrow> 'a result \<Rightarrow> 'z wpa_ctrl_scheme \<Rightarrow> bool" where
  "stays_open P F lost r s \<longleftrightarrow> r \<noteq> Fault \<and> wpa_inv P F lost s \<and> (is_ok r \<longrightarrow> owfd_wpa_ctrl_is_open s)"

lemma inv_update [simp]:
  "wpa_inv P F lost (tick K s) = wpa_inv P F lost s" "owfd_wpa_ctrl_is_open (tick K s) = owfd_wpa_ctrl_is_open s"
  by (simp_all add: wpa_inv_def owfd_wpa_ctrl_is_open_def)

lemma read_again_wp:
  assumes "fd \<in> open_fds s" and "\<And>x. (\<forall>bs. x = Some bs \<longrightarrow> length bs \<le> n) \<Longrightarrow> Q (Ok x) (tick K s)" and "\<And>e. Q (Err e) (tick K s)"
  shows "wp (again (sys_read K fd n)) Q s"
  using assms by (auto simp: sys_read_def wp_simps intro!: on_errorI)

lemma read_req_kept:
  assumes "wpa_inv P F lost s" "owfd_wpa_ctrl_is_open s"
  shows "safe (read_req K) (stays_open P F lost) s"
  unfolding read_req_def
proof (rule until_done_safe [where I = "\<lambda>_ s. wpa_inv P F lost s \<and> owfd_wpa_ctrl_is_open s"])
  fix c :: unit and s
  assume i: "wpa_inv P F lost s \<and> owfd_wpa_ctrl_is_open s"
  then have "req_fd s \<in> open_fds s" using inv_req_fd by blast
  then show "safe (read_req_round K c) (round_post (\<lambda>_ s. wpa_inv P F lost s \<and> owfd_wpa_ctrl_is_open s) (stays_open P F lost)) s"
    using i unfolding read_req_round_def safe_simps wp_basic wp_sbind andthen_simps
    by (intro read_again_wp) (auto simp: andthen_simps wp_basic round_post_simps stays_open_def)
qed (use assms in simp)

lemma read_tfd_kept:
  assumes i: "wpa_inv P F lost s" "owfd_wpa_ctrl_is_open s"
  shows "safe (read_tfd K) (stays_open P F lost) s"
proof -
  have fd: "req_fd s < 0 \<or> req_fd s \<in> open_fds s" using inv_req_fd [OF i] by simp
  then have fd': "req_fd (tick K s) < 0 \<or> req_fd (tick K s) \<in> open_fds (tick K s)" by simp
  have ping: "safe (obind (wpa_request K (req_fd s) ''PING'' 10 None) (\<lambda>reply. olift (if reply \<noteq> ''PONG'' @ [LF] then serr ETIMEDOUT else sret ())))
      (stays_open P F lost) (tick K s)"
  proof (rule safe_obindI)
    show "safe (wpa_request K (req_fd s) ''PING'' 10 None) (\<lambda>r s'. r \<noteq> Fault \<and> polled (tick K s) s') (tick K s)"
      using wpa_request_polled [OF fd'] by simp
  next
    fix r :: "char list result" and s'
    assume a: "r \<noteq> Fault \<and> polled (tick K s) s'"
    then have "wpa_inv P F lost s'" "ev_fd s' = ev_fd s" using inv_polled [of "tick K s" s'] i(1) polled_fields(3) [of "tick K s" s'] by simp_all
    then show "next_safe (\<lambda>reply. olift (if reply \<noteq> ''PONG'' @ [LF] then serr ETIMEDOUT else sret ())) (stays_open P F lost) r s'"
      using a i(2) by (cases r) (auto simp: next_simps safe_simps wp_basic stays_open_def owfd_wpa_ctrl_is_open_def)
  qed
  show ?thesis unfolding read_tfd_def safe_simps(1,2) wp_basic next_simps(1)
    by (rule read_again_wp [OF inv_tfd(1) [OF i(1)]])
      (use i ping in \<open>auto simp: next_simps safe_simps(1) wp_basic stays_open_def obind_def olift_def safe_def split: option.split\<close>)
qed

lemma drain_kept:
  assumes "safe m (stays_open P F lost) s" and "wpa_inv P F lost s" "owfd_wpa_ctrl_is_open s"
  shows "safe (drain events m) (stays_open P F lost) s"
  unfolding drain_def
proof (rule safe_obindI)
  show "safe (if events AND EPOLLIN \<noteq> 0 then m else olift (sret ())) (stays_open P F lost) s"
    using assms by (simp add: safe_simps wp_basic stays_open_def)
qed (auto simp: next_safe_def safe_simps wp_simps stays_open_def split: result.splits)

lemma del_timer_inv:
  assumes "wpa_inv P F lost s"
  shows "wp (epoll_del K (wc_tfd s)) (\<lambda>r s'. r \<noteq> Fault \<and> wpa_inv P F lost s') s"
proof -
  have "own P F lost A ((tick K s)\<lparr>interest := (interest s)(wc_tfd s := None)\<rparr>)" if "own P F lost A s" for A
  proof -
    have "(\<lambda>x. sock_fd x s) ` A - {wc_tfd s} = (\<lambda>x. sock_fd x s) ` A" unfolding own_facts(2) [OF that, symmetric] by simp
    then show ?thesis using that unfolding own_def by simp
  qed
  then have "wpa_inv P F lost ((tick K s)\<lparr>interest := (interest s)(wc_tfd s := None)\<rparr>)" using assms by (auto simp: wpa_inv_def)
  then show ?thesis using assms inv_tfd(1) [OF assms] unfolding epoll_del_def by (auto simp: wp_simps intro!: on_errorI)
qed

lemma dispatch_tfd_kept:
  assumes i: "wpa_inv P F lost s" "owfd_wpa_ctrl_is_open s"
  shows "safe (dispatch_tfd K events) (stays_open P F lost) s"
proof -
  have "safe (if events AND (EPOLLHUP OR EPOLLERR) \<noteq> 0 then olift (serr EFAULT)
      else if events AND EPOLLIN \<noteq> 0 then read_tfd K else olift (sret ())) (stays_open P F lost) s"
    using i read_tfd_kept [OF i] by (simp add: safe_simps wp_basic stays_open_def)
  moreover have "wp (sbind (attempt (epoll_del K (wc_tfd s))) (\<lambda>_. serr e)) (stays_open P F lost) s"
    if "wpa_inv P F lost s" for e s
    unfolding wp_sbind wp_attempt
    by (rule wp_mono [OF del_timer_inv [OF that]]) (auto simp: andthen_simps wp_basic stays_open_def split: result.splits)
  ultimately show ?thesis unfolding dispatch_tfd_def safe_simps(2,3)
    by (auto elim!: safe_mono simp: next_simps safe_simps(1) wp_basic wp_sbind [of "sget _"] andthen_simps stays_open_def split: result.splits)
qed

subsection \<open>Callbacks\<close>

text \<open>
  The contract of a client: its callback keeps what the channel owns, and \<open>P\<close>, which may speak about the state of
  the client. The channel promises not to give it more than its buffer holds. Then dispatching keeps it, too.
\<close>

locale wpa_client =
  fixes K :: answers and H :: "'z wpa_handlers" and P :: "64 word \<Rightarrow> 'z \<Rightarrow> bool" and F :: "int set" and lost :: bool
  assumes callback: "answers_ok K \<Longrightarrow> wpa_inv P F lost s \<Longrightarrow> length buf \<le> REQ_REPLY_MAX \<Longrightarrow> kept P F lost (H h buf) s"
begin

lemma call_back_kept:
  assumes K: "answers_ok K" and i: "wpa_inv P F lost s" and len: "length buf \<le> REQ_REPLY_MAX"
  shows "kept P F lost (wpa_call_back H buf) s"
proof (cases "wc_cb s")
  case (Some h)
  have "wpa_inv P F lost (s\<lparr>wc_seen := wc_seen s @ [(h, buf)]\<rparr>)" using i by (simp add: wpa_inv_def)
  from callback [OF K this len] show ?thesis by (simp add: safe_def wpa_call_back_def Some)
qed (simp add: safe_def wpa_call_back_def i)

lemma read_ev_round_kept:
  assumes K: "answers_ok K" and i: "wpa_inv P F lost s" "owfd_wpa_ctrl_is_open s"
  shows "safe (read_ev_round K H c) (round_post (\<lambda>_ s'. wpa_inv P F lost s' \<and> owfd_wpa_ctrl_is_open s') (stays_open P F lost)) s"
proof -
  let ?Q = "round_post (\<lambda>_ s'. wpa_inv P F lost s' \<and> owfd_wpa_ctrl_is_open s') (stays_open P F lost)"
  let ?check = "\<lambda>_. olift (sbind (sget owfd_wpa_ctrl_is_open) (\<lambda>opened. if \<not> opened then serr ENODEV else sret (False, ())))"
  have i': "wpa_inv P F lost (tick K s)" "owfd_wpa_ctrl_is_open (tick K s)" using i by simp_all
  have called: "safe (obind (if hd bs = CHR ''<'' then wpa_call_back H bs else olift (sret ())) ?check) ?Q (tick K s)"
    if "length bs \<le> REQ_REPLY_MAX" for bs
  proof (rule safe_obindI)
    show "kept P F lost (if hd bs = CHR ''<'' then wpa_call_back H bs else olift (sret ())) (tick K s)"
      using call_back_kept [OF K i'(1) that] i' by (simp add: safe_simps wp_basic)
  qed (auto simp: next_safe_def safe_simps wp_simps stays_open_def split: result.splits)
  have got: "safe (if bs = [] then olift (sret (True, ())) else
      obind (if hd bs = CHR ''<'' then wpa_call_back H bs else olift (sret ())) ?check) ?Q (tick K s)"
    if "length bs \<le> REQ_REPLY_MAX" for bs
    using called [OF that] i by (cases "bs = []") (simp_all add: safe_simps(1) wp_basic round_post_simps stays_open_def split del: if_split)
  have fd: "ev_fd s \<in> open_fds s" using inv_req_fd [OF i] by simp
  show ?thesis unfolding read_ev_round_def safe_simps(1,2) wp_basic next_simps(1)
    by (rule read_again_wp [OF fd])
      (auto simp: next_simps safe_simps(1) wp_basic round_post_simps stays_open_def i got split: option.split split del: if_split)
qed


lemma read_ev_kept:
  assumes K: "answers_ok K" and "wpa_inv P F lost s" "owfd_wpa_ctrl_is_open s"
  shows "safe (read_ev K H) (stays_open P F lost) s"
  unfolding read_ev_def
  by (rule until_done_safe [where I = "\<lambda>_ s. wpa_inv P F lost s \<and> owfd_wpa_ctrl_is_open s"]) (use assms in \<open>auto intro!: read_ev_round_kept\<close>)

lemma dispatch_event_kept:
  assumes K: "answers_ok K" and i: "wpa_inv P F lost s" "owfd_wpa_ctrl_is_open s"
  shows "safe (dispatch_event K H e) (stays_open P F lost) s"
  by (cases "(K, H, e)" rule: dispatch_event.cases)
    (simp_all add: dispatch_ev_def dispatch_req_def drain_kept read_ev_kept [OF K] read_req_kept dispatch_tfd_kept i)

lemma dispatch_events_kept:
  assumes K: "answers_ok K"
  shows "wpa_inv P F lost s \<Longrightarrow> owfd_wpa_ctrl_is_open s \<Longrightarrow> kept P F lost (dispatch_events K H es) s"
proof (induction es arbitrary: s)
  case (Cons e es)
  show ?case unfolding dispatch_events.simps
    by (rule safe_obindI [OF dispatch_event_kept [OF K Cons.prems]]) (auto simp: next_safe_def stays_open_def Cons.IH split: result.splits)
qed (simp add: safe_simps wp_basic)

lemma dispatch_kept:
  assumes K: "answers_ok K" and i: "wpa_inv P F lost s"
  shows "kept P F lost (owfd_wpa_ctrl_dispatch K H) s"
proof (cases "owfd_wpa_ctrl_is_open s")
  case True
  have "kept P F lost (dispatch_events K H es) (tick K s)" for es
    using i True by (intro dispatch_events_kept [OF K]) simp_all
  then show ?thesis
    using i True inv_tfd(2) [OF i] unfolding owfd_wpa_ctrl_dispatch_def epoll_wait_def
    by (auto simp: lop_simps wp_simps intro!: on_errorI)
qed (simp add: owfd_wpa_ctrl_dispatch_def lop_simps wp_basic i)


end

subsection \<open>Scripted clients\<close>

text \<open>The client of the following runs: its callback is a list of calls, chosen from the state.\<close>

text \<open>The calls a client makes, also in its callback.\<close>

datatype wpa_call =
    Disconnects
  | Connects "char list" nat
  | Requests "char list" nat int
  | Requests_ok "char list" int

type_synonym wpa_script = "nat \<Rightarrow> char list \<Rightarrow> wpa_ctrl \<Rightarrow> wpa_call list"

text \<open>The outcome of a call that the client makes in its callback does not matter to the channel.\<close>

fun wpa_client_call :: "answers \<Rightarrow> wpa_call \<Rightarrow> (wpa_ctrl, unit) lop" where
  "wpa_client_call K Disconnects = owfd_wpa_ctrl_close K"
| "wpa_client_call K (Connects path h) = owfd_wpa_ctrl_open K path (Some h)"
| "wpa_client_call K (Requests cmd cap timeout) = obind (owfd_wpa_ctrl_request K cmd cap timeout) (\<lambda>_. olift (sret ()))"
| "wpa_client_call K (Requests_ok cmd timeout) = owfd_wpa_ctrl_request_ok K cmd timeout"

fun wpa_client_calls :: "answers \<Rightarrow> wpa_call list \<Rightarrow> (wpa_ctrl, unit) lop" where
  "wpa_client_calls K [] = olift (sret ())"
| "wpa_client_calls K (c # cs) = obind (oattempt (wpa_client_call K c)) (\<lambda>_. wpa_client_calls K cs)"

definition scripted :: "answers \<Rightarrow> wpa_script \<Rightarrow> nat \<Rightarrow> char list \<Rightarrow> (wpa_ctrl, unit) lop" where
  "scripted K C h buf s = wpa_client_calls K (C h buf s) s"

lemma client_call_kept:
  assumes K: "answers_ok K" and i: "wpa_inv P F lost s"
  shows "kept P F lost (wpa_client_call K c) s"
proof (cases c)
  case Disconnects
  then show ?thesis using safe_mono [OF close_kept [OF i]] by (auto simp: wpa_inv_def)
next
  case (Requests cmd cap timeout)
  show ?thesis unfolding Requests wpa_client_call.simps
    by (rule safe_obindI [OF request_kept(1) [OF i]]) (auto simp: next_safe_def safe_simps wp_basic split: result.splits)
qed (simp_all add: open_kept [OF K i] request_kept(2) [OF i])

lemma client_calls_kept:
  assumes K: "answers_ok K"
  shows "wpa_inv P F lost s \<Longrightarrow> kept P F lost (wpa_client_calls K cs) s"
proof (induction cs arbitrary: s)
  case (Cons c cs)
  show ?case unfolding wpa_client_calls.simps safe_simps
    by (rule safe_mono [OF client_call_kept [OF K Cons.prems]]) (auto simp: next_simps Cons.IH split: result.splits)
qed (simp add: safe_simps wp_basic)

interpretation wpa_script: wpa_client K "scripted K C" P F lost for K C P F lost
  by unfold_locales (auto simp: scripted_def safe_def dest: client_calls_kept [unfolded safe_def])

subsection \<open>Runs\<close>

text \<open>
  The life of a channel: calls of the client, dispatches, changes of its data and signal mask, references taken and dropped. Nothing
  may be called when the last reference is gone, and nobody holds \<open>2 ^ 64\<close> references. \<open>None\<close> is a run with an operation that does
  not return.
\<close>

datatype wpa_event = Client wpa_call | Dispatch | Set_data nat | Set_sigmask nat | Ref | Unref

fun wpa_op :: "answers \<Rightarrow> wpa_script \<Rightarrow> wpa_event \<Rightarrow> (wpa_ctrl, unit) lop" where
  "wpa_op K C (Client c) = wpa_client_call K c"
| "wpa_op K C Dispatch = owfd_wpa_ctrl_dispatch K (scripted K C)"
| "wpa_op K C (Set_data d) = olift (owfd_wpa_ctrl_set_data d)"
| "wpa_op K C (Set_sigmask m) = olift (owfd_wpa_ctrl_set_sigmask m)"
| "wpa_op K C Ref = olift owfd_wpa_ctrl_ref"
| "wpa_op K C Unref = owfd_wpa_ctrl_unref K"

definition wpa_allowed :: "wpa_ctrl \<Rightarrow> wpa_event \<Rightarrow> bool" where
  "wpa_allowed s e \<longleftrightarrow> wc_ref s \<noteq> 0 \<and> (e = Ref \<longrightarrow> wc_ref s \<noteq> - 1)"

definition wpa_step :: "answers \<Rightarrow> wpa_script \<Rightarrow> wpa_ctrl option \<Rightarrow> wpa_event \<Rightarrow> wpa_ctrl option" where
  "wpa_step K C r e = (case r of None \<Rightarrow> None | Some s \<Rightarrow> if wpa_allowed s e then map_option fst (wpa_op K C e s) else Some s)"

abbreviation ref_is :: "64 word \<Rightarrow> 64 word \<Rightarrow> unit \<Rightarrow> bool" where
  "ref_is n \<equiv> \<lambda>r _. r = n"

text \<open>A channel that is gone has closed and removed what it owned.\<close>

definition wpa_alive :: "int set \<Rightarrow> bool \<Rightarrow> wpa_ctrl \<Rightarrow> bool" where
  "wpa_alive F lost s \<longleftrightarrow> (if wc_ref s = 0 then open_fds s = F \<and> bound s = {} else wpa_inv (ref_is (wc_ref s)) F lost s)"

lemma inv_ref: "wpa_inv (ref_is n0) F lost s \<Longrightarrow> wc_ref s = n0"
  by (auto simp: wpa_inv_def own_def)

lemma inv_alive: "wpa_inv (ref_is n0) F lost s \<Longrightarrow> n0 \<noteq> 0 \<Longrightarrow> wpa_alive F lost s"
  using inv_ref [of n0 F lost s] by (simp add: wpa_alive_def)

lemma own_set_ref: "own (ref_is n0) F lost A s \<Longrightarrow> own (ref_is n) F lost A (s\<lparr>wc_ref := n\<rparr>)"
  by (simp add: own_def)

lemma inv_set_ref: "wpa_inv (ref_is n0) F lost s \<Longrightarrow> wpa_inv (ref_is n) F lost (s\<lparr>wc_ref := n\<rparr>)"
  using own_set_ref [of n0 F lost _ s n] by (auto simp: wpa_inv_def)

lemma unref_alive:
  assumes i: "wpa_inv (ref_is n0) F lost s" and n0: "n0 \<noteq> 0"
  shows "safe (owfd_wpa_ctrl_unref K) (\<lambda>r s'. r \<noteq> Fault \<and> wpa_alive F lost s') s"
proof (cases "n0 = 1")
  case True
  have gone: "wp (sbind (sget wc_tfd) (\<lambda>tfd. sbind (sys_close tfd) (\<lambda>_. sbind (sget wc_efd) sys_close)))
      (\<lambda>r s'. r \<noteq> Fault \<and> wpa_alive F lost s') s'" if "own (ref_is 0) F lost {} s'" for s'
    using that by (auto simp: wp_simps wpa_alive_def own_def)
  have "safe (owfd_wpa_ctrl_close K) (next_safe (\<lambda>_. olift (sbind (sget wc_tfd) (\<lambda>tfd. sbind (sys_close tfd) (\<lambda>_. sbind (sget wc_efd) sys_close))))
      (\<lambda>r s'. r \<noteq> Fault \<and> wpa_alive F lost s')) (s\<lparr>wc_ref := 0\<rparr>)"
    by (rule safe_mono [OF close_kept [OF inv_set_ref [OF i]]]) (simp add: next_simps safe_simps(1) gone)
  then show ?thesis using inv_ref [OF i] True by (simp add: owfd_wpa_ctrl_unref_def safe_simps wp_basic next_simps)
next
  case False
  then have "n0 - 1 \<noteq> 0" by simp
  then show ?thesis using inv_ref [OF i] n0 inv_alive [OF inv_set_ref [OF i], of "n0 - 1"]
    by (simp add: owfd_wpa_ctrl_unref_def safe_simps wp_basic next_simps)
qed

lemma wpa_op_alive:
  assumes K: "answers_ok K" and s: "wpa_alive F lost s" and e: "wpa_allowed s e"
  shows "safe (wpa_op K C e) (\<lambda>r s'. r \<noteq> Fault \<and> wpa_alive F lost s') s"
proof -
  have P: "wc_ref s \<noteq> 0" and i: "wpa_inv (ref_is (wc_ref s)) F lost s" using s e by (auto simp: wpa_alive_def wpa_allowed_def)
  have alive: "safe f (\<lambda>r s'. r \<noteq> Fault \<and> wpa_alive F lost s') s" if "kept (ref_is (wc_ref s)) F lost f s" for f :: "(wpa_ctrl, unit) lop"
    by (rule safe_mono [OF that]) (use inv_alive P in blast)
  have set: "wpa_alive F lost (s\<lparr>wc_data := d\<rparr>)" "wpa_alive F lost (s\<lparr>wc_mask := d\<rparr>)" for d
    using s by (auto simp: wpa_alive_def wpa_inv_def)
  show ?thesis
  proof (cases e)
    case Ref
    then have "wc_ref s + 1 \<noteq> 0" using e by (auto simp: wpa_allowed_def) (metis add.commute eq_neg_iff_add_eq_0)
    then have "wpa_alive F lost (s\<lparr>wc_ref := wc_ref s + 1\<rparr>)" using inv_alive [OF inv_set_ref [OF i]] by blast
    then show ?thesis using Ref P by (simp add: owfd_wpa_ctrl_ref_def safe_simps wp_simps)
  qed (use alive [OF client_call_kept [OF K i]] alive [OF wpa_script.dispatch_kept [OF K i]] unref_alive [OF i P] set in
      \<open>simp_all add: owfd_wpa_ctrl_set_data_def owfd_wpa_ctrl_set_sigmask_def safe_simps wp_basic\<close>)
qed

lemma wpa_step_alive:
  assumes "\<And>s. r = Some s \<Longrightarrow> wpa_alive F lost s" and "answers_ok K" and "wpa_step K C r e = Some s'"
  shows "wpa_alive F lost s'"
proof (cases r)
  case (Some s)
  show ?thesis
  proof (cases "wpa_allowed s e")
    case True
    from wpa_op_alive [OF assms(2) assms(1) [OF Some] True] obtain r' where "wpa_op K C e s = Some (s', r')" "wpa_alive F lost s'"
      using assms(3) True Some by (auto simp: wpa_step_def safe_iff)
    then show ?thesis by simp
  qed (use assms Some in \<open>simp add: wpa_step_def\<close>)
qed (use assms in \<open>simp add: wpa_step_def\<close>)

interpretation wpa_run: stepper "wpa_step K C" "\<lambda>_. answers_ok K" "\<lambda>r. case r of None \<Rightarrow> True | Some s \<Rightarrow> wpa_alive F lost s" for K C F lost
  by unfold_locales (auto intro: wpa_step_alive split: option.splits)

lemma wpa_run_alive:
  assumes "answers_ok K" and "wpa_alive F lost s" and "foldl (wpa_step K C) (Some s) es = Some s'"
  shows "wpa_alive F lost s'"
  using wpa_run.run_inv [of F lost "Some s" K es C] assms by (simp add: list_all_iff)

lemma wpa_new_alive:
  assumes new: "owfd_wpa_ctrl_new K mem k = (k', Ok s)" and k: "\<forall>fd\<in>open_fds k. fd < next_fd k" "0 \<le> next_fd k" "interest k = Map.empty"
  shows "wpa_alive (open_fds k) False s"
proof -
  have mem: mem using new by (cases mem) (simp_all add: owfd_wpa_ctrl_new_def)
  let ?create = "sbind (sys_open K) (\<lambda>efd. close_on_error efd (sbind (sys_open K) (\<lambda>tfd.
      close_on_error tfd (sbind (epoll_add K tfd WATCH) (\<lambda>_. sret (efd, tfd))))))"
  have "wp ?create (\<lambda>r s'. \<forall>efd tfd. r = Ok (efd, tfd) \<longrightarrow> efd = next_fd k \<and> tfd = next_fd k + 1 \<and> next_fd s' = next_fd k + 2 \<and>
      open_fds s' = {next_fd k + 1, next_fd k} \<union> open_fds k \<and> interest s' = [next_fd k + 1 \<mapsto> WATCH]) k"
    using k by (cases "a_err (K (calls k))"; cases "a_err (K (calls k + 1))"; cases "a_err (K (calls k + 2))")
      (simp_all add: wp_close_on_error epoll_add_def wp_simps insert_commute)
  moreover obtain k1 r where c: "?create k = (k1, r)" by fastforce
  ultimately have made: "r = Ok (efd, tfd) \<Longrightarrow> efd = next_fd k \<and> tfd = next_fd k + 1 \<and> next_fd k1 = next_fd k + 2 \<and>
      open_fds k1 = {next_fd k + 1, next_fd k} \<union> open_fds k \<and> interest k1 = [next_fd k + 1 \<mapsto> WATCH]" for efd tfd
    by (simp add: wp_iff)
  obtain efd tfd where r: "r = Ok (efd, tfd)" using new by (cases r) (auto simp: owfd_wpa_ctrl_new_def mem c)
  have s: "s = kernel.extend k1 \<lparr>wc_ref = 1, wc_data = 0, wc_mask = 0, wc_efd = efd, wc_tfd = tfd, req_fd = - 1, req_name = [],
      ev_fd = - 1, ev_name = [], wc_cb = None, wc_timer = (0, 0), bound = {}, wc_seen = [], wc_sent = []\<rparr>"
    using new by (auto simp: owfd_wpa_ctrl_new_def mem c r)
  have fields: "wc_ref s = 1" "wc_efd s = next_fd k" "wc_tfd s = next_fd k + 1" "next_fd s = next_fd k + 2" "bound s = {}" "wc_cb s = None"
      "open_fds s = {next_fd k + 1, next_fd k} \<union> open_fds k" "interest s = [next_fd k + 1 \<mapsto> WATCH]"
    using made [OF r] by (simp_all add: s kernel.defs)
  have fd: "sock_fd x s = - 1" for x by (cases x) (simp_all add: s kernel.defs)
  have "own (ref_is 1) (open_fds k) False {} s" using k unfolding own_def fields fd by auto
  then show ?thesis by (simp add: wpa_alive_def wpa_inv_def fields)
qed

text \<open>
  C6: The channel to wpa_supplicant never loses or misuses a descriptor or a socket file. From its creation, through any sequence of
  client calls, dispatches and reference changes, for every behaviour of the kernel, of the peer and of the callbacks, no
  operation faults: none uses or closes a descriptor that is not open. A closed channel has only its epoll instance and its timer, no
  file and no callback; an open one has two sockets as well, which are watched, and no files but theirs; when the last reference is
  dropped everything is closed and removed.
\<close>

theorem wpa_ctrl_run_invariant:
  assumes "owfd_wpa_ctrl_new K mem k = (k', Ok s0)" and "\<forall>fd\<in>open_fds k. fd < next_fd k" and "0 \<le> next_fd k"
    and "interest k = Map.empty" and "answers_ok K" and "foldl (wpa_step K C) (Some s0) es = Some s"
  shows "(if wc_ref s = 0 then open_fds s = open_fds k \<and> bound s = {}
      else if owfd_wpa_ctrl_is_open s then
        open_fds s = {req_fd s, ev_fd s, wc_efd s, wc_tfd s} \<union> open_fds k \<and> dom (interest s) - {wc_tfd s} = {req_fd s, ev_fd s} \<and>
        req_fd s \<noteq> ev_fd s \<and> bound s \<subseteq> {req_name s, ev_name s}
      else open_fds s = {wc_efd s, wc_tfd s} \<union> open_fds k \<and> dom (interest s) - {wc_tfd s} = {} \<and> bound s = {} \<and> wc_cb s = None) \<and>
    (wpa_allowed s e \<longrightarrow> wpa_op K C e s = Some (s', r) \<longrightarrow> r \<noteq> Fault)"
proof -
  have a: "wpa_alive (open_fds k) False s" using wpa_run_alive [OF assms(5) wpa_new_alive [OF assms(1-4)] assms(6)] .
  have closed: ?thesis if "wc_ref s \<noteq> 0" "\<not> owfd_wpa_ctrl_is_open s"
  proof -
    have "own (ref_is (wc_ref s)) (open_fds k) False {} s \<and> wc_cb s = None" using a that inv_closed by (auto simp: wpa_alive_def)
    with wpa_op_alive [OF assms(5) a, of e C] that show ?thesis by (auto simp: own_def safe_def)
  qed
  have opened: ?thesis if "wc_ref s \<noteq> 0" "owfd_wpa_ctrl_is_open s"
  proof -
    have o: "own (ref_is (wc_ref s)) (open_fds k) False {Req, Ev} s" using a that inv_open by (auto simp: wpa_alive_def)
    then have "req_fd s \<noteq> ev_fd s" by (auto simp: own_def)
    with own_facts [OF o] wpa_op_alive [OF assms(5) a, of e C] that show ?thesis by (auto simp: safe_def)
  qed
  show ?thesis using a closed opened by (auto simp: wpa_alive_def wpa_allowed_def)
qed


text \<open>A kernel and a peer for which every call succeeds and every request is granted.\<close>

definition granted :: answer where
  "granted = \<lparr>a_err = None, a_alloc = demo_alloc, a_bytes = ''OK'' @ [LF], a_num = 6, a_events = [(0, EPOLLOUT)], a_time = 10, a_wait = 0\<rparr>"

lemma granted_fields:
  "a_err granted = None" "a_bytes granted = ''OK'' @ [LF]" "a_num granted = 6" "a_events granted = [(0, EPOLLOUT)]" "a_time granted = 10"
  "a_wait granted = 0"
  by (simp_all add: granted_def)

lemma granted_ok: "answers_ok (\<lambda>_. granted)"
  by (simp add: answers_ok_def granted_def demo_alloc_ok)

definition wpa_kernel :: kernel where
  "wpa_kernel = \<lparr>calls = 0, now_us = 0, next_fd = 3, open_fds = {0, 1, 2}, interest = Map.empty\<rparr>"

definition wpa_fresh :: wpa_ctrl where
  "wpa_fresh = (case snd (owfd_wpa_ctrl_new (\<lambda>_. granted) True wpa_kernel) of Ok s \<Rightarrow> s)"

lemma wpa_fresh_new: "owfd_wpa_ctrl_new (\<lambda>_. granted) True wpa_kernel =
    (fst (owfd_wpa_ctrl_new (\<lambda>_. granted) True wpa_kernel), Ok wpa_fresh)"
  by (simp add: owfd_wpa_ctrl_new_def wpa_fresh_def sys_open_def sys_def sys_call_def sbind_def granted_def close_on_error_def
    attempt_def epoll_add_def sys_use_def wpa_kernel_def tick_def)

lemmas channel_defs = owfd_wpa_ctrl_open_def owfd_wpa_ctrl_close_def owfd_wpa_ctrl_unref_def owfd_wpa_ctrl_is_open_def arm_timer_def
  disarm_timer_def try_open_socket_def open_socket_def bind_socket_def connect_socket_def sun_path_def close_socket_def sys_unlink_def
  epoll_add_def epoll_del_def wp_close_on_error wp_unlink_on_error detach_def

lemmas request_defs = send_round_def recv_round_def sys_write_def sys_read_def

lemma wpa_fresh_eq: "wpa_fresh = \<lparr>calls = 3, now_us = 30, next_fd = 5, open_fds = {0, 1, 2, 3, 4}, interest = [4 \<mapsto> WATCH],
    wc_ref = 1, wc_data = 0, wc_mask = 0, wc_efd = 3, wc_tfd = 4, req_fd = - 1, req_name = [],
    ev_fd = - 1, ev_name = [], wc_cb = None, wc_timer = (0, 0), bound = {}, wc_seen = [], wc_sent = []\<rparr>"
  by (auto simp: owfd_wpa_ctrl_new_def wpa_fresh_def sys_open_def sys_def sys_call_def sbind_def granted_def close_on_error_def
    attempt_def epoll_add_def sys_use_def wpa_kernel_def tick_def kernel.defs)

lemma granted_send:
  assumes "fd \<in> open_fds s" and "cmd \<noteq> []"
  shows "\<exists>t'. ends (timed_send (\<lambda>_. granted) fd cmd t) Q s = Q (Ok (t', ())) ((tick (\<lambda>_. granted) (tick (\<lambda>_. granted) s))\<lparr>wc_sent := wc_sent s @ [(fd, take 6 cmd)]\<rparr>)"
  unfolding timed_send_def ends_simps wp_simps next_simps
  by (subst until_done_unroll) (use assms in \<open>auto simp: request_defs lop_simps wp_simps granted_def Let_def tick_def min_def\<close>)

lemma granted_recv:
  assumes "fd \<in> open_fds s" and "0 < cap"
  shows "\<exists>t'. ends (timed_recv (\<lambda>_. granted) fd cap t) Q s = Q (Ok (t', take cap (''OK'' @ [LF]))) (tick (\<lambda>_. granted) (tick (\<lambda>_. granted) s))"
  unfolding timed_recv_def ends_simps wp_simps next_simps
  by (subst until_done_unroll) (use assms in \<open>auto simp: request_defs lop_simps wp_simps granted_def Let_def tick_def hd_take\<close>)

lemma granted_request:
  assumes "fd \<in> open_fds s" and "0 \<le> fd" and "cmd \<noteq> []" and "0 < cap"
  shows "ends (wpa_request (\<lambda>_. granted) fd cmd cap t) Q s =
    Q (Ok (take cap (''OK'' @ [LF])))
      (tick (\<lambda>_. granted) (tick (\<lambda>_. granted) ((tick (\<lambda>_. granted) (tick (\<lambda>_. granted) s))\<lparr>wc_sent := wc_sent s @ [(fd, take 6 cmd)]\<rparr>)))"
proof -
  let ?t = "let t = (case t of None \<Rightarrow> - 1 | Some t \<Rightarrow> t) in (if t < 0 \<or> t > 10 * 1000 * 1000 then 10 * 1000 * 1000 else t)"
  let ?s = "(tick (\<lambda>_. granted) (tick (\<lambda>_. granted) s))\<lparr>wc_sent := wc_sent s @ [(fd, take 6 cmd)]\<rparr>"
  let ?recv = "\<lambda>c :: int \<times> unit. obind (timed_recv (\<lambda>_. granted) fd cap (fst c)) (\<lambda>c. olift (sret (snd c)))"
  let ?ret = "\<lambda>c :: int \<times> char list. olift (sret (snd c))"
  have fd: "fd \<in> open_fds ?s" using assms(1) by simp
  have "ends (wpa_request (\<lambda>_. granted) fd cmd cap t) Q s = ends (timed_send (\<lambda>_. granted) fd cmd ?t) (next_ends ?recv Q) s"
    using assms(2) by (simp add: wpa_request_def ends_simps Let_def)
  moreover obtain t1 where "ends (timed_send (\<lambda>_. granted) fd cmd ?t) (next_ends ?recv Q) s = next_ends ?recv Q (Ok (t1, ())) ?s"
    using granted_send [OF assms(1,3), of ?t "next_ends ?recv Q"] by blast
  moreover obtain t2 where "ends (timed_recv (\<lambda>_. granted) fd cap t1) (next_ends ?ret Q) ?s =
      next_ends ?ret Q (Ok (t2, take cap (''OK'' @ [LF]))) (tick (\<lambda>_. granted) (tick (\<lambda>_. granted) ?s))"
    using granted_recv [OF fd assms(4), of t1 "next_ends ?ret Q"] by blast
  ultimately show ?thesis by (simp add: next_simps ends_simps wp_basic)
qed

text \<open>Runs as evaluations.\<close>

lemma wpa_step_ends:
  "wpa_allowed s e \<Longrightarrow> ends (wpa_op K C e) (\<lambda>_ s'. P (Some s')) s \<Longrightarrow> P (wpa_step K C (Some s) e)"
  by (auto simp: wpa_step_def ends_iff)

theorem wpa_ctrl_run_invariant_witness:
  "\<exists>s. foldl (wpa_step (\<lambda>_. granted) (\<lambda>_ _ _. [])) (Some wpa_fresh) [Client (Connects ''/run/wpa'' 1), Unref] = Some s \<and>
    open_fds s = {0, 1, 2} \<and> bound s = {}"
proof -
  let ?r = "foldl (wpa_step (\<lambda>_. granted) (\<lambda>_ _ _. [])) (Some wpa_fresh) [Client (Connects ''/run/wpa'' 1), Unref]"
  have "\<exists>s. ?r = Some s \<and> wc_ref s = 0"
    unfolding foldl_Cons foldl_Nil
  proof (rule wpa_step_ends [where P = "\<lambda>r. \<exists>s. wpa_step _ _ r _ = Some s \<and> wc_ref s = 0"])
    have "ends (wpa_op (\<lambda>_. granted) (\<lambda>_ _ _. []) (Client (Connects ''/run/wpa'' 1))) (\<lambda>r s. ends (owfd_wpa_ctrl_unref (\<lambda>_. granted)) (\<lambda>r s. wc_ref s = 0) s \<and> wc_ref s \<noteq> 0) wpa_fresh"
      by (simp add: wpa_fresh_eq channel_defs granted_request wpa_request_ok_def lop_simps wp_simps granted_fields tick_def Let_def eval_nat_numeral)
    then show "ends (wpa_op (\<lambda>_. granted) (\<lambda>_ _ _. []) (Client (Connects ''/run/wpa'' 1)))
        (\<lambda>_ s'. \<exists>s. wpa_step (\<lambda>_. granted) (\<lambda>_ _ _. []) (Some s') Unref = Some s \<and> wc_ref s = 0) wpa_fresh"
      by (rule ends_mono) (auto simp: wpa_step_def wpa_allowed_def ends_iff)
  qed (simp add: wpa_allowed_def wpa_fresh_eq)
  then obtain s where s: "?r = Some s" "wc_ref s = 0" by blast
  with wpa_ctrl_run_invariant [OF wpa_fresh_new _ _ _ granted_ok s(1)] show ?thesis by (simp add: wpa_kernel_def)
qed

text \<open>
  C10: Opening is all or nothing. An opening that succeeds leaves a channel with two watched sockets and the callback; one that
  fails, for whatever reason and after however many of its steps, reports the error and leaves the channel closed: no socket, no file and no callback.
\<close>

theorem wpa_ctrl_open_atomic:
  assumes "answers_ok K" and "wpa_inv P F lost s" and "\<not> owfd_wpa_ctrl_is_open s"
    and "owfd_wpa_ctrl_open K path h s = Some (s', r)"
  shows "r = Ok () \<and> owfd_wpa_ctrl_is_open s' \<and> wc_cb s' = h \<and> open_fds s' = {req_fd s', ev_fd s', wc_efd s', wc_tfd s'} \<union> F \<and>
      dom (interest s') - {wc_tfd s'} = {req_fd s', ev_fd s'} \<or>
    (\<exists>e. r = Err e \<and> \<not> owfd_wpa_ctrl_is_open s' \<and> wc_cb s' = None \<and> open_fds s' = {wc_efd s', wc_tfd s'} \<union> F \<and>
      dom (interest s') - {wc_tfd s'} = {} \<and> bound s' = {})"
proof -
  have a: "all_or_nothing P F lost h r s'"
    using open_all_or_nothing [OF assms(1), of P F lost s path h] inv_closed [OF assms(2,3)] assms(4) by (simp add: safe_def)
  show ?thesis
  proof (cases r)
    case (Ok x)
    then have o: "own P F lost {Req, Ev} s'" "wc_cb s' = h" using a by (simp_all add: all_or_nothing_def)
    with own_sign [OF o(1), of Ev] own_facts [OF o(1)] Ok show ?thesis by (auto simp: owfd_wpa_ctrl_is_open_def)
  next
    case (Err e)
    then have o: "own P F lost {} s'" "wc_cb s' = None" using a by (simp_all add: all_or_nothing_def)
    with own_sign [OF o(1), of Ev] own_facts [OF o(1)] Err show ?thesis by (auto simp: owfd_wpa_ctrl_is_open_def)
  qed (use a in \<open>simp add: all_or_nothing_def\<close>)
qed


lemma wpa_fresh_inv: "wpa_inv (ref_is 1) {0, 1, 2} False wpa_fresh"
proof -
  have "wpa_alive {0, 1, 2} False wpa_fresh" using wpa_new_alive [OF wpa_fresh_new] by (simp add: wpa_kernel_def)
  then show ?thesis by (simp add: wpa_alive_def wpa_fresh_eq)
qed

theorem wpa_ctrl_open_atomic_witness:
  "\<exists>s'. owfd_wpa_ctrl_open (\<lambda>_. granted) ''/run/wpa'' (Some 1) wpa_fresh = Some (s', Ok ()) \<and> wc_cb s' = Some 1 \<and>
    dom (interest s') - {wc_tfd s'} = {req_fd s', ev_fd s'}"
proof -
  have "ends (owfd_wpa_ctrl_open (\<lambda>_. granted) ''/run/wpa'' (Some 1)) (\<lambda>r s. r = Ok ()) wpa_fresh"
    by (simp add: wpa_fresh_eq channel_defs granted_request wpa_request_ok_def lop_simps wp_simps granted_fields tick_def Let_def eval_nat_numeral)
  then obtain s' where s': "owfd_wpa_ctrl_open (\<lambda>_. granted) ''/run/wpa'' (Some 1) wpa_fresh = Some (s', Ok ())" by (auto simp: ends_iff)
  have "\<not> owfd_wpa_ctrl_is_open wpa_fresh" by (simp add: owfd_wpa_ctrl_is_open_def wpa_fresh_eq)
  from wpa_ctrl_open_atomic [OF granted_ok wpa_fresh_inv this s'] s' show ?thesis by auto
qed

end
