(* ===== verification/Wpa_Ctrl_Time.thy ===== *)
theory Wpa_Ctrl_Time
  imports Wpa_Ctrl_Correct
begin

text \<open>
  The time that requests take, what they send and receive, and what becomes of the ping timer.
\<close>

unbundle bit_operations_syntax

subsection \<open>The time a request takes\<close>

text \<open>
  What holds between the rounds of a request: \<open>start\<close> is when it began, \<open>T\<close> its timeout and \<open>t\<close> what is left of it. Every system call
  takes some time, at most \<open>D\<close> besides waiting.
\<close>

definition in_time :: "nat \<Rightarrow> int \<Rightarrow> 'z wpa_ctrl_scheme \<Rightarrow> int \<Rightarrow> int \<Rightarrow> int \<Rightarrow> 'z wpa_ctrl_scheme \<Rightarrow> bool" where
  "in_time D fd s0 start T t s \<longleftrightarrow>
     polled s0 s \<and> fd \<in> open_fds s \<and> 0 \<le> t \<and> t \<le> T \<and> start \<le> int (now_us s) \<and> int (now_us s) + t \<le> start + T"

definition over_by :: "nat \<Rightarrow> int \<Rightarrow> 'z wpa_ctrl_scheme \<Rightarrow> int \<Rightarrow> int \<Rightarrow> 'z wpa_ctrl_scheme \<Rightarrow> bool" where
  "over_by D fd s0 start T s \<longleftrightarrow> polled s0 s \<and> fd \<in> open_fds s \<and> start \<le> int (now_us s) \<and> int (now_us s) \<le> start + T + 2 * int D"

definition left_over :: "int \<Rightarrow> int \<Rightarrow> int \<Rightarrow> 'z wpa_ctrl_scheme \<Rightarrow> bool" where
  "left_over start T t s \<longleftrightarrow> 0 \<le> t \<and> t \<le> T \<and> (t = 0 \<or> int (now_us s) + t \<le> start + T)"

lemma now_tick: "now_us (tick K s) = now_us s + a_time (K (calls s))"
  by (simp add: tick_def)

text \<open>The end of a round, and the waiting at its beginning.\<close>

lemma recalculate_in_time:
  assumes "polled s0 s" "fd \<in> open_fds s" "0 \<le> t" "t \<le> T" "start < int (now_us s)" "int (now_us s) \<le> start + T + 2 * int D"
    and "\<And>s t. over_by D fd s0 start T s \<Longrightarrow> left_over start T t s \<Longrightarrow> finished \<Longrightarrow> wc_sent s = l \<Longrightarrow> Q (Ok (t, x)) s"
    and "\<And>s. over_by D fd s0 start T s \<Longrightarrow> \<not> finished \<Longrightarrow> wc_sent s = l \<Longrightarrow> Q (Err ETIMEDOUT) s" and "wc_sent s = l"
  shows "wp (recalculate start t finished x)
    (round_post (\<lambda>c s. in_time D fd s0 start T (fst c) s \<and> \<not> finished \<and> wc_sent s = l \<and> nat (fst c) < nat t) Q) s"
  using assms by (auto simp: recalculate_wp Let_def round_post_simps in_time_def over_by_def left_over_def)

lemma wait_socket_in_time:
  assumes i: "in_time D fd s0 start T t s" and D: "\<forall>n. 1 \<le> a_time (K n) \<and> a_time (K n) \<le> D"
    and ok: "\<And>b s'. polled s0 s' \<Longrightarrow> fd \<in> open_fds s' \<Longrightarrow> start < int (now_us s') \<Longrightarrow> int (now_us s') \<le> start + T + int D \<Longrightarrow>
      wc_sent s' = wc_sent s \<Longrightarrow> Q (Ok b) s'"
    and err: "\<And>e s'. over_by D fd s0 start T s' \<Longrightarrow> wc_sent s' = wc_sent s \<Longrightarrow> Q (Err e) s'"
  shows "wp (wait_socket K fd t) Q s"
proof -
  define s' where "s' = tick K (s\<lparr>now_us := now_us s + min (a_wait (K (calls s))) (nat t)\<rparr>)"
  have bounds: "1 \<le> a_time (K (calls s))" "a_time (K (calls s)) \<le> D" using D by simp_all
  have s': "polled s0 s'" "fd \<in> open_fds s'" "start < int (now_us s')" "int (now_us s') \<le> start + T + int D" "wc_sent s' = wc_sent s"
    using i bounds unfolding s'_def in_time_def by (auto simp: now_tick)
  then have "over_by D fd s0 start T s'" by (simp add: over_by_def)
  then show ?thesis using i ok [OF s'] err s'(5)
    by (auto simp: wait_socket_wp s'_def [symmetric] in_time_def Let_def intro!: on_errorI split: list.split)
qed


text \<open>\<open>sent_once\<close>: one datagram, some bytes of the command, was sent.\<close>

definition sent_once :: "int \<Rightarrow> char list \<Rightarrow> (int \<times> char list) list \<Rightarrow> (int \<times> char list) list \<Rightarrow> bool" where
  "sent_once fd cmd l l' \<longleftrightarrow> (\<exists>n>0. l' = l @ [(fd, take n cmd)])"

lemma send_round_in_time:
  assumes i: "in_time D fd s0 start T (fst c) s" and D: "\<forall>n. 1 \<le> a_time (K n) \<and> a_time (K n) \<le> D"
  shows "wp (send_round K fd cmd start c)
    (round_post (\<lambda>c' s'. (in_time D fd s0 start T (fst c') s' \<and> wc_sent s' = wc_sent s) \<and> nat (fst c') < nat (fst c))
      (\<lambda>r s'. over_by D fd s0 start T s' \<and> (case r of
         Ok c' \<Rightarrow> left_over start T (fst c') s' \<and> sent_once fd cmd (wc_sent s) (wc_sent s')
       | Err e \<Rightarrow> wc_sent s' = wc_sent s | Fault \<Rightarrow> False))) s" (is "wp _ (round_post ?I ?Q) s")
  unfolding send_round_def
proof (subst wp_sbind, rule wait_socket_in_time [OF i D])
  fix b s1
  assume s1: "polled s0 s1" "fd \<in> open_fds s1" "start < int (now_us s1)" "int (now_us s1) \<le> start + T + int D" "wc_sent s1 = wc_sent s"
  have t: "0 \<le> fst c" "fst c \<le> T" using i by (simp_all add: in_time_def)
  have quiet: "wp (recalculate start (fst c) False ()) (round_post ?I ?Q) s2"
    if "polled s0 s2" "fd \<in> open_fds s2" "start < int (now_us s2)" "int (now_us s2) \<le> start + T + 2 * int D" "wc_sent s2 = wc_sent s" for s2
    by (rule wp_mono [OF recalculate_in_time [OF that(1,2) t that(3,4), where Q = ?Q, OF _ _ that(5)]])
      (auto simp: round_post_def split: result.splits prod.splits)
  have loud: "wp (recalculate start (fst c) True ()) (round_post ?I ?Q) s2"
    if "polled s0 s2" "fd \<in> open_fds s2" "start < int (now_us s2)" "int (now_us s2) \<le> start + T + 2 * int D"
      "wc_sent s2 = l" "sent_once fd cmd (wc_sent s) l" for s2 l
    by (rule wp_mono [OF recalculate_in_time [OF that(1,2) t that(3,4), where Q = ?Q, OF _ _ that(5)]])
      (use that(6) in \<open>auto simp: round_post_def split: result.splits prod.splits\<close>)
  let ?s2 = "tick K s1"
  have s2: "polled s0 ?s2" "fd \<in> open_fds ?s2" "start < int (now_us ?s2)" "int (now_us ?s2) \<le> start + T + 2 * int D" "wc_sent ?s2 = wc_sent s"
    using s1 D [rule_format, of "calls s1"] by (auto simp: now_tick)
  have sent: "wp (recalculate start (fst c) True ()) (round_post ?I ?Q) (?s2\<lparr>wc_sent := wc_sent s1 @ [(fd, take n cmd)]\<rparr>)" if "0 < n" for n
    by (rule loud) (use s1 s2 that in \<open>auto simp: sent_once_def\<close>)
  have over: "over_by D fd s0 start T ?s2" using s2 by (simp add: over_by_def)
  have err: "round_post ?I ?Q (Err e) ?s2" for e using over s1(5) by (simp add: round_post_def)
  have quiet1: "wp (recalculate start (fst c) False ()) (round_post ?I ?Q) s1" using s1 by (intro quiet) auto
  show "andthen (\<lambda>try. sbind
       (if \<not> try then sret False
        else sbind (again (sys_write K fd cmd)) (\<lambda>l. case l of None \<Rightarrow> sret False
          | Some l \<Rightarrow> if l > 0 then sbind (smod (\<lambda>s. s\<lparr>wc_sent := wc_sent s @ [(fd, take l cmd)]\<rparr>)) (\<lambda>_. sret True) else sret False))
       (\<lambda>finished. recalculate start (fst c) finished ())) (round_post ?I ?Q) (Ok b) s1"
    using s1(2) quiet [OF s2] quiet1 sent err
    by (auto simp: andthen_simps wp_sbind wp_basic again_wp sys_write_def wp_sys_use wp_sys on_error_def split: option.split)
next
  fix e s1
  assume "over_by D fd s0 start T s1" "wc_sent s1 = wc_sent s"
  then show "andthen (\<lambda>try. sbind
       (if \<not> try then sret False
        else sbind (again (sys_write K fd cmd)) (\<lambda>l. case l of None \<Rightarrow> sret False
          | Some l \<Rightarrow> if l > 0 then sbind (smod (\<lambda>s. s\<lparr>wc_sent := wc_sent s @ [(fd, take l cmd)]\<rparr>)) (\<lambda>_. sret True) else sret False))
       (\<lambda>finished. recalculate start (fst c) finished ())) (round_post ?I ?Q) (Err e) s1"
    by (simp add: andthen_simps round_post_def)
qed


text \<open>A reply is not empty, not an event and fits into its buffer.\<close>

definition is_reply :: "nat \<Rightarrow> char list \<Rightarrow> bool" where
  "is_reply cap bs \<longleftrightarrow> bs \<noteq> [] \<and> hd bs \<noteq> CHR ''<'' \<and> length bs \<le> cap"

lemma recv_round_in_time:
  assumes i: "in_time D fd s0 start T (fst c) s" and D: "\<forall>n. 1 \<le> a_time (K n) \<and> a_time (K n) \<le> D"
  shows "wp (recv_round K fd cap start c)
    (round_post (\<lambda>c' s'. (in_time D fd s0 start T (fst c') s' \<and> wc_sent s' = wc_sent s) \<and> nat (fst c') < nat (fst c))
      (\<lambda>r s'. over_by D fd s0 start T s' \<and> wc_sent s' = wc_sent s \<and> (case r of
         Ok c' \<Rightarrow> is_reply cap (snd c') | Err e \<Rightarrow> True | Fault \<Rightarrow> False))) s" (is "wp _ (round_post ?I ?Q) s")
  unfolding recv_round_def
proof (subst wp_sbind, rule wait_socket_in_time [OF i D])
  fix b s1
  assume s1: "polled s0 s1" "fd \<in> open_fds s1" "start < int (now_us s1)" "int (now_us s1) \<le> start + T + int D" "wc_sent s1 = wc_sent s"
  have t: "0 \<le> fst c" "fst c \<le> T" using i by (simp_all add: in_time_def)
  have rest: "wp (recalculate start (fst c) finished x) (round_post ?I ?Q) s2"
    if "polled s0 s2" "fd \<in> open_fds s2" "start < int (now_us s2)" "int (now_us s2) \<le> start + T + 2 * int D" "wc_sent s2 = wc_sent s"
      "finished \<longrightarrow> is_reply cap x" for s2 finished x
    by (rule wp_mono [OF recalculate_in_time [OF that(1,2) t that(3,4), where Q = ?Q, OF _ _ that(5)]])
      (use that(6) in \<open>auto simp: round_post_def split: result.splits prod.splits\<close>)
  let ?s2 = "tick K s1"
  have s2: "polled s0 ?s2" "fd \<in> open_fds ?s2" "start < int (now_us ?s2)" "int (now_us ?s2) \<le> start + T + 2 * int D" "wc_sent ?s2 = wc_sent s"
    using s1 D [rule_format, of "calls s1"] by (auto simp: now_tick)
  have over: "over_by D fd s0 start T ?s2" using s2 by (simp add: over_by_def)
  have err: "round_post ?I ?Q (Err e) ?s2" for e using over s1(5) by (simp add: round_post_def)
  have quiet1: "wp (recalculate start (fst c) False x) (round_post ?I ?Q) s1" for x using s1 by (intro rest) auto
  have quiet2: "wp (recalculate start (fst c) False x) (round_post ?I ?Q) ?s2" for x by (rule rest [OF s2]) simp
  have reply: "wp (recalculate start (fst c) True x) (round_post ?I ?Q) ?s2" if "is_reply cap x" for x
    by (rule rest [OF s2]) (simp add: that)
  have len: "is_reply cap (take cap bs)" if "take cap bs \<noteq> []" "hd (take cap bs) \<noteq> CHR ''<''" for bs
    using that by (simp add: is_reply_def)
  show "andthen (\<lambda>try. sbind
       (if \<not> try then sret None
        else sbind (again (sys_read K fd cap)) (\<lambda>bs. case bs of None \<Rightarrow> sret None
          | Some bs \<Rightarrow> if bs \<noteq> [] \<and> hd bs \<noteq> CHR ''<'' then sret (Some bs) else sret None))
       (\<lambda>reply. recalculate start (fst c) (reply \<noteq> None) (case reply of None \<Rightarrow> [] | Some bs \<Rightarrow> bs))) (round_post ?I ?Q) (Ok b) s1"
    using s1(2) quiet2 quiet1 reply [OF len] err
    by (auto simp: andthen_simps wp_sbind wp_basic again_wp sys_read_def wp_sys_use wp_sys on_error_def simp del: take_eq_Nil split: option.split)
next
  fix e s1
  assume "over_by D fd s0 start T s1" "wc_sent s1 = wc_sent s"
  then show "andthen (\<lambda>try. sbind
       (if \<not> try then sret None
        else sbind (again (sys_read K fd cap)) (\<lambda>bs. case bs of None \<Rightarrow> sret None
          | Some bs \<Rightarrow> if bs \<noteq> [] \<and> hd bs \<noteq> CHR ''<'' then sret (Some bs) else sret None))
       (\<lambda>reply. recalculate start (fst c) (reply \<noteq> None) (case reply of None \<Rightarrow> [] | Some bs \<Rightarrow> bs))) (round_post ?I ?Q) (Err e) s1"
    by (simp add: andthen_simps round_post_def)
qed

lemma timed_send_in_time:
  assumes fd: "fd \<in> open_fds s" and T: "0 \<le> T" and D: "\<forall>n. 1 \<le> a_time (K n) \<and> a_time (K n) \<le> D"
  shows "ends (timed_send K fd cmd T) (\<lambda>r s'. over_by D fd s (int (now_us s)) T s' \<and> (case r of
     Ok c' \<Rightarrow> left_over (int (now_us s)) T (fst c') s' \<and> sent_once fd cmd (wc_sent s) (wc_sent s')
   | Err e \<Rightarrow> wc_sent s' = wc_sent s | Fault \<Rightarrow> False)) s"
proof -
  let ?start = "int (now_us s)"
  let ?I = "\<lambda>c s'. in_time D fd s ?start T (fst c) s' \<and> wc_sent s' = wc_sent s"
  have "ends (until_done (\<lambda>c. olift (send_round K fd cmd ?start c)) (T, ())) (\<lambda>r s'. over_by D fd s ?start T s' \<and> (case r of
     Ok c' \<Rightarrow> left_over ?start T (fst c') s' \<and> sent_once fd cmd (wc_sent s) (wc_sent s')
   | Err e \<Rightarrow> wc_sent s' = wc_sent s | Fault \<Rightarrow> False)) s"
  proof (rule until_done_ends [where I = ?I and m = "\<lambda>c. nat (fst c)"])
    show "?I (T, ()) s" using fd T by (simp add: in_time_def)
  next
    fix c :: "int \<times> unit" and s'
    assume "?I c s'"
    then have c: "in_time D fd s ?start T (fst c) s'" "wc_sent s' = wc_sent s" by blast+
    show "ends (olift (send_round K fd cmd ?start c)) (round_post (\<lambda>c' s'. ?I c' s' \<and> nat (fst c') < nat (fst c))
      (\<lambda>r s'. over_by D fd s ?start T s' \<and> (case r of
         Ok c' \<Rightarrow> left_over ?start T (fst c') s' \<and> sent_once fd cmd (wc_sent s) (wc_sent s')
       | Err e \<Rightarrow> wc_sent s' = wc_sent s | Fault \<Rightarrow> False))) s'"
      unfolding ends_simps using send_round_in_time [OF c(1) D, of cmd] by (simp only: c(2))
  qed
  then show ?thesis by (simp add: timed_send_def ends_simps wp_get_time_us next_simps)
qed

lemma timed_recv_in_time:
  assumes fd: "fd \<in> open_fds s" and T: "0 \<le> T" and D: "\<forall>n. 1 \<le> a_time (K n) \<and> a_time (K n) \<le> D"
  shows "ends (timed_recv K fd cap T) (\<lambda>r s'. over_by D fd s (int (now_us s)) T s' \<and> wc_sent s' = wc_sent s \<and> (case r of
     Ok c' \<Rightarrow> is_reply cap (snd c') | Err e \<Rightarrow> True | Fault \<Rightarrow> False)) s"
proof -
  let ?start = "int (now_us s)"
  let ?I = "\<lambda>c s'. in_time D fd s ?start T (fst c) s' \<and> wc_sent s' = wc_sent s"
  have "ends (until_done (\<lambda>c. olift (recv_round K fd cap ?start c)) (T, [])) (\<lambda>r s'. over_by D fd s ?start T s' \<and> wc_sent s' = wc_sent s \<and>
     (case r of Ok c' \<Rightarrow> is_reply cap (snd c') | Err e \<Rightarrow> True | Fault \<Rightarrow> False)) s"
  proof (rule until_done_ends [where I = ?I and m = "\<lambda>c. nat (fst c)"])
    show "?I (T, []) s" using fd T by (simp add: in_time_def)
  next
    fix c :: "int \<times> char list" and s'
    assume "?I c s'"
    then have c: "in_time D fd s ?start T (fst c) s'" "wc_sent s' = wc_sent s" by blast+
    show "ends (olift (recv_round K fd cap ?start c)) (round_post (\<lambda>c' s'. ?I c' s' \<and> nat (fst c') < nat (fst c))
      (\<lambda>r s'. over_by D fd s ?start T s' \<and> wc_sent s' = wc_sent s \<and> (case r of
         Ok c' \<Rightarrow> is_reply cap (snd c') | Err e \<Rightarrow> True | Fault \<Rightarrow> False))) s'"
      unfolding ends_simps using recv_round_in_time [OF c(1) D, of cap] by (simp only: c(2))
  qed
  then show ?thesis by (simp add: timed_recv_def ends_simps wp_get_time_us next_simps)
qed

lemma wpa_request_ends:
  assumes "0 \<le> fd" and "fd \<in> open_fds s" and "\<forall>n. 1 \<le> a_time (K n) \<and> a_time (K n) \<le> D"
    and "T = (case t of None \<Rightarrow> 10000000 | Some t \<Rightarrow> if t < 0 \<or> t > 10000000 then 10000000 else t)"
  shows "ends (wpa_request K fd cmd cap t) (\<lambda>r s'. int (now_us s') \<le> int (now_us s) + T + 4 * int D \<and>
    (case r of
       Ok reply \<Rightarrow> is_reply cap reply \<and> sent_once fd cmd (wc_sent s) (wc_sent s')
     | Err e \<Rightarrow> wc_sent s' = wc_sent s \<or> sent_once fd cmd (wc_sent s) (wc_sent s')
     | Fault \<Rightarrow> False)) s"
proof -
  let ?Q = "\<lambda>r s'. int (now_us s') \<le> int (now_us s) + T + 4 * int D \<and>
    (case r of
       Ok reply \<Rightarrow> is_reply cap reply \<and> sent_once fd cmd (wc_sent s) (wc_sent s')
     | Err e \<Rightarrow> wc_sent s' = wc_sent s \<or> sent_once fd cmd (wc_sent s) (wc_sent s')
     | Fault \<Rightarrow> False)"
  have T: "0 \<le> T" using assms(4) by (auto split: option.splits)
  have recv: "ends (timed_recv K fd cap (fst c)) (next_ends (\<lambda>c. olift (sret (snd c))) ?Q) s1"
    if o: "over_by D fd s (int (now_us s)) T s1" and l: "left_over (int (now_us s)) T (fst c) s1"
      and sent: "sent_once fd cmd (wc_sent s) (wc_sent s1)" for c :: "int \<times> unit" and s1
  proof -
    have "fd \<in> open_fds s1" "0 \<le> fst c" using o l by (simp_all add: over_by_def left_over_def)
    note over = timed_recv_in_time [OF this assms(3), of cap]
    show ?thesis
      by (rule ends_mono [OF over]) (use o l sent in \<open>auto simp: next_ends_def ends_simps wp_basic over_by_def left_over_def split: result.splits\<close>)
  qed
  have "ends (timed_send K fd cmd T) (next_ends (\<lambda>c. obind (timed_recv K fd cap (fst c)) (\<lambda>c. olift (sret (snd c)))) ?Q) s"
  proof (rule ends_mono [OF timed_send_in_time [OF assms(2) T assms(3)]])
    fix r :: "(int \<times> unit) result" and s1
    assume a: "over_by D fd s (int (now_us s)) T s1 \<and> (case r of
       Ok c' \<Rightarrow> left_over (int (now_us s)) T (fst c') s1 \<and> sent_once fd cmd (wc_sent s) (wc_sent s1)
     | Err e \<Rightarrow> wc_sent s1 = wc_sent s | Fault \<Rightarrow> False)"
    show "next_ends (\<lambda>c. obind (timed_recv K fd cap (fst c)) (\<lambda>c. olift (sret (snd c)))) ?Q r s1"
    proof (cases r)
      case (Ok c)
      show ?thesis unfolding Ok next_simps ends_simps by (rule recv) (use a Ok in simp_all)
    qed (use a in \<open>simp_all add: next_simps over_by_def\<close>)
  qed
  moreover have "ends (wpa_request K fd cmd cap t) ?Q s =
      ends (obind (timed_send K fd cmd T) (\<lambda>c. obind (timed_recv K fd cap (fst c)) (\<lambda>c. olift (sret (snd c))))) ?Q s"
    using assms(1,4) by (auto simp: wpa_request_def Let_def split: option.splits)
  ultimately show ?thesis by (simp add: ends_simps)
qed


text \<open>
  C7: A request always returns in time. Whatever the peer does, silence, refused and partial sends, floods of events, the request is
  over after its timeout (ten seconds when none is given) and the time of at most four system calls. It sends at most one
  datagram. When it succeeds it has sent one, and its reply is a datagram that is not an event and fits
  into the buffer.
\<close>

theorem wpa_request_in_time:
  assumes "0 \<le> fd" and "fd \<in> open_fds s" and "\<forall>n. 1 \<le> a_time (K n) \<and> a_time (K n) \<le> D"
    and "T = (case t of None \<Rightarrow> 10000000 | Some t \<Rightarrow> if t < 0 \<or> t > 10000000 then 10000000 else t)"
  shows "\<exists>s' r. wpa_request K fd cmd cap t s = Some (s', r) \<and> int (now_us s') \<le> int (now_us s) + T + 4 * int D \<and>
    (case r of
       Ok reply \<Rightarrow> is_reply cap reply \<and> sent_once fd cmd (wc_sent s) (wc_sent s')
     | Err e \<Rightarrow> wc_sent s' = wc_sent s \<or> sent_once fd cmd (wc_sent s) (wc_sent s')
     | Fault \<Rightarrow> False)"
  using wpa_request_ends [OF assms] by (auto simp: ends_iff)

definition wpa_opened :: wpa_ctrl where
  "wpa_opened = \<lparr>calls = 0, now_us = 0, next_fd = 7, open_fds = {3, 4, 5, 6}, interest = [4 \<mapsto> WATCH, 5 \<mapsto> WATCH, 6 \<mapsto> WATCH],
    wc_ref = 1, wc_data = 0, wc_mask = 0, wc_efd = 3, wc_tfd = 4, req_fd = 5, req_name = ''a'',
    ev_fd = 6, ev_name = ''b'', wc_cb = Some 1, wc_timer = (10, 0), bound = {''a'', ''b''}, wc_seen = [], wc_sent = []\<rparr>"

lemma wpa_opened_inv: "own (ref_is 1) {} False {Req, Ev} wpa_opened"
proof -
  have "sock_fd x wpa_opened \<ge> 0 \<and> x \<in> {Req, Ev}" for x by (cases x) (simp_all add: wpa_opened_def)
  moreover have "dom (interest wpa_opened) - {wc_tfd wpa_opened} = {5, 6}" by (auto simp: wpa_opened_def)
  ultimately show ?thesis unfolding own_def by (auto simp: wpa_opened_def)
qed

theorem wpa_request_in_time_witness:
  "\<exists>s' r. wpa_request (\<lambda>_. granted) 5 ''PING'' 10 (Some 2000000) wpa_opened = Some (s', r) \<and>
    int (now_us s') \<le> int (now_us wpa_opened) + 2000000 + 4 * int 10 \<and>
    (case r of
       Ok reply \<Rightarrow> is_reply 10 reply \<and> sent_once 5 ''PING'' (wc_sent wpa_opened) (wc_sent s')
     | Err e \<Rightarrow> wc_sent s' = wc_sent wpa_opened \<or> sent_once 5 ''PING'' (wc_sent wpa_opened) (wc_sent s')
     | Fault \<Rightarrow> False)"
  by (rule wpa_request_in_time) (simp_all add: granted_fields wpa_opened_def)








subsection \<open>A ping that is not answered\<close>

lemma own_lost:
  assumes "own P F lost A s"
  shows "own P F True A (s\<lparr>interest := (interest s)(wc_tfd s := None)\<rparr>)"
proof -
  have "(\<lambda>x. sock_fd x s) ` A - {wc_tfd s} = (\<lambda>x. sock_fd x s) ` A" unfolding own_facts(2) [OF assms, symmetric] by simp
  then show ?thesis using assms unfolding own_def by simp
qed

text \<open>A PING that is sent at once and gets no answer.\<close>

definition pinged :: "int \<Rightarrow> nat \<Rightarrow> 'z wpa_ctrl_scheme \<Rightarrow> nat \<Rightarrow> 'z wpa_ctrl_scheme" where
  "pinged fd n s now = s\<lparr>calls := calls s + n, now_us := now, wc_sent := wc_sent s @ [(fd, ''PING'')]\<rparr>"

lemma ping_sent:
  assumes "fd \<in> open_fds s" and "a_err (K (calls s)) = None" and "a_err (K (calls s + 1)) = None"
    and "a_events (K (calls s)) = [(fd, EPOLLOUT)]" and "4 \<le> a_num (K (calls s + 1))"
  shows "\<exists>now t. \<forall>Q. ends (timed_send K fd ''PING'' 10000000) Q s = Q (Ok (t, ())) (pinged fd 2 s now)"
proof -
  let ?u = "pinged fd 2 s (now_us s + min (a_wait (K (calls s))) (nat 10000000) + a_time (K (calls s)) + a_time (K (calls s + 1)))"
  let ?t = "10000000 - (int (now_us ?u) - int (now_us s))"
  have "wp (send_round K fd ''PING'' (int (now_us s)) (10000000, ())) Q s =
      (if ?t \<le> 0 then Q (Ok (True, 0, ())) ?u else Q (Ok (True, ?t, ())) ?u)" for Q
    using assms by (simp add: send_round_def sys_write_def lop_simps wp_simps Let_def pinged_def tick_def min_def)
  then have "ends (timed_send K fd ''PING'' 10000000) Q s = Q (Ok (if ?t \<le> 0 then 0 else ?t, ())) ?u" for Q
    unfolding timed_send_def ends_simps wp_get_time_us next_simps
    by (subst until_done_unroll(1)) (simp add: ends_simps round_post_simps)
  then show ?thesis by blast
qed

lemma no_reply:
  assumes "fd \<in> open_fds s" and "a_err (K (calls s)) = None" and "a_events (K (calls s)) = []"
  shows "\<exists>now. \<forall>Q. ends (timed_recv K fd cap t) Q s = Q (Err ETIMEDOUT) (s\<lparr>calls := calls s + 1, now_us := now\<rparr>)"
proof -
  have "ends (timed_recv K fd cap t) Q s =
      Q (Err ETIMEDOUT) (s\<lparr>calls := calls s + 1, now_us := now_us s + min (a_wait (K (calls s))) (nat t) + a_time (K (calls s))\<rparr>)" for Q
    unfolding timed_recv_def ends_simps wp_get_time_us next_simps
    by (subst until_done_unroll(1)) (use assms in \<open>simp add: recv_round_def ends_simps wp_simps Let_def tick_def\<close>)
  then show ?thesis by blast
qed

lemma ping_unanswered:
  assumes "fd \<in> open_fds s" and "0 \<le> fd" and "\<forall>i<3. a_err (K (calls s + i)) = None"
    and "a_events (K (calls s)) = [(fd, EPOLLOUT)]" and "4 \<le> a_num (K (calls s + 1))" and "a_events (K (calls s + 2)) = []"
  shows "\<exists>now. \<forall>Q. ends (wpa_request K fd ''PING'' cap None) Q s = Q (Err ETIMEDOUT) (pinged fd 3 s now)"
proof -
  have err: "a_err (K (calls s)) = None" "a_err (K (calls s + 1)) = None" "a_err (K (calls s + 2)) = None"
    using assms(3) by (auto dest: spec [of _ 0] spec [of _ "1 :: nat"] spec [of _ "2 :: nat"])
  obtain now t where sent: "\<And>Q. ends (timed_send K fd ''PING'' 10000000) Q s = Q (Ok (t, ())) (pinged fd 2 s now)"
    using ping_sent [of fd s K, OF assms(1) err(1,2) assms(4,5)] by blast
  obtain now' where lost: "\<And>Q. ends (timed_recv K fd cap t) Q (pinged fd 2 s now) =
      Q (Err ETIMEDOUT) ((pinged fd 2 s now)\<lparr>calls := calls (pinged fd 2 s now) + 1, now_us := now'\<rparr>)"
    using no_reply [of fd "pinged fd 2 s now" K cap t] assms(1,6) err(3) by (auto simp: pinged_def)
  have same: "(pinged fd 2 s now)\<lparr>calls := calls (pinged fd 2 s now) + 1, now_us := now'\<rparr> = pinged fd 3 s now'"
    by (rule wpa_ctrl.equality) (simp_all add: pinged_def)
  have "ends (wpa_request K fd ''PING'' cap None) Q s = Q (Err ETIMEDOUT) (pinged fd 3 s now')" for Q
    using assms(2) by (simp add: wpa_request_def ends_simps sent lost same [simplified] next_simps)
  then show ?thesis by blast
qed

lemma read_tfd_unanswered:
  assumes "wc_tfd s \<in> open_fds s" "req_fd s \<in> open_fds s" "0 \<le> req_fd s"
    and "\<forall>i<4. a_err (K (calls s + i)) = None" "8 \<le> length (a_bytes (K (calls s)))"
    and "a_events (K (calls s + 1)) = [(req_fd s, EPOLLOUT)]" and "4 \<le> a_num (K (calls s + 2))" and "a_events (K (calls s + 3)) = []"
  shows "\<exists>now. \<forall>Q. ends (read_tfd K) Q s = Q (Err ETIMEDOUT) (pinged (req_fd s) 4 s now)"
proof -
  have "a_err (K (calls (tick K s) + i)) = None" if "i < 3" for i using assms(4) [rule_format, of "Suc i"] that by simp
  then have err: "a_err (K (calls s)) = None" "\<forall>i<3. a_err (K (calls (tick K s) + i)) = None"
    using assms(4) by (auto dest: spec [of _ 0])
  obtain now where p: "\<And>Q. ends (wpa_request K (req_fd s) ''PING'' 10 None) Q (tick K s) = Q (Err ETIMEDOUT) (pinged (req_fd s) 3 (tick K s) now)"
    using ping_unanswered [of "req_fd s" "tick K s" K 10] assms(2,3,6-8) err(2) by (auto simp: eval_nat_numeral)
  have "ends (read_tfd K) Q s = Q (Err ETIMEDOUT) (pinged (req_fd s) 4 s now)" for Q
    using assms(1,5) err(1) p unfolding read_tfd_def ends_simps wp_basic next_simps again_wp sys_read_def
    by (simp add: wp_simps next_simps ends_simps del: wp_if) (simp add: pinged_def tick_def eval_nat_numeral)
  then show ?thesis by blast
qed

text \<open>
  C36: The timer is lost for good. The timer fires, a PING is sent, and no reply comes in time: the dispatcher reports the timeout and takes the
  timer out of the epoll instance, and nothing ever puts it back. Whatever the client does afterwards, closing and opening the
  channel included, no later connection has a ping timer that is watched.
\<close>

theorem wpa_ping_lost:
  assumes "own (ref_is rn) F lost {Req, Ev} s" and "interest s (wc_tfd s) = Some WATCH" and "rn \<noteq> 0" and "answers_ok K"
    and "\<forall>i<6. a_err (K (calls s + i)) = None"
    and "a_events (K (calls s)) = [(wc_tfd s, EPOLLIN)]" and "8 \<le> length (a_bytes (K (calls s + 1)))"
    and "a_events (K (calls s + 2)) = [(req_fd s, EPOLLOUT)]" and "4 \<le> a_num (K (calls s + 3))" and "a_events (K (calls s + 4)) = []"
  shows "\<exists>s'. owfd_wpa_ctrl_dispatch K (scripted K C) s = Some (s', Err ETIMEDOUT) \<and> wc_sent s' = wc_sent s @ [(req_fd s, ''PING'')] \<and>
    (\<forall>es s''. foldl (wpa_step K C) (Some s') es = Some s'' \<longrightarrow> wc_ref s'' \<noteq> 0 \<longrightarrow> interest s'' (wc_tfd s'') = None)"
proof -
  have opened: "owfd_wpa_ctrl_is_open s" and req: "0 \<le> req_fd s"
    using own_sign [OF assms(1), of Ev] own_sign [OF assms(1), of Req] by (simp_all add: owfd_wpa_ctrl_is_open_def)
  have fds: "wc_efd s \<in> open_fds s" "wc_tfd s \<in> open_fds s" "req_fd s \<in> open_fds s"
    using own_fds(1,2) [OF assms(1)] own_fds(4) [OF assms(1), of Req] by simp_all
  have source: "event_source (tick K s) (wc_tfd s) = From_tfd" using assms(1) by (auto simp: event_source_def own_def)
  have ready: "ready (interest s) [(wc_tfd s, EPOLLIN)] = [(wc_tfd s, EPOLLIN)]" by (simp add: ready_def assms(2))
  have "a_err (K (calls (tick K s) + i)) = None" if "i < 4" for i using assms(5) [rule_format, of "Suc i"] that by simp
  then have errs: "a_err (K (calls s)) = None" "a_err (K (calls s + 5)) = None" "\<forall>i<4. a_err (K (calls (tick K s) + i)) = None"
    using assms(5) by (auto dest: spec [of _ 0] spec [of _ "5 :: nat"])
  obtain now where err: "\<And>Q. ends (read_tfd K) Q (tick K s) = Q (Err ETIMEDOUT) (pinged (req_fd s) 4 (tick K s) now)"
    using read_tfd_unanswered [of "tick K s" K] fds req errs(3) assms(7-10) by (auto simp: eval_nat_numeral)
  let ?s2 = "pinged (req_fd s) 4 (tick K s) now"
  let ?s3 = "(tick K ?s2)\<lparr>interest := (interest s)(wc_tfd s := None)\<rparr>"
  have "own (ref_is rn) F True {Req, Ev} ?s3" using own_lost [of "ref_is rn" F lost "{Req, Ev}" "tick K ?s2"] assms(1) by (simp add: pinged_def)
  then have "wpa_inv (ref_is rn) F True ?s3" by (simp add: wpa_inv_def)
  then have alive: "wpa_alive F True ?s3" using assms(3) by (rule inv_alive)
  let ?Q = "\<lambda>r s'. s' = ?s3 \<and> r = Err ETIMEDOUT"
  have s2: "calls ?s2 = calls s + 5" "open_fds ?s2 = open_fds s" "interest ?s2 = interest s" "wc_tfd ?s2 = wc_tfd s"
    by (simp_all add: pinged_def)
  have del: "wp (epoll_del K (wc_tfd s)) Q ?s2 = Q (Ok ()) ?s3" for Q
    using assms(2) fds errs(2) by (simp add: epoll_del_def wp_simps s2)
  have tfd: "ends (dispatch_tfd K EPOLLIN) (next_ends (\<lambda>_. dispatch_events K (scripted K C) []) ?Q) (tick K s)"
    unfolding dispatch_tfd_def ends_simps by (simp add: err del s2(4) wp_simps next_simps ends_simps)
  have "ends (owfd_wpa_ctrl_dispatch K (scripted K C)) ?Q s"
    unfolding owfd_wpa_ctrl_dispatch_def epoll_wait_def
    using opened fds source ready errs(1) assms(6) tfd
    by (simp add: ends_simps wp_simps next_simps del: dispatch_events.simps(1))
  moreover have "interest s'' (wc_tfd s'') = None" if "foldl (wpa_step K C) (Some ?s3) es = Some s''" "wc_ref s'' \<noteq> 0" for es s''
  proof -
    have "wpa_inv (ref_is (wc_ref s'')) F True s''" using wpa_run_alive [OF assms(4) alive that(1)] that(2) by (simp add: wpa_alive_def)
    then show ?thesis by (auto simp: wpa_inv_def own_def)
  qed
  moreover have "wc_sent ?s3 = wc_sent s @ [(req_fd s, ''PING'')]" by (simp add: pinged_def tick_def)
  ultimately show ?thesis by (auto simp: ends_iff)
qed

definition silent :: answers where
  "silent n = granted\<lparr>a_events := if n = 0 then [(4, EPOLLIN)] else if n = 2 then [(5, EPOLLOUT)] else [], a_bytes := replicate 8 NUL, a_num := 4\<rparr>"

theorem wpa_ping_lost_witness:
  "\<exists>s'. owfd_wpa_ctrl_dispatch silent (scripted silent (\<lambda>_ _ _. [])) wpa_opened = Some (s', Err ETIMEDOUT) \<and>
    wc_sent s' = wc_sent wpa_opened @ [(req_fd wpa_opened, ''PING'')] \<and>
    (\<forall>es s''. foldl (wpa_step silent (\<lambda>_ _ _. [])) (Some s') es = Some s'' \<longrightarrow> wc_ref s'' \<noteq> 0 \<longrightarrow> interest s'' (wc_tfd s'') = None)"
  by (rule wpa_ping_lost [OF wpa_opened_inv])
    (simp_all add: silent_def granted_fields wpa_opened_def answers_ok_def demo_alloc_ok granted_def)

end
