(* ===== verification/Dlist.thy ===== *)
theory Dlist
  imports Prelude
begin

text \<open>
  The doubly linked list of \<open>src/shl_dlist.h\<close>: a circle of nodes in a heap, the head among them, linked in both
  directions. \<open>None\<close> is the null pointer; a node that is not in the heap has been freed, and touching it is a \<open>Fault\<close>.
  \<open>dlist h head xs\<close> relates the heap to the list of the nodes behind the head; every operation implements an
  operation on that list and leaves all other nodes alone.
\<close>

subsection \<open>Operations\<close>

record shl_dlist =
  dnext :: "nat option"
  dprev :: "nat option"

type_synonym dheap = "nat \<rightharpoonup> shl_dlist"

definition node :: "dheap \<Rightarrow> nat option \<Rightarrow> (nat \<times> shl_dlist) result" where
  "node h p = (case p of None \<Rightarrow> Fault | Some a \<Rightarrow> (case h a of None \<Rightarrow> Fault | Some n \<Rightarrow> Ok (a, n)))"

definition set_next :: "nat option \<Rightarrow> nat option \<Rightarrow> dheap \<Rightarrow> dheap result" where
  "set_next p v h = rbind (node h p) (\<lambda>(a, n). Ok (h(a \<mapsto> n\<lparr>dnext := v\<rparr>)))"

definition set_prev :: "nat option \<Rightarrow> nat option \<Rightarrow> dheap \<Rightarrow> dheap result" where
  "set_prev p v h = rbind (node h p) (\<lambda>(a, n). Ok (h(a \<mapsto> n\<lparr>dprev := v\<rparr>)))"

definition get_next :: "nat option \<Rightarrow> dheap \<Rightarrow> nat option result" where
  "get_next p h = rbind (node h p) (\<lambda>(a, n). Ok (dnext n))"

definition get_prev :: "nat option \<Rightarrow> dheap \<Rightarrow> nat option result" where
  "get_prev p h = rbind (node h p) (\<lambda>(a, n). Ok (dprev n))"

definition shl_dlist_init :: "nat option \<Rightarrow> dheap \<Rightarrow> dheap result" where
  "shl_dlist_init l h = rbind (set_next l l h) (set_prev l l)"

definition shl_dlist__link :: "nat option \<Rightarrow> nat option \<Rightarrow> nat option \<Rightarrow> dheap \<Rightarrow> dheap result" where
  "shl_dlist__link prev next n h =
     rbind (set_prev next n h) (\<lambda>h.
     rbind (set_next n next h) (\<lambda>h.
     rbind (set_prev n prev h) (\<lambda>h.
     set_next prev n h)))"

definition shl_dlist_link :: "nat option \<Rightarrow> nat option \<Rightarrow> dheap \<Rightarrow> dheap result" where
  "shl_dlist_link head n h = rbind (get_next head h) (\<lambda>next. shl_dlist__link head next n h)"

definition shl_dlist_link_tail :: "nat option \<Rightarrow> nat option \<Rightarrow> dheap \<Rightarrow> dheap result" where
  "shl_dlist_link_tail head n h = rbind (get_prev head h) (\<lambda>prev. shl_dlist__link prev head n h)"

definition shl_dlist__unlink :: "nat option \<Rightarrow> nat option \<Rightarrow> dheap \<Rightarrow> dheap result" where
  "shl_dlist__unlink prev next h = rbind (set_prev next prev h) (set_next prev next)"

definition shl_dlist_unlink :: "nat option \<Rightarrow> dheap \<Rightarrow> dheap result" where
  "shl_dlist_unlink e h =
     rbind (get_prev e h) (\<lambda>prev.
     rbind (get_next e h) (\<lambda>next.
     rbind (shl_dlist__unlink prev next h) (\<lambda>h.
     rbind (set_prev e None h) (set_next e None))))"

definition shl_dlist_empty :: "nat option \<Rightarrow> dheap \<Rightarrow> bool result" where
  "shl_dlist_empty head h = rbind (get_next head h) (\<lambda>next. Ok (next = head))"

definition shl_dlist_first :: "nat option \<Rightarrow> dheap \<Rightarrow> nat option result" where
  "shl_dlist_first head h = get_next head h"

definition shl_dlist_last :: "nat option \<Rightarrow> dheap \<Rightarrow> nat option result" where
  "shl_dlist_last head h = get_prev head h"

subsection \<open>The list in the heap\<close>

definition next_of :: "dheap \<Rightarrow> nat \<Rightarrow> nat option" where
  "next_of h a = Option.bind (h a) dnext"

definition prev_of :: "dheap \<Rightarrow> nat \<Rightarrow> nat option" where
  "prev_of h a = Option.bind (h a) dprev"

text \<open>A chain: each node points to the one behind it and back.\<close>

fun chain :: "dheap \<Rightarrow> nat list \<Rightarrow> bool" where
  "chain h (a # b # as) \<longleftrightarrow> next_of h a = Some b \<and> prev_of h b = Some a \<and> chain h (b # as)"
| "chain h _ \<longleftrightarrow> True"

definition dlist :: "dheap \<Rightarrow> nat \<Rightarrow> nat list \<Rightarrow> bool" where
  "dlist h head xs \<longleftrightarrow> distinct (head # xs) \<and> set (head # xs) \<subseteq> dom h \<and> chain h (head # xs @ [head])"

lemma chain_append: "chain h (as @ b # cs) \<longleftrightarrow> chain h (as @ [b]) \<and> chain h (b # cs)"
  by (induction as rule: induct_list012) auto

lemma next_of_dom: "next_of h a = Some b \<Longrightarrow> a \<in> dom h"
  by (cases "h a") (auto simp: next_of_def)

text \<open>What a chain reads: the links forward of all nodes but the last, the links back of all but the first.\<close>

lemma chain_cong:
  assumes "chain h as" and "\<And>a. a \<in> set (butlast as) \<Longrightarrow> next_of h' a = next_of h a"
    and "\<And>a. a \<in> set (tl as) \<Longrightarrow> prev_of h' a = prev_of h a"
  shows "chain h' as"
  using assms
proof (induction h as rule: chain.induct)
  case (1 h a b as)
  have "chain h' (b # as)" using 1 by (intro "1.IH") (auto split: if_splits)
  then show ?case using 1 by simp
qed simp_all

subsection \<open>Links\<close>

text \<open>What an operation did, in terms of the links; the freed and the allocated nodes are the same as before.\<close>

definition relinked :: "dheap \<Rightarrow> dheap \<Rightarrow> (nat \<Rightarrow> nat option) \<Rightarrow> (nat \<Rightarrow> nat option) \<Rightarrow> bool" where
  "relinked h h' n p \<longleftrightarrow> dom h' = dom h \<and> next_of h' = n \<and> prev_of h' = p"

lemma set_next_Some:
  assumes "a \<in> dom h"
  shows "\<exists>h'. set_next (Some a) v h = Ok h' \<and> relinked h h' ((next_of h)(a := v)) (prev_of h)"
proof -
  obtain y where y: "h a = Some y" using assms by blast
  then have "relinked h (h(a \<mapsto> y\<lparr>dnext := v\<rparr>)) ((next_of h)(a := v)) (prev_of h)"
    by (auto simp: relinked_def next_of_def prev_of_def fun_eq_iff)
  then show ?thesis using y by (simp add: set_next_def node_def)
qed

lemma set_prev_Some:
  assumes "a \<in> dom h"
  shows "\<exists>h'. set_prev (Some a) v h = Ok h' \<and> relinked h h' (next_of h) ((prev_of h)(a := v))"
proof -
  obtain y where y: "h a = Some y" using assms by blast
  then have "relinked h (h(a \<mapsto> y\<lparr>dprev := v\<rparr>)) (next_of h) ((prev_of h)(a := v))"
    by (auto simp: relinked_def next_of_def prev_of_def fun_eq_iff)
  then show ?thesis using y by (simp add: set_prev_def node_def)
qed

lemma get_Some:
  assumes "a \<in> dom h"
  shows "get_next (Some a) h = Ok (next_of h a)" "get_prev (Some a) h = Ok (prev_of h a)"
  using assms by (auto simp: get_next_def get_prev_def node_def next_of_def prev_of_def)

lemma link_relinks:
  assumes "p \<in> dom h" "q \<in> dom h" "n \<in> dom h"
  shows "\<exists>h'. shl_dlist__link (Some p) (Some q) (Some n) h = Ok h' \<and>
    relinked h h' ((next_of h)(n := Some q, p := Some n)) ((prev_of h)(q := Some n, n := Some p))"
proof -
  obtain h1 where h1: "set_prev (Some q) (Some n) h = Ok h1" "relinked h h1 (next_of h) ((prev_of h)(q := Some n))"
    using set_prev_Some [OF assms(2)] by blast
  then have "n \<in> dom h1" using assms by (simp add: relinked_def)
  from set_next_Some [OF this] obtain h2 where h2: "set_next (Some n) (Some q) h1 = Ok h2" "relinked h1 h2 ((next_of h1)(n := Some q)) (prev_of h1)"
    by blast
  then have "n \<in> dom h2" using assms h1 by (simp add: relinked_def)
  from set_prev_Some [OF this] obtain h3 where h3: "set_prev (Some n) (Some p) h2 = Ok h3" "relinked h2 h3 (next_of h2) ((prev_of h2)(n := Some p))"
    by blast
  then have "p \<in> dom h3" using assms h1 h2 by (simp add: relinked_def)
  from set_next_Some [OF this] obtain h4 where h4: "set_next (Some p) (Some n) h3 = Ok h4" "relinked h3 h4 ((next_of h3)(p := Some n)) (prev_of h3)"
    by blast
  have "relinked h h4 ((next_of h)(n := Some q, p := Some n)) ((prev_of h)(q := Some n, n := Some p))"
    using h1(2) h2(2) h3(2) h4(2) by (simp add: relinked_def)
  then show ?thesis by (simp add: shl_dlist__link_def h1(1) h2(1) h3(1) h4(1))
qed

lemma unlink_relinks:
  assumes "e \<in> dom h" and "next_of h e = Some q" "prev_of h e = Some p" "p \<in> dom h" "q \<in> dom h"
  shows "\<exists>h'. shl_dlist_unlink (Some e) h = Ok h' \<and>
    relinked h h' ((next_of h)(p := Some q, e := None)) ((prev_of h)(q := Some p, e := None))"
proof -
  obtain h1 where h1: "set_prev (Some q) (Some p) h = Ok h1" "relinked h h1 (next_of h) ((prev_of h)(q := Some p))"
    using set_prev_Some [OF assms(5)] by blast
  then have "p \<in> dom h1" using assms by (simp add: relinked_def)
  from set_next_Some [OF this] obtain h2 where h2: "set_next (Some p) (Some q) h1 = Ok h2" "relinked h1 h2 ((next_of h1)(p := Some q)) (prev_of h1)"
    by blast
  then have "e \<in> dom h2" using assms h1 by (simp add: relinked_def)
  from set_prev_Some [OF this] obtain h3 where h3: "set_prev (Some e) None h2 = Ok h3" "relinked h2 h3 (next_of h2) ((prev_of h2)(e := None))"
    by blast
  then have "e \<in> dom h3" using assms h1 h2 by (simp add: relinked_def)
  from set_next_Some [OF this] obtain h4 where h4: "set_next (Some e) None h3 = Ok h4" "relinked h3 h4 ((next_of h3)(e := None)) (prev_of h3)"
    by blast
  have "relinked h h4 ((next_of h)(p := Some q, e := None)) ((prev_of h)(q := Some p, e := None))"
    using h1(2) h2(2) h3(2) h4(2) by (simp add: relinked_def)
  then show ?thesis using assms by (simp add: shl_dlist_unlink_def shl_dlist__unlink_def get_Some h1(1) h2(1) h3(1) h4(1))
qed

subsection \<open>Refinement\<close>

text \<open>The first and the last node, and the neighbours of a node inside.\<close>

lemma dlist_ends:
  assumes "dlist h head xs"
  shows "next_of h head = Some (hd (xs @ [head]))" "prev_of h head = Some (last (head # xs))" "head \<in> dom h"
proof -
  have c: "chain h (head # xs @ [head])" using assms by (simp add: dlist_def)
  show "next_of h head = Some (hd (xs @ [head]))" using c by (cases xs) auto
  obtain ys y where ys: "head # xs = ys @ [y]" by (metis list.distinct(1) rev_exhaust)
  have "chain h ((head # xs) @ [head])" using c by simp
  then have "chain h (ys @ [y, head])" unfolding ys by simp
  then have "prev_of h head = Some y" using chain_append [of h ys y "[head]"] by simp
  then show "prev_of h head = Some (last (head # xs))" unfolding ys by simp
  show "head \<in> dom h" using assms by (simp add: dlist_def)
qed

lemma shl_dlist_empty_correct: "dlist h head xs \<Longrightarrow> shl_dlist_empty (Some head) h = Ok (xs = [])"
proof -
  assume l: "dlist h head xs"
  have "hd (xs @ [head]) = head \<longleftrightarrow> xs = []" using l by (cases xs) (auto simp: dlist_def)
  then show ?thesis using dlist_ends(1,3) [OF l] by (simp add: shl_dlist_empty_def get_Some)
qed

lemma shl_dlist_first_correct: "dlist h head xs \<Longrightarrow> shl_dlist_first (Some head) h = Ok (Some (hd (xs @ [head])))"
  using dlist_ends [of h head xs] by (simp add: shl_dlist_first_def get_Some)

lemma shl_dlist_last_correct: "dlist h head xs \<Longrightarrow> shl_dlist_last (Some head) h = Ok (Some (last (head # xs)))"
  using dlist_ends [of h head xs] by (simp add: shl_dlist_last_def get_Some)

lemma shl_dlist_init_correct:
  assumes "head \<in> dom h"
  shows "\<exists>h'. shl_dlist_init (Some head) h = Ok h' \<and> dlist h' head [] \<and> dom h' = dom h \<and> (\<forall>a. a \<noteq> head \<longrightarrow> h' a = h a)"
proof -
  obtain y where y: "h head = Some y" using assms by blast
  have "dlist (h(head \<mapsto> y\<lparr>dnext := Some head, dprev := Some head\<rparr>)) head []"
    by (simp add: dlist_def next_of_def prev_of_def)
  then show ?thesis using y by (auto simp: shl_dlist_init_def set_next_def set_prev_def node_def)
qed

text \<open>Inserting a node between two others.\<close>

lemma insert_chain:
  assumes r: "relinked h h' ((next_of h)(n := Some q, p := Some n)) ((prev_of h)(q := Some n, n := Some p))"
    and c: "chain h (as @ [p, q] @ bs)" and n: "n \<notin> set (as @ [p, q] @ bs)"
    and d: "p \<notin> set as" "q \<notin> set bs" "q \<notin> set (tl (as @ [p]))" "p \<notin> set (butlast (q # bs))"
  shows "chain h' (as @ [p, n, q] @ bs)"
proof -
  have nx: "next_of h' = (next_of h)(n := Some q, p := Some n)" and pv: "prev_of h' = (prev_of h)(q := Some n, n := Some p)"
    using r by (simp_all add: relinked_def)
  have tl: "set (tl (as @ [p])) \<subseteq> set (as @ [p])" by (cases as) auto
  have c1: "chain h (as @ [p])" and c2: "chain h (q # bs)" using c chain_append [of h as p "q # bs"] by auto
  have "chain h' (as @ [p])"
    by (rule chain_cong [OF c1]) (use n d tl in \<open>auto simp: nx pv\<close>)
  moreover have "chain h' (q # bs)"
    by (rule chain_cong [OF c2]) (use n d in \<open>auto simp: nx pv split: if_splits dest: in_set_butlastD\<close>)
  moreover have "n \<noteq> p" "n \<noteq> q" using n by auto
  ultimately show ?thesis using chain_append [of h' as p "n # q # bs"] by (simp add: nx pv)
qed

lemma remove_chain:
  assumes r: "relinked h h' ((next_of h)(p := Some q, e := None)) ((prev_of h)(q := Some p, e := None))"
    and c: "chain h (as @ [p, e, q] @ bs)" and e: "e \<notin> set (as @ [p, q] @ bs)"
    and d: "p \<notin> set as" "q \<notin> set bs" "q \<notin> set (tl (as @ [p]))" "p \<notin> set (butlast (q # bs))"
  shows "chain h' (as @ [p, q] @ bs)"
proof -
  have nx: "next_of h' = (next_of h)(p := Some q, e := None)" and pv: "prev_of h' = (prev_of h)(q := Some p, e := None)"
    using r by (simp_all add: relinked_def)
  have tl: "set (tl (as @ [p])) \<subseteq> set (as @ [p])" by (cases as) auto
  have c1: "chain h (as @ [p])" and c2: "chain h (q # bs)" using c chain_append [of h as p "e # q # bs"] by auto
  have "chain h' (as @ [p])"
    by (rule chain_cong [OF c1]) (use e d tl in \<open>auto simp: nx pv\<close>)
  moreover have "chain h' (q # bs)"
    by (rule chain_cong [OF c2]) (use e d in \<open>auto simp: nx pv split: if_splits dest: in_set_butlastD\<close>)
  moreover have "e \<noteq> p" "e \<noteq> q" using e by auto
  ultimately show ?thesis using chain_append [of h' as p "q # bs"] by (simp add: nx pv)
qed

lemma shl_dlist_link_correct:
  assumes l: "dlist h head xs" and n: "n \<in> dom h" "n \<notin> set (head # xs)"
  shows "\<exists>h'. shl_dlist_link (Some head) (Some n) h = Ok h' \<and> dlist h' head (n # xs) \<and> dom h' = dom h"
proof -
  let ?q = "hd (xs @ [head])"
  have q: "?q \<in> set (head # xs)" by (cases xs) auto
  then have "?q \<in> dom h" using l by (auto simp: dlist_def)
  from link_relinks [OF dlist_ends(3) [OF l] this n(1)] obtain h' where
    h': "shl_dlist__link (Some head) (Some ?q) (Some n) h = Ok h'"
      "relinked h h' ((next_of h)(n := Some ?q, head := Some n)) ((prev_of h)(?q := Some n, n := Some head))" by blast
  obtain bs where split: "xs @ [head] = ?q # bs" by (cases xs) auto
  have d: "distinct (?q # bs)" "distinct (head # xs)" using l unfolding split [symmetric] by (auto simp: dlist_def)
  have b: "butlast (?q # bs) = xs" unfolding split [symmetric] by simp
  have "chain h ([] @ [head, ?q] @ bs)" using l split by (simp add: dlist_def)
  moreover have "n \<notin> set ([] @ [head, ?q] @ bs)"
  proof -
    have "set (?q # bs) = insert head (set xs)" unfolding split [symmetric] by auto
    then show ?thesis using n by auto
  qed
  ultimately have "chain h' ([] @ [head, n, ?q] @ bs)"
  proof (rule insert_chain [OF h'(2)])
    show "head \<notin> set (butlast (?q # bs))" unfolding b using d by simp
  qed (use d in auto)
  then have "dlist h' head (n # xs)" using l n h'(2) split by (auto simp: dlist_def relinked_def)
  moreover have "shl_dlist_link (Some head) (Some n) h = Ok h'" using dlist_ends [OF l] h'(1) by (simp add: shl_dlist_link_def get_Some)
  moreover have "dom h' = dom h" using h'(2) by (simp add: relinked_def)
  ultimately show ?thesis by blast
qed

lemma shl_dlist_link_tail_correct:
  assumes l: "dlist h head xs" and n: "n \<in> dom h" "n \<notin> set (head # xs)"
  shows "\<exists>h'. shl_dlist_link_tail (Some head) (Some n) h = Ok h' \<and> dlist h' head (xs @ [n]) \<and> dom h' = dom h"
proof -
  obtain ys p where ys: "head # xs = ys @ [p]" by (metis list.distinct(1) rev_exhaust)
  have d: "distinct (ys @ [p])" "set (ys @ [p]) \<subseteq> dom h" "n \<notin> set (ys @ [p])" using l n unfolding ys [symmetric] by (auto simp: dlist_def)
  have "p \<in> dom h" using d by auto
  from link_relinks [OF this dlist_ends(3) [OF l] n(1)] obtain h' where
    h': "shl_dlist__link (Some p) (Some head) (Some n) h = Ok h'"
      "relinked h h' ((next_of h)(n := Some head, p := Some n)) ((prev_of h)(head := Some n, n := Some p))" by blast
  have "chain h ((head # xs) @ [head])" using l by (simp add: dlist_def)
  then have "chain h (ys @ [p, head] @ [])" unfolding ys by simp
  moreover have "tl (ys @ [p]) = xs" using arg_cong [OF ys, of tl] by simp
  ultimately have "chain h' (ys @ [p, n, head] @ [])"
    using d n l by (intro insert_chain [OF h'(2)]) (auto simp: dlist_def)
  then have "chain h' ((ys @ [p]) @ [n, head])" by simp
  then have "dlist h' head (xs @ [n])" using l n h'(2) unfolding ys [symmetric] by (simp add: dlist_def relinked_def)
  moreover have "last (head # xs) = p" unfolding ys by simp
  then have "shl_dlist_link_tail (Some head) (Some n) h = Ok h'"
    using dlist_ends(2,3) [OF l] h'(1) by (simp add: shl_dlist_link_tail_def get_Some del: last.simps)
  moreover have "dom h' = dom h" using h'(2) by (simp add: relinked_def)
  ultimately show ?thesis by blast
qed

lemma shl_dlist_unlink_correct:
  assumes l: "dlist h head (xs @ e # ys)"
  shows "\<exists>h'. shl_dlist_unlink (Some e) h = Ok h' \<and> dlist h' head (xs @ ys) \<and> dom h' = dom h \<and> next_of h' e = None \<and> prev_of h' e = None"
proof -
  obtain as p where as: "head # xs = as @ [p]" by (metis list.distinct(1) rev_exhaust)
  obtain q bs where bs: "ys @ [head] = q # bs" by (cases ys) auto
  have c: "chain h ((head # xs) @ e # (ys @ [head]))" using l by (simp add: dlist_def)
  have d: "distinct (head # xs @ e # ys)" and dom: "set (head # xs @ e # ys) \<subseteq> dom h" using l by (simp_all add: dlist_def)
  have c': "chain h (as @ [p, e, q] @ bs)" using c unfolding as bs by simp
  have links: "next_of h e = Some q" "prev_of h e = Some p" using c' chain_append [of h as p "e # q # bs"] by auto
  have "p \<in> set (head # xs)" "q \<in> set (ys @ [head])" unfolding as bs by simp_all
  then have pq: "p \<in> dom h" "q \<in> dom h" "e \<in> dom h" using dom by auto
  from unlink_relinks [OF pq(3) links pq(1,2)] obtain h' where
    h': "shl_dlist_unlink (Some e) h = Ok h'" "relinked h h' ((next_of h)(p := Some q, e := None)) ((prev_of h)(q := Some p, e := None))" by blast
  have da: "distinct (as @ [p])" "e \<notin> set (as @ [p])" using d unfolding as [symmetric] by auto
  have db: "distinct (q # bs)" "e \<notin> set (q # bs)" using d unfolding bs [symmetric] by auto
  have "tl (as @ [p]) = xs" using arg_cong [OF as, of tl] by simp
  moreover have "butlast (q # bs) = ys" using arg_cong [OF bs, of butlast] by simp
  moreover have "p \<notin> set ys" using d \<open>p \<in> set (head # xs)\<close> by auto
  moreover have "q \<notin> set xs" using d \<open>q \<in> set (ys @ [head])\<close> by auto
  ultimately have "chain h' (as @ [p, q] @ bs)"
    using da db by (intro remove_chain [OF h'(2) c']) auto
  then have "chain h' ((as @ [p]) @ (q # bs))" by simp
  then have "dlist h' head (xs @ ys)" using d dom h'(2) unfolding as [symmetric] bs [symmetric] by (simp add: dlist_def relinked_def)
  moreover have "p \<noteq> e" "q \<noteq> e" using da db by auto
  ultimately show ?thesis using h' by (auto simp: relinked_def)
qed

subsection \<open>Walking along the list\<close>

lemma dlist_next:
  assumes "dlist h head (xs @ a # ys)"
  shows "get_next (Some a) h = Ok (Some (hd (ys @ [head])))"
proof -
  have "chain h ((head # xs) @ a # (ys @ [head]))" "a \<in> dom h" using assms by (simp_all add: dlist_def)
  then have "next_of h a = Some (hd (ys @ [head]))" using chain_append [of h "head # xs" a "ys @ [head]"] by (cases ys) auto
  then show ?thesis using \<open>a \<in> dom h\<close> by (simp add: get_Some)
qed

lemma dlist_first: "dlist h head xs \<Longrightarrow> get_next (Some head) h = Ok (Some (hd (xs @ [head])))"
  using shl_dlist_first_correct by (simp add: shl_dlist_first_def)

text \<open>Nodes outside the list may come and go.\<close>

lemma dlist_cong:
  assumes "dlist h head xs" and "\<And>a. a \<in> set (head # xs) \<Longrightarrow> h' a = h a"
  shows "dlist h' head xs"
proof -
  have c: "chain h (head # xs @ [head])" using assms(1) by (simp add: dlist_def)
  have "chain h' (head # xs @ [head])"
    by (rule chain_cong [OF c]) (use assms(2) in \<open>auto simp: next_of_def prev_of_def dest: in_set_butlastD\<close>)
  moreover have "set (head # xs) \<subseteq> dom h'" using assms by (auto simp: dlist_def dom_def)
  ultimately show ?thesis using assms(1) by (simp add: dlist_def)
qed

subsection \<open>Sequences of operations\<close>

text \<open>What programs do with a list. The nodes to be linked are those of a pool that is not in the list.\<close>

datatype dlist_op = Link nat | Link_tail nat | Unlink nat

fun dlist_run :: "nat \<Rightarrow> dlist_op \<Rightarrow> dheap \<Rightarrow> dheap result" where
  "dlist_run head (Link n) h = shl_dlist_link (Some head) (Some n) h"
| "dlist_run head (Link_tail n) h = shl_dlist_link_tail (Some head) (Some n) h"
| "dlist_run head (Unlink n) h = shl_dlist_unlink (Some n) h"

fun dlist_runs :: "nat \<Rightarrow> dlist_op list \<Rightarrow> dheap \<Rightarrow> dheap result" where
  "dlist_runs head [] h = Ok h"
| "dlist_runs head (c # cs) h = rbind (dlist_run head c h) (dlist_runs head cs)"

text \<open>The same on lists; a node is linked once and unlinked only when it is in the list.\<close>

fun list_run :: "dlist_op \<Rightarrow> nat list \<Rightarrow> nat list option" where
  "list_run (Link n) xs = (if n \<in> set xs then None else Some (n # xs))"
| "list_run (Link_tail n) xs = (if n \<in> set xs then None else Some (xs @ [n]))"
| "list_run (Unlink n) xs = (if n \<in> set xs then Some (remove1 n xs) else None)"

fun list_runs :: "dlist_op list \<Rightarrow> nat list \<Rightarrow> nat list option" where
  "list_runs [] xs = Some xs"
| "list_runs (c # cs) xs = Option.bind (list_run c xs) (list_runs cs)"

fun op_node :: "dlist_op \<Rightarrow> nat" where
  "op_node (Link n) = n"
| "op_node (Link_tail n) = n"
| "op_node (Unlink n) = n"

lemma dlist_run_correct:
  assumes "dlist h head xs" and "list_run c xs = Some ys" and "op_node c \<in> dom h - {head}"
  shows "\<exists>h'. dlist_run head c h = Ok h' \<and> dlist h' head ys \<and> dom h' = dom h"
proof (cases c)
  case (Unlink n)
  then obtain as bs where xs: "xs = as @ n # bs" "n \<notin> set as" using assms(2) by (auto split: if_splits dest: split_list_first)
  then have ys: "ys = as @ bs" using assms(2) Unlink by (simp add: remove1_append)
  have "dlist h head (as @ n # bs)" using assms(1) xs by simp
  from shl_dlist_unlink_correct [OF this] show ?thesis unfolding Unlink ys by auto
next
  case (Link n)
  then show ?thesis using assms shl_dlist_link_correct [OF assms(1), of n] by (simp split: if_splits)
next
  case (Link_tail n)
  then show ?thesis using assms shl_dlist_link_tail_correct [OF assms(1), of n] by (simp split: if_splits)
qed

lemma dlist_runs_correct:
  "dlist h head xs \<Longrightarrow> list_runs cs xs = Some ys \<Longrightarrow> op_node ` set cs \<subseteq> dom h - {head} \<Longrightarrow>
   \<exists>h'. dlist_runs head cs h = Ok h' \<and> dlist h' head ys \<and> dom h' = dom h"
proof (induction cs arbitrary: h xs)
  case (Cons c cs)
  then obtain zs where zs: "list_run c xs = Some zs" "list_runs cs zs = Some ys" by (auto simp: bind_eq_Some_conv)
  obtain h' where h': "dlist_run head c h = Ok h'" "dlist h' head zs" "dom h' = dom h"
    using dlist_run_correct [OF Cons.prems(1) zs(1)] Cons.prems(3) by auto
  then show ?case using Cons.IH [OF h'(2) zs(2)] Cons.prems(3) by auto
qed auto

text \<open>Reading a list from the heap, at most \<open>n\<close> nodes, forward and backward.\<close>

fun walk :: "(nat option \<Rightarrow> dheap \<Rightarrow> nat option result) \<Rightarrow> nat \<Rightarrow> nat \<Rightarrow> nat \<Rightarrow> dheap \<Rightarrow> nat list result" where
  "walk step 0 head a h = Ok []"
| "walk step (Suc n) head a h =
     rbind (step (Some a) h) (\<lambda>p.
     case p of
       None \<Rightarrow> Fault
     | Some b \<Rightarrow> if b = head then Ok [] else rbind (walk step n head b h) (\<lambda>bs. Ok (b # bs)))"

lemma walk_forward:
  "dlist h head (as @ bs) \<Longrightarrow> length bs < n \<Longrightarrow> walk get_next n head (last (head # as)) h = Ok bs"
proof (induction n arbitrary: as bs)
  case (Suc n)
  have step: "get_next (Some (last (head # as))) h = Ok (Some (hd (bs @ [head])))"
  proof (cases as rule: rev_cases)
    case Nil
    then show ?thesis using dlist_first Suc.prems(1) by simp
  next
    case (snoc as' a)
    then show ?thesis using dlist_next [of h head as' a bs] Suc.prems(1) by simp
  qed
  show ?case
  proof (cases bs)
    case (Cons b bs')
    then have "walk get_next n head (last (head # as @ [b])) h = Ok bs'" using Suc.IH [of "as @ [b]" bs'] Suc.prems by simp
    moreover have "b \<noteq> head" using Suc.prems(1) Cons by (auto simp: dlist_def)
    ultimately show ?thesis using step Cons by simp
  qed (use step in simp)
qed simp

text \<open>
  C21: The doubly linked list implements lists. Starting from a list in the heap, any sequence of linking at the front, linking at the
  end and unlinking, where a node is linked only when it is outside and unlinked only when it is inside, never touches a node that does not exist,
  and leaves the nodes in the order that the same sequence gives on lists: first, last and emptiness are those of that list, and
  following the links from the head visits exactly its nodes.
\<close>

theorem shl_dlist_refines_list:
  assumes "dlist h head xs" and "list_runs cs xs = Some ys" and "op_node ` set cs \<subseteq> dom h - {head}"
  shows "\<exists>h'. dlist_runs head cs h = Ok h' \<and> dom h' = dom h \<and> walk get_next (length ys + 1) head head h' = Ok ys \<and>
    shl_dlist_empty (Some head) h' = Ok (ys = []) \<and> shl_dlist_first (Some head) h' = Ok (Some (hd (ys @ [head]))) \<and>
    shl_dlist_last (Some head) h' = Ok (Some (last (head # ys)))"
proof -
  obtain h' where h': "dlist_runs head cs h = Ok h'" "dlist h' head ys" "dom h' = dom h"
    using dlist_runs_correct [OF assms] by blast
  moreover have "walk get_next (length ys + 1) head head h' = Ok ys"
    using walk_forward [of h' head "[]" ys "length ys + 1"] h'(2) by (simp del: walk.simps)
  ultimately show ?thesis
    using shl_dlist_empty_correct [OF h'(2)] shl_dlist_first_correct [OF h'(2)] shl_dlist_last_correct [OF h'(2)] by blast
qed

theorem shl_dlist_refines_list_witness:
  "\<exists>h'. rbind (shl_dlist_init (Some 0) (\<lambda>a. if a < 4 then Some \<lparr>dnext = None, dprev = None\<rparr> else None))
      (dlist_runs 0 [Link 1, Link_tail 2, Link 3, Unlink 1]) = Ok h' \<and> walk get_next 3 0 0 h' = Ok [3, 2]"
proof -
  let ?h = "\<lambda>a :: nat. if a < 4 then Some \<lparr>dnext = None, dprev = None\<rparr> else None"
  have "0 \<in> dom ?h" by (simp add: dom_def)
  from shl_dlist_init_correct [OF this] obtain h where h: "shl_dlist_init (Some 0) ?h = Ok h" "dlist h 0 []" "dom h = dom ?h"
    by blast
  have "list_runs [Link 1, Link_tail 2, Link 3, Unlink 1] [] = Some [3, 2]" by simp
  moreover have "op_node ` set [Link 1, Link_tail 2, Link 3, Unlink 1] \<subseteq> dom h - {0}" unfolding h(3) by auto
  ultimately show ?thesis using shl_dlist_refines_list [OF h(2)] h(1) by (fastforce simp: numeral_3_eq_3)
qed

end
