(* ===== verification/P2pd_Interface.thy ===== *)
theory P2pd_Interface
  imports Wpa_Ctrl_Correct Wpa_Parser Dlist
begin

text \<open>
  The P2P daemon: \<open>src/p2pd_interface.c\<close>, which starts wpa_supplicant, waits for its socket, sets it up, and hands parsed
  events to its users, the user of \<open>src/p2pd_dummy.c\<close>, and the dispatcher of \<open>src/p2pd.c\<close>. The
  state is that of the channel to the supplicant, extended by the part of the interface.
\<close>

unbundle bit_operations_syntax

subsection \<open>State\<close>

record p2pd_config =
  cf_interface :: "char list"
  cf_wpa_binary :: "char list"
  cf_wpa_ctrldir :: "char list"

text \<open>
  \<open>if_heap\<close> holds the list nodes of the event users and the head at \<open>if_head\<close>, \<open>if_info\<close> the callback and data of each user; callback 0
  is the null pointer. Addresses are not used twice. \<open>children\<close> are the processes started and not yet waited for, \<open>signalled\<close> those that got
  SIGTERM; \<open>acked\<close> tells that the supplicant has acknowledged the request to terminate, \<open>notified\<close> are the callbacks made.
\<close>

record p2pd_iface =
  if_conf :: p2pd_config
  if_wpa_fd :: int
  if_pid :: int
  if_heap :: dheap
  if_head :: nat
  if_info :: "nat \<rightharpoonup> nat \<times> nat"
  if_next :: nat
  children :: "int set"
  signalled :: "int list"
  acked :: bool
  notified :: "(nat \<times> nat \<times> owfd_wpa_event) list"

type_synonym p2pd_interface = "p2pd_iface wpa_ctrl_scheme"
type_synonym 'a iop = "(p2pd_interface, 'a) op"
type_synonym 'a ilop = "(p2pd_interface, 'a) lop"

abbreviation ifc :: "p2pd_interface \<Rightarrow> p2pd_iface" where
  "ifc \<equiv> wpa_ctrl.more"

abbreviation iget :: "(p2pd_iface \<Rightarrow> 'a) \<Rightarrow> 'a iop" where
  "iget f \<equiv> sget (\<lambda>s. f (ifc s))"

abbreviation imod :: "(p2pd_iface \<Rightarrow> p2pd_iface) \<Rightarrow> unit iop" where
  "imod f \<equiv> smod (wpa_ctrl.more_update f)"

text \<open>What a callback of a user may do.\<close>

datatype user_call =
    Registers nat nat
  | Unregisters nat nat
  | Connects_peer "char list" "char list" "char list option"

type_synonym users = "nat \<Rightarrow> nat \<Rightarrow> owfd_wpa_event \<Rightarrow> p2pd_interface \<Rightarrow> user_call list"

subsection \<open>Event users\<close>

definition on_heap :: "(dheap \<Rightarrow> dheap result) \<Rightarrow> unit iop" where
  "on_heap f =
     sbind (iget if_heap) (\<lambda>h.
     sbind (slift (f h)) (\<lambda>h.
     imod (\<lambda>i. i\<lparr>if_heap := h\<rparr>)))"

definition user_at :: "nat option \<Rightarrow> (nat \<times> nat) iop" where
  "user_at p =
     sbind (iget if_info) (\<lambda>m.
     case p of None \<Rightarrow> slift Fault | Some a \<Rightarrow> (case m a of None \<Rightarrow> slift Fault | Some u \<Rightarrow> sret u))"

definition free_user :: "nat \<Rightarrow> unit iop" where
  "free_user a = imod (\<lambda>i. i\<lparr>if_heap := (if_heap i)(a := None), if_info := (if_info i)(a := None)\<rparr>)"

text \<open>The allocator is asked through the answers of the kernel.\<close>

definition owfd_p2pd_interface_register_event_fn :: "answers \<Rightarrow> nat \<Rightarrow> nat \<Rightarrow> unit iop" where
  "owfd_p2pd_interface_register_event_fn K event_fn data =
     sbind (attempt (sys K)) (\<lambda>r.
     case r of
       Inl _ \<Rightarrow> serr ENOMEM
     | Inr _ \<Rightarrow>
         sbind (iget if_next) (\<lambda>e.
         sbind (imod (\<lambda>i. i\<lparr>if_next := e + 1, if_heap := (if_heap i)(e \<mapsto> \<lparr>dnext = None, dprev = None\<rparr>),
           if_info := (if_info i)(e \<mapsto> (event_fn, data))\<rparr>)) (\<lambda>_.
         sbind (iget if_head) (\<lambda>head.
         on_heap (shl_dlist_link (Some head) (Some e))))))"

definition unregister_round :: "nat \<Rightarrow> nat \<Rightarrow> nat option \<Rightarrow> (bool \<times> nat option) iop" where
  "unregister_round event_fn data p =
     sbind (iget if_head) (\<lambda>head.
     if p = Some head then sret (True, p)
     else
       sbind (user_at p) (\<lambda>u.
       if u = (event_fn, data) then
         sbind (on_heap (shl_dlist_unlink p)) (\<lambda>_.
         sbind (free_user (the p)) (\<lambda>_.
         sret (True, p)))
       else
         sbind (iget if_heap) (\<lambda>h.
         sbind (slift (get_next p h)) (\<lambda>p.
         sret (False, p)))))"

definition owfd_p2pd_interface_unregister_event_fn :: "nat \<Rightarrow> nat \<Rightarrow> unit ilop" where
  "owfd_p2pd_interface_unregister_event_fn event_fn data =
     obind (olift (iget if_head)) (\<lambda>head.
     obind (olift (iget if_heap)) (\<lambda>h.
     obind (olift (slift (get_next (Some head) h))) (\<lambda>p.
     obind (until_done (\<lambda>p. olift (unregister_round event_fn data p)) p) (\<lambda>_.
     olift (sret ())))))"

subsection \<open>Requests to the supplicant\<close>

definition if_wpa_request_ok :: "answers \<Rightarrow> char list \<Rightarrow> unit ilop" where
  "if_wpa_request_ok K req = owfd_wpa_ctrl_request_ok K req (- 1)"

definition if_wpa_request :: "answers \<Rightarrow> char list \<Rightarrow> nat \<Rightarrow> char list ilop" where
  "if_wpa_request K req cap = owfd_wpa_ctrl_request K req cap (- 1)"

definition owfd_p2pd_interface_connect :: "answers \<Rightarrow> char list \<Rightarrow> char list \<Rightarrow> char list option \<Rightarrow> unit ilop" where
  "owfd_p2pd_interface_connect K peer_mac pin pin_mode =
     obind (olift (attempt (sys K))) (\<lambda>r.
     case r of
       Inl _ \<Rightarrow> olift (serr ENOMEM)
     | Inr _ \<Rightarrow>
         if_wpa_request_ok K
           (case pin_mode of
              Some mode \<Rightarrow> ''P2P_CONNECT '' @ peer_mac @ '' '' @ pin @ '' '' @ mode
            | None \<Rightarrow> ''P2P_CONNECT '' @ peer_mac @ '' '' @ pin))"

definition set_all :: "answers \<Rightarrow> char list list \<Rightarrow> unit ilop" where
  "set_all K reqs = foldr (\<lambda>req rest. obind (if_wpa_request_ok K req) (\<lambda>_. rest)) reqs (olift (sret ()))"

definition wpa_setup :: "answers \<Rightarrow> unit ilop" where
  "wpa_setup K =
     obind (oattempt (
       obind (if_wpa_request K ''GET wifi_display'' 128) (\<lambda>reply.
       if length reply \<noteq> 1 \<or> hd reply \<noteq> CHR ''1'' then olift (serr ENODEV)
       else set_all K [''SET ap_scan 1'', ''SET device_name some-random-name'', ''SET device_type 1-0050F204-1'', ''SET wifi_display 1'']))) (\<lambda>r.
     case r of Inl _ \<Rightarrow> olift (serr ENODEV) | Inr _ \<Rightarrow> olift (sret ()))"

subsection \<open>Events\<close>

fun user_call_op :: "answers \<Rightarrow> user_call \<Rightarrow> unit ilop" where
  "user_call_op K (Registers event_fn data) = olift (owfd_p2pd_interface_register_event_fn K event_fn data)"
| "user_call_op K (Unregisters event_fn data) = owfd_p2pd_interface_unregister_event_fn event_fn data"
| "user_call_op K (Connects_peer mac pin mode) = owfd_p2pd_interface_connect K mac pin mode"

fun user_calls :: "answers \<Rightarrow> user_call list \<Rightarrow> unit ilop" where
  "user_calls K [] = olift (sret ())"
| "user_calls K (c # cs) = obind (oattempt (user_call_op K c)) (\<lambda>_. user_calls K cs)"

definition notify_user :: "answers \<Rightarrow> users \<Rightarrow> owfd_wpa_event \<Rightarrow> nat \<times> nat \<Rightarrow> unit ilop" where
  "notify_user K U ev u =
     (if fst u = 0 then olift (sret ())
      else
        obind (olift (imod (\<lambda>i. i\<lparr>notified := notified i @ [(fst u, snd u, ev)]\<rparr>))) (\<lambda>_.
        (\<lambda>s. user_calls K (U (fst u) (snd u) ev s) s)))"

text \<open>
  \<open>shl_dlist_for_each_safe\<close>: the next node is read before the callback of the current one is called, and the node
  behind the next one when the callback is back.
\<close>

definition event_round ::
    "answers \<Rightarrow> users \<Rightarrow> owfd_wpa_event \<Rightarrow> nat option \<times> nat option \<Rightarrow> (bool \<times> nat option \<times> nat option) ilop" where
  "event_round K U ev c =
     obind (olift (iget if_head)) (\<lambda>head.
     if fst c = Some head then olift (sret (True, c))
     else
       obind (olift (user_at (fst c))) (\<lambda>u.
       obind (notify_user K U ev u) (\<lambda>_.
       obind (olift (iget if_heap)) (\<lambda>h.
       obind (olift (slift (get_next (snd c) h))) (\<lambda>t.
       olift (sret (False, snd c, t)))))))"

definition notify_users :: "answers \<Rightarrow> users \<Rightarrow> owfd_wpa_event \<Rightarrow> unit ilop" where
  "notify_users K U ev =
     obind (olift (iget if_head)) (\<lambda>head.
     obind (olift (iget if_heap)) (\<lambda>h.
     obind (olift (slift (get_next (Some head) h))) (\<lambda>i.
     obind (olift (slift (get_next i h))) (\<lambda>t.
     obind (until_done (event_round K U ev) (i, t)) (\<lambda>_.
     olift (sret ()))))))"

text \<open>
  The channel puts a zero byte behind what it reads. \<open>M n\<close> is the allocator while the \<open>n\<close>-th event is parsed.
\<close>

definition wpa_event :: "answers \<Rightarrow> (nat \<Rightarrow> allocator) \<Rightarrow> users \<Rightarrow> nat \<Rightarrow> char list \<Rightarrow> unit ilop" where
  "wpa_event K M U h buf s =
     (case owfd_wpa_event_parse (M (length (wc_seen s))) (cstr buf) owfd_wpa_event_init of
        (ev, Fault) \<Rightarrow> Some (s, Fault)
      | (ev, Err _) \<Rightarrow> Some (s, Ok ())
      | (ev, Ok _) \<Rightarrow> if ev_type ev = OWFD_WPA_EVENT_UNKNOWN then Some (s, Ok ()) else notify_users K U ev s)"

subsection \<open>The process of the supplicant\<close>

text \<open>
  \<open>waitpid\<close> without waiting fails when there is no such child, and returns 0 when the child still runs; a process that ended is waited
  for and is a child no more.
\<close>

definition is_child_alive :: "answers \<Rightarrow> int \<Rightarrow> bool iop" where
  "is_child_alive K pid =
     sbind (sys_call K) (\<lambda>a.
     sbind (iget children) (\<lambda>cs.
     if pid \<notin> cs then sret False
     else if a_num a = 0 then sret True
     else sbind (imod (\<lambda>i. i\<lparr>children := cs - {pid}\<rparr>)) (\<lambda>_. sret False)))"

text \<open>
  The part that both loops of \<open>wait_for_wpa\<close> begin with: they wait for inotify events, at most 100 ms, and compute the rest of
  the timeout.
\<close>

definition poll_startup :: "answers \<Rightarrow> int \<Rightarrow> int \<Rightarrow> int iop" where
  "poll_startup K fd t =
     sbind get_time_us (\<lambda>start.
     sbind (sys_ppoll K fd (timespec_us (us_to_timespec (if t > 100 * 1000 then 100 * 1000 else t)))) (\<lambda>r.
     case r of
       Some revents \<Rightarrow>
         if revents AND (EPOLLHUP OR EPOLLERR) \<noteq> 0 then serr EPIPE
         else sbind get_time_us (\<lambda>now. sret (max 0 (t - (now - start))))
     | None \<Rightarrow> sbind get_time_us (\<lambda>now. sret (max 0 (t - (now - start))))))"

definition verify_child :: "answers \<Rightarrow> unit iop" where
  "verify_child K = sbind (iget if_pid) (\<lambda>pid. sbind (is_child_alive K pid) (\<lambda>alive. if \<not> alive then serr ENODEV else sret ()))"

definition drain_and_check :: "answers \<Rightarrow> int \<Rightarrow> int \<Rightarrow> (bool \<times> int) iop" where
  "drain_and_check K fd t =
     sbind (attempt (sys_read K fd 1040)) (\<lambda>_. if t \<le> 0 then serr ETIMEDOUT else sret (False, t))"

definition wait_file_round :: "answers \<Rightarrow> int \<Rightarrow> int \<Rightarrow> (bool \<times> int) ilop" where
  "wait_file_round K fd t =
     olift (
       sbind (poll_startup K fd t) (\<lambda>t.
       sbind (verify_child K) (\<lambda>_.
       sbind (attempt (sys K)) (\<lambda>r.
       case r of Inr _ \<Rightarrow> sret (True, t) | Inl _ \<Rightarrow> drain_and_check K fd t))))"

definition wait_open_round :: "answers \<Rightarrow> int \<Rightarrow> char list \<Rightarrow> int \<Rightarrow> (bool \<times> int) ilop" where
  "wait_open_round K fd file t =
     obind (olift (sbind (poll_startup K fd t) (\<lambda>t. sbind (verify_child K) (\<lambda>_. sret t)))) (\<lambda>t.
     obind (oattempt (owfd_wpa_ctrl_open K file (Some 1))) (\<lambda>r.
     case r of Inr _ \<Rightarrow> olift (sret (True, t)) | Inl _ \<Rightarrow> olift (drain_and_check K fd t)))"

definition close_after :: "int \<Rightarrow> 'a ilop \<Rightarrow> 'a ilop" where
  "close_after fd m =
     obind (oattempt m) (\<lambda>r.
     olift (sbind (sys_close fd) (\<lambda>_. case r of Inl e \<Rightarrow> serr e | Inr x \<Rightarrow> sret x)))"

text \<open>Whether the watches of inotify can be set does not matter, since the loops also poll.\<close>

definition wait_for_wpa :: "answers \<Rightarrow> char list \<Rightarrow> unit ilop" where
  "wait_for_wpa K file =
     obind (olift (sys_open K)) (\<lambda>fd.
     close_after fd (
       obind (olift (attempt (sys K))) (\<lambda>w.
       obind (olift (verify_child K)) (\<lambda>_.
       obind (olift (attempt (sys K))) (\<lambda>r.
       obind
         (case r of
            Inr _ \<Rightarrow> olift (sret (10 * 1000 * 1000))
          | Inl _ \<Rightarrow> until_done (wait_file_round K fd) (10 * 1000 * 1000)) (\<lambda>t.
       obind (case w of Inr _ \<Rightarrow> olift (attempt (sys K)) | Inl e \<Rightarrow> olift (sret (Inl e))) (\<lambda>_.
       obind (olift (attempt (sys K))) (\<lambda>_.
       obind (olift (verify_child K)) (\<lambda>_.
       obind (oattempt (owfd_wpa_ctrl_open K file (Some 1))) (\<lambda>r.
       case r of
         Inr _ \<Rightarrow> olift (sret ())
       | Inl _ \<Rightarrow> obind (until_done (wait_open_round K fd file) t) (\<lambda>_. olift (sret ()))))))))))))"

text \<open>The child executes \<open>run_child\<close> and is another process.\<close>

definition fork_wpa :: "answers \<Rightarrow> unit ilop" where
  "fork_wpa K =
     obind (olift (sys K)) (\<lambda>a.
     let pid = int (a_num a) + 1 in
     obind (olift (imod (\<lambda>i. i\<lparr>children := insert pid (children i), if_pid := pid\<rparr>))) (\<lambda>_.
     obind (olift (attempt (sys K))) (\<lambda>r.
     case r of
       Inl _ \<Rightarrow> olift (serr ENOMEM)
     | Inr _ \<Rightarrow>
         obind (olift (iget if_conf)) (\<lambda>conf.
         obind (olift (owfd_wpa_ctrl_set_sigmask 1)) (\<lambda>_.
         obind (wait_for_wpa K (cf_wpa_ctrldir conf @ ''/'' @ cf_interface conf)) (\<lambda>_.
         wpa_setup K))))))"

definition kill_wpa :: "answers \<Rightarrow> unit ilop" where
  "kill_wpa K =
     obind (olift (iget if_pid)) (\<lambda>pid.
     if pid \<le> 0 then olift (sret ())
     else
       let sigterm = olift (sbind (imod (\<lambda>i. i\<lparr>signalled := signalled i @ [pid]\<rparr>)) (\<lambda>_. sbind (attempt (sys K)) (\<lambda>_. sret ()))) in
       obind (olift (sget owfd_wpa_ctrl_is_open)) (\<lambda>open.
       if open then
         obind (oattempt (owfd_wpa_ctrl_request_ok K ''TERMINATE'' (- 1))) (\<lambda>r.
         case r of
           Inr _ \<Rightarrow> olift (imod (\<lambda>i. i\<lparr>acked := True\<rparr>))
         | Inl _ \<Rightarrow>
             obind (olift (is_child_alive K pid)) (\<lambda>alive.
             if \<not> alive then olift (sret ()) else sigterm))
       else sigterm))"

subsection \<open>Creation and end\<close>

definition iface_init :: "p2pd_config \<Rightarrow> int set \<Rightarrow> p2pd_iface" where
  "iface_init conf cs =
     \<lparr>if_conf = conf, if_wpa_fd = 0, if_pid = 0, if_heap = [0 \<mapsto> \<lparr>dnext = Some 0, dprev = Some 0\<rparr>], if_head = 0, if_info = Map.empty,
      if_next = 1, children = cs, signalled = [], acked = False, notified = []\<rparr>"

definition teardown :: "answers \<Rightarrow> unit ilop" where
  "teardown K = obind (kill_wpa K) (\<lambda>_. obind (owfd_wpa_ctrl_close K) (\<lambda>_. owfd_wpa_ctrl_unref K))"

text \<open>Adding to the epoll instance of the daemon, which is another than that of the channel (\<open>src/p2pd.c\<close>).\<close>

definition owfd_p2pd_ep_add :: "answers \<Rightarrow> int \<Rightarrow> int \<Rightarrow> ('a kernel_scheme, unit) op" where
  "owfd_p2pd_ep_add K efd fd = sbind (sys_use efd) (\<lambda>_. sbind (sys_use fd) (\<lambda>_. sbind (sys K) (\<lambda>_. sret ())))"

text \<open>
  The result is the state and the outcome; when the interface or its channel cannot be created there is no state but that of the kernel.
  \<open>mem\<close> and \<open>mem'\<close> tell whether there is memory for the two structures.
\<close>

definition owfd_p2pd_interface_new ::
    "answers \<Rightarrow> bool \<Rightarrow> bool \<Rightarrow> p2pd_config \<Rightarrow> int \<Rightarrow> int set \<Rightarrow> kernel \<Rightarrow> (kernel \<times> unit result) + (p2pd_interface \<times> unit result) option" where
  "owfd_p2pd_interface_new K mem mem' conf efd cs k =
     (if \<not> mem then Inl (k, Err ENOMEM)
      else
        case owfd_wpa_ctrl_new K mem' k of
          (k, Ok wpa) \<Rightarrow>
            let run =
              obind (olift (owfd_wpa_ctrl_set_data 1)) (\<lambda>_.
              obind (oattempt (
                obind (fork_wpa K) (\<lambda>_.
                obind (olift (sget wc_efd)) (\<lambda>fd.
                obind (olift (imod (\<lambda>i. i\<lparr>if_wpa_fd := fd\<rparr>))) (\<lambda>_.
                olift (owfd_p2pd_ep_add K efd fd)))))) (\<lambda>r.
              case r of
                Inr _ \<Rightarrow> olift (sret ())
              | Inl e \<Rightarrow> obind (teardown K) (\<lambda>_. olift (serr e))))
            in Inr (run (wpa_ctrl.extend wpa (iface_init conf cs)))
        | (k, Err e) \<Rightarrow> Inl (k, Err e)
        | (k, Fault) \<Rightarrow> Inl (k, Fault))"

definition free_round :: "unit \<Rightarrow> (bool \<times> unit) iop" where
  "free_round _ =
     sbind (iget if_head) (\<lambda>head.
     sbind (iget if_heap) (\<lambda>h.
     sbind (slift (shl_dlist_empty (Some head) h)) (\<lambda>empty.
     if empty then sret (True, ())
     else
       sbind (slift (shl_dlist_first (Some head) h)) (\<lambda>e.
       sbind (on_heap (shl_dlist_unlink e)) (\<lambda>_.
       sbind (free_user (the e)) (\<lambda>_.
       sret (False, ())))))))"

definition owfd_p2pd_interface_free :: "answers \<Rightarrow> unit ilop" where
  "owfd_p2pd_interface_free K = obind (until_done (\<lambda>c. olift (free_round c)) ()) (\<lambda>_. teardown K)"

subsection \<open>Dispatching\<close>

datatype ep_action = EP_HANDLED | EP_NOT_HANDLED | EP_QUIT

text \<open>\<open>mine\<close> tells whether the event is of the descriptor of the interface.\<close>

definition owfd_p2pd_interface_dispatch :: "answers \<Rightarrow> (nat \<Rightarrow> allocator) \<Rightarrow> users \<Rightarrow> bool \<Rightarrow> ep_action ilop" where
  "owfd_p2pd_interface_dispatch K M U mine =
     (if \<not> mine then olift (sret EP_NOT_HANDLED)
      else obind (owfd_wpa_ctrl_dispatch K (wpa_event K M U)) (\<lambda>_. olift (sret EP_HANDLED)))"

definition owfd_p2pd_interface_dispatch_chld :: "answers \<Rightarrow> int \<Rightarrow> ep_action ilop" where
  "owfd_p2pd_interface_dispatch_chld K ssi_pid =
     obind (olift (iget if_pid)) (\<lambda>pid.
     if pid \<le> 0 \<or> ssi_pid \<noteq> pid then olift (sret EP_NOT_HANDLED)
     else
       obind (owfd_wpa_ctrl_close K) (\<lambda>_.
       olift (sbind (imod (\<lambda>i. i\<lparr>if_pid := 0\<rparr>)) (\<lambda>_. sret EP_QUIT))))"

subsection \<open>The user of the daemon\<close>

text \<open>
  \<open>src/p2pd_dummy.c\<close>: the user that accepts a peer by showing its PIN. Its callback has the number 1, its data is the address of the
  structure.
\<close>

definition dummy_event_fn :: "owfd_wpa_event \<Rightarrow> user_call list" where
  "dummy_event_fn ev =
     (if ev_type ev = OWFD_WPA_EVENT_P2P_PROV_DISC_SHOW_PIN then
        (case ev_p ev of
           P2p_prov_disc_show_pin peer_mac pin \<Rightarrow> [Connects_peer peer_mac pin (Some ''display'')]
         | _ \<Rightarrow> [])
      else [])"

definition dummy_users :: users where
  "dummy_users event_fn data ev s = (if event_fn = 1 then dummy_event_fn ev else [])"

definition owfd_p2pd_dummy_new :: "answers \<Rightarrow> nat \<Rightarrow> unit iop" where
  "owfd_p2pd_dummy_new K dummy =
     sbind (attempt (sys K)) (\<lambda>r.
     case r of
       Inl _ \<Rightarrow> serr ENOMEM
     | Inr _ \<Rightarrow> owfd_p2pd_interface_register_event_fn K 1 dummy)"

definition owfd_p2pd_dummy_free :: "nat \<Rightarrow> unit ilop" where
  "owfd_p2pd_dummy_free dummy = owfd_p2pd_interface_unregister_event_fn 1 dummy"

end
