(* ===== verification/P2pd_Interface_Correct.thy ===== *)
theory P2pd_Interface_Correct
  imports P2pd_Interface
begin

text \<open>
  What the P2P daemon keeps: the event users are a list in the heap, the channel to the supplicant owns what the theory on the channel says, and
  the process of the supplicant is not forgotten.
\<close>

unbundle bit_operations_syntax

subsection \<open>The list of users\<close>

text \<open>The users with the addresses of their nodes, in the order of the list. Nothing but the head and the users is allocated.\<close>

definition users_are :: "(nat \<times> nat \<times> nat) list \<Rightarrow> p2pd_iface \<Rightarrow> bool" where
  "users_are us z \<longleftrightarrow>
     dlist (if_heap z) (if_head z) (map fst us) \<and> if_info z = map_of us \<and>
     dom (if_heap z) = insert (if_head z) (fst ` set us) \<and> (\<forall>a\<in>insert (if_head z) (fst ` set us). a < if_next z)"

fun remove_user :: "nat \<times> nat \<Rightarrow> (nat \<times> nat \<times> nat) list \<Rightarrow> (nat \<times> nat \<times> nat) list" where
  "remove_user u [] = []"
| "remove_user u (x # xs) = (if snd x = u then xs else x # remove_user u xs)"

lemma remove_user_map: "map snd (remove_user u us) = remove1 u (map snd us)"
  by (induction us) auto

lemma remove_user_append: "u \<notin> snd ` set xs \<Longrightarrow> remove_user u (xs @ ys) = xs @ remove_user u ys"
  by (induction xs) auto

lemma wp_on_heap: "f (if_heap (ifc s)) = Ok h \<Longrightarrow> wp (on_heap f) Q s = Q (Ok ()) (wpa_ctrl.more_update (\<lambda>i. i\<lparr>if_heap := h\<rparr>) s)"
  by (simp add: on_heap_def wp_simps)

text \<open>What users and requests change, of the channel and of the interface.\<close>

definition touched :: "p2pd_interface \<Rightarrow> p2pd_interface \<Rightarrow> bool" where
  "touched s s' \<longleftrightarrow> (\<exists>t. polled s t \<and> s' = wpa_ctrl.more_update (\<lambda>_. ifc s') t)"

definition same_process :: "p2pd_iface \<Rightarrow> p2pd_iface \<Rightarrow> bool" where
  "same_process z z' \<longleftrightarrow> if_conf z' = if_conf z \<and> if_wpa_fd z' = if_wpa_fd z \<and> if_pid z' = if_pid z \<and> if_head z' = if_head z \<and>
     children z' = children z \<and> signalled z' = signalled z \<and> acked z' = acked z \<and> notified z' = notified z"

lemma touchedI: "polled s t \<Longrightarrow> touched s (wpa_ctrl.more_update f t)"
proof -
  assume p: "polled s t"
  have "wpa_ctrl.more_update f t = wpa_ctrl.more_update (\<lambda>_. ifc (wpa_ctrl.more_update f t)) t" by (cases t) simp
  then show ?thesis using p unfolding touched_def by blast
qed

lemma polled_touched: "polled s t \<Longrightarrow> touched s t"
  using touchedI [of s t id] by (cases t) simp

lemma touched_refl [simp]: "touched s s"
  by (simp add: polled_touched)

lemma touched_update: "touched s t \<Longrightarrow> touched s (wpa_ctrl.more_update f t)"
proof -
  assume "touched s t"
  then obtain u where u: "polled s u" "t = wpa_ctrl.more_update (\<lambda>_. ifc t) u" by (auto simp: touched_def)
  from touchedI [OF u(1), of "f \<circ> (\<lambda>_. ifc t)"] show ?thesis by (subst u(2)) simp
qed

lemma polled_more: "polled s t \<Longrightarrow> polled (wpa_ctrl.more_update f s) (wpa_ctrl.more_update f t)"
proof -
  assume "polled s t"
  then obtain c n l where "t = s\<lparr>calls := c, now_us := n, wc_sent := l\<rparr>" by (auto simp: polled_def)
  then have "wpa_ctrl.more_update f t = (wpa_ctrl.more_update f s)\<lparr>calls := c, now_us := n, wc_sent := l\<rparr>" by (cases s) simp
  then show ?thesis unfolding polled_def by blast
qed

lemma touched_polled: "touched s t \<Longrightarrow> polled t u \<Longrightarrow> touched s u"
proof -
  assume "touched s t" and p: "polled t u"
  then obtain v where v: "polled s v" "t = wpa_ctrl.more_update (\<lambda>_. ifc t) v" by (auto simp: touched_def)
  from p obtain c n l where u: "u = t\<lparr>calls := c, now_us := n, wc_sent := l\<rparr>" by (auto simp: polled_def)
  then have "u = wpa_ctrl.more_update (\<lambda>_. ifc t) (v\<lparr>calls := c, now_us := n, wc_sent := l\<rparr>)" by (subst u, subst v(2)) (cases v, simp)
  moreover have "polled s (v\<lparr>calls := c, now_us := n, wc_sent := l\<rparr>)" by (rule polled_trans [OF v(1)]) (auto simp: polled_def)
  ultimately show ?thesis using touchedI by simp
qed

lemma touched_trans: "touched s t \<Longrightarrow> touched t u \<Longrightarrow> touched s u"
proof -
  assume st: "touched s t" and "touched t u"
  then obtain v where v: "polled t v" "u = wpa_ctrl.more_update (\<lambda>_. ifc u) v" by (auto simp: touched_def)
  from touched_update [OF touched_polled [OF st v(1)], of "\<lambda>_. ifc u"] show ?thesis using v(2) by simp
qed

lemma same_process_refl [simp]: "same_process z z"
  by (simp add: same_process_def)

lemma same_process_trans: "same_process x y \<Longrightarrow> same_process y z \<Longrightarrow> same_process x z"
  by (simp add: same_process_def)

lemma polled_ifc: "polled s s' \<Longrightarrow> ifc s' = ifc s"
  by (auto simp: polled_def)

subsection \<open>Registering and unregistering\<close>

lemma register_users:
  assumes u: "users_are us (ifc s)"
  shows "wp (owfd_p2pd_interface_register_event_fn K event_fn data) (\<lambda>r s'. touched s s' \<and> same_process (ifc s) (ifc s') \<and>
    (r = Err ENOMEM \<and> ifc s' = ifc s \<or> r = Ok () \<and> users_are ((if_next (ifc s), event_fn, data) # us) (ifc s'))) s"
proof -
  let ?z = "ifc s" and ?a = "if_next (ifc s)"
  let ?h = "(if_heap ?z)(?a \<mapsto> \<lparr>dnext = None, dprev = None\<rparr>)"
  have new: "?a \<notin> dom (if_heap ?z)" "?a \<noteq> if_head ?z" using u by (auto simp: users_are_def)
  have "dlist ?h (if_head ?z) (map fst us)"
    by (rule dlist_cong [where h = "if_heap ?z"]) (use u new in \<open>auto simp: users_are_def\<close>)
  moreover have "?a \<notin> set (if_head ?z # map fst us)" using u by (auto simp: users_are_def)
  ultimately obtain h' where h': "shl_dlist_link (Some (if_head ?z)) (Some ?a) ?h = Ok h'"
      "dlist h' (if_head ?z) (?a # map fst us)" "dom h' = dom ?h"
    using shl_dlist_link_correct [of ?h "if_head ?z" "map fst us" ?a] by auto
  have "users_are ((?a, event_fn, data) # us) (?z\<lparr>if_next := ?a + 1, if_info := (if_info ?z)(?a \<mapsto> (event_fn, data)), if_heap := h'\<rparr>)"
    using u h'(2,3) unfolding users_are_def by (auto intro: less_SucI)
  then show ?thesis
    by (auto simp: owfd_p2pd_interface_register_event_fn_def wp_simps h'(1) wp_on_heap same_process_def touchedI polled_touched intro!: on_errorI touched_update)
qed

text \<open>The loop that looks for a user starts behind users that are others.\<close>

lemma unregister_loop:
  "users_are (xs @ rest) (ifc s) \<Longrightarrow> (event_fn, data) \<notin> snd ` set xs \<Longrightarrow>
   ends (until_done (\<lambda>p. olift (unregister_round event_fn data p)) (Some (hd (map fst rest @ [if_head (ifc s)]))))
     (\<lambda>r s'. is_ok r \<and> touched s s' \<and> same_process (ifc s) (ifc s') \<and> users_are (remove_user (event_fn, data) (xs @ rest)) (ifc s')) s"
proof (induction rest arbitrary: xs)
  case Nil
  then show ?case
    by (subst until_done_unroll) (simp add: unregister_round_def lop_simps wp_simps remove_user_append [of _ _ "[]", simplified])
next
  case (Cons e rest)
  let ?z = "ifc s"
  obtain a u where e: "e = (a, u)" by (rule prod.exhaust)
  have l: "dlist (if_heap ?z) (if_head ?z) (map fst xs @ a # map fst rest)" using Cons.prems(1) e by (simp add: users_are_def)
  then have a: "a \<noteq> if_head ?z" by (auto simp: dlist_def)
  have "distinct (map fst (xs @ e # rest))" using Cons.prems(1) unfolding users_are_def dlist_def by simp
  then have info: "if_info ?z a = Some u" using Cons.prems(1) e by (simp add: users_are_def map_add_Some_iff map_of_eq_None_iff)
  show ?case
  proof (cases "u = (event_fn, data)")
    case False
    have "ends (until_done (\<lambda>p. olift (unregister_round event_fn data p)) (Some (hd (map fst rest @ [if_head ?z]))))
     (\<lambda>r s'. is_ok r \<and> touched s s' \<and> same_process ?z (ifc s') \<and> users_are (remove_user (event_fn, data) ((xs @ [e]) @ rest)) (ifc s')) s"
      using Cons.prems False e by (intro Cons.IH) auto
    then show ?thesis using a info False dlist_next [OF l] e
      by (subst until_done_unroll) (simp add: unregister_round_def user_at_def lop_simps wp_simps)
  next
    case True
    obtain h' where h': "shl_dlist_unlink (Some a) (if_heap ?z) = Ok h'" "dlist h' (if_head ?z) (map fst xs @ map fst rest)"
        "dom h' = dom (if_heap ?z)"
      using shl_dlist_unlink_correct [OF l] by blast
    have d: "a \<notin> set (map fst (xs @ rest))" using l by (auto simp: dlist_def)
    have "dlist (h'(a := None)) (if_head ?z) (map fst (xs @ rest))"
      by (rule dlist_cong [where h = h']) (use h'(2) a d in auto)
    moreover have "(map_of (xs @ e # rest))(a := None) = map_of (xs @ rest)"
    proof -
      have "map_of (xs @ rest) a = None" using d by (simp add: map_of_eq_None_iff)
      then show ?thesis by (auto simp: fun_eq_iff e map_add_def split: option.split)
    qed
    moreover have "dom (h'(a := None)) = insert (if_head ?z) (fst ` set (xs @ rest))"
      using h'(3) Cons.prems(1) d a e by (auto simp: users_are_def)
    ultimately have "users_are (xs @ rest) (?z\<lparr>if_heap := h'(a := None), if_info := (if_info ?z)(a := None)\<rparr>)"
      using Cons.prems(1) e unfolding users_are_def by auto
    then show ?thesis using a info True h'(1) e Cons.prems(2)
      by (subst until_done_unroll)
        (auto simp: unregister_round_def user_at_def free_user_def lop_simps wp_simps wp_on_heap remove_user_append same_process_def
          intro!: touched_update)
  qed
qed

lemma unregister_users:
  assumes u: "users_are us (ifc s)"
  shows "ends (owfd_p2pd_interface_unregister_event_fn event_fn data) (\<lambda>r s'. r = Ok () \<and> touched s s' \<and> same_process (ifc s) (ifc s') \<and>
    users_are (remove_user (event_fn, data) us) (ifc s')) s"
proof -
  have "get_next (Some (if_head (ifc s))) (if_heap (ifc s)) = Ok (Some (hd (map fst us @ [if_head (ifc s)])))"
    using u by (intro dlist_first) (simp add: users_are_def)
  moreover have "ends (until_done (\<lambda>p. olift (unregister_round event_fn data p)) (Some (hd (map fst us @ [if_head (ifc s)]))))
     (\<lambda>r s'. is_ok r \<and> touched s s' \<and> same_process (ifc s) (ifc s') \<and> users_are (remove_user (event_fn, data) us) (ifc s')) s"
    using unregister_loop [of "[]" us s event_fn data] u by simp
  moreover have "next_ends (\<lambda>_. olift (sret ())) (\<lambda>r s'. r = Ok () \<and> touched s s' \<and> same_process (ifc s) (ifc s') \<and>
      users_are (remove_user (event_fn, data) us) (ifc s')) r s'"
    if "is_ok r \<and> touched s s' \<and> same_process (ifc s) (ifc s') \<and> users_are (remove_user (event_fn, data) us) (ifc s')"
    for r :: "nat option result" and s'
    using that by (cases r) (simp_all add: lop_simps wp_simps)
  ultimately show ?thesis
    unfolding owfd_p2pd_interface_unregister_event_fn_def ends_simps wp_simps next_simps by (simp add: lop_simps wp_simps ends_mono)
qed

subsection \<open>What the channel owns\<close>

text \<open>The channel with one reference, and a property of the interface.\<close>

definition holds :: "64 word \<Rightarrow> (p2pd_iface \<Rightarrow> bool) \<Rightarrow> 64 word \<Rightarrow> p2pd_iface \<Rightarrow> bool" where
  "holds n Q r z \<longleftrightarrow> r = n \<and> Q z"

lemma own_more:
  assumes "own P F lost A s" and "P' (wc_ref s) (f (ifc s))"
  shows "own P' F lost A (wpa_ctrl.more_update f s)"
proof -
  have "sock_fd x (wpa_ctrl.more_update f s) = sock_fd x s" "sock_name x (wpa_ctrl.more_update f s) = sock_name x s" for x
    by (cases x; cases s; simp)+
  moreover have "wc_ref (wpa_ctrl.more_update f s) = wc_ref s" "next_fd (wpa_ctrl.more_update f s) = next_fd s"
      "wc_efd (wpa_ctrl.more_update f s) = wc_efd s" "wc_tfd (wpa_ctrl.more_update f s) = wc_tfd s"
      "open_fds (wpa_ctrl.more_update f s) = open_fds s" "interest (wpa_ctrl.more_update f s) = interest s"
      "bound (wpa_ctrl.more_update f s) = bound s" "ifc (wpa_ctrl.more_update f s) = f (ifc s)"
    by (cases s; simp)+
  ultimately show ?thesis using assms unfolding own_def by simp
qed

lemma inv_more:
  assumes "wpa_inv P F lost s" and "P' (wc_ref s) (f (ifc s))"
  shows "wpa_inv P' F lost (wpa_ctrl.more_update f s)"
proof -
  have "wc_cb (wpa_ctrl.more_update f s) = wc_cb s" by (cases s) simp
  then show ?thesis using assms own_more by (auto simp: wpa_inv_def)
qed

lemma inv_touched:
  assumes i: "wpa_inv (holds n Q) F lost s" and t: "touched s s'" and Q: "Q' (ifc s')"
  shows "wpa_inv (holds n Q') F lost s'"
proof -
  obtain v where v: "polled s v" "s' = wpa_ctrl.more_update (\<lambda>_. ifc s') v" using t by (auto simp: touched_def)
  have "wpa_inv (holds n Q) F lost v" using inv_polled [OF v(1)] i by simp
  moreover from this have "wc_ref v = n" by (auto simp: wpa_inv_def own_def holds_def)
  ultimately show ?thesis using inv_more [of "holds n Q" F lost v "holds n Q'" "\<lambda>_. ifc s'"] Q v(2) by (simp add: holds_def)
qed

lemma inv_holds: "wpa_inv (holds n Q) F lost s \<Longrightarrow> Q (ifc s) \<and> wc_ref s = n"
  by (auto simp: wpa_inv_def own_def holds_def)

lemma inv_weaken: "wpa_inv (holds n Q) F lost s \<Longrightarrow> (Q (ifc s) \<Longrightarrow> Q' (ifc s)) \<Longrightarrow> wpa_inv (holds n Q') F lost s"
  using inv_touched [of n Q F lost s s Q'] inv_holds [of n Q F lost s] by simp

text \<open>Requests to the supplicant.\<close>

lemma if_request_touched:
  assumes i: "wpa_inv P F lost s"
  shows "safe (if_wpa_request_ok K req) (\<lambda>r s'. r \<noteq> Fault \<and> polled s s') s"
    and "safe (if_wpa_request K req cap) (\<lambda>r s'. r \<noteq> Fault \<and> polled s s') s"
  using request_polled [OF i] by (simp_all add: if_wpa_request_ok_def if_wpa_request_def)

lemma polled_tick [simp]: "polled s (tick K s)"
  by simp

lemma connect_polled:
  assumes i: "wpa_inv P F lost s"
  shows "safe (owfd_p2pd_interface_connect K mac pin mode) (\<lambda>r s'. r \<noteq> Fault \<and> polled s s') s"
proof -
  have i': "wpa_inv P F lost (tick K s)" using i by simp
  have "safe (if_wpa_request_ok K req) (\<lambda>r s'. r \<noteq> Fault \<and> polled s s') (tick K s)" for req
    by (rule safe_mono [OF if_request_touched(1) [OF i']]) (use polled_trans [OF polled_tick] in blast)
  then show ?thesis unfolding owfd_p2pd_interface_connect_def
    by (auto simp: lop_simps wp_simps intro!: on_errorI)
qed

subsection \<open>Events reach the users\<close>

text \<open>
  A polite user only connects to peers in its callback, or unregisters itself. The users are different from one another.
\<close>

definition polite :: "users \<Rightarrow> bool" where
  "polite U \<longleftrightarrow> (\<forall>f d ev s. \<forall>c\<in>set (U f d ev s). c = Unregisters f d \<or> (\<exists>mac pin mode. c = Connects_peer mac pin mode))"

definition event_users :: "p2pd_iface \<Rightarrow> bool" where
  "event_users z \<longleftrightarrow> (\<exists>us. users_are us z \<and> distinct (map snd us))"

text \<open>What a callback may have done to the list.\<close>

definition same_or_without :: "nat \<times> nat \<times> nat \<Rightarrow> (nat \<times> nat \<times> nat) list \<Rightarrow> (nat \<times> nat \<times> nat) list \<Rightarrow> p2pd_iface \<Rightarrow> bool" where
  "same_or_without e xs rest z \<longleftrightarrow> users_are (xs @ e # rest) z \<or> users_are (xs @ rest) z"

lemma remove_user_other: "u \<notin> snd ` set us \<Longrightarrow> remove_user u us = us"
  by (induction us) auto

lemma unregister_self:
  assumes d: "distinct (map snd (xs @ e # rest))" and u: "same_or_without e xs rest (ifc s)"
  shows "safe (owfd_p2pd_interface_unregister_event_fn (fst (snd e)) (snd (snd e))) (\<lambda>r s'. r = Ok () \<and> touched s s' \<and>
    same_process (ifc s) (ifc s') \<and> same_or_without e xs rest (ifc s')) s"
proof -
  have x: "snd e \<notin> snd ` set (xs @ rest)" using d by auto
  have r: "remove_user (snd e) (xs @ e # rest) = xs @ rest" "remove_user (snd e) (xs @ rest) = xs @ rest"
    using x remove_user_append [of "snd e" xs "e # rest"] remove_user_other [of "snd e" "xs @ rest"] by auto
  obtain us where us: "users_are us (ifc s)" "remove_user (snd e) us = xs @ rest" using u r by (auto simp: same_or_without_def)
  from unregister_users [OF us(1), of "fst (snd e)" "snd (snd e)"]
  show ?thesis using us(2) by (auto simp: ends_def safe_def same_or_without_def split: option.splits)
qed

text \<open>The calls of a polite user.\<close>

lemma user_calls_polite:
  assumes d: "distinct (map snd (xs @ e # rest))"
  shows "wpa_inv (holds n (same_or_without e xs rest)) F lost s \<Longrightarrow>
   \<forall>c\<in>set cs. c = Unregisters (fst (snd e)) (snd (snd e)) \<or> (\<exists>mac pin mode. c = Connects_peer mac pin mode) \<Longrightarrow>
   safe (user_calls K cs) (\<lambda>r s'. r = Ok () \<and> touched s s' \<and> same_process (ifc s) (ifc s') \<and> same_or_without e xs rest (ifc s')) s"
proof (induction cs arbitrary: s)
  case (Cons c cs)
  have u: "same_or_without e xs rest (ifc s)" using inv_holds [OF Cons.prems(1)] by simp
  have "safe (user_call_op K c) (\<lambda>r s'. r \<noteq> Fault \<and> touched s s' \<and> same_process (ifc s) (ifc s') \<and> same_or_without e xs rest (ifc s')) s"
  proof (cases "c = Unregisters (fst (snd e)) (snd (snd e))")
    case True
    show ?thesis unfolding True user_call_op.simps
      by (rule safe_mono [OF unregister_self [OF d u]]) simp
  next
    case False
    then obtain mac pin mode where c: "c = Connects_peer mac pin mode" using Cons.prems(2) by auto
    show ?thesis unfolding c user_call_op.simps
      by (rule safe_mono [OF connect_polled [OF Cons.prems(1)]]) (use u in \<open>auto simp: polled_ifc polled_touched\<close>)
  qed
  moreover have "safe (user_calls K cs) (\<lambda>r s''. r = Ok () \<and> touched s s'' \<and> same_process (ifc s) (ifc s'') \<and> same_or_without e xs rest (ifc s'')) s'"
    if t: "touched s s'" "same_process (ifc s) (ifc s')" "same_or_without e xs rest (ifc s')" for s'
  proof (rule safe_mono [OF Cons.IH])
    show "wpa_inv (holds n (same_or_without e xs rest)) F lost s'" using inv_touched [OF Cons.prems(1) t(1)] t(3) by blast
  next
    fix r :: "unit result" and s''
    assume "r = Ok () \<and> touched s' s'' \<and> same_process (ifc s') (ifc s'') \<and> same_or_without e xs rest (ifc s'')"
    then show "r = Ok () \<and> touched s s'' \<and> same_process (ifc s) (ifc s'') \<and> same_or_without e xs rest (ifc s'')"
      using t touched_trans same_process_trans by blast
  qed (use Cons.prems(2) in simp)
  ultimately show ?case unfolding user_calls.simps
    by (auto simp: lop_simps elim!: safe_mono split: result.splits)
next
  case Nil
  then show ?case using inv_holds [OF Nil(1)] by (simp add: lop_simps wp_simps)
qed

definition told :: "owfd_wpa_event \<Rightarrow> (nat \<times> nat \<times> nat) list \<Rightarrow> (nat \<times> nat \<times> owfd_wpa_event) list" where
  "told ev us = map (\<lambda>(a, f, d). (f, d, ev)) (filter (\<lambda>(a, f, d). f \<noteq> 0) us)"

lemma next_user:
  assumes "users_are (xs @ rest) z"
  shows "\<exists>t. get_next (Some (hd (map fst rest @ [if_head z]))) (if_heap z) = Ok t \<and>
    (rest \<noteq> [] \<longrightarrow> t = Some (hd (map fst (tl rest) @ [if_head z])))"
proof (cases rest)
  case Nil
  then show ?thesis using assms dlist_first by (auto simp: users_are_def)
next
  case (Cons e rest')
  then show ?thesis using assms dlist_next [of "if_heap z" "if_head z" "map fst xs" "fst e" "map fst rest'"] by (auto simp: users_are_def)
qed

lemma user_found:
  assumes "users_are (xs @ e # rest) z"
  shows "if_info z (fst e) = Some (snd e)" "fst e \<noteq> if_head z"
proof -
  have d: "distinct (map fst (xs @ e # rest))" "if_info z = map_of (xs @ e # rest)" using assms unfolding users_are_def dlist_def by simp_all
  then show "if_info z (fst e) = Some (snd e)" by (simp add: map_add_Some_iff map_of_eq_None_iff)
  show "fst e \<noteq> if_head z" using assms by (auto simp: users_are_def dlist_def)
qed

lemma notify_user_polite:
  assumes U: "polite U" and i: "wpa_inv (holds n (users_are (xs @ e # rest))) F lost s" and d: "distinct (map snd (xs @ e # rest))"
  shows "safe (notify_user K U ev (snd e)) (\<lambda>r s'. r = Ok () \<and> touched s s' \<and>
    same_process ((ifc s)\<lparr>notified := notified (ifc s) @ told ev [e]\<rparr>) (ifc s') \<and> same_or_without e xs rest (ifc s')) s"
proof -
  have u: "users_are (xs @ e # rest) (ifc s)" using inv_holds [OF i] by simp
  let ?s = "wpa_ctrl.more_update (\<lambda>i. i\<lparr>notified := notified i @ [(fst (snd e), snd (snd e), ev)]\<rparr>) s"
  have t: "touched s ?s" by (intro touched_update) simp
  have "users_are us (z\<lparr>notified := l\<rparr>) = users_are us z" for us l z by (simp add: users_are_def)
  then have "wpa_inv (holds n (same_or_without e xs rest)) F lost ?s"
    using u by (intro inv_touched [OF i t]) (simp add: same_or_without_def)
  from user_calls_polite [OF d this, of "U (fst (snd e)) (snd (snd e)) ev ?s" K] U
  have calls: "safe (user_calls K (U (fst (snd e)) (snd (snd e)) ev ?s)) (\<lambda>r s'. r = Ok () \<and> touched ?s s' \<and> same_process (ifc ?s) (ifc s') \<and>
      same_or_without e xs rest (ifc s')) ?s"
    by (simp add: polite_def)
  obtain a f dat where e: "e = (a, f, dat)" by (cases e)
  show ?thesis
  proof (cases "f = 0")
    case True
    then show ?thesis using u by (simp add: notify_user_def e told_def same_or_without_def lop_simps wp_simps)
  next
    case False
    have "safe (\<lambda>s. user_calls K (U f dat ev s) s) (\<lambda>r s'. r = Ok () \<and> touched s s' \<and>
      same_process ((ifc s)\<lparr>notified := notified (ifc s) @ [(f, dat, ev)]\<rparr>) (ifc s') \<and> same_or_without e xs rest (ifc s')) ?s"
      using calls touched_trans [OF t] by (auto simp: safe_def e split: option.splits)
    then show ?thesis using False by (simp add: notify_user_def e told_def lop_simps wp_simps)
  qed
qed

lemma event_loop:
  assumes U: "polite U"
  shows "wpa_inv (holds n (users_are (xs @ rest))) F lost s \<Longrightarrow> distinct (map snd (xs @ rest)) \<Longrightarrow>
    (rest \<noteq> [] \<longrightarrow> t = Some (hd (map fst (tl rest) @ [if_head (ifc s)]))) \<Longrightarrow>
    safe (until_done (event_round K U ev) (Some (hd (map fst rest @ [if_head (ifc s)])), t)) (\<lambda>r s'. is_ok r \<and> touched s s' \<and>
      same_process ((ifc s)\<lparr>notified := notified (ifc s) @ told ev rest\<rparr>) (ifc s') \<and> event_users (ifc s')) s"
proof (induction rest arbitrary: xs t s)
  case Nil
  then show ?case using inv_holds [OF Nil.prems(1)]
    by (subst until_done_unroll) (auto simp: event_round_def lop_simps wp_simps told_def event_users_def)
next
  case (Cons e rest)
  have u: "users_are (xs @ e # rest) (ifc s)" using inv_holds [OF Cons.prems(1)] by simp
  note found = user_found [OF u]
  have t: "t = Some (hd (map fst rest @ [if_head (ifc s)]))" using Cons.prems(3) by simp
  have later: "safe (obind (olift (iget if_heap)) (\<lambda>h. obind (olift (slift (get_next t h))) (\<lambda>t'. olift (sret (False, t, t')))))
      (round_post (\<lambda>c s'. safe (until_done (event_round K U ev) c) (\<lambda>r s'. is_ok r \<and> touched s s' \<and>
        same_process ((ifc s)\<lparr>notified := notified (ifc s) @ told ev (e # rest)\<rparr>) (ifc s') \<and> event_users (ifc s')) s')
        (\<lambda>r s'. is_ok r \<and> touched s s' \<and>
      same_process ((ifc s)\<lparr>notified := notified (ifc s) @ told ev (e # rest)\<rparr>) (ifc s') \<and> event_users (ifc s'))) s'"
    if s': "touched s s'" "same_process ((ifc s)\<lparr>notified := notified (ifc s) @ told ev [e]\<rparr>) (ifc s')"
      "same_or_without e xs rest (ifc s')" for s'
  proof -
    have h: "if_head (ifc s') = if_head (ifc s)" using s'(2) by (simp add: same_process_def)
    obtain ys where ys: "users_are (ys @ rest) (ifc s')" "distinct (map snd (ys @ rest))"
      using s'(3) Cons.prems(2) unfolding same_or_without_def
      by (metis (no_types, lifting) append.assoc append_Cons append_Nil distinct_append map_append distinct.simps(2) list.simps(9) disjoint_insert(1) list.set(2))
    obtain t' where t': "get_next t (if_heap (ifc s')) = Ok t'" "rest \<noteq> [] \<longrightarrow> t' = Some (hd (map fst (tl rest) @ [if_head (ifc s')]))"
      using next_user [OF ys(1)] t h by auto
    have "wpa_inv (holds n (users_are (ys @ rest))) F lost s'" using inv_touched [OF Cons.prems(1) s'(1)] ys(1) by blast
    from Cons.IH [OF this ys(2) t'(2)]
    have next_rounds: "safe (until_done (event_round K U ev) (t, t')) (\<lambda>r s''. is_ok r \<and> touched s' s'' \<and>
        same_process ((ifc s')\<lparr>notified := notified (ifc s') @ told ev rest\<rparr>) (ifc s'') \<and> event_users (ifc s'')) s'"
      unfolding t h .
    have "told ev (e # rest) = told ev [e] @ told ev rest" by (simp add: told_def)
    then have "safe (until_done (event_round K U ev) (t, t')) (\<lambda>r s''. is_ok r \<and> touched s s'' \<and>
        same_process ((ifc s)\<lparr>notified := notified (ifc s) @ told ev (e # rest)\<rparr>) (ifc s'') \<and> event_users (ifc s'')) s'"
      using s'(1,2) touched_trans [OF s'(1)] by (intro safe_mono [OF next_rounds]) (auto simp: same_process_def)
    then show ?thesis using t'(1) by (simp add: lop_simps wp_simps)
  qed
  show ?case
    by (subst until_done_unroll)
      (use found later notify_user_polite [OF U Cons.prems(1,2), of K ev] in
        \<open>auto simp: event_round_def user_at_def lop_simps wp_simps elim!: safe_mono\<close>)
qed

lemma notify_users_polite:
  assumes U: "polite U" and i: "wpa_inv (holds n (users_are us)) F lost s" and d: "distinct (map snd us)"
  shows "safe (notify_users K U ev) (\<lambda>r s'. r = Ok () \<and> touched s s' \<and>
    same_process ((ifc s)\<lparr>notified := notified (ifc s) @ told ev us\<rparr>) (ifc s') \<and> event_users (ifc s')) s"
proof -
  have u: "users_are us (ifc s)" using inv_holds [OF i] by simp
  then have first: "get_next (Some (if_head (ifc s))) (if_heap (ifc s)) = Ok (Some (hd (map fst us @ [if_head (ifc s)])))"
    by (intro dlist_first) (simp add: users_are_def)
  obtain t where t: "get_next (Some (hd (map fst us @ [if_head (ifc s)]))) (if_heap (ifc s)) = Ok t"
      "us \<noteq> [] \<longrightarrow> t = Some (hd (map fst (tl us) @ [if_head (ifc s)]))"
    using next_user [of "[]" us "ifc s"] u by auto
  have "safe (until_done (event_round K U ev) (Some (hd (map fst us @ [if_head (ifc s)])), t)) (\<lambda>r s'. is_ok r \<and> touched s s' \<and>
      same_process ((ifc s)\<lparr>notified := notified (ifc s) @ told ev us\<rparr>) (ifc s') \<and> event_users (ifc s')) s"
    using event_loop [OF U, of n "[]" us F lost s t] i d t(2) by simp
  moreover have "next_safe (\<lambda>_. olift (sret ())) (\<lambda>r s'. r = Ok () \<and> touched s s' \<and>
      same_process ((ifc s)\<lparr>notified := notified (ifc s) @ told ev us\<rparr>) (ifc s') \<and> event_users (ifc s')) r s'"
    if "is_ok r \<and> touched s s' \<and> same_process ((ifc s)\<lparr>notified := notified (ifc s) @ told ev us\<rparr>) (ifc s') \<and> event_users (ifc s')"
    for r :: "(nat option \<times> nat option) result" and s'
    using that by (cases r) (simp_all add: lop_simps wp_simps)
  ultimately show ?thesis unfolding notify_users_def
    by (simp add: lop_simps wp_simps first t(1) safe_mono)
qed

lemma wpa_event_polite:
  assumes U: "polite U" and M: "\<forall>n. allocator_ok (M n)" and i: "wpa_inv (holds n event_users) F lost s" and len: "length buf \<le> REQ_REPLY_MAX"
  shows "safe (wpa_event K M U h buf) (\<lambda>r s'. r = Ok () \<and> touched s s' \<and> event_users (ifc s') \<and>
    (\<exists>l. same_process ((ifc s)\<lparr>notified := notified (ifc s) @ l\<rparr>) (ifc s'))) s"
proof -
  obtain us where us: "users_are us (ifc s)" "distinct (map snd us)" using inv_holds [OF i] by (auto simp: event_users_def)
  have "wpa_inv (holds n (users_are us)) F lost s" using inv_weaken [OF i, of "users_are us"] us(1) by simp
  note notify = notify_users_polite [OF U this us(2)]
  have "NUL \<notin> set (cstr buf)" by (auto simp: cstr_def dest: set_takeWhileD)
  moreover have "length (cstr buf) \<le> REQ_REPLY_MAX" using length_takeWhile_le [of "\<lambda>c. c \<noteq> NUL" buf] len unfolding cstr_def by linarith
  then have "length (cstr buf) < 2 ^ 63" by simp
  ultimately have parse: "snd (owfd_wpa_event_parse (M (length (wc_seen s))) (cstr buf) owfd_wpa_event_init) \<noteq> Fault"
    using M by (intro owfd_wpa_event_parse_safe) auto
  have told: "safe (notify_users K U ev) (\<lambda>r s'. r = Ok () \<and> touched s s' \<and> event_users (ifc s') \<and>
    (\<exists>l. same_process ((ifc s)\<lparr>notified := notified (ifc s) @ l\<rparr>) (ifc s'))) s" for ev
    by (rule safe_mono [OF notify]) blast
  have none: "\<exists>l. same_process ((ifc s)\<lparr>notified := notified (ifc s) @ l\<rparr>) (ifc s)" by (rule exI [of _ "[]"]) simp
  obtain ev r where p: "owfd_wpa_event_parse (M (length (wc_seen s))) (cstr buf) owfd_wpa_event_init = (ev, r)" by (rule prod.exhaust)
  show ?thesis
    using parse told [of ev] none inv_holds [OF i]
    by (cases r; cases "ev_type ev = OWFD_WPA_EVENT_UNKNOWN") (simp_all add: wpa_event_def safe_def p)
qed

lemma wpa_event_client:
  assumes "polite U" and "\<forall>n. allocator_ok (M n)"
  shows "wpa_client K (wpa_event K M U) (holds n event_users) F lost"
proof (rule wpa_client.intro)
  fix s :: p2pd_interface and h and buf :: "char list"
  assume "answers_ok K" and i: "wpa_inv (holds n event_users) F lost s" and len: "length buf \<le> REQ_REPLY_MAX"
  show "kept (holds n event_users) F lost (wpa_event K M U h buf) s"
    by (rule safe_mono [OF wpa_event_polite [OF assms i len]]) (use inv_touched [OF i] in auto)
qed

subsection \<open>Starting the supplicant\<close>

lemma safe_first: "safe (obind (olift m) f) Q s = wp m (next_safe f Q) s"
  by (simp add: safe_simps)

lemma oattempt_safe: "safe m (\<lambda>r s'. r \<noteq> Fault \<and> T s') s \<Longrightarrow> safe (oattempt m) (\<lambda>r s'. is_ok r \<and> T s') s"
  unfolding safe_simps by (erule safe_mono) (auto split: result.splits)

lemma safe_sret: "safe (obind (olift (sret x)) f) Q s = safe (f x) Q s"
  by (simp add: safe_first wp_basic next_simps)

definition started :: "p2pd_iface \<Rightarrow> bool" where
  "started z \<longleftrightarrow> users_are [] z \<and> 0 < if_pid z"

definition running :: "p2pd_iface \<Rightarrow> bool" where
  "running z \<longleftrightarrow> started z \<and> if_pid z \<in> children z"

lemma inv_now [simp]: "wpa_inv P F lost (s\<lparr>now_us := n\<rparr>) = wpa_inv P F lost s"
  by (simp add: wpa_inv_def)

lemma inv_others: "wpa_inv P F lost s \<Longrightarrow> F \<subseteq> open_fds s"
  by (auto simp: wpa_inv_def own_def)

lemma poll_startup_kept:
  assumes "wpa_inv P F lost s" and "fd \<in> F"
  shows "wp (poll_startup K fd t) (\<lambda>r s'. r \<noteq> Fault \<and> wpa_inv P F lost s') s"
proof -
  have "fd \<in> open_fds s" using inv_others [OF assms(1)] assms(2) by blast
  then show ?thesis using assms(1) by (auto simp: poll_startup_def wp_simps Let_def intro!: on_errorI split: list.split)
qed

lemma verify_child_kept:
  assumes i: "wpa_inv (holds n started) F lost s"
  shows "wp (verify_child K) (\<lambda>r s'. r \<noteq> Fault \<and> wpa_inv (holds n (if is_ok r then running else started)) F lost s') s"
proof -
  have z: "started (ifc s)" using inv_holds [OF i] by simp
  have t: "touched s (tick K s)" "touched s (wpa_ctrl.more_update f (tick K s))" for f
    using polled_touched [OF polled_tick] touchedI [OF polled_tick] by blast+
  have st: "started ((ifc s)\<lparr>children := c\<rparr>)" for c using z by (simp add: started_def users_are_def)
  have "wpa_inv (holds n running) F lost (tick K s)" if "if_pid (ifc s) \<in> children (ifc s)"
    using inv_touched [OF i t(1), of running] z that by (simp add: running_def)
  moreover have "wpa_inv (holds n started) F lost (tick K s)" using i by simp
  moreover have "wpa_inv (holds n started) F lost (wpa_ctrl.more_update (\<lambda>i. i\<lparr>children := c\<rparr>) (tick K s))" for c
    using inv_touched [OF i t(2), of started] st by simp
  ultimately show ?thesis by (simp add: verify_child_def is_child_alive_def wp_simps)
qed

text \<open>What waiting for the socket has achieved: the channel is open and the child was alive when it was opened, or nothing.\<close>

definition connected :: "int set \<Rightarrow> bool \<Rightarrow> 'a result \<Rightarrow> p2pd_interface \<Rightarrow> bool" where
  "connected F lost r s =
     (case r of
        Ok _ \<Rightarrow> own (holds 1 running) F lost {Req, Ev} s \<and> wc_cb s = Some 1
      | Err _ \<Rightarrow> wpa_inv (holds 1 started) F lost s
      | Fault \<Rightarrow> False)"

lemma own_inv: "own P F lost {Req, Ev} s \<Longrightarrow> wpa_inv P F lost s"
  by (simp add: wpa_inv_def)

lemma running_started: "wpa_inv (holds n running) F lost s \<Longrightarrow> wpa_inv (holds n started) F lost s"
  by (erule inv_weaken) (simp add: running_def)

lemma drain_and_check_kept:
  assumes "wpa_inv P F lost s" and "fd \<in> F"
  shows "wp (drain_and_check K fd t) (\<lambda>r s'. r \<noteq> Fault \<and> wpa_inv P F lost s' \<and> (\<forall>x. r = Ok x \<longrightarrow> \<not> fst x)) s"
proof -
  have "fd \<in> open_fds s" using inv_others [OF assms(1)] assms(2) by blast
  then show ?thesis using assms(1) by (auto simp: drain_and_check_def sys_read_def wp_simps intro!: on_errorI)
qed

lemma try_open_connected:
  assumes K: "answers_ok K" and i: "wpa_inv (holds 1 running) F lost s"
  shows "safe (owfd_wpa_ctrl_open K file (Some 1)) (connected F lost) s"
proof (cases "owfd_wpa_ctrl_is_open s")
  case True
  then show ?thesis using running_started [OF i] by (simp add: owfd_wpa_ctrl_open_def lop_simps wp_simps connected_def)
next
  case False
  then have "own (holds 1 running) F lost {} s" "wc_cb s = None" using inv_closed [OF i] by auto
  from open_all_or_nothing [OF K this] show ?thesis
  proof (rule safe_mono)
    fix r :: "unit result" and s'
    assume a: "all_or_nothing (holds 1 running) F lost (Some 1) r s'"
    show "connected F lost r s'"
    proof (cases r)
      case (Err e)
      then have "wpa_inv (holds 1 running) F lost s'" using a by (simp add: all_or_nothing_def wpa_inv_def)
      then show ?thesis using running_started Err by (simp add: connected_def)
    qed (use a in \<open>simp_all add: connected_def all_or_nothing_def\<close>)
  qed
qed

lemma wait_file_round_kept:
  assumes i: "wpa_inv (holds n started) F lost s" and fd: "fd \<in> F"
  shows "safe (wait_file_round K fd t) (round_post (\<lambda>_. wpa_inv (holds n started) F lost) (\<lambda>r s'. r \<noteq> Fault \<and> wpa_inv (holds n started) F lost s')) s"
    (is "safe _ ?Q s")
proof -
  have rest: "wp (sbind (attempt (sys K)) (\<lambda>r. case r of Inr _ \<Rightarrow> sret (True, t') | Inl _ \<Rightarrow> drain_and_check K fd t')) ?Q s'"
    if "wpa_inv (holds n started) F lost s'" for s' t'
  proof -
    have "wpa_inv (holds n started) F lost (tick K s')" using that by simp
    from drain_and_check_kept [OF this fd, of K t'] have "wp (drain_and_check K fd t') ?Q (tick K s')"
      by (rule wp_mono) (auto simp: round_post_def split: result.splits)
    then show ?thesis using that by (auto simp: wp_simps intro!: on_errorI)
  qed
  have second: "wp (sbind (verify_child K) (\<lambda>_. sbind (attempt (sys K)) (\<lambda>r. case r of Inr _ \<Rightarrow> sret (True, t') | Inl _ \<Rightarrow> drain_and_check K fd t'))) ?Q s'"
    if "wpa_inv (holds n started) F lost s'" for s' t'
    by (rule wp_sbindI [OF verify_child_kept [OF that]])
      (auto simp: andthen_def rest running_started round_post_def split: result.splits)
  show ?thesis unfolding wait_file_round_def safe_simps(1)
    by (rule wp_sbindI [OF poll_startup_kept [OF i fd]]) (auto simp: andthen_def second round_post_def split: result.splits)
qed

lemma wait_open_round_connected:
  assumes K: "answers_ok K" and i: "wpa_inv (holds 1 started) F lost s" and fd: "fd \<in> F"
  shows "safe (wait_open_round K fd file t) (round_post (\<lambda>_. wpa_inv (holds 1 started) F lost) (connected F lost)) s"
    (is "safe _ ?Q s")
proof -
  have drain: "wp (drain_and_check K fd t') ?Q s'" if "wpa_inv (holds 1 started) F lost s'" for s' t'
    by (rule wp_mono [OF drain_and_check_kept [OF that fd]]) (auto simp: round_post_def connected_def split: result.splits)
  have retry: "safe (obind (oattempt (owfd_wpa_ctrl_open K file (Some 1))) (\<lambda>r. case r of Inr _ \<Rightarrow> olift (sret (True, t'))
      | Inl _ \<Rightarrow> olift (drain_and_check K fd t'))) ?Q s'" if "wpa_inv (holds 1 running) F lost s'" for s' t'
    unfolding safe_simps(2,3)
    by (rule safe_mono [OF try_open_connected [OF K that]])
      (auto simp: connected_def next_simps safe_simps(1) wp_basic drain round_post_simps split: result.splits)
  have alive: "wp (sbind (verify_child K) (\<lambda>_. sret t')) (\<lambda>r s'. r \<noteq> Fault \<and> wpa_inv (holds 1 (if is_ok r then running else started)) F lost s') s'"
    if "wpa_inv (holds 1 started) F lost s'" for s' t'
    by (rule wp_sbindI [OF verify_child_kept [OF that]]) (auto simp: andthen_def wp_basic split: result.splits)
  have "wp (sbind (poll_startup K fd t) (\<lambda>t. sbind (verify_child K) (\<lambda>_. sret t)))
      (\<lambda>r s'. r \<noteq> Fault \<and> wpa_inv (holds 1 (if is_ok r then running else started)) F lost s') s"
    by (rule wp_sbindI [OF poll_startup_kept [OF i fd]]) (auto simp: andthen_def alive split: result.splits)
  then show ?thesis unfolding wait_open_round_def safe_first
    by (rule wp_mono) (auto simp: next_safe_def retry round_post_simps connected_def simp del: One_nat_def split: result.splits)
qed

text \<open>The inotify descriptor is closed on every path.\<close>

lemma abandon_inv:
  assumes "wpa_inv P (insert fd F) lost s" and "fd \<notin> F"
  shows "wpa_inv P F lost (s\<lparr>open_fds := open_fds s - {fd}, interest := (interest s)(fd := None)\<rparr>)" "fd \<in> open_fds s"
proof -
  have "own P F lost A (s\<lparr>open_fds := open_fds s - {fd}, interest := (interest s)(fd := None)\<rparr>) \<and> fd \<in> open_fds s"
    if "own P (insert fd F) lost A s" for A
    using abandon [OF that assms(2)] by simp
  then show "wpa_inv P F lost (s\<lparr>open_fds := open_fds s - {fd}, interest := (interest s)(fd := None)\<rparr>)" "fd \<in> open_fds s"
    using assms(1) unfolding wpa_inv_def by auto
qed

lemma close_after_connected:
  assumes m: "safe m (connected (insert fd F) lost) s" and fd: "fd \<notin> F"
  shows "safe (close_after fd m) (connected F lost) s"
  unfolding close_after_def safe_simps(2,3)
proof (rule safe_mono [OF m])
  fix r :: "'a result" and s'
  assume c: "connected (insert fd F) lost r s'"
  have "wpa_inv (holds 1 started) (insert fd F) lost s'" if "r = Err e" for e using c that by (simp add: connected_def)
  note err = abandon_inv [OF this fd]
  show "case r of Ok x \<Rightarrow> next_safe (\<lambda>r. olift (sbind (sys_close fd) (\<lambda>_. case r of Inl e \<Rightarrow> serr e | Inr x \<Rightarrow> sret x))) (connected F lost) (Ok (Inr x)) s'
      | Err e \<Rightarrow> next_safe (\<lambda>r. olift (sbind (sys_close fd) (\<lambda>_. case r of Inl e \<Rightarrow> serr e | Inr x \<Rightarrow> sret x))) (connected F lost) (Ok (Inl e)) s'
      | Fault \<Rightarrow> next_safe (\<lambda>r. olift (sbind (sys_close fd) (\<lambda>_. case r of Inl e \<Rightarrow> serr e | Inr x \<Rightarrow> sret x))) (connected F lost) Fault s'"
    using c err abandon [OF _ fd, of "holds 1 running" lost "{Req, Ev}" s']
    by (cases r) (auto simp: connected_def lop_simps wp_simps)
qed

lemma wait_for_wpa_connected:
  assumes K: "answers_ok K" and i: "wpa_inv (holds 1 started) F lost s"
  shows "safe (wait_for_wpa K file) (connected F lost) s"
proof -
  let ?fd = "next_fd s" and ?F = "insert (next_fd s) F"
  let ?s = "(tick K s)\<lparr>next_fd := next_fd s + 1, open_fds := insert (next_fd s) (open_fds s)\<rparr>"
  let ?err = "\<lambda>s'. wpa_inv (holds 1 started) ?F lost s'"
  let ?open = "\<lambda>t. obind (oattempt (owfd_wpa_ctrl_open K file (Some 1))) (\<lambda>r. case r of
      Inr _ \<Rightarrow> olift (sret ()) | Inl _ \<Rightarrow> obind (until_done (wait_open_round K ?fd file) t) (\<lambda>_. olift (sret ())))"
  have new: "wpa_inv (holds 1 started) ?F lost ?s" "?fd \<notin> F"
  proof -
    have "own (holds 1 started) ?F lost A ?s \<and> ?fd \<notin> F" if "own (holds 1 started) F lost A s" for A
      using unowned(1) [OF that, of K] unowned(2) [OF that] by simp
    then show "wpa_inv (holds 1 started) ?F lost ?s" "?fd \<notin> F" using i unfolding wpa_inv_def by auto
  qed
  have polling: "safe (obind (until_done (wait_open_round K ?fd file) t) (\<lambda>_. olift (sret ()))) (connected ?F lost) s'" if "?err s'" for t s'
  proof (rule safe_obindI)
    show "safe (until_done (wait_open_round K ?fd file) t) (connected ?F lost) s'"
      by (rule until_done_safe [where I = "\<lambda>_. wpa_inv (holds 1 started) ?F lost"]) (use that wait_open_round_connected [OF K] in auto)
  qed (auto simp: next_safe_def connected_def safe_simps wp_basic split: result.splits)
  have try_open: "safe (?open t) (connected ?F lost) s'" if "wpa_inv (holds 1 running) ?F lost s'" for t s'
    unfolding safe_simps(2,3)
    by (rule safe_mono [OF try_open_connected [OF K that]])
      (auto simp: connected_def next_simps safe_simps(1) wp_basic polling split: result.splits)
  have checked: "safe (obind (olift (verify_child K)) (\<lambda>_. f)) (connected ?F lost) s'"
    if "?err s'" and "\<And>s'. wpa_inv (holds 1 running) ?F lost s' \<Longrightarrow> safe f (connected ?F lost) s'" for s' and f :: "unit ilop"
    unfolding safe_first
    by (rule wp_mono [OF verify_child_kept [OF that(1)]]) (auto simp: next_safe_def connected_def that(2) split: result.splits)
  have watched: "safe (obind (olift (attempt (sys K))) f) (connected ?F lost) s'"
    if "?err s'" and "\<And>r s'. ?err s' \<Longrightarrow> safe (f r) (connected ?F lost) s'" for s' and f :: "errno + answer \<Rightarrow> unit ilop"
    using that by (auto simp: lop_simps wp_simps intro!: on_errorI)
  have second: "safe (obind (case w of Inr _ \<Rightarrow> olift (attempt (sys K)) | Inl e \<Rightarrow> olift (sret (Inl e))) (\<lambda>_.
       obind (olift (attempt (sys K))) (\<lambda>_. obind (olift (verify_child K)) (\<lambda>_. ?open t)))) (connected ?F lost) s'" if "?err s'" for w t s'
  proof -
    have after: "safe (obind (olift (attempt (sys K))) (\<lambda>_. obind (olift (verify_child K)) (\<lambda>_. ?open t))) (connected ?F lost) s'"
      if "?err s'" for s'
      using that by (intro watched checked try_open)
    show ?thesis
    proof (cases w)
      case (Inl e)
      show ?thesis unfolding Inl sum.case safe_sret using that by (rule after)
    next
      case (Inr a)
      show ?thesis unfolding Inr sum.case using that by (intro watched after)
    qed
  qed
  have wait_file: "safe (obind (case r of Inr _ \<Rightarrow> olift (sret (10 * 1000 * 1000)) | Inl _ \<Rightarrow> until_done (wait_file_round K ?fd) (10 * 1000 * 1000)) f)
      (connected ?F lost) s'"
    if s': "?err s'" and f: "\<And>t s'. ?err s' \<Longrightarrow> safe (f t) (connected ?F lost) s'" for r :: "errno + answer" and s' and f :: "int \<Rightarrow> unit ilop"
  proof (cases r)
    case (Inl e)
    have "safe (until_done (wait_file_round K ?fd) (10 * 1000 * 1000)) (\<lambda>r s'. r \<noteq> Fault \<and> ?err s') s'"
      by (rule until_done_safe [where I = "\<lambda>_. wpa_inv (holds 1 started) ?F lost"]) (use s' wait_file_round_kept in auto)
    then show ?thesis using f unfolding Inl
      by (auto simp: next_safe_def connected_def intro!: safe_obindI split: result.splits)
  qed (use s' f in \<open>simp add: safe_sret\<close>)
  have "safe (obind (olift (attempt (sys K))) (\<lambda>w. obind (olift (verify_child K)) (\<lambda>_. obind (olift (attempt (sys K))) (\<lambda>r.
       obind (case r of Inr _ \<Rightarrow> olift (sret (10 * 1000 * 1000)) | Inl _ \<Rightarrow> until_done (wait_file_round K ?fd) (10 * 1000 * 1000)) (\<lambda>t.
       obind (case w of Inr _ \<Rightarrow> olift (attempt (sys K)) | Inl e \<Rightarrow> olift (sret (Inl e))) (\<lambda>_.
       obind (olift (attempt (sys K))) (\<lambda>_. obind (olift (verify_child K)) (\<lambda>_. ?open t)))))))) (connected ?F lost) ?s"
    by (intro watched checked wait_file second new(1)) (auto intro: running_started)
  from close_after_connected [OF this new(2)] show ?thesis
    using i unfolding wait_for_wpa_def safe_first
    by (auto simp: wp_simps next_simps connected_def intro!: on_errorI)
qed

subsection \<open>Setting up and ending\<close>

lemma set_all_polled:
  "wpa_inv P F lost s \<Longrightarrow> safe (set_all K reqs) (\<lambda>r s'. r \<noteq> Fault \<and> polled s s') s"
proof (induction reqs arbitrary: s)
  case (Cons req reqs)
  have "safe (set_all K reqs) (\<lambda>r s''. r \<noteq> Fault \<and> polled s s'') s'" if "polled s s'" for s'
    by (rule safe_mono [OF Cons.IH]) (use Cons.prems inv_polled [OF that] polled_trans [OF that] in auto)
  then show ?case using if_request_touched(1) [OF Cons.prems, of K req]
    by (auto simp: set_all_def safe_simps(2) next_safe_def elim!: safe_mono split: result.splits)
qed (simp add: set_all_def lop_simps wp_simps)

lemma wpa_setup_polled:
  assumes i: "wpa_inv P F lost s"
  shows "safe (wpa_setup K) (\<lambda>r s'. r \<noteq> Fault \<and> polled s s') s"
proof -
  let ?reqs = "[''SET ap_scan 1'', ''SET device_name some-random-name'', ''SET device_type 1-0050F204-1'', ''SET wifi_display 1'']"
  have all: "safe (set_all K ?reqs) (\<lambda>r s''. r \<noteq> Fault \<and> polled s s'') s'" if "polled s s'" for s'
    by (rule safe_mono [OF set_all_polled [of P F lost]]) (use i inv_polled [OF that] polled_trans [OF that] in auto)
  have "safe (obind (if_wpa_request K ''GET wifi_display'' 128) (\<lambda>reply.
       if length reply \<noteq> 1 \<or> hd reply \<noteq> CHR ''1'' then olift (serr ENODEV) else set_all K ?reqs)) (\<lambda>r s'. r \<noteq> Fault \<and> polled s s') s"
  proof (rule safe_obindI [OF if_request_touched(2) [OF i]])
    fix r :: "char list result" and s'
    assume "r \<noteq> Fault \<and> polled s s'"
    then show "next_safe (\<lambda>reply. if length reply \<noteq> 1 \<or> hd reply \<noteq> CHR ''1'' then olift (serr ENODEV) else set_all K ?reqs)
        (\<lambda>r s'. r \<noteq> Fault \<and> polled s s') r s'"
      using all by (cases r) (simp_all add: next_simps safe_simps(1) wp_basic)
  qed
  from oattempt_safe [OF this] show ?thesis unfolding wpa_setup_def
    by (rule safe_obindI) (auto simp: next_safe_def safe_simps(1) wp_basic split: result.splits sum.splits)
qed

definition forked :: "int set \<Rightarrow> bool \<Rightarrow> 'a result \<Rightarrow> p2pd_interface \<Rightarrow> bool" where
  "forked F lost r s =
     (case r of
        Ok _ \<Rightarrow> own (holds 1 running) F lost {Req, Ev} s \<and> wc_cb s = Some 1
      | Err _ \<Rightarrow> wpa_inv (holds 1 (users_are [])) F lost s
      | Fault \<Rightarrow> False)"

lemma started_users: "wpa_inv (holds n started) F lost s \<Longrightarrow> wpa_inv (holds n (users_are [])) F lost s"
  by (erule inv_weaken) (simp add: started_def)

lemma fork_wpa_forked:
  assumes K: "answers_ok K" and i: "wpa_inv (holds 1 (users_are [])) F lost s"
  shows "safe (fork_wpa K) (forked F lost) s"
proof -
  have set_up: "safe (wpa_setup K) (forked F lost) s'" if c: "own (holds 1 running) F lost {Req, Ev} s'" "wc_cb s' = Some 1" for s'
  proof (rule safe_mono [OF wpa_setup_polled [OF own_inv [OF c(1)]]])
    fix r :: "unit result" and s''
    assume a: "r \<noteq> Fault \<and> polled s' s''"
    then have "own (holds 1 running) F lost {Req, Ev} s''" "wc_cb s'' = Some 1" using c own_polled by (auto simp: polled_def)
    then show "forked F lost r s''"
      using a started_users [OF running_started [OF own_inv]] by (cases r) (auto simp: forked_def)
  qed
  have waited: "safe (obind (wait_for_wpa K path) (\<lambda>_. wpa_setup K)) (forked F lost) s'" if "wpa_inv (holds 1 started) F lost s'" for s' path
    by (rule safe_obindI [OF wait_for_wpa_connected [OF K that]])
      (auto simp: next_safe_def connected_def set_up forked_def started_users split: result.splits)
  let ?s = "\<lambda>pid. wpa_ctrl.more_update (\<lambda>i. i\<lparr>children := insert pid (children i), if_pid := pid\<rparr>) (tick K s)"
  have "users_are [] ((ifc s)\<lparr>children := c, if_pid := p\<rparr>)" for c p using inv_holds [OF i] by (simp add: users_are_def)
  then have st: "wpa_inv (holds 1 started) F lost (?s (int n + 1))" for n
    using inv_touched [OF i touchedI [OF polled_tick, of s "\<lambda>i. i\<lparr>children := insert (int n + 1) (children i), if_pid := int n + 1\<rparr>" K], of started]
    by (simp add: started_def)
  have mask: "wpa_inv P F lost (s'\<lparr>wc_mask := m\<rparr>) = wpa_inv P F lost s'" for P m and s' :: p2pd_interface by (simp add: wpa_inv_def)
  have err: "forked F lost (Err e) (tick K s)" for e using i by (simp add: forked_def)
  have "safe (obind (olift (attempt (sys K))) (\<lambda>r.
     case r of
       Inl _ \<Rightarrow> olift (serr ENOMEM)
     | Inr _ \<Rightarrow>
         obind (olift (iget if_conf)) (\<lambda>conf.
         obind (olift (owfd_wpa_ctrl_set_sigmask 1)) (\<lambda>_.
         obind (wait_for_wpa K (cf_wpa_ctrldir conf @ ''/'' @ cf_interface conf)) (\<lambda>_.
         wpa_setup K))))) (forked F lost) (?s (int n + 1))" for n
  proof -
    have "wpa_inv (holds 1 started) F lost (tick K (?s (int n + 1)))" using st by simp
    moreover from this have "safe (obind (wait_for_wpa K path) (\<lambda>_. wpa_setup K)) (forked F lost) ((tick K (?s (int n + 1)))\<lparr>wc_mask := 1\<rparr>)" for path
      by (intro waited) (simp only: mask)
    ultimately show ?thesis
      by (auto simp: safe_first wp_simps next_simps safe_simps(1) owfd_wpa_ctrl_set_sigmask_def forked_def started_users
        simp del: One_nat_def intro!: on_errorI)
  qed
  then show ?thesis unfolding fork_wpa_def safe_first wp_sys
    by (intro on_errorI) (simp_all add: next_simps err safe_first wp_basic Let_def)
qed

text \<open>What has become of the supplicant when the interface is gone.\<close>

definition accounted :: "p2pd_iface \<Rightarrow> bool" where
  "accounted z \<longleftrightarrow> users_are [] z \<and> (0 < if_pid z \<longrightarrow> acked z \<or> if_pid z \<notin> children z \<or> if_pid z \<in> set (signalled z))"

lemma kill_wpa_accounted:
  assumes i: "wpa_inv (holds n (users_are [])) F lost s"
  shows "safe (kill_wpa K) (\<lambda>r s'. r = Ok () \<and> wpa_inv (holds n accounted) F lost s') s"
proof -
  let ?sigterm = "\<lambda>pid. sbind (imod (\<lambda>i. i\<lparr>signalled := signalled i @ [pid]\<rparr>)) (\<lambda>_. sbind (attempt (sys K)) (\<lambda>_. sret ()))"
  let ?pid = "if_pid (ifc s)"
  let ?Q = "\<lambda>r s'. r = Ok () \<and> wpa_inv (holds n accounted) F lost s'"
  have acc: "wpa_inv (holds n accounted) F lost (wpa_ctrl.more_update f s')"
    if "polled s s'" and "accounted (f (ifc s))" for f s'
    using inv_touched [OF i touchedI [OF that(1)]] that polled_ifc [OF that(1)] by simp
  have upd: "users_are [] ((ifc s)\<lparr>signalled := l\<rparr>)" "users_are [] ((ifc s)\<lparr>acked := b\<rparr>)" "users_are [] ((ifc s)\<lparr>children := c\<rparr>)" for l b c
    using inv_holds [OF i] by (simp_all add: users_are_def)
  have ends: "wp (?sigterm ?pid) ?Q s'" if "polled s s'" for s'
  proof -
    have "wpa_inv (holds n accounted) F lost (wpa_ctrl.more_update (\<lambda>i. i\<lparr>signalled := signalled i @ [?pid]\<rparr>) s')"
      using upd by (intro acc that) (simp add: accounted_def)
    then show ?thesis by (auto simp: wp_simps intro!: on_errorI)
  qed
  have dead: "safe (obind (olift (is_child_alive K ?pid)) (\<lambda>alive. if \<not> alive then olift (sret ()) else olift (?sigterm ?pid))) ?Q s'"
    if p: "polled s s'" for s'
  proof -
    have z: "ifc s' = ifc s" and p': "polled s (tick K s')" using polled_ifc [OF p] p by simp_all
    have "wpa_inv (holds n accounted) F lost (wpa_ctrl.more_update id (tick K s'))" if "?pid \<notin> children (ifc s)"
      using that inv_holds [OF i] by (intro acc p') (simp add: accounted_def)
    moreover have "wpa_ctrl.more_update id t = t" for t :: p2pd_interface by (cases t) simp
    moreover have "wpa_inv (holds n accounted) F lost (wpa_ctrl.more_update (\<lambda>i. i\<lparr>children := children (ifc s) - {?pid}\<rparr>) (tick K s'))"
      using upd by (intro acc p') (simp add: accounted_def)
    ultimately show ?thesis using ends [OF p']
      by (auto simp: safe_first is_child_alive_def wp_simps next_simps safe_simps(1) z)
  qed
  show ?thesis
  proof (cases "?pid \<le> 0")
    case True
    then have "wpa_inv (holds n accounted) F lost s" using inv_weaken [OF i, of accounted] by (simp add: accounted_def)
    then show ?thesis using True by (simp add: kill_wpa_def lop_simps wp_simps)
  next
    case False
    show ?thesis
    proof (cases "owfd_wpa_ctrl_is_open s")
      case True
      have "safe (obind (oattempt (owfd_wpa_ctrl_request_ok K ''TERMINATE'' (- 1))) (\<lambda>r. case r of
           Inr _ \<Rightarrow> olift (imod (\<lambda>i. i\<lparr>acked := True\<rparr>))
         | Inl _ \<Rightarrow> obind (olift (is_child_alive K ?pid)) (\<lambda>alive. if \<not> alive then olift (sret ()) else olift (?sigterm ?pid)))) ?Q s"
      proof (rule safe_obindI [OF oattempt_safe [OF request_polled(2) [OF i]]])
        fix r :: "(errno + unit) result" and s'
        assume a: "is_ok r \<and> polled s s'"
        have "wpa_inv (holds n accounted) F lost (wpa_ctrl.more_update (\<lambda>i. i\<lparr>acked := True\<rparr>) s')"
          using a upd by (intro acc) (simp_all add: accounted_def)
        then show "next_safe (\<lambda>r. case r of
           Inr _ \<Rightarrow> olift (imod (\<lambda>i. i\<lparr>acked := True\<rparr>))
         | Inl _ \<Rightarrow> obind (olift (is_child_alive K ?pid)) (\<lambda>alive. if \<not> alive then olift (sret ()) else olift (?sigterm ?pid))) ?Q r s'"
          using a dead by (cases r) (auto simp: next_simps safe_simps(1) wp_basic split: sum.split)
      qed
      then show ?thesis using False True unfolding kill_wpa_def by (simp add: safe_first wp_basic next_simps Let_def)
    next
      case closed: False
      then show ?thesis using False ends [OF polled_refl] unfolding kill_wpa_def
        by (simp add: safe_first wp_basic next_simps Let_def safe_simps(1))
    qed
  qed
qed

text \<open>Everything is closed and removed.\<close>

definition gone :: "int set \<Rightarrow> p2pd_interface \<Rightarrow> bool" where
  "gone F s \<longleftrightarrow> wc_ref s = 0 \<and> open_fds s = F \<and> bound s = {} \<and> accounted (ifc s)"

lemma unref_gone:
  assumes o: "own (holds 1 Q) F lost {} s" and cb: "wc_cb s = None" and Q: "\<And>z. Q z \<Longrightarrow> accounted z"
  shows "safe (owfd_wpa_ctrl_unref K) (\<lambda>r s'. r = Ok () \<and> gone F s') s"
proof -
  have o': "own (holds 0 Q) F lost {} (s\<lparr>wc_ref := 0\<rparr>)" and r: "wc_ref s = 1" using o by (simp_all add: own_def holds_def)
  have "wpa_inv (holds 0 Q) F lost (s\<lparr>wc_ref := 0\<rparr>)" using o' cb by (simp add: wpa_inv_def)
  have "safe (obind (owfd_wpa_ctrl_close K) (\<lambda>_. olift (sbind (sget wc_tfd) (\<lambda>tfd. sbind (sys_close tfd)
      (\<lambda>_. sbind (sget wc_efd) sys_close))))) (\<lambda>r s'. r = Ok () \<and> gone F s') (s\<lparr>wc_ref := 0\<rparr>)"
    by (rule safe_obindI [OF close_kept [OF \<open>wpa_inv (holds 0 Q) F lost (s\<lparr>wc_ref := 0\<rparr>)\<close>]]) (use Q in \<open>auto simp: next_simps safe_simps(1) wp_simps gone_def own_def holds_def\<close>)
  then show ?thesis by (simp add: owfd_wpa_ctrl_unref_def safe_first wp_basic next_simps r)
qed

lemma teardown_gone:
  assumes i: "wpa_inv (holds 1 (users_are [])) F lost s"
  shows "safe (teardown K) (\<lambda>r s'. r = Ok () \<and> gone F s') s"
proof -
  have close: "safe (obind (owfd_wpa_ctrl_close K) (\<lambda>_. owfd_wpa_ctrl_unref K)) (\<lambda>r s'. r = Ok () \<and> gone F s') s'"
    if "wpa_inv (holds 1 accounted) F lost s'" for s'
    by (rule safe_obindI [OF close_kept [OF that]]) (auto simp: next_simps unref_gone)
  show ?thesis unfolding teardown_def
    by (rule safe_obindI [OF kill_wpa_accounted [OF i]]) (auto simp: next_simps close)
qed

subsection \<open>Creation and end of the interface\<close>

text \<open>The channel becomes part of the interface.\<close>

lemma extend_inv:
  fixes wpa :: wpa_ctrl
  assumes a: "wpa_inv (ref_is 1) F lost wpa" and z: "Q z"
  shows "wpa_inv (holds 1 Q) F lost (wpa_ctrl.extend wpa z)"
proof -
  have "sock_fd x (wpa_ctrl.extend wpa z) = sock_fd x wpa" "sock_name x (wpa_ctrl.extend wpa z) = sock_name x wpa" for x
    by (cases x; simp add: wpa_ctrl.defs)+
  moreover have "ifc (wpa_ctrl.extend wpa z) = z" "wc_ref (wpa_ctrl.extend wpa z) = wc_ref wpa" "next_fd (wpa_ctrl.extend wpa z) = next_fd wpa"
      "wc_efd (wpa_ctrl.extend wpa z) = wc_efd wpa" "wc_tfd (wpa_ctrl.extend wpa z) = wc_tfd wpa" "open_fds (wpa_ctrl.extend wpa z) = open_fds wpa"
      "interest (wpa_ctrl.extend wpa z) = interest wpa" "bound (wpa_ctrl.extend wpa z) = bound wpa" "wc_cb (wpa_ctrl.extend wpa z) = wc_cb wpa"
    by (simp_all add: wpa_ctrl.defs)
  ultimately show ?thesis using a z unfolding wpa_inv_def own_def holds_def by simp
qed

lemma iface_init_users: "users_are [] (iface_init conf cs)"
  by (simp add: users_are_def iface_init_def dlist_def next_of_def prev_of_def)

lemma owfd_p2pd_interface_new_spec:
  assumes K: "answers_ok K" and k: "\<forall>fd\<in>open_fds k. fd < next_fd k" "0 \<le> next_fd k" "interest k = Map.empty"
    and efd: "efd \<in> open_fds k" and new: "owfd_p2pd_interface_new K mem mem' conf efd cs k = Inr (Some (s, r))"
  shows "case r of
      Ok _ \<Rightarrow> own (holds 1 running) (open_fds k) False {Req, Ev} s \<and> wc_cb s = Some 1 \<and> if_wpa_fd (ifc s) = wc_efd s
    | Err _ \<Rightarrow> gone (open_fds k) s
    | Fault \<Rightarrow> False"
proof -
  let ?F = "open_fds k"
  let ?Q = "\<lambda>r s. case r of Ok _ \<Rightarrow> own (holds 1 running) ?F False {Req, Ev} s \<and> wc_cb s = Some 1 \<and> if_wpa_fd (ifc s) = wc_efd s
    | Err _ \<Rightarrow> gone ?F s | Fault \<Rightarrow> False"
  have mem: mem using new by (cases mem) (simp_all add: owfd_p2pd_interface_new_def)
  obtain k1 rr where "owfd_wpa_ctrl_new K mem' k = (k1, rr)" by (rule prod.exhaust)
  then obtain wpa where wpa: "owfd_wpa_ctrl_new K mem' k = (k1, Ok wpa)"
    using new mem by (cases rr) (simp_all add: owfd_p2pd_interface_new_def)
  have alive: "wpa_alive ?F False wpa" by (rule wpa_new_alive [OF wpa k])
  have "wc_ref wpa = 1" using wpa by (auto simp: owfd_wpa_ctrl_new_def kernel.defs split: if_splits prod.splits result.splits)
  then have i: "wpa_inv (holds 1 (users_are [])) ?F False (wpa_ctrl.extend wpa (iface_init conf cs))"
    using alive iface_init_users by (intro extend_inv) (simp_all add: wpa_alive_def)
  let ?body = "obind (fork_wpa K) (\<lambda>_. obind (olift (sget wc_efd)) (\<lambda>fd. obind (olift (imod (\<lambda>i. i\<lparr>if_wpa_fd := fd\<rparr>))) (\<lambda>_. olift (owfd_p2pd_ep_add K efd fd))))"
  let ?B = "\<lambda>r s. case r of Ok _ \<Rightarrow> own (holds 1 running) ?F False {Req, Ev} s \<and> wc_cb s = Some 1 \<and> if_wpa_fd (ifc s) = wc_efd s
    | Err _ \<Rightarrow> wpa_inv (holds 1 (users_are [])) ?F False s | Fault \<Rightarrow> False"
  have body: "safe ?body ?B s0" if "wpa_inv (holds 1 (users_are [])) ?F False s0" for s0
  proof (rule safe_obindI [OF fork_wpa_forked [OF K that]])
    fix r :: "unit result" and s1
    assume f: "forked ?F False r s1"
    show "next_safe (\<lambda>_. obind (olift (sget wc_efd)) (\<lambda>fd. obind (olift (imod (\<lambda>i. i\<lparr>if_wpa_fd := fd\<rparr>))) (\<lambda>_. olift (owfd_p2pd_ep_add K efd fd)))) ?B r s1"
    proof (cases r)
      case (Ok x)
      let ?s = "wpa_ctrl.more_update (\<lambda>i. i\<lparr>if_wpa_fd := wc_efd s1\<rparr>) s1"
      have "holds 1 running (wc_ref s1) ((ifc s1)\<lparr>if_wpa_fd := wc_efd s1\<rparr>)"
        using f Ok by (auto simp: forked_def own_def holds_def running_def started_def users_are_def)
      moreover have "own (holds 1 running) ?F False {Req, Ev} s1" using f Ok by (simp add: forked_def)
      ultimately have o: "own (holds 1 running) ?F False {Req, Ev} ?s"
        using own_more [where f = "\<lambda>i. i\<lparr>if_wpa_fd := wc_efd s1\<rparr>"] by blast
      have "wc_cb ?s = Some 1" "if_wpa_fd (ifc ?s) = wc_efd ?s" using f Ok by (cases s1; simp add: forked_def)+
      moreover have "efd \<in> open_fds ?s" "wc_efd ?s \<in> open_fds ?s" using o efd by (auto simp: own_def)
      moreover have "wc_efd ?s = wc_efd s1" by (cases s1) simp
      ultimately show ?thesis using o started_users [OF running_started [OF own_inv [OF o]]]
        by (auto simp: Ok next_simps safe_first wp_simps safe_simps(1) owfd_p2pd_ep_add_def intro!: on_errorI)
    qed (use f in \<open>simp_all add: forked_def next_simps\<close>)
  qed
  have data: "wpa_inv P F lost (s0\<lparr>wc_data := d\<rparr>) = wpa_inv P F lost s0" for P F lost d and s0 :: p2pd_interface by (simp add: wpa_inv_def)
  have "safe (obind (oattempt ?body) (\<lambda>r. case r of Inr _ \<Rightarrow> olift (sret ()) | Inl e \<Rightarrow> obind (teardown K) (\<lambda>_. olift (serr e)))) ?Q s0"
    if "wpa_inv (holds 1 (users_are [])) ?F False s0" for s0
  proof -
    have down: "safe (obind (teardown K) (\<lambda>_. olift (serr e))) ?Q s1" if "wpa_inv (holds 1 (users_are [])) ?F False s1" for e s1
      by (rule safe_obindI [OF teardown_gone [OF that]]) (auto simp: next_simps safe_simps(1) wp_basic)
    show ?thesis unfolding safe_simps(2) [of "oattempt _"] safe_simps(3)
    proof (rule safe_mono [OF body [OF that]])
      fix r :: "unit result" and s1
      assume b: "?B r s1"
      show "case r of Ok x \<Rightarrow> next_safe (\<lambda>r. case r of Inr _ \<Rightarrow> olift (sret ()) | Inl e \<Rightarrow> obind (teardown K) (\<lambda>_. olift (serr e))) ?Q (Ok (Inr x)) s1
        | Err e \<Rightarrow> next_safe (\<lambda>r. case r of Inr _ \<Rightarrow> olift (sret ()) | Inl e \<Rightarrow> obind (teardown K) (\<lambda>_. olift (serr e))) ?Q (Ok (Inl e)) s1
        | Fault \<Rightarrow> next_safe (\<lambda>r. case r of Inr _ \<Rightarrow> olift (sret ()) | Inl e \<Rightarrow> obind (teardown K) (\<lambda>_. olift (serr e))) ?Q Fault s1"
        by (cases r) (use b down in \<open>simp_all add: next_simps safe_simps(1) wp_basic\<close>)
    qed
  qed
  then have "safe (obind (olift (owfd_wpa_ctrl_set_data 1)) (\<lambda>_. obind (oattempt ?body) (\<lambda>r. case r of Inr _ \<Rightarrow> olift (sret ())
      | Inl e \<Rightarrow> obind (teardown K) (\<lambda>_. olift (serr e))))) ?Q (wpa_ctrl.extend wpa (iface_init conf cs))"
    using i by (simp add: safe_first owfd_wpa_ctrl_set_data_def wp_basic next_simps data)
  then show ?thesis using new mem wpa by (simp add: owfd_p2pd_interface_new_def safe_def del: One_nat_def)
qed

lemma free_round_users:
  assumes "users_are (e # us) (ifc s)"
  shows "wp (free_round ()) (\<lambda>r s'. r = Ok (False, ()) \<and> touched s s' \<and> same_process (ifc s) (ifc s') \<and> users_are us (ifc s')) s"
proof -
  let ?z = "ifc s"
  have l: "dlist (if_heap ?z) (if_head ?z) ([] @ fst e # map fst us)" using assms by (simp add: users_are_def)
  from shl_dlist_unlink_correct [OF this] obtain h' where h': "shl_dlist_unlink (Some (fst e)) (if_heap ?z) = Ok h'"
      "dlist h' (if_head ?z) (map fst us)" "dom h' = dom (if_heap ?z)" by auto
  have d: "fst e \<notin> set (if_head ?z # map fst us)" using l by (auto simp: dlist_def)
  have "dlist (h'(fst e := None)) (if_head ?z) (map fst us)"
    by (rule dlist_cong [where h = h']) (use h'(2) d in auto)
  moreover have "(map_of (e # us))(fst e := None) = map_of us"
  proof -
    have "map_of us (fst e) = None" using d by (simp add: map_of_eq_None_iff)
    then show ?thesis by (cases e) (auto simp: fun_eq_iff)
  qed
  ultimately have "users_are us (?z\<lparr>if_heap := h'(fst e := None), if_info := (if_info ?z)(fst e := None)\<rparr>)"
    using assms h'(3) d unfolding users_are_def by auto (metis fst_conv image_eqI)
  then show ?thesis
    using shl_dlist_empty_correct [OF l] shl_dlist_first_correct [OF l] h'(1)
    by (auto simp: free_round_def free_user_def wp_simps wp_on_heap same_process_def intro!: touched_update)
qed

lemma free_gone:
  assumes i: "wpa_inv (holds 1 event_users) F lost s"
  shows "safe (owfd_p2pd_interface_free K) (\<lambda>r s'. r = Ok () \<and> gone F s') s"
proof -
  have "safe (until_done (\<lambda>c. olift (free_round c)) ()) (\<lambda>r s'. r = Ok () \<and> wpa_inv (holds 1 (users_are [])) F lost s') s"
  proof (rule until_done_safe [where I = "\<lambda>_ s'. touched s s' \<and> (\<exists>us. users_are us (ifc s'))"])
    fix c :: unit and s'
    assume a: "touched s s' \<and> (\<exists>us. users_are us (ifc s'))"
    then obtain us where us: "users_are us (ifc s')" by blast
    show "safe (olift (free_round c)) (round_post (\<lambda>_ s'. touched s s' \<and> (\<exists>us. users_are us (ifc s')))
        (\<lambda>r s'. r = Ok () \<and> wpa_inv (holds 1 (users_are [])) F lost s')) s'"
    proof (cases us)
      case Nil
      then have "wpa_inv (holds 1 (users_are [])) F lost s'" using inv_touched [OF i] a us by blast
      then show ?thesis using us Nil shl_dlist_empty_correct [of "if_heap (ifc s')" "if_head (ifc s')" "[]"]
        by (simp add: safe_simps(1) free_round_def wp_simps users_are_def)
    next
      case (Cons e us')
      have "wp (free_round c) (\<lambda>r s''. r = Ok (False, ()) \<and> touched s' s'' \<and> same_process (ifc s') (ifc s'') \<and> users_are us' (ifc s'')) s'"
        using us Cons free_round_users [of e us' s'] by simp
      then show ?thesis unfolding safe_simps(1)
        by (rule wp_mono) (use a touched_trans in \<open>auto simp: round_post_simps\<close>)
    qed
  qed (use inv_holds [OF i] in \<open>auto simp: event_users_def\<close>)
  then show ?thesis unfolding owfd_p2pd_interface_free_def
    by (rule safe_obindI) (auto simp: next_simps teardown_gone)
qed

subsection \<open>The user of the daemon\<close>

lemma dummy_connects: "c \<in> set (dummy_event_fn ev) \<Longrightarrow> \<exists>mac pin mode. c = Connects_peer mac pin mode"
  by (cases "ev_p ev"; cases "ev_type ev = OWFD_WPA_EVENT_P2P_PROV_DISC_SHOW_PIN"; simp add: dummy_event_fn_def)

lemma dummy_users_polite: "polite dummy_users"
  using dummy_connects by (simp add: polite_def dummy_users_def)

interpretation dummy_user: wpa_client K "wpa_event K (\<lambda>_ _. demo_alloc) dummy_users" "holds n event_users" F lost for K n F lost
proof -
  have "\<forall>n. allocator_ok ((\<lambda>_ _. demo_alloc) n)" by (simp add: demo_allocator_ok)
  from wpa_event_client [OF dummy_users_polite this]
  show "wpa_client K (wpa_event K (\<lambda>_ _. demo_alloc) dummy_users) (holds n event_users) F lost" .
qed

lemma owfd_p2pd_interface_new_fails:
  assumes "owfd_p2pd_interface_new K mem mem' conf efd cs k = Inl (k', r)" and k: "\<forall>fd\<in>open_fds k. fd < next_fd k"
  shows "open_fds k' = open_fds k \<and> (\<exists>e. r = Err e)"
proof -
  let ?create = "sbind (sys_open K) (\<lambda>efd. close_on_error efd (sbind (sys_open K) (\<lambda>tfd.
      close_on_error tfd (sbind (epoll_add K tfd WATCH) (\<lambda>_. sret (efd, tfd))))))"
  have "next_fd k \<notin> open_fds k" "next_fd k + 1 \<notin> open_fds k" using k by auto
  then have c: "wp ?create (\<lambda>r s'. r \<noteq> Fault \<and> (\<forall>e. r = Err e \<longrightarrow> open_fds s' = open_fds k)) k"
    by (cases "a_err (K (calls k))"; cases "a_err (K (calls k + 1))"; cases "a_err (K (calls k + 2))")
      (auto simp: wp_close_on_error epoll_add_def wp_simps)
  obtain k1 rr where "?create k = (k1, rr)" by (rule prod.exhaust)
  then show ?thesis using assms(1) c
    by (cases rr) (auto simp: owfd_p2pd_interface_new_def owfd_wpa_ctrl_new_def wp_iff split: if_splits)
qed

end
