(* ===== verification/P2pd_Interface_Properties.thy ===== *)
theory P2pd_Interface_Properties
  imports P2pd_Interface_Correct
begin

text \<open>What the interface of the P2P daemon promises to the rest of the daemon, and two places where it breaks its word.\<close>

unbundle bit_operations_syntax

subsection \<open>A small daemon\<close>

text \<open>A channel with an interface that has two users, with the callbacks 2 and 3.\<close>

definition demo_conf :: p2pd_config where
  "demo_conf = \<lparr>cf_interface = ''wlan0'', cf_wpa_binary = ''/bin/wpa_supplicant'', cf_wpa_ctrldir = ''/run/wpa_supplicant''\<rparr>"

definition two_users :: p2pd_iface where
  "two_users = (iface_init demo_conf {})\<lparr>
     if_heap := [0 \<mapsto> \<lparr>dnext = Some 2, dprev = Some 1\<rparr>, 2 \<mapsto> \<lparr>dnext = Some 1, dprev = Some 0\<rparr>, 1 \<mapsto> \<lparr>dnext = Some 0, dprev = Some 2\<rparr>],
     if_info := [1 \<mapsto> (3, 30), 2 \<mapsto> (2, 20)], if_next := 3\<rparr>"

lemma two_users_list: "users_are [(2, 2, 20), (1, 3, 30)] two_users"
  by (auto simp: users_are_def two_users_def iface_init_def dlist_def next_of_def prev_of_def)

definition demo_iface :: p2pd_interface where
  "demo_iface = wpa_ctrl.extend wpa_fresh two_users"

lemma demo_iface_more: "ifc demo_iface = two_users" "wc_seen demo_iface = []"
  by (simp_all add: demo_iface_def wpa_ctrl.defs wpa_fresh_eq)

lemma demo_iface_inv: "wpa_inv (holds 1 (users_are [(2, 2, 20), (1, 3, 30)])) {0, 1, 2} False demo_iface"
  using extend_inv [OF wpa_fresh_inv, of "users_are [(2, 2, 20), (1, 3, 30)]" two_users] two_users_list by (simp add: demo_iface_def)

definition demo_event :: owfd_wpa_event where
  "demo_event = \<lparr>ev_type = OWFD_WPA_EVENT_P2P_FIND_STOPPED, ev_priority = 0, ev_raw = Some [], ev_p = No_payload\<rparr>"

definition small_alloc :: "nat \<Rightarrow> allocator" where
  "small_alloc n k bytes = Some (replicate 8 NUL)"

lemma demo_event_parsed:
  "owfd_wpa_event_parse (small_alloc 0) (cstr ''P2P-FIND-STOPPED'') owfd_wpa_event_init = (demo_event, Ok ())"
  by code_simp

subsection \<open>Properties\<close>

text \<open>
  C19: The event users of the daemon are a list. Registering a user puts it in front when there is memory and changes nothing when there is none, and
  unregistering takes out the first node with that callback and data, or nothing when there is no such user; both leave the supplicant
  alone and return.
\<close>

theorem p2pd_event_users_refine_list:
  assumes "users_are us (ifc s)"
  shows "(\<exists>s' r us'. owfd_p2pd_interface_register_event_fn K event_fn data s = (s', r) \<and> same_process (ifc s) (ifc s') \<and> users_are us' (ifc s') \<and>
      (if r = Ok () then map snd us' = (event_fn, data) # map snd us else r = Err ENOMEM \<and> us' = us)) \<and>
    (\<exists>s' us'. owfd_p2pd_interface_unregister_event_fn event_fn data s = Some (s', Ok ()) \<and> same_process (ifc s) (ifc s') \<and>
      users_are us' (ifc s') \<and> map snd us' = remove1 (event_fn, data) (map snd us))"
proof
  obtain s' r where r: "owfd_p2pd_interface_register_event_fn K event_fn data s = (s', r)" by (rule prod.exhaust)
  with register_users [OF assms, of K event_fn data] assms
  show "\<exists>s' r us'. owfd_p2pd_interface_register_event_fn K event_fn data s = (s', r) \<and> same_process (ifc s) (ifc s') \<and> users_are us' (ifc s') \<and>
      (if r = Ok () then map snd us' = (event_fn, data) # map snd us else r = Err ENOMEM \<and> us' = us)"
    by (intro exI [of _ s'] exI [of _ r] exI [of _ "if r = Ok () then (if_next (ifc s), event_fn, data) # us else us"]) (auto simp: wp_iff)
next
  show "\<exists>s' us'. owfd_p2pd_interface_unregister_event_fn event_fn data s = Some (s', Ok ()) \<and> same_process (ifc s) (ifc s') \<and>
      users_are us' (ifc s') \<and> map snd us' = remove1 (event_fn, data) (map snd us)"
    using unregister_users [OF assms, of event_fn data] remove_user_map [of "(event_fn, data)" us] by (auto simp: ends_iff)
qed

theorem p2pd_event_users_refine_list_witness:
  "\<exists>s' us'. owfd_p2pd_interface_unregister_event_fn 3 30 demo_iface = Some (s', Ok ()) \<and> users_are us' (ifc s') \<and> map snd us' = [(2, 20)]"
  using p2pd_event_users_refine_list [of "[(2, 2, 20), (1, 3, 30)]" demo_iface "\<lambda>_. granted" 3 30] two_users_list
  by (fastforce simp: demo_iface_more)


text \<open>
  C18: Every event that is understood reaches every user exactly once, in the order of the list, whatever the kernel and the
  peer do, even when users unregister themselves or connect to a peer in their callbacks: the callbacks made are those of the users that were registered when the event came.
\<close>

theorem p2pd_notifies_every_user:
  assumes "polite U" and "wpa_inv (holds n (users_are us)) F lost s" and "distinct (map snd us)"
    and "owfd_wpa_event_parse (M (length (wc_seen s))) (cstr buf) owfd_wpa_event_init = (ev, Ok ())" and "ev_type ev \<noteq> OWFD_WPA_EVENT_UNKNOWN"
    and "wpa_event K M U h buf s = Some (s', r)"
  shows "r = Ok () \<and> notified (ifc s') = notified (ifc s) @ map (\<lambda>(f, d). (f, d, ev)) (filter (\<lambda>(f, d). f \<noteq> 0) (map snd us))"
proof -
  have "map (\<lambda>(f, d). (f, d, ev)) (filter (\<lambda>(f, d). f \<noteq> 0) (map snd us)) = told ev us"
    by (induction us) (auto simp: told_def)
  moreover have "notify_users K U ev s = Some (s', r)" using assms(4-6) by (simp add: wpa_event_def)
  ultimately show ?thesis
    using notify_users_polite [OF assms(1-3), of K ev] by (auto simp: safe_def same_process_def)
qed

theorem p2pd_notifies_every_user_witness:
  "\<exists>s'. wpa_event (\<lambda>_. granted) small_alloc (\<lambda>_ _ _ _. []) 1 ''P2P-FIND-STOPPED'' demo_iface = Some (s', Ok ()) \<and>
    notified (ifc s') = [(2, 20, demo_event), (3, 30, demo_event)]"
proof -
  have "ends (notify_users (\<lambda>_. granted) (\<lambda>_ _ _ _. []) demo_event) (\<lambda>r s'. r = Ok ()) demo_iface"
    by (simp add: notify_users_def lop_simps wp_simps demo_iface_more get_next_def node_def two_users_def iface_init_def)
      (subst until_done_unroll, simp add: event_round_def user_at_def notify_user_def get_next_def node_def lop_simps wp_simps demo_iface_more
        two_users_def iface_init_def)+
  then obtain s' where s': "wpa_event (\<lambda>_. granted) small_alloc (\<lambda>_ _ _ _. []) 1 ''P2P-FIND-STOPPED'' demo_iface = Some (s', Ok ())"
    using demo_event_parsed by (auto simp: wpa_event_def ends_iff demo_iface_more demo_event_def)
  have "polite (\<lambda>_ _ _ _. [])" by (simp add: polite_def)
  from p2pd_notifies_every_user [OF this demo_iface_inv _ _ _ s'] demo_event_parsed s' show ?thesis
    by (auto simp: demo_iface_more demo_event_def two_users_def iface_init_def)
qed


text \<open>
  Iterating over the users protects only the user whose callback runs. When a callback unregisters the user behind it, the
  loop goes on with a node that has been freed.
\<close>

lemma p2pd_unregister_next_faults:
  assumes "users_are ((a, f, d) # (b, f', d') # us) (ifc s)" and "f \<noteq> 0" and "(f, d) \<noteq> (f', d')"
    and "\<And>ev s. U f d ev s = [Unregisters f' d']"
    and "owfd_wpa_event_parse (M (length (wc_seen s))) (cstr buf) owfd_wpa_event_init = (ev, Ok ())" and "ev_type ev \<noteq> OWFD_WPA_EVENT_UNKNOWN"
  shows "\<exists>s'. wpa_event K M U h buf s = Some (s', Fault)"
proof -
  let ?z = "ifc s" and ?us = "(a, f, d) # (b, f', d') # us"
  let ?s = "wpa_ctrl.more_update (\<lambda>i. i\<lparr>notified := notified i @ [(f, d, ev)]\<rparr>) s"
  have first: "get_next (Some (if_head ?z)) (if_heap ?z) = Ok (Some a)" "get_next (Some a) (if_heap ?z) = Ok (Some b)"
    using next_user [of "[]" ?us ?z] dlist_first [of "if_heap ?z" "if_head ?z" "map fst ?us"] assms(1) by (auto simp: users_are_def)
  note found = user_found [of "[]" "(a, f, d)" "(b, f', d') # us" ?z]
  have b: "b \<notin> insert (if_head ?z) (fst ` set ((a, f, d) # us))" using assms(1) by (auto simp: users_are_def dlist_def)
  have u: "users_are ?us (ifc ?s)" using assms(1) by (simp add: users_are_def)
  have "remove_user (f', d') ?us = (a, f, d) # us" using assms(3) by auto
  then obtain s1 where "owfd_p2pd_interface_unregister_event_fn f' d' ?s = Some (s1, Ok ())" "users_are ((a, f, d) # us) (ifc s1)" "if_head (ifc s1) = if_head ?z"
    using unregister_users [OF u, of f' d'] by (auto simp: ends_iff same_process_def)
  then have calls: "ends (user_calls K [Unregisters f' d']) (\<lambda>r s'. r = Ok () \<and> users_are ((a, f, d) # us) (ifc s') \<and> if_head (ifc s') = if_head ?z) ?s"
    by (simp add: ends_def obind_def oattempt_def olift_def)
  have fault: "get_next (Some b) (if_heap z) = Fault" if "users_are ((a, f, d) # us) z" "if_head z = if_head ?z" for z
  proof -
    have "b \<notin> dom (if_heap z)" using that b unfolding users_are_def by auto
    then have "if_heap z b = None" by blast
    then show ?thesis by (simp add: get_next_def node_def)
  qed
  have "ends (\<lambda>s. user_calls K (U f d ev s) s) (next_ends (\<lambda>_. obind (olift (iget if_heap)) (\<lambda>h. obind (olift (slift (get_next (Some b) h)))
      (\<lambda>t. olift (sret (False, Some b, t))))) (\<lambda>r s'. r = Fault)) ?s"
    using calls unfolding ends_def assms(4) by (auto simp: lop_simps wp_simps fault split: option.splits)
  then have "ends (event_round K U ev (Some a, Some b)) (\<lambda>r s'. r = Fault) s"
    using found assms(1,2) by (simp add: event_round_def user_at_def notify_user_def lop_simps wp_simps)
  then have "ends (until_done (event_round K U ev) (Some a, Some b)) (\<lambda>r s'. r = Fault) s"
    by (subst until_done_unroll) (erule ends_mono, simp add: round_post_simps)
  then have "ends (notify_users K U ev) (\<lambda>r s'. r = Fault) s"
    by (simp add: notify_users_def lop_simps wp_simps first) (erule ends_mono, simp add: next_simps)
  then show ?thesis using assms(5,6) by (auto simp: wpa_event_def ends_iff)
qed

lemma p2pd_unregister_next_faults_witness:
  "\<exists>s'. wpa_event (\<lambda>_. granted) small_alloc (\<lambda>f d ev s. if f = 2 then [Unregisters 3 30] else []) 1
     ''P2P-FIND-STOPPED'' demo_iface = Some (s', Fault)"
  by (rule p2pd_unregister_next_faults [of 2 2 20 1 3 30 "[]" _ _ _ _ demo_event])
    (use two_users_list demo_event_parsed in \<open>simp_all add: demo_iface_more demo_event_def\<close>)


text \<open>The way to the first look at a child that has ended.\<close>

definition reaped :: "int \<Rightarrow> p2pd_interface \<Rightarrow> bool" where
  "reaped pid s \<longleftrightarrow> if_pid (ifc s) = pid \<and> pid \<notin> children (ifc s) \<and> signalled (ifc s) = [] \<and> wc_ref s = 1 \<and> ev_fd s < 0 \<and>
     {wc_efd s, wc_tfd s} \<subseteq> open_fds s \<and> wc_efd s \<noteq> wc_tfd s"

lemma fork_wpa_reaped:
  assumes "a_err (K (calls s)) = None" "a_err (K (Suc (calls s))) = None" "a_err (K (Suc (Suc (calls s)))) = None" "a_num (K (Suc (Suc (Suc (Suc (calls s)))))) \<noteq> 0"
    and "{wc_efd s, wc_tfd s} \<subseteq> open_fds s" "wc_efd s \<noteq> wc_tfd s" "wc_efd s \<noteq> next_fd s" "wc_tfd s \<noteq> next_fd s" "wc_ref s = 1" "ev_fd s < 0" "signalled (ifc s) = []"
  shows "ends (fork_wpa K) (\<lambda>r s'. r = Err ENODEV \<and> reaped (int (a_num (K (calls s))) + 1) s') s"
  using assms
  by (cases "a_err (K (Suc (Suc (Suc (calls s)))))")
    (simp_all add: fork_wpa_def wait_for_wpa_def close_after_def verify_child_def is_child_alive_def owfd_wpa_ctrl_set_sigmask_def
      lop_simps wp_simps Let_def reaped_def)

lemma teardown_reaped:
  assumes "reaped pid s" and "0 < pid"
  shows "ends (teardown K) (\<lambda>r s'. r = Ok () \<and> if_pid (ifc s') = pid \<and> pid \<notin> children (ifc s') \<and> signalled (ifc s') = [pid]) s"
  using assms
  by (cases "a_err (K (calls s))") (simp_all add: reaped_def teardown_def kill_wpa_def owfd_wpa_ctrl_close_def owfd_wpa_ctrl_unref_def
    owfd_wpa_ctrl_is_open_def lop_simps wp_simps Let_def)

lemma new_reaped:
  assumes "\<And>i. i < 6 \<Longrightarrow> a_err (K (calls k + i)) = None" and "a_num (K (calls k + 7)) \<noteq> 0"
    and "\<forall>fd\<in>open_fds k. fd < next_fd k" and "0 \<le> next_fd k" and "interest k = Map.empty"
  shows "\<exists>s. owfd_p2pd_interface_new K True True conf efd cs k = Inr (Some (s, Err ENODEV)) \<and>
    if_pid (ifc s) = int (a_num (K (calls k + 3))) + 1 \<and> if_pid (ifc s) \<notin> children (ifc s) \<and> signalled (ifc s) = [if_pid (ifc s)]"
proof -
  have ok: "a_err (K (calls k)) = None" "a_err (K (Suc (calls k))) = None" "a_err (K (Suc (Suc (calls k)))) = None" "a_err (K (Suc (Suc (Suc (calls k))))) = None"
      "a_err (K (Suc (Suc (Suc (Suc (calls k)))))) = None" "a_err (K (Suc (Suc (Suc (Suc (Suc (calls k))))))) = None" "a_num (K (Suc (Suc (Suc (Suc (Suc (Suc (Suc (calls k))))))))) \<noteq> 0"
    using assms(2) assms(1) [of 0] assms(1) [of 1] assms(1) [of 2] assms(1) [of 3] assms(1) [of 4] assms(1) [of 5] by (simp_all add: eval_nat_numeral)
  have new: "next_fd k \<notin> open_fds k" "next_fd k + 1 \<notin> open_fds k" using assms(3) by auto
  let ?k = "kernel.extend ((tick K (tick K (tick K k)))\<lparr>next_fd := next_fd k + 2, open_fds := {next_fd k + 1, next_fd k} \<union> open_fds k,
      interest := [next_fd k + 1 \<mapsto> WATCH]\<rparr>) \<lparr>wc_ref = 1, wc_data = 0, wc_mask = 0, wc_efd = next_fd k, wc_tfd = next_fd k + 1, req_fd = - 1, req_name = [],
      ev_fd = - 1, ev_name = [], wc_cb = None, wc_timer = (0, 0), bound = {}, wc_seen = [], wc_sent = []\<rparr>"
  have made: "\<exists>k'. owfd_wpa_ctrl_new K True k = (k', Ok ?k)"
    using ok assms(5) by (simp add: owfd_wpa_ctrl_new_def sys_open_def sys_def sys_call_def sbind_def close_on_error_def
      attempt_def epoll_add_def sys_use_def tick_def kernel.defs insert_commute)
  let ?s = "wpa_ctrl.extend ?k (iface_init conf cs)"
  let ?run = "obind (olift (owfd_wpa_ctrl_set_data 1)) (\<lambda>_. obind (oattempt (
      obind (fork_wpa K) (\<lambda>_. obind (olift (sget wc_efd)) (\<lambda>fd. obind (olift (imod (\<lambda>i. i\<lparr>if_wpa_fd := fd\<rparr>))) (\<lambda>_.
      olift (owfd_p2pd_ep_add K efd fd)))))) (\<lambda>r. case r of Inr _ \<Rightarrow> olift (sret ()) | Inl e \<Rightarrow> obind (teardown K) (\<lambda>_. olift (serr e))))"
  let ?start = "?s\<lparr>wc_data := 1\<rparr>"
  have s0: "calls ?start = Suc (Suc (Suc (calls k)))" "next_fd ?start = next_fd k + 2" "open_fds ?start = {next_fd k + 1, next_fd k} \<union> open_fds k" "wc_ref ?start = 1"
      "wc_efd ?start = next_fd k" "wc_tfd ?start = next_fd k + 1" "ev_fd ?start = - 1" "signalled (ifc ?start) = []"
    by (simp_all add: kernel.defs wpa_ctrl.defs iface_init_def tick_def)
  have fork: "ends (fork_wpa K) (\<lambda>r s'. r = Err ENODEV \<and> reaped (int (a_num (K (Suc (Suc (Suc (calls k)))))) + 1) s') ?start"
    using fork_wpa_reaped [of K ?start] ok assms(2,3) unfolding s0 by auto
  let ?fin = "\<lambda>r s. r = Err ENODEV \<and> if_pid (ifc s) = int (a_num (K (Suc (Suc (Suc (calls k)))))) + 1 \<and> if_pid (ifc s) \<notin> children (ifc s) \<and>
      signalled (ifc s) = [if_pid (ifc s)]"
  have "ends (obind (teardown K) (\<lambda>_. olift (serr ENODEV))) ?fin s'" if "reaped (int (a_num (K (Suc (Suc (Suc (calls k)))))) + 1) s'" for s'
    unfolding ends_simps(2) by (rule ends_mono [OF teardown_reaped [OF that]]) (auto simp: next_simps ends_simps(1) wp_basic)
  note down = this [unfolded ends_simps(2)]
  have "ends ?run ?fin ?s = ends (obind (oattempt (
      obind (fork_wpa K) (\<lambda>_. obind (olift (sget wc_efd)) (\<lambda>fd. obind (olift (imod (\<lambda>i. i\<lparr>if_wpa_fd := fd\<rparr>))) (\<lambda>_.
      olift (owfd_p2pd_ep_add K efd fd)))))) (\<lambda>r. case r of Inr _ \<Rightarrow> olift (sret ()) | Inl e \<Rightarrow> obind (teardown K) (\<lambda>_. olift (serr e)))) ?fin ?start"
    by (simp add: ends_def obind_def olift_def owfd_wpa_ctrl_set_data_def)
  also have "\<dots>" unfolding ends_simps(2,3)
    by (rule ends_mono [OF fork]) (simp add: next_simps ends_simps(2) down)
  finally have "ends ?run ?fin ?s" .
  then show ?thesis using made by (auto simp: owfd_p2pd_interface_new_def ends_iff eval_nat_numeral)
qed

text \<open>When every call succeeds, and every child has ended when it is looked at.\<close>

lemma granted_new:
  "\<exists>s. owfd_p2pd_interface_new (\<lambda>_. granted) True True demo_conf 0 {} wpa_kernel = Inr (Some (s, Err ENODEV)) \<and>
     if_pid (ifc s) = 7 \<and> if_pid (ifc s) \<notin> children (ifc s) \<and> signalled (ifc s) = [if_pid (ifc s)]"
  using new_reaped [of "\<lambda>_. granted" wpa_kernel demo_conf 0 "{}"] by (simp add: granted_fields wpa_kernel_def)

text \<open>
  C11: Starting the supplicant is all or nothing. When creating the interface succeeds, the supplicant has been started and was alive when its socket was
  opened, the channel is open with its two watched sockets and the callback of the interface, and no other descriptor is left open; nobody is registered. When it fails, for
  whatever reason and after however many steps, every descriptor and socket file is gone, and a supplicant that was started
  has acknowledged the request to terminate, has ended, or got the signal to do so.
\<close>

theorem p2pd_interface_new_atomic:
  assumes "answers_ok K" and "\<forall>fd\<in>open_fds k. fd < next_fd k" and "0 \<le> next_fd k" and "interest k = Map.empty" and "efd \<in> open_fds k"
    and "owfd_p2pd_interface_new K mem mem' conf efd cs k = Inr (Some (s, r))"
  shows "r = Ok () \<and> owfd_wpa_ctrl_is_open s \<and> wc_cb s = Some 1 \<and> open_fds s = {req_fd s, ev_fd s, wc_efd s, wc_tfd s} \<union> open_fds k \<and>
      dom (interest s) - {wc_tfd s} = {req_fd s, ev_fd s} \<and> if_wpa_fd (ifc s) = wc_efd s \<and> 0 < if_pid (ifc s) \<and>
      if_pid (ifc s) \<in> children (ifc s) \<and> if_info (ifc s) = Map.empty \<or>
    (\<exists>e. r = Err e) \<and> open_fds s = open_fds k \<and> bound s = {} \<and>
      (0 < if_pid (ifc s) \<longrightarrow> acked (ifc s) \<or> if_pid (ifc s) \<notin> children (ifc s) \<or> if_pid (ifc s) \<in> set (signalled (ifc s)))"
proof (cases r)
  case (Ok x)
  then have o: "own (holds 1 running) (open_fds k) False {Req, Ev} s" "wc_cb s = Some 1" "if_wpa_fd (ifc s) = wc_efd s"
    using owfd_p2pd_interface_new_spec [OF assms] by simp_all
  have "running (ifc s)" using o(1) by (simp add: own_def holds_def)
  with own_facts [OF o(1)] own_sign [OF o(1), of Ev] o(2,3) Ok show ?thesis
    by (auto simp: owfd_wpa_ctrl_is_open_def running_def started_def users_are_def)
qed (use owfd_p2pd_interface_new_spec [OF assms] in \<open>auto simp: gone_def accounted_def\<close>)

theorem p2pd_interface_new_atomic_witness:
  "\<exists>s. owfd_p2pd_interface_new (\<lambda>_. granted) True True demo_conf 0 {} wpa_kernel = Inr (Some (s, Err ENODEV)) \<and> open_fds s = {0, 1, 2} \<and> bound s = {}"
proof -
  obtain s where s: "owfd_p2pd_interface_new (\<lambda>_. granted) True True demo_conf 0 {} wpa_kernel = Inr (Some (s, Err ENODEV))" using granted_new by blast
  from p2pd_interface_new_atomic [OF granted_ok _ _ _ _ this] s show ?thesis by (simp add: wpa_kernel_def)
qed


text \<open>
  A supplicant that ends while the daemon waits for it is waited for, and then a signal is sent to its process id all the same, which
  is no longer that of a child: when the first look at the child finds it ended, the interface reports that there is no device and signals that number.
\<close>

lemma p2pd_signals_reaped_child:
  assumes "\<And>i. i < 6 \<Longrightarrow> a_err (K (calls k + i)) = None" and "a_num (K (calls k + 7)) \<noteq> 0"
    and "\<forall>fd\<in>open_fds k. fd < next_fd k" and "0 \<le> next_fd k" and "interest k = Map.empty"
  shows "\<exists>s. owfd_p2pd_interface_new K True True conf efd cs k = Inr (Some (s, Err ENODEV)) \<and>
    if_pid (ifc s) = int (a_num (K (calls k + 3))) + 1 \<and> if_pid (ifc s) \<notin> children (ifc s) \<and> signalled (ifc s) = [if_pid (ifc s)]"
  by (rule new_reaped) (use assms in auto)

lemma p2pd_signals_reaped_child_witness:
  "\<exists>s. owfd_p2pd_interface_new (\<lambda>_. granted) True True demo_conf 0 {} wpa_kernel = Inr (Some (s, Err ENODEV)) \<and> signalled (ifc s) = [7] \<and> 7 \<notin> children (ifc s)"
  using p2pd_signals_reaped_child [of "\<lambda>_. granted" wpa_kernel demo_conf 0 "{}"] by (auto simp: granted_fields wpa_kernel_def)


end
