(* ===== verification/Options.thy ===== *)
theory Options
  imports Wp
begin

text \<open>
  Command lines. \<open>getopt_long\<close> is a parameter: what it returns for a command line is a list of options. Both programs
  (\<open>src/p2pd_config.c\<close>, \<open>src/dhcp_config.c\<close>) go through it in the same way and differ in their options, which is what the locale
  \<open>option_parser\<close> abstracts from.
\<close>

text \<open>\<open>mem\<close> tells for each copy of a string in order whether there is memory for it; there is when the list is used up.\<close>

type_synonym ('c, 'a) parse_op = "('c \<times> bool list, 'a) op"

definition copy_string :: "char list \<Rightarrow> ('c, char list) parse_op" where
  "copy_string t = (\<lambda>(conf, mem). ((conf, tl mem), if mem \<noteq> [] \<and> \<not> hd mem then Err ENOMEM else Ok t))"

definition set_conf :: "('c \<Rightarrow> 'c) \<Rightarrow> ('c, unit) parse_op" where
  "set_conf f = smod (\<lambda>(conf, mem). (f conf, mem))"

definition set_string :: "char list \<Rightarrow> (char list \<Rightarrow> 'c \<Rightarrow> 'c) \<Rightarrow> ('c, unit) parse_op" where
  "set_string a update = sbind (copy_string a) (\<lambda>t. set_conf (update t))"

definition default_string :: "('c \<Rightarrow> char list option) \<Rightarrow> char list \<Rightarrow> (char list \<Rightarrow> 'c \<Rightarrow> 'c) \<Rightarrow> ('c, unit) parse_op" where
  "default_string field text update =
     sbind (sget (\<lambda>(conf, mem). field conf)) (\<lambda>v.
     case v of
       None \<Rightarrow> set_string text update
     | Some _ \<Rightarrow> sret ())"

text \<open>The loop over the options; the result tells whether help was asked for.\<close>

fun parse_options :: "('o \<Rightarrow> bool \<Rightarrow> ('c, bool) parse_op) \<Rightarrow> 'o list \<Rightarrow> bool \<Rightarrow> ('c, bool) parse_op" where
  "parse_options step [] h = sret h"
| "parse_options step (opt # opts) h = sbind (step opt h) (parse_options step opts)"

text \<open>The argument of the last option that has one for a field.\<close>

fun last_arg :: "('o \<Rightarrow> 'a option) \<Rightarrow> 'o list \<Rightarrow> 'a option" where
  "last_arg f [] = None"
| "last_arg f (opt # opts) = (case last_arg f opts of None \<Rightarrow> f opt | Some a \<Rightarrow> Some a)"

definition or_else :: "'a option \<Rightarrow> 'a option \<Rightarrow> 'a option" where
  "or_else x y = (case x of None \<Rightarrow> y | Some a \<Rightarrow> Some a)"

lemma or_else_simps [simp]: "or_else None y = y" "or_else (Some a) y = Some a" "or_else x None = x"
  by (simp_all add: or_else_def split: option.split)

lemma or_else_None [simp]: "or_else x y = None \<longleftrightarrow> x = None \<and> y = None"
  by (cases x) simp_all

text \<open>Options that set a field, one after the other: the last one counts.\<close>

lemma field_fold:
  assumes "\<And>opt c. field (put opt c) = or_else (arg opt) (field c)"
  shows "field (fold put opts c) = or_else (last_arg arg opts) (field c)"
  by (induction opts arbitrary: c) (auto simp: assms or_else_def split: option.splits)

definition oom :: "bool list \<Rightarrow> 'a result \<Rightarrow> bool" where
  "oom mem r \<longleftrightarrow> r = Err ENOMEM \<and> False \<in> set mem"

lemma oom_sub: "oom mem' r \<Longrightarrow> set mem' \<subseteq> set mem \<Longrightarrow> oom mem r"
  by (auto simp: oom_def)

lemma wp_set_conf: "wp (set_conf f) Q (conf, mem) = Q (Ok ()) (f conf, mem)"
  by (simp add: set_conf_def wp_basic)

lemma wp_set_string:
  "wp (set_string a update) Q (conf, mem) =
    (if mem \<noteq> [] \<and> \<not> hd mem then Q (Err ENOMEM) (conf, tl mem) else Q (Ok ()) (update a conf, tl mem))"
  by (simp add: set_string_def copy_string_def set_conf_def wp_def sbind_def)

lemma head_missing: "mem \<noteq> [] \<and> \<not> hd mem \<Longrightarrow> False \<in> set mem"
  by (cases mem) auto

lemma set_tl: "set (tl mem) \<subseteq> set mem"
  by (cases mem) auto

lemma default_string_spec:
  "wp (default_string field text update) (\<lambda>r (conf', mem'). oom mem r \<or>
     r = Ok () \<and> conf' = (if field conf = None then update text conf else conf) \<and> set mem' \<subseteq> set mem) (conf, mem)"
  by (auto simp: default_string_def wp_simps wp_set_string oom_def set_tl head_missing dest: list.set_sel(2) split: option.split)

text \<open>
  The interface to the options of a program: a step refuses bad options, runs out of memory, or has the effect of the option on
  the configuration.
\<close>

locale option_parser =
  fixes step :: "'o \<Rightarrow> bool \<Rightarrow> ('c, bool) parse_op"
    and bad :: "'o \<Rightarrow> bool"
    and asks :: "'o \<Rightarrow> bool"
    and put :: "'o \<Rightarrow> 'c \<Rightarrow> 'c"
  assumes step: "wp (step opt h) (\<lambda>r (conf', mem'). oom mem r \<or>
      (if bad opt then r = Err EINVAL else r = Ok (h \<or> asks opt) \<and> conf' = put opt conf \<and> set mem' \<subseteq> set mem)) (conf, mem)"
begin

lemma parse_options_spec:
  "wp (parse_options step opts h) (\<lambda>r (conf', mem'). oom mem r \<or>
    (if \<exists>opt\<in>set opts. bad opt then r = Err EINVAL
     else r = Ok (h \<or> (\<exists>opt\<in>set opts. asks opt)) \<and> conf' = fold put opts conf \<and> set mem' \<subseteq> set mem)) (conf, mem)"
proof (induction opts arbitrary: h conf mem)
  case (Cons opt opts)
  let ?Q = "\<lambda>mem r (conf', mem'). oom mem r \<or>
    (if \<exists>opt\<in>set (opt # opts). bad opt then r = Err EINVAL
     else r = Ok (h \<or> (\<exists>opt\<in>set (opt # opts). asks opt)) \<and> conf' = fold put (opt # opts) conf \<and> set mem' \<subseteq> set mem)"
  show ?case unfolding parse_options.simps
  proof (rule wp_sbindI [OF step])
    fix r :: "bool result" and s :: "'c \<times> bool list"
    assume a: "case s of (conf', mem') \<Rightarrow> oom mem r \<or>
      (if bad opt then r = Err EINVAL else r = Ok (h \<or> asks opt) \<and> conf' = put opt conf \<and> set mem' \<subseteq> set mem)"
    obtain conf' mem' where s: "s = (conf', mem')" by (rule prod.exhaust)
    show "andthen (parse_options step opts) (?Q mem) r s"
    proof (cases "r = Ok (h \<or> asks opt) \<and> \<not> bad opt \<and> conf' = put opt conf \<and> set mem' \<subseteq> set mem")
      case True
      then have "wp (parse_options step opts (h \<or> asks opt)) (?Q mem) (conf', mem')"
        using Cons.IH [where h = "h \<or> asks opt" and conf = conf' and mem = mem']
        by (elim wp_mono) (auto dest: oom_sub split: if_splits)
      then show ?thesis using True by (simp add: s andthen_simps)
    next
      case False
      then show ?thesis using a by (auto simp: s oom_def andthen_simps split: if_splits)
    qed
  qed
qed (simp add: wp_simps)

end

end
