(* ===== verification/P2pd.thy ===== *)
theory P2pd
  imports P2pd_Interface_Properties Options
begin

text \<open>
  The P2P daemon as a whole: its options (\<open>src/p2pd_config.c\<close>), its main loop and its beginning and end (\<open>src/p2pd.c\<close>). From
  the start of the program to its end nothing is left open, whatever the kernel, the supplicant and its peers do.
\<close>

unbundle bit_operations_syntax

subsection \<open>Options\<close>

text \<open>Pointers to strings are \<open>None\<close> when they are null.\<close>

record p2pd_options =
  po_verbose :: bool
  po_silent :: bool
  po_debug :: bool
  po_interface :: "char list option"
  po_wpa_binary :: "char list option"
  po_wpa_ctrldir :: "char list option"

text \<open>
  What \<open>getopt_long\<close> returns for the command line: an option of the table (a long option by its number, a short one by the same number as the
  long one it stands for) with its argument, or an error. \<open>OPT_OTHER\<close> is every other value.
\<close>

datatype p2pd_opt =
    OPT_HELP | OPT_VERBOSE | OPT_SILENT | OPT_DEBUG
  | OPT_INTERFACE "char list" | OPT_WPA_BINARY "char list" | OPT_WPA_CTRLDIR "char list"
  | OPT_MISSING | OPT_UNKNOWN | OPT_OTHER

definition owfd_p2pd_init_config :: p2pd_options where
  "owfd_p2pd_init_config =
     \<lparr>po_verbose = False, po_silent = False, po_debug = False, po_interface = None, po_wpa_binary = None, po_wpa_ctrldir = None\<rparr>"

text \<open>The round of the loop for one option; the result tells whether help was asked for.\<close>

fun parse_option :: "p2pd_opt \<Rightarrow> bool \<Rightarrow> (p2pd_options, bool) parse_op" where
  "parse_option OPT_MISSING help = serr EINVAL"
| "parse_option OPT_UNKNOWN help = serr EINVAL"
| "parse_option OPT_HELP help = sret True"
| "parse_option OPT_VERBOSE help = sbind (set_conf (\<lambda>c. c\<lparr>po_verbose := True\<rparr>)) (\<lambda>_. sret help)"
| "parse_option OPT_SILENT help = sbind (set_conf (\<lambda>c. c\<lparr>po_silent := True\<rparr>)) (\<lambda>_. sret help)"
| "parse_option OPT_DEBUG help = sbind (set_conf (\<lambda>c. c\<lparr>po_debug := True\<rparr>)) (\<lambda>_. sret help)"
| "parse_option (OPT_INTERFACE a) help = sbind (set_string a (\<lambda>t c. c\<lparr>po_interface := Some t\<rparr>)) (\<lambda>_. sret help)"
| "parse_option (OPT_WPA_BINARY a) help = sbind (set_string a (\<lambda>t c. c\<lparr>po_wpa_binary := Some t\<rparr>)) (\<lambda>_. sret help)"
| "parse_option (OPT_WPA_CTRLDIR a) help = sbind (set_string a (\<lambda>t c. c\<lparr>po_wpa_ctrldir := Some t\<rparr>)) (\<lambda>_. sret help)"
| "parse_option OPT_OTHER help = sret help"

text \<open>
  \<open>bindir\<close> is the directory that the build sets, \<open>unparsed\<close> tells whether arguments are left behind the options.
\<close>

definition owfd_p2pd_parse_argv :: "char list \<Rightarrow> p2pd_opt list \<Rightarrow> bool \<Rightarrow> (p2pd_options, unit) parse_op" where
  "owfd_p2pd_parse_argv bindir opts unparsed =
     sbind (parse_options parse_option opts False) (\<lambda>help.
     if help then serr EAGAIN
     else if unparsed then serr EINVAL
     else
       sbind (sget (\<lambda>(conf, mem). po_interface conf)) (\<lambda>i.
       case i of
         None \<Rightarrow> serr EINVAL
       | Some _ \<Rightarrow>
           sbind (default_string po_wpa_binary (bindir @ ''/wpa_supplicant'') (\<lambda>t c. c\<lparr>po_wpa_binary := Some t\<rparr>)) (\<lambda>_.
           default_string po_wpa_ctrldir ''/run/wpa_supplicant'' (\<lambda>t c. c\<lparr>po_wpa_ctrldir := Some t\<rparr>))))"

text \<open>The configuration that the interface uses; it reads the strings without looking.\<close>

definition used_config :: "p2pd_options \<Rightarrow> p2pd_config result" where
  "used_config c =
     (case (po_interface c, po_wpa_binary c, po_wpa_ctrldir c) of
        (Some i, Some b, Some d) \<Rightarrow> Ok \<lparr>cf_interface = i, cf_wpa_binary = b, cf_wpa_ctrldir = d\<rparr>
      | _ \<Rightarrow> Fault)"

subsection \<open>The main loop\<close>

text \<open>
  A signal is read as a \<open>signalfd_siginfo\<close> of 128 bytes: its number is the word at offset 0, the process the one at offset 12, in the byte order
  of the host, which is taken to be little endian.
\<close>

definition host_u32 :: "char list \<Rightarrow> nat \<Rightarrow> nat" where
  "host_u32 bs i = of_char (bs ! i) + 256 * of_char (bs ! (i + 1)) + 65536 * of_char (bs ! (i + 2)) + 16777216 * of_char (bs ! (i + 3))"

abbreviation (input) SIGPIPE :: nat where "SIGPIPE \<equiv> 13"
abbreviation (input) SIGCHLD :: nat where "SIGCHLD \<equiv> 17"

text \<open>An event of the epoll instance is the descriptor it is of with what has happened.\<close>

definition owfd_p2pd_dispatch_sfd :: "answers \<Rightarrow> int \<Rightarrow> int \<times> u32 \<Rightarrow> ep_action ilop" where
  "owfd_p2pd_dispatch_sfd K sfd ev =
     (if fst ev \<noteq> sfd then olift (sret EP_NOT_HANDLED)
      else if snd ev AND (EPOLLHUP OR EPOLLERR) \<noteq> 0 then olift (serr EPIPE)
      else
        obind (olift (sys_read K sfd 128)) (\<lambda>info.
        if length info \<noteq> 128 then olift (sret EP_NOT_HANDLED)
        else if host_u32 info 0 = SIGCHLD then
          obind (owfd_p2pd_interface_dispatch_chld K (int (host_u32 info 12))) (\<lambda>r.
          olift (sret (if r \<noteq> EP_NOT_HANDLED then r else EP_HANDLED)))
        else if host_u32 info 0 = SIGPIPE then olift (sret EP_HANDLED)
        else olift (sret EP_QUIT)))"

definition dispatch_ep :: "answers \<Rightarrow> (nat \<Rightarrow> allocator) \<Rightarrow> users \<Rightarrow> int \<Rightarrow> int \<times> u32 \<Rightarrow> ep_action ilop" where
  "dispatch_ep K M U sfd ev =
     obind (owfd_p2pd_dispatch_sfd K sfd ev) (\<lambda>r.
     if r = EP_NOT_HANDLED then
       obind (olift (iget if_wpa_fd)) (\<lambda>wpa_fd. owfd_p2pd_interface_dispatch K M U (fst ev = wpa_fd))
     else olift (sret r))"

fun dispatch_eps :: "answers \<Rightarrow> (nat \<Rightarrow> allocator) \<Rightarrow> users \<Rightarrow> int \<Rightarrow> (int \<times> u32) list \<Rightarrow> ep_action \<Rightarrow> ep_action ilop" where
  "dispatch_eps K M U sfd [] r = olift (sret r)"
| "dispatch_eps K M U sfd (ev # evs) r =
     obind (dispatch_ep K M U sfd ev) (\<lambda>r. if r = EP_QUIT then olift (sret r) else dispatch_eps K M U sfd evs r)"

text \<open>The epoll instance of the daemon watches the descriptor of the signals and the one of the channel.\<close>

definition owfd_p2pd_dispatch :: "answers \<Rightarrow> (nat \<Rightarrow> allocator) \<Rightarrow> users \<Rightarrow> int \<Rightarrow> int \<Rightarrow> ep_action ilop" where
  "owfd_p2pd_dispatch K M U efd sfd =
     obind (olift (sys_use efd)) (\<lambda>_.
     obind (olift (iget if_wpa_fd)) (\<lambda>wpa_fd.
     obind (olift (attempt (sys K))) (\<lambda>r.
     case r of
       Inl e \<Rightarrow> if e = EAGAIN \<or> e = EINTR then olift (sret EP_HANDLED) else olift (serr e)
     | Inr a \<Rightarrow> dispatch_eps K M U sfd (take 64 (ready [sfd \<mapsto> EPOLLIN, wpa_fd \<mapsto> EPOLLIN] (a_events a))) EP_HANDLED)))"

definition owfd_p2pd_run :: "answers \<Rightarrow> (nat \<Rightarrow> allocator) \<Rightarrow> users \<Rightarrow> int \<Rightarrow> int \<Rightarrow> unit ilop" where
  "owfd_p2pd_run K M U efd sfd =
     until_done (\<lambda>_. obind (owfd_p2pd_dispatch K M U efd sfd) (\<lambda>r. olift (sret (r = EP_QUIT, ())))) ()"

subsection \<open>Beginning and end\<close>

text \<open>
  The first part of \<open>owfd_p2pd_setup\<close>: the epoll instance, the handlers of six signals, the signal mask and the descriptor for signals. What fails
  here closes the descriptors that are open.
\<close>

definition signals :: "answers \<Rightarrow> (kernel, unit) op" where
  "signals K = foldr (\<lambda>sig rest. sbind (sys K) (\<lambda>_. rest)) [2, 15, 3, 1, SIGCHLD, SIGPIPE] (sbind (sys K) (\<lambda>_. sret ()))"

definition setup_descriptors :: "answers \<Rightarrow> (kernel, int \<times> int) op" where
  "setup_descriptors K =
     sbind (sys_open K) (\<lambda>efd.
     close_on_error efd (
       sbind (signals K) (\<lambda>_.
       sbind (sys_open K) (\<lambda>sfd.
       close_on_error sfd (
         sbind (owfd_p2pd_ep_add K efd sfd) (\<lambda>_.
         sret (efd, sfd)))))))"

definition close_both :: "int \<Rightarrow> int \<Rightarrow> ('a kernel_scheme, unit) op" where
  "close_both efd sfd = sbind (sys_close sfd) (\<lambda>_. sys_close efd)"

text \<open>\<open>owfd_p2pd_teardown\<close> when there is an interface; \<open>dummy\<close> is the user, or null.\<close>

definition owfd_p2pd_teardown :: "answers \<Rightarrow> nat option \<Rightarrow> int \<Rightarrow> int \<Rightarrow> unit ilop" where
  "owfd_p2pd_teardown K dummy efd sfd =
     obind (case dummy of None \<Rightarrow> olift (sret ()) | Some d \<Rightarrow> owfd_p2pd_dummy_free d) (\<lambda>_.
     obind (owfd_p2pd_interface_free K) (\<lambda>_.
     olift (close_both efd sfd)))"

text \<open>
  The program behind the options: set up, run, tear down. It ends as a kernel when no interface was created (then teardown closes the two descriptors), else
  as the last state of the interface, with the result of \<open>main\<close>. \<open>dummy\<close> is the address of the user, \<open>cs\<close> are other children.
\<close>

definition with_interface :: "answers \<Rightarrow> (nat \<Rightarrow> allocator) \<Rightarrow> nat \<Rightarrow> int \<Rightarrow> int \<Rightarrow> unit ilop" where
  "with_interface K M dummy efd sfd =
     obind (olift (attempt (owfd_p2pd_dummy_new K dummy))) (\<lambda>r.
     case r of
       Inl e \<Rightarrow> obind (owfd_p2pd_teardown K None efd sfd) (\<lambda>_. olift (serr e))
     | Inr _ \<Rightarrow>
         obind (oattempt (owfd_p2pd_run K M dummy_users efd sfd)) (\<lambda>r.
         obind (owfd_p2pd_teardown K (Some dummy) efd sfd) (\<lambda>_.
         case r of Inl e \<Rightarrow> olift (serr e) | Inr _ \<Rightarrow> olift (sret ()))))"

definition and_close :: "int \<Rightarrow> int \<Rightarrow> 'a kernel_scheme \<Rightarrow> unit result \<Rightarrow> 'a kernel_scheme \<times> unit result" where
  "and_close efd sfd k r =
     (case r of
        Fault \<Rightarrow> (k, Fault)
      | _ \<Rightarrow> (case close_both efd sfd k of (k, Ok _) \<Rightarrow> (k, r) | (k, Err e) \<Rightarrow> (k, Err e) | (k, Fault) \<Rightarrow> (k, Fault)))"

type_synonym daemon_end = "((kernel + p2pd_interface) \<times> unit result) option"

definition setup_and_run ::
    "answers \<Rightarrow> (nat \<Rightarrow> allocator) \<Rightarrow> bool \<Rightarrow> bool \<Rightarrow> p2pd_options \<Rightarrow> int set \<Rightarrow> nat \<Rightarrow> kernel \<Rightarrow> daemon_end" where
  "setup_and_run K M mem mem' opts cs dummy k =
     (case setup_descriptors K k of
        (k, Ok (efd, sfd)) \<Rightarrow>
          (case used_config opts of
             Ok conf \<Rightarrow>
               (case owfd_p2pd_interface_new K mem mem' conf efd cs k of
                  Inl (k, r) \<Rightarrow> Some (apfst Inl (and_close efd sfd k r))
                | Inr None \<Rightarrow> None
                | Inr (Some (s, Ok _)) \<Rightarrow> map_option (apfst Inr) (with_interface K M dummy efd sfd s)
                | Inr (Some (s, r)) \<Rightarrow> Some (apfst Inr (and_close efd sfd s r)))
           | _ \<Rightarrow> Some (Inl k, Fault))
      | (k, Err e) \<Rightarrow> Some (Inl k, Err e)
      | (k, Fault) \<Rightarrow> Some (Inl k, Fault))"

text \<open>
  The whole program. \<open>strs\<close> tells which copies of strings find memory, \<open>mem\<close> and \<open>mem'\<close> whether there is memory for the interface and its
  channel. The strings of the configuration are values here, so that \<open>owfd_p2pd_clear_config\<close> has nothing to do; log output is left out.
\<close>

definition owfd_p2pd_main ::
    "answers \<Rightarrow> (nat \<Rightarrow> allocator) \<Rightarrow> bool list \<Rightarrow> bool \<Rightarrow> bool \<Rightarrow> char list \<Rightarrow> p2pd_opt list \<Rightarrow> bool \<Rightarrow> int set \<Rightarrow> nat \<Rightarrow> kernel \<Rightarrow> daemon_end" where
  "owfd_p2pd_main K M strs mem mem' bindir opts unparsed cs dummy k =
     (case owfd_p2pd_parse_argv bindir opts unparsed (owfd_p2pd_init_config, strs) of
        ((conf, _), Ok _) \<Rightarrow> setup_and_run K M mem mem' conf cs dummy k
      | (_, Err e) \<Rightarrow> Some (Inl k, Err e)
      | (_, Fault) \<Rightarrow> Some (Inl k, Fault))"

subsection \<open>The command line\<close>

text \<open>What the options say about each field.\<close>

fun interface_arg :: "p2pd_opt \<Rightarrow> char list option" where
  "interface_arg (OPT_INTERFACE a) = Some a"
| "interface_arg _ = None"

fun binary_arg :: "p2pd_opt \<Rightarrow> char list option" where
  "binary_arg (OPT_WPA_BINARY a) = Some a"
| "binary_arg _ = None"

fun ctrldir_arg :: "p2pd_opt \<Rightarrow> char list option" where
  "ctrldir_arg (OPT_WPA_CTRLDIR a) = Some a"
| "ctrldir_arg _ = None"

definition bad_opt :: "p2pd_opt \<Rightarrow> bool" where
  "bad_opt opt \<longleftrightarrow> opt = OPT_MISSING \<or> opt = OPT_UNKNOWN"

text \<open>What a good option does to the configuration.\<close>

fun put_option :: "p2pd_opt \<Rightarrow> p2pd_options \<Rightarrow> p2pd_options" where
  "put_option OPT_VERBOSE c = c\<lparr>po_verbose := True\<rparr>"
| "put_option OPT_SILENT c = c\<lparr>po_silent := True\<rparr>"
| "put_option OPT_DEBUG c = c\<lparr>po_debug := True\<rparr>"
| "put_option (OPT_INTERFACE a) c = c\<lparr>po_interface := Some a\<rparr>"
| "put_option (OPT_WPA_BINARY a) c = c\<lparr>po_wpa_binary := Some a\<rparr>"
| "put_option (OPT_WPA_CTRLDIR a) c = c\<lparr>po_wpa_ctrldir := Some a\<rparr>"
| "put_option _ c = c"

interpretation p2pd_parser: option_parser parse_option bad_opt "\<lambda>opt. opt = OPT_HELP" put_option
  by unfold_locales
    (case_tac opt; auto simp: wp_simps wp_set_string wp_set_conf bad_opt_def oom_def set_tl head_missing dest: list.set_sel(2))

lemma given_fields:
  "po_interface (fold put_option opts owfd_p2pd_init_config) = last_arg interface_arg opts"
  "po_wpa_binary (fold put_option opts owfd_p2pd_init_config) = last_arg binary_arg opts"
  "po_wpa_ctrldir (fold put_option opts owfd_p2pd_init_config) = last_arg ctrldir_arg opts"
proof -
  have put: "po_interface (put_option opt c) = or_else (interface_arg opt) (po_interface c)"
    "po_wpa_binary (put_option opt c) = or_else (binary_arg opt) (po_wpa_binary c)"
    "po_wpa_ctrldir (put_option opt c) = or_else (ctrldir_arg opt) (po_wpa_ctrldir c)" for opt c
    by (cases opt; simp)+
  show
    "po_interface (fold put_option opts owfd_p2pd_init_config) = last_arg interface_arg opts"
    "po_wpa_binary (fold put_option opts owfd_p2pd_init_config) = last_arg binary_arg opts"
    "po_wpa_ctrldir (fold put_option opts owfd_p2pd_init_config) = last_arg ctrldir_arg opts"
    using field_fold [of po_interface put_option interface_arg] field_fold [of po_wpa_binary put_option binary_arg]
      field_fold [of po_wpa_ctrldir put_option ctrldir_arg] put
    by (simp_all add: owfd_p2pd_init_config_def)
qed

lemma parse_argv_spec:
  assumes "owfd_p2pd_parse_argv bindir opts unparsed (owfd_p2pd_init_config, mem) = ((conf, mem'), r)"
  shows "r = Err ENOMEM \<and> False \<in> set mem \<or>
    r = (if \<exists>opt\<in>set opts. bad_opt opt then Err EINVAL
         else if OPT_HELP \<in> set opts then Err EAGAIN
         else if unparsed \<or> last_arg interface_arg opts = None then Err EINVAL
         else Ok ()) \<and>
    (\<forall>u. r = Ok u \<longrightarrow> used_config conf = Ok
       \<lparr>cf_interface = the (last_arg interface_arg opts),
        cf_wpa_binary = the (or_else (last_arg binary_arg opts) (Some (bindir @ ''/wpa_supplicant''))),
        cf_wpa_ctrldir = the (or_else (last_arg ctrldir_arg opts) (Some ''/run/wpa_supplicant''))\<rparr>)"
proof -
  let ?conf = "fold put_option opts owfd_p2pd_init_config"
  let ?Q = "\<lambda>r (conf, mem'). r = Err ENOMEM \<and> False \<in> set mem \<or>
    r = (if \<exists>opt\<in>set opts. bad_opt opt then Err EINVAL
         else if OPT_HELP \<in> set opts then Err EAGAIN
         else if unparsed \<or> last_arg interface_arg opts = None then Err EINVAL
         else Ok ()) \<and>
    (\<forall>u. r = Ok u \<longrightarrow> used_config conf = Ok
       \<lparr>cf_interface = the (last_arg interface_arg opts),
        cf_wpa_binary = the (or_else (last_arg binary_arg opts) (Some (bindir @ ''/wpa_supplicant''))),
        cf_wpa_ctrldir = the (or_else (last_arg ctrldir_arg opts) (Some ''/run/wpa_supplicant''))\<rparr>)"
  let ?c1 = "if po_wpa_binary ?conf = None then ?conf\<lparr>po_wpa_binary := Some (bindir @ ''/wpa_supplicant'')\<rparr> else ?conf"
  let ?defaults = "sbind (default_string po_wpa_binary (bindir @ ''/wpa_supplicant'') (\<lambda>t c. c\<lparr>po_wpa_binary := Some t\<rparr>)) (\<lambda>_.
      default_string po_wpa_ctrldir ''/run/wpa_supplicant'' (\<lambda>t c. c\<lparr>po_wpa_ctrldir := Some t\<rparr>))"
  have defaults: "wp ?defaults ?Q (?conf, mem1)" if "set mem1 \<subseteq> set mem" "po_interface ?conf = Some i"
      "\<not> (\<exists>opt\<in>set opts. bad_opt opt)" "OPT_HELP \<notin> set opts" "\<not> unparsed" for mem1 i
  proof (rule wp_sbindI [OF default_string_spec])
    fix r :: "unit result" and s :: "p2pd_options \<times> bool list"
    assume a: "case s of (conf', mem') \<Rightarrow> oom mem1 r \<or> r = Ok () \<and> conf' = ?c1 \<and> set mem' \<subseteq> set mem1"
    obtain conf2 mem2 where s: "s = (conf2, mem2)" by (rule prod.exhaust)
    show "andthen (\<lambda>_. default_string po_wpa_ctrldir ''/run/wpa_supplicant'' (\<lambda>t c. c\<lparr>po_wpa_ctrldir := Some t\<rparr>)) ?Q r s"
    proof (cases "oom mem1 r")
      case True
      then show ?thesis using that(1) by (auto simp: s oom_def andthen_simps)
    next
      case False
      then have c: "r = Ok ()" "conf2 = ?c1" "set mem2 \<subseteq> set mem" using a that(1) by (auto simp: s)
      have "wp (default_string po_wpa_ctrldir ''/run/wpa_supplicant'' (\<lambda>t c. c\<lparr>po_wpa_ctrldir := Some t\<rparr>)) ?Q (conf2, mem2)"
        by (rule wp_mono [OF default_string_spec])
          (use that(2-5) c(2,3) given_fields [of opts] in \<open>auto simp: oom_def used_config_def split: if_splits option.splits\<close>)
      then show ?thesis by (simp add: s c(1) andthen_simps)
    qed
  qed
  have "wp (owfd_p2pd_parse_argv bindir opts unparsed) ?Q (owfd_p2pd_init_config, mem)"
    unfolding owfd_p2pd_parse_argv_def
  proof (rule wp_sbindI [OF p2pd_parser.parse_options_spec])
    fix r :: "bool result" and s :: "p2pd_options \<times> bool list"
    assume a: "case s of (conf', mem') \<Rightarrow> oom mem r \<or>
      (if \<exists>opt\<in>set opts. bad_opt opt then r = Err EINVAL
       else r = Ok (False \<or> (\<exists>opt\<in>set opts. opt = OPT_HELP)) \<and> conf' = ?conf \<and> set mem' \<subseteq> set mem)"
    obtain conf1 mem1 where s: "s = (conf1, mem1)" by (rule prod.exhaust)
    show "andthen (\<lambda>help. if help then serr EAGAIN else if unparsed then serr EINVAL
        else sbind (sget (\<lambda>(conf, mem). po_interface conf)) (\<lambda>i. case i of None \<Rightarrow> serr EINVAL | Some _ \<Rightarrow> ?defaults)) ?Q r s"
      using a defaults [of mem1] given_fields(1) [of opts]
      by (auto simp: s oom_def andthen_simps wp_basic wp_sbind split: if_splits option.splits)
  qed
  then show ?thesis by (simp add: wp_iff assms)
qed

text \<open>
  C22: The command line of the P2P daemon. Unless memory runs out, an unknown option or a missing argument is an invalid command line; help, when asked
  for, wins over the rest; arguments left over and a missing interface are invalid. When parsing succeeds the configuration is complete, so that
  the daemon never uses a null string: every field is the argument of the last option for it, or the default.
\<close>

theorem p2pd_parse_argv_correct:
  assumes "owfd_p2pd_parse_argv bindir opts unparsed (owfd_p2pd_init_config, mem) = ((conf, mem'), r)"
  shows "r = Err ENOMEM \<and> False \<in> set mem \<or>
    r = (if \<exists>opt\<in>set opts. bad_opt opt then Err EINVAL
         else if OPT_HELP \<in> set opts then Err EAGAIN
         else if unparsed \<or> last_arg interface_arg opts = None then Err EINVAL
         else Ok ()) \<and>
    (\<forall>u. r = Ok u \<longrightarrow> used_config conf = Ok
       \<lparr>cf_interface = the (last_arg interface_arg opts),
        cf_wpa_binary = the (or_else (last_arg binary_arg opts) (Some (bindir @ ''/wpa_supplicant''))),
        cf_wpa_ctrldir = the (or_else (last_arg ctrldir_arg opts) (Some ''/run/wpa_supplicant''))\<rparr>)"
  by (rule parse_argv_spec [OF assms])

theorem p2pd_parse_argv_correct_witness:
  "\<exists>conf mem'. owfd_p2pd_parse_argv ''/usr/bin'' [OPT_INTERFACE ''wlan0'', OPT_VERBOSE, OPT_INTERFACE ''wlan1''] False (owfd_p2pd_init_config, [])
     = ((conf, mem'), Ok ()) \<and>
   used_config conf = Ok \<lparr>cf_interface = ''wlan1'', cf_wpa_binary = ''/usr/bin/wpa_supplicant'', cf_wpa_ctrldir = ''/run/wpa_supplicant''\<rparr>"
proof -
  obtain conf mem' r where o: "owfd_p2pd_parse_argv ''/usr/bin'' [OPT_INTERFACE ''wlan0'', OPT_VERBOSE, OPT_INTERFACE ''wlan1''] False (owfd_p2pd_init_config, [])
     = ((conf, mem'), r)" by (metis surj_pair)
  from p2pd_parse_argv_correct [OF this] o show ?thesis by (simp add: bad_opt_def)
qed

subsection \<open>The interface in the main loop\<close>

abbreviation served :: "int set \<Rightarrow> p2pd_interface \<Rightarrow> bool" where
  "served F \<equiv> wpa_inv (holds 1 event_users) F False"

lemma served_unregister:
  assumes i: "served F s"
  shows "safe (owfd_p2pd_interface_unregister_event_fn event_fn data) (\<lambda>r s'. r = Ok () \<and> served F s') s"
proof -
  obtain us where us: "users_are us (ifc s)" "distinct (map snd us)" using inv_holds [OF i] by (auto simp: event_users_def)
  have d: "distinct (map snd (remove_user (event_fn, data) us))" using us(2) by (simp add: remove_user_map)
  have "safe (owfd_p2pd_interface_unregister_event_fn event_fn data) (\<lambda>r s'. r = Ok () \<and> touched s s' \<and> same_process (ifc s) (ifc s') \<and>
      users_are (remove_user (event_fn, data) us) (ifc s')) s"
    using unregister_users [OF us(1), of event_fn data] by (auto simp: ends_iff safe_iff)
  then show ?thesis
    by (rule safe_mono) (use d inv_touched [OF i, of _ event_users] in \<open>auto simp: event_users_def\<close>)
qed

lemma served_register:
  assumes i: "wpa_inv (holds 1 (users_are [])) F False s"
  shows "wp (owfd_p2pd_dummy_new K dummy) (\<lambda>r s'. r \<noteq> Fault \<and> served F s') s"
proof -
  have none: "served F s'" if "wpa_inv (holds 1 (users_are [])) F False s'" for s'
    by (rule inv_weaken [OF that]) (auto simp: event_users_def)
  have i': "wpa_inv (holds 1 (users_are [])) F False (tick K s)" using i by simp
  have "users_are [] (ifc (tick K s))" using inv_holds [OF i'] by simp
  from register_users [OF this, of K 1 dummy]
  have "wp (owfd_p2pd_interface_register_event_fn K 1 dummy) (\<lambda>r s'. r \<noteq> Fault \<and> served F s') (tick K s)"
  proof (rule wp_mono)
    fix r :: "unit result" and s'
    assume a: "touched (tick K s) s' \<and> same_process (ifc (tick K s)) (ifc s') \<and>
      (r = Err ENOMEM \<and> ifc s' = ifc (tick K s) \<or> r = Ok () \<and> users_are [(if_next (ifc (tick K s)), 1, dummy)] (ifc s'))"
    then have "event_users (ifc s')"
      using inv_holds [OF i'] by (auto simp: event_users_def)
    then show "r \<noteq> Fault \<and> served F s'" using a inv_touched [OF i'] by blast
  qed
  then show ?thesis using none [OF i'] by (auto simp: owfd_p2pd_dummy_new_def wp_simps simp del: One_nat_def intro!: on_errorI)
qed

lemma dispatch_chld_served:
  assumes i: "served F s"
  shows "safe (owfd_p2pd_interface_dispatch_chld K pid) (\<lambda>r s'. r \<noteq> Fault \<and> served F s') s"
proof -
  have "safe (obind (owfd_wpa_ctrl_close K) (\<lambda>_. olift (sbind (imod (\<lambda>i. i\<lparr>if_pid := 0\<rparr>)) (\<lambda>_. sret EP_QUIT)))) (\<lambda>r s'. r \<noteq> Fault \<and> served F s') s"
  proof (rule safe_obindI [OF close_kept [OF i]])
    fix r :: "unit result" and s'
    assume a: "r = Ok () \<and> own (holds 1 event_users) F False {} s' \<and> wc_cb s' = None"
    then have i': "served F s'" by (simp add: wpa_inv_def)
    have "event_users ((ifc s')\<lparr>if_pid := 0\<rparr>)" using inv_holds [OF i'] by (auto simp: event_users_def users_are_def)
    then have "served F (wpa_ctrl.more_update (\<lambda>i. i\<lparr>if_pid := 0\<rparr>) s')"
      using inv_holds [OF i'] by (intro inv_more [OF i']) (simp add: holds_def)
    then show "next_safe (\<lambda>_. olift (sbind (imod (\<lambda>i. i\<lparr>if_pid := 0\<rparr>)) (\<lambda>_. sret EP_QUIT))) (\<lambda>r s'. r \<noteq> Fault \<and> served F s') r s'"
      using a by (simp add: next_simps safe_simps(1) wp_simps)
  qed
  then show ?thesis using i by (simp add: owfd_p2pd_interface_dispatch_chld_def safe_first wp_basic next_simps safe_simps(1))
qed

lemma dispatch_served:
  assumes K: "answers_ok K" and U: "polite U" and M: "\<forall>n. allocator_ok (M n)" and i: "served F s" and sfd: "sfd \<in> F"
  shows "safe (dispatch_ep K M U sfd ev) (\<lambda>r s'. r \<noteq> Fault \<and> served F s') s"
proof -
  let ?Q = "\<lambda>r s'. r \<noteq> Fault \<and> served F s'"
  have fd: "sfd \<in> open_fds s" using inv_others [OF i] sfd by blast
  have chld: "safe (obind (owfd_p2pd_interface_dispatch_chld K pid) (\<lambda>r. olift (sret (if r \<noteq> EP_NOT_HANDLED then r else EP_HANDLED)))) ?Q s'"
    if "served F s'" for s' pid
    by (rule safe_obindI [OF dispatch_chld_served [OF that]]) (auto simp: next_safe_def safe_simps(1) wp_basic split: result.splits)
  have tick: "served F (tick K s)" using i by simp
  have "safe (owfd_p2pd_dispatch_sfd K sfd ev) ?Q s"
    using fd i chld [OF tick]
    by (auto simp: owfd_p2pd_dispatch_sfd_def sys_read_def safe_first safe_simps(1) wp_simps next_simps Let_def intro!: on_errorI)
  moreover have "safe (owfd_p2pd_interface_dispatch K M U mine) ?Q s'" if "served F s'" for s' mine
  proof -
    have "safe (obind (owfd_wpa_ctrl_dispatch K (wpa_event K M U)) (\<lambda>_. olift (sret EP_HANDLED))) ?Q s'"
      by (rule safe_obindI [OF wpa_client.dispatch_kept [OF wpa_event_client [OF U M] K that]])
        (auto simp: next_safe_def safe_simps(1) wp_basic split: result.splits)
    then show ?thesis using that by (simp add: owfd_p2pd_interface_dispatch_def safe_simps(1) wp_basic)
  qed
  ultimately show ?thesis unfolding dispatch_ep_def
    by (auto simp: next_safe_def safe_first safe_simps(1) wp_basic intro!: safe_obindI split: result.splits)
qed

lemma dispatch_eps_served:
  assumes K: "answers_ok K" and U: "polite U" and M: "\<forall>n. allocator_ok (M n)" and sfd: "sfd \<in> F"
  shows "served F s \<Longrightarrow> safe (dispatch_eps K M U sfd evs r) (\<lambda>r s'. r \<noteq> Fault \<and> served F s') s"
proof (induction evs arbitrary: s r)
  case (Cons ev evs)
  show ?case unfolding dispatch_eps.simps
    by (rule safe_obindI [OF dispatch_served [OF K U M Cons.prems sfd]])
      (auto simp: next_safe_def safe_simps(1) wp_basic Cons.IH split: result.splits)
qed (simp add: safe_simps(1) wp_basic)

lemma run_served:
  assumes K: "answers_ok K" and U: "polite U" and M: "\<forall>n. allocator_ok (M n)" and i: "served F s" and fds: "{efd, sfd} \<subseteq> F"
  shows "safe (owfd_p2pd_run K M U efd sfd) (\<lambda>r s'. r \<noteq> Fault \<and> served F s') s"
  unfolding owfd_p2pd_run_def
proof (rule until_done_safe [where I = "\<lambda>_. served F"])
  fix c :: unit and s
  assume i: "served F s"
  have "efd \<in> open_fds s" "sfd \<in> F" using inv_others [OF i] fds by auto
  then have "safe (owfd_p2pd_dispatch K M U efd sfd) (\<lambda>r s'. r \<noteq> Fault \<and> served F s') s"
    using dispatch_eps_served [OF K U M _, of sfd F "tick K s"] i
    by (auto simp: owfd_p2pd_dispatch_def safe_first safe_simps(1) wp_simps next_simps intro!: on_errorI)
  then show "safe (obind (owfd_p2pd_dispatch K M U efd sfd) (\<lambda>r. olift (sret (r = EP_QUIT, ()))))
      (round_post (\<lambda>_. served F) (\<lambda>r s'. r \<noteq> Fault \<and> served F s')) s"
    by (rule safe_obindI) (auto simp: next_safe_def safe_simps(1) wp_basic round_post_simps split: result.splits)
qed (rule i)

subsection \<open>The descriptors of the daemon\<close>

lemma wp_ep_add:
  assumes "{efd, fd} \<subseteq> open_fds s"
  shows "wp (owfd_p2pd_ep_add K efd fd) Q s = on_error (a_err (K (calls s))) (\<lambda>e. Q (Err e) (tick K s)) (Q (Ok ()) (tick K s))"
  using assms by (simp add: owfd_p2pd_ep_add_def wp_simps)

lemma signals_ticks:
  "wp (signals K) (\<lambda>r s'. r \<noteq> Fault \<and> next_fd s' = next_fd s \<and> open_fds s' = open_fds s \<and> interest s' = interest s) s"
  unfolding signals_def by (simp add: wp_simps on_error_def split: option.split)

lemma setup_descriptors_spec:
  assumes k: "\<forall>fd\<in>open_fds k. fd < next_fd k"
  shows "wp (setup_descriptors K) (\<lambda>r k'. case r of
      Ok (efd, sfd) \<Rightarrow> efd \<noteq> sfd \<and> {efd, sfd} \<inter> open_fds k = {} \<and> open_fds k' = {efd, sfd} \<union> open_fds k \<and> (\<forall>fd\<in>open_fds k'. fd < next_fd k') \<and>
        next_fd k \<le> next_fd k' \<and> interest k' = interest k
    | Err _ \<Rightarrow> open_fds k' = open_fds k
    | Fault \<Rightarrow> False) k" (is "wp _ ?Q k")
proof -
  let ?efd = "next_fd k"
  let ?s = "(tick K k)\<lparr>next_fd := next_fd k + 1, open_fds := insert ?efd (open_fds k)\<rparr>"
  let ?ok = "\<lambda>r k'. case r of
      Ok (efd, sfd) \<Rightarrow> efd = ?efd \<and> sfd = ?efd + 1 \<and> open_fds k' = {?efd, ?efd + 1} \<union> open_fds k \<and> next_fd k' = ?efd + 2 \<and> interest k' = interest k
    | Err _ \<Rightarrow> open_fds k' = insert ?efd (open_fds k)
    | Fault \<Rightarrow> False"
  have new: "?efd \<notin> open_fds k" "?efd + 1 \<notin> open_fds k" using k by auto
  have "wp (sbind (signals K) (\<lambda>_. sbind (sys_open K) (\<lambda>sfd. close_on_error sfd (sbind (owfd_p2pd_ep_add K ?efd sfd) (\<lambda>_. sret (?efd, sfd)))))) ?ok ?s"
  proof (rule wp_sbindI [OF signals_ticks])
    fix r :: "unit result" and s'
    assume a: "r \<noteq> Fault \<and> next_fd s' = next_fd ?s \<and> open_fds s' = open_fds ?s \<and> interest s' = interest ?s"
    then show "andthen (\<lambda>_. sbind (sys_open K) (\<lambda>sfd. close_on_error sfd (sbind (owfd_p2pd_ep_add K ?efd sfd) (\<lambda>_. sret (?efd, sfd))))) ?ok r s'"
      using new by (cases r) (auto simp: wp_simps wp_close_on_error wp_ep_add on_error_def split: option.split)
  qed
  then have "wp (close_on_error ?efd (sbind (signals K) (\<lambda>_. sbind (sys_open K) (\<lambda>sfd. close_on_error sfd (sbind (owfd_p2pd_ep_add K ?efd sfd)
      (\<lambda>_. sret (?efd, sfd))))))) ?Q ?s"
    unfolding wp_close_on_error by (rule wp_mono) (use new k in \<open>auto split: result.splits prod.splits\<close>)
  then show ?thesis by (auto simp: setup_descriptors_def wp_simps intro!: on_errorI)
qed

lemma close_both_gone:
  assumes g: "gone ({efd, sfd} \<union> F) s" and "efd \<noteq> sfd" "{efd, sfd} \<inter> F = {}"
  shows "wp (close_both efd sfd) (\<lambda>r s'. r = Ok () \<and> gone F s') s"
proof -
  have "ifc (s\<lparr>open_fds := x, interest := y\<rparr>) = ifc s" for x y by (cases s) simp
  then show ?thesis using assms by (auto simp: close_both_def wp_simps gone_def)
qed

lemma with_interface_gone:
  assumes K: "answers_ok K" and M: "\<forall>n. allocator_ok (M n)" and i: "wpa_inv (holds 1 (users_are [])) ({efd, sfd} \<union> F) False s"
    and fds: "efd \<noteq> sfd" "{efd, sfd} \<inter> F = {}"
  shows "safe (with_interface K M dummy efd sfd) (\<lambda>r s'. r \<noteq> Fault \<and> gone F s') s"
proof -
  let ?F = "{efd, sfd} \<union> F"
  have close: "safe (obind (owfd_p2pd_interface_free K) (\<lambda>_. olift (close_both efd sfd))) (\<lambda>r s'. r = Ok () \<and> gone F s') s'" if "served ?F s'" for s'
    by (rule safe_obindI [OF free_gone [OF that]]) (auto simp: next_simps safe_simps(1) close_both_gone fds)
  have down: "safe (owfd_p2pd_teardown K d efd sfd) (\<lambda>r s'. r = Ok () \<and> gone F s') s'" if "served ?F s'" for s' d
  proof (cases d)
    case None
    then show ?thesis using close [OF that] by (simp add: owfd_p2pd_teardown_def safe_sret)
  next
    case (Some x)
    show ?thesis unfolding owfd_p2pd_teardown_def Some option.case owfd_p2pd_dummy_free_def
      by (rule safe_obindI [OF served_unregister [OF that]]) (auto simp: next_simps close)
  qed
  have ended: "safe (obind (owfd_p2pd_teardown K d efd sfd) (\<lambda>_. case r of Inl e \<Rightarrow> olift (serr e) | Inr _ \<Rightarrow> olift (sret ())))
      (\<lambda>r s'. r \<noteq> Fault \<and> gone F s') s'" if "served ?F s'" for s' d and r :: "errno + unit"
    by (rule safe_obindI [OF down [OF that]]) (cases r; auto simp: next_simps safe_simps(1) wp_basic)
  have ran: "safe (obind (oattempt (owfd_p2pd_run K M dummy_users efd sfd)) (\<lambda>r. obind (owfd_p2pd_teardown K (Some dummy) efd sfd) (\<lambda>_.
      case r of Inl e \<Rightarrow> olift (serr e) | Inr _ \<Rightarrow> olift (sret ())))) (\<lambda>r s'. r \<noteq> Fault \<and> gone F s') s'" if "served ?F s'" for s'
  proof (rule safe_obindI [OF oattempt_safe [OF run_served [OF K dummy_users_polite M that]]])
    fix r :: "(errno + unit) result" and s''
    assume a: "is_ok r \<and> served ?F s''"
    then show "next_safe (\<lambda>r. obind (owfd_p2pd_teardown K (Some dummy) efd sfd) (\<lambda>_. case r of Inl e \<Rightarrow> olift (serr e) | Inr _ \<Rightarrow> olift (sret ())))
        (\<lambda>r s'. r \<noteq> Fault \<and> gone F s') r s''"
      using ended by (cases r) (simp_all only: next_simps is_ok.simps, simp_all)
  qed simp
  have failed: "safe (obind (owfd_p2pd_teardown K None efd sfd) (\<lambda>_. olift (serr e))) (\<lambda>r s'. (r :: unit result) \<noteq> Fault \<and> gone F s') s'" if "served ?F s'" for s' e
    using ended [OF that, of None "Inl e"] by simp
  show ?thesis unfolding with_interface_def safe_first wp_attempt
    by (rule wp_mono [OF served_register [OF i]]) (auto simp: next_simps failed ran split: result.splits)
qed

lemma and_close_gone:
  assumes "gone ({efd, sfd} \<union> F) s" and "efd \<noteq> sfd" "{efd, sfd} \<inter> F = {}" and "and_close efd sfd s (Err e) = (s', r)"
  shows "r = Err e \<and> gone F s'"
  using close_both_gone [OF assms(1-3)] assms(4) by (auto simp: wp_iff and_close_def split: prod.splits result.splits)

lemma and_close_kernel:
  assumes "open_fds k = {efd, sfd} \<union> F" and "efd \<noteq> sfd" "{efd, sfd} \<inter> F = {}" and "and_close efd sfd k (Err e) = (k', r)"
  shows "r = Err e \<and> open_fds k' = F"
proof -
  have "wp (close_both efd sfd) (\<lambda>r k'. r = Ok () \<and> open_fds k' = F) k" using assms(1-3) by (auto simp: close_both_def wp_simps)
  then show ?thesis using assms(4) by (auto simp: wp_iff and_close_def split: prod.splits result.splits)
qed

lemma setup_and_run_gone:
  assumes "answers_ok K" and "\<forall>n. allocator_ok (M n)" and "used_config opts \<noteq> Fault"
    and "\<forall>fd\<in>open_fds k. fd < next_fd k" and "0 \<le> next_fd k" and "interest k = Map.empty"
    and "setup_and_run K M mem mem' opts cs dummy k = Some (end_state, r)"
  shows "r \<noteq> Fault \<and>
    (case end_state of
       Inl k' \<Rightarrow> open_fds k' = open_fds k
     | Inr s \<Rightarrow> open_fds s = open_fds k \<and> bound s = {} \<and> if_info (ifc s) = Map.empty \<and>
         (0 < if_pid (ifc s) \<longrightarrow> acked (ifc s) \<or> if_pid (ifc s) \<notin> children (ifc s) \<or> if_pid (ifc s) \<in> set (signalled (ifc s))))"
proof -
  have fin: "?thesis" if "end_state = Inr s" "r \<noteq> Fault" "gone (open_fds k) s" for s
    using that by (simp add: gone_def accounted_def users_are_def)
  obtain k1 x where setup_k: "setup_descriptors K k = (k1, x)" by (rule prod.exhaust)
  note spec = setup_descriptors_spec [OF assms(4), of K, unfolded wp_iff setup_k fst_conv snd_conv]
  show ?thesis
  proof (cases x)
    case (Ok fds)
    obtain efd sfd where fds: "fds = (efd, sfd)" by (rule prod.exhaust)
    note d = spec [unfolded Ok fds result.case prod.case]
    obtain conf where conf: "used_config opts = Ok conf" using assms(3) by (auto simp: used_config_def split: option.splits)
    have k1: "\<forall>fd\<in>open_fds k1. fd < next_fd k1" "0 \<le> next_fd k1" "interest k1 = Map.empty" "efd \<in> open_fds k1" using d assms(5,6) by auto
    have F: "open_fds k1 = {efd, sfd} \<union> open_fds k" and ne: "efd \<noteq> sfd" "{efd, sfd} \<inter> open_fds k = {}" using d by auto
    note main = assms(7) [unfolded setup_and_run_def setup_k Ok fds conf prod.case result.case]
    show ?thesis
    proof (cases "owfd_p2pd_interface_new K mem mem' conf efd cs k1")
      case (Inl a)
      obtain k2 r2 where a: "a = (k2, r2)" by (rule prod.exhaust)
      from owfd_p2pd_interface_new_fails [OF Inl [unfolded a] k1(1)] obtain e where "open_fds k2 = open_fds k1" and r2: "r2 = Err e" by blast
      then have o2: "open_fds k2 = {efd, sfd} \<union> open_fds k" using F by simp
      obtain k3 r3 where c: "and_close efd sfd k2 (Err e) = (k3, r3)" by (rule prod.exhaust)
      with and_close_kernel [OF o2 ne c] main show ?thesis by (auto simp: Inl a r2)
    next
      case (Inr b)
      then obtain s2 r2 where b: "b = Some (s2, r2)" using main by (cases b) auto
      note new = owfd_p2pd_interface_new_spec [OF assms(1) k1 Inr [unfolded b], unfolded F]
      show ?thesis
      proof (cases r2)
        case (Ok u)
        then have o: "wpa_inv (holds 1 running) ({efd, sfd} \<union> open_fds k) False s2" using new by (simp add: own_inv)
        from with_interface_gone [OF assms(1,2) started_users [OF running_started [OF o]] ne, of dummy]
        show ?thesis using main fin by (auto simp: Inr b Ok safe_iff)
      next
        case (Err e)
        then have g: "gone ({efd, sfd} \<union> open_fds k) s2" using new by simp
        obtain s3 r3 where c: "and_close efd sfd s2 (Err e) = (s3, r3)" by (rule prod.exhaust)
        from and_close_gone [OF g ne c] show ?thesis using main fin [of s3] by (auto simp: Inr b Err c)
      qed (use new in simp)
    qed
  next
    case (Err e)
    then show ?thesis using spec assms(7) by (auto simp: setup_and_run_def setup_k)
  qed (use spec in simp)
qed

text \<open>
  C8: The daemon leaves nothing behind. Whatever kernel, supplicant, peers and signals do, and wherever the program is left, no operation faults: there is no use or
  second closing of a descriptor that is not open and no use of a list node that has been freed. When \<open>main\<close> returns, with success or with an error, exactly the descriptors
  that were open before are open, no socket file is left, and a supplicant that was started and not yet taken leave of
  has acknowledged the request to terminate, has ended or was sent a signal.
\<close>

theorem p2pd_leaves_nothing:
  assumes "answers_ok K" and "\<forall>n. allocator_ok (M n)"
    and "\<forall>fd\<in>open_fds k. fd < next_fd k" and "0 \<le> next_fd k" and "interest k = Map.empty"
    and "owfd_p2pd_main K M strs mem mem' bindir opts unparsed cs dummy k = Some (end_state, r)"
  shows "r \<noteq> Fault \<and>
    (case end_state of
       Inl k' \<Rightarrow> open_fds k' = open_fds k
     | Inr s \<Rightarrow> open_fds s = open_fds k \<and> bound s = {} \<and> if_info (ifc s) = Map.empty \<and>
         (0 < if_pid (ifc s) \<longrightarrow> acked (ifc s) \<or> if_pid (ifc s) \<notin> children (ifc s) \<or> if_pid (ifc s) \<in> set (signalled (ifc s))))"
proof -
  obtain conf strs' x where p: "owfd_p2pd_parse_argv bindir opts unparsed (owfd_p2pd_init_config, strs) = ((conf, strs'), x)" by (metis surj_pair)
  note spec = parse_argv_spec [OF p]
  show ?thesis
  proof (cases x)
    case (Ok u)
    then have "used_config conf \<noteq> Fault" "setup_and_run K M mem mem' conf cs dummy k = Some (end_state, r)"
      using spec assms(6) by (auto simp: owfd_p2pd_main_def p)
    then show ?thesis using setup_and_run_gone [OF assms(1,2) _ assms(3-5)] by blast
  qed (use spec assms(6) in \<open>auto simp: owfd_p2pd_main_def p split: if_splits\<close>)
qed

text \<open>All calls succeed, and the supplicant has ended when the daemon looks at it for the first time.\<close>

theorem p2pd_leaves_nothing_witness:
  "\<exists>s. owfd_p2pd_main (\<lambda>_. granted) (\<lambda>_ _. demo_alloc) [] True True ''/bin'' [OPT_INTERFACE ''wlan0''] False {} 8 wpa_kernel = Some (Inr s, Err ENODEV) \<and>
     open_fds s = {0, 1, 2} \<and> bound s = {} \<and> if_info (ifc s) = Map.empty"
proof -
  let ?K = "\<lambda>_. granted :: answer"
  let ?k = "\<lparr>calls = 10, now_us = 100, next_fd = 5, open_fds = {0, 1, 2, 3, 4}, interest = Map.empty\<rparr>"
  have fds: "setup_descriptors ?K wpa_kernel = (?k, Ok (3, 4))"
    by (auto simp: setup_descriptors_def signals_def sys_open_def sys_def sys_call_def sbind_def close_on_error_def attempt_def owfd_p2pd_ep_add_def
      sys_use_def tick_def granted_fields wpa_kernel_def)
  obtain s where s: "owfd_p2pd_interface_new ?K True True demo_conf 3 {} ?k = Inr (Some (s, Err ENODEV))"
    using new_reaped [of ?K ?k demo_conf 3 "{}"] by (auto simp: granted_fields)
  let ?opts = "owfd_p2pd_init_config\<lparr>po_interface := Some ''wlan0'', po_wpa_binary := Some ''/bin/wpa_supplicant'', po_wpa_ctrldir := Some ''/run/wpa_supplicant''\<rparr>"
  have opts: "owfd_p2pd_parse_argv ''/bin'' [OPT_INTERFACE ''wlan0''] False (owfd_p2pd_init_config, []) = ((?opts, []), Ok ())"
    by (simp add: owfd_p2pd_parse_argv_def set_string_def copy_string_def set_conf_def default_string_def sbind_def owfd_p2pd_init_config_def)
  have conf: "used_config ?opts = Ok demo_conf" by (simp add: used_config_def demo_conf_def)
  obtain s' where "and_close 3 4 s (Err ENODEV) = (s', Err ENODEV)"
  proof -
    have "gone ({3, 4} \<union> {0, 1, 2}) s" using owfd_p2pd_interface_new_spec [OF granted_ok _ _ _ _ s] by (simp add: insert_commute)
    moreover obtain s' r where "and_close 3 4 s (Err ENODEV) = (s', r)" by (rule prod.exhaust)
    ultimately show thesis using that and_close_gone [of 3 4 "{0, 1, 2}" s ENODEV s' r] by simp
  qed
  then have main: "owfd_p2pd_main ?K (\<lambda>_ _. demo_alloc) [] True True ''/bin'' [OPT_INTERFACE ''wlan0''] False {} 8 wpa_kernel = Some (Inr s', Err ENODEV)"
    by (simp add: owfd_p2pd_main_def setup_and_run_def opts fds conf s)
  from p2pd_leaves_nothing [OF granted_ok _ _ _ _ this] show ?thesis
    using main by (simp add: demo_allocator_ok wpa_kernel_def)
qed

subsection \<open>Signals\<close>

text \<open>
  C20: What the daemon does about a signal. The end of its supplicant closes the channel, forgets the process and ends the main loop; the end of
  another child and a broken pipe are ignored; every other signal of the mask ends the main loop and leaves the interface alone.
\<close>

theorem p2pd_signal_dispatch:
  assumes "wpa_inv (holds 1 event_users) F False s" and "sfd \<in> F" and "a_err (K (calls s)) = None" and "length (a_bytes (K (calls s))) = 128"
    and "owfd_p2pd_dispatch_sfd K sfd (sfd, EPOLLIN) s = Some (s', r)"
  shows "let signo = host_u32 (a_bytes (K (calls s))) 0; pid = int (host_u32 (a_bytes (K (calls s))) 12) in
    if signo = SIGCHLD \<and> 0 < if_pid (ifc s) \<and> pid = if_pid (ifc s) then
      r = Ok EP_QUIT \<and> \<not> owfd_wpa_ctrl_is_open s' \<and> open_fds s' = {wc_efd s', wc_tfd s'} \<union> F \<and> if_pid (ifc s') = 0
    else r = Ok (if signo = SIGCHLD \<or> signo = SIGPIPE then EP_HANDLED else EP_QUIT) \<and> s' = tick K s"
proof -
  have fd: "sfd \<in> open_fds s" using inv_others [OF assms(1)] assms(2) by blast
  have i: "wpa_inv (holds 1 event_users) F False (tick K s)" using assms(1) by simp
  have z: "ifc (tick K s) = ifc s" by simp
  have ev: "EPOLLIN AND (EPOLLHUP OR EPOLLERR) = (0 :: u32)" by simp
  let ?pid = "int (host_u32 (a_bytes (K (calls s))) 12)"
  have chld: "safe (owfd_p2pd_interface_dispatch_chld K ?pid) (\<lambda>r s'. if 0 < if_pid (ifc s) \<and> ?pid = if_pid (ifc s)
      then r = Ok EP_QUIT \<and> \<not> owfd_wpa_ctrl_is_open s' \<and> open_fds s' = {wc_efd s', wc_tfd s'} \<union> F \<and> if_pid (ifc s') = 0
      else r = Ok EP_NOT_HANDLED \<and> s' = tick K s) (tick K s)"
  proof (cases "0 < if_pid (ifc s) \<and> ?pid = if_pid (ifc s)")
    case True
    have closed: "\<not> owfd_wpa_ctrl_is_open s1 \<and> open_fds s1 = {wc_efd s1, wc_tfd s1} \<union> F" if "own (holds 1 event_users) F False {} s1" for s1
      using own_sign [OF that, of Ev] own_facts(1) [OF that] by (simp add: owfd_wpa_ctrl_is_open_def)
    have "wp (sbind (imod (\<lambda>i. i\<lparr>if_pid := 0\<rparr>)) (\<lambda>_. sret EP_QUIT)) (\<lambda>r s'. r = Ok EP_QUIT \<and> \<not> owfd_wpa_ctrl_is_open s' \<and>
        open_fds s' = {wc_efd s', wc_tfd s'} \<union> F \<and> if_pid (ifc s') = 0) s1" if "own (holds 1 event_users) F False {} s1" for s1
      using closed [OF that] by (cases s1) (simp add: wp_simps owfd_wpa_ctrl_is_open_def)
    then have "safe (obind (owfd_wpa_ctrl_close K) (\<lambda>_. olift (sbind (imod (\<lambda>i. i\<lparr>if_pid := 0\<rparr>)) (\<lambda>_. sret EP_QUIT)))) (\<lambda>r s'. r = Ok EP_QUIT \<and>
        \<not> owfd_wpa_ctrl_is_open s' \<and> open_fds s' = {wc_efd s', wc_tfd s'} \<union> F \<and> if_pid (ifc s') = 0) (tick K s)"
      by (intro safe_obindI [OF close_kept [OF i]]) (auto simp: next_simps safe_simps(1))
    then show ?thesis using True by (simp add: owfd_p2pd_interface_dispatch_chld_def safe_first wp_basic next_simps)
  next
    case False
    then have "if_pid (ifc s) \<le> 0 \<or> ?pid \<noteq> if_pid (ifc s)" by auto
    then show ?thesis using False by (simp add: owfd_p2pd_interface_dispatch_chld_def safe_first wp_basic next_simps safe_simps(1))
  qed
  show ?thesis
    using assms(3-5) fd chld
    by (auto simp: owfd_p2pd_dispatch_sfd_def sys_read_def sys_def sys_call_def sys_use_def obind_def olift_def sbind_def safe_def Let_def ev
      split: option.splits result.splits if_splits)
qed

definition exit_signal :: answer where
  "exit_signal = granted\<lparr>a_bytes := CHR 0x11 # replicate 11 NUL @ CHR 0x07 # replicate 115 NUL\<rparr>"

definition serving :: p2pd_interface where
  "serving = wpa_ctrl.extend wpa_fresh (two_users\<lparr>if_pid := 7\<rparr>)"

lemma serving_inv: "wpa_inv (holds 1 event_users) {0, 1, 2} False serving"
proof -
  have "users_are [(2, 2, 20), (1, 3, 30)] (two_users\<lparr>if_pid := 7\<rparr>)" using two_users_list by (simp add: users_are_def)
  then have "event_users (two_users\<lparr>if_pid := 7\<rparr>)" by (auto simp: event_users_def)
  with extend_inv [OF wpa_fresh_inv, of event_users] show ?thesis by (simp add: serving_def)
qed

lemma serving_fields: "ifc serving = two_users\<lparr>if_pid := 7\<rparr>" "open_fds serving = {0, 1, 2, 3, 4}" "ev_fd serving = - 1"
  by (auto simp: serving_def wpa_ctrl.defs wpa_fresh_eq)

lemma exit_signal_facts: "a_err exit_signal = None" "length (a_bytes exit_signal) = 128" "host_u32 (a_bytes exit_signal) 0 = 17" "host_u32 (a_bytes exit_signal) 12 = 7"
  by (simp_all add: exit_signal_def granted_fields host_u32_def nth_append)

theorem p2pd_signal_dispatch_witness:
  "\<exists>s'. owfd_p2pd_dispatch_sfd (\<lambda>_. exit_signal) 2 (2, EPOLLIN) serving = Some (s', Ok EP_QUIT) \<and> if_pid (ifc s') = 0"
proof -
  have "ends (owfd_p2pd_dispatch_sfd (\<lambda>_. exit_signal) 2 (2, EPOLLIN)) (\<lambda>r s'. True) serving"
    by (simp add: owfd_p2pd_dispatch_sfd_def owfd_p2pd_interface_dispatch_chld_def owfd_wpa_ctrl_close_def owfd_wpa_ctrl_is_open_def sys_read_def
      lop_simps wp_simps serving_fields exit_signal_facts)
  then obtain s' r where s': "owfd_p2pd_dispatch_sfd (\<lambda>_. exit_signal) 2 (2, EPOLLIN) serving = Some (s', r)" by (auto simp: ends_iff)
  from p2pd_signal_dispatch [OF serving_inv _ _ _ this] s' show ?thesis
    by (auto simp: exit_signal_facts serving_fields Let_def)
qed

end
