(* ===== verification/P2pd_Ends.thy ===== *)
theory P2pd_Ends
  imports P2pd Wpa_Ctrl_Time
begin

text \<open>
  The P2P daemon comes to an end: when every system call takes some time, requests, opening the channel, starting and stopping the supplicant
  return, whatever kernel, supplicant and peers do. Only the main loop may go on for ever.
\<close>

unbundle bit_operations_syntax

subsection \<open>Requests\<close>

definition takes_time :: "answers \<Rightarrow> bool" where
  "takes_time K \<longleftrightarrow> (\<forall>n. 1 \<le> a_time (K n))"

lemma now_tick_later: "takes_time K \<Longrightarrow> now_us s < now_us (tick K s)"
  by (simp add: tick_def takes_time_def Suc_le_eq)

text \<open>What has happened when a round comes to its end: either time has passed, or the round has failed.\<close>

definition later :: "int \<Rightarrow> 'a result \<Rightarrow> 'z wpa_ctrl_scheme \<Rightarrow> bool" where
  "later start r s \<longleftrightarrow> (is_ok r \<longrightarrow> start < int (now_us s))"

lemma later_simps: "later start (Ok x) s \<longleftrightarrow> start < int (now_us s)" "later start (Err e) s" "later start Fault s"
  by (simp_all add: later_def)

lemma wait_socket_later:
  assumes "takes_time K" and "start \<le> int (now_us s)"
  shows "wp (wait_socket K fd t) (later start) s"
proof -
  have "start < int (now_us (tick K (s\<lparr>now_us := now_us s + n\<rparr>)))" for n
    using now_tick_later [OF assms(1), of "s\<lparr>now_us := now_us s + n\<rparr>"] assms(2) by simp
  then show ?thesis
    by (auto simp: wait_socket_def wp_simps Let_def later_simps intro!: on_errorI split: list.split)
qed

lemma recalculate_decreases:
  assumes "start < int (now_us s)"
  shows "wp (recalculate start t finished x) (round_post (\<lambda>c s. start \<le> int (now_us s) \<and> nat (fst c) < nat t) (\<lambda>_ _. True)) s"
  using assms by (simp add: recalculate_def wp_simps Let_def)

text \<open>A round waits, tries something that takes no time back, and computes what is left of the timeout.\<close>

lemma round_decreases:
  fixes s :: "'a wpa_ctrl_scheme" and f :: "bool \<Rightarrow> ('a wpa_ctrl_scheme, 'y) op"
  assumes K: "takes_time K" and s: "start \<le> int (now_us s)"
    and body: "\<And>b s :: 'a wpa_ctrl_scheme. start < int (now_us s) \<Longrightarrow> wp (f b) (later start) s"
  shows "wp (sbind (wait_socket K fd t) (\<lambda>b. sbind (f b) (\<lambda>y. recalculate start t (g y) (h y))))
    (round_post (\<lambda>c s. start \<le> int (now_us s) \<and> nat (fst c) < nat t) (\<lambda>_ _. True)) s"
proof (rule wp_sbindI [OF wait_socket_later [OF K s]])
  fix r :: "bool result" and s' :: "'a wpa_ctrl_scheme"
  assume r: "later start r s'"
  show "andthen (\<lambda>b. sbind (f b) (\<lambda>y. recalculate start t (g y) (h y)))
      (round_post (\<lambda>c s. start \<le> int (now_us s) \<and> nat (fst c) < nat t) (\<lambda>_ _. True)) r s'"
  proof (cases r)
    case (Ok b)
    then have "wp (f b) (later start) s'" using r by (simp add: later_simps body)
    then have "wp (sbind (f b) (\<lambda>y. recalculate start t (g y) (h y)))
      (round_post (\<lambda>c s. start \<le> int (now_us s) \<and> nat (fst c) < nat t) (\<lambda>_ _. True)) s'"
    proof (rule wp_sbindI)
      fix r' :: "'y result" and s'' :: "'a wpa_ctrl_scheme"
      assume "later start r' s''"
      then show "andthen (\<lambda>y. recalculate start t (g y) (h y)) (round_post (\<lambda>c s. start \<le> int (now_us s) \<and> nat (fst c) < nat t) (\<lambda>_ _. True)) r' s''"
        by (cases r') (simp_all add: andthen_simps round_post_simps later_simps recalculate_decreases del: zless_nat_conj)
    qed
    then show ?thesis by (simp add: Ok andthen_simps)
  qed (simp_all add: andthen_simps round_post_simps)
qed

lemma later_tick:
  assumes "takes_time K" and "start < int (now_us s)"
  shows "start < int (now_us (tick K s))"
  using now_tick_later [OF assms(1), of s] assms(2) by simp

lemma send_body_later:
  assumes "takes_time K" and "start < int (now_us s)"
  shows "wp (if \<not> b then sret False
        else
          sbind (again (sys_write K fd cmd)) (\<lambda>l.
          case l of
            None \<Rightarrow> sret False
          | Some l \<Rightarrow>
              if l > 0 then sbind (smod (\<lambda>s. s\<lparr>wc_sent := wc_sent s @ [(fd, take l cmd)]\<rparr>)) (\<lambda>_. sret True) else sret False)) (later start) s"
  using later_tick [OF assms] assms(2)
  by (auto simp: again_def sys_write_def wp_simps later_simps intro!: on_errorI)

lemma recv_body_later:
  assumes "takes_time K" and "start < int (now_us s)"
  shows "wp (if \<not> b then sret None
        else
          sbind (again (sys_read K fd cap)) (\<lambda>bs.
          case bs of
            None \<Rightarrow> sret None
          | Some bs \<Rightarrow> if bs \<noteq> [] \<and> hd bs \<noteq> CHR ''<'' then sret (Some bs) else sret None)) (later start) s"
  using later_tick [OF assms] assms(2)
  by (auto simp: again_def sys_read_def wp_simps later_simps intro!: on_errorI)

lemma timed_loop_returns:
  fixes round :: "int \<Rightarrow> int \<times> 'c \<Rightarrow> ('z kernel_scheme, bool \<times> int \<times> 'c) op"
  assumes "\<And>start c s. start \<le> int (now_us s) \<Longrightarrow>
    wp (round start c) (round_post (\<lambda>c' s. start \<le> int (now_us s) \<and> nat (fst c') < nat (fst c)) (\<lambda>_ _. True)) s"
  shows "returns (obind (olift get_time_us) (\<lambda>start. until_done (\<lambda>c. olift (round start c)) c0))"
proof (rule returnsI)
  fix s :: "'z kernel_scheme"
  have "ends (until_done (\<lambda>c. olift (round (int (now_us s)) c)) c0) (\<lambda>_ _. True) s"
    by (rule until_done_ends [where I = "\<lambda>c s'. int (now_us s) \<le> int (now_us s')" and m = "\<lambda>c. nat (fst c)"])
      (simp_all only: ends_simps assms order_refl)
  then show "ends (obind (olift get_time_us) (\<lambda>start. until_done (\<lambda>c. olift (round start c)) c0)) (\<lambda>_ _. True) s"
    by (simp add: ends_simps wp_get_time_us next_simps)
qed

lemma timed_send_returns: "takes_time K \<Longrightarrow> returns (timed_send K fd cmd t)"
  unfolding timed_send_def send_round_def
  by (rule timed_loop_returns, rule round_decreases, assumption+, rule send_body_later)

lemma timed_recv_returns: "takes_time K \<Longrightarrow> returns (timed_recv K fd cap t)"
  unfolding timed_recv_def recv_round_def
  by (rule timed_loop_returns, rule round_decreases, assumption+, rule recv_body_later)

lemma wpa_request_returns [returning]: "takes_time K \<Longrightarrow> returns (wpa_request K fd cmd cap t)"
  unfolding wpa_request_def Let_def by (intro returning timed_send_returns timed_recv_returns)

lemma wpa_request_ok_returns [returning]: "takes_time K \<Longrightarrow> returns (wpa_request_ok K fd cmd t)"
  unfolding wpa_request_ok_def by (intro returning)

subsection \<open>The channel\<close>

lemma detach_returns [returning]: "takes_time K \<Longrightarrow> returns (detach K)"
  unfolding detach_def by (intro returning)

lemma open_returns [returning]: "takes_time K \<Longrightarrow> returns (owfd_wpa_ctrl_open K ctrl_path h)"
  unfolding owfd_wpa_ctrl_open_def by (intro returning)

lemma close_returns [returning]: "takes_time K \<Longrightarrow> returns (owfd_wpa_ctrl_close K)"
  unfolding owfd_wpa_ctrl_close_def by (intro returning)

lemma unref_returns [returning]: "takes_time K \<Longrightarrow> returns (owfd_wpa_ctrl_unref K)"
  unfolding owfd_wpa_ctrl_unref_def by (intro returning)

lemma request_returns [returning]: "takes_time K \<Longrightarrow> returns (owfd_wpa_ctrl_request K cmd cap t)"
  unfolding owfd_wpa_ctrl_request_def Let_def by (intro returning)

lemma request_ok_returns [returning]: "takes_time K \<Longrightarrow> returns (owfd_wpa_ctrl_request_ok K cmd t)"
  unfolding owfd_wpa_ctrl_request_ok_def by (intro returning)

subsection \<open>The interface\<close>

text \<open>What is left of the timeout of the start becomes less with every round, or is zero.\<close>

lemma poll_startup_decreases:
  assumes "takes_time K"
  shows "wp (poll_startup K fd t) (\<lambda>r s'. \<forall>t'. r = Ok t' \<longrightarrow> t' < t \<or> t' = 0) s"
proof -
  have passed: "int (now_us s) < int (now_us (tick K (s\<lparr>now_us := now_us s + n\<rparr>)))" for n
    using now_tick_later [OF assms, of "s\<lparr>now_us := now_us s + n\<rparr>"] by simp
  then have "max 0 (t - (int (now_us (tick K (s\<lparr>now_us := now_us s + n\<rparr>))) - int (now_us s))) < t \<or>
      max 0 (t - (int (now_us (tick K (s\<lparr>now_us := now_us s + n\<rparr>))) - int (now_us s))) = 0" for n
    using passed [of n] by (simp add: max_def)
  then show ?thesis
    by (auto simp: poll_startup_def wp_simps Let_def intro!: on_errorI split: list.split)
qed

lemma drain_and_check_goes_on: "wp (drain_and_check K fd t) (round_post (\<lambda>t' s'. t' = t \<and> 0 < t) (\<lambda>_ _. True)) s"
  by (auto simp: drain_and_check_def sys_read_def wp_simps round_post_simps intro!: on_errorI)

lemma verify_child_any: "wp (verify_child K) (\<lambda>_ _. True) s"
  by (simp add: wp_iff)

definition shorter :: "int \<Rightarrow> int \<Rightarrow> p2pd_interface \<Rightarrow> bool" where
  "shorter t t' s \<longleftrightarrow> nat t' < nat t"

lemma round_shorter:
  assumes "takes_time K"
    and "\<And>t' s. t' < t \<or> t' = 0 \<Longrightarrow> ends (f t') (round_post (shorter t) (\<lambda>_ _. True)) s"
  shows "ends (obind (olift (sbind (poll_startup K fd t) (\<lambda>t. sbind (verify_child K) (\<lambda>_. sret t)))) f) (round_post (shorter t) (\<lambda>_ _. True)) s"
proof -
  have "wp (sbind (poll_startup K fd t) (\<lambda>t. sbind (verify_child K) (\<lambda>_. sret t))) (\<lambda>r s'. \<forall>t'. r = Ok t' \<longrightarrow> t' < t \<or> t' = 0) s"
    by (rule wp_sbindI [OF poll_startup_decreases [OF assms(1)]])
      (auto simp: andthen_def wp_basic intro!: wp_sbindI [OF verify_child_any] split: result.splits)
  then show ?thesis unfolding ends_simps(2)
    by (auto simp: ends_simps(1) next_ends_def round_post_simps assms(2) elim!: wp_mono split: result.splits)
qed

lemma check_shorter: "t' < t \<or> t' = 0 \<Longrightarrow> ends (olift (drain_and_check K fd t')) (round_post (shorter t) (\<lambda>_ _. True)) s"
  unfolding ends_simps(1)
  by (rule wp_mono [OF drain_and_check_goes_on]) (auto simp: round_post_def shorter_def split: result.splits)

lemma shorter_loop_returns:
  assumes "\<And>t s. ends (round t) (round_post (shorter t) (\<lambda>_ _. True)) s"
  shows "returns (until_done round t)"
  by (rule returnsI, rule until_done_ends [where I = "\<lambda>_ _. True" and m = nat])
    (use assms in \<open>simp_all add: shorter_def [abs_def] del: zless_nat_conj\<close>)

lemma wait_file_returns: "takes_time K \<Longrightarrow> returns (until_done (wait_file_round K fd) t)"
proof (rule shorter_loop_returns)
  fix t and s :: p2pd_interface
  assume K: "takes_time K"
  have "wait_file_round K fd t = obind (olift (sbind (poll_startup K fd t) (\<lambda>t. sbind (verify_child K) (\<lambda>_. sret t)))) (\<lambda>t.
      olift (sbind (attempt (sys K)) (\<lambda>r. case r of Inr _ \<Rightarrow> sret (True, t) | Inl _ \<Rightarrow> drain_and_check K fd t)))"
    by (auto simp: wait_file_round_def fun_eq_iff obind_def olift_def sbind_def split: prod.splits result.splits)
  moreover have "ends (olift (sbind (attempt (sys K)) (\<lambda>r. case r of Inr _ \<Rightarrow> sret (True, t') | Inl _ \<Rightarrow> drain_and_check K fd t')))
      (round_post (shorter t) (\<lambda>_ _. True)) s'" if "t' < t \<or> t' = 0" for t' s'
    using check_shorter [OF that] by (auto simp: ends_simps wp_simps intro!: on_errorI)
  ultimately show "ends (wait_file_round K fd t) (round_post (shorter t) (\<lambda>_ _. True)) s"
    using round_shorter [OF K] by presburger
qed

lemma wait_open_returns: "takes_time K \<Longrightarrow> returns (until_done (wait_open_round K fd file) t)"
proof (rule shorter_loop_returns)
  fix t and s :: p2pd_interface
  assume K: "takes_time K"
  show "ends (wait_open_round K fd file t) (round_post (shorter t) (\<lambda>_ _. True)) s"
    unfolding wait_open_round_def
  proof (rule round_shorter [OF K])
    fix t' and s :: p2pd_interface
    assume "t' < t \<or> t' = 0"
    note check = check_shorter [OF this]
    have "ends (oattempt (owfd_wpa_ctrl_open K file (Some 1))) (\<lambda>_ _. True) s"
      by (rule returnsD) (intro returning K)
    then show "ends (obind (oattempt (owfd_wpa_ctrl_open K file (Some 1))) (\<lambda>r. case r of Inr _ \<Rightarrow> olift (sret (True, t')) | Inl _ \<Rightarrow> olift (drain_and_check K fd t')))
        (round_post (shorter t) (\<lambda>_ _. True)) s"
      unfolding ends_simps(2)
      by (rule ends_mono) (auto simp: next_ends_def check [unfolded ends_simps(1)] ends_simps(1) wp_basic round_post_simps simp del: One_nat_def split: result.splits sum.splits)
  qed
qed

lemma wait_for_wpa_returns [returning]: "takes_time K \<Longrightarrow> returns (wait_for_wpa K file)"
  unfolding wait_for_wpa_def close_after_def by (intro returning wait_file_returns wait_open_returns)

lemma wpa_setup_returns [returning]:
  assumes "takes_time K"
  shows "returns (wpa_setup K)"
proof -
  have "returns (set_all K reqs)" for reqs
    by (induction reqs) (auto simp: set_all_def if_wpa_request_ok_def intro!: returning assms)
  then show ?thesis unfolding wpa_setup_def if_wpa_request_def by (intro returning assms)
qed

lemma fork_wpa_returns [returning]: "takes_time K \<Longrightarrow> returns (fork_wpa K)"
  unfolding fork_wpa_def Let_def by (intro returning)

lemma kill_wpa_returns [returning]: "takes_time K \<Longrightarrow> returns (kill_wpa K)"
  unfolding kill_wpa_def Let_def by (intro returning)

lemma teardown_returns [returning]: "takes_time K \<Longrightarrow> returns (teardown K)"
  unfolding teardown_def by (intro returning)

lemma interface_new_returns:
  assumes "takes_time K"
  shows "owfd_p2pd_interface_new K mem mem' conf efd cs k \<noteq> Inr None"
proof -
  have "returns (obind (olift (owfd_wpa_ctrl_set_data 1)) (\<lambda>_.
      obind (oattempt (
        obind (fork_wpa K) (\<lambda>_.
        obind (olift (sget wc_efd)) (\<lambda>fd.
        obind (olift (imod (\<lambda>i. i\<lparr>if_wpa_fd := fd\<rparr>))) (\<lambda>_.
        olift (owfd_p2pd_ep_add K efd fd)))))) (\<lambda>r.
      case r of
        Inr _ \<Rightarrow> olift (sret ())
      | Inl e \<Rightarrow> obind (teardown K) (\<lambda>_. olift (serr e)))))"
    by (intro returning assms)
  then show ?thesis
    by (auto simp: owfd_p2pd_interface_new_def Let_def returns_def split: prod.splits result.splits simp del: One_nat_def)
qed

lemma free_ends:
  assumes K: "takes_time K"
  shows "users_are us (ifc s) \<Longrightarrow> owfd_p2pd_interface_free K s \<noteq> None"
proof -
  assume u: "users_are us (ifc s)"
  then have "ends (until_done (\<lambda>c. olift (free_round c)) ()) (\<lambda>_ _. True) s"
  proof (induction us arbitrary: s)
    case Nil
    then show ?case
      using shl_dlist_empty_correct [of "if_heap (ifc s)" "if_head (ifc s)" "[]"]
      by (subst until_done_unroll) (simp add: ends_simps free_round_def wp_simps users_are_def)
  next
    case (Cons e us)
    show ?case
      by (subst until_done_unroll, unfold ends_simps, rule wp_mono [OF free_round_users [OF Cons.prems]])
        (use Cons.IH in \<open>auto simp: round_post_simps\<close>)
  qed
  then have "ends (owfd_p2pd_interface_free K) (\<lambda>_ _. True) s"
    unfolding owfd_p2pd_interface_free_def ends_simps(2)
    by (rule ends_mono) (auto simp: next_ends_def returnsD [OF teardown_returns [OF K]] split: result.splits)
  then show ?thesis by (auto simp: ends_iff)
qed

lemma down_ends:
  assumes K: "takes_time K" and i: "served F s"
  shows "owfd_p2pd_teardown K d efd sfd s \<noteq> None"
proof -
  obtain us where us: "users_are us (ifc s)" using inv_holds [OF i] by (auto simp: event_users_def)
  have free: "ends (obind (owfd_p2pd_interface_free K) (\<lambda>_. olift (close_both efd sfd))) (\<lambda>_ _. True) s'" if "users_are us' (ifc s')" for us' s'
  proof -
    have "ends (owfd_p2pd_interface_free K) (\<lambda>_ _. True) s'" using free_ends [OF K that] by (auto simp: ends_iff)
    then show ?thesis unfolding ends_simps(2) by (rule ends_mono) (auto simp: next_ends_def ends_simps(1) wp_iff split: result.splits)
  qed
  have "ends (owfd_p2pd_teardown K d efd sfd) (\<lambda>_ _. True) s"
  proof (cases d)
    case None
    then show ?thesis using free [OF us] by (simp add: owfd_p2pd_teardown_def ends_simps wp_basic next_simps)
  next
    case (Some data)
    show ?thesis unfolding owfd_p2pd_teardown_def Some option.case owfd_p2pd_dummy_free_def ends_simps(2) [of "owfd_p2pd_interface_unregister_event_fn _ _"]
      by (rule ends_mono [OF unregister_users [OF us]]) (auto simp: next_simps free)
  qed
  then show ?thesis by (auto simp: ends_iff)
qed

subsection \<open>The daemon\<close>

lemma with_interface_ends:
  assumes K: "answers_ok K" "takes_time K" and M: "\<forall>n. allocator_ok (M n)" and i: "wpa_inv (holds 1 (users_are [])) ({efd, sfd} \<union> F) False s"
    and none: "with_interface K M dummy efd sfd s = None"
  shows "\<exists>s'. served ({efd, sfd} \<union> F) s' \<and> owfd_p2pd_run K M dummy_users efd sfd s' = None"
proof -
  let ?F = "{efd, sfd} \<union> F"
  obtain r s1 where new: "owfd_p2pd_dummy_new K dummy s = (s1, r)" by (metis surj_pair)
  then have s1: "r \<noteq> Fault" "served ?F s1" using served_register [OF i, of K dummy] by (auto simp: wp_iff)
  show ?thesis
  proof (rule ccontr)
    assume "\<not> ?thesis"
    then obtain s2 r2 where run: "owfd_p2pd_run K M dummy_users efd sfd s1 = Some (s2, r2)" using s1(2) by (cases "owfd_p2pd_run K M dummy_users efd sfd s1") auto
    then have "r2 \<noteq> Fault" "served ?F s2" using run_served [OF K(1) dummy_users_polite M s1(2), of efd sfd] by (auto simp: safe_iff)
    then show False
      using none new run s1(1) down_ends [OF K(2) s1(2), of None efd sfd] down_ends [OF K(2), of ?F s2 "Some dummy" efd sfd]
      by (cases r; cases r2) (auto simp: with_interface_def obind_def olift_def attempt_def oattempt_def split: option.splits result.splits)
  qed
qed

text \<open>
  C17: The daemon comes to an end. When every system call takes some time, however little, creating the interface returns: none of its waits, requests
  and retries can go on for ever. And when the whole daemon does not return, then it is
  its main loop that goes on for ever, in a good state: starting and stopping always return.
\<close>

theorem p2pd_returns:
  assumes "answers_ok K" and "takes_time K" and "\<forall>n. allocator_ok (M n)"
    and "\<forall>fd\<in>open_fds k. fd < next_fd k" and "0 \<le> next_fd k" and "interest k = Map.empty"
  shows "owfd_p2pd_interface_new K mem mem' conf efd cs k \<noteq> Inr None \<and>
    (owfd_p2pd_main K M strs mem mem' bindir opts unparsed cs dummy k = None \<longrightarrow>
      (\<exists>s efd sfd F. served ({efd, sfd} \<union> F) s \<and> owfd_p2pd_run K M dummy_users efd sfd s = None))"
proof (intro conjI impI)
  show "owfd_p2pd_interface_new K mem mem' conf efd cs k \<noteq> Inr None" by (rule interface_new_returns [OF assms(2)])
next
  assume none: "owfd_p2pd_main K M strs mem mem' bindir opts unparsed cs dummy k = None"
  obtain conf strs' x where p: "owfd_p2pd_parse_argv bindir opts unparsed (owfd_p2pd_init_config, strs) = ((conf, strs'), x)" by (metis surj_pair)
  obtain k1 y where up: "setup_descriptors K k = (k1, y)" by (rule prod.exhaust)
  note spec = setup_descriptors_spec [OF assms(4), of K, unfolded wp_iff up fst_conv snd_conv]
  from none p up obtain efd sfd where y: "y = Ok (efd, sfd)"
    by (cases x; cases y) (auto simp: owfd_p2pd_main_def setup_and_run_def)
  note d = spec [unfolded y result.case prod.case]
  have k1: "\<forall>fd\<in>open_fds k1. fd < next_fd k1" "0 \<le> next_fd k1" "interest k1 = Map.empty" "efd \<in> open_fds k1" using d assms(5,6) by auto
  have F: "open_fds k1 = {efd, sfd} \<union> open_fds k" using d by auto
  from none p up y obtain conf' s2 u where new: "owfd_p2pd_interface_new K mem mem' conf' efd cs k1 = Inr (Some (s2, Ok u))"
      and run: "with_interface K M dummy efd sfd s2 = None"
    using interface_new_returns [OF assms(2), of mem mem' _ efd cs k1]
    by (cases x) (auto simp: owfd_p2pd_main_def setup_and_run_def split: result.splits sum.splits option.splits prod.splits)
  have "wpa_inv (holds 1 running) ({efd, sfd} \<union> open_fds k) False s2"
    using owfd_p2pd_interface_new_spec [OF assms(1) k1 new, unfolded F] by (simp add: own_inv)
  from with_interface_ends [OF assms(1-3) started_users [OF running_started [OF this]] run]
  show "\<exists>s efd sfd F. served ({efd, sfd} \<union> F) s \<and> owfd_p2pd_run K M dummy_users efd sfd s = None" by blast
qed

theorem p2pd_returns_witness:
  "owfd_p2pd_interface_new (\<lambda>_. granted) True True demo_conf 0 {} wpa_kernel \<noteq> Inr None"
proof -
  have "takes_time (\<lambda>_. granted)" by (simp add: takes_time_def granted_fields)
  from p2pd_returns [OF granted_ok this, of "\<lambda>_ _. demo_alloc" wpa_kernel] show ?thesis
    by (simp add: demo_allocator_ok wpa_kernel_def)
qed

end
