(* ===== verification/Byte_Order.thy ===== *)
theory Byte_Order
  imports Prelude
begin

text \<open>
  Byte order: the accessors of \<open>src/gdhcp/unaligned.h\<close> on a little-endian host, and \<open>htonl\<close>,
  \<open>ntohl\<close>, \<open>htons\<close> and \<open>ntohs\<close>, which swap bytes there. A structure field holds the word the host
  loads; what goes over the wire are its bytes in memory order.
\<close>

unbundle bit_operations_syntax

definition bswap_32 :: "u32 \<Rightarrow> u32" where
  "bswap_32 w =
     push_bit 24 (take_bit 8 w) OR push_bit 16 (take_bit 8 (drop_bit 8 w)) OR
     push_bit 8 (take_bit 8 (drop_bit 16 w)) OR take_bit 8 (drop_bit 24 w)"

definition bswap_16 :: "u16 \<Rightarrow> u16" where
  "bswap_16 w = push_bit 8 (take_bit 8 w) OR take_bit 8 (drop_bit 8 w)"

text \<open>The bytes of a word in memory, and the word at an address.\<close>

definition bytes_32 :: "u32 \<Rightarrow> u8 list" where
  "bytes_32 w = [ucast w, ucast (drop_bit 8 w), ucast (drop_bit 16 w), ucast (drop_bit 24 w)]"

definition bytes_16 :: "u16 \<Rightarrow> u8 list" where
  "bytes_16 w = [ucast w, ucast (drop_bit 8 w)]"

definition word_32 :: "u8 list \<Rightarrow> u32" where
  "word_32 b =
     ucast (b ! 0) OR push_bit 8 (ucast (b ! 1)) OR push_bit 16 (ucast (b ! 2)) OR push_bit 24 (ucast (b ! 3))"

definition word_16 :: "u8 list \<Rightarrow> u16" where
  "word_16 b = ucast (b ! 0) OR push_bit 8 (ucast (b ! 1))"

definition mem_slice :: "'a list \<Rightarrow> nat \<Rightarrow> nat \<Rightarrow> 'a list result" where
  "mem_slice m off n = (if off + n \<le> length m then Ok (take n (drop off m)) else Fault)"

definition get_le32 :: "u8 list \<Rightarrow> nat \<Rightarrow> u32 result" where
  "get_le32 m off = rbind (mem_slice m off 4) (\<lambda>b. Ok (word_32 b))"

definition get_be32 :: "u8 list \<Rightarrow> nat \<Rightarrow> u32 result" where
  "get_be32 m off = rbind (mem_slice m off 4) (\<lambda>b. Ok (bswap_32 (word_32 b)))"

definition get_le16 :: "u8 list \<Rightarrow> nat \<Rightarrow> u16 result" where
  "get_le16 m off = rbind (mem_slice m off 2) (\<lambda>b. Ok (word_16 b))"

definition get_be16 :: "u8 list \<Rightarrow> nat \<Rightarrow> u16 result" where
  "get_be16 m off = rbind (mem_slice m off 2) (\<lambda>b. Ok (bswap_16 (word_16 b)))"

definition put_be32 :: "u32 \<Rightarrow> u8 list" where
  "put_be32 v = bytes_32 (bswap_32 v)"

definition put_be16 :: "u16 \<Rightarrow> u8 list" where
  "put_be16 v = bytes_16 (bswap_16 v)"

definition put_le32 :: "u32 \<Rightarrow> u8 list" where
  "put_le32 v = bytes_32 v"

definition put_le16 :: "u16 \<Rightarrow> u8 list" where
  "put_le16 v = bytes_16 v"

abbreviation ntohl :: "u32 \<Rightarrow> u32" where "ntohl \<equiv> bswap_32"
abbreviation htonl :: "u32 \<Rightarrow> u32" where "htonl \<equiv> bswap_32"
abbreviation htons :: "u16 \<Rightarrow> u16" where "htons \<equiv> bswap_16"
abbreviation ntohs :: "u16 \<Rightarrow> u16" where "ntohs \<equiv> bswap_16"

subsection \<open>Round trips\<close>

lemma bit_bswap_32:
  "bit (bswap_32 w) n \<longleftrightarrow>
     (if n < 8 then bit w (n + 24) else if n < 16 then bit w (n + 8)
      else if n < 24 then bit w (n - 8) else n < 32 \<and> bit w (n - 24))"
  by (auto simp: bswap_32_def bit_simps ac_simps dest: bit_imp_le_length)

lemma bswap_32_involution [simp]: "bswap_32 (bswap_32 w) = w"
  by (rule bit_word_eqI) (auto simp: bit_bswap_32)

lemma bswap_32_eq_iff [simp]: "bswap_32 a = bswap_32 b \<longleftrightarrow> a = b"
  by (metis bswap_32_involution)

lemma bswap_32_eq_0 [simp]: "bswap_32 w = 0 \<longleftrightarrow> w = 0"
proof -
  have "bswap_32 0 = 0" by (simp add: bswap_32_def)
  then show ?thesis by (metis bswap_32_involution)
qed

lemma bit_bswap_16:
  "bit (bswap_16 w) n \<longleftrightarrow> (if n < 8 then bit w (n + 8) else n < 16 \<and> bit w (n - 8))"
  by (auto simp: bswap_16_def bit_simps ac_simps dest: bit_imp_le_length)

lemma bswap_16_involution [simp]: "bswap_16 (bswap_16 w) = w"
  by (rule bit_word_eqI) (auto simp: bit_bswap_16)

lemma word_32_bytes [simp]: "word_32 (bytes_32 w) = w"
proof (rule bit_word_eqI)
  fix n
  assume "n < LENGTH(32)"
  then consider "n < 8" | "8 \<le> n" "n < 16" | "16 \<le> n" "n < 24" | "24 \<le> n" "n < 32" by fastforce
  then show "bit (word_32 (bytes_32 w)) n \<longleftrightarrow> bit w n"
    by cases (auto simp: word_32_def bytes_32_def bit_simps)
qed

lemma word_16_bytes [simp]: "word_16 (bytes_16 w) = w"
  by (rule bit_word_eqI) (auto simp: word_16_def bytes_16_def bit_simps)

lemma length_bytes [simp]: "length (bytes_32 w) = 4" "length (bytes_16 v) = 2"
  by (simp_all add: bytes_32_def bytes_16_def)

lemma length_put [simp]: "length (put_be32 v) = 4" "length (put_be16 u) = 2"
  by (simp_all add: put_be32_def put_be16_def)

lemma get_put_be32: "get_be32 (pre @ put_be32 v @ post) (length pre) = Ok v"
  by (simp add: get_be32_def mem_slice_def put_be32_def)

lemma get_put_be16: "get_be16 (pre @ put_be16 v @ post) (length pre) = Ok v"
  by (simp add: get_be16_def mem_slice_def put_be16_def)

lemma get_put_le32: "get_le32 (pre @ put_le32 v @ post) (length pre) = Ok v"
  by (simp add: get_le32_def mem_slice_def put_le32_def)

lemma get_put_le16: "get_le16 (pre @ put_le16 v @ post) (length pre) = Ok v"
  by (simp add: get_le16_def mem_slice_def put_le16_def)

end
