(* ===== verification/Dhcp_Common.thy ===== *)
theory Dhcp_Common
  imports Byte_Order
begin

text \<open>
  The packet functions of \<open>src/gdhcp/common.c\<close> and \<open>src/gdhcp/common.h\<close>: the DHCP packet, reading
  and adding options, the header of a new packet, reception, and the Internet checksum; and the
  option functions for DHCPv6.

  Options are read by pointer from the packed structure, so a read is checked against the bytes from
  \<open>sname\<close> to the end of \<open>options\<close>. The loop of \<open>dhcp_get_option\<close> need not end, so it is a partial
  function into \<open>option\<close>: \<open>None\<close> is a run that never returns.
\<close>

unbundle bit_operations_syntax

subsection \<open>Packets\<close>

record dhcp_packet =
  op :: u8
  htype :: u8
  hlen :: u8
  hops :: u8
  xid :: u32
  secs :: u16
  flags :: u16
  ciaddr :: u32
  yiaddr :: u32
  siaddr_nip :: u32
  gateway_nip :: u32
  chaddr :: "u8 list"
  sname :: "u8 list"
  pfile :: "u8 list"
  cookie :: u32
  options :: "u8 list"

abbreviation (input) DHCP_PADDING :: u8 where "DHCP_PADDING \<equiv> 0x00"
abbreviation (input) DHCP_LEASE_TIME :: u8 where "DHCP_LEASE_TIME \<equiv> 0x33"
abbreviation (input) DHCP_OPTION_OVERLOAD :: u8 where "DHCP_OPTION_OVERLOAD \<equiv> 0x34"
abbreviation (input) DHCP_MESSAGE_TYPE :: u8 where "DHCP_MESSAGE_TYPE \<equiv> 0x35"
abbreviation (input) DHCP_SERVER_ID :: u8 where "DHCP_SERVER_ID \<equiv> 0x36"
abbreviation (input) DHCP_REQUESTED_IP :: u8 where "DHCP_REQUESTED_IP \<equiv> 0x32"
abbreviation (input) DHCP_VENDOR :: u8 where "DHCP_VENDOR \<equiv> 0x3c"
abbreviation (input) DHCP_END :: u8 where "DHCP_END \<equiv> 0xff"

abbreviation (input) DHCPDISCOVER :: u8 where "DHCPDISCOVER \<equiv> 1"
abbreviation (input) DHCPOFFER :: u8 where "DHCPOFFER \<equiv> 2"
abbreviation (input) DHCPREQUEST :: u8 where "DHCPREQUEST \<equiv> 3"
abbreviation (input) DHCPDECLINE :: u8 where "DHCPDECLINE \<equiv> 4"
abbreviation (input) DHCPACK :: u8 where "DHCPACK \<equiv> 5"
abbreviation (input) DHCPNAK :: u8 where "DHCPNAK \<equiv> 6"
abbreviation (input) DHCPRELEASE :: u8 where "DHCPRELEASE \<equiv> 7"
abbreviation (input) DHCPINFORM :: u8 where "DHCPINFORM \<equiv> 8"

abbreviation (input) BOOTREQUEST :: u8 where "BOOTREQUEST \<equiv> 1"
abbreviation (input) BOOTREPLY :: u8 where "BOOTREPLY \<equiv> 2"
abbreviation (input) DHCP_MAGIC :: u32 where "DHCP_MAGIC \<equiv> 0x63825363"
abbreviation (input) BROADCAST_FLAG :: u16 where "BROADCAST_FLAG \<equiv> 0x8000"

text \<open>The arrays have the sizes of the structure.\<close>

definition packet_ok :: "dhcp_packet \<Rightarrow> bool" where
  "packet_ok p \<longleftrightarrow> length (chaddr p) = 16 \<and> length (sname p) = 64 \<and> length (pfile p) = 128 \<and>
     length (options p) = 388"

text \<open>
  The tail of the packed structure: \<open>sname\<close> is at offset 0, \<open>file\<close> at 64, \<open>cookie\<close> at 192 and
  \<open>options\<close> at 196.
\<close>

definition opt_mem :: "dhcp_packet \<Rightarrow> u8 list" where
  "opt_mem p = sname p @ pfile p @ bytes_32 (cookie p) @ options p"

subsection \<open>Option types\<close>

datatype option_type = OPTION_UNKNOWN | OPTION_IP | OPTION_STRING | OPTION_U8 | OPTION_U16 | OPTION_U32

text \<open>Type, list flag and code; the terminating entry has code 0.\<close>

definition client_options :: "(option_type \<times> bool \<times> u8) list" where
  "client_options =
     [(OPTION_IP, False, 0x01), (OPTION_IP, True, 0x03), (OPTION_IP, True, 0x06),
      (OPTION_STRING, False, 0x0c), (OPTION_STRING, False, 0x0f), (OPTION_IP, True, 0x2a),
      (OPTION_U32, False, 0x33), (OPTION_IP, False, 0x32), (OPTION_U8, False, 0x35),
      (OPTION_U32, False, 0x36), (OPTION_U16, False, 0x39), (OPTION_STRING, False, 0x3c),
      (OPTION_STRING, False, 0x3d), (OPTION_STRING, False, 0xfc), (OPTION_UNKNOWN, False, 0x00)]"

fun code_type_loop :: "(option_type \<times> bool \<times> u8) list \<Rightarrow> u8 \<Rightarrow> option_type \<times> bool" where
  "code_type_loop [] code = (OPTION_UNKNOWN, False)"
| "code_type_loop ((t, l, c) # os) code =
     (if c = 0 then (OPTION_UNKNOWN, False) else if c = code then (t, l) else code_type_loop os code)"

definition dhcp_get_code_type :: "u8 \<Rightarrow> option_type \<times> bool" where
  "dhcp_get_code_type code = code_type_loop client_options code"

text \<open>\<open>OPTION_UNKNOWN\<close> has no entry of its own in the array of lengths, so its length is 0.\<close>

fun dhcp_option_lengths :: "option_type \<Rightarrow> nat" where
  "dhcp_option_lengths OPTION_UNKNOWN = 0"
| "dhcp_option_lengths OPTION_IP = 4"
| "dhcp_option_lengths OPTION_STRING = 1"
| "dhcp_option_lengths OPTION_U8 = 1"
| "dhcp_option_lengths OPTION_U16 = 2"
| "dhcp_option_lengths OPTION_U32 = 4"

definition check_option :: "u8 \<Rightarrow> nat \<Rightarrow> option_type \<times> bool" where
  "check_option code data_len =
     (let type = dhcp_get_code_type code
      in if type = (OPTION_UNKNOWN, False) then type
         else if dhcp_option_lengths (fst type) \<noteq> data_len then (OPTION_UNKNOWN, False)
         else type)"

subsection \<open>Reading options\<close>

partial_function (option) get_option_loop ::
    "u8 list \<Rightarrow> u8 \<Rightarrow> nat \<Rightarrow> int \<Rightarrow> u8 \<Rightarrow> nat option result option" where
  "get_option_loop m code off rem overload =
     (if rem \<le> 0 then Some (Ok None)
      else if \<not> off < length m then Some Fault
      else if m ! off = DHCP_PADDING then get_option_loop m code (off + 1) (rem - 1) overload
      else if m ! off = DHCP_END then
        if overload AND 1 \<noteq> 0 then get_option_loop m code 64 128 (overload AND NOT 1)
        else if overload AND 2 \<noteq> 0 then get_option_loop m code 0 64 (overload AND NOT 2)
        else Some (Ok None)
      else if \<not> off + 1 < length m then Some Fault
      else
        let len = 2 + unat (m ! (off + 1)); rem = rem - int len
        in if rem < 0 then get_option_loop m code off rem overload
           else if m ! off = code then Some (Ok (Some (off + 2)))
           else if m ! off = DHCP_OPTION_OVERLOAD then
             if \<not> off + 2 < length m then Some Fault
             else get_option_loop m code (off + len) rem (overload OR m ! (off + 2))
           else get_option_loop m code (off + len) rem overload)"

text \<open>The result is the address of the option's data, as an offset of \<open>opt_mem\<close>.\<close>

definition dhcp_get_option :: "dhcp_packet \<Rightarrow> u8 \<Rightarrow> nat option result option" where
  "dhcp_get_option p code = get_option_loop (opt_mem p) code 196 388 0"

text \<open>The big-endian word at an option's data, where the option is present.\<close>

definition get_u32_option :: "dhcp_packet \<Rightarrow> u8 \<Rightarrow> u32 option result option" where
  "get_u32_option p code =
     map_option (\<lambda>r. rbind r (\<lambda>a.
       case a of None \<Rightarrow> Ok None | Some a \<Rightarrow> rbind (get_be32 (opt_mem p) a) (\<lambda>v. Ok (Some v))))
       (dhcp_get_option p code)"

text \<open>
  Going on after a step that may not return: \<open>s\<close> is the state, which the step leaves alone.
\<close>

definition scan :: "'s \<Rightarrow> 'a result option \<Rightarrow> ('a \<Rightarrow> ('s \<times> 'b result) option) \<Rightarrow> ('s \<times> 'b result) option" where
  "scan s r f =
     (case r of
        None \<Rightarrow> None
      | Some (Ok x) \<Rightarrow> f x
      | Some (Err e) \<Rightarrow> Some (s, Err e)
      | Some Fault \<Rightarrow> Some (s, Fault))"

function end_option_loop :: "u8 list \<Rightarrow> nat \<Rightarrow> nat result" where
  "end_option_loop m i =
     (if \<not> i < length m then Fault
      else if m ! i = DHCP_END then Ok i
      else if m ! i \<noteq> DHCP_PADDING then
        if \<not> i + 1 < length m then Fault
        else end_option_loop m (i + unat (m ! (i + 1)) + 2 - 1 + 1)
      else end_option_loop m (i + 1))"
  by pat_completeness auto
termination
  by (relation "measure (\<lambda>(m, i). length m - i)") auto

declare end_option_loop.simps [simp del]

definition dhcp_end_option :: "u8 list \<Rightarrow> nat result" where
  "dhcp_end_option optionptr = end_option_loop optionptr 0"

subsection \<open>Adding options\<close>

definition dhcp_add_binary_option :: "dhcp_packet \<Rightarrow> u8 list \<Rightarrow> dhcp_packet result" where
  "dhcp_add_binary_option p addopt =
     rbind (dhcp_end_option (options p)) (\<lambda>end_pos.
     rbind (mem_read addopt 1) (\<lambda>l.
     let len = 2 + unat l
     in if end_pos + len + 1 \<ge> 308 then Ok p
        else
          rbind (memcpy (options p) end_pos addopt 0 len) (\<lambda>b.
          rbind (mem_write b (end_pos + len) DHCP_END) (\<lambda>b.
          Ok (p\<lparr>options := b\<rparr>)))))"

text \<open>The local array has six bytes; those behind the option are never read.\<close>

definition dhcp_add_option_uint32 :: "dhcp_packet \<Rightarrow> u8 \<Rightarrow> u32 \<Rightarrow> dhcp_packet result" where
  "dhcp_add_option_uint32 p code data =
     (if fst (check_option code 4) = OPTION_UNKNOWN then Ok p
      else dhcp_add_binary_option p (code # 4 # put_be32 data))"

definition dhcp_add_option_uint16 :: "dhcp_packet \<Rightarrow> u8 \<Rightarrow> u16 \<Rightarrow> dhcp_packet result" where
  "dhcp_add_option_uint16 p code data =
     (if fst (check_option code 2) = OPTION_UNKNOWN then Ok p
      else dhcp_add_binary_option p (code # 2 # put_be16 data @ [0, 0]))"

definition dhcp_add_option_uint8 :: "dhcp_packet \<Rightarrow> u8 \<Rightarrow> u8 \<Rightarrow> dhcp_packet result" where
  "dhcp_add_option_uint8 p code data =
     (if fst (check_option code 1) = OPTION_UNKNOWN then Ok p
      else dhcp_add_binary_option p [code, 1, data, 0, 0, 0])"

definition dhcp_init_header :: "u8 \<Rightarrow> dhcp_packet result" where
  "dhcp_init_header type =
     dhcp_add_option_uint8
       \<lparr>op = (if type = DHCPOFFER \<or> type = DHCPACK \<or> type = DHCPNAK then BOOTREPLY else BOOTREQUEST),
        htype = 1, hlen = 6, hops = 0, xid = 0, secs = 0, flags = 0, ciaddr = 0, yiaddr = 0,
        siaddr_nip = 0, gateway_nip = 0, chaddr = replicate 16 0, sname = replicate 64 0,
        pfile = replicate 128 0, cookie = htonl DHCP_MAGIC, options = (replicate 388 0)[0 := DHCP_END]\<rparr>
       DHCP_MESSAGE_TYPE type"

subsection \<open>Reception\<close>

text \<open>
  \<open>option_vendor\<close> points behind the length byte. \<open>sizeof(vendor)\<close> is the size of a pointer, so the
  compared length is 7, which happens to be the length of \<open>MSFT 98\<close>.
\<close>

definition vendor_msft98 :: "u8 list" where
  "vendor_msft98 = [0x4d, 0x53, 0x46, 0x54, 0x20, 0x39, 0x38]"

definition check_vendor :: "u8 list \<Rightarrow> nat \<Rightarrow> u8 list \<Rightarrow> bool result" where
  "check_vendor m option_vendor vendor =
     rbind (mem_read m (option_vendor - 1)) (\<lambda>l.
     if l \<noteq> 7 then Ok False
     else rbind (mem_slice m option_vendor 7) (\<lambda>b. Ok (b = take 7 vendor)))"

definition check_broken_vendor :: "dhcp_packet \<Rightarrow> dhcp_packet result option" where
  "check_broken_vendor p =
     (if op p \<noteq> BOOTREQUEST then Some (Ok p)
      else case dhcp_get_option p DHCP_VENDOR of
        None \<Rightarrow> None
      | Some (Ok None) \<Rightarrow> Some (Ok p)
      | Some (Ok (Some vendor)) \<Rightarrow>
          Some (rbind (check_vendor (opt_mem p) vendor vendor_msft98) (\<lambda>b.
            Ok (if b then p\<lparr>flags := flags p OR htons BROADCAST_FLAG\<rparr> else p)))
      | Some (Err e) \<Rightarrow> Some (Err e)
      | Some Fault \<Rightarrow> Some Fault)"

text \<open>The structure as the bytes that \<open>read\<close> stored into it, the rest being zero.\<close>

definition packet_of_bytes :: "u8 list \<Rightarrow> dhcp_packet" where
  "packet_of_bytes bs =
     (let b = take 628 (bs @ replicate 628 0); f = (\<lambda>i n. take n (drop i b))
      in \<lparr>op = b ! 0, htype = b ! 1, hlen = b ! 2, hops = b ! 3, xid = word_32 (f 4 4),
          secs = word_16 (f 8 2), flags = word_16 (f 10 2), ciaddr = word_32 (f 12 4),
          yiaddr = word_32 (f 16 4), siaddr_nip = word_32 (f 20 4), gateway_nip = word_32 (f 24 4),
          chaddr = f 28 16, sname = f 44 64, pfile = f 108 128, cookie = word_32 (f 236 4),
          options = f 240 388\<rparr>)"

definition bytes_of_packet :: "dhcp_packet \<Rightarrow> u8 list" where
  "bytes_of_packet p =
     [op p, htype p, hlen p, hops p] @ bytes_32 (xid p) @ bytes_16 (secs p) @ bytes_16 (flags p) @
     bytes_32 (ciaddr p) @ bytes_32 (yiaddr p) @ bytes_32 (siaddr_nip p) @ bytes_32 (gateway_nip p) @
     chaddr p @ sname p @ pfile p @ bytes_32 (cookie p) @ options p"

text \<open>\<open>rd\<close> is the outcome of \<open>read\<close>: an error or the datagram.\<close>

definition dhcp_recv_l3_packet :: "u8 list result \<Rightarrow> dhcp_packet result option" where
  "dhcp_recv_l3_packet rd =
     (case rd of
        Err e \<Rightarrow> Some (Err e)
      | Fault \<Rightarrow> Some Fault
      | Ok bs \<Rightarrow>
          let p = packet_of_bytes bs
          in if cookie p \<noteq> htonl DHCP_MAGIC then Some (Err EPROTO) else check_broken_vendor p)"

subsection \<open>DHCPv6 options\<close>

text \<open>
  The packet is the received buffer; its options begin at offset 4. The loop stops because every
  option has at least four bytes. The result is the address, the length stored to \<open>*option_len\<close> and
  the count stored to \<open>*option_count\<close>; \<open>len\<close> is a \<open>uint16_t\<close>, so the sum with 4 can wrap.
\<close>

definition be16_at :: "u8 list \<Rightarrow> nat \<Rightarrow> u16 result" where
  "be16_at m i = rbind (mem_read m i) (\<lambda>a. rbind (mem_read m (i + 1)) (\<lambda>b. Ok (push_bit 8 (ucast a) OR ucast b)))"

function get_option6_loop ::
    "u8 list \<Rightarrow> u16 \<Rightarrow> nat \<Rightarrow> int \<Rightarrow> nat option \<Rightarrow> u16 option \<Rightarrow> nat \<Rightarrow> (nat option \<times> u16 option \<times> nat) result" where
  "get_option6_loop m code off rem found olen count =
     (case be16_at m off of Err e \<Rightarrow> Err e | Fault \<Rightarrow> Fault | Ok opt_code \<Rightarrow>
      case be16_at m (off + 2) of Err e \<Rightarrow> Err e | Fault \<Rightarrow> Fault | Ok opt_len \<Rightarrow>
        let len = opt_len + 4
        in if len < 4 then Ok (None, Some 0, 0)
           else
             let rem = rem - int (unat len)
             in if rem < 0 then Ok (found, olen, count)
                else
                  let hit = (opt_code = code);
                      found = (if hit then Some (off + 4) else found);
                      olen = (if hit then Some opt_len else olen);
                      count = (if hit then count + 1 else count)
                  in if rem = 0 then Ok (found, olen, count)
                     else get_option6_loop m code (off + unat len) rem found olen count)"
  by pat_completeness auto
termination
proof (relation "measure (\<lambda>(m, code, off, rem, found, olen, count). nat rem)", goal_cases)
  case (2 m code off rem found olen count opt_code opt_len len rem')
  then have "0 < unat len" by (auto simp: word_less_nat_alt)
  then have "0 < int (unat len)" by (simp only: of_nat_0_less_iff)
  moreover have "rem' = rem - int (unat len)" "0 \<le> rem'" using 2 by simp_all
  ultimately show ?case by (simp only: in_measure prod.case)
qed simp

definition dhcpv6_get_option :: "u8 list \<Rightarrow> u16 \<Rightarrow> u16 \<Rightarrow> (nat option \<times> u16 option \<times> nat) result" where
  "dhcpv6_get_option packet pkt_len code =
     (let rem = int (unat pkt_len) - 1 - 3
      in if rem \<le> 0 then Ok (None, Some 0, 0)
         else get_option6_loop packet code 4 rem None None 0)"

text \<open>The code, the length and the address of the data of the option at \<open>option\<close>.\<close>

definition dhcpv6_get_sub_option :: "u8 list \<Rightarrow> nat \<Rightarrow> u16 \<Rightarrow> (u16 \<times> u16 \<times> nat) option result" where
  "dhcpv6_get_sub_option m opt max_len =
     (let rem = int (unat max_len) - 2 - 2
      in if rem \<le> 0 then Ok None
         else
           rbind (be16_at m opt) (\<lambda>code.
           rbind (be16_at m (opt + 2)) (\<lambda>len.
           if rem - int (unat len) < 0 then Ok None else Ok (Some (code, len, opt + 4)))))"

text \<open>
  \<open>packet\<close> is the buffer behind the packet pointer; the new option is stored at \<open>*pkt_len\<close> bytes
  behind \<open>options\<close>, that is at offset \<open>4 + *pkt_len\<close>.
\<close>

definition dhcpv6_add_binary_option ::
    "u8 list \<Rightarrow> u16 \<Rightarrow> u16 \<Rightarrow> u8 list \<Rightarrow> (u8 list \<times> u16) result" where
  "dhcpv6_add_binary_option packet max_len pkt_len addopt =
     rbind (be16_at addopt 2) (\<lambda>l.
     let len = 2 + 2 + unat l
     in if unat pkt_len + len \<ge> unat max_len then Ok (packet, pkt_len)
        else
          rbind (memcpy packet (4 + unat pkt_len) addopt 0 len) (\<lambda>b.
          Ok (b, pkt_len + of_nat len)))"

subsection \<open>Checksum\<close>

text \<open>
  The 16-bit words of the data as a little-endian host loads them, a last odd byte alone. \<open>sum\<close> is
  an \<open>int32_t\<close>; the callers pass at most 656 bytes, so it stays far below its bound.
\<close>

fun sum_words :: "u8 list \<Rightarrow> nat" where
  "sum_words (a # b # bs) = unat a + 256 * unat b + sum_words bs"
| "sum_words [a] = unat a"
| "sum_words [] = 0"

lemma fold_decreases:
  assumes "s div 2 ^ 16 \<noteq> (0 :: nat)"
  shows "s mod 2 ^ 16 + s div 2 ^ 16 < s"
proof -
  have "s = 2 ^ 16 * (s div 2 ^ 16) + s mod 2 ^ 16" by simp
  moreover have "s div 2 ^ 16 < 2 ^ 16 * (s div 2 ^ 16)" using assms by simp
  ultimately show ?thesis by linarith
qed

function fold_sum :: "nat \<Rightarrow> nat" where
  "fold_sum s = (if s div 2 ^ 16 \<noteq> 0 then fold_sum (s mod 2 ^ 16 + s div 2 ^ 16) else s)"
  by pat_completeness auto
termination
  by (relation "measure id") (simp, simp only: in_measure id_apply, rule fold_decreases)

declare fold_sum.simps [simp del]

definition dhcp_checksum :: "u8 list \<Rightarrow> u16" where
  "dhcp_checksum bs = NOT (of_nat (fold_sum (sum_words bs)))"

subsection \<open>Sending\<close>

text \<open>
  The packed IP and UDP headers. The fields \<open>tos\<close>, \<open>id\<close> and \<open>frag_off\<close> stay zero; the frame is cut
  after \<open>IP_UPD_DHCP_SIZE = 576\<close> bytes, the last 80 bytes of the option field being left out.
\<close>

definition iphdr :: "u8 \<Rightarrow> u16 \<Rightarrow> u8 \<Rightarrow> u16 \<Rightarrow> u32 \<Rightarrow> u32 \<Rightarrow> u8 list" where
  "iphdr version_ihl tot_len ttl check saddr daddr =
     [version_ihl, 0] @ bytes_16 tot_len @ [0, 0, 0, 0, ttl, 17] @ bytes_16 check @ bytes_32 saddr @ bytes_32 daddr"

definition udphdr :: "u16 \<Rightarrow> u16 \<Rightarrow> u16 \<Rightarrow> u16 \<Rightarrow> u8 list" where
  "udphdr source dest len check = bytes_16 source @ bytes_16 dest @ bytes_16 len @ bytes_16 check"

definition ip_udp_frame :: "dhcp_packet \<Rightarrow> u32 \<Rightarrow> u16 \<Rightarrow> u32 \<Rightarrow> u16 \<Rightarrow> u8 list" where
  "ip_udp_frame p source_ip source_port dest_ip dest_port =
     (let data = take 548 (bytes_of_packet p);
          udp = udphdr (htons source_port) (htons dest_port) (htons 556);
          udp_check = dhcp_checksum (iphdr 0 (htons 556) 0 0 source_ip dest_ip @ udp 0 @ data);
          ip = (\<lambda>check. iphdr 0x45 (htons 576) 64 check source_ip dest_ip)
      in ip (dhcp_checksum (ip 0)) @ udp udp_check @ data)"

text \<open>
  \<open>sock\<close>, \<open>bnd\<close> and \<open>send\<close> are the outcomes of \<open>socket\<close>, \<open>bind\<close> and \<open>sendto\<close> (or of \<open>connect\<close> and
  \<open>write\<close>).
\<close>

definition dhcp_send_raw_packet ::
    "unit result \<Rightarrow> unit result \<Rightarrow> (u8 list \<Rightarrow> nat result) \<Rightarrow> dhcp_packet \<Rightarrow> u32 \<Rightarrow> u16 \<Rightarrow> u32 \<Rightarrow> u16 \<Rightarrow> nat result" where
  "dhcp_send_raw_packet sock bnd send p source_ip source_port dest_ip dest_port =
     rbind sock (\<lambda>_. rbind bnd (\<lambda>_. send (ip_udp_frame p source_ip source_port dest_ip dest_port)))"

definition dhcp_send_kernel_packet ::
    "unit result \<Rightarrow> (u32 \<times> u16 \<Rightarrow> unit result) \<Rightarrow> (u32 \<times> u16 \<Rightarrow> unit result) \<Rightarrow> (u8 list \<Rightarrow> nat result) \<Rightarrow>
     dhcp_packet \<Rightarrow> u32 \<Rightarrow> u16 \<Rightarrow> u32 \<Rightarrow> u16 \<Rightarrow> nat result" where
  "dhcp_send_kernel_packet sock bnd conn send p source_ip source_port dest_ip dest_port =
     rbind sock (\<lambda>_. rbind (bnd (htonl source_ip, htons source_port)) (\<lambda>_.
     rbind (conn (htonl dest_ip, htons dest_port)) (\<lambda>_. send (take 548 (bytes_of_packet p)))))"

subsection \<open>Encoded options\<close>

definition opt_ok :: "u8 \<times> u8 list \<Rightarrow> bool" where
  "opt_ok ov \<longleftrightarrow> fst ov \<noteq> DHCP_PADDING \<and> fst ov \<noteq> DHCP_END \<and> length (snd ov) < 256"

definition enc_opts :: "(u8 \<times> u8 list) list \<Rightarrow> u8 list" where
  "enc_opts os = concat (map (\<lambda>(c, d). c # of_nat (length d) # d) os)"

lemma enc_opts_simps [simp]:
  "enc_opts [] = []" "enc_opts ((c, d) # os) = c # of_nat (length d) # d @ enc_opts os"
  "enc_opts (os @ ps) = enc_opts os @ enc_opts ps"
  by (simp_all add: enc_opts_def)

text \<open>The option field of a packet holds exactly the options \<open>os\<close>.\<close>

definition has_opts :: "dhcp_packet \<Rightarrow> (u8 \<times> u8 list) list \<Rightarrow> bool" where
  "has_opts p os \<longleftrightarrow> packet_ok p \<and> list_all opt_ok os \<and>
     (\<exists>rest. options p = enc_opts os @ DHCP_END # rest)"

text \<open>The address of the data of the first option with a code, relative to the first option.\<close>

fun opt_pos :: "u8 \<Rightarrow> (u8 \<times> u8 list) list \<Rightarrow> nat option" where
  "opt_pos code [] = None"
| "opt_pos code ((c, d) # os) =
     (if c = code then Some 2 else map_option (\<lambda>n. 2 + length d + n) (opt_pos code os))"

lemma unat_len_u8: "n < 256 \<Longrightarrow> unat (of_nat n :: u8) = n"
  by (rule unat_of_nat_lt) simp

lemma get_option_loop_enc:
  assumes "list_all opt_ok os" and "\<forall>ov\<in>set os. fst ov \<noteq> DHCP_OPTION_OVERLOAD"
    and "rem = int (length (enc_opts os) + 1 + length rest)"
  shows "get_option_loop (pre @ enc_opts os @ DHCP_END # rest) code (length pre) rem 0 =
    Some (Ok (map_option (\<lambda>n. length pre + n) (opt_pos code os)))"
  using assms
proof (induction os arbitrary: pre rem)
  case Nil
  then show ?case by (subst get_option_loop.simps) simp
next
  case (Cons od os)
  obtain c d where od: "od = (c, d)" by fastforce
  let ?m = "pre @ enc_opts (od # os) @ DHCP_END # rest"
  have c: "c \<noteq> DHCP_PADDING" "c \<noteq> DHCP_END" "c \<noteq> DHCP_OPTION_OVERLOAD" and d: "unat (of_nat (length d) :: u8) = length d"
    using Cons.prems by (auto simp: od opt_ok_def intro!: unat_len_u8)
  have m: "?m ! length pre = c" "?m ! (length pre + 1) = of_nat (length d)" "length pre + 1 < length ?m"
    by (simp_all add: od nth_append)
  have "get_option_loop ?m code (length pre) rem 0 =
      (if c = code then Some (Ok (Some (length pre + 2)))
       else get_option_loop ?m code (length pre + (2 + length d)) (rem - int (2 + length d)) 0)"
    using Cons.prems(3) c d m by (subst get_option_loop.simps) (simp add: od Let_def)
  moreover have "get_option_loop ?m code (length pre + (2 + length d)) (rem - int (2 + length d)) 0 =
      Some (Ok (map_option (\<lambda>n. length pre + (2 + length d) + n) (opt_pos code os)))"
    using Cons.IH [of "rem - int (2 + length d)" "pre @ c # of_nat (length d) # d"] Cons.prems
    by (simp add: od)
  ultimately show ?case
    by (simp add: od option.map_comp comp_def add.assoc)
qed

lemma end_option_loop_enc:
  assumes "list_all opt_ok os"
  shows "end_option_loop (pre @ enc_opts os @ DHCP_END # rest) (length pre) = Ok (length pre + length (enc_opts os))"
  using assms
proof (induction os arbitrary: pre)
  case Nil
  then show ?case by (subst end_option_loop.simps) simp
next
  case (Cons od os)
  obtain c d where od: "od = (c, d)" by fastforce
  let ?m = "pre @ enc_opts (od # os) @ DHCP_END # rest"
  have c: "c \<noteq> DHCP_PADDING" "c \<noteq> DHCP_END" and d: "unat (of_nat (length d) :: u8) = length d"
    using Cons.prems by (auto simp: od opt_ok_def intro!: unat_len_u8)
  have "?m ! length pre = c" "?m ! (length pre + 1) = of_nat (length d)" "length pre + 1 < length ?m"
    by (simp_all add: od nth_append)
  then have "end_option_loop ?m (length pre) = end_option_loop ?m (length pre + length d + 2)"
    using c d by (subst end_option_loop.simps) simp
  then show ?case
    using Cons.IH [of "pre @ c # of_nat (length d) # d"] Cons.prems by (simp add: od)
qed

lemma dhcp_get_option_enc:
  assumes "has_opts p os" and "\<forall>ov\<in>set os. fst ov \<noteq> DHCP_OPTION_OVERLOAD"
  shows "dhcp_get_option p code = Some (Ok (map_option (\<lambda>n. 196 + n) (opt_pos code os)))"
proof -
  obtain rest where ov: "options p = enc_opts os @ DHCP_END # rest" and ok: "packet_ok p" "list_all opt_ok os"
    using assms(1) by (auto simp: has_opts_def)
  let ?pre = "sname p @ pfile p @ bytes_32 (cookie p)"
  have "length (options p) = 388" "length (sname p) = 64" "length (pfile p) = 128"
    using ok by (simp_all add: packet_ok_def)
  then show ?thesis
    using get_option_loop_enc [OF ok(2) assms(2), of 388 rest ?pre code] ov
    by (simp add: dhcp_get_option_def opt_mem_def)
qed

text \<open>Adding an option that fits appends it; one that does not fit is dropped.\<close>

lemma dhcp_add_binary_option_enc:
  assumes "has_opts p os" and "opt_ok (c, d)"
  shows "if length (enc_opts os) + length d + 3 \<ge> 308
    then dhcp_add_binary_option p (c # of_nat (length d) # d @ junk) = Ok p
    else \<exists>b. dhcp_add_binary_option p (c # of_nat (length d) # d @ junk) = Ok (p\<lparr>options := b\<rparr>) \<and>
           has_opts (p\<lparr>options := b\<rparr>) (os @ [(c, d)])"
proof -
  obtain rest where ov: "options p = enc_opts os @ DHCP_END # rest" and ok: "packet_ok p" "list_all opt_ok os"
    using assms(1) by (auto simp: has_opts_def)
  let ?n = "length (enc_opts os)" and ?add = "c # of_nat (length d) # d @ junk"
  have e: "dhcp_end_option (options p) = Ok ?n"
    using end_option_loop_enc [OF ok(2), of "[]" rest] by (simp add: dhcp_end_option_def ov)
  have d: "unat (of_nat (length d) :: u8) = length d" using assms(2) by (simp add: opt_ok_def unat_len_u8)
  have len: "length (options p) = 388" using ok by (simp add: packet_ok_def)
  have add: "dhcp_add_binary_option p ?add =
      (if ?n + length d + 3 \<ge> 308 then Ok p
       else rbind (memcpy (options p) ?n ?add 0 (2 + length d)) (\<lambda>b.
            rbind (mem_write b (?n + (2 + length d)) DHCP_END) (\<lambda>b. Ok (p\<lparr>options := b\<rparr>))))"
    by (simp add: dhcp_add_binary_option_def e d mem_simps Let_def)
  show ?thesis
  proof (cases "?n + length d + 3 \<ge> 308")
    case True
    then show ?thesis using add by simp
  next
    case False
    let ?b = "enc_opts (os @ [(c, d)]) @ drop (?n + (2 + length d)) (options p)"
    have "memcpy (options p) ?n ?add 0 (2 + length d) = Ok ?b"
      using False len by (subst memcpy_Ok) (simp_all add: ov)
    moreover have lb: "length ?b = 388" using False len by simp
    moreover have w: "mem_write ?b (?n + (2 + length d)) DHCP_END =
        Ok (enc_opts (os @ [(c, d)]) @ DHCP_END # drop (Suc (?n + (2 + length d))) (options p))"
    proof -
      obtain x xs where "drop (?n + (2 + length d)) (options p) = x # xs"
        using False len by (cases "drop (?n + (2 + length d)) (options p)") auto
      then show ?thesis
        by (simp add: mem_simps list_update_append flip: tl_drop drop_Suc) (metis drop_Suc list.sel(3) tl_drop)
    qed
    ultimately show ?thesis using add False ok assms(2) len
      by (auto simp: has_opts_def packet_ok_def simp del: enc_opts_simps(3))
  qed
qed

subsection \<open>Termination of the option scan\<close>

lemma get_option_loop_steps:
  "rem \<le> 0 \<Longrightarrow> get_option_loop m code off rem ov = Some (Ok None)"
  "0 < rem \<Longrightarrow> \<not> off < length m \<Longrightarrow> get_option_loop m code off rem ov = Some Fault"
  "0 < rem \<Longrightarrow> off < length m \<Longrightarrow> m ! off = DHCP_PADDING \<Longrightarrow>
     get_option_loop m code off rem ov = get_option_loop m code (off + 1) (rem - 1) ov"
  "0 < rem \<Longrightarrow> off < length m \<Longrightarrow> m ! off = DHCP_END \<Longrightarrow>
     get_option_loop m code off rem ov =
       (if ov AND 1 \<noteq> 0 then get_option_loop m code 64 128 (ov AND NOT 1)
        else if ov AND 2 \<noteq> 0 then get_option_loop m code 0 64 (ov AND NOT 2)
        else Some (Ok None))"
  by (subst get_option_loop.simps, simp)+

lemma get_option_loop_option:
  assumes "0 < rem" "off < length m" "m ! off \<noteq> DHCP_PADDING" "m ! off \<noteq> DHCP_END"
  defines "len \<equiv> 2 + unat (m ! (off + 1))"
  shows "get_option_loop m code off rem ov =
    (if \<not> off + 1 < length m then Some Fault
     else if rem - int len < 0 then Some (Ok None)
     else if m ! off = code then Some (Ok (Some (off + 2)))
     else if m ! off = DHCP_OPTION_OVERLOAD then
       if \<not> off + 2 < length m then Some Fault
       else get_option_loop m code (off + len) (rem - int len) (ov OR m ! (off + 2))
     else get_option_loop m code (off + len) (rem - int len) ov)"
  using assms get_option_loop_steps(1) [of "rem - int len" m code off ov]
  by (subst get_option_loop.simps) (simp add: Let_def)

text \<open>
  The three areas are scanned in the order \<open>options\<close> (2), \<open>file\<close> (1), \<open>sname\<close> (0), as long as the
  last two do not extend the overload bits themselves.
\<close>

definition scan_stage :: "nat \<Rightarrow> nat \<Rightarrow> int \<Rightarrow> u8 \<Rightarrow> bool" where
  "scan_stage st off rem ov \<longleftrightarrow>
     rem \<le> 388 \<and>
     (st = 2 \<or>
      st = 1 \<and> int off + rem \<le> 192 \<and> ov AND 1 = 0 \<or>
      st = 0 \<and> int off + rem \<le> 64 \<and> ov AND 1 = 0 \<and> ov AND 2 = 0)"

lemma clear_bits: "(ov AND NOT 1) AND 1 = (0 :: u8)" "(ov AND NOT 2) AND 2 = (0 :: u8)"
  "(ov AND NOT 2) AND 1 = ov AND (1 :: u8)"
  by (rule bit_word_eqI; auto simp: bit_simps bit_1_iff)+

lemma get_option_loop_returns:
  assumes "scan_stage st off rem ov"
    and no: "\<And>i. i < 192 \<Longrightarrow> i < length m \<Longrightarrow> m ! i \<noteq> DHCP_OPTION_OVERLOAD"
  shows "\<exists>r. get_option_loop m code off rem ov = Some r"
  using assms(1)
proof (induction "st * 1000 + nat rem" arbitrary: st off rem ov rule: less_induct)
  case less
  note IH = less.hyps and stage = less.prems
  consider "rem \<le> 0" | "0 < rem" "\<not> off < length m"
    | "0 < rem" "off < length m" "m ! off = DHCP_PADDING" | "0 < rem" "off < length m" "m ! off = DHCP_END"
    | "0 < rem" "off < length m" "m ! off \<noteq> DHCP_PADDING" "m ! off \<noteq> DHCP_END" by linarith
  then show ?case
  proof cases
    case 3
    then have "\<exists>r. get_option_loop m code (off + 1) (rem - 1) ov = Some r"
      using stage by (intro IH [of st]) (auto simp: scan_stage_def)
    then show ?thesis using get_option_loop_steps(3) [OF 3] by simp
  next
    case 4
    have "\<exists>r. get_option_loop m code 64 128 (ov AND NOT 1) = Some r" if "ov AND 1 \<noteq> 0"
    proof (rule IH)
      show "1 * 1000 + nat 128 < st * 1000 + nat rem" using that stage 4(1) by (auto simp: scan_stage_def)
      show "scan_stage 1 64 128 (ov AND NOT 1)" unfolding scan_stage_def clear_bits by simp
    qed
    moreover have "\<exists>r. get_option_loop m code 0 64 (ov AND NOT 2) = Some r" if "ov AND 1 = 0" "ov AND 2 \<noteq> 0"
    proof (rule IH)
      show "0 * 1000 + nat 64 < st * 1000 + nat rem" using that stage 4(1) by (auto simp: scan_stage_def)
      show "scan_stage 0 0 64 (ov AND NOT 2)" unfolding scan_stage_def clear_bits using that by simp
    qed
    ultimately show ?thesis unfolding get_option_loop_steps(4) [OF 4] by auto
  next
    case 5
    let ?len = "2 + unat (m ! (off + 1))"
    have *: "\<exists>r. get_option_loop m code (off + ?len) (rem - int ?len) ov' = Some r"
      if "ov' = ov \<or> m ! off = DHCP_OPTION_OVERLOAD" for ov'
    proof (rule IH)
      have "0 < int ?len" by (simp only: of_nat_0_less_iff)
      then show "st * 1000 + nat (rem - int ?len) < st * 1000 + nat rem"
        using 5(1) by (simp only: add_less_cancel_left nat_mono_iff)
      have "m ! off \<noteq> DHCP_OPTION_OVERLOAD" if "st \<noteq> 2"
        using that stage 5(1,2) no [of off] by (auto simp: scan_stage_def)
      moreover have "int (off + ?len) + (rem - int ?len) = int off + rem" by simp
      ultimately show "scan_stage st (off + ?len) (rem - int ?len) ov'"
        using stage that by (auto simp only: scan_stage_def)
    qed
    show ?thesis unfolding get_option_loop_option [OF 5] using * by (auto simp del: of_nat_add)
  qed (simp_all add: get_option_loop_steps)
qed

lemma dhcp_get_option_returns:
  assumes "packet_ok p" and "DHCP_OPTION_OVERLOAD \<notin> set (sname p)" and "DHCP_OPTION_OVERLOAD \<notin> set (pfile p)"
  shows "\<exists>r. dhcp_get_option p code = Some r"
  unfolding dhcp_get_option_def
proof (rule get_option_loop_returns)
  show "scan_stage 2 196 388 0" by (simp add: scan_stage_def)
next
  fix i :: nat
  assume "i < 192"
  then have "opt_mem p ! i \<in> set (sname p @ pfile p)"
    using assms(1) nth_mem [of i "sname p @ pfile p"]
    by (auto simp: opt_mem_def packet_ok_def nth_append split: if_splits)
  then show "opt_mem p ! i \<noteq> DHCP_OPTION_OVERLOAD" using assms(2,3) by auto
qed

text \<open>An overload option in \<open>file\<close> that selects \<open>file\<close> again keeps the scan going forever.\<close>

definition looping :: "u8 list \<Rightarrow> nat \<Rightarrow> int \<Rightarrow> u8 \<Rightarrow> bool" where
  "looping m off rem ov \<longleftrightarrow>
     m ! 64 = DHCP_OPTION_OVERLOAD \<and> m ! 65 = 1 \<and> m ! 66 = 1 \<and> m ! 67 = DHCP_END \<and> 68 \<le> length m \<and>
     (off = 64 \<and> rem = 128 \<and> ov = 0 \<or> off = 67 \<and> rem = 125 \<and> ov = 1)"

lemma get_option_loop_diverges:
  assumes "get_option_loop m code off rem ov = Some r"
  shows "code \<noteq> DHCP_OPTION_OVERLOAD \<longrightarrow> \<not> looping m off rem ov"
proof (rule get_option_loop.raw_induct [OF _ assms], intro impI notI)
  fix f m code off rem ov y
  assume IH: "\<And>m code off rem ov y. f m code off rem ov = Some y \<Longrightarrow>
      code \<noteq> DHCP_OPTION_OVERLOAD \<longrightarrow> \<not> looping m off rem ov"
    and code: "code \<noteq> DHCP_OPTION_OVERLOAD" and loop: "looping m off rem ov"
    and run: "(if rem \<le> 0 then Some (Ok None)
      else if \<not> off < length m then Some Fault
      else if m ! off = DHCP_PADDING then f m code (off + 1) (rem - 1) ov
      else if m ! off = DHCP_END then
        if ov AND 1 \<noteq> 0 then f m code 64 128 (ov AND NOT 1)
        else if ov AND 2 \<noteq> 0 then f m code 0 64 (ov AND NOT 2)
        else Some (Ok None)
      else if \<not> off + 1 < length m then Some Fault
      else
        let len = 2 + unat (m ! (off + 1)); rem = rem - int len
        in if rem < 0 then f m code off rem ov
           else if m ! off = code then Some (Ok (Some (off + 2)))
           else if m ! off = DHCP_OPTION_OVERLOAD then
             if \<not> off + 2 < length m then Some Fault
             else f m code (off + len) rem (ov OR m ! (off + 2))
           else f m code (off + len) rem ov) = Some y"
  consider "off = 64" "rem = 128" "ov = 0" | "off = 67" "rem = 125" "ov = 1"
    using loop by (auto simp: looping_def)
  then show False
  proof cases
    case 1
    then have "f m code 67 125 1 = Some y" using run loop code by (auto simp: looping_def Let_def)
    moreover have "looping m 67 125 1" using loop by (simp add: looping_def)
    ultimately show False using IH code by blast
  next
    case 2
    then have "f m code 64 128 0 = Some y" using run loop code by (auto simp: looping_def)
    moreover have "looping m 64 128 0" using loop by (simp add: looping_def)
    ultimately show False using IH code by blast
  qed
qed

lemma dhcp_get_option_hangs:
  assumes "packet_ok p" and "take 4 (options p) = [DHCP_OPTION_OVERLOAD, 1, 1, DHCP_END]"
    and "take 4 (pfile p) = [DHCP_OPTION_OVERLOAD, 1, 1, DHCP_END]" and "code \<noteq> DHCP_OPTION_OVERLOAD"
  shows "dhcp_get_option p code = None"
proof -
  let ?m = "opt_mem p"
  have len: "length (sname p) = 64" "length (pfile p) = 128" "length (options p) = 388"
    using assms(1) by (simp_all add: packet_ok_def)
  have o: "options p = [DHCP_OPTION_OVERLOAD, 1, 1, DHCP_END] @ drop 4 (options p)"
    and f: "pfile p = [DHCP_OPTION_OVERLOAD, 1, 1, DHCP_END] @ drop 4 (pfile p)"
    using assms(2,3) by (metis append_take_drop_id)+
  have m: "?m ! 196 = DHCP_OPTION_OVERLOAD" "?m ! 197 = 1" "?m ! 198 = 1" "?m ! 199 = DHCP_END"
    "?m ! 64 = DHCP_OPTION_OVERLOAD" "?m ! 65 = 1" "?m ! 66 = 1" "?m ! 67 = DHCP_END" "length ?m = 584"
    unfolding opt_mem_def by (subst o, subst f, simp add: nth_append len)+
  have "looping ?m 64 128 0" by (simp add: looping_def m)
  then have none: "get_option_loop ?m code 64 128 0 = None"
    using get_option_loop_diverges assms(4) by (metis not_Some_eq)
  have "get_option_loop ?m code 199 385 1 = get_option_loop ?m code 64 128 0"
    by (subst get_option_loop_steps(4)) (simp_all add: m)
  moreover have "get_option_loop ?m code 196 388 0 = get_option_loop ?m code 199 385 1"
    using assms(4) by (subst get_option_loop_option) (simp_all add: m)
  ultimately show ?thesis using none by (simp add: dhcp_get_option_def)
qed

subsection \<open>The option contract\<close>

lemma opt_pos_data:
  "list_all opt_ok os \<Longrightarrow>
   (case map_of os code of
      None \<Rightarrow> opt_pos code os = None
    | Some d \<Rightarrow> \<exists>n. opt_pos code os = Some n \<and> n + length d \<le> length (enc_opts os) \<and>
        take (length d) (drop n (enc_opts os)) = d)"
proof (induction os)
  case (Cons od os)
  obtain c d where od: "od = (c, d)" by fastforce
  show ?case
  proof (cases "c = code")
    case True
    then show ?thesis by (simp add: od)
  next
    case False
    then show ?thesis using Cons by (auto simp: od split: option.splits)
  qed
qed simp

lemma dhcp_get_option_data:
  assumes "has_opts p os" and "\<forall>ov\<in>set os. fst ov \<noteq> DHCP_OPTION_OVERLOAD"
  shows "case map_of os code of
      None \<Rightarrow> dhcp_get_option p code = Some (Ok None)
    | Some d \<Rightarrow> \<exists>a. dhcp_get_option p code = Some (Ok (Some a)) \<and> mem_slice (opt_mem p) a (length d) = Ok d"
proof -
  obtain rest where o: "options p = enc_opts os @ DHCP_END # rest" and ok: "packet_ok p" "list_all opt_ok os"
    using assms(1) by (auto simp: has_opts_def)
  have len: "length (sname p) = 64" "length (pfile p) = 128" using ok by (simp_all add: packet_ok_def)
  show ?thesis
    using opt_pos_data [OF ok(2), of code] dhcp_get_option_enc [OF assms, of code]
    by (auto simp: mem_slice_def opt_mem_def o len split: option.splits)
qed

text \<open>
  What the server and the client rely on: options are appended while there is room, and the first
  option with a code is found with its data. \<open>fits os ov\<close> says that \<open>ov\<close> can be added.
\<close>

locale option_field =
  fixes has :: "'p \<Rightarrow> (u8 \<times> u8 list) list \<Rightarrow> bool"
    and add :: "'p \<Rightarrow> u8 \<times> u8 list \<Rightarrow> 'p result"
    and find :: "'p \<Rightarrow> u8 \<Rightarrow> nat option result option"
    and mem :: "'p \<Rightarrow> u8 list"
    and fits :: "(u8 \<times> u8 list) list \<Rightarrow> u8 \<times> u8 list \<Rightarrow> bool"
  assumes add_fits: "has p os \<Longrightarrow> opt_ok ov \<Longrightarrow> fits os ov \<Longrightarrow> \<exists>p'. add p ov = Ok p' \<and> has p' (os @ [ov])"
    and add_full: "has p os \<Longrightarrow> opt_ok ov \<Longrightarrow> \<not> fits os ov \<Longrightarrow> add p ov = Ok p"
    and find_none: "has p os \<Longrightarrow> \<forall>ov\<in>set os. fst ov \<noteq> DHCP_OPTION_OVERLOAD \<Longrightarrow> map_of os code = None \<Longrightarrow>
      find p code = Some (Ok None)"
    and find_some: "has p os \<Longrightarrow> \<forall>ov\<in>set os. fst ov \<noteq> DHCP_OPTION_OVERLOAD \<Longrightarrow> map_of os code = Some d \<Longrightarrow>
      \<exists>a. find p code = Some (Ok (Some a)) \<and> mem_slice (mem p) a (length d) = Ok d"
begin

lemma add_never_fails: "has p os \<Longrightarrow> opt_ok ov \<Longrightarrow> \<exists>p' os'. add p ov = Ok p' \<and> has p' os' \<and> os' \<in> {os, os @ [ov]}"
  using add_fits add_full by (metis insertCI)

lemma find_added:
  assumes "has p os" "\<forall>ov\<in>set os. fst ov \<noteq> DHCP_OPTION_OVERLOAD" "opt_ok (code, d)" "fits os (code, d)"
    "map_of os code = None" "code \<noteq> DHCP_OPTION_OVERLOAD"
  obtains p' a where "add p (code, d) = Ok p'" "has p' (os @ [(code, d)])"
    "find p' code = Some (Ok (Some a))" "mem_slice (mem p') a (length d) = Ok d"
proof -
  obtain p' where p': "add p (code, d) = Ok p'" "has p' (os @ [(code, d)])"
    using add_fits [OF assms(1,3,4)] by blast
  moreover have "map_of (os @ [(code, d)]) code = Some d" using assms(5) by (simp add: map_add_def)
  ultimately show ?thesis using find_some [OF p'(2), of code d] assms(2,6) that by auto
qed

lemma find_u32_added:
  assumes "has p os" "\<forall>ov\<in>set os. fst ov \<noteq> DHCP_OPTION_OVERLOAD" "opt_ok (code, put_be32 v)"
    "fits os (code, put_be32 v)" "map_of os code = None" "code \<noteq> DHCP_OPTION_OVERLOAD"
  obtains p' a where "add p (code, put_be32 v) = Ok p'" "has p' (os @ [(code, put_be32 v)])"
    "find p' code = Some (Ok (Some a))" "get_be32 (mem p') a = Ok v"
proof -
  obtain p' a where "add p (code, put_be32 v) = Ok p'" "has p' (os @ [(code, put_be32 v)])"
    "find p' code = Some (Ok (Some a))" "mem_slice (mem p') a (length (put_be32 v)) = Ok (put_be32 v)"
    using find_added [OF assms] by blast
  then show ?thesis by (intro that) (auto simp: get_be32_def put_be32_def)
qed

end

definition fits_field :: "(u8 \<times> u8 list) list \<Rightarrow> u8 \<times> u8 list \<Rightarrow> bool" where
  "fits_field os ov \<longleftrightarrow> length (enc_opts os) + length (snd ov) + 3 < 308"

interpretation opts: option_field has_opts "\<lambda>p (c, d). dhcp_add_binary_option p (c # of_nat (length d) # d)"
  dhcp_get_option opt_mem fits_field
proof
  fix p os and ov :: "u8 \<times> u8 list"
  assume h: "has_opts p os" "opt_ok ov"
  obtain c d where ov: "ov = (c, d)" by fastforce
  note a = dhcp_add_binary_option_enc [OF h(1), of c d "[]"]
  show "fits_field os ov \<Longrightarrow>
      \<exists>p'. (case ov of (c, d) \<Rightarrow> dhcp_add_binary_option p (c # of_nat (length d) # d)) = Ok p' \<and> has_opts p' (os @ [ov])"
    using a h by (auto simp: ov fits_field_def)
  show "\<not> fits_field os ov \<Longrightarrow> (case ov of (c, d) \<Rightarrow> dhcp_add_binary_option p (c # of_nat (length d) # d)) = Ok p"
    using a h by (simp add: ov fits_field_def)
next
  fix p os code
  assume "has_opts p os" "\<forall>ov\<in>set os. fst ov \<noteq> DHCP_OPTION_OVERLOAD" "map_of os code = None"
  then show "dhcp_get_option p code = Some (Ok None)" using dhcp_get_option_data [of p os code] by simp
next
  fix p os code d
  assume "has_opts p os" "\<forall>ov\<in>set os. fst ov \<noteq> DHCP_OPTION_OVERLOAD" "map_of os code = Some d"
  then show "\<exists>a. dhcp_get_option p code = Some (Ok (Some a)) \<and> mem_slice (opt_mem p) a (length d) = Ok d"
    using dhcp_get_option_data [of p os code] by simp
qed

text \<open>The header of a new packet.\<close>

lemma dhcp_init_header_spec:
  obtains p where "dhcp_init_header type = Ok p" "has_opts p [(DHCP_MESSAGE_TYPE, [type])]"
    "op p = (if type = DHCPOFFER \<or> type = DHCPACK \<or> type = DHCPNAK then BOOTREPLY else BOOTREQUEST)"
    "hlen p = 6" "cookie p = htonl DHCP_MAGIC" "sname p = replicate 64 0" "pfile p = replicate 128 0"
    "chaddr p = replicate 16 0" "flags p = 0" "ciaddr p = 0"
proof -
  let ?p = "\<lparr>op = (if type = DHCPOFFER \<or> type = DHCPACK \<or> type = DHCPNAK then BOOTREPLY else BOOTREQUEST),
        htype = 1, hlen = 6, hops = 0, xid = 0, secs = 0, flags = 0, ciaddr = 0, yiaddr = 0,
        siaddr_nip = 0, gateway_nip = 0, chaddr = replicate 16 0, sname = replicate 64 0,
        pfile = replicate 128 0, cookie = htonl DHCP_MAGIC, options = (replicate 388 0)[0 := DHCP_END]\<rparr>"
  have "(replicate 388 0)[0 := DHCP_END] = enc_opts [] @ DHCP_END # replicate 387 0"
    by (simp add: eval_nat_numeral)
  then have "has_opts ?p []" by (auto simp: has_opts_def packet_ok_def)
  moreover have "check_option DHCP_MESSAGE_TYPE 1 = (OPTION_U8, False)" by code_simp
  ultimately show ?thesis
    using dhcp_add_binary_option_enc [of ?p "[]" DHCP_MESSAGE_TYPE "[type]" "[0, 0, 0]"] that
    by (auto simp: dhcp_init_header_def dhcp_add_option_uint8_def opt_ok_def)
qed

subsection \<open>The checksum\<close>

lemma fold_sum_spec: "fold_sum s < 2 ^ 16 \<and> fold_sum s mod 65535 = s mod 65535 \<and> (fold_sum s = 0 \<longleftrightarrow> s = 0)"
proof (induction s rule: fold_sum.induct)
  case (1 s)
  show ?case
  proof (cases "s div 2 ^ 16 = 0")
    case True
    then show ?thesis by (subst (1 2 3) fold_sum.simps) (auto simp: div_eq_0_iff)
  next
    case False
    let ?t = "s mod 2 ^ 16 + s div 2 ^ 16"
    have "s = 65535 * (s div 2 ^ 16) + ?t" using mult_div_mod_eq [of "2 ^ 16" s] by simp
    then have "s mod 65535 = ?t mod 65535" by (metis mod_mult_self4)
    moreover have "fold_sum s = fold_sum ?t" using False by (subst fold_sum.simps) simp
    moreover have "?t \<noteq> 0" "s \<noteq> 0" using False by auto
    ultimately show ?thesis using 1 False by auto
  qed
qed

lemma unat_dhcp_checksum: "unat (dhcp_checksum bs) = 65535 - fold_sum (sum_words bs)"
proof -
  have "unat (of_nat (fold_sum (sum_words bs)) :: u16) = fold_sum (sum_words bs)"
    using fold_sum_spec by (intro unat_of_nat_lt) simp
  moreover have "unat (NOT w) = 65535 - unat w" for w :: u16
  proof -
    have "NOT w = 65535 - w" by (simp add: not_eq_complement)
    moreover have "w \<le> 65535" using unsigned_less [of w, where ?'a = nat] by (simp add: word_le_nat_alt)
    ultimately show ?thesis by (simp add: unat_minus_le)
  qed
  ultimately show ?thesis by (simp add: dhcp_checksum_def)
qed

lemma sum_words_append: "even (length bs) \<Longrightarrow> sum_words (bs @ cs) = sum_words bs + sum_words cs"
  by (induction bs rule: sum_words.induct) auto

lemma sum_words_bytes_16: "sum_words (bytes_16 w) = unat w"
proof -
  have "unat (ucast w :: u8) = unat w mod 256" "unat (ucast (drop_bit 8 w) :: u8) = unat w div 256 mod 256"
    by (simp_all add: unsigned_ucast_eq take_bit_eq_mod unsigned_drop_bit_eq drop_bit_eq_div unat_div)
  moreover have "unat w div 256 < 256" using unsigned_less [of w, where ?'a = nat] by simp
  ultimately show ?thesis by (simp add: bytes_16_def)
qed

lemma length_headers [simp]:
  "length (iphdr a b c d e f) = 20" "length (udphdr u v w x) = 8"
  by (simp_all add: iphdr_def udphdr_def)

lemma length_bytes_of_packet: "packet_ok p \<Longrightarrow> length (bytes_of_packet p) = 628"
  by (simp add: packet_ok_def bytes_of_packet_def)

text \<open>A packet as the bytes on the wire and back.\<close>

lemma packet_of_bytes_of_packet:
  assumes "packet_ok p"
  shows "packet_of_bytes (bytes_of_packet p) = p"
proof -
  have "take 628 (bytes_of_packet p @ replicate 628 0) = bytes_of_packet p"
    using length_bytes_of_packet [OF assms] by simp
  then have "packet_of_bytes (bytes_of_packet p) =
      (let b = bytes_of_packet p; f = (\<lambda>i n. take n (drop i b))
       in \<lparr>op = b ! 0, htype = b ! 1, hlen = b ! 2, hops = b ! 3, xid = word_32 (f 4 4),
          secs = word_16 (f 8 2), flags = word_16 (f 10 2), ciaddr = word_32 (f 12 4),
          yiaddr = word_32 (f 16 4), siaddr_nip = word_32 (f 20 4), gateway_nip = word_32 (f 24 4),
          chaddr = f 28 16, sname = f 44 64, pfile = f 108 128, cookie = word_32 (f 236 4),
          options = f 240 388\<rparr>)"
    unfolding packet_of_bytes_def by simp
  also have "\<dots> = p"
    using assms by (simp add: Let_def bytes_of_packet_def packet_ok_def take_Cons' drop_Cons' nth_Cons')
  finally show ?thesis .
qed

text \<open>A checksum stored where the summed data had a zero field makes the sum verify.\<close>

lemma dhcp_checksum_verifies:
  assumes "even (length a)"
  shows "dhcp_checksum (a @ bytes_16 (dhcp_checksum (a @ bytes_16 0 @ b)) @ b) = 0"
proof -
  let ?s = "sum_words (a @ bytes_16 0 @ b)"
  let ?d = "a @ bytes_16 (dhcp_checksum (a @ bytes_16 0 @ b)) @ b"
  let ?t = "sum_words ?d"
  have sum: "sum_words (a @ bytes_16 w @ b) = sum_words a + unat w + sum_words b" for w
    using assms by (simp add: sum_words_append sum_words_bytes_16)
  have t: "?t = ?s + (65535 - fold_sum ?s)"
    using unat_dhcp_checksum [of "a @ bytes_16 0 @ b"] unfolding sum by simp
  note fs = fold_sum_spec [of ?s] and ft = fold_sum_spec [of ?t]
  have "?t mod 65535 = (fold_sum ?s + (65535 - fold_sum ?s)) mod 65535"
    using fs by (metis t mod_add_left_eq)
  then have "fold_sum ?t mod 65535 = 0" using fs ft by simp
  moreover have "?t \<noteq> 0" using fs t by (cases "?s = 0") auto
  ultimately have "fold_sum ?t = 65535" using ft by (auto elim!: dvdE simp: mod_eq_0_iff_dvd)
  then have "unat (dhcp_checksum ?d) = 0" using unat_dhcp_checksum [of ?d] by simp
  then show ?thesis by (simp only: unat_eq_zero)
qed

text \<open>
  The Internet checksum as the standard defines it: the ones' complement sum of the 16-bit words in network byte order, where a carry out of the
  top is added at the bottom. Data with a correct checksum sums up to \<open>0xffff\<close>.
\<close>

definition ones_add :: "nat \<Rightarrow> nat \<Rightarrow> nat" where
  "ones_add a b = (if a + b < 65536 then a + b else (a + b) mod 65536 + 1)"

fun ones_sum :: "u8 list \<Rightarrow> nat" where
  "ones_sum (a # b # bs) = ones_add (256 * unat a + unat b) (ones_sum bs)"
| "ones_sum [a] = 256 * unat a"
| "ones_sum [] = 0"

lemma ones_add_spec:
  assumes "a < 65536" and "b < 65536"
  shows "ones_add a b < 65536 \<and> ones_add a b mod 65535 = (a + b) mod 65535 \<and> (ones_add a b = 0 \<longleftrightarrow> a + b = 0)"
proof (cases "a + b < 65536")
  case False
  have "(a + b) mod 65536 = a + b - 65536" using assms False by (simp add: mod_nat_eqI)
  then have add: "ones_add a b = a + b - 65535" using False by (simp add: ones_add_def)
  then have "ones_add a b < 65536" "ones_add a b \<noteq> 0" using assms False by linarith+
  moreover have "(a + b) mod 65535 = ones_add a b mod 65535" unfolding add by (rule le_mod_geq) (use False in linarith)
  ultimately show ?thesis using False by linarith
qed (simp add: ones_add_def)

text \<open>Swapping the bytes of every word multiplies the sum by 256.\<close>

lemma ones_sum_spec:
  "ones_sum bs < 65536 \<and> ones_sum bs mod 65535 = 256 * sum_words bs mod 65535 \<and> (ones_sum bs = 0 \<longleftrightarrow> sum_words bs = 0)"
proof (induction bs rule: ones_sum.induct)
  case (1 a b bs)
  let ?w = "256 * unat a + unat b"
  have u: "unat a < 256" "unat b < 256" using unsigned_less [of a, where ?'a = nat] unsigned_less [of b, where ?'a = nat] by simp_all
  then have w: "?w < 65536" by linarith
  note add = ones_add_spec [OF w 1 [THEN conjunct1]]
  have "(?w + ones_sum bs) mod 65535 = (?w + 256 * sum_words bs) mod 65535" using 1 by (metis mod_add_right_eq)
  moreover have "256 * sum_words (a # b # bs) = ?w + 256 * sum_words bs + 65535 * unat b" by simp
  ultimately have "ones_sum (a # b # bs) mod 65535 = 256 * sum_words (a # b # bs) mod 65535"
    using add by (metis mod_mult_self2 ones_sum.simps(1))
  then show ?case using add 1 by auto
next
  case (2 a)
  then show ?case using unsigned_less [of a, where ?'a = nat] by auto
qed simp

lemma ones_sum_verifies: "dhcp_checksum bs = 0 \<Longrightarrow> ones_sum bs = 65535"
proof -
  assume "dhcp_checksum bs = 0"
  then have "fold_sum (sum_words bs) = 65535"
    using unat_dhcp_checksum [of bs] fold_sum_spec [of "sum_words bs"] by (simp add: unat_eq_zero)
  then have "sum_words bs mod 65535 = 0" "sum_words bs \<noteq> 0" using fold_sum_spec [of "sum_words bs"] by auto
  then have "ones_sum bs mod 65535 = 0" "ones_sum bs \<noteq> 0" "ones_sum bs < 65536"
    using ones_sum_spec [of bs] by (auto simp: mod_eq_0_iff_dvd)
  then show ?thesis by (auto elim!: dvdE simp: mod_eq_0_iff_dvd)
qed

subsection \<open>Packets with known options\<close>

lemma has_opts_cong: "packet_ok p' \<Longrightarrow> options p' = options p \<Longrightarrow> has_opts p os \<Longrightarrow> has_opts p' os"
  by (simp add: has_opts_def)

lemma u32_codes:
  assumes "code \<in> {0x01, 0x03, 0x06, 0x32, 0x33, 0x36}"
  shows "fst (check_option code 4) \<noteq> OPTION_UNKNOWN" and "opt_ok (code, put_be32 v)"
proof -
  have "list_all (\<lambda>code. fst (check_option code 4) \<noteq> OPTION_UNKNOWN) [0x01, 0x03, 0x06, 0x32, 0x33, 0x36]" by code_simp
  then show "fst (check_option code 4) \<noteq> OPTION_UNKNOWN" using assms by (auto simp: list_all_iff)
  show "opt_ok (code, put_be32 v)" using assms by (auto simp: opt_ok_def)
qed

lemma add_u32_option:
  assumes "has_opts p os" and "code \<in> {0x01, 0x03, 0x06, 0x32, 0x33, 0x36}"
  obtains b where "dhcp_add_option_uint32 p code v = Ok (p\<lparr>options := b\<rparr>)"
    "has_opts (p\<lparr>options := b\<rparr>) os \<and> 308 \<le> length (enc_opts os) + 7 \<or>
     has_opts (p\<lparr>options := b\<rparr>) (os @ [(code, put_be32 v)]) \<and> length (enc_opts os) + 7 < 308"
proof -
  note c = u32_codes [OF assms(2)]
  have add: "dhcp_add_option_uint32 p code v = dhcp_add_binary_option p (code # of_nat (length (put_be32 v)) # put_be32 v @ [])"
    using c(1) by (simp add: dhcp_add_option_uint32_def)
  note enc = dhcp_add_binary_option_enc [OF assms(1) c(2), of v "[]"]
  show ?thesis
  proof (cases "308 \<le> length (enc_opts os) + 7")
    case True
    then have "dhcp_add_option_uint32 p code v = Ok (p\<lparr>options := options p\<rparr>)" using enc unfolding add by simp
    moreover have "has_opts (p\<lparr>options := options p\<rparr>) os" using assms(1) by simp
    ultimately show ?thesis using that True by blast
  next
    case False
    then have "\<exists>b. dhcp_add_option_uint32 p code v = Ok (p\<lparr>options := b\<rparr>) \<and> has_opts (p\<lparr>options := b\<rparr>) (os @ [(code, put_be32 v)])"
      using enc unfolding add by simp
    then show ?thesis using that False by fastforce
  qed
qed

lemma add_u32_fits:
  assumes "has_opts p os" and "code \<in> {0x01, 0x03, 0x06, 0x32, 0x33, 0x36}" and "length (enc_opts os) \<le> 20"
  shows "\<exists>b. dhcp_add_option_uint32 p code v = Ok (p\<lparr>options := b\<rparr>) \<and> has_opts (p\<lparr>options := b\<rparr>) (os @ [(code, put_be32 v)])"
proof -
  have "\<not> 308 \<le> length (enc_opts os) + 7" using assms(3) by simp
  then show ?thesis by (metis add_u32_option [OF assms(1,2)])
qed

lemma has_opts_unique: "has_opts p os \<Longrightarrow> has_opts p os' \<Longrightarrow> os = os'"
proof -
  have "enc_opts os @ DHCP_END # rest = enc_opts os' @ DHCP_END # rest' \<Longrightarrow> list_all opt_ok os \<Longrightarrow> list_all opt_ok os' \<Longrightarrow> os = os'"
    for os os' rest rest'
  proof (induction os arbitrary: os')
    case Nil
    then show ?case by (cases os') (auto simp: opt_ok_def)
  next
    case (Cons ov os)
    obtain c d where ov: "ov = (c, d)" by fastforce
    then obtain c' d' ps where os': "os' = (c', d') # ps"
      using Cons.prems by (cases os') (auto simp: opt_ok_def)
    have "(of_nat (length d) :: u8) = of_nat (length d')" "length d < 256" "length d' < 256"
      using Cons.prems ov os' by (auto simp: opt_ok_def)
    then have "length d = length d'" by (metis unat_len_u8)
    then show ?case using Cons ov os' by auto
  qed
  then show "has_opts p os \<Longrightarrow> has_opts p os' \<Longrightarrow> os = os'" by (auto simp: has_opts_def)
qed

lemma packet_of_bytes_ok: "packet_ok (packet_of_bytes bs)"
proof -
  define b where "b = take 628 (bs @ replicate 628 0)"
  have "length b = 628" by (simp add: b_def)
  then show ?thesis unfolding packet_of_bytes_def b_def [symmetric] Let_def by (simp add: packet_ok_def)
qed

lemma get_u32_option_enc:
  assumes "has_opts p os" and "\<forall>ov\<in>set os. fst ov \<noteq> DHCP_OPTION_OVERLOAD"
  shows "map_of os code = None \<Longrightarrow> get_u32_option p code = Some (Ok None)"
    and "map_of os code = Some (put_be32 n) \<Longrightarrow> get_u32_option p code = Some (Ok (Some n))"
  using dhcp_get_option_data [OF assms, of code] by (auto simp: get_u32_option_def get_be32_def put_be32_def)

lemma message_type_enc:
  assumes "has_opts p os" "\<forall>ov\<in>set os. fst ov \<noteq> DHCP_OPTION_OVERLOAD" "map_of os DHCP_MESSAGE_TYPE = Some [type]"
  obtains a where "dhcp_get_option p DHCP_MESSAGE_TYPE = Some (Ok (Some a))" "mem_read (opt_mem p) a = Ok type"
proof -
  obtain a where a: "dhcp_get_option p DHCP_MESSAGE_TYPE = Some (Ok (Some a))" "mem_slice (opt_mem p) a 1 = Ok [type]"
    using dhcp_get_option_data [OF assms(1,2), of DHCP_MESSAGE_TYPE] assms(3) by auto
  then have "a < length (opt_mem p)" "opt_mem p ! a = type"
    by (auto simp: mem_slice_def take_Suc hd_drop_conv_nth split: if_splits)
  then show ?thesis using that a(1) by (simp add: mem_read_def)
qed

text \<open>The 548 bytes that are sent, with the padding of the receiver.\<close>

definition sent_part :: "u8 list \<Rightarrow> dhcp_packet \<Rightarrow> dhcp_packet" where
  "sent_part rest p = p\<lparr>options := take 308 (options p) @ rest\<rparr>"

lemma bytes_of_sent_part:
  assumes "packet_ok p"
  shows "bytes_of_packet (sent_part rest p) = take 548 (bytes_of_packet p) @ rest"
proof -
  let ?hd = "[op p, htype p, hlen p, hops p] @ bytes_32 (xid p) @ bytes_16 (secs p) @ bytes_16 (flags p) @
     bytes_32 (ciaddr p) @ bytes_32 (yiaddr p) @ bytes_32 (siaddr_nip p) @ bytes_32 (gateway_nip p) @
     chaddr p @ sname p @ pfile p @ bytes_32 (cookie p)"
  have "length ?hd = 240" using assms by (simp add: packet_ok_def bytes_32_def bytes_16_def)
  moreover have "bytes_of_packet p = ?hd @ options p" "bytes_of_packet (sent_part rest p) = ?hd @ take 308 (options p) @ rest"
    by (simp_all add: bytes_of_packet_def sent_part_def)
  ultimately show ?thesis by simp
qed

lemma sent_part_opts:
  assumes "has_opts p os" and "length (enc_opts os) < 308" and "length rest = 80"
  shows "has_opts (sent_part rest p) os"
  using assms by (auto simp: has_opts_def packet_ok_def sent_part_def take_Cons' Let_def)

lemma packet_of_sent_bytes:
  assumes "packet_ok p"
  shows "packet_of_bytes (take 548 (bytes_of_packet p)) = sent_part (replicate 80 0) p"
proof -
  let ?b = "take 548 (bytes_of_packet p)"
  have l: "length (bytes_of_packet p) = 628" using length_bytes_of_packet [OF assms] by simp
  have "packet_of_bytes ?b = packet_of_bytes (?b @ replicate 80 0)"
    by (simp add: packet_of_bytes_def l Let_def replicate_add [symmetric])
  also have "\<dots> = packet_of_bytes (bytes_of_packet (sent_part (replicate 80 0) p))"
    using bytes_of_sent_part [OF assms, of "replicate 80 0"] by simp
  also have "\<dots> = sent_part (replicate 80 0) p"
    by (rule packet_of_bytes_of_packet) (use assms in \<open>simp add: packet_ok_def sent_part_def\<close>)
  finally show ?thesis .
qed

text \<open>The codes of the options that hold one or more words of 32 bits.\<close>

definition u32_codes :: "u8 set" where
  "u32_codes = {0x01, 0x03, 0x06, 0x2a, 0x32, 0x33, 0x36}"

lemma check_option_u32: "fst (check_option code 4) \<noteq> OPTION_UNKNOWN \<longleftrightarrow> code \<in> u32_codes"
  by (auto simp: check_option_def dhcp_get_code_type_def client_options_def u32_codes_def Let_def)

text \<open>
  C31: Options survive the packet. Let a packet hold the options \<open>os\<close>, none of which tells that the other fields hold options, too. A 32-bit
  option that has one of the codes known for such options and fits into the 308 bytes is appended, and no byte outside of the option field
  is touched. Looking the code up in the new packet gives the value that was added, or, when the packet already had an option of this code,
  the older value, which is still the first. An option that does not fit or has another code leaves the packet alone.
\<close>

theorem dhcp_option_roundtrip:
  assumes "has_opts p os" and "\<forall>ov\<in>set os. fst ov \<noteq> DHCP_OPTION_OVERLOAD"
  shows "if code \<in> u32_codes \<and> length (enc_opts os) + 7 < 308
    then \<exists>p' a. dhcp_add_option_uint32 p code v = Ok p' \<and> has_opts p' (os @ [(code, put_be32 v)]) \<and>
           p' = p\<lparr>options := options p'\<rparr> \<and> dhcp_get_option p' code = Some (Ok (Some a)) \<and>
           (case map_of os code of
              None \<Rightarrow> get_be32 (opt_mem p') a = Ok v
            | Some old \<Rightarrow> mem_slice (opt_mem p') a (length old) = Ok old)
    else dhcp_add_option_uint32 p code v = Ok p"
proof (cases "code \<in> u32_codes")
  case True
  have add: "dhcp_add_option_uint32 p code v = dhcp_add_binary_option p (code # of_nat (length (put_be32 v)) # put_be32 v @ [])"
    using True check_option_u32 [of code] by (simp add: dhcp_add_option_uint32_def)
  have ok: "opt_ok (code, put_be32 v)" and code: "code \<noteq> DHCP_OPTION_OVERLOAD" using True by (auto simp: opt_ok_def u32_codes_def)
  note enc = dhcp_add_binary_option_enc [OF assms(1) ok, of "[]"]
  show ?thesis
  proof (cases "length (enc_opts os) + 7 < 308")
    case room: True
    let ?os = "os @ [(code, put_be32 v)]"
    obtain p' where p': "dhcp_add_option_uint32 p code v = Ok p'" "has_opts p' ?os" "p' = p\<lparr>options := options p'\<rparr>"
      using enc room by (auto simp: add)
    have "\<forall>ov\<in>set ?os. fst ov \<noteq> DHCP_OPTION_OVERLOAD" using assms(2) code by auto
    note found = dhcp_get_option_data [OF p'(2) this, of code]
    let ?d = "case map_of os code of None \<Rightarrow> put_be32 v | Some old \<Rightarrow> old"
    have "map_of ?os code = Some ?d" by (cases "map_of os code") (simp_all add: map_add_def)
    with found obtain a where a: "dhcp_get_option p' code = Some (Ok (Some a))" "mem_slice (opt_mem p') a (length ?d) = Ok ?d"
      by auto
    then have "case map_of os code of
        None \<Rightarrow> get_be32 (opt_mem p') a = Ok v
      | Some old \<Rightarrow> mem_slice (opt_mem p') a (length old) = Ok old"
      by (auto simp: get_be32_def put_be32_def split: option.splits)
    then show ?thesis using True room p' a(1) by auto
  next
    case False
    then show ?thesis using enc by (simp add: add)
  qed
next
  case False
  then show ?thesis by (simp add: dhcp_add_option_uint32_def flip: check_option_u32)
qed

definition demo_packet :: dhcp_packet where
  "demo_packet = (case dhcp_init_header DHCPOFFER of Ok p \<Rightarrow> p)"

lemma demo_packet_opts: "has_opts demo_packet [(DHCP_MESSAGE_TYPE, [DHCPOFFER])]"
  by (rule dhcp_init_header_spec [of DHCPOFFER]) (simp add: demo_packet_def)

theorem dhcp_option_roundtrip_witness:
  "\<exists>p' a. dhcp_add_option_uint32 demo_packet DHCP_LEASE_TIME 28800 = Ok p' \<and>
     has_opts p' [(DHCP_MESSAGE_TYPE, [DHCPOFFER]), (DHCP_LEASE_TIME, put_be32 28800)] \<and>
     p' = demo_packet\<lparr>options := options p'\<rparr> \<and> dhcp_get_option p' DHCP_LEASE_TIME = Some (Ok (Some a)) \<and> get_be32 (opt_mem p') a = Ok 28800"
  using dhcp_option_roundtrip [OF demo_packet_opts, of DHCP_LEASE_TIME 28800] by (simp add: u32_codes_def)

text \<open>
  The option scan returns for every packet whose \<open>sname\<close> and \<open>file\<close> fields do not hold the code
  of the overload option.
\<close>

lemma dhcp_get_option_terminates:
  assumes "packet_ok p" and "DHCP_OPTION_OVERLOAD \<notin> set (sname p)" and "DHCP_OPTION_OVERLOAD \<notin> set (pfile p)"
  shows "\<exists>r. dhcp_get_option p code = Some r"
  by (rule dhcp_get_option_returns [OF assms])

lemma dhcp_get_option_terminates_witness: "\<exists>r. dhcp_get_option demo_packet DHCP_SERVER_ID = Some r"
proof (rule dhcp_get_option_terminates)
  show "packet_ok demo_packet" using demo_packet_opts by (simp add: has_opts_def)
  have "sname demo_packet = replicate 64 0" "pfile demo_packet = replicate 128 0"
    by (rule dhcp_init_header_spec [of DHCPOFFER]; simp add: demo_packet_def)+
  then show "DHCP_OPTION_OVERLOAD \<notin> set (sname demo_packet)" "DHCP_OPTION_OVERLOAD \<notin> set (pfile demo_packet)"
    by simp_all
qed

text \<open>
  C33: A packet whose \<open>options\<close> and \<open>file\<close> fields both begin with an overload option that selects
  \<open>file\<close> makes the option scan run forever, whatever option is asked for.
\<close>

theorem dhcp_get_option_hangs_on_overload:
  assumes "packet_ok p" and "take 4 (options p) = [DHCP_OPTION_OVERLOAD, 1, 1, DHCP_END]"
    and "take 4 (pfile p) = [DHCP_OPTION_OVERLOAD, 1, 1, DHCP_END]" and "code \<noteq> DHCP_OPTION_OVERLOAD"
  shows "dhcp_get_option p code = None"
  by (rule dhcp_get_option_hangs [OF assms])

definition evil_packet :: dhcp_packet where
  "evil_packet =
     \<lparr>op = BOOTREQUEST, htype = 1, hlen = 6, hops = 0, xid = 0, secs = 0, flags = 0, ciaddr = 0, yiaddr = 0,
      siaddr_nip = 0, gateway_nip = 0, chaddr = replicate 16 0, sname = replicate 64 0,
      pfile = [DHCP_OPTION_OVERLOAD, 1, 1, DHCP_END] @ replicate 124 0, cookie = htonl DHCP_MAGIC,
      options = [DHCP_OPTION_OVERLOAD, 1, 1, DHCP_END] @ replicate 384 0\<rparr>"

theorem dhcp_get_option_hangs_on_overload_witness:
  "dhcp_get_option evil_packet DHCP_MESSAGE_TYPE = None"
  by (rule dhcp_get_option_hangs_on_overload) (simp_all add: evil_packet_def packet_ok_def)

text \<open>
  C32: Every frame that \<open>dhcp_send_raw_packet\<close> hands to the socket carries checksums that verify by the rule of the standards, a ones' complement
  sum of \<open>0xffff\<close>: the one over its IP header, and the UDP one over the pseudo header (both addresses, the protocol 17 and the length 556), the
  UDP header and the data. The data are the first 548 bytes of the packet.
\<close>

theorem dhcp_send_raw_packet_checksums:
  assumes "packet_ok p"
  shows "\<exists>ip udp. dhcp_send_raw_packet (Ok ()) (Ok ()) send p sip sport dip dport = send (ip @ udp @ take 548 (bytes_of_packet p)) \<and>
     length ip = 20 \<and> length udp = 8 \<and> length (take 548 (bytes_of_packet p)) = 548 \<and> drop 12 ip = bytes_32 sip @ bytes_32 dip \<and>
     ones_sum ip = 0xffff \<and>
     ones_sum (bytes_32 sip @ bytes_32 dip @ [0, 17, 2, 44] @ udp @ take 548 (bytes_of_packet p)) = 0xffff"
proof -
  let ?data = "take 548 (bytes_of_packet p)"
  let ?i = "dhcp_checksum (iphdr 0x45 (htons 576) 64 0 sip dip)"
  let ?u = "dhcp_checksum (iphdr 0 (htons 556) 0 0 sip dip @ udphdr (htons sport) (htons dport) (htons 556) 0 @ ?data)"
  let ?udp = "udphdr (htons sport) (htons dport) (htons 556) ?u"
  have "dhcp_checksum (iphdr 0x45 (htons 576) 64 ?i sip dip) = 0"
    using dhcp_checksum_verifies [of "[0x45, 0] @ bytes_16 (htons 576) @ [0, 0, 0, 0, 64, 17]" "bytes_32 sip @ bytes_32 dip"]
    by (simp add: iphdr_def)
  then have ip: "ones_sum (iphdr 0x45 (htons 576) 64 ?i sip dip) = 0xffff" using ones_sum_verifies by simp
  have "dhcp_checksum (iphdr 0 (htons 556) 0 0 sip dip @ ?udp @ ?data) = 0"
    using dhcp_checksum_verifies [of "iphdr 0 (htons 556) 0 0 sip dip @ bytes_16 (htons sport) @ bytes_16 (htons dport) @
        bytes_16 (htons 556)" ?data]
    by (simp add: udphdr_def)
  moreover have "dhcp_checksum (iphdr 0 (htons 556) 0 0 sip dip @ bs) = dhcp_checksum (bytes_32 sip @ bytes_32 dip @ [0, 17, 2, 44] @ bs)" for bs
  proof -
    have b: "bytes_16 (htons 556) = [2, 44]" "bytes_16 (0 :: u16) = [0, 0]" by code_simp+
    have "sum_words (iphdr 0 (htons 556) 0 0 sip dip @ bs) = sum_words (bytes_32 sip @ bytes_32 dip @ [0, 17, 2, 44] @ bs)"
      by (simp add: iphdr_def b sum_words_append)
    then show ?thesis by (simp add: dhcp_checksum_def)
  qed
  ultimately have "ones_sum (bytes_32 sip @ bytes_32 dip @ [0, 17, 2, 44] @ ?udp @ ?data) = 0xffff"
    using ones_sum_verifies by simp
  then show ?thesis
    using assms ip
    by - (rule exI [of _ "iphdr 0x45 (htons 576) 64 ?i sip dip"], rule exI [of _ ?udp],
        simp add: dhcp_send_raw_packet_def ip_udp_frame_def Let_def length_bytes_of_packet iphdr_def [of _ _ _ ?i] bytes_16_def)
qed

theorem dhcp_send_raw_packet_checksums_witness:
  "\<exists>ip udp. dhcp_send_raw_packet (Ok ()) (Ok ()) (\<lambda>bs. Ok (length bs)) demo_packet 0x0137a8c0 67 0xffffffff 68 =
       Ok (length (ip @ udp @ take 548 (bytes_of_packet demo_packet))) \<and>
     length ip = 20 \<and> length udp = 8 \<and> length (take 548 (bytes_of_packet demo_packet)) = 548 \<and>
     drop 12 ip = bytes_32 0x0137a8c0 @ bytes_32 0xffffffff \<and> ones_sum ip = 0xffff \<and>
     ones_sum (bytes_32 0x0137a8c0 @ bytes_32 0xffffffff @ [0, 17, 2, 44] @ udp @ take 548 (bytes_of_packet demo_packet)) = 0xffff"
  by (rule dhcp_send_raw_packet_checksums) (use demo_packet_opts in \<open>simp add: has_opts_def\<close>)

end
