(* ===== verification/Dhcp_Values.thy ===== *)
theory Dhcp_Values
  imports Dhcp_Common Cstring
begin

text \<open>
  Option values as the DHCP client keeps them, \<open>src/gdhcp/client.c\<close>: the text of an option, built by
  \<open>malloc_option_value_string\<close> in a buffer whose size is estimated beforehand, and the list of strings
  that \<open>get_option_value_list\<close> cuts it into. Fresh memory is uninitialised; reading it as a string is a
  \<open>Fault\<close>, like an access outside of the buffer.
\<close>

fun len_of_option_as_string :: "option_type \<Rightarrow> nat" where
  "len_of_option_as_string OPTION_UNKNOWN = 0"
| "len_of_option_as_string OPTION_IP = 17"
| "len_of_option_as_string OPTION_STRING = 1"
| "len_of_option_as_string OPTION_U8 = 5"
| "len_of_option_as_string OPTION_U16 = 7"
| "len_of_option_as_string OPTION_U32 = 12"

text \<open>\<open>sprintf\<close> of a string at position \<open>i\<close>, with its terminator.\<close>

definition sprint :: "char slot list \<Rightarrow> nat \<Rightarrow> string \<Rightarrow> char slot list result" where
  "sprint buf i s = memcpy buf i (map Init (s @ [NUL])) 0 (length s + 1)"

definition sprint_nip :: "u8 list \<Rightarrow> string" where
  "sprint_nip ip =
     dec_digits (unat (ip ! 0)) @ ''.'' @ dec_digits (unat (ip ! 1)) @ ''.'' @ dec_digits (unat (ip ! 2)) @ ''.'' @
     dec_digits (unat (ip ! 3))"

text \<open>The text of one value; nothing is printed for an 8-bit value.\<close>

definition value_text :: "option_type \<Rightarrow> u8 list \<Rightarrow> nat \<Rightarrow> string option result" where
  "value_text type m opt =
     (case type of
        OPTION_IP \<Rightarrow> rbind (mem_slice m opt 4) (\<lambda>ip. Ok (Some (sprint_nip ip)))
      | OPTION_U16 \<Rightarrow> rbind (get_be16 m opt) (\<lambda>v. Ok (Some (dec_digits (unat v))))
      | OPTION_U32 \<Rightarrow> rbind (get_be32 m opt) (\<lambda>v. Ok (Some (dec_digits (unat v))))
      | _ \<Rightarrow> Ok None)"

text \<open>
  The loop over the values; the caller has made sure that \<open>optlen\<close>, the length of a value, is not 0.
  Characters are bytes, so a string option is copied byte by byte.
\<close>

function value_loop ::
    "option_type \<Rightarrow> u8 list \<Rightarrow> nat \<Rightarrow> nat \<Rightarrow> nat \<Rightarrow> char slot list \<Rightarrow> char slot list result" where
  "value_loop type m opt len dest buf =
     (let optlen = dhcp_option_lengths type
      in if len < optlen \<or> optlen = 0 then Ok buf
         else if type = OPTION_STRING then
           rbind (mem_slice m opt len) (\<lambda>s. sprint buf dest (map (\<lambda>b. char_of (unat b)) s))
         else
           case value_text type m opt of
             Err e \<Rightarrow> Err e
           | Fault \<Rightarrow> Fault
           | Ok text \<Rightarrow>
               (case (case text of None \<Rightarrow> Ok buf | Some s \<Rightarrow> sprint buf dest s) of
                  Err e \<Rightarrow> Err e
                | Fault \<Rightarrow> Fault
                | Ok buf \<Rightarrow>
                    let dest = dest + (case text of None \<Rightarrow> 0 | Some s \<Rightarrow> length s)
                    in if len - optlen = 0 then Ok buf
                       else
                         case sprint buf dest '' '' of
                           Err e \<Rightarrow> Err e
                         | Fault \<Rightarrow> Fault
                         | Ok buf \<Rightarrow> value_loop type m (opt + optlen) (len - optlen) (dest + 1) buf))"
  by pat_completeness auto
termination
  by (relation "measure (\<lambda>(type, m, opt, len, dest, buf). len)") auto

declare value_loop.simps [simp del]

text \<open>\<open>opt\<close> is the address of the option's data; its length byte stands in front of it.\<close>

definition malloc_option_value_string :: "u8 list \<Rightarrow> nat \<Rightarrow> option_type \<Rightarrow> char slot list option result" where
  "malloc_option_value_string m opt type =
     rbind (mem_read m (opt - 1)) (\<lambda>l.
     let len = unat l; optlen = dhcp_option_lengths type
     in if optlen = 0 then Ok None
        else
          let upper_length = len_of_option_as_string type * (len div optlen)
          in rbind (value_loop type m opt len 0 (replicate (upper_length + 1) Uninit)) (\<lambda>buf. Ok (Some buf)))"

text \<open>The C string in a buffer.\<close>

fun read_cstr :: "char slot list \<Rightarrow> string result" where
  "read_cstr [] = Fault"
| "read_cstr (Uninit # buf) = Fault"
| "read_cstr (Init c # buf) = (if c = NUL then Ok [] else rbind (read_cstr buf) (\<lambda>s. Ok (c # s)))"

fun split_spaces :: "string \<Rightarrow> string list" where
  "split_spaces [] = [[]]"
| "split_spaces (c # s) = (if c = SPACE then [] # split_spaces s else (c # hd (split_spaces s)) # tl (split_spaces s))"

text \<open>A \<open>NULL\<close> value has no list. The type is compared with its list flag.\<close>

definition get_option_value_list :: "char slot list option \<Rightarrow> option_type \<times> bool \<Rightarrow> string list option result" where
  "get_option_value_list value type =
     (case value of
        None \<Rightarrow> Ok None
      | Some buf \<Rightarrow>
          rbind (read_cstr buf) (\<lambda>s. Ok (Some (if type = (OPTION_STRING, False) then [s] else split_spaces s))))"

text \<open>The values of the option whose data is at \<open>opt\<close>.\<close>

definition option_values :: "u8 list \<Rightarrow> nat \<Rightarrow> option_type \<times> bool \<Rightarrow> string list option result" where
  "option_values m opt type =
     rbind (malloc_option_value_string m opt (fst type)) (\<lambda>value. get_option_value_list value type)"

text \<open>
  The requested options of a received packet, entered into the table of values. \<open>None\<close> is a scan that
  never ends.
\<close>

fun get_request ::
    "dhcp_packet \<Rightarrow> u32 list \<Rightarrow> (u8 \<rightharpoonup> string list) \<Rightarrow> (u8 \<rightharpoonup> string list) result option" where
  "get_request p [] hash = Some (Ok hash)"
| "get_request p (c # cs) hash =
     (let code = ucast c :: u8
      in case dhcp_get_option p code of
           None \<Rightarrow> None
         | Some (Err e) \<Rightarrow> Some (Err e)
         | Some Fault \<Rightarrow> Some Fault
         | Some (Ok None) \<Rightarrow> get_request p cs (hash(code := None))
         | Some (Ok (Some opt)) \<Rightarrow>
             (case option_values (opt_mem p) opt (dhcp_get_code_type code) of
                Err e \<Rightarrow> Some (Err e)
              | Fault \<Rightarrow> Some Fault
              | Ok values \<Rightarrow> get_request p cs (hash(code := values))))"

subsection \<open>Numerals are short and have no blanks\<close>

lemma length_dec_digits: "0 < k \<Longrightarrow> n < 10 ^ k \<Longrightarrow> length (dec_digits n) \<le> k"
proof (induction n arbitrary: k rule: dec_digits.induct)
  case (1 n)
  show ?case
  proof (cases "n < 10")
    case False
    obtain j where "k = Suc j" using 1(2) by (cases k) auto
    moreover from this have "0 < j" using 1(3) False by (cases j) auto
    ultimately have j: "k = Suc j" "0 < j" by simp_all
    then have "length (dec_digits (n div 10)) \<le> j" using 1(1) [OF False] 1(3) by (simp add: less_mult_imp_div_less mult.commute)
    then show ?thesis using False j by (subst dec_digits.simps) simp
  qed (use 1 in \<open>subst dec_digits.simps, simp\<close>)
qed

definition plain_text :: "string \<Rightarrow> bool" where
  "plain_text s \<longleftrightarrow> NUL \<notin> set s \<and> SPACE \<notin> set s"

lemma plain_digits: "plain_text (dec_digits n)"
  using dec_digits_isdigit [of _ n] by (auto simp: plain_text_def c_isdigit_def dest!: dec_digits_isdigit)

lemma plain_append: "plain_text (s @ t) \<longleftrightarrow> plain_text s \<and> plain_text t" "plain_text ''.''"
  by (auto simp: plain_text_def)

text \<open>The widest text of a value, without the blank and the terminator.\<close>

definition width :: "option_type \<Rightarrow> nat" where
  "width type = len_of_option_as_string type - 2"

lemma value_text_spec:
  assumes "type \<in> {OPTION_IP, OPTION_U16, OPTION_U32}" and "opt + dhcp_option_lengths type \<le> length m"
  obtains s where "value_text type m opt = Ok (Some s)" "plain_text s" "length s \<le> width type"
proof -
  have d8: "length (dec_digits (unat (b :: u8))) \<le> 3" for b
    using unsigned_less [of b, where ?'a = nat] by (intro length_dec_digits) simp_all
  have d16: "length (dec_digits (unat (w :: u16))) \<le> 5" for w
    using unsigned_less [of w, where ?'a = nat] by (intro length_dec_digits) simp_all
  have d32: "length (dec_digits (unat (w :: u32))) \<le> 10" for w
    using unsigned_less [of w, where ?'a = nat] by (intro length_dec_digits) simp_all
  have "length (sprint_nip ip) \<le> 15" for ip
    using d8 [of "ip ! 0"] d8 [of "ip ! 1"] d8 [of "ip ! 2"] d8 [of "ip ! 3"] by (simp add: sprint_nip_def)
  moreover have "plain_text (sprint_nip ip)" for ip
    unfolding sprint_nip_def by (simp only: plain_append plain_digits)
  ultimately show ?thesis
    using assms that d16 d32 plain_digits
    by (auto simp: value_text_def mem_slice_def get_be16_def get_be32_def width_def)
qed

subsection \<open>The loop writes the values\<close>

fun join_spaces :: "string list \<Rightarrow> string" where
  "join_spaces [] = []"
| "join_spaces [s] = s"
| "join_spaces (s # t # ss) = s @ SPACE # join_spaces (t # ss)"

lemma split_spaces_plain: "SPACE \<notin> set s \<Longrightarrow> split_spaces (s @ r) = (s @ hd (split_spaces r)) # tl (split_spaces r)"
proof (induction s)
  case Nil
  have "split_spaces r \<noteq> []" by (cases r) auto
  then show ?case by simp
qed auto

lemma split_join: "ss \<noteq> [] \<Longrightarrow> \<forall>s\<in>set ss. SPACE \<notin> set s \<Longrightarrow> split_spaces (join_spaces ss) = ss"
proof (induction ss rule: join_spaces.induct)
  case (2 s)
  then show ?case using split_spaces_plain [of s "[]"] by simp
next
  case (3 s t ss)
  then show ?case using split_spaces_plain [of s "SPACE # join_spaces (t # ss)"] by simp
qed simp

lemma read_cstr_Init: "NUL \<notin> set s \<Longrightarrow> read_cstr (map Init s @ Init NUL # buf) = Ok s"
  by (induction s) auto

lemma sprint_at:
  "length s < length r \<Longrightarrow>
     sprint (map Init pre @ r) (length pre) s = Ok (map Init (pre @ s) @ Init NUL # drop (length s + 1) r)"
  by (simp add: sprint_def memcpy_def)

text \<open>
  \<open>item type (c, s)\<close>: wherever the bytes \<open>c\<close> stand in memory, they are printed as \<open>s\<close>.
\<close>

definition item :: "option_type \<Rightarrow> u8 list \<times> string \<Rightarrow> bool" where
  "item type cs \<longleftrightarrow> length (fst cs) = dhcp_option_lengths type \<and> plain_text (snd cs) \<and> length (snd cs) \<le> width type \<and>
     (\<forall>pre post. value_text type (pre @ fst cs @ post) (length pre) = Ok (Some (snd cs)))"

lemma value_loop_items:
  assumes type: "type \<in> {OPTION_IP, OPTION_U16, OPTION_U32}" and "items \<noteq> []" "\<forall>cs\<in>set items. item type cs"
    and "NUL \<notin> set txt0" "(width type + 1) * length items + 1 \<le> length r"
  shows "\<exists>buf'. value_loop type (pre @ concat (map fst items) @ post) (length pre) (dhcp_option_lengths type * length items)
      (length txt0) (map Init txt0 @ r) = Ok buf' \<and> read_cstr buf' = Ok (txt0 @ join_spaces (map snd items))"
  using assms(2-)
proof (induction items arbitrary: pre txt0 r)
  case outer: (Cons cs items)
  obtain c s where cs: "cs = (c, s)" by fastforce
  let ?m = "pre @ concat (map fst (cs # items)) @ post" and ?n = "dhcp_option_lengths type"
  have it: "length c = ?n" "plain_text s" "length s \<le> width type"
    "value_text type ?m (length pre) = Ok (Some s)" using outer.prems(2) by (simp_all add: item_def cs)
  have n: "?n \<noteq> 0" "type \<noteq> OPTION_STRING" using type by auto
  have ls: "length s < length r" "length s + 1 < length r \<or> items = []" using outer.prems(4) it(3) by (auto simp: Suc_le_eq)
  let ?b1 = "map Init (txt0 @ s) @ Init NUL # drop (length s + 1) r"
  have s1: "sprint (map Init txt0 @ r) (length txt0) s = Ok ?b1" using sprint_at [OF ls(1)] .
  show ?case
  proof (cases items)
    case Nil
    have "value_loop type ?m (length pre) (?n * length (cs # items)) (length txt0) (map Init txt0 @ r) = Ok ?b1"
      using it(4) n s1 Nil by (subst value_loop.simps) (simp add: Let_def)
    moreover have "read_cstr ?b1 = Ok (txt0 @ s)" using it(2) outer.prems(3) by (intro read_cstr_Init) (simp add: plain_text_def)
    ultimately show ?thesis using Nil cs by simp
  next
    case (Cons cs' items')
    let ?r1 = "Init NUL # drop (length s + 1) r"
    let ?b2 = "map Init (txt0 @ s @ [SPACE]) @ Init NUL # drop (length s + 2) r"
    have "length [SPACE] < length ?r1" using ls(2) Cons by auto
    from sprint_at [OF this, of "txt0 @ s"] have s2: "sprint ?b1 (length (txt0 @ s)) [SPACE] = Ok ?b2" by simp
    have step: "value_loop type ?m (length pre) (?n * length (cs # items)) (length txt0) (map Init txt0 @ r) =
        value_loop type ?m (length pre + ?n) (?n * length items) (length (txt0 @ s) + 1) ?b2"
      using it(4) n s1 s2 Cons by (subst value_loop.simps) (simp add: Let_def)
    have "\<exists>buf'. value_loop type ((pre @ c) @ concat (map fst items) @ post) (length (pre @ c)) (?n * length items)
        (length (txt0 @ s @ [SPACE])) (map Init (txt0 @ s @ [SPACE]) @ Init NUL # drop (length s + 2) r) = Ok buf' \<and>
        read_cstr buf' = Ok ((txt0 @ s @ [SPACE]) @ join_spaces (map snd items))"
    proof (rule outer.IH)
      show "(width type + 1) * length items + 1 \<le> length (Init NUL # drop (length s + 2) r)"
        using outer.prems(4) it(3) Cons by (simp add: algebra_simps)
    qed (use Cons outer.prems it(2) in \<open>auto simp: plain_text_def\<close>)
    then show ?thesis using step cs it(1) Cons by (auto simp: ac_simps)
  qed
qed simp

subsection \<open>Properties\<close>

lemma opt_pos_split:
  "map_of os code = Some d \<Longrightarrow> \<exists>pre post. enc_opts os = pre @ code # of_nat (length d) # d @ post \<and> opt_pos code os = Some (length pre + 2)"
proof (induction os)
  case (Cons ov os)
  obtain c e where ov: "ov = (c, e)" by fastforce
  show ?case
  proof (cases "c = code")
    case True
    then show ?thesis using Cons.prems by (intro exI [of _ "[]"] exI [of _ "enc_opts os"]) (simp add: ov)
  next
    case False
    then obtain pre post where "enc_opts os = pre @ code # of_nat (length d) # d @ post" "opt_pos code os = Some (length pre + 2)"
      using Cons by (auto simp: ov)
    then show ?thesis using False by (intro exI [of _ "c # of_nat (length e) # e @ pre"] exI [of _ post]) (simp add: ov)
  qed
qed simp

lemma dhcp_get_option_split:
  assumes "has_opts p os" and "\<forall>ov\<in>set os. fst ov \<noteq> DHCP_OPTION_OVERLOAD" and "map_of os code = Some d"
  obtains pre post where "opt_mem p = pre @ d @ post" "dhcp_get_option p code = Some (Ok (Some (length pre)))"
    "mem_read (opt_mem p) (length pre - 1) = Ok (of_nat (length d))"
proof -
  obtain rest where rest: "options p = enc_opts os @ DHCP_END # rest" and ok: "packet_ok p"
    using assms(1) by (auto simp: has_opts_def)
  obtain pre post where e: "enc_opts os = pre @ code # of_nat (length d) # d @ post" "opt_pos code os = Some (length pre + 2)"
    using opt_pos_split [OF assms(3)] by blast
  let ?pre = "sname p @ pfile p @ bytes_32 (cookie p) @ pre @ [code, of_nat (length d)]"
  have m: "opt_mem p = ?pre @ d @ post @ DHCP_END # rest" by (simp add: opt_mem_def rest e)
  moreover have l: "length ?pre = 196 + (length pre + 2)" using ok by (simp add: packet_ok_def)
  moreover have "dhcp_get_option p code = Some (Ok (Some (length ?pre)))"
    using dhcp_get_option_enc [OF assms(1,2), of code] e(2) l by simp
  moreover have "mem_read (opt_mem p) (length ?pre - 1) = Ok (of_nat (length d))"
    unfolding m by (simp add: mem_read_def nth_append)
  ultimately show ?thesis using that by blast
qed

lemma option_values_items:
  assumes type: "type \<in> {OPTION_IP, OPTION_U16, OPTION_U32}" and items: "items \<noteq> []" "\<forall>cs\<in>set items. item type cs"
    and m: "m = pre @ concat (map fst items) @ post" "mem_read m (length pre - 1) = Ok (of_nat (length (concat (map fst items))))"
    and len: "length (concat (map fst items)) < 256"
  shows "option_values m (length pre) (type, b) = Ok (Some (map snd items))"
proof -
  let ?n = "dhcp_option_lengths type"
  have "length (concat (map fst xs)) = ?n * length xs" if "\<forall>cs\<in>set xs. item type cs" for xs
    using that by (induction xs) (auto simp: item_def)
  then have l: "length (concat (map fst items)) = ?n * length items" using items(2) by blast
  then have ln: "unat (of_nat (length (concat (map fst items))) :: u8) = ?n * length items"
    using unat_len_u8 [OF len] by (simp only: l)
  have n: "?n \<noteq> 0" using type by auto
  let ?buf = "replicate (len_of_option_as_string type * length items + 1) (Uninit :: char slot)"
  have "(width type + 1) * length items + 1 \<le> length ?buf" using type by (auto simp: width_def)
  then obtain buf where buf: "value_loop type m (length pre) (?n * length items) 0 ?buf = Ok buf"
      "read_cstr buf = Ok (join_spaces (map snd items))"
    using value_loop_items [OF type items, of "[]" ?buf pre post] unfolding m(1) by auto
  have "malloc_option_value_string m (length pre) type = Ok (Some buf)"
    unfolding malloc_option_value_string_def m(2) using buf(1) n by (simp add: ln del: replicate_Suc)
  moreover have "split_spaces (join_spaces (map snd items)) = map snd items"
    using items by (intro split_join) (auto simp: item_def plain_text_def)
  moreover have "type \<noteq> OPTION_STRING" using type by auto
  ultimately show ?thesis using buf(2) by (simp add: option_values_def get_option_value_list_def)
qed

lemma item_ip: "length ip = 4 \<Longrightarrow> item OPTION_IP (ip, sprint_nip ip)"
proof -
  assume ip: "length ip = 4"
  have "value_text OPTION_IP (pre @ ip @ post) (length pre) = Ok (Some (sprint_nip ip))" for pre post
    using ip by (simp add: value_text_def mem_slice_def)
  moreover obtain s where "value_text OPTION_IP ip 0 = Ok (Some s)" "plain_text s" "length s \<le> width OPTION_IP"
    by (rule value_text_spec [of OPTION_IP 0 ip]) (use ip in auto)
  moreover have "value_text OPTION_IP ip 0 = Ok (Some (sprint_nip ip))" using ip by (simp add: value_text_def mem_slice_def)
  ultimately show ?thesis using ip by (simp add: item_def)
qed

text \<open>
  C40: What a server tells a client arrives: a packet that carries an address option, such as the subnet
  mask, the routers or the name servers, gives the client exactly the listed addresses in dotted form.
  The buffer that is estimated for their text is never exceeded.
\<close>

theorem get_request_addresses:
  assumes "has_opts p os" and "\<forall>ov\<in>set os. fst ov \<noteq> DHCP_OPTION_OVERLOAD" and "map_of os code = Some (concat ips)"
    and "ips \<noteq> []" and "\<forall>ip\<in>set ips. length ip = 4" and "length (concat ips) < 256"
    and "fst (dhcp_get_code_type code) = OPTION_IP"
  shows "get_request p [ucast code] hash = Some (Ok (hash(code \<mapsto> map sprint_nip ips)))"
proof -
  let ?items = "map (\<lambda>ip. (ip, sprint_nip ip)) ips"
  have c: "concat (map fst ?items) = concat ips" "map snd ?items = map sprint_nip ips" by (simp_all add: comp_def)
  obtain pre post where s: "opt_mem p = pre @ concat ips @ post" "dhcp_get_option p code = Some (Ok (Some (length pre)))"
      "mem_read (opt_mem p) (length pre - 1) = Ok (of_nat (length (concat ips)))"
    by (rule dhcp_get_option_split [OF assms(1-3)])
  have "option_values (opt_mem p) (length pre) (OPTION_IP, snd (dhcp_get_code_type code)) = Ok (Some (map snd ?items))"
    by (rule option_values_items) (use assms s c item_ip in auto)
  moreover have "(OPTION_IP, snd (dhcp_get_code_type code)) = dhcp_get_code_type code" using assms(7) by (metis prod.collapse)
  moreover have "(ucast (ucast code :: u32) :: u8) = code" by (rule bit_word_eqI) (simp add: bit_simps)
  ultimately show ?thesis using s(2) by (simp add: comp_def)
qed

definition demo_ack :: dhcp_packet where
  "demo_ack = \<lparr>op = BOOTREPLY, htype = 1, hlen = 6, hops = 0, xid = 0, secs = 0, flags = 0, ciaddr = 0, yiaddr = 0,
      siaddr_nip = 0, gateway_nip = 0, chaddr = replicate 16 0, sname = replicate 64 0, pfile = replicate 128 0,
      cookie = htonl DHCP_MAGIC,
      options = enc_opts [(0x06, [10, 0, 0, 1] @ [192, 168, 255, 254])] @ DHCP_END # replicate 377 0\<rparr>"

theorem get_request_addresses_witness:
  "get_request demo_ack [ucast (0x06 :: u8)] Map.empty = Some (Ok [0x06 \<mapsto> map sprint_nip [[10, 0, 0, 1], [192, 168, 255, 254]]])"
proof (rule get_request_addresses)
  show "has_opts demo_ack [(0x06, concat [[10, 0, 0, 1], [192, 168, 255, 254]])]"
    by (simp add: has_opts_def packet_ok_def demo_ack_def opt_ok_def)
  show "fst (dhcp_get_code_type 0x06) = OPTION_IP" by code_simp
qed simp_all

text \<open>
  An option that is shorter than one value of its type leaves the client with uninitialised memory:
  the buffer for its text is never written, and reading it as a string is undefined.
\<close>

lemma short_option_reads_uninitialised:
  assumes "mem_read m (opt - 1) = Ok l" and "unat l < dhcp_option_lengths type" and "type \<noteq> OPTION_STRING"
  shows "option_values m opt (type, b) = Fault"
proof -
  have "dhcp_option_lengths type \<noteq> 0" "unat l div dhcp_option_lengths type = 0" using assms(2) by auto
  moreover have "value_loop type m opt (unat l) 0 buf = Ok buf" for buf
    using assms(2) by (subst value_loop.simps) simp
  ultimately have "malloc_option_value_string m opt type = Ok (Some [Uninit])"
    unfolding malloc_option_value_string_def assms(1) by simp
  then show ?thesis by (simp add: option_values_def get_option_value_list_def)
qed

lemma short_option_reads_uninitialised_witness: "option_values [0x01, 2, 255, 255, 255] 2 (OPTION_IP, False) = Fault"
  by (rule short_option_reads_uninitialised [of _ _ 2]) (simp_all add: mem_read_def)

end
