(* ===== verification/Dhcp_Client.thy ===== *)
theory Dhcp_Client
  imports Dhcp_Values
begin

text \<open>
  The DHCP client of \<open>src/gdhcp/client.c\<close> for IPv4 and, with \<open>src/gdhcp/ipv4ll.c\<close>, for link-local
  addresses: its state machine, the packets it sends and the ones it accepts. The branches for
  DHCPv6 are left out.

  GLib's main loop is part of the state: the running timers by their source id, and the field
  \<open>timeout\<close> that holds one id, 0 or a stale one. A timer whose callback returns \<open>FALSE\<close> is removed when
  the callback is done. What the client does to the outside world, packets and callbacks of its user,
  is recorded in \<open>outputs\<close>. The clock, random numbers and the success of opening a socket are parameters
  of an event.
\<close>

unbundle bit_operations_syntax

subsection \<open>State\<close>

datatype ListenMode = L_NONE | L2 | L3 | L_ARP

datatype ClientState =
    INIT_SELECTING | REQUESTING | BOUND | RENEWING | REBINDING | RELEASED | IPV4LL_PROBE | IPV4LL_ANNOUNCE
  | IPV4LL_MONITOR | IPV4LL_DEFEND

datatype client_type = G_DHCP_IPV4 | G_DHCP_IPV4LL

datatype client_event =
    LEASE_AVAILABLE | IPV4LL_AVAILABLE | NO_LEASE | LEASE_LOST | IPV4LL_LOST | ADDRESS_CONFLICT

text \<open>The timer callbacks.\<close>

datatype timer =
    discover_timeout | request_timeout | start_renew_timeout | start_renew_request_timeout | start_rebound_timeout
  | restart_dhcp_timeout | send_probe_packet | ipv4ll_probe_timeout | ipv4ll_announce_timeout | ipv4ll_defend_timeout

datatype client_output =
    Sent_raw dhcp_packet | Sent_kernel dhcp_packet u32 u32 | Sent_arp "u8 list" u32 u32 | Notify client_event

record GDHCPClient =
  ctype :: client_type
  cstate :: ClientState
  mac_address :: "u8 list"
  client_xid :: u32
  server_ip :: u32
  requested_ip :: u32
  assigned_ip :: "u32 option"
  start :: int
  client_lease_seconds :: u32
  listen_mode :: ListenMode
  watched :: bool
  retry_times :: u8
  ack_retry_times :: u8
  conflicts :: u8
  timeout :: nat
  sources :: "nat \<rightharpoonup> timer \<times> nat"
  next_source :: nat
  request_list :: "u32 list"
  send_value_hash :: "u8 \<rightharpoonup> u8 list"
  code_value_hash :: "u8 \<rightharpoonup> string list"
  registered :: "client_event \<Rightarrow> bool"
  last_address :: "string option"
  outputs :: "client_output list"

text \<open>
  What an event gets from outside: the time, results of \<open>rand\<close> for the transaction id and for delays, the
  address that \<open>ipv4ll_random_ip\<close> picks, which sockets can be opened, \<open>inet_addr\<close>, and the order in which
  \<open>g_hash_table_foreach\<close> visits the options to send.
\<close>

record client_env =
  c_now :: int
  c_rand :: u32
  c_delay :: u32
  c_pick :: u32
  c_open :: "ListenMode \<Rightarrow> bool"
  inet_addr :: "string \<Rightarrow> u32"
  c_keys :: "(u8 \<rightharpoonup> u8 list) \<Rightarrow> u8 list"

abbreviation (input) DISCOVER_RETRIES :: u8 where "DISCOVER_RETRIES \<equiv> 10"
abbreviation (input) REQUEST_RETRIES :: u8 where "REQUEST_RETRIES \<equiv> 5"
abbreviation (input) PROBE_NUM :: u8 where "PROBE_NUM \<equiv> 3"
abbreviation (input) ANNOUNCE_NUM :: u8 where "ANNOUNCE_NUM \<equiv> 2"
abbreviation (input) MAX_CONFLICTS :: u8 where "MAX_CONFLICTS \<equiv> 10"
abbreviation (input) LINKLOCAL_ADDR :: u32 where "LINKLOCAL_ADDR \<equiv> 0xa9fe0000"
abbreviation (input) DHCP_PARAM_REQ :: u8 where "DHCP_PARAM_REQ \<equiv> 0x37"
abbreviation (input) DHCP_MAX_SIZE :: u8 where "DHCP_MAX_SIZE \<equiv> 0x39"

subsection \<open>Timers and callbacks\<close>

definition g_timeout_add :: "timer \<Rightarrow> nat \<Rightarrow> (GDHCPClient, unit) op" where
  "g_timeout_add t ms =
     smod (\<lambda>c. c\<lparr>sources := (sources c)(next_source c \<mapsto> (t, ms)), timeout := next_source c,
       next_source := next_source c + 1\<rparr>)"

definition g_source_remove :: "nat \<Rightarrow> (GDHCPClient, unit) op" where
  "g_source_remove i = smod (\<lambda>c. c\<lparr>sources := (sources c)(i := None)\<rparr>)"

definition remove_timeout :: "(GDHCPClient, unit) op" where
  "remove_timeout =
     sbind (sget timeout) (\<lambda>i. if i > 0 then g_source_remove i else sret ())"

definition clear_timeout :: "(GDHCPClient, unit) op" where
  "clear_timeout =
     sbind (sget timeout) (\<lambda>i.
     if i > 0 then sbind (g_source_remove i) (\<lambda>_. smod (\<lambda>c. c\<lparr>timeout := 0\<rparr>)) else sret ())"

definition notify :: "client_event \<Rightarrow> (GDHCPClient, unit) op" where
  "notify ev = smod (\<lambda>c. if registered c ev then c\<lparr>outputs := outputs c @ [Notify ev]\<rparr> else c)"

definition emit :: "client_output \<Rightarrow> (GDHCPClient, unit) op" where
  "emit x = smod (\<lambda>c. c\<lparr>outputs := outputs c @ [x]\<rparr>)"

subsection \<open>Packets\<close>

definition client_init_packet :: "GDHCPClient \<Rightarrow> u8 \<Rightarrow> dhcp_packet result" where
  "client_init_packet c type =
     rbind (dhcp_init_header type) (\<lambda>p.
     rbind (memcpy (chaddr p) 0 (mac_address c) 0 6) (\<lambda>ch. Ok (p\<lparr>chaddr := ch\<rparr>)))"

fun write_codes :: "u8 list \<Rightarrow> nat \<Rightarrow> u32 list \<Rightarrow> u8 list result" where
  "write_codes m i [] = Ok m"
| "write_codes m i (c # cs) = rbind (mem_write m i (ucast c)) (\<lambda>m. write_codes m (i + 1) cs)"

definition add_request_options :: "GDHCPClient \<Rightarrow> dhcp_packet \<Rightarrow> dhcp_packet result" where
  "add_request_options c p =
     rbind (dhcp_end_option (options p)) (\<lambda>end_pos.
     rbind (write_codes (options p) (end_pos + 2) (request_list c)) (\<lambda>m.
     let len = length (request_list c)
     in if len = 0 then Ok (p\<lparr>options := m\<rparr>)
        else
          rbind (mem_write m end_pos DHCP_PARAM_REQ) (\<lambda>m.
          rbind (mem_write m (end_pos + 1) (of_nat len)) (\<lambda>m.
          rbind (mem_write m (end_pos + 2 + len) DHCP_END) (\<lambda>m. Ok (p\<lparr>options := m\<rparr>))))))"

definition add_binary_option :: "u8 list option \<Rightarrow> dhcp_packet \<Rightarrow> dhcp_packet result" where
  "add_binary_option v p = (case v of None \<Rightarrow> Ok p | Some opt \<Rightarrow> dhcp_add_binary_option p opt)"

definition add_send_options :: "client_env \<Rightarrow> GDHCPClient \<Rightarrow> dhcp_packet \<Rightarrow> dhcp_packet result" where
  "add_send_options E c p =
     foldl (\<lambda>r k. rbind r (add_binary_option (send_value_hash c k))) (Ok p) (c_keys E (send_value_hash c))"

definition dhcp_attempt_secs :: "client_env \<Rightarrow> GDHCPClient \<Rightarrow> u16" where
  "dhcp_attempt_secs E c = htons (word_of_int (min (c_now E - start c) 65535))"

definition discover_packet :: "client_env \<Rightarrow> GDHCPClient \<Rightarrow> u32 \<Rightarrow> dhcp_packet result" where
  "discover_packet E c requested =
     rbind (client_init_packet c DHCPDISCOVER) (\<lambda>p.
     let p = p\<lparr>xid := client_xid c, secs := dhcp_attempt_secs E c\<rparr>
     in rbind (if requested \<noteq> 0 then dhcp_add_option_uint32 p DHCP_REQUESTED_IP requested else Ok p) (\<lambda>p.
        rbind (dhcp_add_option_uint16 p DHCP_MAX_SIZE 576) (\<lambda>p.
        rbind (add_request_options c p) (\<lambda>p. add_send_options E c p))))"

definition send_discover :: "client_env \<Rightarrow> u32 \<Rightarrow> (GDHCPClient, unit) op" where
  "send_discover E requested = sbind (\<lambda>c. (c, discover_packet E c requested)) (\<lambda>p. emit (Sent_raw p))"

definition select_packet :: "client_env \<Rightarrow> GDHCPClient \<Rightarrow> dhcp_packet result" where
  "select_packet E c =
     rbind (client_init_packet c DHCPREQUEST) (\<lambda>p.
     let p = p\<lparr>xid := client_xid c, secs := dhcp_attempt_secs E c\<rparr>
     in rbind (dhcp_add_option_uint32 p DHCP_REQUESTED_IP (requested_ip c)) (\<lambda>p.
        rbind (dhcp_add_option_uint32 p DHCP_SERVER_ID (server_ip c)) (\<lambda>p.
        rbind (add_request_options c p) (\<lambda>p. add_send_options E c p))))"

definition send_select :: "client_env \<Rightarrow> (GDHCPClient, unit) op" where
  "send_select E = sbind (\<lambda>c. (c, select_packet E c)) (\<lambda>p. emit (Sent_raw p))"

text \<open>Renewing and rebinding send the same packet, one to the server and one to everybody.\<close>

definition renew_packet :: "client_env \<Rightarrow> GDHCPClient \<Rightarrow> dhcp_packet result" where
  "renew_packet E c =
     rbind (client_init_packet c DHCPREQUEST) (\<lambda>p.
     let p = p\<lparr>xid := client_xid c, ciaddr := htonl (requested_ip c)\<rparr>
     in rbind (add_request_options c p) (\<lambda>p. add_send_options E c p))"

definition send_renew :: "client_env \<Rightarrow> (GDHCPClient, unit) op" where
  "send_renew E =
     sbind (\<lambda>c. (c, renew_packet E c)) (\<lambda>p.
     sbind (sget (\<lambda>c. (requested_ip c, server_ip c))) (\<lambda>(src, dst). emit (Sent_kernel p src dst)))"

definition send_rebound :: "client_env \<Rightarrow> (GDHCPClient, unit) op" where
  "send_rebound E = sbind (\<lambda>c. (c, renew_packet E c)) (\<lambda>p. emit (Sent_raw p))"

definition send_release :: "client_env \<Rightarrow> u32 \<Rightarrow> u32 \<Rightarrow> (GDHCPClient, unit) op" where
  "send_release E server ci =
     sbind (\<lambda>c. (c, client_init_packet c DHCPRELEASE)) (\<lambda>p.
     sbind (slift (dhcp_add_option_uint32 (p\<lparr>xid := c_rand E, ciaddr := htonl ci\<rparr>) DHCP_SERVER_ID server)) (\<lambda>p.
     emit (Sent_kernel p ci server)))"

subsection \<open>Link-local addresses\<close>

text \<open>
  \<open>rs\<close> are the results of \<open>rand\<close>, \<open>n\<close> the next one to be used; \<open>None\<close> is a run that never finds one.
\<close>

partial_function (option) random_ip_loop :: "(nat \<Rightarrow> u32) \<Rightarrow> nat \<Rightarrow> u32 option" where
  "random_ip_loop rs n =
     (let tmp = rs n AND 0xffff in if tmp > 0xffff - 0x0200 then random_ip_loop rs (n + 1) else Some tmp)"

definition ipv4ll_random_ip :: "(nat \<Rightarrow> u32) \<Rightarrow> u32 option" where
  "ipv4ll_random_ip rs = map_option (\<lambda>tmp. LINKLOCAL_ADDR + 0x0100 + tmp) (random_ip_loop rs 0)"

definition ipv4ll_random_delay_ms :: "u32 \<Rightarrow> u32 \<Rightarrow> u32" where
  "ipv4ll_random_delay_ms r s = r mod (s * 1000)"

text \<open>The ARP request: the hardware type, the protocol, the lengths and the operation, then the addresses.\<close>

definition ipv4ll_arp_packet :: "u8 list \<Rightarrow> u32 \<Rightarrow> u32 \<Rightarrow> u8 list" where
  "ipv4ll_arp_packet source_eth source_ip target_ip =
     bytes_16 (htons 1) @ bytes_16 (htons 0x0800) @ [6, 4] @ bytes_16 (htons 1) @
     take 6 source_eth @ bytes_32 (htonl source_ip) @ replicate 6 0 @ bytes_32 (htonl target_ip)"

definition ipv4ll_send_arp_packet :: "u32 \<Rightarrow> u32 \<Rightarrow> (GDHCPClient, unit) op" where
  "ipv4ll_send_arp_packet source_ip target_ip =
     sbind (sget mac_address) (\<lambda>mac. emit (Sent_arp (ipv4ll_arp_packet mac source_ip target_ip) source_ip target_ip))"

subsection \<open>Listening\<close>

definition switch_listening_mode :: "client_env \<Rightarrow> ListenMode \<Rightarrow> (GDHCPClient, unit) op" where
  "switch_listening_mode E mode =
     sbind (sget listen_mode) (\<lambda>cur.
     if cur = mode then sret ()
     else
       sbind (if cur \<noteq> L_NONE then smod (\<lambda>c. c\<lparr>listen_mode := L_NONE, watched := False\<rparr>) else sret ()) (\<lambda>_.
       if mode = L_NONE then sret ()
       else if \<not> c_open E mode then serr EIO
       else smod (\<lambda>c. c\<lparr>listen_mode := mode, watched := True\<rparr>)))"

text \<open>Most callers ignore whether the switch worked.\<close>

definition ignore :: "(GDHCPClient, 'a) op \<Rightarrow> (GDHCPClient, unit) op" where
  "ignore f c = (case f c of (c, Ok x) \<Rightarrow> (c, Ok ()) | (c, Err e) \<Rightarrow> (c, Ok ()) | (c, Fault) \<Rightarrow> (c, Fault))"

subsection \<open>The link-local state machine\<close>

definition run_send_probe_packet :: "client_env \<Rightarrow> (GDHCPClient, unit) op" where
  "run_send_probe_packet E =
     sbind (smod (\<lambda>c. if requested_ip c = 0 then c\<lparr>requested_ip := c_pick E\<rparr> else c)) (\<lambda>_.
     sbind (sget retry_times) (\<lambda>retries.
     sbind (if retries = 1
            then sbind (smod (\<lambda>c. c\<lparr>cstate := IPV4LL_PROBE\<rparr>)) (\<lambda>_. ignore (switch_listening_mode E L_ARP))
            else sret ()) (\<lambda>_.
     sbind (sget requested_ip) (\<lambda>ip.
     sbind (ipv4ll_send_arp_packet 0 ip) (\<lambda>_.
     g_timeout_add ipv4ll_probe_timeout
       (if retries < PROBE_NUM then unat (ipv4ll_random_delay_ms (c_delay E) 1) + 1000 else 2000))))))"

definition send_announce_packet :: "(GDHCPClient, unit) op" where
  "send_announce_packet =
     sbind (sget requested_ip) (\<lambda>ip.
     sbind (ipv4ll_send_arp_packet ip ip) (\<lambda>_.
     sbind remove_timeout (\<lambda>_.
     sbind (smod (\<lambda>c. c\<lparr>timeout := 0\<rparr>)) (\<lambda>_.
     sbind (sget cstate) (\<lambda>st.
     if st = IPV4LL_DEFEND then g_timeout_add ipv4ll_defend_timeout 10000
     else g_timeout_add ipv4ll_announce_timeout 2000)))))"

text \<open>\<open>c_pick\<close> is what \<open>ipv4ll_random_ip\<close> returns for the seed made of the fifth byte of the hardware address.\<close>

definition ipv4ll_start :: "client_env \<Rightarrow> (GDHCPClient, unit) op" where
  "ipv4ll_start E =
     sbind clear_timeout (\<lambda>_.
     sbind (ignore (switch_listening_mode E L_NONE)) (\<lambda>_.
     sbind (smod (\<lambda>c. c\<lparr>retry_times := 0, requested_ip := c_pick E\<rparr>)) (\<lambda>_.
     sbind (smod (\<lambda>c. c\<lparr>retry_times := retry_times c + 1\<rparr>)) (\<lambda>_.
     g_timeout_add send_probe_packet (unat (ipv4ll_random_delay_ms (c_delay E) 1))))))"

definition ipv4ll_stop :: "client_env \<Rightarrow> (GDHCPClient, unit) op" where
  "ipv4ll_stop E =
     sbind (ignore (switch_listening_mode E L_NONE)) (\<lambda>_.
     sbind remove_timeout (\<lambda>_.
     smod (\<lambda>c. c\<lparr>watched := False, cstate := IPV4LL_PROBE, retry_times := 0, requested_ip := 0, assigned_ip := None\<rparr>)))"

text \<open>The ARP packet is zeroed before \<open>read\<close> fills it.\<close>

definition ipv4ll_recv_arp_packet :: "client_env \<Rightarrow> u8 list result \<Rightarrow> (GDHCPClient, unit) op" where
  "ipv4ll_recv_arp_packet E rd =
     sbind (slift rd) (\<lambda>bs.
     let arp = take 28 (bs @ replicate 28 0); arp_op = word_16 (take 2 (drop 6 arp))
     in if arp_op \<noteq> htons 2 \<and> arp_op \<noteq> htons 1 then serr EINVAL
        else
          sbind (sget requested_ip) (\<lambda>ip.
          let source_conflict = (take 4 (drop 14 arp) = bytes_32 (htonl ip));
              target_conflict = (take 4 (drop 24 arp) = bytes_32 (htonl ip))
          in if \<not> source_conflict \<and> \<not> target_conflict then sret ()
             else
               sbind (smod (\<lambda>c. c\<lparr>conflicts := conflicts c + 1\<rparr>)) (\<lambda>_.
               sbind (sget cstate) (\<lambda>st.
               if st = IPV4LL_MONITOR then
                 if \<not> source_conflict then sret ()
                 else sbind (smod (\<lambda>c. c\<lparr>cstate := IPV4LL_DEFEND\<rparr>)) (\<lambda>_. send_announce_packet)
               else if st = IPV4LL_DEFEND \<and> \<not> source_conflict then sret ()
               else
                 sbind (if st = IPV4LL_DEFEND then notify IPV4LL_LOST else sret ()) (\<lambda>_.
                 sbind (ipv4ll_stop E) (\<lambda>_.
                 sbind (sget conflicts) (\<lambda>n.
                 if n < MAX_CONFLICTS then
                   sbind (smod (\<lambda>c. c\<lparr>retry_times := retry_times c + 1\<rparr>)) (\<lambda>_.
                   g_timeout_add send_probe_packet (unat (ipv4ll_random_delay_ms (c_delay E) 1)))
                 else notify NO_LEASE)))))))"

definition run_ipv4ll_defend_timeout :: "(GDHCPClient, unit) op" where
  "run_ipv4ll_defend_timeout = smod (\<lambda>c. c\<lparr>conflicts := 0, cstate := IPV4LL_MONITOR\<rparr>)"

definition run_ipv4ll_announce_timeout :: "(GDHCPClient, unit) op" where
  "run_ipv4ll_announce_timeout =
     sbind (sget retry_times) (\<lambda>retries.
     if retries \<noteq> ANNOUNCE_NUM then
       sbind (smod (\<lambda>c. c\<lparr>retry_times := retry_times c + 1\<rparr>)) (\<lambda>_. send_announce_packet)
     else
       sbind (smod (\<lambda>c. c\<lparr>cstate := IPV4LL_MONITOR, assigned_ip := Some (htonl (requested_ip c))\<rparr>)) (\<lambda>_.
       sbind (notify IPV4LL_AVAILABLE) (\<lambda>_. smod (\<lambda>c. c\<lparr>conflicts := 0\<rparr>))))"

definition run_ipv4ll_probe_timeout :: "client_env \<Rightarrow> (GDHCPClient, unit) op" where
  "run_ipv4ll_probe_timeout E =
     sbind (sget retry_times) (\<lambda>retries.
     if retries = PROBE_NUM then
       sbind (smod (\<lambda>c. c\<lparr>cstate := IPV4LL_ANNOUNCE, retry_times := 1\<rparr>)) (\<lambda>_. send_announce_packet)
     else
       sbind (smod (\<lambda>c. c\<lparr>retry_times := retry_times c + 1\<rparr>)) (\<lambda>_. run_send_probe_packet E))"

subsection \<open>The DHCP state machine\<close>

definition start_request :: "client_env \<Rightarrow> (GDHCPClient, unit) op" where
  "start_request E =
     sbind (sget retry_times) (\<lambda>retries.
     if retries = REQUEST_RETRIES then notify NO_LEASE
     else
       sbind (if retries = 0
              then sbind (smod (\<lambda>c. c\<lparr>cstate := REQUESTING\<rparr>)) (\<lambda>_. ignore (switch_listening_mode E L2))
              else sret ()) (\<lambda>_.
       sbind (ignore (send_select E)) (\<lambda>_. g_timeout_add request_timeout 3000)))"

definition run_request_timeout :: "client_env \<Rightarrow> (GDHCPClient, unit) op" where
  "run_request_timeout E =
     sbind (smod (\<lambda>c. c\<lparr>retry_times := retry_times c + 1\<rparr>)) (\<lambda>_. start_request E)"

definition client_get_lease :: "dhcp_packet \<Rightarrow> u32 result option" where
  "client_get_lease p =
     map_option (\<lambda>r. rbind r (\<lambda>secs.
       Ok (case secs of
             None \<Rightarrow> 3600
           | Some s \<Rightarrow> let lease_seconds = s AND 0x0fffffff in if lease_seconds < 10 then 10 else lease_seconds)))
       (get_u32_option p DHCP_LEASE_TIME)"

text \<open>
  What the argument of \<open>g_dhcp_client_start\<close> points to: nothing, a string of the caller, or the string that the client itself keeps, which is
  freed before the argument is copied.
\<close>

datatype address_ptr = Null | Other string | Own

fun address_string :: "GDHCPClient \<Rightarrow> address_ptr \<Rightarrow> string option" where
  "address_string c Null = None"
| "address_string c (Other l) = Some l"
| "address_string c Own = last_address c"

definition keep_address :: "client_env \<Rightarrow> address_ptr \<Rightarrow> (GDHCPClient, u32) op" where
  "keep_address E ptr =
     sbind (sget (\<lambda>c. address_string c ptr)) (\<lambda>last.
     case last of
       None \<Rightarrow> sret 0
     | Some l \<Rightarrow>
         let addr = ntohl (inet_addr E l)
         in if addr = 0xffffffff then sret 0
            else if ptr = Own then slift Fault
            else sbind (smod (\<lambda>c. c\<lparr>last_address := Some l\<rparr>)) (\<lambda>_. sret addr))"

definition client_start :: "client_env \<Rightarrow> address_ptr \<Rightarrow> (GDHCPClient, unit) op" where
  "client_start E ptr =
     sbind (sget ctype) (\<lambda>t.
     if t = G_DHCP_IPV4LL then
       sbind (smod (\<lambda>c. c\<lparr>cstate := INIT_SELECTING\<rparr>)) (\<lambda>_. ipv4ll_start E)
     else
       sbind (sget retry_times) (\<lambda>retries.
       if retries = DISCOVER_RETRIES then
         sbind (notify NO_LEASE) (\<lambda>_. smod (\<lambda>c. c\<lparr>retry_times := 0\<rparr>))
       else
         sbind (if retries = 0 then
                  sbind (smod (\<lambda>c. c\<lparr>assigned_ip := None, cstate := INIT_SELECTING\<rparr>)) (\<lambda>_.
                  sbind (switch_listening_mode E L2) (\<lambda>_.
                  smod (\<lambda>c. c\<lparr>client_xid := c_rand E, start := c_now E\<rparr>)))
                else sret ()) (\<lambda>_.
         sbind (keep_address E ptr) (\<lambda>addr.
         sbind (ignore (send_discover E addr)) (\<lambda>_. g_timeout_add discover_timeout 3000)))))"

text \<open>The call of a user of the client.\<close>

definition g_dhcp_client_start :: "client_env \<Rightarrow> string option \<Rightarrow> (GDHCPClient, unit) op" where
  "g_dhcp_client_start E addr0 = client_start E (case addr0 of None \<Rightarrow> Null | Some l \<Rightarrow> Other l)"

definition restart_dhcp :: "client_env \<Rightarrow> u8 \<Rightarrow> (GDHCPClient, unit) op" where
  "restart_dhcp E retries =
     sbind clear_timeout (\<lambda>_.
     sbind (smod (\<lambda>c. c\<lparr>retry_times := retries, requested_ip := 0, cstate := INIT_SELECTING\<rparr>)) (\<lambda>_.
     sbind (ignore (switch_listening_mode E L2)) (\<lambda>_.
     ignore (client_start E Own))))"

definition run_start_rebound_timeout :: "client_env \<Rightarrow> (GDHCPClient, unit) op" where
  "run_start_rebound_timeout E =
     sbind (ignore (switch_listening_mode E L2)) (\<lambda>_.
     sbind (smod (\<lambda>c. c\<lparr>client_lease_seconds := drop_bit 1 (client_lease_seconds c)\<rparr>)) (\<lambda>_.
     sbind (sget client_lease_seconds) (\<lambda>secs.
     if secs \<le> 6 then sbind (notify LEASE_LOST) (\<lambda>_. restart_dhcp E 0)
     else sbind (ignore (send_rebound E)) (\<lambda>_. g_timeout_add start_rebound_timeout (1000 * unat (drop_bit 1 secs))))))"

definition start_rebound :: "(GDHCPClient, unit) op" where
  "start_rebound =
     sbind (smod (\<lambda>c. c\<lparr>cstate := REBINDING\<rparr>)) (\<lambda>_.
     sbind (sget client_lease_seconds) (\<lambda>secs. g_timeout_add start_rebound_timeout (1000 * unat (drop_bit 1 secs))))"

definition run_start_renew_request_timeout :: "(GDHCPClient, unit) op" where
  "run_start_renew_request_timeout = notify NO_LEASE"

definition run_start_renew_timeout :: "client_env \<Rightarrow> (GDHCPClient, unit) op" where
  "run_start_renew_timeout E =
     sbind (smod (\<lambda>c. c\<lparr>cstate := RENEWING, client_lease_seconds := drop_bit 1 (client_lease_seconds c)\<rparr>)) (\<lambda>_.
     sbind (ignore (switch_listening_mode E L3)) (\<lambda>_.
     sbind (sget client_lease_seconds) (\<lambda>secs.
     if secs \<le> 60 then start_rebound
     else
       sbind (ignore (send_renew E)) (\<lambda>_.
       sbind remove_timeout (\<lambda>_. g_timeout_add start_renew_request_timeout 3000)))))"

definition start_bound :: "(GDHCPClient, unit) op" where
  "start_bound =
     sbind (smod (\<lambda>c. c\<lparr>cstate := BOUND\<rparr>)) (\<lambda>_.
     sbind remove_timeout (\<lambda>_.
     sbind (sget client_lease_seconds) (\<lambda>secs. g_timeout_add start_renew_timeout (1000 * unat (drop_bit 1 secs)))))"

definition run_restart_dhcp_timeout :: "client_env \<Rightarrow> (GDHCPClient, unit) op" where
  "run_restart_dhcp_timeout E =
     sbind (smod (\<lambda>c. c\<lparr>ack_retry_times := ack_retry_times c + 1\<rparr>)) (\<lambda>_.
     sbind (sget ack_retry_times) (\<lambda>retries. restart_dhcp E retries))"

definition run_discover_timeout :: "client_env \<Rightarrow> (GDHCPClient, unit) op" where
  "run_discover_timeout E =
     sbind (smod (\<lambda>c. c\<lparr>retry_times := retry_times c + 1\<rparr>)) (\<lambda>_. ignore (client_start E Null))"

text \<open>A timer fires: its callback runs and returns \<open>FALSE\<close> in any case, upon which the source is destroyed.\<close>

fun run_timer :: "client_env \<Rightarrow> timer \<Rightarrow> (GDHCPClient, unit) op" where
  "run_timer E discover_timeout = run_discover_timeout E"
| "run_timer E request_timeout = run_request_timeout E"
| "run_timer E start_renew_timeout = run_start_renew_timeout E"
| "run_timer E start_renew_request_timeout = run_start_renew_request_timeout"
| "run_timer E start_rebound_timeout = run_start_rebound_timeout E"
| "run_timer E restart_dhcp_timeout = run_restart_dhcp_timeout E"
| "run_timer E send_probe_packet = run_send_probe_packet E"
| "run_timer E ipv4ll_probe_timeout = run_ipv4ll_probe_timeout E"
| "run_timer E ipv4ll_announce_timeout = run_ipv4ll_announce_timeout"
| "run_timer E ipv4ll_defend_timeout = run_ipv4ll_defend_timeout"

definition fire :: "client_env \<Rightarrow> nat \<Rightarrow> (GDHCPClient, unit) op" where
  "fire E i =
     sbind (sget (\<lambda>c. sources c i)) (\<lambda>src.
     case src of
       None \<Rightarrow> sret ()
     | Some (t, ms) \<Rightarrow> sbind (ignore (run_timer E t)) (\<lambda>_. g_source_remove i))"

subsection \<open>Reception\<close>

text \<open>
  A frame read from the packet socket is the structure of IP header, UDP header and DHCP packet, 656
  bytes, zeroed before \<open>read\<close> fills it.
\<close>

definition sanity_check :: "u8 list \<Rightarrow> nat \<Rightarrow> bool" where
  "sanity_check f bytes \<longleftrightarrow>
     f ! 9 = 17 \<and> drop_bit 4 (f ! 0) = 4 \<and> f ! 0 AND 0xf = 5 \<and>
     word_16 (take 2 (drop 22 f)) = htons 68 \<and>
     ntohs (word_16 (take 2 (drop 24 f))) = (of_nat bytes - 20 :: u16)"

text \<open>
  \<open>old\<close> is what the packet variable of the caller holds before; only the received part is overwritten. The
  number of bytes to copy is computed in \<open>size_t\<close>, so a total length below 28 asks for a copy of
  nearly \<open>2 ^ 64\<close> bytes, which no memory serves. Failures are \<open>-1\<close>.
\<close>

definition dhcp_recv_l2_packet :: "u8 list result \<Rightarrow> u8 list \<Rightarrow> dhcp_packet result" where
  "dhcp_recv_l2_packet rd old =
     rbind rd (\<lambda>bs.
     let f = take 656 (bs @ replicate 656 0); n = min (length bs) 656;
         tot_len = word_16 (take 2 (drop 2 f)); bytes = unat (ntohs tot_len);
         ip_check = word_16 (take 2 (drop 10 f)); udp_len = take 2 (drop 24 f); udp_check = word_16 (take 2 (drop 26 f));
         pseudo = replicate 2 0 @ udp_len @ replicate 5 0 @ [f ! 9] @ [0, 0] @ take 8 (drop 12 f) @ take 6 (drop 20 f) @
           [0, 0] @ drop 28 f
     in if n < 28 then Err (ESYS 1)
        else if n < bytes then Err (ESYS 1)
        else if \<not> sanity_check f bytes then Err (ESYS 1)
        else if ip_check \<noteq> dhcp_checksum (take 10 f @ [0, 0] @ take 8 (drop 12 f)) then Err (ESYS 1)
        else if udp_check \<noteq> 0 \<and> udp_check \<noteq> dhcp_checksum (take bytes pseudo) then Err (ESYS 1)
        else if bytes < 28 then Fault
        else
          rbind (memcpy old 0 f 28 (bytes - 28)) (\<lambda>b.
          let p = packet_of_bytes b
          in if cookie p \<noteq> htonl DHCP_MAGIC then Err (ESYS 1) else Ok p))"

definition check_package_owner :: "GDHCPClient \<Rightarrow> dhcp_packet \<Rightarrow> bool" where
  "check_package_owner c p \<longleftrightarrow> xid p = client_xid c \<and> hlen p = 6 \<and> take 6 (chaddr p) = take 6 (mac_address c)"

text \<open>An offer in state \<open>INIT_SELECTING\<close>; without a server identifier a null pointer is read.\<close>

definition handle_offer :: "client_env \<Rightarrow> dhcp_packet \<Rightarrow> u32 option \<Rightarrow> (GDHCPClient, unit) op" where
  "handle_offer E p server_id =
     sbind (sget timeout) (\<lambda>i.
     sbind (g_source_remove i) (\<lambda>_.
     sbind (smod (\<lambda>c. c\<lparr>timeout := 0, retry_times := 0\<rparr>)) (\<lambda>_.
     case server_id of
       None \<Rightarrow> slift Fault
     | Some ip \<Rightarrow>
         sbind (smod (\<lambda>c. c\<lparr>server_ip := ip, requested_ip := ntohl (yiaddr p), cstate := REQUESTING\<rparr>)) (\<lambda>_.
         start_request E))))"

definition handle_ack ::
    "client_env \<Rightarrow> dhcp_packet \<Rightarrow> u32 \<Rightarrow> (u8 \<rightharpoonup> string list) \<Rightarrow> (GDHCPClient, unit) op" where
  "handle_ack E p lease values =
     sbind (smod (\<lambda>c. c\<lparr>retry_times := 0\<rparr>)) (\<lambda>_.
     sbind remove_timeout (\<lambda>_.
     sbind (smod (\<lambda>c. c\<lparr>timeout := 0, client_lease_seconds := lease, code_value_hash := values\<rparr>)) (\<lambda>_.
     sbind (ignore (switch_listening_mode E L_NONE)) (\<lambda>_.
     sbind (smod (\<lambda>c. c\<lparr>assigned_ip := Some (yiaddr p)\<rparr>)) (\<lambda>_.
     sbind (notify LEASE_AVAILABLE) (\<lambda>_. start_bound))))))"

definition handle_nak :: "(GDHCPClient, unit) op" where
  "handle_nak =
     sbind (smod (\<lambda>c. c\<lparr>retry_times := 0\<rparr>)) (\<lambda>_.
     sbind remove_timeout (\<lambda>_. g_timeout_add restart_dhcp_timeout 3000))"

text \<open>What the client does with a packet of its own: \<open>type\<close> is the message type. \<open>None\<close> is a scan without end.\<close>

definition client_handle ::
    "client_env \<Rightarrow> dhcp_packet \<Rightarrow> u8 \<Rightarrow> GDHCPClient \<Rightarrow> (GDHCPClient \<times> unit result) option" where
  "client_handle E p type c =
     (if cstate c = INIT_SELECTING then
        if type \<noteq> DHCPOFFER then Some (c, Ok ())
        else scan c (get_u32_option p DHCP_SERVER_ID) (\<lambda>server_id. Some (handle_offer E p server_id c))
      else if cstate c \<in> {REQUESTING, RENEWING, REBINDING} then
        if type = DHCPACK then
          scan c (client_get_lease p) (\<lambda>lease.
          scan c (get_request p (request_list c) (code_value_hash c)) (\<lambda>values.
          Some (handle_ack E p lease values c)))
        else if type = DHCPNAK then Some (handle_nak c)
        else Some (c, Ok ())
      else Some (c, Ok ()))"

text \<open>
  \<open>hup\<close> is an error condition on the channel, \<open>rd\<close> the outcome of \<open>read\<close> and \<open>old\<close> what the packet variable on
  the stack holds. The result is whether the watch stays. Errors of receiving are ignored.
\<close>

definition client_listener_event ::
    "client_env \<Rightarrow> bool \<Rightarrow> u8 list result \<Rightarrow> u8 list \<Rightarrow> GDHCPClient \<Rightarrow> (GDHCPClient \<times> bool result) option" where
  "client_listener_event E hup rd old c =
     (if hup then Some (c\<lparr>watched := False\<rparr>, Ok False)
      else if listen_mode c = L_NONE then Some (c, Ok False)
      else if listen_mode c = L_ARP then
        Some (sbind (ignore (ipv4ll_recv_arp_packet E rd)) (\<lambda>_. sret True) c)
      else
        case (if listen_mode c = L2 then Some (dhcp_recv_l2_packet rd old) else dhcp_recv_l3_packet rd) of
          None \<Rightarrow> None
        | Some (Err e) \<Rightarrow> Some (c, Ok True)
        | Some Fault \<Rightarrow> Some (c, Fault)
        | Some (Ok p) \<Rightarrow>
            if \<not> check_package_owner c p then Some (c, Ok True)
            else
              scan c (dhcp_get_option p DHCP_MESSAGE_TYPE) (\<lambda>opt.
              case opt of
                None \<Rightarrow> Some (c, Ok True)
              | Some a \<Rightarrow>
                  scan c (Some (mem_read (opt_mem p) a)) (\<lambda>type.
                  map_option (\<lambda>(c, r). (c, rbind r (\<lambda>_. Ok True))) (client_handle E p type c))))"

subsection \<open>The interface of the client\<close>

definition g_dhcp_client_stop :: "client_env \<Rightarrow> (GDHCPClient, unit) op" where
  "g_dhcp_client_stop E =
     sbind (ignore (switch_listening_mode E L_NONE)) (\<lambda>_.
     sbind (sget (\<lambda>c. (cstate c, server_ip c, requested_ip c))) (\<lambda>(st, server, ip).
     sbind (if st \<in> {BOUND, RENEWING, REBINDING} then ignore (send_release E server ip) else sret ()) (\<lambda>_.
     sbind clear_timeout (\<lambda>_.
     smod (\<lambda>c. c\<lparr>watched := False, retry_times := 0, ack_retry_times := 0, requested_ip := 0, cstate := RELEASED,
       client_lease_seconds := 0\<rparr>)))))"

datatype client_error =
    G_DHCP_CLIENT_ERROR_INTERFACE_UNAVAILABLE | G_DHCP_CLIENT_ERROR_INTERFACE_DOWN | G_DHCP_CLIENT_ERROR_NOMEM
  | G_DHCP_CLIENT_ERROR_INVALID_INDEX

text \<open>\<open>mem\<close>, \<open>name\<close>, \<open>up\<close> and \<open>mac\<close> are the results of \<open>g_try_new0\<close> and of the interface queries.\<close>

definition g_dhcp_client_new ::
    "client_type \<Rightarrow> int \<Rightarrow> bool \<Rightarrow> string option \<Rightarrow> bool \<Rightarrow> u8 list \<Rightarrow> client_error + GDHCPClient" where
  "g_dhcp_client_new type index mem name up mac =
     (if index < 0 then Inl G_DHCP_CLIENT_ERROR_INVALID_INDEX
      else if \<not> mem then Inl G_DHCP_CLIENT_ERROR_NOMEM
      else if name = None then Inl G_DHCP_CLIENT_ERROR_INTERFACE_UNAVAILABLE
      else if \<not> up then Inl G_DHCP_CLIENT_ERROR_INTERFACE_DOWN
      else Inr \<lparr>ctype = type, cstate = INIT_SELECTING, mac_address = mac, client_xid = 0, server_ip = 0, requested_ip = 0,
                assigned_ip = None, start = 0, client_lease_seconds = 0, listen_mode = L_NONE, watched = False, retry_times = 0,
                ack_retry_times = 0, conflicts = 0, timeout = 0, sources = Map.empty, next_source = 1, request_list = [],
                send_value_hash = Map.empty, code_value_hash = Map.empty, registered = (\<lambda>_. False), last_address = None,
                outputs = []\<rparr>)"

definition g_dhcp_client_register_event :: "client_event \<Rightarrow> bool \<Rightarrow> (GDHCPClient, unit) op" where
  "g_dhcp_client_register_event ev func = smod (\<lambda>c. c\<lparr>registered := (registered c)(ev := func)\<rparr>)"

definition g_dhcp_client_get_option :: "GDHCPClient \<Rightarrow> u8 \<Rightarrow> string list option" where
  "g_dhcp_client_get_option c code = code_value_hash c code"

text \<open>A list of values is never empty, so its first element is there.\<close>

definition g_dhcp_client_get_netmask :: "GDHCPClient \<Rightarrow> string option" where
  "g_dhcp_client_get_netmask c =
     (case cstate c of
        IPV4LL_DEFEND \<Rightarrow> Some ''255.255.0.0''
      | IPV4LL_MONITOR \<Rightarrow> Some ''255.255.0.0''
      | BOUND \<Rightarrow> map_option hd (g_dhcp_client_get_option c 0x01)
      | RENEWING \<Rightarrow> map_option hd (g_dhcp_client_get_option c 0x01)
      | REBINDING \<Rightarrow> map_option hd (g_dhcp_client_get_option c 0x01)
      | _ \<Rightarrow> None)"

definition g_dhcp_client_set_request :: "u32 \<Rightarrow> (GDHCPClient, unit) op" where
  "g_dhcp_client_set_request code =
     smod (\<lambda>c. if code \<in> set (request_list c) then c else c\<lparr>request_list := code # request_list c\<rparr>)"

definition g_dhcp_client_clear_requests :: "(GDHCPClient, unit) op" where
  "g_dhcp_client_clear_requests = smod (\<lambda>c. c\<lparr>request_list := []\<rparr>)"

definition g_dhcp_client_clear_values :: "(GDHCPClient, unit) op" where
  "g_dhcp_client_clear_values = smod (\<lambda>c. c\<lparr>send_value_hash := Map.empty\<rparr>)"

definition alloc_dhcp_data_option :: "bool \<Rightarrow> u8 \<Rightarrow> u8 list \<Rightarrow> u8 list option" where
  "alloc_dhcp_data_option mem code data =
     (let size = min (length data) 255 in if mem then Some (code # of_nat size # take size data) else None)"

definition g_dhcp_client_set_id :: "bool \<Rightarrow> (GDHCPClient, unit) op" where
  "g_dhcp_client_set_id mem =
     sbind (sget (\<lambda>c. alloc_dhcp_data_option mem 0x3d (1 # take 6 (mac_address c)))) (\<lambda>opt.
     case opt of
       None \<Rightarrow> serr ENOMEM
     | Some d \<Rightarrow> smod (\<lambda>c. c\<lparr>send_value_hash := (send_value_hash c)(0x3d \<mapsto> d)\<rparr>))"

definition g_dhcp_client_set_send :: "bool \<Rightarrow> u8 \<Rightarrow> u8 list option \<Rightarrow> (GDHCPClient, unit) op" where
  "g_dhcp_client_set_send mem code v =
     (case v of
        None \<Rightarrow> sret ()
      | Some str \<Rightarrow>
          if code \<noteq> 0x0c then sret ()
          else
            case alloc_dhcp_data_option mem code str of
              None \<Rightarrow> serr ENOMEM
            | Some d \<Rightarrow> smod (\<lambda>c. c\<lparr>send_value_hash := (send_value_hash c)(code \<mapsto> d)\<rparr>))"

end
