(* ===== verification/Dhcp_Client_Packets.thy ===== *)
theory Dhcp_Client_Packets
  imports Dhcp_Client
begin

text \<open>
  The messages that the DHCP client builds: with a sane configuration none of them leaves its buffer, and
  each holds the options that the protocol asks for, in front of the configured ones and within the 548
  bytes that are sent.
\<close>

unbundle bit_operations_syntax

subsection \<open>Packets\<close>

text \<open>
  What the interface of the client ensures of its configuration: a hardware address of six bytes,
  distinct codes of one byte to request, and options to send in the form of \<open>alloc_dhcp_data_option\<close>.
\<close>

definition config_ok :: "GDHCPClient \<Rightarrow> bool" where
  "config_ok c \<longleftrightarrow> length (mac_address c) = 6 \<and> distinct (request_list c) \<and> set (request_list c) \<subseteq> {1..255} \<and>
     (\<forall>k v. send_value_hash c k = Some v \<longrightarrow> k \<in> {0x0c, 0x3d} \<and> (\<exists>d. v = k # of_nat (length d) # d \<and> length d < 256))"

lemma config_ok_requests:
  assumes "config_ok c"
  shows "length (request_list c) < 256"
proof -
  have "unat ` set (request_list c) \<subseteq> {1..255}"
    using assms by (auto simp: config_ok_def subset_iff word_le_nat_alt)
  then have "card (unat ` set (request_list c)) \<le> 255" using card_mono [of "{1..255 :: nat}"] by simp
  moreover have "card (unat ` set (request_list c)) = length (request_list c)"
    using assms distinct_card [of "request_list c"] card_image [of unat "set (request_list c)"]
    by (simp add: config_ok_def inj_on_def word_unat_eq_iff)
  ultimately show ?thesis by simp
qed

definition request_opts :: "GDHCPClient \<Rightarrow> (u8 \<times> u8 list) list" where
  "request_opts c = (if request_list c = [] then [] else [(DHCP_PARAM_REQ, map ucast (request_list c))])"

lemma write_codes_spec:
  "i + length cs \<le> length m \<Longrightarrow> write_codes m i cs = Ok (take i m @ map ucast cs @ drop (i + length cs) m)"
proof (induction cs arbitrary: m i)
  case (Cons a cs)
  have "write_codes m i (a # cs) = write_codes (m[i := ucast a]) (i + 1) cs" using Cons.prems by (simp add: mem_simps)
  also have "\<dots> = Ok (take (i + 1) (m[i := ucast a]) @ map ucast cs @ drop (i + 1 + length cs) (m[i := ucast a]))"
    by (rule Cons.IH) (use Cons.prems in simp)
  finally show ?case using Cons.prems by (simp add: take_Suc_conv_app_nth)
qed simp

lemma add_request_options_spec:
  assumes h: "has_opts p os" and len: "length (request_list c) < 256" "length (enc_opts os) \<le> 100"
  obtains b where "add_request_options c p = Ok (p\<lparr>options := b\<rparr>)" "has_opts (p\<lparr>options := b\<rparr>) (os @ request_opts c)"
proof -
  obtain rest where ov: "options p = enc_opts os @ DHCP_END # rest" and ok: "packet_ok p" "list_all opt_ok os"
    using h by (auto simp: has_opts_def)
  have l: "length (options p) = 388" using ok by (simp add: packet_ok_def)
  let ?n = "length (enc_opts os)" and ?k = "length (request_list c)" and ?cs = "map ucast (request_list c) :: u8 list"
  have e: "dhcp_end_option (options p) = Ok ?n"
    using end_option_loop_enc [OF ok(2), of "[]" rest] by (simp add: dhcp_end_option_def ov)
  have lr: "length rest = 387 - ?n" using l unfolding ov by simp
  then obtain a z where r: "rest = a # z" using len(2) by (cases rest) auto
  have lz: "length z = 386 - ?n" using lr unfolding r by simp
  have w: "write_codes (options p) (?n + 2) (request_list c) = Ok (enc_opts os @ DHCP_END # a # ?cs @ drop ?k z)"
    using l len by (subst write_codes_spec) (simp_all add: ov r)
  show ?thesis
  proof (cases "request_list c = []")
    case True
    then have "add_request_options c p = Ok (p\<lparr>options := options p\<rparr>)" using w e ov r by (simp add: add_request_options_def)
    then show ?thesis by (rule that) (use h True in \<open>simp add: request_opts_def\<close>)
  next
    case False
    obtain y ys where y: "drop ?k z = y # ys" using lz len by (cases "drop ?k z") auto
    let ?b = "enc_opts os @ DHCP_PARAM_REQ # of_nat ?k # ?cs @ DHCP_END # ys"
    have "add_request_options c p = Ok (p\<lparr>options := ?b\<rparr>)"
      using False w e by (simp add: add_request_options_def y mem_simps list_update_append)
    moreover have "length ?b = 388"
      using len lz arg_cong [OF y, of length] by simp
    moreover have "opt_ok (DHCP_PARAM_REQ, ?cs)" using len(1) by (simp add: opt_ok_def)
    ultimately show ?thesis using that [of ?b] ok False by (auto simp: has_opts_def packet_ok_def request_opts_def)
  qed
qed

lemma add_binary_option_simps [simp]:
  "add_binary_option None p = Ok p" "add_binary_option (Some v) p = dhcp_add_binary_option p v"
  by (simp_all add: add_binary_option_def)

lemma add_send_options_spec:
  assumes h: "has_opts p os" and "config_ok c" and len: "length (enc_opts os) < 308"
  obtains b sent where "add_send_options E c p = Ok (p\<lparr>options := b\<rparr>)" "has_opts (p\<lparr>options := b\<rparr>) (os @ sent)"
    "fst ` set sent \<subseteq> {0x0c, 0x3d}" "length (enc_opts (os @ sent)) < 308"
proof -
  have "\<exists>b sent. foldl (\<lambda>r k. rbind r (add_binary_option (send_value_hash c k))) (Ok p) ks = Ok (p\<lparr>options := b\<rparr>) \<and>
      has_opts (p\<lparr>options := b\<rparr>) (os @ sent) \<and> fst ` set sent \<subseteq> {0x0c, 0x3d} \<and>
      (length (enc_opts os) < 308 \<longrightarrow> length (enc_opts (os @ sent)) < 308)" for ks
    using h
  proof (induction ks arbitrary: p os)
    case Nil
    then show ?case by (intro exI [of _ "options p"] exI [of _ "[]"]) simp
  next
    case (Cons k ks)
    show ?case
    proof (cases "send_value_hash c k")
      case None
      then show ?thesis using Cons by simp
    next
      case (Some v)
      then obtain d where d: "v = k # of_nat (length d) # d" "k \<in> {0x0c, 0x3d}" "length d < 256"
        using assms(2) unfolding config_ok_def by meson
      then have "opt_ok (k, d)" by (auto simp: opt_ok_def)
      note a = dhcp_add_binary_option_enc [OF Cons.prems this, of "[]"]
      show ?thesis
      proof (cases "308 \<le> length (enc_opts os) + length d + 3")
        case True
        then show ?thesis using a Cons Some d by simp
      next
        case False
        then obtain b where b: "dhcp_add_binary_option p v = Ok (p\<lparr>options := b\<rparr>)" "has_opts (p\<lparr>options := b\<rparr>) (os @ [(k, d)])"
          using a d(1) by auto
        obtain b' sent where s: "foldl (\<lambda>r k. rbind r (add_binary_option (send_value_hash c k))) (Ok (p\<lparr>options := b\<rparr>)) ks = Ok (p\<lparr>options := b'\<rparr>)"
            "has_opts (p\<lparr>options := b'\<rparr>) ((os @ [(k, d)]) @ sent)" "fst ` set sent \<subseteq> {0x0c, 0x3d}"
            "length (enc_opts (os @ [(k, d)])) < 308 \<longrightarrow> length (enc_opts ((os @ [(k, d)]) @ sent)) < 308"
          using Cons.IH [OF b(2)] by auto
        have "length (enc_opts (os @ [(k, d)])) < 308" using False by simp
        then show ?thesis using s b Some d(2)
          by (intro exI [of _ b'] exI [of _ "(k, d) # sent"]) simp
      qed
    qed
  qed
  then show ?thesis using that len unfolding add_send_options_def by meson
qed

lemma client_init_packet_spec:
  assumes "length (mac_address c) = 6"
  obtains p where "client_init_packet c type = Ok p" "has_opts p [(DHCP_MESSAGE_TYPE, [type])]"
    "op p = (if type = DHCPOFFER \<or> type = DHCPACK \<or> type = DHCPNAK then BOOTREPLY else BOOTREQUEST)" "hlen p = 6"
    "cookie p = htonl DHCP_MAGIC" "chaddr p = mac_address c @ replicate 10 0" "flags p = 0" "ciaddr p = 0"
proof -
  obtain p where p: "dhcp_init_header type = Ok p" "has_opts p [(DHCP_MESSAGE_TYPE, [type])]"
    "op p = (if type = DHCPOFFER \<or> type = DHCPACK \<or> type = DHCPNAK then BOOTREPLY else BOOTREQUEST)"
    "hlen p = 6" "cookie p = htonl DHCP_MAGIC" "chaddr p = replicate 16 0" "flags p = 0" "ciaddr p = 0"
    by (rule dhcp_init_header_spec [of type]) blast
  let ?p = "p\<lparr>chaddr := mac_address c @ replicate 10 0\<rparr>"
  have "memcpy (chaddr p) 0 (mac_address c) 0 6 = Ok (mac_address c @ replicate 10 0)"
    using assms p(6) by (simp add: mem_simps)
  then have "client_init_packet c type = Ok ?p" using p(1) by (simp add: client_init_packet_def)
  moreover have "has_opts ?p [(DHCP_MESSAGE_TYPE, [type])]"
    by (rule has_opts_cong [OF _ _ p(2)]) (use p(2) assms in \<open>simp_all add: has_opts_def packet_ok_def\<close>)
  ultimately show ?thesis by (rule that) (use p in simp_all)
qed

text \<open>A message of the client: \<open>os\<close> are its options apart from the ones that were configured.\<close>

definition client_message :: "GDHCPClient \<Rightarrow> (u8 \<times> u8 list) list \<Rightarrow> dhcp_packet \<Rightarrow> bool" where
  "client_message c os p \<longleftrightarrow>
     op p = BOOTREQUEST \<and> hlen p = 6 \<and> cookie p = htonl DHCP_MAGIC \<and> flags p = 0 \<and> xid p = client_xid c \<and>
     chaddr p = mac_address c @ replicate 10 0 \<and>
     (\<exists>sent. has_opts p (os @ request_opts c @ sent) \<and> fst ` set sent \<subseteq> {0x0c, 0x3d} \<and>
        length (enc_opts (os @ request_opts c @ sent)) < 308)"

lemma client_message_finish:
  assumes "config_ok c" and "has_opts p os" and "length (enc_opts os) \<le> 20"
    and "op p = BOOTREQUEST" "hlen p = 6" "cookie p = htonl DHCP_MAGIC" "flags p = 0" "xid p = client_xid c"
      "chaddr p = mac_address c @ replicate 10 0"
  obtains b where "rbind (add_request_options c p) (add_send_options E c) = Ok (p\<lparr>options := b\<rparr>)"
    "client_message c os (p\<lparr>options := b\<rparr>)"
proof -
  obtain b where b: "add_request_options c p = Ok (p\<lparr>options := b\<rparr>)" "has_opts (p\<lparr>options := b\<rparr>) (os @ request_opts c)"
    by (rule add_request_options_spec [OF assms(2), of c]) (use config_ok_requests [OF assms(1)] assms(3) in auto)
  have len: "length (enc_opts (os @ request_opts c)) < 308"
    using config_ok_requests [OF assms(1)] assms(3) by (auto simp: request_opts_def)
  obtain b' sent where "add_send_options E c (p\<lparr>options := b\<rparr>) = Ok (p\<lparr>options := b, options := b'\<rparr>)"
      "has_opts (p\<lparr>options := b, options := b'\<rparr>) ((os @ request_opts c) @ sent)"
      "fst ` set sent \<subseteq> {0x0c, 0x3d}" "length (enc_opts ((os @ request_opts c) @ sent)) < 308"
    by (rule add_send_options_spec [OF b(2) assms(1) len, of E])
  then show ?thesis using assms b(1) by (intro that [of b']) (auto simp: client_message_def)
qed

lemma add_max_size:
  assumes "has_opts p os" and "length (enc_opts os) \<le> 20"
  shows "\<exists>b. dhcp_add_option_uint16 p DHCP_MAX_SIZE n = Ok (p\<lparr>options := b\<rparr>) \<and>
    has_opts (p\<lparr>options := b\<rparr>) (os @ [(DHCP_MAX_SIZE, put_be16 n)])"
proof -
  have "fst (check_option DHCP_MAX_SIZE 2) \<noteq> OPTION_UNKNOWN" by code_simp
  moreover have "opt_ok (DHCP_MAX_SIZE, put_be16 n)" "length (put_be16 n) = 2" by (simp_all add: opt_ok_def put_be16_def bytes_16_def)
  ultimately show ?thesis
    using dhcp_add_binary_option_enc [OF assms(1), of DHCP_MAX_SIZE "put_be16 n" "[0, 0]"] assms(2)
    by (auto simp: dhcp_add_option_uint16_def)
qed

lemma discover_packet_spec:
  assumes c: "config_ok c"
  obtains p where "discover_packet E c a = Ok p" "ciaddr p = 0"
    "client_message c ((DHCP_MESSAGE_TYPE, [DHCPDISCOVER]) # (if a \<noteq> 0 then [(DHCP_REQUESTED_IP, put_be32 a)] else []) @
       [(DHCP_MAX_SIZE, put_be16 576)]) p"
proof -
  obtain p0 where p0: "client_init_packet c DHCPDISCOVER = Ok p0" "has_opts p0 [(DHCP_MESSAGE_TYPE, [DHCPDISCOVER])]"
    "op p0 = BOOTREQUEST" "hlen p0 = 6" "cookie p0 = htonl DHCP_MAGIC" "chaddr p0 = mac_address c @ replicate 10 0" "flags p0 = 0" "ciaddr p0 = 0"
    by (rule client_init_packet_spec [of c DHCPDISCOVER]) (use c in \<open>auto simp: config_ok_def\<close>)
  define p1 where "p1 = p0\<lparr>xid := client_xid c, secs := dhcp_attempt_secs E c\<rparr>"
  let ?r = "if a \<noteq> 0 then [(DHCP_REQUESTED_IP, put_be32 a)] else []"
  have "has_opts p1 [(DHCP_MESSAGE_TYPE, [DHCPDISCOVER])]"
    by (rule has_opts_cong [OF _ _ p0(2)]) (use p0(2) in \<open>simp_all add: p1_def has_opts_def packet_ok_def\<close>)
  then obtain b where b: "(if a \<noteq> 0 then dhcp_add_option_uint32 p1 DHCP_REQUESTED_IP a else Ok p1) = Ok (p1\<lparr>options := b\<rparr>)"
      "has_opts (p1\<lparr>options := b\<rparr>) ((DHCP_MESSAGE_TYPE, [DHCPDISCOVER]) # ?r)"
  proof (cases "a = 0")
    case True
    then show ?thesis using that [of "options p1"] \<open>has_opts p1 _\<close> by simp
  next
    case False
    then show ?thesis
      using that add_u32_fits [OF \<open>has_opts p1 _\<close>, of DHCP_REQUESTED_IP a] by auto
  qed
  have l: "length (enc_opts ((DHCP_MESSAGE_TYPE, [DHCPDISCOVER]) # ?r)) \<le> 20" by simp
  obtain b1 where b1: "dhcp_add_option_uint16 (p1\<lparr>options := b\<rparr>) DHCP_MAX_SIZE 576 = Ok (p1\<lparr>options := b1\<rparr>)"
      "has_opts (p1\<lparr>options := b1\<rparr>) (((DHCP_MESSAGE_TYPE, [DHCPDISCOVER]) # ?r) @ [(DHCP_MAX_SIZE, put_be16 576)])"
    using add_max_size [OF b(2) l, of 576] by auto
  obtain b2 where "rbind (add_request_options c (p1\<lparr>options := b1\<rparr>)) (add_send_options E c) = Ok (p1\<lparr>options := b1, options := b2\<rparr>)"
      "client_message c (((DHCP_MESSAGE_TYPE, [DHCPDISCOVER]) # ?r) @ [(DHCP_MAX_SIZE, put_be16 576)]) (p1\<lparr>options := b1, options := b2\<rparr>)"
    by (rule client_message_finish [OF c b1(2), of E]) (use p0 in \<open>auto simp: p1_def put_be16_def bytes_16_def\<close>)
  moreover have "discover_packet E c a =
      rbind (if a \<noteq> 0 then dhcp_add_option_uint32 p1 DHCP_REQUESTED_IP a else Ok p1) (\<lambda>p.
      rbind (dhcp_add_option_uint16 p DHCP_MAX_SIZE 576) (\<lambda>p. rbind (add_request_options c p) (add_send_options E c)))"
    using p0(1) by (simp add: discover_packet_def p1_def Let_def)
  moreover have "ciaddr (p1\<lparr>options := b2\<rparr>) = 0" using p0 by (simp add: p1_def)
  ultimately show ?thesis by (intro that [of "p1\<lparr>options := b2\<rparr>"]) (simp_all add: b(1) b1(1))
qed

lemma select_packet_spec:
  assumes c: "config_ok c"
  obtains p where "select_packet E c = Ok p" "ciaddr p = 0"
    "client_message c [(DHCP_MESSAGE_TYPE, [DHCPREQUEST]), (DHCP_REQUESTED_IP, put_be32 (requested_ip c)),
       (DHCP_SERVER_ID, put_be32 (server_ip c))] p"
proof -
  obtain p0 where p0: "client_init_packet c DHCPREQUEST = Ok p0" "has_opts p0 [(DHCP_MESSAGE_TYPE, [DHCPREQUEST])]"
    "op p0 = BOOTREQUEST" "hlen p0 = 6" "cookie p0 = htonl DHCP_MAGIC" "chaddr p0 = mac_address c @ replicate 10 0" "flags p0 = 0" "ciaddr p0 = 0"
    by (rule client_init_packet_spec [of c DHCPREQUEST]) (use c in \<open>auto simp: config_ok_def\<close>)
  define p1 where "p1 = p0\<lparr>xid := client_xid c, secs := dhcp_attempt_secs E c\<rparr>"
  have "has_opts p1 [(DHCP_MESSAGE_TYPE, [DHCPREQUEST])]"
    by (rule has_opts_cong [OF _ _ p0(2)]) (use p0(2) in \<open>simp_all add: p1_def has_opts_def packet_ok_def\<close>)
  then obtain b where b: "dhcp_add_option_uint32 p1 DHCP_REQUESTED_IP (requested_ip c) = Ok (p1\<lparr>options := b\<rparr>)"
      "has_opts (p1\<lparr>options := b\<rparr>) [(DHCP_MESSAGE_TYPE, [DHCPREQUEST]), (DHCP_REQUESTED_IP, put_be32 (requested_ip c))]"
    using add_u32_fits [of p1 "[(DHCP_MESSAGE_TYPE, [DHCPREQUEST])]" DHCP_REQUESTED_IP "requested_ip c"] by auto
  obtain b1 where b1: "dhcp_add_option_uint32 (p1\<lparr>options := b\<rparr>) DHCP_SERVER_ID (server_ip c) = Ok (p1\<lparr>options := b1\<rparr>)"
      "has_opts (p1\<lparr>options := b1\<rparr>) [(DHCP_MESSAGE_TYPE, [DHCPREQUEST]), (DHCP_REQUESTED_IP, put_be32 (requested_ip c)),
         (DHCP_SERVER_ID, put_be32 (server_ip c))]"
    using add_u32_fits [OF b(2), of DHCP_SERVER_ID "server_ip c"] by auto
  obtain b2 where "rbind (add_request_options c (p1\<lparr>options := b1\<rparr>)) (add_send_options E c) = Ok (p1\<lparr>options := b1, options := b2\<rparr>)"
      "client_message c [(DHCP_MESSAGE_TYPE, [DHCPREQUEST]), (DHCP_REQUESTED_IP, put_be32 (requested_ip c)),
         (DHCP_SERVER_ID, put_be32 (server_ip c))] (p1\<lparr>options := b1, options := b2\<rparr>)"
    by (rule client_message_finish [OF c b1(2), of E]) (use p0 in \<open>auto simp: p1_def\<close>)
  moreover have "select_packet E c =
      rbind (dhcp_add_option_uint32 p1 DHCP_REQUESTED_IP (requested_ip c)) (\<lambda>p.
      rbind (dhcp_add_option_uint32 p DHCP_SERVER_ID (server_ip c)) (\<lambda>p. rbind (add_request_options c p) (add_send_options E c)))"
    using p0(1) by (simp add: select_packet_def p1_def Let_def)
  moreover have "ciaddr (p1\<lparr>options := b2\<rparr>) = 0" using p0 by (simp add: p1_def)
  ultimately show ?thesis by (intro that [of "p1\<lparr>options := b2\<rparr>"]) (simp_all add: b(1) b1(1))
qed

lemma renew_packet_spec:
  assumes c: "config_ok c"
  obtains p where "renew_packet E c = Ok p" "ciaddr p = htonl (requested_ip c)"
    "client_message c [(DHCP_MESSAGE_TYPE, [DHCPREQUEST])] p"
proof -
  obtain p0 where p0: "client_init_packet c DHCPREQUEST = Ok p0" "has_opts p0 [(DHCP_MESSAGE_TYPE, [DHCPREQUEST])]"
    "op p0 = BOOTREQUEST" "hlen p0 = 6" "cookie p0 = htonl DHCP_MAGIC" "chaddr p0 = mac_address c @ replicate 10 0" "flags p0 = 0"
    by (rule client_init_packet_spec [of c DHCPREQUEST]) (use c in \<open>auto simp: config_ok_def\<close>)
  define p1 where "p1 = p0\<lparr>xid := client_xid c, ciaddr := htonl (requested_ip c)\<rparr>"
  have h: "has_opts p1 [(DHCP_MESSAGE_TYPE, [DHCPREQUEST])]"
    by (rule has_opts_cong [OF _ _ p0(2)]) (use p0(2) in \<open>simp_all add: p1_def has_opts_def packet_ok_def\<close>)
  obtain b where "rbind (add_request_options c p1) (add_send_options E c) = Ok (p1\<lparr>options := b\<rparr>)"
      "client_message c [(DHCP_MESSAGE_TYPE, [DHCPREQUEST])] (p1\<lparr>options := b\<rparr>)"
    by (rule client_message_finish [OF c h, of E]) (use p0 in \<open>auto simp: p1_def\<close>)
  moreover have "renew_packet E c = rbind (add_request_options c p1) (add_send_options E c)"
    using p0(1) by (simp add: renew_packet_def p1_def Let_def)
  moreover have "ciaddr (p1\<lparr>options := b\<rparr>) = htonl (requested_ip c)" by (simp add: p1_def)
  ultimately show ?thesis by (intro that [of "p1\<lparr>options := b\<rparr>"]) simp_all
qed

lemma release_packet_spec:
  assumes "config_ok c"
  obtains p where "rbind (client_init_packet c DHCPRELEASE) (\<lambda>p.
      dhcp_add_option_uint32 (p\<lparr>xid := x, ciaddr := htonl ci\<rparr>) DHCP_SERVER_ID server) = Ok p"
proof -
  obtain p0 where p0: "client_init_packet c DHCPRELEASE = Ok p0" "has_opts p0 [(DHCP_MESSAGE_TYPE, [DHCPRELEASE])]"
    by (rule client_init_packet_spec [of c DHCPRELEASE]) (use assms in \<open>auto simp: config_ok_def\<close>)
  define p1 where "p1 = p0\<lparr>xid := x, ciaddr := htonl ci\<rparr>"
  have h: "has_opts p1 [(DHCP_MESSAGE_TYPE, [DHCPRELEASE])]"
    by (rule has_opts_cong [OF _ _ p0(2)]) (use p0(2) in \<open>simp_all add: p1_def has_opts_def packet_ok_def\<close>)
  show ?thesis
    using add_u32_fits [OF h, of DHCP_SERVER_ID server] that p0(1) by (auto simp: p1_def)
qed

end
