(* ===== verification/Dhcp_Client_Correct.thy ===== *)
theory Dhcp_Client_Correct
  imports Dhcp_Client_Packets Wp
begin

text \<open>
  Properties of the DHCP client: its timers and its watch, the end of the retries, what an accepted
  answer does, the link-local addresses, and what a crafted frame can do.
\<close>

unbundle bit_operations_syntax

subsection \<open>Timers\<close>

text \<open>
  While the callback of timer \<open>i\<close> runs, only that timer and the one in the field \<open>timeout\<close> exist; outside
  of callbacks \<open>i\<close> is 0, which is no timer. The listener is watched only while a socket is open, and the
  configuration is sane.
\<close>

definition timer_inv :: "nat \<Rightarrow> GDHCPClient \<Rightarrow> bool" where
  "timer_inv i c \<longleftrightarrow> dom (sources c) \<subseteq> {i, timeout c} \<and> (\<forall>k\<in>dom (sources c). 0 < k \<and> k < next_source c) \<and>
     timeout c < next_source c \<and> (watched c \<longrightarrow> listen_mode c \<noteq> L_NONE) \<and> config_ok c"

definition timer_free :: "nat \<Rightarrow> GDHCPClient \<Rightarrow> bool" where
  "timer_free i c \<longleftrightarrow> timer_inv i c \<and> dom (sources c) \<subseteq> {i}"

definition client_ok :: "GDHCPClient \<Rightarrow> bool" where
  "client_ok = timer_inv 0"

text \<open>The same with the knowledge, if \<open>b\<close>, that the client keeps no address to ask for.\<close>

definition tinv :: "bool \<Rightarrow> nat \<Rightarrow> GDHCPClient \<Rightarrow> bool" where
  "tinv b i c \<longleftrightarrow> timer_inv i c \<and> (b \<longrightarrow> last_address c = None)"

definition tfree :: "bool \<Rightarrow> nat \<Rightarrow> GDHCPClient \<Rightarrow> bool" where
  "tfree b i c \<longleftrightarrow> timer_free i c \<and> (b \<longrightarrow> last_address c = None)"

lemma tinv_False [simp]: "tinv False i = timer_inv i" "tfree False i = timer_free i"
  by (simp_all add: tinv_def tfree_def fun_eq_iff)

lemma timer_free_inv [simp]: "timer_free i c \<Longrightarrow> timer_inv i c"
  by (simp add: timer_free_def)

text \<open>Fields that the timers do not depend on.\<close>

lemma timer_inv_update [simp]:
  "timer_inv i (c\<lparr>ctype := x1\<rparr>) = timer_inv i c" "timer_inv i (c\<lparr>cstate := x2\<rparr>) = timer_inv i c"
  "timer_inv i (c\<lparr>client_xid := x3\<rparr>) = timer_inv i c" "timer_inv i (c\<lparr>server_ip := x4\<rparr>) = timer_inv i c"
  "timer_inv i (c\<lparr>requested_ip := x5\<rparr>) = timer_inv i c" "timer_inv i (c\<lparr>assigned_ip := x6\<rparr>) = timer_inv i c"
  "timer_inv i (c\<lparr>start := x7\<rparr>) = timer_inv i c" "timer_inv i (c\<lparr>client_lease_seconds := x8\<rparr>) = timer_inv i c"
  "timer_inv i (c\<lparr>retry_times := x9\<rparr>) = timer_inv i c" "timer_inv i (c\<lparr>ack_retry_times := x10\<rparr>) = timer_inv i c"
  "timer_inv i (c\<lparr>conflicts := x11\<rparr>) = timer_inv i c" "timer_inv i (c\<lparr>code_value_hash := x12\<rparr>) = timer_inv i c"
  "timer_inv i (c\<lparr>registered := x15\<rparr>) = timer_inv i c" "timer_inv i (c\<lparr>last_address := x16\<rparr>) = timer_inv i c"
  "timer_inv i (c\<lparr>outputs := x17\<rparr>) = timer_inv i c" "timer_inv i c \<Longrightarrow> timer_inv i (c\<lparr>watched := False\<rparr>)"
  by (simp_all add: timer_inv_def config_ok_def)

lemma timer_free_update [simp]:
  "timer_free i (c\<lparr>ctype := x1\<rparr>) = timer_free i c" "timer_free i (c\<lparr>cstate := x2\<rparr>) = timer_free i c"
  "timer_free i (c\<lparr>client_xid := x3\<rparr>) = timer_free i c" "timer_free i (c\<lparr>server_ip := x4\<rparr>) = timer_free i c"
  "timer_free i (c\<lparr>requested_ip := x5\<rparr>) = timer_free i c" "timer_free i (c\<lparr>assigned_ip := x6\<rparr>) = timer_free i c"
  "timer_free i (c\<lparr>start := x7\<rparr>) = timer_free i c" "timer_free i (c\<lparr>client_lease_seconds := x8\<rparr>) = timer_free i c"
  "timer_free i (c\<lparr>retry_times := x9\<rparr>) = timer_free i c" "timer_free i (c\<lparr>ack_retry_times := x10\<rparr>) = timer_free i c"
  "timer_free i (c\<lparr>conflicts := x11\<rparr>) = timer_free i c" "timer_free i (c\<lparr>code_value_hash := x12\<rparr>) = timer_free i c"
  "timer_free i (c\<lparr>outputs := x17\<rparr>) = timer_free i c" "timer_free i (c\<lparr>last_address := x16\<rparr>) = timer_free i c"
  "timer_free i c \<Longrightarrow> timer_free i (c\<lparr>watched := False\<rparr>)"
  by (simp_all add: timer_free_def)

lemma timer_free_zero [simp]: "timer_free i c \<Longrightarrow> timer_free i (c\<lparr>timeout := 0\<rparr>)"
  by (auto simp: timer_free_def timer_inv_def config_ok_def)

lemma tinv_update [simp]:
  "tinv b i (c\<lparr>ctype := x1\<rparr>) = tinv b i c"
  "tinv b i (c\<lparr>cstate := x2\<rparr>) = tinv b i c"
  "tinv b i (c\<lparr>client_xid := x3\<rparr>) = tinv b i c"
  "tinv b i (c\<lparr>server_ip := x4\<rparr>) = tinv b i c"
  "tinv b i (c\<lparr>requested_ip := x5\<rparr>) = tinv b i c"
  "tinv b i (c\<lparr>assigned_ip := x6\<rparr>) = tinv b i c"
  "tinv b i (c\<lparr>start := x7\<rparr>) = tinv b i c"
  "tinv b i (c\<lparr>client_lease_seconds := x8\<rparr>) = tinv b i c"
  "tinv b i (c\<lparr>retry_times := x9\<rparr>) = tinv b i c"
  "tinv b i (c\<lparr>ack_retry_times := x10\<rparr>) = tinv b i c"
  "tinv b i (c\<lparr>conflicts := x11\<rparr>) = tinv b i c"
  "tinv b i (c\<lparr>code_value_hash := x12\<rparr>) = tinv b i c"
  "tinv b i (c\<lparr>registered := x15\<rparr>) = tinv b i c"
  "tinv b i (c\<lparr>outputs := x17\<rparr>) = tinv b i c"
  "tinv b i c \<Longrightarrow> tinv b i (c\<lparr>watched := False\<rparr>)"
  by (simp_all add: tinv_def)

lemma tfree_update [simp]:
  "tfree b i (c\<lparr>ctype := x1\<rparr>) = tfree b i c"
  "tfree b i (c\<lparr>cstate := x2\<rparr>) = tfree b i c"
  "tfree b i (c\<lparr>client_xid := x3\<rparr>) = tfree b i c"
  "tfree b i (c\<lparr>server_ip := x4\<rparr>) = tfree b i c"
  "tfree b i (c\<lparr>requested_ip := x5\<rparr>) = tfree b i c"
  "tfree b i (c\<lparr>assigned_ip := x6\<rparr>) = tfree b i c"
  "tfree b i (c\<lparr>start := x7\<rparr>) = tfree b i c"
  "tfree b i (c\<lparr>client_lease_seconds := x8\<rparr>) = tfree b i c"
  "tfree b i (c\<lparr>retry_times := x9\<rparr>) = tfree b i c"
  "tfree b i (c\<lparr>ack_retry_times := x10\<rparr>) = tfree b i c"
  "tfree b i (c\<lparr>conflicts := x11\<rparr>) = tfree b i c"
  "tfree b i (c\<lparr>code_value_hash := x12\<rparr>) = tfree b i c"
  "tfree b i (c\<lparr>outputs := x17\<rparr>) = tfree b i c"
  "tfree b i c \<Longrightarrow> tfree b i (c\<lparr>watched := False\<rparr>)"
  "tfree b i c \<Longrightarrow> tfree b i (c\<lparr>timeout := 0\<rparr>)" "tfree b i c \<Longrightarrow> tinv b i c"
  by (simp_all add: tinv_def tfree_def)

text \<open>Adding a timer needs a client without one; removing the one in \<open>timeout\<close> gives such a client.\<close>

lemma timer_removed: "timer_inv i c \<Longrightarrow> timer_free i (c\<lparr>sources := (sources c)(timeout c := None)\<rparr>)"
  by (auto simp: timer_free_def timer_inv_def config_ok_def)

lemma timer_zero: "timer_inv i c \<Longrightarrow> timeout c = 0 \<Longrightarrow> timer_free i c"
  by (auto simp: timer_free_def timer_inv_def)

lemma add_timer: "triple (tfree b i) (g_timeout_add t ms) (tinv b i)"
  by (rule tripleI) (auto simp: g_timeout_add_def wp_simps tinv_def tfree_def timer_free_def timer_inv_def config_ok_def less_SucI)

lemma tinv_removed:
  "tinv b i c \<Longrightarrow> tfree b i (c\<lparr>sources := (sources c)(timeout c := None)\<rparr>)" "tinv b i c \<Longrightarrow> timeout c = 0 \<Longrightarrow> tfree b i c"
  by (simp_all add: tinv_def tfree_def timer_removed timer_zero)

lemma remove_timer: "triple (tinv b i) remove_timeout (tfree b i)"
  by (rule tripleI) (simp add: remove_timeout_def g_source_remove_def wp_simps tinv_removed)

lemma clear_timer: "triple (tinv b i) clear_timeout (tfree b i)"
  by (rule tripleI) (simp add: clear_timeout_def g_source_remove_def wp_simps tinv_removed)

text \<open>Most operations keep both predicates.\<close>

definition timer_pred :: "(GDHCPClient \<Rightarrow> bool) \<Rightarrow> bool" where
  "timer_pred P \<longleftrightarrow> (\<exists>b i. P = tinv b i \<or> P = tfree b i)"

definition keeper :: "(GDHCPClient, 'a) op \<Rightarrow> bool" where
  "keeper f \<longleftrightarrow> (\<forall>P. timer_pred P \<longrightarrow> triple P f P)"

lemma timer_preds [simp]: "timer_pred (tinv b i)" "timer_pred (tfree b i)"
  by (auto simp: timer_pred_def)

lemma keeper_smod: "(\<And>b i c. tinv b i (h c) = tinv b i c) \<Longrightarrow> (\<And>b i c. tfree b i (h c) = tfree b i c) \<Longrightarrow> keeper (smod h)"
  by (auto simp: keeper_def timer_pred_def intro!: triple_basic)

lemma keeper_basic: "keeper (sget g)" "keeper (sret x)" "keeper (serr e)"
  by (auto simp: keeper_def intro!: triple_basic)

lemma keeper_if: "keeper f \<Longrightarrow> keeper g \<Longrightarrow> keeper (if b then f else g)"
  by simp

lemma keeper_sbind: "keeper f \<Longrightarrow> (\<And>x. keeper (g x)) \<Longrightarrow> keeper (sbind f g)"
  by (auto simp: keeper_def intro: triple_sbind)

lemma keeper_notify: "keeper (notify ev)"
  unfolding notify_def by (rule keeper_smod) auto

lemma keeper_emit: "keeper (emit x)"
  unfolding emit_def by (rule keeper_smod) auto

lemma fst_ignore [simp]: "fst (ignore f c) = fst (f c)"
  by (simp add: ignore_def split: prod.splits result.splits)

lemma triple_ignore: "triple P f Q \<Longrightarrow> triple P (ignore f) Q"
  by (auto simp: triple_def wp_iff ignore_def split: prod.splits result.splits)

lemma wp_ignore [wp_simps]: "wp (ignore f) Q c = wp f (\<lambda>r. Q (case r of Fault \<Rightarrow> Fault | _ \<Rightarrow> Ok ())) c"
  by (simp add: wp_def ignore_def split: prod.splits result.splits)

lemma keeper_ignore: "keeper f \<Longrightarrow> keeper (ignore f)"
  by (simp add: keeper_def triple_ignore)

lemma timer_pred_listen:
  "timer_pred P \<Longrightarrow> P c \<Longrightarrow> P (c\<lparr>listen_mode := L_NONE, watched := False\<rparr>)"
  "timer_pred P \<Longrightarrow> P c \<Longrightarrow> mode \<noteq> L_NONE \<Longrightarrow> P (c\<lparr>listen_mode := mode, watched := w\<rparr>)"
  by (auto simp: timer_pred_def tinv_def tfree_def timer_inv_def timer_free_def config_ok_def)

lemma keeper_switch: "keeper (switch_listening_mode E mode)"
  by (simp add: keeper_def triple_def switch_listening_mode_def wp_simps timer_pred_listen)

lemma timer_pred_outputs: "timer_pred P \<Longrightarrow> P (c\<lparr>outputs := os\<rparr>) = P c"
  by (auto simp: timer_pred_def)

lemma timer_pred_config: "timer_pred P \<Longrightarrow> P c \<Longrightarrow> config_ok c"
  by (auto simp: timer_pred_def tinv_def tfree_def timer_inv_def timer_free_def)

lemma keeper_send_packet:
  assumes "\<And>c. config_ok c \<Longrightarrow> \<exists>p. r c = Ok p" and "\<And>p. keeper (g p)"
  shows "keeper (sbind (\<lambda>c. (c, r c)) g)"
  unfolding keeper_def
proof (intro allI impI)
  fix P
  assume P: "timer_pred P"
  show "triple P (sbind (\<lambda>c. (c, r c)) g) P"
  proof (rule tripleI)
    fix c
    assume "P c"
    moreover from this obtain p where "r c = Ok p" using assms(1) timer_pred_config [OF P] by blast
    ultimately show "wp (sbind (\<lambda>c. (c, r c)) g) (\<lambda>r s'. r \<noteq> Fault \<and> P s') c"
      using assms(2) P by (simp add: keeper_def triple_def wp_simps)
  qed
qed

lemma keeper_sends: "keeper (send_discover E a)" "keeper (send_select E)" "keeper (send_renew E)" "keeper (send_rebound E)"
  unfolding send_discover_def send_select_def send_renew_def send_rebound_def
  by (rule keeper_send_packet;
      auto intro: keeper_emit keeper_sbind keeper_basic discover_packet_spec select_packet_spec renew_packet_spec split: prod.splits)+

lemma keeper_arp: "keeper (ipv4ll_send_arp_packet a s)"
  unfolding ipv4ll_send_arp_packet_def by (intro keeper_sbind keeper_basic keeper_emit)

lemma keeper_release: "keeper (send_release E a s)"
proof -
  have "send_release E a s = sbind (\<lambda>c. (c, rbind (client_init_packet c DHCPRELEASE) (\<lambda>p.
      dhcp_add_option_uint32 (p\<lparr>xid := c_rand E, ciaddr := htonl s\<rparr>) DHCP_SERVER_ID a))) (\<lambda>p. emit (Sent_kernel p s a))"
    by (rule ext) (simp add: send_release_def sbind_def slift_def split: result.splits)
  moreover have "keeper \<dots>"
    by (rule keeper_send_packet) (auto intro: keeper_emit release_packet_spec)
  ultimately show ?thesis by simp
qed

lemmas keeper_send = keeper_sends keeper_arp keeper_release

text \<open>Sequences, by their first operation.\<close>

lemma seq_keep: "keeper f \<Longrightarrow> timer_pred P \<Longrightarrow> (\<And>x. triple P (g x) Q) \<Longrightarrow> (\<And>s. P s \<Longrightarrow> Q s) \<Longrightarrow> triple P (sbind f g) Q"
  by (rule triple_sbind [where R = P]) (auto simp: keeper_def)

lemma seq_ok:
  assumes "\<And>s. P s \<Longrightarrow> wp f (\<lambda>r s'. (\<exists>x. r = Ok x) \<and> R s') s" and "\<And>x. triple R (g x) Q"
  shows "triple P (sbind f g) Q"
proof (rule tripleI)
  fix s
  assume "P s"
  from assms(1) [OF this] show "wp (sbind f g) (\<lambda>r s'. r \<noteq> Fault \<and> Q s') s"
    by (rule wp_sbindI) (use assms(2) in \<open>auto simp: andthen_def triple_def\<close>)
qed

lemma seq_smod: "(\<And>s. P s \<Longrightarrow> P (h s)) \<Longrightarrow> (\<And>x. triple P (g x) Q) \<Longrightarrow> triple P (sbind (smod h) g) Q"
  by (rule seq_ok) (auto simp: wp_simps)

lemma seq_sget: "(\<And>x. triple P (g x) Q) \<Longrightarrow> triple P (sbind (sget h) g) Q"
  by (rule seq_ok [where R = P]) (auto simp: wp_simps)

lemma seq_sret: "triple P (g x) Q \<Longrightarrow> triple P (sbind (sret x) g) Q"
  by (simp add: triple_def wp_simps)

lemma seq_ignore: "triple P f R \<Longrightarrow> (\<And>x. triple R (g x) Q) \<Longrightarrow> triple P (sbind (ignore f) g) Q"
  by (rule seq_ok) (auto simp: wp_simps triple_def elim!: wp_mono split: result.splits)

lemma triple_split: "(\<And>a b c. triple P (f a b c) Q) \<Longrightarrow> triple P (case x of (a, b, c) \<Rightarrow> f a b c) Q"
  by (simp split: prod.splits)

lemma seq_if: "triple P (sbind f k) Q \<Longrightarrow> triple P (sbind g k) Q \<Longrightarrow> triple P (sbind (if b then f else g) k) Q"
  by simp

lemma seq_drop:
  assumes "\<And>x. triple (tfree b i) (g x) Q" and "\<And>s. tfree b i s \<Longrightarrow> Q s"
  shows "triple (tinv b i) (sbind remove_timeout g) Q" "triple (tinv b i) (sbind clear_timeout g) Q"
    "triple (tfree b i) (sbind remove_timeout g) Q"
  using assms triple_weaken [OF remove_timer [of b i], of "tfree b i" "tfree b i"]
  by (auto intro: triple_sbind [OF remove_timer] triple_sbind [OF clear_timer] triple_sbind)

lemma keep_last: "keeper f \<Longrightarrow> timer_pred P \<Longrightarrow> (\<And>s. P s \<Longrightarrow> Q s) \<Longrightarrow> triple P f Q"
  by (rule triple_weaken [where P = P and Q = P]) (auto simp: keeper_def)

lemma triple_free_weaken: "triple (tinv b i) f Q \<Longrightarrow> triple (tfree b i) f Q"
  by (erule triple_weaken) auto

lemmas keepers = keeper_switch keeper_send keeper_notify keeper_emit keeper_ignore keeper_basic keeper_if keeper_sbind keeper_smod

text \<open>
  The operations of the state machine. Those that set a timer start without one, apart from those that
  remove it themselves.
\<close>

lemmas timer_steps =
  triple_if seq_drop seq_smod seq_sget seq_keep keepers add_timer triple_basic(5) keep_last

lemma start_request_timers: "triple (tfree b i) (start_request E) (tinv b i)"
  unfolding start_request_def by (rule timer_steps | simp)+

lemma send_probe_timers: "triple (tfree b i) (run_send_probe_packet E) (tinv b i)"
  unfolding run_send_probe_packet_def by (rule timer_steps | simp)+

lemma send_announce_timers: "triple (tinv b i) send_announce_packet (tinv b i)"
  unfolding send_announce_packet_def by (rule timer_steps | simp)+

lemma ipv4ll_start_timers: "triple (tinv b i) (ipv4ll_start E) (tinv b i)"
  unfolding ipv4ll_start_def by (rule timer_steps | simp)+

lemma ignore_keeper: "keeper f \<Longrightarrow> timer_pred P \<Longrightarrow> (\<And>x. triple P (g x) Q) \<Longrightarrow> triple P (sbind (ignore f) g) Q"
  by (rule seq_ignore) (auto simp: keeper_def)

lemma ipv4ll_stop_timers: "triple (tinv b i) (ipv4ll_stop E) (tfree b i)"
  unfolding ipv4ll_stop_def by (rule ignore_keeper timer_steps | simp)+

text \<open>Starting again with the address that the client keeps uses freed memory, so there may be none.\<close>

definition no_own :: "bool \<Rightarrow> address_ptr \<Rightarrow> bool" where
  "no_own b ptr \<longleftrightarrow> (if b then ptr = Null \<or> ptr = Own else ptr \<noteq> Own)"

lemma no_own_simps [simp]: "no_own b Null" "no_own True Own" "no_own False (case l of None \<Rightarrow> Null | Some l \<Rightarrow> Other l)"
  by (auto simp: no_own_def split: option.split)

lemma keep_address_timers: "no_own b ptr \<Longrightarrow> triple (tfree b i) (keep_address E ptr) (tfree b i)"
  by (rule tripleI)
    (cases ptr; auto simp: keep_address_def no_own_def wp_simps Let_def tfree_def timer_free_def timer_inv_def config_ok_def split: if_splits)

lemma client_start_timers: "no_own b ptr \<Longrightarrow> triple (tfree b i) (client_start E ptr) (tinv b i)"
  unfolding client_start_def
  by (rule triple_free_weaken [OF ipv4ll_start_timers] triple_sbind [OF keep_address_timers] timer_steps | simp)+

lemma given_start_timers: "triple (timer_free i) (g_dhcp_client_start E l) (timer_inv i)"
  using client_start_timers [of False "case l of None \<Rightarrow> Null | Some l \<Rightarrow> Other l" i E] by (simp add: g_dhcp_client_start_def)

lemma restart_timers: "triple (tinv True i) (restart_dhcp E n) (tinv True i)"
  unfolding restart_dhcp_def by (rule triple_ignore [OF client_start_timers] timer_steps | simp)+

lemma start_rebound_timers: "triple (tfree b i) start_rebound (tinv b i)"
  unfolding start_rebound_def by (rule timer_steps | simp)+

lemma start_bound_timers: "triple (tinv b i) start_bound (tinv b i)"
  unfolding start_bound_def by (rule timer_steps | simp)+

lemma recv_arp_timers:
  assumes "rd \<noteq> Fault"
  shows "triple (tinv b i) (ipv4ll_recv_arp_packet E rd) (tinv b i)"
proof -
  have "keeper (slift rd)" using assms by (auto simp: keeper_def intro: triple_basic)
  then show ?thesis
    unfolding ipv4ll_recv_arp_packet_def Let_def
    by - (rule send_announce_timers triple_sbind [OF ipv4ll_stop_timers] timer_steps | simp)+
qed

text \<open>The timer callbacks.\<close>

lemmas callback_steps =
  triple_ignore [OF client_start_timers] start_request_timers start_rebound_timers send_probe_timers
  triple_free_weaken [OF restart_timers] triple_free_weaken [OF send_announce_timers] timer_steps

lemma discover_timeout_timers: "triple (tfree b i) (run_discover_timeout E) (tinv b i)"
  unfolding run_discover_timeout_def by (rule callback_steps | simp)+

lemma request_timeout_timers: "triple (tfree b i) (run_request_timeout E) (tinv b i)"
  unfolding run_request_timeout_def by (rule callback_steps | simp)+

lemma start_renew_timeout_timers: "triple (tfree b i) (run_start_renew_timeout E) (tinv b i)"
  unfolding run_start_renew_timeout_def by (rule callback_steps | simp)+

lemma start_renew_request_timeout_timers: "triple (tfree b i) run_start_renew_request_timeout (tinv b i)"
  unfolding run_start_renew_request_timeout_def by (rule callback_steps | simp)+

lemma start_rebound_timeout_timers: "triple (tfree True i) (run_start_rebound_timeout E) (tinv True i)"
  unfolding run_start_rebound_timeout_def by (rule callback_steps | simp)+

lemma restart_dhcp_timeout_timers: "triple (tfree True i) (run_restart_dhcp_timeout E) (tinv True i)"
  unfolding run_restart_dhcp_timeout_def by (rule callback_steps | simp)+

lemma ipv4ll_probe_timeout_timers: "triple (tfree b i) (run_ipv4ll_probe_timeout E) (tinv b i)"
  unfolding run_ipv4ll_probe_timeout_def by (rule callback_steps | simp)+

lemma ipv4ll_announce_timeout_timers: "triple (tfree b i) run_ipv4ll_announce_timeout (tinv b i)"
  unfolding run_ipv4ll_announce_timeout_def by (rule callback_steps | simp)+

lemma ipv4ll_defend_timeout_timers: "triple (tfree b i) run_ipv4ll_defend_timeout (tinv b i)"
  unfolding run_ipv4ll_defend_timeout_def by (rule callback_steps | simp)+

lemma run_timer_timers: "triple (tfree True i) (run_timer E t) (tinv True i)"
  by (cases t) (simp_all add: discover_timeout_timers request_timeout_timers start_renew_timeout_timers start_renew_request_timeout_timers start_rebound_timeout_timers restart_dhcp_timeout_timers ipv4ll_probe_timeout_timers ipv4ll_announce_timeout_timers ipv4ll_defend_timeout_timers send_probe_timers)

lemma client_ok_fire:
  assumes "client_ok c" and "sources c i = Some x"
  shows "timer_free i c"
proof -
  have d: "dom (sources c) \<subseteq> {0, timeout c}" "0 \<notin> dom (sources c)" "i \<in> dom (sources c)"
    using assms by (auto simp: client_ok_def timer_inv_def)
  then have "dom (sources c) \<subseteq> {i}" by blast
  moreover from this have "dom (sources c) \<subseteq> {i, timeout c}" by blast
  ultimately show ?thesis using assms(1) by (simp add: client_ok_def timer_free_def timer_inv_def)
qed

lemma fire_timers:
  assumes c: "tinv b 0 c" and run: "\<And>t ms. sources c i = Some (t, ms) \<Longrightarrow> triple (tfree b i) (run_timer E t) (tinv b i)"
  shows "snd (fire E i c) \<noteq> Fault \<and> tinv b 0 (fst (fire E i c))"
proof -
  have "wp (fire E i) (\<lambda>r c'. r \<noteq> Fault \<and> tinv b 0 c') c"
  proof (cases "sources c i")
    case None
    then show ?thesis using c by (simp add: fire_def wp_simps)
  next
    case (Some x)
    obtain t ms where x: "x = (t, ms)" by fastforce
    have "tfree b i c" using client_ok_fire [of c i x] Some c by (simp add: tinv_def tfree_def client_ok_def)
    then have "wp (run_timer E t) (\<lambda>r c'. r \<noteq> Fault \<and> tinv b i c') c"
      using run [OF Some [unfolded x]] by (simp add: triple_def)
    moreover have "tinv b 0 (c'\<lparr>sources := (sources c')(i := None)\<rparr>)" if "tinv b i c'" for c'
      using that by (auto simp: tinv_def timer_inv_def config_ok_def)
    ultimately show ?thesis
      using Some x by (auto simp: fire_def g_source_remove_def wp_simps split: prod.splits result.splits elim!: wp_mono)
  qed
  then show ?thesis by (simp add: wp_iff)
qed

lemma fire_ok: "tinv True 0 c \<Longrightarrow> snd (fire E i c) \<noteq> Fault \<and> tinv True 0 (fst (fire E i c))"
  by (rule fire_timers) (simp_all add: run_timer_timers)

lemma fire_discover_ok: "client_ok c \<Longrightarrow> sources c i = Some (discover_timeout, ms) \<Longrightarrow> client_ok (fst (fire E i c))"
  using fire_timers [of False c i E] discover_timeout_timers [of False i E] by (simp add: client_ok_def)

text \<open>
  A client that keeps an address and is started again by itself, here after the ACK that it got was refused, copies the string it has just freed.
\<close>

lemma restart_uses_freed_address:
  assumes "last_address c = Some l" and "ntohl (inet_addr E l) \<noteq> 0xffffffff" and "ctype c = G_DHCP_IPV4"
    and "n \<notin> {0, DISCOVER_RETRIES}"
  shows "snd (restart_dhcp E n c) = Fault"
proof -
  have keep: "keep_address E Own d = (d, Fault)" if "last_address d = Some l" for d
    using assms(2) that by (simp add: keep_address_def sbind_def Let_def)
  have start: "snd (client_start E Own d) = Fault" if "last_address d = Some l" "ctype d = G_DHCP_IPV4" "retry_times d = n" for d
    using that assms(4) keep [of d] by (simp add: client_start_def sbind_def)
  have same: "last_address (fst (switch_listening_mode E m d)) = last_address d \<and> ctype (fst (switch_listening_mode E m d)) = ctype d \<and>
      retry_times (fst (switch_listening_mode E m d)) = retry_times d" for m d
    by (simp add: switch_listening_mode_def sbind_def)
  have quiet: "snd (ignore (switch_listening_mode E m) d) = Ok ()" for m d
    by (simp add: ignore_def switch_listening_mode_def sbind_def)
  obtain c1 where c1: "clear_timeout c = (c1, Ok ())" "last_address c1 = Some l" "ctype c1 = G_DHCP_IPV4"
    using assms(1,3) by (cases "0 < timeout c") (simp_all add: clear_timeout_def g_source_remove_def sbind_def)
  define c2 where "c2 = c1\<lparr>retry_times := n, requested_ip := 0, cstate := INIT_SELECTING\<rparr>"
  define c3 where "c3 = fst (switch_listening_mode E L2 c2)"
  have c3: "ignore (switch_listening_mode E L2) c2 = (c3, Ok ())" using quiet [of L2 c2] by (simp add: prod_eq_iff c3_def)
  have "snd (client_start E Own c3) = Fault" using start [of c3] same [of L2 c2] c1(2,3) by (simp add: c3_def c2_def)
  moreover have "restart_dhcp E n c = ignore (client_start E Own) c3"
    by (simp add: restart_dhcp_def c1(1) c3 sbind_def flip: c2_def)
  ultimately show ?thesis by (simp add: ignore_def split: prod.split result.split) auto
qed

lemma stop_timers: "triple (tinv b i) (g_dhcp_client_stop E) (tfree b i)"
  unfolding g_dhcp_client_stop_def
  by (rule triple_split seq_sget seq_sret seq_if ignore_keeper timer_steps | simp)+

lemma seq_source_remove:
  assumes "\<And>x. triple (tfree b i) (g x) Q"
  shows "triple (tinv b i) (sbind (sget timeout) (\<lambda>j. sbind (g_source_remove j) g)) Q"
  using assms by (simp add: triple_def g_source_remove_def wp_simps tinv_removed)

lemma handle_offer_timers: "triple (tinv b i) (handle_offer E p (Some ip)) (tinv b i)"
  unfolding handle_offer_def option.case by (rule seq_source_remove start_request_timers timer_steps | simp)+

lemma handle_ack_timers: "triple (tinv b i) (handle_ack E p lease values) (tinv b i)"
  unfolding handle_ack_def by (rule triple_free_weaken [OF start_bound_timers] timer_steps | simp)+

lemma handle_nak_timers: "triple (tinv b i) handle_nak (tinv b i)"
  unfolding handle_nak_def by (rule timer_steps | simp)+

subsection \<open>Runs of the client\<close>

lemma handle_offer_without_server:
  "tinv b 0 c \<Longrightarrow> tinv b 0 (fst (handle_offer E p None c))"
  by (auto simp: handle_offer_def g_source_remove_def tinv_def timer_inv_def config_ok_def)

lemma client_handle_timers:
  assumes "client_handle E p type c = Some (c', r)" and "tinv b 0 c"
  shows "tinv b 0 c'"
proof -
  have "tinv b 0 (fst (handle_offer E p sid c))" for sid
    using assms(2) handle_offer_without_server [OF assms(2)] tripleD [OF handle_offer_timers]
    by (cases sid) auto
  moreover have "tinv b 0 (fst (handle_ack E p lease vals c))" for lease vals
    using assms(2) tripleD [OF handle_ack_timers] by blast
  moreover have "tinv b 0 (fst (handle_nak c))"
    using assms(2) tripleD [OF handle_nak_timers] by blast
  ultimately show ?thesis
    using assms by (auto simp: client_handle_def scan_def split: if_splits option.splits result.splits dest!: arg_cong [where f = fst])
qed

lemma client_handle_ok: "client_handle E p type c = Some (c', r) \<Longrightarrow> client_ok c \<Longrightarrow> client_ok c'"
  using client_handle_timers [of E p type c c' r False] by (simp add: client_ok_def)

lemma client_listener_timers:
  assumes "client_listener_event E hup rd old c = Some (c', r)" and "tinv b 0 c" and "rd \<noteq> Fault"
  shows "tinv b 0 c'"
proof -
  have arp: "tinv b 0 (fst (ignore (ipv4ll_recv_arp_packet E rd) c))"
    using tripleD [OF recv_arp_timers] assms(2,3) by simp
  have tail: "c' = fst (f c)" if "sbind f (\<lambda>_. sret True) c = (c', r)" for f :: "(GDHCPClient, unit) op"
    using that by (auto simp: sbind_def split: prod.splits result.splits)
  show ?thesis
    using assms(1,2) arp
    by (auto simp: client_listener_event_def scan_def dest!: tail
      split: if_splits option.splits result.splits intro: client_handle_timers)
qed

text \<open>
  What happens to a client: a timer fires, the socket reports something, the user stops and starts it
  again, or configures it. The user starts a client that runs only after stopping it, and, like the DHCP program, without an address to ask for.
  A message whose option scan does not end or leaves the packet stops the process; the state is then the one that it has reached.
\<close>

datatype client_input =
    Fires client_env nat | Hears client_env bool "u8 list result" "u8 list" | Stops client_env
  | Restarts client_env "string option" | Registers client_event bool | Requests u32 | Clears_requests | Clears_values
  | Sets_id bool | Sets_send bool u8 "u8 list option"

fun client_step :: "GDHCPClient \<Rightarrow> client_input \<Rightarrow> GDHCPClient" where
  "client_step c (Fires E i) = fst (fire E i c)"
| "client_step c (Hears E hup rd old) =
     (case client_listener_event E hup rd old c of None \<Rightarrow> c | Some (c', r) \<Rightarrow> c')"
| "client_step c (Stops E) = fst (g_dhcp_client_stop E c)"
| "client_step c (Restarts E l) = fst (g_dhcp_client_start E l (fst (g_dhcp_client_stop E c)))"
| "client_step c (Registers ev func) = fst (g_dhcp_client_register_event ev func c)"
| "client_step c (Requests code) = fst (g_dhcp_client_set_request code c)"
| "client_step c Clears_requests = fst (g_dhcp_client_clear_requests c)"
| "client_step c Clears_values = fst (g_dhcp_client_clear_values c)"
| "client_step c (Sets_id mem) = fst (g_dhcp_client_set_id mem c)"
| "client_step c (Sets_send mem code v) = fst (g_dhcp_client_set_send mem code v c)"

fun client_input_ok :: "client_input \<Rightarrow> bool" where
  "client_input_ok (Hears E hup rd old) = (rd \<noteq> Fault)"
| "client_input_ok (Requests code) = (0 < code \<and> code < 256)"
| "client_input_ok (Restarts E l) = (l = None)"
| "client_input_ok _ = True"

lemma alloc_dhcp_data_option_form:
  assumes "alloc_dhcp_data_option mem code data = Some v"
  shows "\<exists>d. v = code # of_nat (length d) # d \<and> length d < 256"
  using assms by (auto simp: alloc_dhcp_data_option_def Let_def split: if_splits intro!: exI [of _ "take (min (length data) 255) data"])

lemma client_step_timers:
  assumes "tinv True 0 c" and "client_input_ok e"
  shows "tinv True 0 (client_step c e)"
proof (cases e)
  case (Fires E i)
  then show ?thesis using fire_ok [OF assms(1)] by simp
next
  case (Hears E hup rd old)
  then show ?thesis using client_listener_timers assms by (auto split: option.splits)
next
  case (Stops E)
  then show ?thesis using tripleD [OF stop_timers assms(1), of E] by simp
next
  case (Restarts E l)
  have "tfree True 0 (fst (g_dhcp_client_stop E c))" using tripleD [OF stop_timers assms(1)] by simp
  from tripleD [OF client_start_timers this, of Null E] show ?thesis using Restarts assms(2) by (simp add: g_dhcp_client_start_def)
next
  case (Registers ev func)
  then show ?thesis using assms(1) by (simp add: g_dhcp_client_register_event_def)
next
  case (Requests code)
  then have "1 \<le> code" "code \<le> 255" using assms(2) by (auto simp: word_less_nat_alt word_le_nat_alt)
  then show ?thesis using assms Requests
    by (auto simp: g_dhcp_client_set_request_def tinv_def timer_inv_def config_ok_def)
next
  case Clears_requests
  then show ?thesis using assms(1) by (auto simp: g_dhcp_client_clear_requests_def tinv_def timer_inv_def config_ok_def)
next
  case Clears_values
  then show ?thesis using assms(1) by (auto simp: g_dhcp_client_clear_values_def tinv_def timer_inv_def config_ok_def)
next
  case (Sets_id mem)
  then show ?thesis using assms(1)
    by (auto simp: g_dhcp_client_set_id_def tinv_def timer_inv_def config_ok_def split: option.splits
      dest!: alloc_dhcp_data_option_form)
next
  case (Sets_send mem code v)
  then show ?thesis using assms(1)
    by (auto simp: g_dhcp_client_set_send_def tinv_def timer_inv_def config_ok_def split: option.splits if_splits
      dest!: alloc_dhcp_data_option_form)
qed

lemma client_step_ok: "tinv True 0 c \<Longrightarrow> client_input_ok e \<Longrightarrow> client_ok (client_step c e)"
  using client_step_timers [of c e] by (simp add: client_ok_def tinv_def)

interpretation client_run: stepper client_step client_input_ok "tinv True 0"
  by unfold_locales (rule client_step_timers)

lemma timer_free_empty: "timer_free 0 c \<Longrightarrow> sources c = Map.empty"
proof -
  assume "timer_free 0 c"
  then have "dom (sources c) \<subseteq> {0}" "0 \<notin> dom (sources c)" by (auto simp: timer_free_def timer_inv_def)
  then have "dom (sources c) = {}" by blast
  then show "sources c = Map.empty" by simp
qed

lemma client_new_timers:
  assumes "g_dhcp_client_new type index mem name up mac = Inr c" and "length mac = 6"
  shows "tinv True 0 c"
proof -
  have "tinv True 0 \<lparr>ctype = type, cstate = INIT_SELECTING, mac_address = mac, client_xid = 0, server_ip = 0, requested_ip = 0,
      assigned_ip = None, start = 0, client_lease_seconds = 0, listen_mode = L_NONE, watched = False, retry_times = 0,
      ack_retry_times = 0, conflicts = 0, timeout = 0, sources = Map.empty, next_source = 1, request_list = [],
      send_value_hash = Map.empty, code_value_hash = Map.empty, registered = (\<lambda>_. False), last_address = None, outputs = []\<rparr>"
    using assms(2) by (simp add: tinv_def timer_inv_def config_ok_def)
  then show ?thesis using assms(1) by (auto simp: g_dhcp_client_new_def split: if_splits)
qed

lemma client_new_ok: "g_dhcp_client_new type index mem name up mac = Inr c \<Longrightarrow> length mac = 6 \<Longrightarrow> client_ok c"
  using client_new_timers [of type index mem name up mac c] by (simp add: client_ok_def tinv_def)

text \<open>
  C37: The client never loses track of a timer. From its creation on, whatever timers fire, whatever is
  received and however it is stopped, started and configured, the only timer that exists is the one in
  \<open>timeout\<close>, a watch exists only on an open socket, no timer callback faults, and stopping the client
  leaves no timer behind. This holds for a user who starts the client without an address and, when it runs, only after stopping it, as the DHCP
  program does. A client with an address copies a freed string when it restarts (\<open>restart_uses_freed_address\<close>), and a second start would set a
  second timer. A message that stops the process, because the scan of its options does not end or leaves the packet, adds no timer.
\<close>

theorem dhcp_client_timers:
  assumes "g_dhcp_client_new type index mem name up mac = Inr c0" and "length mac = 6"
    and "list_all client_input_ok es" and "c = foldl client_step c0 es"
  shows "dom (sources c) \<subseteq> {timeout c} \<and> (watched c \<longrightarrow> listen_mode c \<noteq> L_NONE) \<and>
    snd (fire E i c) \<noteq> Fault \<and> sources (fst (g_dhcp_client_stop E c)) = Map.empty"
proof -
  have c: "tinv True 0 c"
    unfolding assms(4) by (rule client_run.run_inv [OF client_new_timers [OF assms(1,2)] assms(3)])
  then have "timer_free 0 (fst (g_dhcp_client_stop E c))"
    using tripleD [OF stop_timers c] by (simp add: tfree_def)
  then have "sources (fst (g_dhcp_client_stop E c)) = Map.empty"
    by (rule timer_free_empty)
  moreover have "timer_inv 0 c" using c by (simp add: tinv_def)
  moreover from this have "dom (sources c) \<subseteq> {timeout c}" by (auto simp: timer_inv_def)
  ultimately show ?thesis using fire_ok [OF c] by (simp add: timer_inv_def)
qed

definition demo_client_env :: client_env where
  "demo_client_env = \<lparr>c_now = 1000, c_rand = 0x1234, c_delay = 700, c_pick = 0xa9fe1234, c_open = (\<lambda>_. True),
     inet_addr = (\<lambda>_. 0xffffffff), c_keys = (\<lambda>h. if h 0x0c = None then [] else [0x0c])\<rparr>"

definition demo_dhcp :: GDHCPClient where
  "demo_dhcp = (case g_dhcp_client_new G_DHCP_IPV4 3 True (Some ''wlan0'') True [2, 0, 0, 0, 0, 7] of Inr c \<Rightarrow> c)"

lemma demo_dhcp_new: "g_dhcp_client_new G_DHCP_IPV4 3 True (Some ''wlan0'') True [2, 0, 0, 0, 0, 7] = Inr demo_dhcp"
  by (simp add: demo_dhcp_def g_dhcp_client_new_def)

theorem dhcp_client_timers_witness:
  "let c = foldl client_step demo_dhcp
     [Registers NO_LEASE True, Requests 1, Sets_send True 0x0c (Some [112, 99]), Restarts demo_client_env None,
      Fires demo_client_env 1, Hears demo_client_env False (Ok []) [], Stops demo_client_env, Restarts demo_client_env None]
   in dom (sources c) \<subseteq> {timeout c} \<and> snd (fire demo_client_env 3 c) \<noteq> Fault \<and>
     sources (fst (g_dhcp_client_stop demo_client_env c)) = Map.empty"
  unfolding Let_def
  using dhcp_client_timers [OF demo_dhcp_new _ _ refl, of
    "[Registers NO_LEASE True, Requests 1, Sets_send True 0x0c (Some [112, 99]), Restarts demo_client_env None,
      Fires demo_client_env 1, Hears demo_client_env False (Ok []) [], Stops demo_client_env, Restarts demo_client_env None]"
    demo_client_env 3]
  by (simp del: client_step.simps)

subsection \<open>Discovery without an answer\<close>

lemma fire_Ok:
  assumes "sources c i = Some (t, ms)" and "run_timer E t c = (c', r)" and "r \<noteq> Fault"
  shows "fire E i c = (c'\<lparr>sources := (sources c')(i := None)\<rparr>, Ok ())"
  using assms by (cases r) (simp_all add: fire_def sbind_def ignore_def g_source_remove_def)

definition armed :: "timer \<Rightarrow> nat \<Rightarrow> GDHCPClient \<Rightarrow> GDHCPClient" where
  "armed t ms c = c\<lparr>sources := (sources c)(next_source c \<mapsto> (t, ms)), timeout := next_source c, next_source := next_source c + 1\<rparr>"

lemma g_timeout_add_armed [simp]: "g_timeout_add t ms c = (armed t ms c, Ok ())"
  by (simp add: g_timeout_add_def armed_def)

lemma send_discover_Ok:
  "discover_packet E c a = Ok p \<Longrightarrow> send_discover E a c = (c\<lparr>outputs := outputs c @ [Sent_raw p]\<rparr>, Ok ())"
  by (simp add: send_discover_def sbind_def emit_def)

lemma ignore_Ok: "f c = (c', Ok x) \<Longrightarrow> ignore f c = (c', Ok ())"
  by (simp add: ignore_def)

lemma start_again:
  assumes "ctype c = G_DHCP_IPV4" and "retry_times c \<noteq> 0" "retry_times c \<noteq> DISCOVER_RETRIES"
    and "discover_packet E c 0 = Ok p"
  shows "client_start E Null c = (armed discover_timeout 3000 (c\<lparr>outputs := outputs c @ [Sent_raw p]\<rparr>), Ok ())"
  using assms by (simp add: client_start_def keep_address_def ignore_Ok [OF send_discover_Ok] sbind_Ok)

lemma start_gives_up:
  assumes "ctype c = G_DHCP_IPV4" and "retry_times c = DISCOVER_RETRIES"
  shows "client_start E Null c =
    ((if registered c NO_LEASE then c\<lparr>outputs := outputs c @ [Notify NO_LEASE]\<rparr> else c)\<lparr>retry_times := 0\<rparr>, Ok ())"
  using assms by (simp add: client_start_def notify_def)

text \<open>The client has sent \<open>n\<close> discoveries since the outputs \<open>os\<close> and waits for an answer.\<close>

definition is_discover :: "GDHCPClient \<Rightarrow> client_output \<Rightarrow> bool" where
  "is_discover c out \<longleftrightarrow> (\<exists>p a. out = Sent_raw p \<and> client_message c ((DHCP_MESSAGE_TYPE, [DHCPDISCOVER]) #
     (if a \<noteq> 0 then [(DHCP_REQUESTED_IP, put_be32 a)] else []) @ [(DHCP_MAX_SIZE, put_be16 576)]) p)"

lemma discover_sends: "config_ok c \<Longrightarrow> \<exists>p. discover_packet E c a = Ok p \<and> is_discover c (Sent_raw p)"
  by (metis discover_packet_spec is_discover_def)

definition discovering :: "client_output list \<Rightarrow> nat \<Rightarrow> GDHCPClient \<Rightarrow> bool" where
  "discovering os n c \<longleftrightarrow> client_ok c \<and> ctype c = G_DHCP_IPV4 \<and> registered c NO_LEASE \<and> 0 < n \<and> n \<le> 10 \<and>
     retry_times c = of_nat (n - 1) \<and> sources c = [timeout c \<mapsto> (discover_timeout, 3000)] \<and>
     (\<exists>ds. outputs c = os @ ds \<and> length ds = n \<and> list_all (is_discover c) ds)"

lemma is_discover_cong:
  "client_xid c' = client_xid c \<Longrightarrow> mac_address c' = mac_address c \<Longrightarrow> request_list c' = request_list c \<Longrightarrow>
     is_discover c' = is_discover c"
  by (rule ext) (simp add: is_discover_def client_message_def request_opts_def)

lemma discovering_step:
  assumes d: "discovering os n c" and "n < 10"
  shows "discovering os (n + 1) (fst (fire E (timeout c) c))"
proof -
  let ?c1 = "c\<lparr>retry_times := retry_times c + 1\<rparr>"
  have n: "0 < n" "retry_times ?c1 = of_nat n" using d by (auto simp: discovering_def of_nat_diff)
  have ok: "client_ok (fst (fire E (timeout c) c))" using d fire_discover_ok [of c "timeout c" 3000 E] by (simp add: discovering_def)
  have "config_ok ?c1" using d by (simp add: discovering_def client_ok_def timer_inv_def config_ok_def)
  then obtain p where p: "discover_packet E ?c1 0 = Ok p" "is_discover ?c1 (Sent_raw p)"
    using discover_sends by blast
  have "retry_times ?c1 \<noteq> 0" "retry_times ?c1 \<noteq> DISCOVER_RETRIES"
    unfolding n(2) using n(1) assms(2) by (simp_all add: word_unat_eq_iff unat_of_nat)
  then have run: "run_timer E discover_timeout c = (armed discover_timeout 3000 (?c1\<lparr>outputs := outputs c @ [Sent_raw p]\<rparr>), Ok ())"
    using start_again [of ?c1 E p] d p(1) by (simp add: run_discover_timeout_def ignore_def discovering_def)
  have src: "sources c (timeout c) = Some (discover_timeout, 3000)" "timeout c < next_source c"
    using d by (auto simp: discovering_def client_ok_def timer_inv_def)
  define d1 where "d1 = (armed discover_timeout 3000 (?c1\<lparr>outputs := outputs c @ [Sent_raw p]\<rparr>))"
  define d2 where "d2 = d1\<lparr>sources := (sources d1)(timeout c := None)\<rparr>"
  have fired: "fst (fire E (timeout c) c) = d2"
    using fire_Ok [OF src(1) run [folded d1_def]] by (simp add: d2_def)
  have "is_discover ?c1 = is_discover c" "is_discover d2 = is_discover c"
    by (rule is_discover_cong; simp add: d2_def d1_def armed_def)+
  moreover have "ctype d2 = ctype c" "registered d2 = registered c" "retry_times d2 = of_nat n"
      "sources d2 = [timeout d2 \<mapsto> (discover_timeout, 3000)]" "outputs d2 = outputs c @ [Sent_raw p]"
    using d src(2) n(2) by (simp_all add: d2_def d1_def armed_def discovering_def fun_eq_iff)
  ultimately show ?thesis
    using ok d p(2) n(1) assms(2) unfolding fired by (auto simp: discovering_def)
qed

lemma switch_listening_mode_Ok:
  assumes "c_open E mode" and "mode \<noteq> L_NONE"
  shows "switch_listening_mode E mode c = (c\<lparr>listen_mode := mode, watched := (listen_mode c = mode \<longrightarrow> watched c)\<rparr>, Ok ())"
  using assms by (cases c) (simp add: switch_listening_mode_def)

text \<open>The fields that most steps leave alone.\<close>

definition same_client :: "GDHCPClient \<Rightarrow> GDHCPClient \<Rightarrow> bool" where
  "same_client c c' \<longleftrightarrow> ctype c' = ctype c \<and> registered c' = registered c \<and> mac_address c' = mac_address c \<and>
     request_list c' = request_list c \<and> code_value_hash c' = code_value_hash c"

lemma client_starts:
  assumes "timer_free 0 c" and "ctype c = G_DHCP_IPV4" and "retry_times c = 0" and "c_open E L2"
  obtains c1 p where "g_dhcp_client_start E l c = (c1, Ok ())" "outputs c1 = outputs c @ [Sent_raw p]" "is_discover c1 (Sent_raw p)"
    "client_ok c1" "cstate c1 = INIT_SELECTING" "listen_mode c1 = L2" "retry_times c1 = 0"
    "sources c1 = [timeout c1 \<mapsto> (discover_timeout, 3000)]" "same_client c c1"
proof -
  define w where "w = (listen_mode c = L2 \<longrightarrow> watched c)"
  have lm: "switch_listening_mode E L2 (c\<lparr>assigned_ip := None, cstate := INIT_SELECTING\<rparr>) =
      (c\<lparr>assigned_ip := None, cstate := INIT_SELECTING, listen_mode := L2, watched := w\<rparr>, Ok ())"
    using switch_listening_mode_Ok [OF assms(4), of "c\<lparr>assigned_ip := None, cstate := INIT_SELECTING\<rparr>"] by (simp add: w_def)
  let ?c1 = "(c\<lparr>assigned_ip := None, cstate := INIT_SELECTING, listen_mode := L2, watched := w,
    client_xid := c_rand E, start := c_now E\<rparr>)"
  define a where "a = (case l of None \<Rightarrow> 0 | Some l \<Rightarrow> let a = ntohl (inet_addr E l) in if a = 0xffffffff then 0 else a)"
  define keep where "keep = (case l of None \<Rightarrow> False | Some l \<Rightarrow> ntohl (inet_addr E l) \<noteq> 0xffffffff)"
  let ?c2 = "if keep then ?c1\<lparr>last_address := l\<rparr> else ?c1"
  have "config_ok ?c2" using assms(1) by (simp add: timer_free_def timer_inv_def config_ok_def)
  then obtain p where p: "discover_packet E ?c2 a = Ok p" "is_discover ?c2 (Sent_raw p)" using discover_sends by blast
  let ?c3 = "armed discover_timeout 3000 (?c2\<lparr>outputs := outputs c @ [Sent_raw p]\<rparr>)"
  have keeps: "keep_address E (case l of None \<Rightarrow> Null | Some l \<Rightarrow> Other l) ?c1 = (?c2, Ok a)"
    by (simp add: keep_address_def a_def keep_def sbind_def Let_def split: option.split)
  have started: "g_dhcp_client_start E l c = (?c3, Ok ())"
    using assms(2,3) lm p(1)
    by (simp add: g_dhcp_client_start_def client_start_def keeps sbind_assoc sbind_Ok ignore_Ok [OF send_discover_Ok] Let_def)
  have ok: "client_ok ?c3"
    using tripleD [OF given_start_timers assms(1), of E l] unfolding started by (simp add: client_ok_def)
  have "is_discover ?c3 = is_discover ?c2"
    by (rule is_discover_cong) (simp_all add: armed_def)
  then show ?thesis
    using p(2) assms timer_free_empty [OF assms(1)]
    by (intro that [OF started _ _ ok]) (simp_all add: armed_def same_client_def)
qed

lemma discovering_starts:
  assumes "timer_free 0 c" and "ctype c = G_DHCP_IPV4" and "retry_times c = 0" and "registered c NO_LEASE" and "c_open E L2"
  shows "discovering (outputs c) 1 (fst (g_dhcp_client_start E l c))"
proof -
  obtain c1 p where "g_dhcp_client_start E l c = (c1, Ok ())" "outputs c1 = outputs c @ [Sent_raw p]" "is_discover c1 (Sent_raw p)"
    "client_ok c1" "retry_times c1 = 0" "sources c1 = [timeout c1 \<mapsto> (discover_timeout, 3000)]" "same_client c c1"
    by (rule client_starts [OF assms(1-3,5), of l])
  then show ?thesis using assms by (simp add: discovering_def same_client_def)
qed

lemma discovering_ends:
  assumes "discovering os 10 c"
  shows "\<exists>ds. fire E (timeout c) c = (c\<lparr>retry_times := 0, outputs := os @ ds @ [Notify NO_LEASE], sources := Map.empty\<rparr>, Ok ()) \<and>
    length ds = 10 \<and> list_all (is_discover c) ds"
proof -
  have src: "sources c (timeout c) = Some (discover_timeout, 3000)" using assms by (simp add: discovering_def)
  have "run_timer E discover_timeout c = (c\<lparr>retry_times := 0, outputs := outputs c @ [Notify NO_LEASE]\<rparr>, Ok ())"
    using assms start_gives_up [of "c\<lparr>retry_times := retry_times c + 1\<rparr>" E]
    by (simp add: run_discover_timeout_def ignore_def discovering_def)
  from fire_Ok [OF src this] show ?thesis using assms by (auto simp: discovering_def)
qed

text \<open>
  C38: A client that nobody answers gives up. After a start without a pending timer, each of nine
  expiries of the timer repeats the discovery every three seconds; the tenth reports that there is no
  lease, after exactly ten DISCOVER messages, and leaves no timer behind.
\<close>

theorem dhcp_client_gives_up:
  assumes "timer_free 0 c" and "ctype c = G_DHCP_IPV4" and "retry_times c = 0" and "registered c NO_LEASE" and "c_open E0 L2"
    and "length Es = 10"
  shows "\<exists>ds d. outputs (foldl (\<lambda>c E. fst (fire E (timeout c) c)) (fst (g_dhcp_client_start E0 l c)) Es) =
      outputs c @ ds @ [Notify NO_LEASE] \<and> length ds = 10 \<and> list_all (is_discover d) ds \<and>
    sources (foldl (\<lambda>c E. fst (fire E (timeout c) c)) (fst (g_dhcp_client_start E0 l c)) Es) = Map.empty"
proof -
  have run: "discovering (outputs c) (length Es + 1) (foldl (\<lambda>c E. fst (fire E (timeout c) c)) (fst (g_dhcp_client_start E0 l c)) Es)"
    if "length Es \<le> 9" for Es
    using that
  proof (induction Es rule: rev_induct)
    case Nil
    then show ?case using discovering_starts [OF assms(1-5), of l] by simp
  next
    case (snoc E Es)
    then show ?case using discovering_step [of "outputs c" "length Es + 1"] by simp
  qed
  obtain Es' E where Es: "Es = Es' @ [E]" "length Es' = 9" using assms(6) by (cases Es rule: rev_cases) auto
  let ?d = "foldl (\<lambda>c E. fst (fire E (timeout c) c)) (fst (g_dhcp_client_start E0 l c)) Es'"
  have "discovering (outputs c) 10 ?d" using run [of Es'] Es(2) by simp
  from discovering_ends [OF this, of E] show ?thesis by (auto simp: Es(1))
qed

theorem dhcp_client_gives_up_witness:
  "\<exists>ds d. outputs (foldl (\<lambda>c E. fst (fire E (timeout c) c))
      (fst (g_dhcp_client_start demo_client_env None (fst (g_dhcp_client_register_event NO_LEASE True demo_dhcp))))
      (replicate 10 demo_client_env)) = ds @ [Notify NO_LEASE] \<and> length ds = 10 \<and> list_all (is_discover d) ds"
proof -
  let ?c = "fst (g_dhcp_client_register_event NO_LEASE True demo_dhcp)"
  have "client_ok ?c" using client_step_ok [of demo_dhcp "Registers NO_LEASE True"] client_new_timers [OF demo_dhcp_new] by simp
  then have "timer_free 0 ?c" by (simp add: client_ok_def timer_free_def g_dhcp_client_register_event_def demo_dhcp_def g_dhcp_client_new_def)
  from dhcp_client_gives_up [OF this, of demo_client_env "replicate 10 demo_client_env" None] show ?thesis
    by (auto simp: g_dhcp_client_register_event_def demo_dhcp_def g_dhcp_client_new_def demo_client_env_def)
qed

end
