(* ===== verification/Dhcp_Lease.thy ===== *)
theory Dhcp_Lease
  imports Dhcp_Common
begin

text \<open>
  The state and the lease table of the DHCP server, \<open>src/gdhcp/server.c\<close>. Leases are heap objects
  shared by the list \<open>lease_list\<close> and the hash table \<open>nip_lease_hash\<close>, so the model has an explicit
  store from addresses to leases; an access through a freed address is a \<open>Fault\<close>.

  GLib and the C library are parameters: \<open>g_list_insert_sorted\<close>, the order in which
  \<open>g_hash_table_foreach\<close> visits the keys of a table, and \<open>inet_aton\<close>. \<open>now\<close> is the value of
  \<open>time(NULL)\<close> while one event is handled, and \<open>mem\<close> says whether \<open>g_try_new0\<close> succeeds.

  The invariant \<open>lease_inv\<close> ties the list, the hash table and the store together, and every function
  of the table is described by its effect on the set \<open>leases\<close> of leases.
\<close>

subsection \<open>State\<close>

record dhcp_lease =
  expire :: int
  lease_nip :: u32
  lease_mac :: "u8 list"

text \<open>A packet with its source address, its destination address and its link-layer destination.\<close>

type_synonym sent_packet = "dhcp_packet \<times> u32 \<times> u32 \<times> u8 list"

record GDHCPServer =
  ref_count :: int
  started :: bool
  ifindex :: int
  start_ip :: u32
  end_ip :: u32
  server_nip :: u32
  lease_seconds :: u32
  listener_watch :: u32
  heap :: "nat \<rightharpoonup> dhcp_lease"
  next_addr :: nat
  lease_list :: "nat list"
  nip_lease_hash :: "u32 \<rightharpoonup> nat"
  option_hash :: "u8 \<rightharpoonup> string"
  save_lease_func :: bool
  saved :: "dhcp_lease list"
  sent :: "sent_packet list"

record dhcp_env =
  inet_aton :: "string \<Rightarrow> u32 option"
  g_list_insert_sorted :: "(nat \<Rightarrow> nat \<Rightarrow> int) \<Rightarrow> nat \<Rightarrow> nat list \<Rightarrow> nat list"
  g_hash_table_keys :: "(u8 \<rightharpoonup> string) \<Rightarrow> u8 list"

abbreviation (input) DEFAULT_DHCP_LEASE_SEC :: u32 where "DEFAULT_DHCP_LEASE_SEC \<equiv> 28800"
abbreviation (input) OFFER_TIME :: u32 where "OFFER_TIME \<equiv> 300"
abbreviation (input) INADDR_BROADCAST :: u32 where "INADDR_BROADCAST \<equiv> 0xffffffff"

definition MAC_BCAST_ADDR :: "u8 list" where
  "MAC_BCAST_ADDR = replicate 6 0xff"

definition MAC_ANY_ADDR :: "u8 list" where
  "MAC_ANY_ADDR = replicate 6 0"

definition deref :: "nat \<Rightarrow> (GDHCPServer, dhcp_lease) op" where
  "deref a s = (s, case heap s a of None \<Rightarrow> Fault | Some l \<Rightarrow> Ok l)"

subsection \<open>The lease table\<close>

text \<open>\<open>memcmp\<close> over \<open>ETH_ALEN = 6\<close> bytes; \<open>mac\<close> may be the 16 bytes of a \<open>chaddr\<close> field.\<close>

fun find_mac_loop :: "(nat \<rightharpoonup> dhcp_lease) \<Rightarrow> u8 list \<Rightarrow> nat list \<Rightarrow> nat option result" where
  "find_mac_loop h mac [] = Ok None"
| "find_mac_loop h mac (a # as) =
     (case h a of
        None \<Rightarrow> Fault
      | Some l \<Rightarrow> if lease_mac l = take 6 mac then Ok (Some a) else find_mac_loop h mac as)"

definition find_lease_by_mac :: "u8 list \<Rightarrow> (GDHCPServer, nat option) op" where
  "find_lease_by_mac mac s = (s, find_mac_loop (heap s) mac (lease_list s))"

definition remove_lease :: "nat \<Rightarrow> (GDHCPServer, unit) op" where
  "remove_lease a =
     sbind (smod (\<lambda>s. s\<lparr>lease_list := remove1 a (lease_list s)\<rparr>)) (\<lambda>_.
     sbind (deref a) (\<lambda>l.
     sbind (smod (\<lambda>s. s\<lparr>nip_lease_hash := (nip_lease_hash s)(lease_nip l := None)\<rparr>)) (\<lambda>_.
     smod (\<lambda>s. s\<lparr>heap := (heap s)(a := None)\<rparr>))))"

text \<open>A new lease is zeroed memory at an address that was never used.\<close>

definition new_lease :: "bool \<Rightarrow> (GDHCPServer, nat) op" where
  "new_lease mem s =
     (if mem
      then (s\<lparr>heap := (heap s)(next_addr s \<mapsto> \<lparr>expire = 0, lease_nip = 0, lease_mac = replicate 6 0\<rparr>),
              next_addr := next_addr s + 1\<rparr>, Ok (next_addr s))
      else (s, Err ENOMEM))"

definition get_lease :: "bool \<Rightarrow> u32 \<Rightarrow> u8 list \<Rightarrow> (GDHCPServer, nat) op" where
  "get_lease mem yi mac =
     sbind (sget (\<lambda>s. yi = 0 \<or> ntohl yi < start_ip s \<or> ntohl yi > end_ip s \<or>
       take 6 mac = MAC_BCAST_ADDR \<or> take 6 mac = MAC_ANY_ADDR)) (\<lambda>bad.
     if bad then serr ENXIO
     else
       sbind (find_lease_by_mac mac) (\<lambda>by_mac.
       sbind (sget (\<lambda>s. nip_lease_hash s (ntohl yi))) (\<lambda>by_nip.
       case by_nip of
         Some a \<Rightarrow>
           sbind (smod (\<lambda>s. s\<lparr>lease_list := remove1 a (lease_list s),
             nip_lease_hash := (nip_lease_hash s)(ntohl yi := None)\<rparr>)) (\<lambda>_.
           case by_mac of
             None \<Rightarrow> sret a
           | Some b \<Rightarrow> if a \<noteq> b then sbind (remove_lease b) (\<lambda>_. sret a) else sret a)
       | None \<Rightarrow>
           (case by_mac of
              Some b \<Rightarrow>
                sbind (smod (\<lambda>s. s\<lparr>lease_list := remove1 b (lease_list s)\<rparr>)) (\<lambda>_.
                sbind (deref b) (\<lambda>l.
                sbind (smod (\<lambda>s. s\<lparr>nip_lease_hash := (nip_lease_hash s)(lease_nip l := None)\<rparr>)) (\<lambda>_.
                sret b)))
            | None \<Rightarrow> new_lease mem))))"

text \<open>The difference of two \<open>time_t\<close> values is converted to a 32-bit \<open>gint\<close>.\<close>

definition compare_expire :: "dhcp_lease \<Rightarrow> dhcp_lease \<Rightarrow> int" where
  "compare_expire lease1 lease2 = signed_take_bit 31 (expire lease2 - expire lease1)"

definition list_insert :: "dhcp_env \<Rightarrow> nat \<Rightarrow> (GDHCPServer, unit) op" where
  "list_insert E a s =
     (if \<forall>b\<in>set (a # lease_list s). heap s b \<noteq> None
      then (s\<lparr>lease_list :=
               g_list_insert_sorted E (\<lambda>x y. compare_expire (the (heap s x)) (the (heap s y))) a (lease_list s)\<rparr>,
            Ok ())
      else (s, Fault))"

definition set_lease :: "nat \<Rightarrow> dhcp_lease \<Rightarrow> (GDHCPServer, unit) op" where
  "set_lease a l s = (if heap s a = None then (s, Fault) else (s\<lparr>heap := (heap s)(a \<mapsto> l)\<rparr>, Ok ()))"

text \<open>The result is the address of the lease, or an error where the source returns \<open>NULL\<close>.\<close>

definition add_lease :: "dhcp_env \<Rightarrow> int \<Rightarrow> bool \<Rightarrow> u32 \<Rightarrow> u8 list \<Rightarrow> u32 \<Rightarrow> (GDHCPServer, nat) op" where
  "add_lease E now mem exp mac yi =
     sbind (get_lease mem yi mac) (\<lambda>a.
     sbind (sget (\<lambda>s. \<lparr>expire = (if exp = 0 then now + int (unat (lease_seconds s)) else int (unat exp)),
       lease_nip = ntohl yi, lease_mac = take 6 mac\<rparr>)) (\<lambda>l.
     sbind (set_lease a l) (\<lambda>_.
     sbind (list_insert E a) (\<lambda>_.
     sbind (smod (\<lambda>s. s\<lparr>nip_lease_hash := (nip_lease_hash s)(lease_nip l \<mapsto> a)\<rparr>)) (\<lambda>_.
     sret a)))))"

text \<open>Errors of \<open>add_lease\<close> are the \<open>NULL\<close> that the caller handles; a \<open>Fault\<close> is passed on.\<close>

definition try_add_lease ::
    "dhcp_env \<Rightarrow> int \<Rightarrow> bool \<Rightarrow> u32 \<Rightarrow> u8 list \<Rightarrow> u32 \<Rightarrow> (GDHCPServer, nat option) op" where
  "try_add_lease E now mem exp mac yi s =
     (case add_lease E now mem exp mac yi s of
        (s, Ok a) \<Rightarrow> (s, Ok (Some a)) | (s, Err e) \<Rightarrow> (s, Ok None) | (s, Fault) \<Rightarrow> (s, Fault))"

definition find_lease_by_nip :: "u32 \<Rightarrow> (GDHCPServer, nat option) op" where
  "find_lease_by_nip nip s = (s, Ok (nip_lease_hash s nip))"

definition arp_check :: "u32 \<Rightarrow> u8 list \<Rightarrow> bool" where
  "arp_check nip safe_mac = True"

definition is_expired_lease :: "int \<Rightarrow> dhcp_lease \<Rightarrow> bool" where
  "is_expired_lease now l \<longleftrightarrow> expire l < now"

text \<open>
  The search for a free address: \<open>None\<close> when it does not end, \<open>Some None\<close> when it ran past the end of
  the range.
\<close>

partial_function (option) free_nip_loop :: "(u32 \<rightharpoonup> nat) \<Rightarrow> u32 \<Rightarrow> u8 list \<Rightarrow> u32 \<Rightarrow> u32 option option" where
  "free_nip_loop hash end_nip safe_mac ip =
     (if \<not> ip \<le> end_nip then Some None
      else if ip AND 0xff = 0 \<or> ip AND 0xff = 0xff \<or> hash ip \<noteq> None then free_nip_loop hash end_nip safe_mac (ip + 1)
      else if arp_check (htonl ip) safe_mac then Some (Some ip)
      else free_nip_loop hash end_nip safe_mac (ip + 1))"

definition find_free_or_expired_nip :: "int \<Rightarrow> u8 list \<Rightarrow> GDHCPServer \<Rightarrow> (GDHCPServer \<times> u32 result) option" where
  "find_free_or_expired_nip now safe_mac s =
     (case free_nip_loop (nip_lease_hash s) (end_ip s) safe_mac (start_ip s) of
        None \<Rightarrow> None
      | Some (Some ip) \<Rightarrow> Some (s, Ok ip)
      | Some None \<Rightarrow>
          Some (if lease_list s = [] then (s, Ok 0)
                else sbind (deref (last (lease_list s))) (\<lambda>l.
                  sret (if \<not> is_expired_lease now l then 0
                        else if \<not> arp_check (lease_nip l) safe_mac then 0
                        else lease_nip l)) s))"

text \<open>The new expiry time is an \<open>uint32_t\<close>.\<close>

definition lease_set_expire :: "dhcp_env \<Rightarrow> nat \<Rightarrow> u32 \<Rightarrow> (GDHCPServer, unit) op" where
  "lease_set_expire E a exp =
     sbind (smod (\<lambda>s. s\<lparr>lease_list := remove1 a (lease_list s)\<rparr>)) (\<lambda>_.
     sbind (deref a) (\<lambda>l.
     sbind (set_lease a (l\<lparr>expire := int (unat exp)\<rparr>)) (\<lambda>_.
     list_insert E a)))"

text \<open>Freeing an address that holds no lease is a \<open>Fault\<close>.\<close>

fun free_loop :: "(nat \<rightharpoonup> dhcp_lease) \<Rightarrow> nat list \<Rightarrow> (nat \<rightharpoonup> dhcp_lease) result" where
  "free_loop h [] = Ok h"
| "free_loop h (a # as) = (if h a = None then Fault else free_loop (h(a := None)) as)"

definition destroy_lease_table :: "(GDHCPServer, unit) op" where
  "destroy_lease_table =
     sbind (smod (\<lambda>s. s\<lparr>nip_lease_hash := Map.empty\<rparr>)) (\<lambda>_.
     sbind (\<lambda>s. (s, free_loop (heap s) (lease_list s))) (\<lambda>h.
     smod (\<lambda>s. s\<lparr>heap := h, lease_list := []\<rparr>)))"

subsection \<open>The lease table invariant\<close>

text \<open>
  The lease table, with the addresses \<open>X\<close> of leases that are allocated and not linked: the list and
  the hash table hold the same leases, no hardware address and no IP address has two, and every
  allocated lease is linked or in \<open>X\<close>.
\<close>

definition tab :: "nat set \<Rightarrow> (nat \<rightharpoonup> dhcp_lease) \<Rightarrow> nat \<Rightarrow> nat list \<Rightarrow> (u32 \<rightharpoonup> nat) \<Rightarrow> bool" where
  "tab X h n ls hash \<longleftrightarrow>
     distinct ls \<and> dom h = set ls \<union> X \<and> set ls \<inter> X = {} \<and> (\<forall>a\<in>dom h. a < n) \<and>
     (\<forall>nip a. hash nip = Some a \<longleftrightarrow> a \<in> set ls \<and> (\<exists>l. h a = Some l \<and> lease_nip l = nip)) \<and>
     (\<forall>a\<in>set ls. \<forall>b\<in>set ls. \<forall>l k. h a = Some l \<longrightarrow> h b = Some k \<longrightarrow> lease_mac l = lease_mac k \<longrightarrow> a = b)"

definition linked :: "(nat \<rightharpoonup> dhcp_lease) \<Rightarrow> nat list \<Rightarrow> dhcp_lease set" where
  "linked h ls = {l. \<exists>a\<in>set ls. h a = Some l}"

definition lease_inv :: "GDHCPServer \<Rightarrow> bool" where
  "lease_inv s \<longleftrightarrow> tab {} (heap s) (next_addr s) (lease_list s) (nip_lease_hash s)"

definition leases :: "GDHCPServer \<Rightarrow> dhcp_lease set" where
  "leases s = linked (heap s) (lease_list s)"

text \<open>The fields that the lease table functions leave alone.\<close>

definition frame :: "GDHCPServer \<Rightarrow> GDHCPServer \<Rightarrow> bool" where
  "frame s s' \<longleftrightarrow>
     ref_count s' = ref_count s \<and> started s' = started s \<and> ifindex s' = ifindex s \<and> start_ip s' = start_ip s \<and>
     end_ip s' = end_ip s \<and> server_nip s' = server_nip s \<and> lease_seconds s' = lease_seconds s \<and>
     listener_watch s' = listener_watch s \<and> option_hash s' = option_hash s \<and>
     save_lease_func s' = save_lease_func s \<and> saved s' = saved s \<and> sent s' = sent s"

lemma tab_hash:
  "tab X h n ls hash \<Longrightarrow> hash nip = Some a \<longleftrightarrow> a \<in> set ls \<and> (\<exists>l. h a = Some l \<and> lease_nip l = nip)"
  by (simp add: tab_def)

lemma tab_hash_None:
  assumes "tab X h n ls hash"
  shows "hash nip = None \<longleftrightarrow> (\<forall>k\<in>linked h ls. lease_nip k \<noteq> nip)"
  using tab_hash [OF assms, of nip] by (cases "hash nip") (simp_all add: linked_def, blast+)

lemma tab_nip_unique:
  assumes "tab X h n ls hash" "a \<in> set ls" "b \<in> set ls" "h a = Some l" "h b = Some k" "lease_nip l = lease_nip k"
  shows "a = b"
proof -
  have "hash (lease_nip l) = Some a" "hash (lease_nip l) = Some b" using assms by (simp_all add: tab_hash)
  then show ?thesis by simp
qed

lemma tab_mac_unique:
  assumes "tab X h n ls hash" "a \<in> set ls" "b \<in> set ls" "h a = Some l" "h b = Some k" "lease_mac l = lease_mac k"
  shows "a = b"
  using assms by (simp add: tab_def)

lemma linked_minus:
  assumes "distinct ls" and "\<And>b k. b \<in> set ls \<Longrightarrow> h b = Some k \<Longrightarrow> b \<noteq> a \<longleftrightarrow> P k"
  shows "linked h (remove1 a ls) = {k \<in> linked h ls. P k}"
  using assms by (auto simp: linked_def)

lemma tab_unlink:
  assumes t: "tab X h n ls hash" and a: "a \<in> set ls" "h a = Some l"
  shows "tab (insert a X) h n (remove1 a ls) (hash(lease_nip l := None))"
    and "linked h (remove1 a ls) = {k \<in> linked h ls. lease_mac k \<noteq> lease_mac l}"
    and "linked h (remove1 a ls) = {k \<in> linked h ls. lease_nip k \<noteq> lease_nip l}"
proof -
  have s: "set (remove1 a ls) = set ls - {a}" using t by (simp add: tab_def)
  show "tab (insert a X) h n (remove1 a ls) (hash(lease_nip l := None))"
    unfolding tab_def s
  proof (intro conjI allI)
    fix nip b
    show "((hash(lease_nip l := None)) nip = Some b) \<longleftrightarrow> b \<in> set ls - {a} \<and> (\<exists>l. h b = Some l \<and> lease_nip l = nip)"
      using a tab_nip_unique [OF t a(1) _ a(2), of b] by (auto simp: tab_hash [OF t])
  qed (use t a in \<open>auto simp: tab_def\<close>)
  show "linked h (remove1 a ls) = {k \<in> linked h ls. lease_mac k \<noteq> lease_mac l}"
  proof (rule linked_minus)
    fix b k
    assume "b \<in> set ls" "h b = Some k"
    then show "b \<noteq> a \<longleftrightarrow> lease_mac k \<noteq> lease_mac l" using tab_mac_unique [OF t, of b a k l] a by auto
  qed (use t in \<open>simp add: tab_def\<close>)
  show "linked h (remove1 a ls) = {k \<in> linked h ls. lease_nip k \<noteq> lease_nip l}"
  proof (rule linked_minus)
    fix b k
    assume "b \<in> set ls" "h b = Some k"
    then show "b \<noteq> a \<longleftrightarrow> lease_nip k \<noteq> lease_nip l" using tab_nip_unique [OF t, of b a k l] a by auto
  qed (use t in \<open>simp add: tab_def\<close>)
qed

lemma tab_free:
  assumes "tab X h n ls hash" "a \<in> X"
  shows "tab (X - {a}) (h(a := None)) n ls hash" and "linked (h(a := None)) ls = linked h ls"
proof -
  have "a \<notin> set ls" using assms by (auto simp: tab_def)
  then show "linked (h(a := None)) ls = linked h ls" by (auto simp: linked_def)
  show "tab (X - {a}) (h(a := None)) n ls hash"
    using assms \<open>a \<notin> set ls\<close> unfolding tab_def by (intro conjI) auto
qed

lemma tab_set:
  assumes "tab X h n ls hash" "a \<in> X"
  shows "tab X (h(a \<mapsto> l)) n ls hash" and "linked (h(a \<mapsto> l)) ls = linked h ls"
proof -
  have "a \<notin> set ls" using assms by (auto simp: tab_def)
  then show "linked (h(a \<mapsto> l)) ls = linked h ls" by (auto simp: linked_def)
  show "tab X (h(a \<mapsto> l)) n ls hash"
    using assms \<open>a \<notin> set ls\<close> unfolding tab_def by (intro conjI) auto
qed

lemma tab_alloc:
  assumes "tab X h n ls hash"
  shows "tab (insert n X) (h(n \<mapsto> l)) (n + 1) ls hash" and "linked (h(n \<mapsto> l)) ls = linked h ls"
proof -
  have "n \<notin> dom h" using assms by (auto simp: tab_def)
  then have "n \<notin> set ls" using assms by (auto simp: tab_def)
  then show "linked (h(n \<mapsto> l)) ls = linked h ls" by (auto simp: linked_def)
  show "tab (insert n X) (h(n \<mapsto> l)) (n + 1) ls hash"
    using assms \<open>n \<notin> set ls\<close> unfolding tab_def by (intro conjI) (auto simp: less_Suc_eq)
qed

lemma tab_link:
  assumes t: "tab {a} h n ls hash" and l: "h a = Some l" and ls': "distinct ls'" "set ls' = insert a (set ls)"
    and fresh: "\<forall>k\<in>linked h ls. lease_mac k \<noteq> lease_mac l \<and> lease_nip k \<noteq> lease_nip l"
  shows "tab {} h n ls' (hash(lease_nip l \<mapsto> a))" and "linked h ls' = insert l (linked h ls)"
proof -
  show "linked h ls' = insert l (linked h ls)" using l ls' by (auto simp: linked_def)
  have a: "a \<notin> set ls" using t by (auto simp: tab_def)
  show "tab {} h n ls' (hash(lease_nip l \<mapsto> a))" unfolding tab_def ls'(2)
  proof (intro conjI allI)
    fix nip b
    show "((hash(lease_nip l \<mapsto> a)) nip = Some b) \<longleftrightarrow> b \<in> insert a (set ls) \<and> (\<exists>l. h b = Some l \<and> lease_nip l = nip)"
      using l a fresh by (auto simp: tab_hash [OF t] linked_def)
    show "\<forall>b\<in>insert a (set ls). \<forall>c\<in>insert a (set ls). \<forall>l k. h b = Some l \<longrightarrow> h c = Some k \<longrightarrow>
        lease_mac l = lease_mac k \<longrightarrow> b = c"
      using tab_mac_unique [OF t] l fresh by (auto simp: linked_def)
  qed (use t ls' in \<open>auto simp: tab_def\<close>)
qed

lemma find_mac_loop_spec:
  "set as \<subseteq> dom h \<Longrightarrow>
     (\<exists>a l. find_mac_loop h mac as = Ok (Some a) \<and> a \<in> set as \<and> h a = Some l \<and> lease_mac l = take 6 mac) \<or>
     find_mac_loop h mac as = Ok None \<and> (\<forall>k\<in>linked h as. lease_mac k \<noteq> take 6 mac)"
  by (induction as) (auto simp: linked_def split: option.splits)

subsection \<open>What the lease table functions do\<close>

text \<open>
  The documented behaviour of GLib: \<open>g_list_insert_sorted\<close> inserts the element somewhere, and keeps a
  list sorted whose order the comparison function decides; \<open>g_hash_table_foreach\<close> visits every key once.
\<close>

definition env_ok :: "dhcp_env \<Rightarrow> bool" where
  "env_ok E \<longleftrightarrow>
     (\<forall>cmp x xs. \<exists>ys zs. xs = ys @ zs \<and> g_list_insert_sorted E cmp x xs = ys @ x # zs) \<and>
     (\<forall>cmp x xs key. (\<forall>a\<in>set (x # xs). \<forall>b\<in>set (x # xs). cmp a b \<le> 0 \<longleftrightarrow> key a \<le> (key b :: int)) \<longrightarrow>
        sorted (map key xs) \<longrightarrow> sorted (map key (g_list_insert_sorted E cmp x xs))) \<and>
     (\<forall>m. finite (dom m) \<longrightarrow> distinct (g_hash_table_keys E m) \<and> set (g_hash_table_keys E m) = dom m)"

lemma insert_sorted_set:
  assumes "env_ok E"
  shows "set (g_list_insert_sorted E cmp x xs) = insert x (set xs)"
    and "distinct (g_list_insert_sorted E cmp x xs) \<longleftrightarrow> x \<notin> set xs \<and> distinct xs"
proof -
  obtain ys zs where "xs = ys @ zs" "g_list_insert_sorted E cmp x xs = ys @ x # zs"
    using assms unfolding env_ok_def by metis
  then show "set (g_list_insert_sorted E cmp x xs) = insert x (set xs)"
    and "distinct (g_list_insert_sorted E cmp x xs) \<longleftrightarrow> x \<notin> set xs \<and> distinct xs" by auto
qed

lemma insert_sorted_sorted:
  assumes "env_ok E" and "\<And>a b. a \<in> set (x # xs) \<Longrightarrow> b \<in> set (x # xs) \<Longrightarrow> cmp a b \<le> 0 \<longleftrightarrow> key a \<le> (key b :: int)"
    and "sorted (map key xs)"
  shows "sorted (map key (g_list_insert_sorted E cmp x xs))"
  using assms(1) [unfolded env_ok_def, THEN conjunct2, THEN conjunct1, rule_format, of x xs cmp key] assms(2,3) by simp

definition acceptable :: "GDHCPServer \<Rightarrow> u32 \<Rightarrow> u8 list \<Rightarrow> bool" where
  "acceptable s nip mac \<longleftrightarrow>
     nip \<noteq> 0 \<and> start_ip s \<le> nip \<and> nip \<le> end_ip s \<and> take 6 mac \<noteq> MAC_BCAST_ADDR \<and> take 6 mac \<noteq> MAC_ANY_ADDR"

lemma find_lease_by_mac_spec:
  assumes "lease_inv s"
  obtains (found) a l where "find_lease_by_mac mac s = (s, Ok (Some a))" "a \<in> set (lease_list s)" "heap s a = Some l"
      "l \<in> leases s" "lease_mac l = take 6 mac"
    | (absent) "find_lease_by_mac mac s = (s, Ok None)" "\<forall>k\<in>leases s. lease_mac k \<noteq> take 6 mac"
proof -
  have "set (lease_list s) \<subseteq> dom (heap s)" using assms by (auto simp: lease_inv_def tab_def)
  from find_mac_loop_spec [OF this, of mac] show ?thesis
    using found absent by (auto simp: find_lease_by_mac_def leases_def linked_def)
qed

text \<open>\<open>out a s\<close>: lease \<open>a\<close> is allocated and neither in the list nor in the hash table.\<close>

definition out :: "nat \<Rightarrow> GDHCPServer \<Rightarrow> bool" where
  "out a s \<longleftrightarrow> tab {a} (heap s) (next_addr s) (lease_list s) (nip_lease_hash s)"

lemma frame_refl [simp]: "frame s s"
  by (simp add: frame_def)

text \<open>
  \<open>by_age\<close>: the list is sorted, the lease that expires last first. \<open>sub s s'\<close>: what is linked in \<open>s'\<close>
  was linked in \<open>s\<close>, in the same order.
\<close>

definition by_age :: "GDHCPServer \<Rightarrow> bool" where
  "by_age s \<longleftrightarrow> sorted_wrt (\<lambda>a b. expire (the (heap s b)) \<le> expire (the (heap s a))) (lease_list s)"

definition sub :: "GDHCPServer \<Rightarrow> GDHCPServer \<Rightarrow> bool" where
  "sub s s' \<longleftrightarrow> (\<forall>R. sorted_wrt R (lease_list s) \<longrightarrow> sorted_wrt R (lease_list s')) \<and>
     (\<forall>a\<in>set (lease_list s'). heap s' a = heap s a)"

lemma by_age_sub: "by_age s \<Longrightarrow> sub s s' \<Longrightarrow> by_age s'"
  unfolding by_age_def sub_def by (metis (mono_tags, lifting) sorted_wrt_mono_rel)

lemma sorted_wrt_remove1: "sorted_wrt R xs \<Longrightarrow> sorted_wrt R (remove1 a xs)"
  by (induction xs) (use set_remove1_subset in fastforce)+

lemma get_lease_rejects: "\<not> acceptable s (ntohl yi) mac \<Longrightarrow> get_lease mem yi mac s = (s, Err ENXIO)"
  by (auto simp: get_lease_def acceptable_def)

lemma get_lease_finds:
  assumes inv: "lease_inv s" and acc: "acceptable s (ntohl yi) mac" and a: "nip_lease_hash s (ntohl yi) = Some a"
  obtains s' where "get_lease mem yi mac s = (s', Ok a)" "frame s s'" "out a s'" "sub s s'"
    "leases s' = {k \<in> leases s. lease_mac k \<noteq> take 6 mac \<and> lease_nip k \<noteq> ntohl yi}"
proof -
  note t = inv [unfolded lease_inv_def]
  obtain l where l: "a \<in> set (lease_list s)" "heap s a = Some l" "lease_nip l = ntohl yi"
    using a by (auto simp: tab_hash [OF t])
  let ?s = "s\<lparr>lease_list := remove1 a (lease_list s), nip_lease_hash := (nip_lease_hash s)(ntohl yi := None)\<rparr>"
  note u = tab_unlink [OF t l(1,2), unfolded l(3)]
  have outa: "out a ?s" using u(1) by (simp add: out_def)
  have nip: "leases ?s = {k \<in> leases s. lease_nip k \<noteq> ntohl yi}" using u(3) by (simp add: leases_def)
  have mac: "leases ?s = {k \<in> leases s. lease_mac k \<noteq> lease_mac l}" using u(2) by (simp add: leases_def)
  show ?thesis
    using inv
  proof (cases rule: find_lease_by_mac_spec [where mac = mac])
    case absent
    then have "get_lease mem yi mac s = (?s, Ok a)" using acc a
      by (simp add: get_lease_def acceptable_def not_le not_less sbind_def)
    then show ?thesis using that outa nip absent by (fastforce simp: frame_def sub_def sorted_wrt_remove1)
  next
    case (found b k)
    show ?thesis
    proof (cases "a = b")
      case True
      then have "get_lease mem yi mac s = (?s, Ok a)" using acc a found
        by (simp add: get_lease_def acceptable_def not_le not_less sbind_def)
      moreover have "k = l" using True found l by simp
      ultimately show ?thesis using that outa nip mac found by (fastforce simp: frame_def sub_def sorted_wrt_remove1)
    next
      case False
      have b: "b \<in> set (remove1 a (lease_list s))" using False found t by (simp add: tab_def)
      note v = tab_unlink [OF u(1) b found(3)]
      let ?t = "?s\<lparr>lease_list := remove1 b (remove1 a (lease_list s)),
          nip_lease_hash := ((nip_lease_hash s)(ntohl yi := None))(lease_nip k := None), heap := (heap s)(b := None)\<rparr>"
      have "get_lease mem yi mac s = (?t, Ok a)" using acc a found False
        by (simp add: get_lease_def acceptable_def not_le not_less sbind_def remove_lease_def deref_def)
      moreover have "out a ?t" using tab_free(1) [OF v(1), of b] False by (simp add: out_def insert_Diff_if)
      moreover have "leases ?t = {k \<in> leases s. lease_mac k \<noteq> take 6 mac \<and> lease_nip k \<noteq> ntohl yi}"
        using tab_free(2) [OF v(1), of b] v(2) nip found by (auto simp: leases_def)
      moreover have "b \<notin> set (remove1 b (remove1 a (lease_list s)))" using t by (simp add: tab_def)
      ultimately show ?thesis using that by (auto simp: frame_def sub_def sorted_wrt_remove1)
    qed
  qed
qed

lemma get_lease_moves:
  assumes inv: "lease_inv s" and acc: "acceptable s (ntohl yi) mac" and a: "nip_lease_hash s (ntohl yi) = None"
    and mem: "mem \<or> (\<exists>k\<in>leases s. lease_mac k = take 6 mac)"
  obtains a s' where "get_lease mem yi mac s = (s', Ok a)" "frame s s'" "out a s'" "sub s s'"
    "leases s' = {k \<in> leases s. lease_mac k \<noteq> take 6 mac \<and> lease_nip k \<noteq> ntohl yi}"
proof -
  note t = inv [unfolded lease_inv_def]
  have free: "\<forall>k\<in>leases s. lease_nip k \<noteq> ntohl yi" using a unfolding leases_def tab_hash_None [OF t] .
  show ?thesis
    using inv
  proof (cases rule: find_lease_by_mac_spec [where mac = mac])
    case (found b l)
    let ?s = "s\<lparr>lease_list := remove1 b (lease_list s), nip_lease_hash := (nip_lease_hash s)(lease_nip l := None)\<rparr>"
    note u = tab_unlink [OF t found(2,3)]
    have "get_lease mem yi mac s = (?s, Ok b)" using acc a found
      by (simp add: get_lease_def acceptable_def not_le not_less sbind_def deref_def)
    moreover have "out b ?s" "sub s ?s" using u(1) by (simp_all add: out_def sub_def sorted_wrt_remove1)
    moreover have "leases ?s = {k \<in> leases s. lease_mac k \<noteq> take 6 mac \<and> lease_nip k \<noteq> ntohl yi}"
      using u(2) free found by (auto simp: leases_def)
    ultimately show ?thesis using that by (simp add: frame_def)
  next
    case absent
    let ?l = "\<lparr>expire = 0, lease_nip = 0, lease_mac = replicate 6 0\<rparr>"
    let ?s = "s\<lparr>heap := (heap s)(next_addr s \<mapsto> ?l), next_addr := next_addr s + 1\<rparr>"
    note u = tab_alloc [OF t, of ?l]
    have "mem" using mem absent by auto
    then have "get_lease mem yi mac s = (?s, Ok (next_addr s))" using acc a absent
      by (simp add: get_lease_def acceptable_def not_le not_less sbind_def new_lease_def)
    moreover have "next_addr s \<notin> set (lease_list s)" using t by (fastforce simp: tab_def)
    moreover have "out (next_addr s) ?s" using u(1) by (simp add: out_def)
    moreover have "leases ?s = {k \<in> leases s. lease_mac k \<noteq> take 6 mac \<and> lease_nip k \<noteq> ntohl yi}"
      using u(2) free absent by (auto simp: leases_def)
    ultimately show ?thesis using that by (auto simp: frame_def sub_def)
  qed
qed

lemma get_lease_no_memory:
  assumes inv: "lease_inv s" and acc: "acceptable s (ntohl yi) mac" and "\<not> mem"
    and none: "\<forall>k\<in>leases s. lease_mac k \<noteq> take 6 mac \<and> lease_nip k \<noteq> ntohl yi"
  shows "get_lease mem yi mac s = (s, Err ENOMEM)"
proof -
  have "nip_lease_hash s (ntohl yi) = None"
    using none tab_hash_None [OF inv [unfolded lease_inv_def]] by (simp add: leases_def)
  moreover have "find_lease_by_mac mac s = (s, Ok None)"
    using inv by (cases rule: find_lease_by_mac_spec [where mac = mac]) (use none in auto)
  ultimately show ?thesis using acc \<open>\<not> mem\<close>
    by (simp add: get_lease_def acceptable_def not_le not_less sbind_def new_lease_def)
qed

lemma get_lease_gives:
  assumes inv: "lease_inv s" and acc: "acceptable s (ntohl yi) mac"
    and mem: "mem \<or> (\<exists>k\<in>leases s. lease_mac k = take 6 mac \<or> lease_nip k = ntohl yi)"
  obtains a s' where "get_lease mem yi mac s = (s', Ok a)" "frame s s'" "out a s'" "sub s s'"
    "leases s' = {k \<in> leases s. lease_mac k \<noteq> take 6 mac \<and> lease_nip k \<noteq> ntohl yi}"
proof (cases "nip_lease_hash s (ntohl yi)")
  case None
  then have "\<forall>k\<in>leases s. lease_nip k \<noteq> ntohl yi"
    using tab_hash_None [OF inv [unfolded lease_inv_def]] by (simp add: leases_def)
  then have "mem \<or> (\<exists>k\<in>leases s. lease_mac k = take 6 mac)" using mem by auto
  then show ?thesis by (rule get_lease_moves [OF inv acc None]) (rule that; assumption)
next
  case (Some a)
  then show ?thesis by - (rule get_lease_finds [OF inv acc Some], rule that; assumption)
qed

text \<open>Adding a lease replaces every lease of its hardware address and of its IP address.\<close>

definition the_lease :: "GDHCPServer \<Rightarrow> int \<Rightarrow> u32 \<Rightarrow> u8 list \<Rightarrow> u32 \<Rightarrow> dhcp_lease" where
  "the_lease s now exp mac nip =
     \<lparr>expire = (if exp = 0 then now + int (unat (lease_seconds s)) else int (unat exp)), lease_nip = nip,
      lease_mac = take 6 mac\<rparr>"

definition small :: "GDHCPServer \<Rightarrow> bool" where
  "small s \<longleftrightarrow> (\<forall>k\<in>leases s. 0 \<le> expire k \<and> expire k < 2 ^ 31 \<and> lease_nip k \<noteq> 0)"

lemma compare_expire_small:
  assumes "0 \<le> expire l" "expire l < 2 ^ 31" "0 \<le> expire k" "expire k < 2 ^ 31"
  shows "compare_expire l k \<le> 0 \<longleftrightarrow> - expire l \<le> - expire k"
proof -
  have "signed_take_bit 31 (expire k - expire l) = expire k - expire l"
    using assms by (simp add: signed_take_bit_int_eq_self_iff)
  then show ?thesis by (simp add: compare_expire_def)
qed

lemma list_insert_by_age:
  assumes "env_ok E" "by_age s" "\<forall>b\<in>set (a # lease_list s). \<exists>l. heap s b = Some l \<and> 0 \<le> expire l \<and> expire l < 2 ^ 31"
  shows "by_age (fst (list_insert E a s))"
proof -
  let ?cmp = "\<lambda>x y. compare_expire (the (heap s x)) (the (heap s y))" and ?key = "\<lambda>x. - expire (the (heap s x))"
  have "?cmp x y \<le> 0 \<longleftrightarrow> ?key x \<le> ?key y" if xy: "x \<in> set (a # lease_list s)" "y \<in> set (a # lease_list s)" for x y
  proof -
    obtain l k where "heap s x = Some l" "0 \<le> expire l" "expire l < 2 ^ 31" "heap s y = Some k" "0 \<le> expire k"
        "expire k < 2 ^ 31"
      using xy assms(3) by blast
    then show ?thesis using compare_expire_small [of l k] by simp
  qed
  moreover have "sorted (map ?key (lease_list s))" using assms(2) by (simp add: by_age_def sorted_map)
  ultimately have "sorted (map ?key (g_list_insert_sorted E ?cmp a (lease_list s)))"
    by (rule insert_sorted_sorted [OF assms(1)])
  then show ?thesis using assms(2) by (simp add: list_insert_def by_age_def sorted_map)
qed

lemma list_insert_link:
  assumes E: "env_ok E" and outa: "out a s" and l: "heap s a = Some l"
    and fresh: "\<forall>k\<in>leases s. lease_mac k \<noteq> lease_mac l \<and> lease_nip k \<noteq> lease_nip l"
  obtains s' where "list_insert E a s = (s', Ok ())" "frame s s'" "heap s' = heap s" "leases s' = insert l (leases s)"
    "lease_inv (s'\<lparr>nip_lease_hash := (nip_lease_hash s)(lease_nip l \<mapsto> a)\<rparr>)"
    "\<lbrakk>by_age s; small s; 0 \<le> expire l; expire l < 2 ^ 31\<rbrakk> \<Longrightarrow> by_age s'"
proof -
  let ?ls = "g_list_insert_sorted E (\<lambda>x y. compare_expire (the (heap s x)) (the (heap s y))) a (lease_list s)"
  let ?s = "s\<lparr>lease_list := ?ls\<rparr>"
  have all: "\<forall>b\<in>set (a # lease_list s). heap s b \<noteq> None" and "a \<notin> set (lease_list s)" "distinct (lease_list s)"
    using outa by (auto simp: out_def tab_def)
  then have ls: "distinct ?ls" "set ?ls = insert a (set (lease_list s))" using insert_sorted_set [OF E] by simp_all
  note t = tab_link [OF outa [unfolded out_def] l ls fresh [unfolded leases_def]]
  show ?thesis
  proof
    show ins: "list_insert E a s = (?s, Ok ())" using all by (simp add: list_insert_def)
    show "leases ?s = insert l (leases s)" using t(2) by (simp add: leases_def)
    show "lease_inv (?s\<lparr>nip_lease_hash := (nip_lease_hash s)(lease_nip l \<mapsto> a)\<rparr>)" using t(1) by (simp add: lease_inv_def)
    assume age: "by_age s" "small s" "0 \<le> expire l" "expire l < 2 ^ 31"
    have "\<forall>b\<in>set (a # lease_list s). \<exists>l. heap s b = Some l \<and> 0 \<le> expire l \<and> expire l < 2 ^ 31"
    proof
      fix b
      assume b: "b \<in> set (a # lease_list s)"
      then obtain k where "heap s b = Some k" using all by blast
      then show "\<exists>l. heap s b = Some l \<and> 0 \<le> expire l \<and> expire l < 2 ^ 31"
        using b age l by (cases "b = a") (auto simp: small_def leases_def linked_def)
    qed
    then have "by_age (fst (list_insert E a s))" by (rule list_insert_by_age [OF E age(1)])
    then show "by_age ?s" unfolding ins by simp
  qed (simp_all add: frame_def)
qed

lemma by_age_hash [simp]: "by_age (s\<lparr>nip_lease_hash := h\<rparr>) = by_age s"
  by (simp add: by_age_def)

lemma leases_hash [simp]: "leases (s\<lparr>nip_lease_hash := h\<rparr>) = leases s"
  by (simp add: leases_def)

text \<open>Writing to a lease that is not linked.\<close>

lemma out_set:
  assumes "out a s"
  shows "out a (s\<lparr>heap := (heap s)(a \<mapsto> l)\<rparr>)" and "leases (s\<lparr>heap := (heap s)(a \<mapsto> l)\<rparr>) = leases s"
    and "heap s a \<noteq> None" and "by_age s \<Longrightarrow> by_age (s\<lparr>heap := (heap s)(a \<mapsto> l)\<rparr>)"
proof -
  note t = assms [unfolded out_def]
  show "out a (s\<lparr>heap := (heap s)(a \<mapsto> l)\<rparr>)" using tab_set(1) [OF t] by (simp add: out_def)
  show "leases (s\<lparr>heap := (heap s)(a \<mapsto> l)\<rparr>) = leases s" using tab_set(2) [OF t] by (simp add: leases_def)
  show "heap s a \<noteq> None" using t by (auto simp: tab_def)
  have "a \<notin> set (lease_list s)" using t by (auto simp: tab_def)
  then have "sub s (s\<lparr>heap := (heap s)(a \<mapsto> l)\<rparr>)" by (auto simp: sub_def)
  then show "by_age s \<Longrightarrow> by_age (s\<lparr>heap := (heap s)(a \<mapsto> l)\<rparr>)" using by_age_sub by blast
qed

lemma frame_trans: "frame s t \<Longrightarrow> frame t u \<Longrightarrow> frame s u"
  by (simp add: frame_def)

lemma frame_simps [simp]: "frame s (s\<lparr>heap := h\<rparr>)" "frame s (s\<lparr>nip_lease_hash := hash\<rparr>)" "frame s (s\<lparr>lease_list := ls\<rparr>)"
  by (simp_all add: frame_def)

text \<open>The order of the list with bounded expiry times, as one predicate.\<close>

definition aged :: "GDHCPServer \<Rightarrow> bool" where
  "aged s \<longleftrightarrow> by_age s \<and> small s"

lemma add_lease_spec:
  assumes E: "env_ok E" and inv: "lease_inv s" and acc: "acceptable s (ntohl yi) mac"
    and mem: "mem \<or> (\<exists>k\<in>leases s. lease_mac k = take 6 mac \<or> lease_nip k = ntohl yi)"
  obtains a s' where "add_lease E now mem exp mac yi s = (s', Ok a)" "frame s s'" "lease_inv s'"
    "leases s' = insert (the_lease s now exp mac (ntohl yi))
       {k \<in> leases s. lease_mac k \<noteq> take 6 mac \<and> lease_nip k \<noteq> ntohl yi}"
    "\<lbrakk>aged s; 0 \<le> expire (the_lease s now exp mac (ntohl yi)); expire (the_lease s now exp mac (ntohl yi)) < 2 ^ 31\<rbrakk> \<Longrightarrow>
       aged s'"
proof -
  let ?l = "the_lease s now exp mac (ntohl yi)"
  obtain a s1 where g: "get_lease mem yi mac s = (s1, Ok a)" "frame s s1" "out a s1" "sub s s1"
      and ls: "leases s1 = {k \<in> leases s. lease_mac k \<noteq> take 6 mac \<and> lease_nip k \<noteq> ntohl yi}"
    by (rule get_lease_gives [OF inv acc mem])
  let ?s2 = "s1\<lparr>heap := (heap s1)(a \<mapsto> ?l)\<rparr>"
  note o2 = out_set(1,2) [OF g(3), of ?l] out_set(3) [OF g(3)] out_set(4) [OF g(3), of ?l]
  have l: "lease_mac ?l = take 6 mac" "lease_nip ?l = ntohl yi" by (simp_all add: the_lease_def)
  obtain s3 where s3: "list_insert E a ?s2 = (s3, Ok ())" "frame ?s2 s3" "heap s3 = heap ?s2"
      "leases s3 = insert ?l (leases ?s2)"
      "lease_inv (s3\<lparr>nip_lease_hash := (nip_lease_hash ?s2)(lease_nip ?l \<mapsto> a)\<rparr>)"
      "\<lbrakk>by_age ?s2; small ?s2; 0 \<le> expire ?l; expire ?l < 2 ^ 31\<rbrakk> \<Longrightarrow> by_age s3"
    by (rule list_insert_link [OF E o2(1), of ?l]) (auto simp: o2(2) ls l)
  have hash: "nip_lease_hash s3 = nip_lease_hash s1" using s3(1) by (auto simp: list_insert_def split: if_splits)
  have "\<lparr>expire = (if exp = 0 then now + int (unat (lease_seconds s1)) else int (unat exp)), lease_nip = ntohl yi,
      lease_mac = take 6 mac\<rparr> = ?l" using g(2) by (simp add: the_lease_def frame_def)
  then have add: "add_lease E now mem exp mac yi s = (s3\<lparr>nip_lease_hash := (nip_lease_hash s3)(ntohl yi \<mapsto> a)\<rparr>, Ok a)"
    using o2(3) s3(1) by (simp add: add_lease_def sbind_def g(1) set_lease_def l(2))
  show ?thesis
  proof (rule that [OF add])
    show "frame s (s3\<lparr>nip_lease_hash := (nip_lease_hash s3)(ntohl yi \<mapsto> a)\<rparr>)"
      using g(2) s3(2) by (simp add: frame_def)
    assume h: "aged s" "0 \<le> expire ?l" "expire ?l < 2 ^ 31"
    then have "small s1" by (auto simp: aged_def small_def ls)
    then have "small ?s2" by (simp add: small_def o2(2))
    moreover have "by_age ?s2" using h by_age_sub [OF _ g(4)] o2(4) by (simp add: aged_def)
    ultimately show "aged (s3\<lparr>nip_lease_hash := (nip_lease_hash s3)(ntohl yi \<mapsto> a)\<rparr>)"
      using s3(4,6) h l(2) acc by (auto simp: aged_def small_def acceptable_def)
  qed (use s3 hash l in \<open>simp_all add: o2(2) ls\<close>)
qed

lemma add_lease_refuses:
  assumes "lease_inv s"
    and "\<not> acceptable s (ntohl yi) mac \<or> \<not> mem \<and> (\<forall>k\<in>leases s. lease_mac k \<noteq> take 6 mac \<and> lease_nip k \<noteq> ntohl yi)"
  shows "\<exists>e. add_lease E now mem exp mac yi s = (s, Err e)"
proof -
  have "\<exists>e. get_lease mem yi mac s = (s, Err e)"
    using assms get_lease_rejects get_lease_no_memory [OF assms(1)] by (cases "acceptable s (ntohl yi) mac") auto
  then show ?thesis by (auto simp: add_lease_def sbind_def)
qed

lemma remove_lease_spec:
  assumes inv: "lease_inv s" and a: "a \<in> set (lease_list s)" "heap s a = Some l"
  obtains s' where "remove_lease a s = (s', Ok ())" "frame s s'" "lease_inv s'" "sub s s'"
    "leases s' = {k \<in> leases s. lease_mac k \<noteq> lease_mac l}"
proof -
  note u = tab_unlink [OF inv [unfolded lease_inv_def] a]
  let ?s = "s\<lparr>lease_list := remove1 a (lease_list s), nip_lease_hash := (nip_lease_hash s)(lease_nip l := None),
      heap := (heap s)(a := None)\<rparr>"
  have "a \<notin> set (remove1 a (lease_list s))" using inv by (simp add: lease_inv_def tab_def)
  then show ?thesis
    using tab_free [OF u(1), of a] u(2) a
    by (intro that [of ?s]) (auto simp: remove_lease_def deref_def sbind_def frame_def lease_inv_def leases_def sub_def
      sorted_wrt_remove1)
qed

lemma lease_set_expire_spec:
  assumes E: "env_ok E" and inv: "lease_inv s" and a: "a \<in> set (lease_list s)" "heap s a = Some l"
  obtains s' where "lease_set_expire E a exp s = (s', Ok ())" "frame s s'" "lease_inv s'"
    "leases s' = insert (l\<lparr>expire := int (unat exp)\<rparr>) {k \<in> leases s. lease_mac k \<noteq> lease_mac l}"
    "aged s \<Longrightarrow> unat exp < 2 ^ 31 \<Longrightarrow> aged s'"
proof -
  let ?l = "l\<lparr>expire := int (unat exp)\<rparr>"
  note t = inv [unfolded lease_inv_def]
  note u = tab_unlink [OF t a]
  let ?s1 = "s\<lparr>lease_list := remove1 a (lease_list s), nip_lease_hash := (nip_lease_hash s)(lease_nip l := None)\<rparr>"
  have outa: "out a ?s1" using u(1) by (simp add: out_def)
  let ?s2 = "?s1\<lparr>heap := (heap ?s1)(a \<mapsto> ?l)\<rparr>"
  note o2 = out_set(1,2) [OF outa, of ?l] out_set(4) [OF outa, of ?l]
  have ls: "leases ?s2 = {k \<in> leases s. lease_mac k \<noteq> lease_mac l}" "leases ?s2 = {k \<in> leases s. lease_nip k \<noteq> lease_nip l}"
    using o2(2) u(2,3) by (simp_all add: leases_def)
  obtain s3 where s3: "list_insert E a ?s2 = (s3, Ok ())" "frame ?s2 s3" "heap s3 = heap ?s2"
      "leases s3 = insert ?l (leases ?s2)"
      "lease_inv (s3\<lparr>nip_lease_hash := (nip_lease_hash ?s2)(lease_nip ?l \<mapsto> a)\<rparr>)"
      "\<lbrakk>by_age ?s2; small ?s2; 0 \<le> expire ?l; expire ?l < 2 ^ 31\<rbrakk> \<Longrightarrow> by_age s3"
    by (rule list_insert_link [OF E o2(1), of ?l]) (use ls in auto)
  have hash: "(nip_lease_hash ?s2)(lease_nip ?l \<mapsto> a) = nip_lease_hash s"
    using a tab_hash [OF t, of "lease_nip l" a] by auto
  let ?s = "s3\<lparr>nip_lease_hash := nip_lease_hash s\<rparr>"
  have "list_insert E a (s\<lparr>lease_list := remove1 a (lease_list s), heap := (heap s)(a \<mapsto> ?l)\<rparr>) = (?s, Ok ())"
    using s3(1) by (auto simp: list_insert_def split: if_splits)
  then have set: "lease_set_expire E a exp s = (?s, Ok ())"
    using a by (simp add: lease_set_expire_def deref_def set_lease_def sbind_def)
  show ?thesis
  proof (rule that [OF set])
    show "frame s ?s" using s3(2) by (simp add: frame_def)
    show "lease_inv ?s" using s3(5) unfolding hash .
    show "leases ?s = insert ?l {k \<in> leases s. lease_mac k \<noteq> lease_mac l}" using s3(4) ls(1) by simp
    assume h: "aged s" "unat exp < 2 ^ 31"
    have "int (unat exp) < int (2 ^ 31)" using h(2) by (simp only: of_nat_less_iff)
    then have "int (unat exp) < 2 ^ 31" by simp
    moreover have "sub s ?s1" by (simp add: sub_def sorted_wrt_remove1)
    moreover have "small ?s2" using h unfolding small_def ls(1) aged_def by simp
    moreover have "lease_nip l \<noteq> 0" using h a by (auto simp: aged_def small_def leases_def linked_def)
    ultimately show "aged ?s"
      using h o2(3) by_age_sub [of s ?s1] s3(4,6) by (auto simp: aged_def small_def)
  qed
qed

lemma free_loop_all:
  "distinct ls \<Longrightarrow> set ls \<subseteq> dom h \<Longrightarrow> free_loop h ls = Ok (h |` (- set ls))"
proof (induction ls arbitrary: h)
  case (Cons a ls)
  then have "free_loop (h(a := None)) ls = Ok ((h(a := None)) |` (- set ls))" by (intro Cons.IH) auto
  moreover have "(h(a := None)) |` (- set ls) = h |` (- set (a # ls))" by (auto simp: restrict_map_def)
  ultimately show ?case using Cons.prems by (auto simp: domIff)
qed (simp add: restrict_map_def)

lemma destroy_lease_table_frees:
  assumes "lease_inv s"
  obtains s' where "destroy_lease_table s = (s', Ok ())" "heap s' = Map.empty" "lease_list s' = []" "frame s s'"
proof -
  have "distinct (lease_list s)" "set (lease_list s) = dom (heap s)" using assms by (auto simp: lease_inv_def tab_def)
  moreover have "heap s |` (- dom (heap s)) = Map.empty" by (auto simp: restrict_map_def domIff)
  ultimately show ?thesis using free_loop_all [of "lease_list s" "heap s"]
    by (intro that [of "s\<lparr>nip_lease_hash := Map.empty, heap := Map.empty, lease_list := []\<rparr>"])
      (auto simp: destroy_lease_table_def sbind_def frame_def)
qed

subsection \<open>The search for an address\<close>

definition usable :: "u32 \<Rightarrow> bool" where
  "usable ip \<longleftrightarrow> ip AND 0xff \<noteq> 0 \<and> ip AND 0xff \<noteq> 0xff"

lemma free_nip_loop_step:
  "free_nip_loop hash end_nip mac ip =
     (if \<not> ip \<le> end_nip then Some None
      else if usable ip \<and> hash ip = None then Some (Some ip) else free_nip_loop hash end_nip mac (ip + 1))"
  by (subst free_nip_loop.simps) (auto simp: usable_def arp_check_def)

text \<open>Below the largest address the loop ends, with the first usable address that is not leased.\<close>

lemma free_nip_loop_spec:
  assumes "end_nip \<noteq> - 1"
  shows "\<exists>r. free_nip_loop hash end_nip mac ip = Some r \<and>
     (case r of
        Some n \<Rightarrow> ip \<le> n \<and> n \<le> end_nip \<and> usable n \<and> hash n = None
      | None \<Rightarrow> \<forall>n. ip \<le> n \<longrightarrow> n \<le> end_nip \<longrightarrow> usable n \<longrightarrow> hash n \<noteq> None)"
proof (induction "Suc (unat end_nip) - unat ip" arbitrary: ip rule: less_induct)
  case less
  show ?case
  proof (cases "\<not> ip \<le> end_nip \<or> usable ip \<and> hash ip = None")
    case True
    then show ?thesis by (subst free_nip_loop_step) auto
  next
    case False
    then have ip: "ip \<le> end_nip" by simp
    have "end_nip < - 1" using assms by (simp add: word_order.not_eq_extremum)
    then have "ip < - 1" using ip by simp
    then have "unat ip < 2 ^ 32 - 1"
      by (simp add: word_less_nat_alt unsigned_minus_1_eq_mask mask_eq_exp_minus_1)
    then have suc: "unat (ip + 1) = Suc (unat ip)" using unat_plus_lt [of ip 1] by simp
    then have "Suc (unat end_nip) - unat (ip + 1) < Suc (unat end_nip) - unat ip"
      using ip by (simp add: word_le_nat_alt)
    from less [OF this] obtain r where r: "free_nip_loop hash end_nip mac (ip + 1) = Some r"
      "case r of Some n \<Rightarrow> ip + 1 \<le> n \<and> n \<le> end_nip \<and> usable n \<and> hash n = None
       | None \<Rightarrow> \<forall>n. ip + 1 \<le> n \<longrightarrow> n \<le> end_nip \<longrightarrow> usable n \<longrightarrow> hash n \<noteq> None"
      by blast
    have le: "ip \<le> n \<longleftrightarrow> n = ip \<or> ip + 1 \<le> n" for n
      unfolding word_le_nat_alt suc by (auto simp: Suc_le_eq le_less dest: unsigned_word_eqI)
    have "free_nip_loop hash end_nip mac ip = Some r" using False r(1) by (subst free_nip_loop_step) auto
    moreover have "case r of Some n \<Rightarrow> ip \<le> n \<and> n \<le> end_nip \<and> usable n \<and> hash n = None
       | None \<Rightarrow> \<forall>n. ip \<le> n \<longrightarrow> n \<le> end_nip \<longrightarrow> usable n \<longrightarrow> hash n \<noteq> None"
      using r(2) False le by (auto split: option.splits)
    ultimately show ?thesis by blast
  qed
qed

lemma sorted_wrt_last: "sorted_wrt R xs \<Longrightarrow> x \<in> set xs \<Longrightarrow> x = last xs \<or> R x (last xs)"
  by (induction xs) auto

lemma find_free_spec:
  assumes inv: "lease_inv s" and "end_ip s \<noteq> - 1"
  obtains nip where "find_free_or_expired_nip now mac s = Some (s, Ok nip)"
    "nip = 0 \<or> (start_ip s \<le> nip \<and> nip \<le> end_ip s \<and> usable nip \<and> (\<forall>k\<in>leases s. lease_nip k \<noteq> nip)) \<or>
      (\<exists>k\<in>leases s. lease_nip k = nip \<and> is_expired_lease now k)"
    "\<lbrakk>aged s; nip = 0; start_ip s \<noteq> 0\<rbrakk> \<Longrightarrow> (\<forall>k\<in>leases s. \<not> is_expired_lease now k) \<and>
      (\<forall>n. start_ip s \<le> n \<longrightarrow> n \<le> end_ip s \<longrightarrow> usable n \<longrightarrow> (\<exists>k\<in>leases s. lease_nip k = n))"
proof -
  note t = inv [unfolded lease_inv_def]
  note hash = tab_hash_None [OF t, folded leases_def]
  obtain r where r: "free_nip_loop (nip_lease_hash s) (end_ip s) mac (start_ip s) = Some r"
      "case r of Some n \<Rightarrow> start_ip s \<le> n \<and> n \<le> end_ip s \<and> usable n \<and> nip_lease_hash s n = None
       | None \<Rightarrow> \<forall>n. start_ip s \<le> n \<longrightarrow> n \<le> end_ip s \<longrightarrow> usable n \<longrightarrow> nip_lease_hash s n \<noteq> None"
    using free_nip_loop_spec [OF assms(2)] by blast
  show ?thesis
  proof (cases r)
    case (Some n)
    then show ?thesis using r by (intro that [of n]) (auto simp: find_free_or_expired_nip_def hash)
  next
    case None
    then have full: "\<forall>n. start_ip s \<le> n \<longrightarrow> n \<le> end_ip s \<longrightarrow> usable n \<longrightarrow> (\<exists>k\<in>leases s. lease_nip k = n)"
      using r(2) by (auto simp: hash)
    show ?thesis
    proof (cases "lease_list s = []")
      case True
      then show ?thesis using None r full
        by (intro that [of 0]) (auto simp: find_free_or_expired_nip_def leases_def linked_def)
    next
      case False
      let ?a = "last (lease_list s)"
      have a: "?a \<in> set (lease_list s)" using False by simp
      moreover have "dom (heap s) = set (lease_list s)" using t by (simp add: tab_def)
      ultimately obtain l where l: "heap s ?a = Some l" by blast
      have mem: "l \<in> leases s" using a l by (auto simp: leases_def linked_def)
      have f: "find_free_or_expired_nip now mac s = Some (s, Ok (if is_expired_lease now l then lease_nip l else 0))"
        using None r False l by (simp add: find_free_or_expired_nip_def deref_def sbind_def arp_check_def)
      have old: "expire l \<le> expire k" if "by_age s" "k \<in> leases s" for k
      proof -
        obtain b where b: "b \<in> set (lease_list s)" "heap s b = Some k" using \<open>k \<in> leases s\<close> by (auto simp: leases_def linked_def)
        then have "b = ?a \<or> expire (the (heap s ?a)) \<le> expire (the (heap s b))"
          using sorted_wrt_last [OF \<open>by_age s\<close> [unfolded by_age_def]] by blast
        then show ?thesis using b(2) l by auto
      qed
      show ?thesis
      proof (rule that [OF f])
        let ?n = "if is_expired_lease now l then lease_nip l else 0"
        show "?n = 0 \<or>
            start_ip s \<le> ?n \<and>
            ?n \<le> end_ip s \<and>
            usable ?n \<and>
            (\<forall>k\<in>leases s. lease_nip k \<noteq> ?n) \<or>
            (\<exists>k\<in>leases s. lease_nip k = ?n \<and> is_expired_lease now k)"
          using mem by (cases "is_expired_lease now l") auto
        assume h: "aged s" "?n = 0"
        then have "\<not> is_expired_lease now l" using mem by (auto simp: aged_def small_def split: if_splits)
        then have "\<forall>k\<in>leases s. \<not> is_expired_lease now k"
          using old h(1) by (fastforce simp: aged_def is_expired_lease_def)
        then show "(\<forall>k\<in>leases s. \<not> is_expired_lease now k) \<and>
            (\<forall>n. start_ip s \<le> n \<longrightarrow> n \<le> end_ip s \<longrightarrow> usable n \<longrightarrow> (\<exists>k\<in>leases s. lease_nip k = n))"
          using full by blast
      qed
    qed
  qed
qed

subsection \<open>The contract of the lease table\<close>

text \<open>
  What the packet handlers rely on: \<open>view\<close> is the set of leases, \<open>ok\<close> the addresses and clients that
  can be given a lease, and \<open>make\<close> the lease that is entered. Inside the contract, entering a lease
  for an address that is free, the client's own or expired takes no valid lease from anyone else.
\<close>

locale lease_table =
  fixes inv :: "'s \<Rightarrow> bool"
    and view :: "'s \<Rightarrow> dhcp_lease set"
    and ok :: "'s \<Rightarrow> u32 \<Rightarrow> u8 list \<Rightarrow> bool"
    and make :: "'s \<Rightarrow> int \<Rightarrow> u32 \<Rightarrow> u8 list \<Rightarrow> u32 \<Rightarrow> dhcp_lease"
    and add :: "int \<Rightarrow> bool \<Rightarrow> u32 \<Rightarrow> u8 list \<Rightarrow> u32 \<Rightarrow> 's \<Rightarrow> 's \<times> nat option result"
  assumes view_mac: "inv s \<Longrightarrow> k \<in> view s \<Longrightarrow> l \<in> view s \<Longrightarrow> lease_mac k = lease_mac l \<Longrightarrow> k = l"
    and view_nip: "inv s \<Longrightarrow> k \<in> view s \<Longrightarrow> l \<in> view s \<Longrightarrow> lease_nip k = lease_nip l \<Longrightarrow> k = l"
    and make_mac: "lease_mac (make s now exp mac nip) = take 6 mac"
    and make_nip: "lease_nip (make s now exp mac nip) = nip"
    and add_refused: "inv s \<Longrightarrow>
      \<not> (ok s nip mac \<and> (mem \<or> (\<exists>k\<in>view s. lease_mac k = take 6 mac \<or> lease_nip k = nip))) \<Longrightarrow>
      add now mem exp mac (htonl nip) s = (s, Ok None)"
    and add_done: "inv s \<Longrightarrow> ok s nip mac \<Longrightarrow> mem \<or> (\<exists>k\<in>view s. lease_mac k = take 6 mac \<or> lease_nip k = nip) \<Longrightarrow>
      \<exists>s' a. add now mem exp mac (htonl nip) s = (s', Ok (Some a)) \<and> inv s' \<and>
        view s' = insert (make s now exp mac nip) {k \<in> view s. lease_mac k \<noteq> take 6 mac \<and> lease_nip k \<noteq> nip}"
begin

lemma add_total:
  assumes "inv s"
  obtains s' r where "add now mem exp mac (htonl nip) s = (s', Ok r)" "inv s'"
    "view s' \<subseteq> insert (make s now exp mac nip) (view s)"
  using assms add_refused [OF assms] add_done [OF assms] by (metis (no_types, lifting) insert_mono mem_Collect_eq subsetI subset_insertI)

lemma add_keeps_others:
  assumes "inv s" and "add now mem exp mac (htonl nip) s = (s', r)"
    and "\<forall>k\<in>view s. lease_nip k = nip \<longrightarrow> lease_mac k = take 6 mac \<or> is_expired_lease t k"
    and "k \<in> view s" "lease_mac k \<noteq> take 6 mac" "\<not> is_expired_lease t k"
  shows "k \<in> view s'"
proof (cases "ok s nip mac \<and> (mem \<or> (\<exists>k\<in>view s. lease_mac k = take 6 mac \<or> lease_nip k = nip))")
  case True
  then show ?thesis using add_done [OF assms(1), of nip mac mem now exp] assms by auto
next
  case False
  then show ?thesis using add_refused [OF assms(1), of nip mac mem now exp] assms by auto
qed

lemma add_grants:
  assumes "inv s" and "add now mem exp mac (htonl nip) s = (s', Ok (Some a))"
  shows "make s now exp mac nip \<in> view s'" and "k \<in> view s' \<Longrightarrow> lease_mac k = take 6 mac \<Longrightarrow> lease_nip k = nip"
proof -
  have *: "ok s nip mac \<and> (mem \<or> (\<exists>k\<in>view s. lease_mac k = take 6 mac \<or> lease_nip k = nip))"
    using add_refused [OF assms(1), of nip mac mem now exp] assms(2) by auto
  then show "make s now exp mac nip \<in> view s'" "k \<in> view s' \<Longrightarrow> lease_mac k = take 6 mac \<Longrightarrow> lease_nip k = nip"
    using add_done [OF assms(1), of nip mac mem now exp] assms(2) make_nip by auto
qed

end

lemma ntohl_htonl [simp]: "ntohl (htonl x) = x"
  by simp

interpretation table: lease_table "\<lambda>s. env_ok E \<and> lease_inv s" leases acceptable the_lease "try_add_lease E"
proof
  fix s k l
  assume h: "env_ok E \<and> lease_inv s" "k \<in> leases s" "l \<in> leases s"
  then obtain a b where ab: "a \<in> set (lease_list s)" "heap s a = Some k" "b \<in> set (lease_list s)" "heap s b = Some l"
    by (auto simp: leases_def linked_def)
  have t: "tab {} (heap s) (next_addr s) (lease_list s) (nip_lease_hash s)" using h(1) by (simp add: lease_inv_def)
  show "lease_mac k = lease_mac l \<Longrightarrow> k = l" using tab_mac_unique [OF t ab(1,3,2,4)] ab by simp
  show "lease_nip k = lease_nip l \<Longrightarrow> k = l" using tab_nip_unique [OF t ab(1,3,2,4)] ab by simp
next
  fix s nip mac mem now exp
  assume h: "env_ok E \<and> lease_inv s"
  show "\<not> (acceptable s nip mac \<and> (mem \<or> (\<exists>k\<in>leases s. lease_mac k = take 6 mac \<or> lease_nip k = nip))) \<Longrightarrow>
      try_add_lease E now mem exp mac (htonl nip) s = (s, Ok None)"
    using add_lease_refuses [of s "htonl nip" mac mem E now exp] h by (auto simp: try_add_lease_def)
  assume acc: "acceptable s nip mac" and m: "mem \<or> (\<exists>k\<in>leases s. lease_mac k = take 6 mac \<or> lease_nip k = nip)"
  obtain a s' where "add_lease E now mem exp mac (htonl nip) s = (s', Ok a)" "lease_inv s'"
      "leases s' = insert (the_lease s now exp mac nip) {k \<in> leases s. lease_mac k \<noteq> take 6 mac \<and> lease_nip k \<noteq> nip}"
    using h acc m by (elim conjE) (rule add_lease_spec [of E s "htonl nip" mac mem now exp], auto)
  then show "\<exists>s' a. try_add_lease E now mem exp mac (htonl nip) s = (s', Ok (Some a)) \<and> (env_ok E \<and> lease_inv s') \<and>
      leases s' = insert (the_lease s now exp mac nip) {k \<in> leases s. lease_mac k \<noteq> take 6 mac \<and> lease_nip k \<noteq> nip}"
    using h by (auto simp: try_add_lease_def)
qed (simp_all add: the_lease_def)

subsection \<open>Properties\<close>

text \<open>An environment and a server without leases, for witnesses.\<close>

fun insert_before :: "(nat \<Rightarrow> nat \<Rightarrow> int) \<Rightarrow> nat \<Rightarrow> nat list \<Rightarrow> nat list" where
  "insert_before cmp x [] = [x]"
| "insert_before cmp x (y # ys) = (if cmp x y \<le> 0 then x # y # ys else y # insert_before cmp x ys)"

definition demo_env :: dhcp_env where
  "demo_env = \<lparr>inet_aton = (\<lambda>s. if s = ''192.168.77.1'' then Some 0x014da8c0 else None),
     g_list_insert_sorted = insert_before, g_hash_table_keys = (\<lambda>m. filter (\<lambda>k. m k \<noteq> None) (map of_nat [0..<256]))\<rparr>"

definition demo_server :: GDHCPServer where
  "demo_server = \<lparr>ref_count = 1, started = True, ifindex = 3, start_ip = 0xc0a84d64, end_ip = 0xc0a84dc7,
     server_nip = 0x014da8c0, lease_seconds = 28800, listener_watch = 7, heap = Map.empty, next_addr = 0, lease_list = [],
     nip_lease_hash = Map.empty, option_hash = Map.empty, save_lease_func = False, saved = [], sent = []\<rparr>"

lemma insert_before_splits: "\<exists>ys zs. xs = ys @ zs \<and> insert_before cmp x xs = ys @ x # zs"
proof (induction xs)
  case (Cons y xs)
  then obtain ys zs where "xs = ys @ zs" "insert_before cmp x xs = ys @ x # zs" by blast
  then show ?case
    by (cases "cmp x y \<le> 0") (rule exI [of _ "[]"], simp, rule exI [of _ "y # ys"], rule exI [of _ zs], simp)
qed simp

lemma insert_before_sorted:
  assumes "\<And>a b. a \<in> set (x # xs) \<Longrightarrow> b \<in> set (x # xs) \<Longrightarrow> cmp a b \<le> 0 \<longleftrightarrow> key a \<le> (key b :: int)"
    and "sorted (map key xs)"
  shows "sorted (map key (insert_before cmp x xs))"
  using assms
proof (induction xs)
  case (Cons y xs)
  have "set (insert_before cmp x xs) = insert x (set xs)" using insert_before_splits [of xs cmp x] by auto
  then show ?case using Cons by (auto simp: linorder_not_le less_imp_le)
qed simp

lemma all_u8: "(of_nat ` {0..<256} :: u8 set) = UNIV"
proof -
  have "(x :: u8) \<in> of_nat ` {0..<256}" for x
    using unsigned_less [of x, where ?'a = nat] by (intro image_eqI [of _ _ "unat x"]) simp_all
  then show ?thesis by blast
qed

lemma demo_env_ok: "env_ok demo_env"
proof -
  have "inj_on (of_nat :: nat \<Rightarrow> u8) {0..<256}"
    by (rule inj_onI) (metis atLeastLessThan_iff unat_len_u8)
  then have "distinct (map of_nat [0..<256] :: u8 list)" by (simp add: distinct_map)
  moreover have "set (map of_nat [0..<256]) = (UNIV :: u8 set)" using all_u8 by simp
  ultimately show ?thesis
    unfolding env_ok_def demo_env_def using insert_before_splits insert_before_sorted
    by (simp add: dom_def distinct_filter) blast
qed

lemma demo_server_secs: "lease_seconds demo_server = 28800"
  by (simp add: demo_server_def)

lemma demo_server_inv: "lease_inv demo_server" and demo_server_leases: "leases demo_server = {}"
  by (auto simp: lease_inv_def tab_def demo_server_def leases_def linked_def)

text \<open>
  C29: Entering a lease never touches freed memory and keeps the lease table consistent. It succeeds
  exactly when the address lies in the range and the client's address is a proper one, and memory or
  an old lease of the client or of the address is at hand; then the table holds the new lease in place
  of every lease of that client and of that address. Otherwise nothing changes.
\<close>

theorem add_lease_correct:
  assumes "env_ok E" and "lease_inv s"
  shows "if acceptable s (ntohl yi) mac \<and> (mem \<or> (\<exists>k\<in>leases s. lease_mac k = take 6 mac \<or> lease_nip k = ntohl yi))
    then \<exists>s' a. add_lease E now mem exp mac yi s = (s', Ok a) \<and> lease_inv s' \<and> frame s s' \<and>
      leases s' = insert (the_lease s now exp mac (ntohl yi))
        {k \<in> leases s. lease_mac k \<noteq> take 6 mac \<and> lease_nip k \<noteq> ntohl yi}
    else \<exists>e. add_lease E now mem exp mac yi s = (s, Err e)"
proof (cases "acceptable s (ntohl yi) mac \<and> (mem \<or> (\<exists>k\<in>leases s. lease_mac k = take 6 mac \<or> lease_nip k = ntohl yi))")
  case True
  then have acc: "acceptable s (ntohl yi) mac" by blast
  obtain a s' where "add_lease E now mem exp mac yi s = (s', Ok a)" "frame s s'" "lease_inv s'"
    "leases s' = insert (the_lease s now exp mac (ntohl yi))
       {k \<in> leases s. lease_mac k \<noteq> take 6 mac \<and> lease_nip k \<noteq> ntohl yi}"
    using True by (elim conjE) (rule add_lease_spec [OF assms acc, of mem now exp])
  then show ?thesis using True by auto
next
  case False
  then show ?thesis using add_lease_refuses [OF assms(2), of yi mac mem E now exp] by auto
qed

theorem add_lease_correct_witness:
  "\<exists>s' a. add_lease demo_env 1000 True 0 (replicate 16 2) (htonl 0xc0a84d65) demo_server = (s', Ok a) \<and> lease_inv s' \<and>
     frame demo_server s' \<and> leases s' = {\<lparr>expire = 29800, lease_nip = 0xc0a84d65, lease_mac = replicate 6 2\<rparr>}"
proof -
  have "acceptable demo_server (ntohl (htonl 0xc0a84d65)) (replicate 16 2)"
    by (simp add: acceptable_def demo_server_def MAC_BCAST_ADDR_def MAC_ANY_ADDR_def)
  then show ?thesis
    using add_lease_correct [OF demo_env_ok demo_server_inv, of "htonl 0xc0a84d65" "replicate 16 2" True 1000 0]
    by (simp add: demo_server_leases the_lease_def demo_server_secs)
qed

text \<open>
  C30: The search for an address ends unless the range reaches 255.255.255.255. What it returns is 0,
  a free address of the range that is no network or broadcast address, or the address of an expired
  lease. When the list is in order (expiry times below \<open>2 ^ 31\<close>), 0 means that every usable address
  of the range is leased and no lease has expired.
\<close>

theorem find_free_or_expired_nip_correct:
  assumes "lease_inv s" and "end_ip s \<noteq> 0xffffffff"
  shows "\<exists>nip. find_free_or_expired_nip now mac s = Some (s, Ok nip) \<and>
    (nip = 0 \<or> (start_ip s \<le> nip \<and> nip \<le> end_ip s \<and> usable nip \<and> (\<forall>k\<in>leases s. lease_nip k \<noteq> nip)) \<or>
      (\<exists>k\<in>leases s. lease_nip k = nip \<and> is_expired_lease now k)) \<and>
    (aged s \<and> nip = 0 \<and> start_ip s \<noteq> 0 \<longrightarrow> (\<forall>k\<in>leases s. \<not> is_expired_lease now k) \<and>
      (\<forall>n. start_ip s \<le> n \<longrightarrow> n \<le> end_ip s \<longrightarrow> usable n \<longrightarrow> (\<exists>k\<in>leases s. lease_nip k = n)))"
proof -
  have "(0xffffffff :: u32) = - 1" by simp
  then have "end_ip s \<noteq> - 1" using assms(2) by metis
  then show ?thesis by (rule find_free_spec [OF assms(1), of now mac]) blast
qed

theorem find_free_or_expired_nip_correct_witness:
  "\<exists>nip. find_free_or_expired_nip 1000 (replicate 16 2) demo_server = Some (demo_server, Ok nip) \<and>
     (nip = 0 \<or> 0xc0a84d64 \<le> nip \<and> nip \<le> 0xc0a84dc7 \<and> usable nip)"
proof -
  have "end_ip demo_server \<noteq> 0xffffffff" by (simp add: demo_server_def)
  from find_free_or_expired_nip_correct [OF demo_server_inv this, of 1000 "replicate 16 2"]
  show ?thesis unfolding demo_server_leases by (auto simp: demo_server_def)
qed

text \<open>
  In a range that ends at 255.255.255.255 the address counter wraps around, and the search hands
  out an address outside of the range.
\<close>

lemma find_free_nip_leaves_range:
  "find_free_or_expired_nip now mac (demo_server\<lparr>start_ip := 0xffffffff, end_ip := 0xffffffff\<rparr>) =
     Some (demo_server\<lparr>start_ip := 0xffffffff, end_ip := 0xffffffff\<rparr>, Ok 1)"
proof -
  have "free_nip_loop Map.empty 0xffffffff mac 0xffffffff = Some (Some 1)"
    by (subst free_nip_loop_step, simp add: usable_def, subst free_nip_loop_step, simp add: usable_def,
        subst free_nip_loop_step, simp add: usable_def)
  then show ?thesis by (simp add: find_free_or_expired_nip_def demo_server_def)
qed

end
