(* ===== verification/Dhcp_Server.thy ===== *)
theory Dhcp_Server
  imports Dhcp_Lease
begin

text \<open>
  The DHCP server of \<open>src/gdhcp/server.c\<close> above its lease table: the replies it builds, the handler
  of received packets, and the interface of the server.
\<close>

subsection \<open>Creating a server\<close>

text \<open>The outcomes of \<open>socket\<close> and of the two \<open>ioctl\<close> calls; 0 stands for a failure.\<close>

definition get_interface_address :: "unit result \<Rightarrow> unit result \<Rightarrow> u32 result \<Rightarrow> u32" where
  "get_interface_address sock if_name if_addr =
     (case rbind sock (\<lambda>_. rbind if_name (\<lambda>_. if_addr)) of Ok addr \<Rightarrow> addr | _ \<Rightarrow> 0)"

datatype server_error =
    G_DHCP_SERVER_ERROR_INTERFACE_UNAVAILABLE | G_DHCP_SERVER_ERROR_INTERFACE_DOWN
  | G_DHCP_SERVER_ERROR_NOMEM | G_DHCP_SERVER_ERROR_INVALID_INDEX | G_DHCP_SERVER_ERROR_IP_ADDRESS_INVALID

text \<open>
  \<open>name\<close>, \<open>up\<close> and \<open>addr\<close> are the results of \<open>get_interface_name\<close>, \<open>interface_is_up\<close> and
  \<open>get_interface_address\<close>. The watch is an unsigned integer that is set to \<open>-1\<close>.
\<close>

definition g_dhcp_server_new ::
    "int \<Rightarrow> bool \<Rightarrow> string option \<Rightarrow> bool \<Rightarrow> u32 \<Rightarrow> server_error + GDHCPServer" where
  "g_dhcp_server_new index mem name up addr =
     (if index < 0 then Inl G_DHCP_SERVER_ERROR_INVALID_INDEX
      else if \<not> mem then Inl G_DHCP_SERVER_ERROR_NOMEM
      else if name = None then Inl G_DHCP_SERVER_ERROR_INTERFACE_UNAVAILABLE
      else if \<not> up then Inl G_DHCP_SERVER_ERROR_INTERFACE_DOWN
      else if addr = 0 then Inl G_DHCP_SERVER_ERROR_IP_ADDRESS_INVALID
      else Inr \<lparr>ref_count = 1, started = False, ifindex = index, start_ip = 0, end_ip = 0, server_nip = addr,
                lease_seconds = DEFAULT_DHCP_LEASE_SEC, listener_watch = - 1, heap = Map.empty, next_addr = 0,
                lease_list = [], nip_lease_hash = Map.empty, option_hash = Map.empty, save_lease_func = False,
                saved = [], sent = []\<rparr>)"

subsection \<open>Packets\<close>

text \<open>\<open>None\<close> is a scan of the options that does not end.\<close>

definition check_packet_type :: "dhcp_packet \<Rightarrow> u8 result option" where
  "check_packet_type p =
     (if hlen p \<noteq> 6 then Some (Ok 0)
      else if op p \<noteq> BOOTREQUEST then Some (Ok 0)
      else map_option (\<lambda>r. rbind r (\<lambda>type.
        case type of
          None \<Rightarrow> Ok 0
        | Some a \<Rightarrow>
            rbind (mem_read (opt_mem p) a) (\<lambda>t.
            Ok (if t < DHCPDISCOVER then 0 else if t > DHCPINFORM then 0 else t))))
        (dhcp_get_option p DHCP_MESSAGE_TYPE))"

definition init_packet :: "GDHCPServer \<Rightarrow> dhcp_packet \<Rightarrow> u8 \<Rightarrow> dhcp_packet result" where
  "init_packet s client type =
     rbind (dhcp_init_header type) (\<lambda>p.
     dhcp_add_option_uint32
       (p\<lparr>xid := xid client, chaddr := chaddr client, flags := flags client, gateway_nip := gateway_nip client,
          ciaddr := ciaddr client\<rparr>)
       DHCP_SERVER_ID (server_nip s))"

abbreviation (input) G_DHCP_SUBNET :: u8 where "G_DHCP_SUBNET \<equiv> 0x01"
abbreviation (input) G_DHCP_ROUTER :: u8 where "G_DHCP_ROUTER \<equiv> 0x03"
abbreviation (input) G_DHCP_DNS_SERVER :: u8 where "G_DHCP_DNS_SERVER \<equiv> 0x06"

definition add_option :: "dhcp_env \<Rightarrow> u8 \<Rightarrow> string option \<Rightarrow> dhcp_packet \<Rightarrow> dhcp_packet result" where
  "add_option E code v p =
     (case v of
        None \<Rightarrow> Ok p
      | Some option_value \<Rightarrow>
          if code \<in> {G_DHCP_SUBNET, G_DHCP_ROUTER, G_DHCP_DNS_SERVER} then
            (case inet_aton E option_value of
               None \<Rightarrow> Ok p
             | Some nip \<Rightarrow> dhcp_add_option_uint32 p code (ntohl nip))
          else Ok p)"

definition add_server_options :: "dhcp_env \<Rightarrow> GDHCPServer \<Rightarrow> dhcp_packet \<Rightarrow> dhcp_packet result" where
  "add_server_options E s p =
     foldl (\<lambda>r code. rbind r (add_option E code (option_hash s code))) (Ok p) (g_hash_table_keys E (option_hash s))"

definition check_requested_nip :: "int \<Rightarrow> u32 \<Rightarrow> (GDHCPServer, bool) op" where
  "check_requested_nip now requested_nip =
     sbind (sget (\<lambda>s. requested_nip = 0 \<or> requested_nip < start_ip s \<or> requested_nip > end_ip s)) (\<lambda>bad.
     if bad then sret False
     else
       sbind (find_lease_by_nip requested_nip) (\<lambda>lease.
       case lease of
         None \<Rightarrow> sret True
       | Some a \<Rightarrow> sbind (deref a) (\<lambda>l. sret (is_expired_lease now l))))"

text \<open>The packet is handed to \<open>dhcp_send_raw_packet\<close>, whose result the server ignores.\<close>

definition send_raw :: "dhcp_packet \<Rightarrow> u32 \<Rightarrow> u8 list \<Rightarrow> (GDHCPServer, unit) op" where
  "send_raw p dest_ip dest_arp = smod (\<lambda>s. s\<lparr>sent := sent s @ [(p, server_nip s, dest_ip, dest_arp)]\<rparr>)"

definition send_packet_to_client :: "dhcp_packet \<Rightarrow> (GDHCPServer, unit) op" where
  "send_packet_to_client p =
     (if flags p AND htons BROADCAST_FLAG \<noteq> 0 \<or> ciaddr p = 0
      then send_raw p INADDR_BROADCAST MAC_BCAST_ADDR
      else send_raw p (ciaddr p) (take 6 (chaddr p)))"

text \<open>
  The handlers below are split where the search for an address can fail to return: \<open>offer_nip\<close> is the
  choice of the offered address, \<open>offer_packet\<close> what follows it.
\<close>

definition offer_nip ::
    "int \<Rightarrow> dhcp_packet \<Rightarrow> nat option \<Rightarrow> u32 \<Rightarrow> GDHCPServer \<Rightarrow> (GDHCPServer \<times> u32 result) option" where
  "offer_nip now client lease requested_nip s =
     (case lease of
        Some a \<Rightarrow> Some (sbind (deref a) (\<lambda>l. sret (lease_nip l)) s)
      | None \<Rightarrow>
          (case check_requested_nip now requested_nip s of
             (s, Ok True) \<Rightarrow> Some (s, Ok requested_nip)
           | (s, Ok False) \<Rightarrow> find_free_or_expired_nip now (chaddr client) s
           | (s, Err e) \<Rightarrow> Some (s, Err e)
           | (s, Fault) \<Rightarrow> Some (s, Fault)))"

definition offer_packet :: "dhcp_env \<Rightarrow> int \<Rightarrow> bool \<Rightarrow> dhcp_packet \<Rightarrow> (GDHCPServer, unit) op" where
  "offer_packet E now mem p =
     (if yiaddr p = 0 then sret ()
      else
        sbind (try_add_lease E now mem OFFER_TIME (chaddr p) (yiaddr p)) (\<lambda>lease.
        if lease = None then sret ()
        else
          sbind (sget lease_seconds) (\<lambda>secs.
          sbind (slift (dhcp_add_option_uint32 p DHCP_LEASE_TIME secs)) (\<lambda>p.
          sbind (\<lambda>s. (s, add_server_options E s p)) (\<lambda>p.
          send_packet_to_client p)))))"

definition send_offer ::
    "dhcp_env \<Rightarrow> int \<Rightarrow> bool \<Rightarrow> dhcp_packet \<Rightarrow> nat option \<Rightarrow> u32 \<Rightarrow> GDHCPServer \<Rightarrow> (GDHCPServer \<times> unit result) option" where
  "send_offer E now mem client lease requested_nip s =
     (case init_packet s client DHCPOFFER of
        Err e \<Rightarrow> Some (s, Err e)
      | Fault \<Rightarrow> Some (s, Fault)
      | Ok p \<Rightarrow>
          map_option (\<lambda>(s, r). case r of
              Err e \<Rightarrow> (s, Err e)
            | Fault \<Rightarrow> (s, Fault)
            | Ok nip \<Rightarrow> offer_packet E now mem (p\<lparr>yiaddr := htonl nip\<rparr>) s)
            (offer_nip now client lease requested_nip s))"

text \<open>The callback receives every lease in the order of the list.\<close>

definition save_lease :: "(GDHCPServer, unit) op" where
  "save_lease s =
     (if \<not> save_lease_func s then (s, Ok ())
      else if \<forall>a\<in>set (lease_list s). heap s a \<noteq> None
      then (s\<lparr>saved := saved s @ map (\<lambda>a. the (heap s a)) (lease_list s)\<rparr>, Ok ())
      else (s, Fault))"

definition send_ACK :: "dhcp_env \<Rightarrow> int \<Rightarrow> bool \<Rightarrow> dhcp_packet \<Rightarrow> u32 \<Rightarrow> (GDHCPServer, unit) op" where
  "send_ACK E now mem client dest =
     sbind (\<lambda>s. (s, init_packet s client DHCPACK)) (\<lambda>p.
     sbind (sget lease_seconds) (\<lambda>lease_time_sec.
     sbind (slift (dhcp_add_option_uint32 (p\<lparr>yiaddr := htonl dest\<rparr>) DHCP_LEASE_TIME lease_time_sec)) (\<lambda>p.
     sbind (\<lambda>s. (s, add_server_options E s p)) (\<lambda>p.
     sbind (send_packet_to_client p) (\<lambda>_.
     sbind (try_add_lease E now mem 0 (chaddr p) (yiaddr p)) (\<lambda>_. sret ()))))))"

definition send_NAK :: "dhcp_packet \<Rightarrow> (GDHCPServer, unit) op" where
  "send_NAK client =
     sbind (\<lambda>s. (s, init_packet s client DHCPNAK)) (\<lambda>p. send_raw p INADDR_BROADCAST MAC_BCAST_ADDR)"

definition send_inform :: "dhcp_env \<Rightarrow> dhcp_packet \<Rightarrow> (GDHCPServer, unit) op" where
  "send_inform E client =
     sbind (\<lambda>s. (s, init_packet s client DHCPACK)) (\<lambda>p.
     sbind (\<lambda>s. (s, add_server_options E s p)) (\<lambda>p. send_packet_to_client p))"

subsection \<open>The handler of received packets\<close>

text \<open>The cases of the switch other than \<open>DHCPDISCOVER\<close>.\<close>

definition handle_request ::
    "dhcp_env \<Rightarrow> int \<Rightarrow> bool \<Rightarrow> dhcp_packet \<Rightarrow> bool \<Rightarrow> u32 \<Rightarrow> nat option \<Rightarrow> (GDHCPServer, unit) op" where
  "handle_request E now mem p server_id_option requested_nip lease =
     (let requested_nip = (if requested_nip = 0 then ciaddr p else requested_nip)
      in if requested_nip = 0 then sret ()
         else
           case lease of
             None \<Rightarrow> send_NAK p
           | Some a \<Rightarrow>
               sbind (deref a) (\<lambda>l.
               if requested_nip = lease_nip l then send_ACK E now mem p (lease_nip l)
               else if server_id_option then send_NAK p
               else sret ()))"

definition handle_decline :: "bool \<Rightarrow> u32 option \<Rightarrow> nat option \<Rightarrow> (GDHCPServer, unit) op" where
  "handle_decline server_id_option request_ip_option lease =
     (if \<not> server_id_option then sret ()
      else case (request_ip_option, lease) of
        (Some requested_nip, Some a) \<Rightarrow>
          sbind (deref a) (\<lambda>l. if requested_nip = lease_nip l then remove_lease a else sret ())
      | _ \<Rightarrow> sret ())"

definition handle_release :: "dhcp_env \<Rightarrow> int \<Rightarrow> dhcp_packet \<Rightarrow> bool \<Rightarrow> nat option \<Rightarrow> (GDHCPServer, unit) op" where
  "handle_release E now p server_id_option lease =
     (if \<not> server_id_option then sret ()
      else case lease of
        None \<Rightarrow> sret ()
      | Some a \<Rightarrow>
          sbind (deref a) (\<lambda>l.
          if ciaddr p = lease_nip l then lease_set_expire E a (word_of_int now) else sret ()))"

definition handle_packet ::
    "dhcp_env \<Rightarrow> int \<Rightarrow> bool \<Rightarrow> dhcp_packet \<Rightarrow> u8 \<Rightarrow> bool \<Rightarrow> u32 option \<Rightarrow> GDHCPServer \<Rightarrow>
     (GDHCPServer \<times> unit result) option" where
  "handle_packet E now mem p type server_id_option request_ip_option s =
     scan s (Some (snd (find_lease_by_mac (chaddr p) s))) (\<lambda>lease.
     let requested_nip = (case request_ip_option of None \<Rightarrow> 0 | Some nip \<Rightarrow> nip)
     in if type = DHCPDISCOVER then send_offer E now mem p lease requested_nip s
        else Some (
          (if type = DHCPREQUEST then handle_request E now mem p server_id_option requested_nip lease
           else if type = DHCPDECLINE then handle_decline server_id_option request_ip_option lease
           else if type = DHCPRELEASE then handle_release E now p server_id_option lease
           else if type = DHCPINFORM then send_inform E p
           else sret ()) s))"

text \<open>
  \<open>hup\<close> is \<open>G_IO_NVAL\<close>, \<open>G_IO_ERR\<close> or \<open>G_IO_HUP\<close> in the condition, \<open>rd\<close> the outcome of \<open>read\<close>. The
  result is whether the watch stays.
\<close>

definition listener_event ::
    "dhcp_env \<Rightarrow> int \<Rightarrow> bool \<Rightarrow> bool \<Rightarrow> u8 list result \<Rightarrow> GDHCPServer \<Rightarrow> (GDHCPServer \<times> bool result) option" where
  "listener_event E now mem hup rd s =
     (if hup then Some (s\<lparr>listener_watch := 0\<rparr>, Ok False)
      else case dhcp_recv_l3_packet rd of
        None \<Rightarrow> None
      | Some (Err e) \<Rightarrow> Some (s, Ok True)
      | Some Fault \<Rightarrow> Some (s, Fault)
      | Some (Ok p) \<Rightarrow>
          scan s (check_packet_type p) (\<lambda>type.
          if type = 0 then Some (s, Ok True)
          else
            scan s (get_u32_option p DHCP_SERVER_ID) (\<lambda>server_id_option.
            if server_id_option \<noteq> None \<and> server_id_option \<noteq> Some (server_nip s) then Some (s, Ok True)
            else
              scan s (get_u32_option p DHCP_REQUESTED_IP) (\<lambda>request_ip_option.
              map_option (\<lambda>(s, r). (s, rbind r (\<lambda>_. Ok True)))
                (handle_packet E now mem p type (server_id_option \<noteq> None) request_ip_option s)))))"

subsection \<open>The interface of the server\<close>

text \<open>
  \<open>sock\<close>, \<open>chan\<close> and \<open>watch\<close> are the outcomes of \<open>dhcp_l3_socket\<close>, \<open>g_io_channel_unix_new\<close> and
  \<open>g_io_add_watch_full\<close>.
\<close>

definition g_dhcp_server_start :: "unit result \<Rightarrow> bool \<Rightarrow> u32 \<Rightarrow> (GDHCPServer, unit) op" where
  "g_dhcp_server_start sock chan watch =
     sbind (sget started) (\<lambda>running.
     if running then sret ()
     else if \<not> is_ok sock then serr EIO
     else if \<not> chan then serr EIO
     else smod (\<lambda>s. s\<lparr>listener_watch := watch, started := True\<rparr>))"

definition g_dhcp_server_set_option :: "dhcp_env \<Rightarrow> u8 \<Rightarrow> string option \<Rightarrow> (GDHCPServer, unit) op" where
  "g_dhcp_server_set_option E code v =
     (case v of
        None \<Rightarrow> serr EINVAL
      | Some option_value \<Rightarrow>
          if code \<in> {G_DHCP_SUBNET, G_DHCP_ROUTER, G_DHCP_DNS_SERVER} then
            if inet_aton E option_value = None then serr ENXIO
            else smod (\<lambda>s. s\<lparr>option_hash := (option_hash s)(code \<mapsto> option_value)\<rparr>)
          else serr EINVAL)"

definition g_dhcp_server_set_save_lease :: "bool \<Rightarrow> (GDHCPServer, unit) op" where
  "g_dhcp_server_set_save_lease func = smod (\<lambda>s. s\<lparr>save_lease_func := func\<rparr>)"

definition g_dhcp_server_ref :: "(GDHCPServer, unit) op" where
  "g_dhcp_server_ref = smod (\<lambda>s. s\<lparr>ref_count := ref_count s + 1\<rparr>)"

definition g_dhcp_server_stop :: "(GDHCPServer, unit) op" where
  "g_dhcp_server_stop =
     sbind save_lease (\<lambda>_.
     smod (\<lambda>s. s\<lparr>listener_watch := (if listener_watch s > 0 then 0 else listener_watch s), started := False\<rparr>))"

text \<open>The result is whether the server itself has been freed.\<close>

definition g_dhcp_server_unref :: "(GDHCPServer, bool) op" where
  "g_dhcp_server_unref =
     sbind (sget ref_count) (\<lambda>count.
     sbind (smod (\<lambda>s. s\<lparr>ref_count := ref_count s - 1\<rparr>)) (\<lambda>_.
     if count \<noteq> 1 then sret False
     else
       sbind g_dhcp_server_stop (\<lambda>_.
       sbind (smod (\<lambda>s. s\<lparr>option_hash := Map.empty\<rparr>)) (\<lambda>_.
       sbind destroy_lease_table (\<lambda>_. sret True)))))"

definition g_dhcp_server_set_ip_range :: "dhcp_env \<Rightarrow> string \<Rightarrow> string \<Rightarrow> (GDHCPServer, unit) op" where
  "g_dhcp_server_set_ip_range E from to =
     (case inet_aton E from of
        None \<Rightarrow> serr ENXIO
      | Some a \<Rightarrow>
          sbind (smod (\<lambda>s. s\<lparr>start_ip := ntohl a\<rparr>)) (\<lambda>_.
          case inet_aton E to of
            None \<Rightarrow> serr ENXIO
          | Some b \<Rightarrow> smod (\<lambda>s. s\<lparr>end_ip := ntohl b\<rparr>)))"

definition g_dhcp_server_set_lease_time :: "u32 \<Rightarrow> (GDHCPServer, unit) op" where
  "g_dhcp_server_set_lease_time lease_time = smod (\<lambda>s. s\<lparr>lease_seconds := lease_time\<rparr>)"

subsection \<open>Replies\<close>

text \<open>
  \<open>reply s c type p\<close>: \<open>p\<close> answers the client packet \<open>c\<close> with a message of the given type. Its options begin
  with the message type and the server identifier; what follows are configured options.
\<close>

definition short_opts :: "(u8 \<times> u8 list) list \<Rightarrow> bool" where
  "short_opts os \<longleftrightarrow> fst ` set os \<subseteq> {G_DHCP_SUBNET, G_DHCP_ROUTER, G_DHCP_DNS_SERVER, DHCP_LEASE_TIME} \<and>
     (\<forall>ov\<in>set os. \<exists>v. snd ov = put_be32 v) \<and> length (enc_opts os) + 9 < 308"

text \<open>\<open>grows p p'\<close>: the options of \<open>p'\<close> are those of \<open>p\<close> and possibly more.\<close>

definition grows :: "dhcp_packet \<Rightarrow> dhcp_packet \<Rightarrow> bool" where
  "grows p p' \<longleftrightarrow> (\<forall>os. has_opts p os \<longrightarrow> (\<exists>ps. has_opts p' (os @ ps)))"

lemma grows_refl: "grows p p"
  unfolding grows_def by (metis append_Nil2)

lemma grows_trans: "grows p q \<Longrightarrow> grows q r \<Longrightarrow> grows p r"
  unfolding grows_def by (metis append_assoc)

lemma growsI: "has_opts p os \<Longrightarrow> has_opts p' (os @ ps) \<Longrightarrow> grows p p'"
  unfolding grows_def using has_opts_unique by blast

definition reply :: "GDHCPServer \<Rightarrow> dhcp_packet \<Rightarrow> u8 \<Rightarrow> dhcp_packet \<Rightarrow> bool" where
  "reply s c type p \<longleftrightarrow>
     op p = BOOTREPLY \<and> xid p = xid c \<and> chaddr p = chaddr c \<and> flags p = flags c \<and> gateway_nip p = gateway_nip c \<and>
     ciaddr p = ciaddr c \<and> hlen p = 6 \<and> cookie p = htonl DHCP_MAGIC \<and>
     (\<exists>os. has_opts p ((DHCP_MESSAGE_TYPE, [type]) # (DHCP_SERVER_ID, put_be32 (server_nip s)) # os) \<and> short_opts os)"

lemma reply_yiaddr [simp]: "reply s c type (p\<lparr>yiaddr := y\<rparr>) = reply s c type p"
proof -
  have "has_opts (p\<lparr>yiaddr := y\<rparr>) os = has_opts p os" for os by (simp add: has_opts_def packet_ok_def)
  then show ?thesis by (simp add: reply_def)
qed

lemma reply_add:
  assumes r: "reply s c type p" and code: "code \<in> {G_DHCP_SUBNET, G_DHCP_ROUTER, G_DHCP_DNS_SERVER, DHCP_LEASE_TIME}"
  obtains b where "dhcp_add_option_uint32 p code v = Ok (p\<lparr>options := b\<rparr>)" "reply s c type (p\<lparr>options := b\<rparr>)"
    "grows p (p\<lparr>options := b\<rparr>)"
proof -
  let ?hd = "\<lambda>os. (DHCP_MESSAGE_TYPE, [type]) # (DHCP_SERVER_ID, put_be32 (server_nip s)) # os"
  obtain os where os: "has_opts p (?hd os)" "short_opts os" using r by (auto simp: reply_def)
  have "code \<in> {0x01, 0x03, 0x06, 0x32, 0x33, 0x36}" using code by blast
  then obtain b where b: "dhcp_add_option_uint32 p code v = Ok (p\<lparr>options := b\<rparr>)"
      "has_opts (p\<lparr>options := b\<rparr>) (?hd os) \<or>
       has_opts (p\<lparr>options := b\<rparr>) (?hd os @ [(code, put_be32 v)]) \<and> length (enc_opts (?hd os)) + 7 < 308"
    by (rule add_u32_option [OF os(1), of code v]) auto
  obtain ps where ps: "has_opts (p\<lparr>options := b\<rparr>) (?hd os @ ps)" "short_opts (os @ ps)"
  proof (cases "has_opts (p\<lparr>options := b\<rparr>) (?hd os)")
    case True
    then show ?thesis using that [of "[]"] os(2) by simp
  next
    case False
    then show ?thesis using b(2) os(2) code by (intro that [of "[(code, put_be32 v)]"]) (auto simp: short_opts_def)
  qed
  have "reply s c type (p\<lparr>options := b\<rparr>)" using r ps by (auto simp: reply_def)
  then show ?thesis using that b(1) growsI [OF os(1) ps(1)] by blast
qed

lemma add_server_options_reply:
  assumes "reply s c type p"
  obtains b where "add_server_options E s p = Ok (p\<lparr>options := b\<rparr>)" "reply s c type (p\<lparr>options := b\<rparr>)"
    "grows p (p\<lparr>options := b\<rparr>)"
proof -
  have "\<exists>b. foldl (\<lambda>r code. rbind r (add_option E code (option_hash s code))) (Ok p) ks = Ok (p\<lparr>options := b\<rparr>) \<and>
      reply s c type (p\<lparr>options := b\<rparr>) \<and> grows p (p\<lparr>options := b\<rparr>)" for ks
  proof (induction ks rule: rev_induct)
    case Nil
    show ?case using assms grows_refl by (intro exI [of _ "options p"]) simp
  next
    case (snoc code ks)
    then obtain b where b: "foldl (\<lambda>r code. rbind r (add_option E code (option_hash s code))) (Ok p) ks = Ok (p\<lparr>options := b\<rparr>)"
        "reply s c type (p\<lparr>options := b\<rparr>)" "grows p (p\<lparr>options := b\<rparr>)" by blast
    have "\<exists>b'. add_option E code v (p\<lparr>options := b\<rparr>) = Ok (p\<lparr>options := b'\<rparr>) \<and> reply s c type (p\<lparr>options := b'\<rparr>) \<and>
        grows (p\<lparr>options := b\<rparr>) (p\<lparr>options := b'\<rparr>)" for v
    proof (cases "\<exists>str nip. v = Some str \<and> code \<in> {G_DHCP_SUBNET, G_DHCP_ROUTER, G_DHCP_DNS_SERVER} \<and> inet_aton E str = Some nip")
      case True
      then obtain nip where "add_option E code v (p\<lparr>options := b\<rparr>) = dhcp_add_option_uint32 (p\<lparr>options := b\<rparr>) code (ntohl nip)"
          "code \<in> {G_DHCP_SUBNET, G_DHCP_ROUTER, G_DHCP_DNS_SERVER, DHCP_LEASE_TIME}"
        by (auto simp: add_option_def)
      moreover obtain b' where "dhcp_add_option_uint32 (p\<lparr>options := b\<rparr>) code (ntohl nip) = Ok (p\<lparr>options := b, options := b'\<rparr>)"
          "reply s c type (p\<lparr>options := b, options := b'\<rparr>)" "grows (p\<lparr>options := b\<rparr>) (p\<lparr>options := b, options := b'\<rparr>)"
        by (rule reply_add [OF b(2) calculation(2), of "ntohl nip"])
      ultimately show ?thesis by auto
    next
      case False
      then have "add_option E code v (p\<lparr>options := b\<rparr>) = Ok (p\<lparr>options := b\<rparr>)"
        by (auto simp: add_option_def split: option.splits)
      then show ?thesis using b(2) grows_refl by blast
    qed
    then obtain b' where "add_option E code (option_hash s code) (p\<lparr>options := b\<rparr>) = Ok (p\<lparr>options := b'\<rparr>)"
        "reply s c type (p\<lparr>options := b'\<rparr>)" "grows (p\<lparr>options := b\<rparr>) (p\<lparr>options := b'\<rparr>)" by blast
    then show ?case using b(1) grows_trans [OF b(3)] by auto
  qed
  then show ?thesis using that unfolding add_server_options_def by blast
qed

lemma init_packet_reply:
  assumes "packet_ok c" and "type \<in> {DHCPOFFER, DHCPACK, DHCPNAK}"
  obtains p where "init_packet s c type = Ok p" "reply s c type p"
    "has_opts p [(DHCP_MESSAGE_TYPE, [type]), (DHCP_SERVER_ID, put_be32 (server_nip s))]"
proof -
  obtain q where q: "dhcp_init_header type = Ok q" "has_opts q [(DHCP_MESSAGE_TYPE, [type])]" "op q = BOOTREPLY"
      "hlen q = 6" "cookie q = htonl DHCP_MAGIC"
    by (rule dhcp_init_header_spec [of type]) (use assms(2) in auto)
  let ?p = "q\<lparr>xid := xid c, chaddr := chaddr c, flags := flags c, gateway_nip := gateway_nip c, ciaddr := ciaddr c\<rparr>"
  have "has_opts ?p [(DHCP_MESSAGE_TYPE, [type])]"
    by (rule has_opts_cong [OF _ _ q(2)]) (use q(2) assms(1) in \<open>simp_all add: has_opts_def packet_ok_def\<close>)
  then obtain b where b: "dhcp_add_option_uint32 ?p DHCP_SERVER_ID (server_nip s) = Ok (?p\<lparr>options := b\<rparr>)"
      "has_opts (?p\<lparr>options := b\<rparr>) ([(DHCP_MESSAGE_TYPE, [type])] @ [(DHCP_SERVER_ID, put_be32 (server_nip s))])"
    by (rule add_u32_option [of ?p _ DHCP_SERVER_ID "server_nip s"]) auto
  have "init_packet s c type = Ok (?p\<lparr>options := b\<rparr>)" using q(1) b(1) by (simp add: init_packet_def)
  moreover have "reply s c type (?p\<lparr>options := b\<rparr>)"
    unfolding reply_def
  proof (intro conjI exI)
    show "has_opts (?p\<lparr>options := b\<rparr>) ((DHCP_MESSAGE_TYPE, [type]) # (DHCP_SERVER_ID, put_be32 (server_nip s)) # [])"
      using b(2) by simp
  qed (use q in \<open>simp_all add: short_opts_def\<close>)
  ultimately show ?thesis using that b(2) by simp
qed

text \<open>A reply that announces the lease time.\<close>

definition timed :: "GDHCPServer \<Rightarrow> u8 \<Rightarrow> dhcp_packet \<Rightarrow> bool" where
  "timed s type p \<longleftrightarrow> (\<exists>ps. has_opts p ([(DHCP_MESSAGE_TYPE, [type]), (DHCP_SERVER_ID, put_be32 (server_nip s)),
     (DHCP_LEASE_TIME, put_be32 (lease_seconds s))] @ ps))"

text \<open>Where a reply goes.\<close>

definition dest :: "dhcp_packet \<Rightarrow> u32 \<times> u8 list" where
  "dest p = (if flags p AND htons BROADCAST_FLAG \<noteq> 0 \<or> ciaddr p = 0 then (INADDR_BROADCAST, MAC_BCAST_ADDR)
     else (ciaddr p, take 6 (chaddr p)))"

lemma send_packet_to_client_spec:
  "send_packet_to_client p s = (s\<lparr>sent := sent s @ [(p, server_nip s, dest p)]\<rparr>, Ok ())"
  by (simp add: send_packet_to_client_def send_raw_def dest_def)

subsection \<open>What the handlers do\<close>

text \<open>
  \<open>good s now mac s'\<close>: handling a packet of the client \<open>mac\<close> at time \<open>now\<close> led from \<open>s\<close> to \<open>s'\<close>. The lease
  table stays consistent and, as long as times fit into 31 bits, in order; the configuration stays;
  no other client loses a lease that has not expired.
\<close>

definition good :: "GDHCPServer \<Rightarrow> int \<Rightarrow> u8 list \<Rightarrow> GDHCPServer \<Rightarrow> bool" where
  "good s now mac s' \<longleftrightarrow>
     lease_inv s' \<and> frame s (s'\<lparr>sent := sent s\<rparr>) \<and>
     (\<forall>k\<in>leases s. lease_mac k \<noteq> take 6 mac \<longrightarrow> \<not> is_expired_lease now k \<longrightarrow> k \<in> leases s') \<and>
     (aged s \<longrightarrow> 0 \<le> now \<longrightarrow> now + int (unat (lease_seconds s)) < 2 ^ 31 \<longrightarrow> aged s')"

lemma sent_simps [simp]:
  "lease_inv (s\<lparr>sent := x\<rparr>) = lease_inv s" "leases (s\<lparr>sent := x\<rparr>) = leases s" "aged (s\<lparr>sent := x\<rparr>) = aged s"
  "acceptable (s\<lparr>sent := x\<rparr>) = acceptable s" "the_lease (s\<lparr>sent := x\<rparr>) = the_lease s"
  by (auto simp: lease_inv_def leases_def aged_def by_age_def small_def acceptable_def the_lease_def fun_eq_iff)

lemma good_sent: "lease_inv s \<Longrightarrow> good s now mac (s\<lparr>sent := x\<rparr>)"
  by (simp add: good_def)

lemma good_refl: "lease_inv s \<Longrightarrow> good s now mac s"
  using good_sent [of s now mac "sent s"] by simp

lemma good_then_sent: "good s now mac s' \<Longrightarrow> good s now mac (s'\<lparr>sent := x\<rparr>)"
  by (simp add: good_def)

lemma good_sent_first: "good (s\<lparr>sent := x\<rparr>) now mac s' \<Longrightarrow> good s now mac s'"
  by (simp add: good_def frame_def)

lemma try_add_lease_good:
  assumes E: "env_ok E" and inv: "lease_inv s" and exp: "exp = 0 \<or> unat exp < 2 ^ 31"
    and own: "\<forall>k\<in>leases s. lease_nip k = nip \<longrightarrow> lease_mac k = take 6 mac \<or> is_expired_lease now k"
  obtains s' r where "try_add_lease E now mem exp mac (htonl nip) s = (s', Ok r)" "good s now mac s'" "frame s s'"
proof (cases "acceptable s nip mac \<and> (mem \<or> (\<exists>k\<in>leases s. lease_mac k = take 6 mac \<or> lease_nip k = nip))")
  case True
  let ?l = "the_lease s now exp mac nip"
  obtain a s' where s': "add_lease E now mem exp mac (htonl nip) s = (s', Ok a)" "frame s s'" "lease_inv s'"
      "leases s' = insert ?l {k \<in> leases s. lease_mac k \<noteq> take 6 mac \<and> lease_nip k \<noteq> nip}"
      "\<lbrakk>aged s; 0 \<le> expire ?l; expire ?l < 2 ^ 31\<rbrakk> \<Longrightarrow> aged s'"
    by (rule add_lease_spec [OF E inv, of "htonl nip" mac mem now exp]) (use True in auto)
  have "0 \<le> expire ?l \<and> expire ?l < 2 ^ 31" if "0 \<le> now" "now + int (unat (lease_seconds s)) < 2 ^ 31"
  proof (cases "exp = 0")
    case False
    then have "unat exp < 2 ^ 31" using exp by blast
    then have "int (unat exp) < int (2 ^ 31)" by (simp only: of_nat_less_iff)
    then show ?thesis using False by (simp add: the_lease_def)
  qed (use that in \<open>simp add: the_lease_def\<close>)
  moreover have "\<forall>k\<in>leases s. lease_mac k \<noteq> take 6 mac \<longrightarrow> \<not> is_expired_lease now k \<longrightarrow> k \<in> leases s'"
    using own s'(4) by auto
  moreover have "frame s (s'\<lparr>sent := sent s\<rparr>)" using s'(2) by (simp add: frame_def)
  ultimately have "good s now mac s'" using s'(3,5) by (simp add: good_def)
  then show ?thesis using that s'(1,2) by (simp add: try_add_lease_def)
next
  case False
  then have "\<exists>e. add_lease E now mem exp mac (htonl nip) s = (s, Err e)"
    by (intro add_lease_refuses [OF inv]) auto
  then show ?thesis using that good_refl [OF inv] by (auto simp: try_add_lease_def)
qed

lemma send_ACK_spec:
  assumes E: "env_ok E" and inv: "lease_inv s" and c: "packet_ok c"
    and own: "k \<in> leases s" "lease_nip k = nip" "lease_mac k = take 6 (chaddr c)"
  obtains s' p where "send_ACK E now mem c nip s = (s', Ok ())" "good s now (chaddr c) s'"
    "sent s' = sent s @ [(p, server_nip s, dest p)]" "reply s c DHCPACK p" "yiaddr p = htonl nip" "timed s DHCPACK p"
    "acceptable s nip (chaddr c) \<Longrightarrow> leases s' =
       insert (the_lease s now 0 (chaddr c) nip) {l \<in> leases s. lease_mac l \<noteq> take 6 (chaddr c) \<and> lease_nip l \<noteq> nip}"
proof -
  obtain p0 where p0: "init_packet s c DHCPACK = Ok p0" "reply s c DHCPACK p0"
      "has_opts p0 [(DHCP_MESSAGE_TYPE, [DHCPACK]), (DHCP_SERVER_ID, put_be32 (server_nip s))]"
    by (rule init_packet_reply [OF c, of DHCPACK s]) simp_all
  have "reply s c DHCPACK (p0\<lparr>yiaddr := htonl nip\<rparr>)" using p0(2) by simp
  then obtain b1 where b1: "dhcp_add_option_uint32 (p0\<lparr>yiaddr := htonl nip\<rparr>) DHCP_LEASE_TIME (lease_seconds s) =
      Ok (p0\<lparr>yiaddr := htonl nip, options := b1\<rparr>)" "reply s c DHCPACK (p0\<lparr>yiaddr := htonl nip, options := b1\<rparr>)"
    by (rule reply_add [of s c DHCPACK _ DHCP_LEASE_TIME]) auto
  let ?q = "p0\<lparr>yiaddr := htonl nip, options := b1\<rparr>"
  obtain b2 where "add_server_options E s ?q = Ok (?q\<lparr>options := b2\<rparr>)" "reply s c DHCPACK (?q\<lparr>options := b2\<rparr>)"
      "grows ?q (?q\<lparr>options := b2\<rparr>)"
    by (rule add_server_options_reply [OF b1(2), of E])
  then have b2: "add_server_options E s ?q = Ok (p0\<lparr>yiaddr := htonl nip, options := b2\<rparr>)"
      "reply s c DHCPACK (p0\<lparr>yiaddr := htonl nip, options := b2\<rparr>)" "grows ?q (p0\<lparr>yiaddr := htonl nip, options := b2\<rparr>)"
    by simp_all
  have "has_opts (p0\<lparr>yiaddr := htonl nip\<rparr>) [(DHCP_MESSAGE_TYPE, [DHCPACK]), (DHCP_SERVER_ID, put_be32 (server_nip s))]"
    by (rule has_opts_cong [OF _ _ p0(3)]) (use p0(3) in \<open>simp_all add: has_opts_def packet_ok_def\<close>)
  from add_u32_fits [OF this, of DHCP_LEASE_TIME "lease_seconds s"]
  have "\<exists>b. dhcp_add_option_uint32 (p0\<lparr>yiaddr := htonl nip\<rparr>) DHCP_LEASE_TIME (lease_seconds s) =
        Ok (p0\<lparr>yiaddr := htonl nip, options := b\<rparr>) \<and>
      has_opts (p0\<lparr>yiaddr := htonl nip, options := b\<rparr>) [(DHCP_MESSAGE_TYPE, [DHCPACK]),
        (DHCP_SERVER_ID, put_be32 (server_nip s)), (DHCP_LEASE_TIME, put_be32 (lease_seconds s))]" by simp
  then have "has_opts ?q [(DHCP_MESSAGE_TYPE, [DHCPACK]), (DHCP_SERVER_ID, put_be32 (server_nip s)),
      (DHCP_LEASE_TIME, put_be32 (lease_seconds s))]" unfolding b1(1) by (elim exE conjE) simp
  then have timed: "timed s DHCPACK (p0\<lparr>yiaddr := htonl nip, options := b2\<rparr>)"
    using b2(3) unfolding grows_def timed_def by blast
  let ?p = "p0\<lparr>yiaddr := htonl nip, options := b2\<rparr>"
  let ?s = "s\<lparr>sent := sent s @ [(?p, server_nip s, dest ?p)]\<rparr>"
  have ch: "chaddr ?p = chaddr c" using b2(2) by (simp only: reply_def)
  have only: "\<forall>l\<in>leases ?s. lease_nip l = nip \<longrightarrow> lease_mac l = take 6 (chaddr c) \<or> is_expired_lease now l"
    using table.view_nip [of E s] own E inv by auto
  obtain s' r where s': "try_add_lease E now mem 0 (chaddr c) (htonl nip) ?s = (s', Ok r)" "good ?s now (chaddr c) s'" "frame ?s s'"
    by (rule try_add_lease_good [OF E _ disjI1 [OF refl] only]) (use inv in simp)
  have ack: "send_ACK E now mem c nip s = (s', Ok ())"
    using p0(1) b1(1) b2(1) s'(1) ch
    by (simp add: send_ACK_def send_packet_to_client_spec sbind_def)
  have "leases s' = insert (the_lease s now 0 (chaddr c) nip) {l \<in> leases s. lease_mac l \<noteq> take 6 (chaddr c) \<and> lease_nip l \<noteq> nip}"
    if "acceptable s nip (chaddr c)"
    using table.add_done [of E ?s nip "chaddr c" mem now 0] E inv own that s'(1) by auto
  then show ?thesis
    using ack good_sent_first [OF s'(2)] s'(3) b2(2) timed by (intro that [of s' ?p]) (simp_all add: frame_def)
qed

lemma send_NAK_spec:
  assumes "packet_ok c"
  obtains p where "send_NAK c s = (s\<lparr>sent := sent s @ [(p, server_nip s, INADDR_BROADCAST, MAC_BCAST_ADDR)]\<rparr>, Ok ())"
    "reply s c DHCPNAK p"
  by (rule init_packet_reply [OF assms, of DHCPNAK s]) (auto simp: send_NAK_def send_raw_def sbind_def intro: that)

lemma send_inform_spec:
  assumes "packet_ok c"
  obtains p where "send_inform E c s = (s\<lparr>sent := sent s @ [(p, server_nip s, dest p)]\<rparr>, Ok ())" "reply s c DHCPACK p"
proof -
  obtain p where p: "init_packet s c DHCPACK = Ok p" "reply s c DHCPACK p"
    by (rule init_packet_reply [OF assms, of DHCPACK s]) simp_all
  obtain b where "add_server_options E s p = Ok (p\<lparr>options := b\<rparr>)" "reply s c DHCPACK (p\<lparr>options := b\<rparr>)"
    by (rule add_server_options_reply [OF p(2)])
  then show ?thesis using that p(1) by (simp add: send_inform_def send_packet_to_client_spec sbind_def)
qed

text \<open>
  The offered address: 0, or an address that no other client holds with a valid lease. This holds whenever the search for it ends, which it
  does in every range that does not end at the last address.
\<close>

lemma free_nip_loop_free: "free_nip_loop hash end_nip mac ip = Some r \<Longrightarrow> r = Some n \<Longrightarrow> hash n = None"
  by (rule free_nip_loop.raw_induct [where P = "\<lambda>hash end_nip mac ip r. \<forall>n. r = Some n \<longrightarrow> hash n = None", rule_format])
    (auto split: if_splits)

lemma find_free_owned:
  assumes inv: "lease_inv s" and run: "find_free_or_expired_nip now mac s \<noteq> None"
  obtains nip where "find_free_or_expired_nip now mac s = Some (s, Ok nip)"
    "nip = 0 \<or> (\<forall>k\<in>leases s. lease_nip k = nip \<longrightarrow> is_expired_lease now k)"
proof (cases "free_nip_loop (nip_lease_hash s) (end_ip s) mac (start_ip s)")
  case (Some r)
  note t = inv [unfolded lease_inv_def]
  show ?thesis
  proof (cases r)
    case None
    show ?thesis
    proof (cases "lease_list s = []")
      case True
      then show ?thesis using that [of 0] Some None by (simp add: find_free_or_expired_nip_def)
    next
      case False
      let ?a = "last (lease_list s)"
      have a: "?a \<in> set (lease_list s)" using False by simp
      moreover have "dom (heap s) = set (lease_list s)" using t by (simp add: tab_def)
      ultimately obtain l where l: "heap s ?a = Some l" by blast
      with a have "l \<in> leases s" by (auto simp: leases_def linked_def)
      then have "k = l" if "k \<in> leases s" "lease_nip k = lease_nip l" for k
        using table.view_nip [of demo_env s k l] demo_env_ok inv that by blast
      define n where "n = (if \<not> is_expired_lease now l then 0 else if \<not> arp_check (lease_nip l) mac then 0 else lease_nip l)"
      have "n = 0 \<or> (\<forall>k\<in>leases s. lease_nip k = n \<longrightarrow> is_expired_lease now k)"
        using \<open>\<And>k. \<lbrakk>k \<in> leases s; lease_nip k = lease_nip l\<rbrakk> \<Longrightarrow> k = l\<close> by (auto simp: n_def)
      moreover have "find_free_or_expired_nip now mac s = Some (s, Ok n)"
        using Some None False l by (simp add: find_free_or_expired_nip_def deref_def sbind_def n_def)
      ultimately show ?thesis using that by blast
    qed
  next
    case (Some n)
    then have "\<forall>k\<in>leases s. lease_nip k \<noteq> n"
      using free_nip_loop_free [OF \<open>free_nip_loop _ _ _ _ = Some r\<close>] tab_hash_None [OF t, folded leases_def] by simp
    then show ?thesis using that [of n] Some \<open>free_nip_loop _ _ _ _ = Some r\<close> by (simp add: find_free_or_expired_nip_def)
  qed
qed (use run in \<open>simp add: find_free_or_expired_nip_def\<close>)

lemma offer_nip_returns:
  assumes inv: "lease_inv s" and last: "end_ip s \<noteq> - 1"
  shows "offer_nip now c lease req s \<noteq> None"
proof -
  obtain n where "find_free_or_expired_nip now (chaddr c) s = Some (s, Ok n)"
    by (rule find_free_spec [OF inv last, of now "chaddr c"]) (rule that, assumption)
  moreover have "fst (check_requested_nip now req s) = s"
    by (auto simp: check_requested_nip_def find_lease_by_nip_def deref_def sbind_def split: if_splits option.splits result.splits)
  ultimately show ?thesis by (auto simp: offer_nip_def split: option.splits prod.splits result.splits bool.splits)
qed

lemma offer_nip_spec:
  assumes inv: "lease_inv s" and run: "offer_nip now c lease req s \<noteq> None"
    and found: "find_lease_by_mac (chaddr c) s = (s, Ok lease)"
  obtains nip where "offer_nip now c lease req s = Some (s, Ok nip)"
    "nip = 0 \<or> (\<forall>k\<in>leases s. lease_nip k = nip \<longrightarrow> lease_mac k = take 6 (chaddr c) \<or> is_expired_lease now k)"
proof (cases lease)
  case (Some a)
  have "\<exists>l. heap s a = Some l \<and> a \<in> set (lease_list s) \<and> l \<in> leases s \<and> lease_mac l = take 6 (chaddr c)"
    using inv by (cases rule: find_lease_by_mac_spec [where mac = "chaddr c"]) (use found Some in auto)
  then obtain l where l: "heap s a = Some l" "l \<in> leases s" "lease_mac l = take 6 (chaddr c)" by blast
  have "k = l" if "k \<in> leases s" "lease_nip k = lease_nip l" for k
    using table.view_nip [of demo_env s k l] demo_env_ok inv l that by blast
  then show ?thesis using l Some by (intro that [of "lease_nip l"]) (auto simp: offer_nip_def deref_def sbind_def)
next
  case None
  show ?thesis
  proof (cases "check_requested_nip now req s = (s, Ok True)")
    case True
    note t = inv [unfolded lease_inv_def]
    have "is_expired_lease now k" if "k \<in> leases s" "lease_nip k = req" for k
    proof -
      obtain b where b: "b \<in> set (lease_list s)" "heap s b = Some k"
        using \<open>k \<in> leases s\<close> by (auto simp: leases_def linked_def)
      then have "nip_lease_hash s req = Some b" using that(2) by (simp add: tab_hash [OF t])
      then show ?thesis using True b
        by (auto simp: check_requested_nip_def find_lease_by_nip_def deref_def sbind_def split: if_splits)
    qed
    then show ?thesis using True None that by (auto simp: offer_nip_def)
  next
    case False
    have "check_requested_nip now req s = (s, Ok False)"
    proof (cases "nip_lease_hash s req")
      case (Some b)
      then have "\<exists>l. heap s b = Some l" using inv by (auto simp: lease_inv_def tab_hash)
      then show ?thesis using False Some
        by (auto simp: check_requested_nip_def find_lease_by_nip_def deref_def sbind_def split: if_splits)
    qed (use False in \<open>auto simp: check_requested_nip_def find_lease_by_nip_def sbind_def split: if_splits\<close>)
    then have "offer_nip now c lease req s = find_free_or_expired_nip now (chaddr c) s" using None by (simp add: offer_nip_def)
    moreover from this run obtain nip where "find_free_or_expired_nip now (chaddr c) s = Some (s, Ok nip)"
        "nip = 0 \<or> (\<forall>k\<in>leases s. lease_nip k = nip \<longrightarrow> is_expired_lease now k)"
      using find_free_owned [OF inv, of now "chaddr c"] by (metis (no_types, lifting))
    ultimately show ?thesis using that by (metis (no_types, lifting))
  qed
qed

lemma offer_packet_spec:
  assumes E: "env_ok E" and inv: "lease_inv s" and p: "reply s c DHCPOFFER p" "yiaddr p = htonl nip"
    and own: "nip = 0 \<or> (\<forall>k\<in>leases s. lease_nip k = nip \<longrightarrow> lease_mac k = take 6 (chaddr c) \<or> is_expired_lease now k)"
  obtains (none) s' where "offer_packet E now mem p s = (s', Ok ())" "good s now (chaddr c) s'" "sent s' = sent s"
      "\<not> (acceptable s nip (chaddr c) \<and> (mem \<or> (\<exists>k\<in>leases s. lease_mac k = take 6 (chaddr c) \<or> lease_nip k = nip)))"
    | (sent) s' q where "offer_packet E now mem p s = (s', Ok ())" "good s now (chaddr c) s'"
      "sent s' = sent s @ [(q, server_nip s, dest q)]" "reply s c DHCPOFFER q" "yiaddr q = htonl nip"
      "leases s' = insert (the_lease s now OFFER_TIME (chaddr c) nip)
         {l \<in> leases s. lease_mac l \<noteq> take 6 (chaddr c) \<and> lease_nip l \<noteq> nip}"
proof (cases "acceptable s nip (chaddr c) \<and> (mem \<or> (\<exists>k\<in>leases s. lease_mac k = take 6 (chaddr c) \<or> lease_nip k = nip))")
  case False
  have ch: "chaddr p = chaddr c" using p(1) by (simp add: reply_def)
  have "try_add_lease E now mem OFFER_TIME (chaddr c) (htonl nip) s = (s, Ok None)"
    by (rule table.add_refused) (use False E inv in auto)
  then have "offer_packet E now mem p s = (s, Ok ())" using p(2) ch by (simp add: offer_packet_def sbind_def)
  then show ?thesis using none [of s] good_refl [OF inv] False by blast
next
  case True
  have ch: "chaddr p = chaddr c" using p(1) by (simp add: reply_def)
  have "nip \<noteq> 0" using True by (simp add: acceptable_def)
  then have yi: "yiaddr p \<noteq> 0" using p(2) by simp
  obtain s1 r where s1: "try_add_lease E now mem OFFER_TIME (chaddr c) (htonl nip) s = (s1, Ok r)" "good s now (chaddr c) s1" "frame s s1"
    by (rule try_add_lease_good [OF E inv, of OFFER_TIME nip "chaddr c" now mem]) (use own \<open>nip \<noteq> 0\<close> in simp_all)
  have ls: "r \<noteq> None" "leases s1 = insert (the_lease s now OFFER_TIME (chaddr c) nip)
         {l \<in> leases s. lease_mac l \<noteq> take 6 (chaddr c) \<and> lease_nip l \<noteq> nip}"
    using table.add_done [of E s nip "chaddr c" mem now OFFER_TIME] E inv True s1(1) by auto
  have f: "server_nip s1 = server_nip s" "sent s1 = sent s" "lease_seconds s1 = lease_seconds s"
    using s1(3) by (simp_all add: frame_def)
  have r1: "reply s1 c DHCPOFFER p" using p(1) f(1) by (simp add: reply_def)
  obtain b1 where b1: "dhcp_add_option_uint32 p DHCP_LEASE_TIME (lease_seconds s1) = Ok (p\<lparr>options := b1\<rparr>)"
      "reply s1 c DHCPOFFER (p\<lparr>options := b1\<rparr>)"
    by (rule reply_add [OF r1, of DHCP_LEASE_TIME "lease_seconds s1"]) auto
  obtain b2 where b2: "add_server_options E s1 (p\<lparr>options := b1\<rparr>) = Ok (p\<lparr>options := b2\<rparr>)"
      "reply s1 c DHCPOFFER (p\<lparr>options := b2\<rparr>)"
    by (rule add_server_options_reply [OF b1(2), of E]) auto
  let ?q = "p\<lparr>options := b2\<rparr>"
  let ?s = "s1\<lparr>sent := sent s1 @ [(?q, server_nip s1, dest ?q)]\<rparr>"
  have "offer_packet E now mem p s = (?s, Ok ())"
    using yi p(2) ch s1(1) ls(1) b1(1) b2(1) f by (auto simp: offer_packet_def sbind_def send_packet_to_client_spec)
  moreover have "reply s c DHCPOFFER ?q" using b2(2) f(1) by (simp add: reply_def)
  ultimately show ?thesis
    using sent [of ?s ?q] good_then_sent [OF s1(2)] f ls(2) p(2) by simp
qed

lemma send_offer_spec:
  assumes E: "env_ok E" and inv: "lease_inv s" and run: "offer_nip now c lease req s \<noteq> None" and c: "packet_ok c"
    and found: "find_lease_by_mac (chaddr c) s = (s, Ok lease)"
  obtains s' nip where "offer_nip now c lease req s = Some (s, Ok nip)"
    "send_offer E now mem c lease req s = Some (s', Ok ())" "good s now (chaddr c) s'"
    "if acceptable s nip (chaddr c) \<and> (mem \<or> (\<exists>k\<in>leases s. lease_mac k = take 6 (chaddr c) \<or> lease_nip k = nip))
     then (\<exists>q. sent s' = sent s @ [(q, server_nip s, dest q)] \<and> reply s c DHCPOFFER q \<and> yiaddr q = htonl nip) \<and>
       leases s' = insert (the_lease s now OFFER_TIME (chaddr c) nip)
         {l \<in> leases s. lease_mac l \<noteq> take 6 (chaddr c) \<and> lease_nip l \<noteq> nip}
     else sent s' = sent s"
proof -
  obtain p where p: "init_packet s c DHCPOFFER = Ok p" "reply s c DHCPOFFER p"
    by (rule init_packet_reply [OF c, of DHCPOFFER s]) simp_all
  obtain nip where nip: "offer_nip now c lease req s = Some (s, Ok nip)"
      "nip = 0 \<or> (\<forall>k\<in>leases s. lease_nip k = nip \<longrightarrow> lease_mac k = take 6 (chaddr c) \<or> is_expired_lease now k)"
    by (rule offer_nip_spec [OF inv run found])
  have off: "send_offer E now mem c lease req s = Some (offer_packet E now mem (p\<lparr>yiaddr := htonl nip\<rparr>) s)"
    using p(1) nip(1) by (simp add: send_offer_def)
  have r: "reply s c DHCPOFFER (p\<lparr>yiaddr := htonl nip\<rparr>)" "yiaddr (p\<lparr>yiaddr := htonl nip\<rparr>) = htonl nip" using p(2) by simp_all
  show ?thesis
    using E inv r nip(2)
  proof (cases rule: offer_packet_spec [where mem = mem])
    case (none s')
    then show ?thesis using that [OF nip(1)] off by simp
  next
    case (sent s' q)
    have "acceptable s nip (chaddr c) \<and> (mem \<or> (\<exists>k\<in>leases s. lease_mac k = take 6 (chaddr c) \<or> lease_nip k = nip))"
    proof (rule ccontr)
      assume "\<not> ?thesis"
      then have "try_add_lease E now mem OFFER_TIME (chaddr c) (htonl nip) s = (s, Ok None)"
        by (intro table.add_refused) (use E inv in auto)
      moreover have "chaddr p = chaddr c" using p(2) by (simp add: reply_def)
      ultimately have "offer_packet E now mem (p\<lparr>yiaddr := htonl nip\<rparr>) s = (s, Ok ())"
        by (simp add: offer_packet_def sbind_def)
      then show False using sent(1,3) by simp
    qed
    then show ?thesis using that [OF nip(1)] off sent by auto
  qed
qed

lemma remove_lease_good:
  assumes "lease_inv s" "a \<in> set (lease_list s)" "heap s a = Some l" "lease_mac l = take 6 mac"
  obtains s' where "remove_lease a s = (s', Ok ())" "good s now mac s'"
proof -
  obtain s' where s': "remove_lease a s = (s', Ok ())" "frame s s'" "lease_inv s'" "sub s s'"
      "leases s' = {k \<in> leases s. lease_mac k \<noteq> lease_mac l}"
    by (rule remove_lease_spec [OF assms(1-3)])
  moreover have "aged s \<Longrightarrow> aged s'" using by_age_sub [OF _ s'(4)] s'(5) by (auto simp: aged_def small_def)
  moreover have "frame s (s'\<lparr>sent := sent s\<rparr>)" using s'(2) by (simp add: frame_def)
  ultimately show ?thesis using that assms(4) by (simp add: good_def)
qed

lemma lease_set_expire_good:
  assumes E: "env_ok E" and "lease_inv s" "a \<in> set (lease_list s)" "heap s a = Some l" "lease_mac l = take 6 mac"
  obtains s' where "lease_set_expire E a (word_of_int now) s = (s', Ok ())" "good s now mac s'"
proof -
  obtain s' where s': "lease_set_expire E a (word_of_int now) s = (s', Ok ())" "frame s s'" "lease_inv s'"
      "leases s' = insert (l\<lparr>expire := int (unat (word_of_int now :: u32))\<rparr>) {k \<in> leases s. lease_mac k \<noteq> lease_mac l}"
      "aged s \<Longrightarrow> unat (word_of_int now :: u32) < 2 ^ 31 \<Longrightarrow> aged s'"
    by (rule lease_set_expire_spec [OF assms(1-4), of "word_of_int now"]) (rule that; simp)
  have "unat (word_of_int now :: u32) < 2 ^ 31" if "0 \<le> now" "now + int (unat (lease_seconds s)) < 2 ^ 31"
  proof -
    have "(word_of_int now :: u32) = of_nat (nat now)" using that(1) by simp
    moreover have "now < 2 ^ 31" using that by (smt (verit) of_nat_0_le_iff)
    then have "nat now < 2 ^ 31" using that(1) by (simp add: nat_less_iff)
    ultimately show ?thesis using unat_of_nat_lt [of "nat now", where ?'a = 32] by simp
  qed
  moreover have "frame s (s'\<lparr>sent := sent s\<rparr>)" using s'(2) by (simp add: frame_def)
  ultimately show ?thesis using that s' assms(5) by (auto simp: good_def)
qed

lemma handle_packet_good:
  assumes E: "env_ok E" and inv: "lease_inv s" and run: "handle_packet E now mem p type sid req s \<noteq> None" and p: "packet_ok p"
  obtains s' where "handle_packet E now mem p type sid req s = Some (s', Ok ())" "good s now (chaddr p) s'"
proof -
  have nak: "\<exists>s'. send_NAK p s = (s', Ok ()) \<and> good s now (chaddr p) s'"
    by (rule send_NAK_spec [OF p, of s]) (use good_sent [OF inv] in blast)
  have inform: "\<exists>s'. send_inform E p s = (s', Ok ()) \<and> good s now (chaddr p) s'"
    by (rule send_inform_spec [OF p, of E s]) (use good_sent [OF inv] in blast)
  have same: "\<exists>s'. (s, Ok ()) = (s', Ok ()) \<and> good s now (chaddr p) s'" using good_refl [OF inv] by blast
  obtain lease where f: "find_lease_by_mac (chaddr p) s = (s, Ok lease)"
      "\<forall>a. lease = Some a \<longrightarrow> (\<exists>l. a \<in> set (lease_list s) \<and> heap s a = Some l \<and> l \<in> leases s \<and> lease_mac l = take 6 (chaddr p))"
    using inv by (cases rule: find_lease_by_mac_spec [where mac = "chaddr p"]) auto
  let ?n = "case req of None \<Rightarrow> 0 | Some nip \<Rightarrow> nip"
  have offer: "\<exists>s'. send_offer E now mem p lease ?n s = Some (s', Ok ()) \<and> good s now (chaddr p) s'" if "type = DHCPDISCOVER"
  proof -
    obtain q where "init_packet s p DHCPOFFER = Ok q" by (rule init_packet_reply [OF p, of DHCPOFFER s]) simp_all
    then have "offer_nip now p lease ?n s \<noteq> None"
      using run f(1) that by (auto simp: handle_packet_def scan_def send_offer_def)
    from send_offer_spec [OF E inv this p f(1), of mem] show ?thesis by metis
  qed
  have request: "\<exists>s'. handle_request E now mem p sid n lease s = (s', Ok ()) \<and> good s now (chaddr p) s'" for n
  proof (cases lease)
    case (Some a)
    then obtain l where l: "heap s a = Some l" "l \<in> leases s" "lease_mac l = take 6 (chaddr p)" using f(2) by blast
    have "\<exists>s'. send_ACK E now mem p (lease_nip l) s = (s', Ok ()) \<and> good s now (chaddr p) s'"
      by (rule send_ACK_spec [OF E inv p l(2) refl l(3), of now mem]) blast
    then show ?thesis using nak same Some l by (auto simp: handle_request_def deref_def sbind_def Let_def)
  qed (use nak same in \<open>auto simp: handle_request_def Let_def\<close>)
  have decline: "\<exists>s'. handle_decline sid req lease s = (s', Ok ()) \<and> good s now (chaddr p) s'"
  proof (cases lease)
    case (Some a)
    then obtain l where l: "a \<in> set (lease_list s)" "heap s a = Some l" "lease_mac l = take 6 (chaddr p)" using f(2) by blast
    have "\<exists>s'. remove_lease a s = (s', Ok ()) \<and> good s now (chaddr p) s'"
      by (rule remove_lease_good [OF inv l, of now]) blast
    then show ?thesis using same Some l by (auto simp: handle_decline_def deref_def sbind_def split: option.splits)
  qed (use same in \<open>auto simp: handle_decline_def split: option.splits\<close>)
  have release: "\<exists>s'. handle_release E now p sid lease s = (s', Ok ()) \<and> good s now (chaddr p) s'"
  proof (cases lease)
    case (Some a)
    then obtain l where l: "a \<in> set (lease_list s)" "heap s a = Some l" "lease_mac l = take 6 (chaddr p)" using f(2) by blast
    have "\<exists>s'. lease_set_expire E a (word_of_int now) s = (s', Ok ()) \<and> good s now (chaddr p) s'"
      by (rule lease_set_expire_good [OF E inv l, of now]) blast
    then show ?thesis using same Some l by (auto simp: handle_release_def deref_def sbind_def)
  qed (use same in \<open>auto simp: handle_release_def\<close>)
  have "\<exists>s'. handle_packet E now mem p type sid req s = Some (s', Ok ()) \<and> good s now (chaddr p) s'"
    using offer request [of ?n] decline release inform same f(1)
    by (auto simp: handle_packet_def scan_def Let_def)
  then show ?thesis using that by blast
qed

lemma handle_packet_returns:
  assumes "lease_inv s" and "end_ip s \<noteq> - 1"
  shows "handle_packet E now mem p type sid req s \<noteq> None"
proof -
  obtain lease where "find_lease_by_mac (chaddr p) s = (s, Ok lease)"
    using assms(1) by (cases rule: find_lease_by_mac_spec [where mac = "chaddr p"]) auto
  then show ?thesis
    using offer_nip_returns [OF assms] by (simp add: handle_packet_def scan_def Let_def send_offer_def del: not_None_eq split: result.split)
qed

subsection \<open>Runs of the server\<close>

lemma dhcp_recv_l3_packet_ok:
  assumes "dhcp_recv_l3_packet rd = Some (Ok p)"
  obtains bs where "rd = Ok bs" "packet_ok p" "chaddr p = chaddr (packet_of_bytes bs)"
proof -
  obtain bs where bs: "rd = Ok bs" "check_broken_vendor (packet_of_bytes bs) = Some (Ok p)"
    using assms by (auto simp: dhcp_recv_l3_packet_def Let_def split: result.splits if_splits)
  let ?q = "packet_of_bytes bs"
  have "p = ?q \<or> p = ?q\<lparr>flags := flags ?q OR htons BROADCAST_FLAG\<rparr>"
    using bs(2) by (auto simp: check_broken_vendor_def rbind_Ok_iff split: if_splits option.splits result.splits)
  then have "packet_ok p" "chaddr p = chaddr ?q" using packet_of_bytes_ok [of bs] by (auto simp: packet_ok_def)
  then show ?thesis using that bs(1) by blast
qed

lemma listener_event_good:
  assumes E: "env_ok E" and inv: "lease_inv s"
    and ev: "listener_event E now mem hup rd s = Some (s', r)"
  obtains (watch) "s' = s\<lparr>listener_watch := 0\<rparr>" "hup"
    | (packet) p where "dhcp_recv_l3_packet rd = Some (Ok p)" "good s now (chaddr p) s'"
    | (same) "s' = s"
proof -
  have "s' = s \<or> (\<exists>p type sid req. dhcp_recv_l3_packet rd = Some (Ok p) \<and>
      map_option (\<lambda>(s, r). (s, rbind r (\<lambda>_. Ok True))) (handle_packet E now mem p type sid req s) = Some (s', r))" if "\<not> hup"
    using ev that by (auto simp: listener_event_def scan_def split: option.splits result.splits if_splits)
  moreover have "good s now (chaddr p) s'" if "dhcp_recv_l3_packet rd = Some (Ok p)"
      "map_option (\<lambda>(s, r). (s, rbind r (\<lambda>_. Ok True))) (handle_packet E now mem p type sid req s) = Some (s', r)" for p type sid req
  proof -
    have "packet_ok p" by (rule dhcp_recv_l3_packet_ok [OF that(1)])
    moreover have "handle_packet E now mem p type sid req s \<noteq> None" using that(2) by auto
    ultimately obtain s1 where "handle_packet E now mem p type sid req s = Some (s1, Ok ())" "good s now (chaddr p) s1"
      by (meson handle_packet_good [OF E inv])
    then show ?thesis using that(2) by simp
  qed
  moreover have "s' = s\<lparr>listener_watch := 0\<rparr>" if hup using ev that by (simp add: listener_event_def)
  ultimately show ?thesis using watch packet same by blast
qed

text \<open>
  What becomes of a server. It lives, or the release of its last reference has freed it, which leaves the leases that are still allocated; or a
  packet has stopped the process, because a search does not end or because the scan of the options leaves the packet; or an operation has used a
  lease that was freed.
\<close>

datatype server_life = Alive GDHCPServer | Freed "nat \<rightharpoonup> dhcp_lease" | Hangs | Overruns | Crashed

datatype server_event =
    Listener int bool bool "u8 list result" | Start "unit result" bool u32 | Set_option u8 "string option"
  | Set_save_lease bool | Ref | Unref | Stop | Set_ip_range string string | Set_lease_time u32

definition lives :: "GDHCPServer \<times> unit result \<Rightarrow> server_life" where
  "lives sr = (case sr of (s, Fault) \<Rightarrow> Crashed | (s, _) \<Rightarrow> Alive s)"

fun server_event_step :: "dhcp_env \<Rightarrow> GDHCPServer \<Rightarrow> server_event \<Rightarrow> server_life" where
  "server_event_step E s (Listener now mem hup rd) =
     (case listener_event E now mem hup rd s of None \<Rightarrow> Hangs | Some (s', Fault) \<Rightarrow> Overruns | Some (s', _) \<Rightarrow> Alive s')"
| "server_event_step E s (Start sock chan watch) = lives (g_dhcp_server_start sock chan watch s)"
| "server_event_step E s (Set_option code v) = lives (g_dhcp_server_set_option E code v s)"
| "server_event_step E s (Set_save_lease func) = lives (g_dhcp_server_set_save_lease func s)"
| "server_event_step E s Ref = lives (g_dhcp_server_ref s)"
| "server_event_step E s Unref =
     (case g_dhcp_server_unref s of
        (s', Ok freed) \<Rightarrow> if freed then Freed (heap s') else Alive s'
      | (s', Err e) \<Rightarrow> Alive s'
      | (s', Fault) \<Rightarrow> Crashed)"
| "server_event_step E s Stop = lives (g_dhcp_server_stop s)"
| "server_event_step E s (Set_ip_range lo hi) = lives (g_dhcp_server_set_ip_range E lo hi s)"
| "server_event_step E s (Set_lease_time t) = lives (g_dhcp_server_set_lease_time t s)"

definition server_step :: "dhcp_env \<Rightarrow> server_life \<Rightarrow> server_event \<Rightarrow> server_life" where
  "server_step E x e = (case x of Alive s \<Rightarrow> server_event_step E s e | _ \<Rightarrow> x)"

lemma server_step_simps [simp]:
  "server_step E (Alive s) e = server_event_step E s e" "server_step E (Freed h) e = Freed h" "server_step E Hangs e = Hangs"
  "server_step E Overruns e = Overruns" "server_step E Crashed e = Crashed"
  by (simp_all add: server_step_def)

text \<open>A packet of which the option scan does not end, and one of which it leaves the packet.\<close>

definition endless :: "u8 list result \<Rightarrow> bool" where
  "endless rd =
     (case dhcp_recv_l3_packet rd of
        None \<Rightarrow> True
      | Some (Ok p) \<Rightarrow>
          check_packet_type p = None \<or> get_u32_option p DHCP_SERVER_ID = None \<or> get_u32_option p DHCP_REQUESTED_IP = None
      | Some _ \<Rightarrow> False)"

definition overruns :: "u8 list result \<Rightarrow> bool" where
  "overruns rd =
     (case dhcp_recv_l3_packet rd of
        None \<Rightarrow> False
      | Some (Ok p) \<Rightarrow>
          check_packet_type p = Some Fault \<or> get_u32_option p DHCP_SERVER_ID = Some Fault \<or>
          get_u32_option p DHCP_REQUESTED_IP = Some Fault
      | Some r \<Rightarrow> r = Fault)"

lemma listener_event_hangs:
  assumes "lease_inv s" and "listener_event E now mem hup rd s = None"
  shows "\<not> hup \<and> (endless rd \<or> end_ip s = - 1)"
proof (rule ccontr)
  assume h: "\<not> ?thesis"
  then have "\<not> hup" using assms(2) by (auto simp: listener_event_def)
  with h have last: "end_ip s \<noteq> - 1" and scans: "\<not> endless rd" by auto
  note handles = handle_packet_returns [OF assms(1) last]
  show False
    using assms(2) scans \<open>\<not> hup\<close> handles
    by (simp add: listener_event_def scan_def endless_def del: not_None_eq split: option.splits result.splits if_splits)
qed

lemma listener_event_overruns:
  assumes "env_ok E" "lease_inv s" and "listener_event E now mem hup rd s = Some (s', Fault)"
  shows "\<not> hup \<and> overruns rd"
proof -
  have "r = Ok ()" if rd: "dhcp_recv_l3_packet rd = Some (Ok p)" and "handle_packet E now mem p type sid req s = Some (s1, r)"
    for p type sid req s1 r
  proof -
    have "packet_ok p" by (rule dhcp_recv_l3_packet_ok [OF rd])
    then show ?thesis using handle_packet_good [OF assms(1,2), of now mem p type sid req] that(2) by (metis option.distinct(1) option.inject prod.inject)
  qed
  then show ?thesis using assms(3)
    by (fastforce simp: listener_event_def scan_def overruns_def split: if_splits option.splits result.splits)
qed

lemma lease_inv_cong:
  "heap s' = heap s \<Longrightarrow> next_addr s' = next_addr s \<Longrightarrow> lease_list s' = lease_list s \<Longrightarrow>
   nip_lease_hash s' = nip_lease_hash s \<Longrightarrow> lease_inv s \<Longrightarrow> lease_inv s'"
  by (simp add: lease_inv_def)

lemma g_dhcp_server_stop_saves:
  assumes "lease_inv s"
  obtains s' where "g_dhcp_server_stop s = (s', Ok ())" "lease_inv s'" "\<not> started s'"
    "saved s' = saved s @ (if save_lease_func s then map (\<lambda>a. the (heap s a)) (lease_list s) else [])"
    "ref_count s' = ref_count s" "end_ip s' = end_ip s"
proof -
  have all: "\<forall>a\<in>set (lease_list s). heap s a \<noteq> None" using assms by (auto simp: lease_inv_def tab_def)
  let ?s = "if save_lease_func s then s\<lparr>saved := saved s @ map (\<lambda>a. the (heap s a)) (lease_list s)\<rparr> else s"
  have "save_lease s = (?s, Ok ())" unfolding save_lease_def using all by simp
  then have "g_dhcp_server_stop s =
      (?s\<lparr>listener_watch := (if listener_watch ?s > 0 then 0 else listener_watch ?s), started := False\<rparr>, Ok ())"
    by (simp add: g_dhcp_server_stop_def sbind_def)
  then show ?thesis by (rule that) (use assms in \<open>simp_all add: lease_inv_def\<close>)
qed

lemma unref_last:
  assumes "lease_inv s" and "ref_count s = 1"
  obtains s' where "g_dhcp_server_unref s = (s', Ok True)" "heap s' = Map.empty"
proof -
  have "lease_inv (s\<lparr>ref_count := 0\<rparr>)" using assms(1) by (simp add: lease_inv_def)
  then obtain s2 where s2: "g_dhcp_server_stop (s\<lparr>ref_count := 0\<rparr>) = (s2, Ok ())" "lease_inv s2" by (rule g_dhcp_server_stop_saves)
  have "lease_inv (s2\<lparr>option_hash := Map.empty\<rparr>)" using s2(2) by (simp add: lease_inv_def)
  then obtain s' where "destroy_lease_table (s2\<lparr>option_hash := Map.empty\<rparr>) = (s', Ok ())" "heap s' = Map.empty"
    by (rule destroy_lease_table_frees)
  then show ?thesis using that assms(2) s2(1) by (simp add: g_dhcp_server_unref_def sbind_def)
qed

lemma unref_other: "ref_count s \<noteq> 1 \<Longrightarrow> g_dhcp_server_unref s = (s\<lparr>ref_count := ref_count s - 1\<rparr>, Ok False)"
  by (simp add: g_dhcp_server_unref_def sbind_def)

text \<open>What one event does to a server whose lease table is consistent.\<close>

definition refs :: "server_event \<Rightarrow> int" where
  "refs e = (if e = Ref then 1 else if e = Unref then - 1 else 0)"

definition range_end :: "dhcp_env \<Rightarrow> server_event \<Rightarrow> u32 \<Rightarrow> bool" where
  "range_end E e ip \<longleftrightarrow> (\<exists>lo hi. e = Set_ip_range lo hi \<and> inet_aton E hi = Some (htonl ip))"

lemma listener_step:
  assumes "env_ok E" "lease_inv s"
  obtains (alive) s' where "server_event_step E s (Listener now mem hup rd) = Alive s'" "lease_inv s'"
      "ref_count s' = ref_count s" "end_ip s' = end_ip s"
    | (hangs) "server_event_step E s (Listener now mem hup rd) = Hangs" "\<not> hup \<and> (endless rd \<or> end_ip s = - 1)"
    | (overruns) "server_event_step E s (Listener now mem hup rd) = Overruns" "\<not> hup \<and> overruns rd"
proof (cases "listener_event E now mem hup rd s")
  case None
  then show ?thesis using hangs listener_event_hangs [OF assms(2) None] by simp
next
  case (Some x)
  obtain s' r where x: "x = (s', r)" by fastforce
  have s': "lease_inv s' \<and> ref_count s' = ref_count s \<and> end_ip s' = end_ip s"
    using assms Some [unfolded x]
  proof (cases rule: listener_event_good)
    case (packet p)
    then show ?thesis by (simp add: good_def frame_def)
  qed (use assms(2) in \<open>simp_all add: lease_inv_def\<close>)
  show ?thesis
  proof (cases "r = Fault")
    case True
    then have "\<not> hup \<and> overruns rd" using listener_event_overruns [OF assms, of now mem hup rd s'] Some x by blast
    then show ?thesis using overruns True Some x by simp
  next
    case False
    then show ?thesis using alive [of s'] s' Some x by (cases r) simp_all
  qed
qed

lemma server_event_step_cases:
  assumes "env_ok E" "lease_inv s"
  obtains (alive) s' where "server_event_step E s e = Alive s'" "lease_inv s'" "ref_count s' = ref_count s + refs e"
      "e = Unref \<longrightarrow> ref_count s \<noteq> 1" "end_ip s' = end_ip s \<or> range_end E e (end_ip s')"
    | (freed) "server_event_step E s e = Freed Map.empty" "e = Unref" "ref_count s = 1"
    | (hangs) now mem rd where "server_event_step E s e = Hangs" "e = Listener now mem False rd" "endless rd \<or> end_ip s = - 1"
    | (overruns) now mem rd where "server_event_step E s e = Overruns" "e = Listener now mem False rd" "overruns rd"
proof (cases e)
  case (Listener now mem hup rd)
  show ?thesis
    using assms
  proof (cases rule: listener_step [where now = now and mem = mem and hup = hup and rd = rd])
    case (alive s')
    then show ?thesis using that(1) Listener by (simp add: refs_def)
  next
    case hangs
    then show ?thesis using that(3) Listener by simp
  next
    case overruns
    then show ?thesis using that(4) Listener by simp
  qed
next
  case Unref
  show ?thesis
  proof (cases "ref_count s = 1")
    case True
    obtain s' where "g_dhcp_server_unref s = (s', Ok True)" "heap s' = Map.empty" by (rule unref_last [OF assms(2) True])
    then show ?thesis using freed Unref True by simp
  next
    case False
    then show ?thesis using alive [of "s\<lparr>ref_count := ref_count s - 1\<rparr>"] unref_other Unref assms(2)
      by (simp add: refs_def lease_inv_def)
  qed
next
  case Stop
  obtain s' where "g_dhcp_server_stop s = (s', Ok ())" "lease_inv s'" "ref_count s' = ref_count s" "end_ip s' = end_ip s"
    by (rule g_dhcp_server_stop_saves [OF assms(2)])
  then show ?thesis using alive [of s'] Stop by (simp add: lives_def refs_def)
next
  case (Set_ip_range lo hi)
  have "\<exists>s'. server_event_step E s e = Alive s' \<and> lease_inv s' \<and> ref_count s' = ref_count s \<and>
      (end_ip s' = end_ip s \<or> range_end E e (end_ip s'))"
    using assms(2) Set_ip_range by (simp add: g_dhcp_server_set_ip_range_def sbind_def lives_def range_end_def lease_inv_def split: option.split)
  then show ?thesis using alive Set_ip_range by (auto simp: refs_def)
next
  case (Start sock chan watch)
  have "\<exists>s'. server_event_step E s e = Alive s' \<and> lease_inv s' \<and> ref_count s' = ref_count s \<and> end_ip s' = end_ip s"
    using assms(2) Start by (simp add: g_dhcp_server_start_def sbind_def lives_def lease_inv_def)
  then show ?thesis using alive Start by (auto simp: refs_def)
next
  case (Set_option code v)
  have "\<exists>s'. server_event_step E s e = Alive s' \<and> lease_inv s' \<and> ref_count s' = ref_count s \<and> end_ip s' = end_ip s"
    using assms(2) Set_option by (simp add: g_dhcp_server_set_option_def lives_def lease_inv_def split: option.split)
  then show ?thesis using alive Set_option by (auto simp: refs_def)
next
  case (Set_save_lease func)
  then show ?thesis using alive [of "s\<lparr>save_lease_func := func\<rparr>"] assms(2)
    by (simp add: g_dhcp_server_set_save_lease_def lives_def refs_def lease_inv_def)
next
  case Ref
  then show ?thesis using alive [of "s\<lparr>ref_count := ref_count s + 1\<rparr>"] assms(2)
    by (simp add: g_dhcp_server_ref_def lives_def refs_def lease_inv_def)
next
  case (Set_lease_time t)
  then show ?thesis using alive [of "s\<lparr>lease_seconds := t\<rparr>"] assms(2)
    by (simp add: g_dhcp_server_set_lease_time_def lives_def refs_def lease_inv_def)
qed

lemma bswap_32_minus_1: "bswap_32 (- 1) = - 1"
  by (rule bit_word_eqI) (auto simp: bit_bswap_32)

definition life_ok :: "dhcp_env \<Rightarrow> server_life \<Rightarrow> bool" where
  "life_ok E x \<longleftrightarrow> env_ok E \<and> (case x of Alive s \<Rightarrow> lease_inv s \<and> 0 < ref_count s | Freed h \<Rightarrow> h = Map.empty | Crashed \<Rightarrow> False | _ \<Rightarrow> True)"

lemma life_ok_Alive [simp]: "life_ok E (Alive s) \<longleftrightarrow> env_ok E \<and> lease_inv s \<and> 0 < ref_count s"
  by (simp add: life_ok_def)

interpretation server_run: stepper "server_step E" "\<lambda>e. True" "life_ok E"
proof
  fix x e
  assume h: "life_ok E x"
  show "life_ok E (server_step E x e)"
  proof (cases x)
    case (Alive s)
    have i: "env_ok E" "lease_inv s" "0 < ref_count s" using h Alive by simp_all
    show ?thesis
      using i(1,2)
    proof (cases rule: server_event_step_cases [where e = e])
      case (alive s')
      then show ?thesis using i Alive by (auto simp: refs_def)
    qed (use i Alive in \<open>simp_all add: life_ok_def\<close>)
  qed (use h in simp_all)
qed

text \<open>What a run that ends in a certain way has contained.\<close>

definition ref_balance :: "server_event list \<Rightarrow> int" where
  "ref_balance es = 1 + int (count_list es Ref) - int (count_list es Unref)"

lemma ref_balance_snoc [simp]: "ref_balance [] = 1" "ref_balance (es @ [e]) = ref_balance es + refs e"
  by (simp_all add: ref_balance_def refs_def)

fun history :: "dhcp_env \<Rightarrow> server_event list \<Rightarrow> server_life \<Rightarrow> bool" where
  "history E es (Alive s) \<longleftrightarrow> ref_count s = ref_balance es \<and> (end_ip s = 0 \<or> (\<exists>e\<in>set es. range_end E e (end_ip s)))"
| "history E es (Freed h) \<longleftrightarrow> (\<exists>es1 es2. es = es1 @ Unref # es2 \<and> ref_balance es1 = 1)"
| "history E es Hangs \<longleftrightarrow> (\<exists>now mem rd. Listener now mem False rd \<in> set es \<and> (endless rd \<or> (\<exists>e\<in>set es. range_end E e (- 1))))"
| "history E es Overruns \<longleftrightarrow> (\<exists>now mem rd. Listener now mem False rd \<in> set es \<and> overruns rd)"
| "history E es Crashed \<longleftrightarrow> True"

lemma history_step:
  assumes "life_ok E x" and "history E es x"
  shows "history E (es @ [e]) (server_step E x e)"
proof (cases x)
  case (Alive s)
  have i: "env_ok E" "lease_inv s" using assms(1) Alive by simp_all
  have h: "ref_count s = ref_balance es" "end_ip s = 0 \<or> (\<exists>e\<in>set es. range_end E e (end_ip s))" using assms(2) Alive by simp_all
  show ?thesis
    using i
  proof (cases rule: server_event_step_cases [where e = e])
    case (alive s')
    then show ?thesis using Alive h by auto
  next
    case freed
    then show ?thesis using Alive h(1) by auto
  next
    case (hangs now mem rd)
    have "endless rd \<or> (\<exists>e\<in>set es. range_end E e (- 1))"
      using hangs(3) h(2) by auto
    then show ?thesis using Alive hangs(1,2) by auto
  next
    case (overruns now mem rd)
    then show ?thesis using Alive by auto
  qed
next
  case (Freed h)
  then show ?thesis using assms(2) by (auto 4 4)
qed (use assms(2) in auto)

lemma run_history:
  assumes "life_ok E (Alive s0)" and "ref_count s0 = 1" "end_ip s0 = 0"
  shows "history E es (foldl (server_step E) (Alive s0) es)"
proof (induction es rule: rev_induct)
  case (snoc e es)
  have "life_ok E (foldl (server_step E) (Alive s0) es)" by (rule server_run.run_inv [OF assms(1)]) (simp add: list_all_iff)
  then show ?case using history_step [OF _ snoc.IH] by simp
qed (use assms(2,3) in simp)

subsection \<open>From the wire to the handler\<close>

text \<open>A request as a client sends it: the fields that are checked and the options \<open>os\<close>.\<close>

definition client_request :: "dhcp_packet \<Rightarrow> (u8 \<times> u8 list) list \<Rightarrow> bool" where
  "client_request p os \<longleftrightarrow> has_opts p os \<and> op p = BOOTREQUEST \<and> hlen p = 6 \<and> cookie p = htonl DHCP_MAGIC \<and>
     (\<forall>ov\<in>set os. fst ov \<noteq> DHCP_OPTION_OVERLOAD) \<and> map_of os DHCP_VENDOR = None"

lemma get_u32_option_data:
  assumes "client_request p os"
  shows "map_of os code = None \<Longrightarrow> get_u32_option p code = Some (Ok None)"
    and "map_of os code = Some (put_be32 n) \<Longrightarrow> get_u32_option p code = Some (Ok (Some n))"
  using get_u32_option_enc [of p os code] assms by (auto simp: client_request_def)

lemma check_packet_type_data:
  assumes "client_request p os" "map_of os DHCP_MESSAGE_TYPE = Some [type]" "DHCPDISCOVER \<le> type" "type \<le> DHCPINFORM"
  shows "check_packet_type p = Some (Ok type)"
proof -
  obtain a where "dhcp_get_option p DHCP_MESSAGE_TYPE = Some (Ok (Some a))" "mem_read (opt_mem p) a = Ok type"
    by (rule message_type_enc [of p os type]) (use assms in \<open>auto simp: client_request_def\<close>)
  then show ?thesis using assms by (auto simp: check_packet_type_def client_request_def)
qed

lemma dhcp_recv_client_request:
  assumes "client_request p os"
  shows "dhcp_recv_l3_packet (Ok (bytes_of_packet p)) = Some (Ok p)"
proof -
  have "packet_ok p" using assms by (simp add: client_request_def has_opts_def)
  moreover have "dhcp_get_option p DHCP_VENDOR = Some (Ok None)"
    using dhcp_get_option_data [of p os DHCP_VENDOR] assms by (simp add: client_request_def)
  ultimately show ?thesis using assms
    by (simp add: dhcp_recv_l3_packet_def packet_of_bytes_of_packet check_broken_vendor_def client_request_def Let_def)
qed

lemma listener_event_client_request:
  assumes "client_request p os" "map_of os DHCP_MESSAGE_TYPE = Some [type]" "DHCPDISCOVER \<le> type" "type \<le> DHCPINFORM"
    and "map_of os DHCP_SERVER_ID = map_option put_be32 sid" "sid = None \<or> sid = Some (server_nip s)"
    and "map_of os DHCP_REQUESTED_IP = map_option put_be32 req"
  shows "listener_event E now mem False (Ok (bytes_of_packet p)) s =
    map_option (\<lambda>(s, r). (s, rbind r (\<lambda>_. Ok True))) (handle_packet E now mem p type (sid \<noteq> None) req s)"
proof -
  have "get_u32_option p DHCP_SERVER_ID = Some (Ok sid)"
    using get_u32_option_data [OF assms(1), of DHCP_SERVER_ID] assms(5) by (cases sid) auto
  moreover have "get_u32_option p DHCP_REQUESTED_IP = Some (Ok req)"
    using get_u32_option_data [OF assms(1), of DHCP_REQUESTED_IP] assms(7) by (cases req) auto
  moreover have "type \<noteq> 0" using assms(3) by auto
  ultimately show ?thesis
    using check_packet_type_data [OF assms(1-4)] assms(6)
    by (auto simp: listener_event_def dhcp_recv_client_request [OF assms(1)] scan_def)
qed

subsection \<open>An address for everyone\<close>

lemma offer_nip_in_range:
  assumes inv: "lease_inv s" and last: "end_ip s \<noteq> - 1" and aged: "aged s" "start_ip s \<noteq> 0"
    and found: "find_lease_by_mac (chaddr c) s = (s, Ok lease)"
    and range: "\<forall>k\<in>leases s. start_ip s \<le> lease_nip k \<and> lease_nip k \<le> end_ip s"
    and room: "(\<exists>n. start_ip s \<le> n \<and> n \<le> end_ip s \<and> usable n \<and> (\<forall>k\<in>leases s. lease_nip k \<noteq> n)) \<or>
      (\<exists>k\<in>leases s. lease_mac k = take 6 (chaddr c) \<or> is_expired_lease now k)"
    and off: "offer_nip now c lease req s = Some (s, Ok nip)"
  shows "start_ip s \<le> nip \<and> nip \<le> end_ip s \<and> nip \<noteq> 0"
proof -
  have nz: "n \<noteq> 0" if "start_ip s \<le> n" for n using that aged(2) by (auto simp: word_le_nat_alt unat_eq_zero)
  show ?thesis
  proof (cases lease)
    case (Some a)
    have "\<exists>l. heap s a = Some l \<and> l \<in> leases s"
      using inv by (cases rule: find_lease_by_mac_spec [where mac = "chaddr c"]) (use found Some in auto)
    then show ?thesis using off Some range nz by (auto simp: offer_nip_def deref_def sbind_def)
  next
    case None
    have absent: "\<forall>k\<in>leases s. lease_mac k \<noteq> take 6 (chaddr c)"
      using inv by (cases rule: find_lease_by_mac_spec [where mac = "chaddr c"]) (use found None in auto)
    obtain n where n: "find_free_or_expired_nip now (chaddr c) s = Some (s, Ok n)"
        "n = 0 \<or> (start_ip s \<le> n \<and> n \<le> end_ip s \<and> usable n \<and> (\<forall>k\<in>leases s. lease_nip k \<noteq> n)) \<or>
         (\<exists>k\<in>leases s. lease_nip k = n \<and> is_expired_lease now k)"
        "\<lbrakk>aged s; n = 0; start_ip s \<noteq> 0\<rbrakk> \<Longrightarrow> (\<forall>k\<in>leases s. \<not> is_expired_lease now k) \<and>
         (\<forall>n. start_ip s \<le> n \<longrightarrow> n \<le> end_ip s \<longrightarrow> usable n \<longrightarrow> (\<exists>k\<in>leases s. lease_nip k = n))"
      by (rule find_free_spec [OF inv last, of now "chaddr c"]) (rule that, assumption, assumption, simp)
    have free: "start_ip s \<le> n \<and> n \<le> end_ip s \<and> n \<noteq> 0" using n(2,3) aged room absent range nz by blast
    obtain t r where ct: "check_requested_nip now req s = (t, r)" by fastforce
    have "t = s" "r = Ok True \<Longrightarrow> start_ip s \<le> req \<and> req \<le> end_ip s"
      using ct by (auto simp: check_requested_nip_def find_lease_by_nip_def deref_def sbind_def
          split: if_splits option.splits result.splits)
    then show ?thesis
      using off None ct n(1) free nz by (auto simp: offer_nip_def split: result.splits bool.splits)
  qed
qed

subsection \<open>Properties\<close>

text \<open>A lease of one client and a request of another, for witnesses.\<close>

definition demo_lease :: dhcp_lease where
  "demo_lease = \<lparr>expire = 29800, lease_nip = 0xc0a84d65, lease_mac = replicate 6 7\<rparr>"

definition demo_leased :: GDHCPServer where
  "demo_leased = demo_server\<lparr>heap := [0 \<mapsto> demo_lease], next_addr := 1, lease_list := [0],
     nip_lease_hash := [0xc0a84d65 \<mapsto> 0]\<rparr>"

definition demo_client :: "u8 \<Rightarrow> u8 \<Rightarrow> dhcp_packet" where
  "demo_client b type = (case dhcp_init_header type of Ok p \<Rightarrow> p\<lparr>chaddr := replicate 16 b\<rparr>)"

lemma demo_leased_inv: "lease_inv demo_leased" and demo_leased_leases: "leases demo_leased = {demo_lease}"
  and demo_leased_aged: "aged demo_leased" and demo_leased_end: "end_ip demo_leased \<noteq> 0xffffffff" "end_ip demo_leased \<noteq> - 1"
  by (auto simp: lease_inv_def tab_def demo_server_def demo_leased_def demo_lease_def leases_def linked_def
      aged_def by_age_def small_def split: if_splits)

lemma demo_leased_simps: "start_ip demo_leased = 0xc0a84d64" "end_ip demo_leased = 0xc0a84dc7"
  "lease_nip demo_lease = 0xc0a84d65" "lease_mac demo_lease = replicate 6 7"
  by (simp_all add: demo_leased_def demo_server_def demo_lease_def)

lemma demo_client_request:
  assumes "type \<notin> {DHCPOFFER, DHCPACK, DHCPNAK}"
  shows "client_request (demo_client b type) [(DHCP_MESSAGE_TYPE, [type])]" and "chaddr (demo_client b type) = replicate 16 b"
    and "packet_ok (demo_client b type)"
proof -
  obtain p where p: "dhcp_init_header type = Ok p" "has_opts p [(DHCP_MESSAGE_TYPE, [type])]" "op p = BOOTREQUEST" "hlen p = 6"
      "cookie p = htonl DHCP_MAGIC"
    by (rule dhcp_init_header_spec [of type]) (use assms in auto)
  have "has_opts (p\<lparr>chaddr := replicate 16 b\<rparr>) [(DHCP_MESSAGE_TYPE, [type])]"
    by (rule has_opts_cong [OF _ _ p(2)]) (use p(2) in \<open>simp_all add: has_opts_def packet_ok_def\<close>)
  then show "client_request (demo_client b type) [(DHCP_MESSAGE_TYPE, [type])]" "chaddr (demo_client b type) = replicate 16 b"
    "packet_ok (demo_client b type)"
    using p by (simp_all add: client_request_def demo_client_def, simp add: has_opts_def)
qed

text \<open>
  C23: No client loses its address to another. Whatever bytes arrive, handling them leaves the lease
  table consistent, in order as long as times fit into 31 bits, and with every lease that has not
  expired and belongs to a client other than the sender unchanged.
\<close>

theorem dhcp_server_keeps_leases:
  assumes "env_ok E" and "lease_inv s" and "listener_event E now mem hup (Ok bs) s = Some (s', r)"
  shows "lease_inv s' \<and>
    (\<forall>k\<in>leases s. lease_mac k \<noteq> take 6 (chaddr (packet_of_bytes bs)) \<and> \<not> is_expired_lease now k \<longrightarrow> k \<in> leases s') \<and>
    (aged s \<and> 0 \<le> now \<and> now + int (unat (lease_seconds s)) < 2 ^ 31 \<longrightarrow> aged s')"
  using assms
proof (cases rule: listener_event_good)
  case watch
  then show ?thesis using assms(2) by (simp add: lease_inv_def leases_def aged_def by_age_def small_def)
next
  case (packet p)
  moreover have "chaddr p = chaddr (packet_of_bytes bs)" by (rule dhcp_recv_l3_packet_ok [OF packet(1)]) auto
  ultimately show ?thesis by (auto simp: good_def)
next
  case same
  then show ?thesis using assms(2) by simp
qed

theorem dhcp_server_keeps_leases_witness:
  "\<exists>s' r. listener_event demo_env 1000 True False (Ok (bytes_of_packet (demo_client 2 DHCPDISCOVER))) demo_leased = Some (s', r) \<and>
     lease_inv s' \<and> demo_lease \<in> leases s' \<and> aged s'"
proof -
  let ?p = "demo_client 2 DHCPDISCOVER"
  have d: "client_request ?p [(DHCP_MESSAGE_TYPE, [DHCPDISCOVER])]" "chaddr ?p = replicate 16 2" "packet_ok ?p"
    using demo_client_request [of DHCPDISCOVER 2] by simp_all
  obtain s' where "handle_packet demo_env 1000 True ?p DHCPDISCOVER False None demo_leased = Some (s', Ok ())"
    by (rule handle_packet_good [OF demo_env_ok demo_leased_inv handle_packet_returns [OF demo_leased_inv demo_leased_end(2)] d(3)])
  then have ev: "listener_event demo_env 1000 True False (Ok (bytes_of_packet ?p)) demo_leased = Some (s', Ok True)"
    using listener_event_client_request [OF d(1), of DHCPDISCOVER None demo_leased None demo_env 1000 True] by simp
  note k = dhcp_server_keeps_leases [OF demo_env_ok demo_leased_inv ev]
  have "demo_lease \<in> leases s'"
    using k d(2,3) by (simp add: demo_leased_leases packet_of_bytes_of_packet demo_lease_def is_expired_lease_def)
  moreover have "aged s'" using k demo_leased_aged by (simp add: demo_leased_def demo_server_def)
  ultimately show ?thesis using ev k by blast
qed

text \<open>
  C27: Every request is answered or dropped, never half handled: on a consistent server the handler of
  any packet returns without an error or an access to freed memory, and keeps the server consistent.
\<close>

theorem dhcp_server_handles_every_packet:
  assumes "env_ok E" and "lease_inv s" and "end_ip s \<noteq> 0xffffffff" and "packet_ok p"
  shows "\<exists>s'. handle_packet E now mem p type server_id_option request_ip_option s = Some (s', Ok ()) \<and> lease_inv s'"
proof -
  have "(0xffffffff :: u32) = - 1" by simp
  then have last: "end_ip s \<noteq> - 1" using assms(3) by metis
  show ?thesis
    by (rule handle_packet_good [OF assms(1,2) handle_packet_returns [OF assms(2) last] assms(4)])
      (auto simp: good_def)
qed

theorem dhcp_server_handles_every_packet_witness:
  "\<exists>s'. handle_packet demo_env 1000 False (demo_client 7 DHCPRELEASE) DHCPRELEASE True None demo_leased = Some (s', Ok ()) \<and>
     lease_inv s'"
  by (rule dhcp_server_handles_every_packet [OF demo_env_ok demo_leased_inv demo_leased_end(1)])
    (simp add: demo_client_request)

lemma server_offers_entry:
  assumes "env_ok E" and "lease_inv s" and "end_ip s \<noteq> 0xffffffff" and "packet_ok p"
    and "aged s" and "start_ip s \<noteq> 0"
    and "\<forall>k\<in>leases s. start_ip s \<le> lease_nip k \<and> lease_nip k \<le> end_ip s"
    and "take 6 (chaddr p) \<noteq> MAC_BCAST_ADDR" and "take 6 (chaddr p) \<noteq> MAC_ANY_ADDR"
    and "(\<exists>n. start_ip s \<le> n \<and> n \<le> end_ip s \<and> usable n \<and> (\<forall>k\<in>leases s. lease_nip k \<noteq> n)) \<or>
      (\<exists>k\<in>leases s. lease_mac k = take 6 (chaddr p) \<or> is_expired_lease now k)"
  shows "\<exists>s' q nip. handle_packet E now True p DHCPDISCOVER server_id_option request_ip_option s = Some (s', Ok ()) \<and>
    sent s' = sent s @ [(q, server_nip s, dest q)] \<and> reply s p DHCPOFFER q \<and> yiaddr q = htonl nip \<and>
    start_ip s \<le> nip \<and> nip \<le> end_ip s \<and> leases s' = insert \<lparr>expire = 300, lease_nip = nip, lease_mac = take 6 (chaddr p)\<rparr>
      {k \<in> leases s. lease_mac k \<noteq> take 6 (chaddr p) \<and> lease_nip k \<noteq> nip} \<and>
    good s now (chaddr p) s' \<and> acceptable s nip (chaddr p)"
proof -
  have "(0xffffffff :: u32) = - 1" by simp
  then have last: "end_ip s \<noteq> - 1" using assms(3) by metis
  obtain lease where f: "find_lease_by_mac (chaddr p) s = (s, Ok lease)"
    using assms(2) by (cases rule: find_lease_by_mac_spec [where mac = "chaddr p"]) auto
  let ?n = "case request_ip_option of None \<Rightarrow> 0 | Some nip \<Rightarrow> nip"
  obtain s' nip where o: "offer_nip now p lease ?n s = Some (s, Ok nip)"
      "send_offer E now True p lease ?n s = Some (s', Ok ())" "good s now (chaddr p) s'"
      "if acceptable s nip (chaddr p) \<and> (True \<or> (\<exists>k\<in>leases s. lease_mac k = take 6 (chaddr p) \<or> lease_nip k = nip))
       then (\<exists>q. sent s' = sent s @ [(q, server_nip s, dest q)] \<and> reply s p DHCPOFFER q \<and> yiaddr q = htonl nip) \<and>
         leases s' = insert (the_lease s now OFFER_TIME (chaddr p) nip)
           {l \<in> leases s. lease_mac l \<noteq> take 6 (chaddr p) \<and> lease_nip l \<noteq> nip}
       else sent s' = sent s"
    by (rule send_offer_spec [OF assms(1,2) offer_nip_returns [OF assms(2) last] assms(4) f, of now ?n True]) blast
  have r: "start_ip s \<le> nip \<and> nip \<le> end_ip s \<and> nip \<noteq> 0"
    by (rule offer_nip_in_range [OF assms(2) last assms(5,6) f assms(7,10) o(1)])
  then have acc: "acceptable s nip (chaddr p)" using assms(8,9) by (simp add: acceptable_def)
  then obtain q where q: "sent s' = sent s @ [(q, server_nip s, dest q)]" "reply s p DHCPOFFER q" "yiaddr q = htonl nip"
      "leases s' = insert (the_lease s now OFFER_TIME (chaddr p) nip) {k \<in> leases s. lease_mac k \<noteq> take 6 (chaddr p) \<and> lease_nip k \<noteq> nip}"
    using o(4) acc by auto
  have "handle_packet E now True p DHCPDISCOVER server_id_option request_ip_option s = Some (s', Ok ())"
    using o(2) f by (simp add: handle_packet_def scan_def)
  moreover have "the_lease s now OFFER_TIME (chaddr p) nip = \<lparr>expire = 300, lease_nip = nip, lease_mac = take 6 (chaddr p)\<rparr>"
    by (simp add: the_lease_def)
  note entry = q(4) [unfolded this]
  ultimately show ?thesis using q(1-3) r acc o(3) entry by blast
qed

lemma server_offers:
  assumes "env_ok E" and "lease_inv s" and "end_ip s \<noteq> 0xffffffff" and "packet_ok p"
    and "aged s" and "start_ip s \<noteq> 0"
    and "\<forall>k\<in>leases s. start_ip s \<le> lease_nip k \<and> lease_nip k \<le> end_ip s"
    and "take 6 (chaddr p) \<noteq> MAC_BCAST_ADDR" and "take 6 (chaddr p) \<noteq> MAC_ANY_ADDR"
    and "(\<exists>n. start_ip s \<le> n \<and> n \<le> end_ip s \<and> usable n \<and> (\<forall>k\<in>leases s. lease_nip k \<noteq> n)) \<or>
      (\<exists>k\<in>leases s. lease_mac k = take 6 (chaddr p) \<or> is_expired_lease now k)"
  shows "\<exists>s' q nip. handle_packet E now True p DHCPDISCOVER server_id_option request_ip_option s = Some (s', Ok ()) \<and>
    sent s' = sent s @ [(q, server_nip s, dest q)] \<and> reply s p DHCPOFFER q \<and> yiaddr q = htonl nip \<and>
    start_ip s \<le> nip \<and> nip \<le> end_ip s \<and> (\<exists>k\<in>leases s'. lease_mac k = take 6 (chaddr p) \<and> lease_nip k = nip) \<and>
    good s now (chaddr p) s' \<and> acceptable s nip (chaddr p)"
proof -
  obtain s' q nip where o: "handle_packet E now True p DHCPDISCOVER server_id_option request_ip_option s = Some (s', Ok ())"
    "sent s' = sent s @ [(q, server_nip s, dest q)]" "reply s p DHCPOFFER q" "yiaddr q = htonl nip" "start_ip s \<le> nip" "nip \<le> end_ip s"
    "leases s' = insert \<lparr>expire = 300, lease_nip = nip, lease_mac = take 6 (chaddr p)\<rparr>
      {k \<in> leases s. lease_mac k \<noteq> take 6 (chaddr p) \<and> lease_nip k \<noteq> nip}"
    "good s now (chaddr p) s'" "acceptable s nip (chaddr p)"
    using server_offers_entry [OF assms, of server_id_option request_ip_option] by blast
  have "\<exists>k\<in>leases s'. lease_mac k = take 6 (chaddr p) \<and> lease_nip k = nip" unfolding o(7) by simp
  then show ?thesis using o(1-6,8,9) by blast
qed

text \<open>An address whose lease has expired is free for whoever asks for it.\<close>

lemma expired_is_free:
  assumes "lease_inv s" and "l \<in> leases s" and "is_expired_lease later l"
    and "lease_nip l \<noteq> 0" "start_ip s \<le> lease_nip l" "lease_nip l \<le> end_ip s"
  shows "check_requested_nip later (lease_nip l) s = (s, Ok True)"
proof -
  obtain a where "a \<in> set (lease_list s)" "heap s a = Some l" using assms(2) by (auto simp: leases_def linked_def)
  moreover from this have "nip_lease_hash s (lease_nip l) = Some a"
    using tab_hash [OF assms(1) [unfolded lease_inv_def]] by blast
  ultimately show ?thesis
    using assms(3-6) by (simp add: check_requested_nip_def find_lease_by_nip_def deref_def sbind_def not_less)
qed

text \<open>
  C24: A client that broadcasts a DISCOVER gets an offer whenever the server has an address for it: one that is not leased, an expired lease or the
  client's own lease. The offered address lies in the range and is entered in the lease table for the client, in place of its former entry and of the
  expired one for this address. The entry reserves nothing: its time of expiry is the number 300 itself, and at every time after second 300 of the
  epoch the check of a requested address finds the offered address free, whoever asks for it.
\<close>

theorem dhcp_server_discover_offers:
  assumes "env_ok E" and "lease_inv s" and "end_ip s \<noteq> 0xffffffff" and "packet_ok p"
    and "aged s" and "start_ip s \<noteq> 0"
    and "\<forall>k\<in>leases s. start_ip s \<le> lease_nip k \<and> lease_nip k \<le> end_ip s"
    and "take 6 (chaddr p) \<noteq> MAC_BCAST_ADDR" and "take 6 (chaddr p) \<noteq> MAC_ANY_ADDR"
    and "(\<exists>n. start_ip s \<le> n \<and> n \<le> end_ip s \<and> usable n \<and> (\<forall>k\<in>leases s. lease_nip k \<noteq> n)) \<or>
      (\<exists>k\<in>leases s. lease_mac k = take 6 (chaddr p) \<or> is_expired_lease now k)"
  shows "\<exists>s' q nip. handle_packet E now True p DHCPDISCOVER server_id_option request_ip_option s = Some (s', Ok ()) \<and>
    sent s' = sent s @ [(q, server_nip s, dest q)] \<and> reply s p DHCPOFFER q \<and> yiaddr q = htonl nip \<and>
    start_ip s \<le> nip \<and> nip \<le> end_ip s \<and>
    leases s' = insert \<lparr>expire = 300, lease_nip = nip, lease_mac = take 6 (chaddr p)\<rparr>
      {k \<in> leases s. lease_mac k \<noteq> take 6 (chaddr p) \<and> lease_nip k \<noteq> nip} \<and>
    (\<forall>later. 300 < later \<longrightarrow> check_requested_nip later nip s' = (s', Ok True))"
proof -
  obtain s' q nip where o: "handle_packet E now True p DHCPDISCOVER server_id_option request_ip_option s = Some (s', Ok ())"
    "sent s' = sent s @ [(q, server_nip s, dest q)]" "reply s p DHCPOFFER q" "yiaddr q = htonl nip" "start_ip s \<le> nip" "nip \<le> end_ip s"
    "leases s' = insert \<lparr>expire = 300, lease_nip = nip, lease_mac = take 6 (chaddr p)\<rparr>
      {k \<in> leases s. lease_mac k \<noteq> take 6 (chaddr p) \<and> lease_nip k \<noteq> nip}"
    "good s now (chaddr p) s'" "acceptable s nip (chaddr p)"
    using server_offers_entry [OF assms, of server_id_option request_ip_option] by blast
  let ?l = "\<lparr>expire = 300, lease_nip = nip, lease_mac = take 6 (chaddr p)\<rparr>"
  have "check_requested_nip later nip s' = (s', Ok True)" if "300 < later" for later
    using expired_is_free [of s' ?l later] that o(5-9) by (simp add: good_def frame_def acceptable_def is_expired_lease_def)
  then show ?thesis using o(1-7) by blast
qed

theorem dhcp_server_discover_offers_witness:
  "\<exists>s' q nip. handle_packet demo_env 1000 True (demo_client 2 DHCPDISCOVER) DHCPDISCOVER False (Some 0xc0a84d65) demo_leased =
       Some (s', Ok ()) \<and>
     sent s' = sent demo_leased @ [(q, server_nip demo_leased, dest q)] \<and> reply demo_leased (demo_client 2 DHCPDISCOVER) DHCPOFFER q \<and>
     yiaddr q = htonl nip \<and> start_ip demo_leased \<le> nip \<and> nip \<le> end_ip demo_leased \<and>
     leases s' = insert \<lparr>expire = 300, lease_nip = nip, lease_mac = take 6 (chaddr (demo_client 2 DHCPDISCOVER))\<rparr>
       {k \<in> leases demo_leased. lease_mac k \<noteq> take 6 (chaddr (demo_client 2 DHCPDISCOVER)) \<and> lease_nip k \<noteq> nip} \<and>
     (\<forall>later. 300 < later \<longrightarrow> check_requested_nip later nip s' = (s', Ok True))"
proof (rule dhcp_server_discover_offers [OF demo_env_ok demo_leased_inv demo_leased_end(1)])
  have "usable 0xc0a84d66" by (simp add: usable_def)
  then show "(\<exists>n. start_ip demo_leased \<le> n \<and> n \<le> end_ip demo_leased \<and> usable n \<and> (\<forall>k\<in>leases demo_leased. lease_nip k \<noteq> n)) \<or>
      (\<exists>k\<in>leases demo_leased. lease_mac k = take 6 (chaddr (demo_client 2 DHCPDISCOVER)) \<or> is_expired_lease 1000 k)"
    unfolding demo_leased_leases
    by (intro disjI1 exI [of _ "0xc0a84d66"]) (simp add: demo_leased_def demo_server_def demo_lease_def)
qed (simp_all add: demo_client_request demo_leased_aged demo_leased_leases demo_leased_simps
    MAC_BCAST_ADDR_def MAC_ANY_ADDR_def)

lemma find_own_lease:
  assumes "env_ok E" and "lease_inv s" and "k \<in> leases s" and "lease_mac k = take 6 mac"
  obtains a where "find_lease_by_mac mac s = (s, Ok (Some a))" "heap s a = Some k"
  using assms(2)
proof (cases rule: find_lease_by_mac_spec [where mac = mac])
  case (found a l)
  then have "l = k" using table.view_mac [of E s l k] assms by simp
  then show ?thesis using that found by blast
qed (use assms in auto)

lemma server_acks:
  assumes "env_ok E" and "lease_inv s" and "packet_ok p" and "k \<in> leases s" and "lease_mac k = take 6 (chaddr p)"
    and "acceptable s (lease_nip k) (chaddr p)"
  shows "\<exists>s' q. handle_packet E now mem p DHCPREQUEST server_id_option (Some (lease_nip k)) s = Some (s', Ok ()) \<and>
    sent s' = sent s @ [(q, server_nip s, dest q)] \<and> reply s p DHCPACK q \<and> yiaddr q = htonl (lease_nip k) \<and>
    leases s' = insert (k\<lparr>expire := now + int (unat (lease_seconds s))\<rparr>) (leases s - {k}) \<and>
    good s now (chaddr p) s' \<and> timed s DHCPACK q"
proof -
  obtain a where a: "find_lease_by_mac (chaddr p) s = (s, Ok (Some a))" "heap s a = Some k"
    by (rule find_own_lease [OF assms(1,2,4,5)])
  obtain s' q where s': "send_ACK E now mem p (lease_nip k) s = (s', Ok ())" "good s now (chaddr p) s'"
      "sent s' = sent s @ [(q, server_nip s, dest q)]" "reply s p DHCPACK q" "yiaddr q = htonl (lease_nip k)" "timed s DHCPACK q"
      "leases s' = insert (the_lease s now 0 (chaddr p) (lease_nip k))
         {l \<in> leases s. lease_mac l \<noteq> take 6 (chaddr p) \<and> lease_nip l \<noteq> lease_nip k}"
    by (rule send_ACK_spec [OF assms(1,2,3,4) refl assms(5), of now mem]) (use assms(6) in blast)
  have "{l \<in> leases s. lease_mac l \<noteq> take 6 (chaddr p) \<and> lease_nip l \<noteq> lease_nip k} = leases s - {k}"
  proof -
    have "l = k" if "l \<in> leases s" "lease_mac l = take 6 (chaddr p) \<or> lease_nip l = lease_nip k" for l
      using table.view_mac [of E s l k] table.view_nip [of E s l k] assms(1,2,4,5) that by auto
    then show ?thesis using assms(5) by blast
  qed
  moreover have "the_lease s now 0 (chaddr p) (lease_nip k) = k\<lparr>expire := now + int (unat (lease_seconds s))\<rparr>"
    using assms(5) by (simp add: the_lease_def)
  moreover have "lease_nip k \<noteq> 0" using assms(6) by (simp add: acceptable_def)
  then have "handle_packet E now mem p DHCPREQUEST server_id_option (Some (lease_nip k)) s = Some (s', Ok ())"
    using a s'(1) by (simp add: handle_packet_def scan_def handle_request_def deref_def sbind_def)
  ultimately show ?thesis using s' by auto
qed

text \<open>A renewal by \<open>ciaddr\<close>, which is compared as it came with the lease address in host byte order.\<close>

lemma renewal_by_ciaddr:
  assumes "env_ok E" and "lease_inv s" and "packet_ok p" and "k \<in> leases s" and "lease_mac k = take 6 (chaddr p)"
    and "acceptable s (lease_nip k) (chaddr p)" and ci: "ciaddr p = htonl (lease_nip k) \<and> htonl (lease_nip k) \<noteq> lease_nip k"
  shows "\<exists>s'. handle_packet E now mem p DHCPREQUEST server_id_option None s = Some (s', Ok ()) \<and> leases s' = leases s \<and>
    (if server_id_option then \<exists>q. sent s' = sent s @ [(q, server_nip s, INADDR_BROADCAST, MAC_BCAST_ADDR)] \<and> reply s p DHCPNAK q
     else s' = s)"
proof -
  obtain a where a: "find_lease_by_mac (chaddr p) s = (s, Ok (Some a))" "heap s a = Some k"
    by (rule find_own_lease [OF assms(1,2,4,5)])
  have nz: "htonl (lease_nip k) \<noteq> 0" using assms(6) by (simp add: acceptable_def)
  have run: "handle_packet E now mem p DHCPREQUEST server_id_option None s =
      Some (if server_id_option then send_NAK p s else (s, Ok ()))"
    using a ci nz by (simp add: handle_packet_def scan_def handle_request_def deref_def sbind_def)
  obtain q where "send_NAK p s = (s\<lparr>sent := sent s @ [(q, server_nip s, INADDR_BROADCAST, MAC_BCAST_ADDR)]\<rparr>, Ok ())" "reply s p DHCPNAK q"
    by (rule send_NAK_spec [OF assms(3)])
  then show ?thesis by (auto simp: run)
qed

text \<open>
  C26: A REQUEST that names the address the client holds in its requested-address option is answered with an ACK that carries this address, and the
  lease is renewed for the lease time; every other lease stays as it is. A renewal without this option, which has the address in \<open>ciaddr\<close> in network
  byte order, is not granted unless the address reads the same in both byte orders: it is refused with a NAK when the client names the server and
  ignored otherwise, and the lease is left as it is.
\<close>

theorem dhcp_server_request_renews:
  assumes "env_ok E" and "lease_inv s" and "packet_ok p" and "k \<in> leases s" and "lease_mac k = take 6 (chaddr p)"
    and "acceptable s (lease_nip k) (chaddr p)"
  shows "(\<exists>s' q. handle_packet E now mem p DHCPREQUEST server_id_option (Some (lease_nip k)) s = Some (s', Ok ()) \<and>
      sent s' = sent s @ [(q, server_nip s, dest q)] \<and> reply s p DHCPACK q \<and> yiaddr q = htonl (lease_nip k) \<and>
      leases s' = insert (k\<lparr>expire := now + int (unat (lease_seconds s))\<rparr>) (leases s - {k})) \<and>
    (ciaddr p = htonl (lease_nip k) \<and> htonl (lease_nip k) \<noteq> lease_nip k \<longrightarrow>
      (\<exists>s'. handle_packet E now mem p DHCPREQUEST server_id_option None s = Some (s', Ok ()) \<and> leases s' = leases s \<and>
        (if server_id_option then \<exists>q. sent s' = sent s @ [(q, server_nip s, INADDR_BROADCAST, MAC_BCAST_ADDR)] \<and> reply s p DHCPNAK q
         else s' = s)))"
proof (rule conjI [OF _ impI])
  show "\<exists>s' q. handle_packet E now mem p DHCPREQUEST server_id_option (Some (lease_nip k)) s = Some (s', Ok ()) \<and>
      sent s' = sent s @ [(q, server_nip s, dest q)] \<and> reply s p DHCPACK q \<and> yiaddr q = htonl (lease_nip k) \<and>
      leases s' = insert (k\<lparr>expire := now + int (unat (lease_seconds s))\<rparr>) (leases s - {k})"
    using server_acks [OF assms, of now mem server_id_option] by blast
qed (rule renewal_by_ciaddr [OF assms])

theorem dhcp_server_request_renews_witness:
  "(\<exists>s' q. handle_packet demo_env 5000 True (demo_client 7 DHCPREQUEST) DHCPREQUEST False (Some (lease_nip demo_lease)) demo_leased =
       Some (s', Ok ()) \<and>
     sent s' = sent demo_leased @ [(q, server_nip demo_leased, dest q)] \<and>
     reply demo_leased (demo_client 7 DHCPREQUEST) DHCPACK q \<and> yiaddr q = htonl (lease_nip demo_lease) \<and>
     leases s' = insert (demo_lease\<lparr>expire := 5000 + int (unat (lease_seconds demo_leased))\<rparr>) (leases demo_leased - {demo_lease})) \<and>
   handle_packet demo_env 5000 True (demo_client 7 DHCPREQUEST\<lparr>ciaddr := 0x654da8c0\<rparr>) DHCPREQUEST False None demo_leased =
     Some (demo_leased, Ok ())"
proof -
  have b: "htonl 0xc0a84d65 = 0x654da8c0" by code_simp
  have p: "packet_ok (demo_client 7 DHCPREQUEST\<lparr>ciaddr := x\<rparr>)" for x using demo_client_request [of DHCPREQUEST 7] by (simp add: packet_ok_def)
  have k: "demo_lease \<in> leases demo_leased" "lease_mac demo_lease = take 6 (chaddr (demo_client 7 DHCPREQUEST))"
      "acceptable demo_leased (lease_nip demo_lease) (chaddr (demo_client 7 DHCPREQUEST))" "packet_ok (demo_client 7 DHCPREQUEST)"
    by (simp_all add: demo_client_request demo_leased_leases demo_leased_simps acceptable_def MAC_BCAST_ADDR_def MAC_ANY_ADDR_def)
  show ?thesis
    using dhcp_server_request_renews [OF demo_env_ok demo_leased_inv k(4,1-3), of 5000 True False]
      dhcp_server_request_renews [OF demo_env_ok demo_leased_inv p k(1), of "0x654da8c0" 5000 True False] k(2,3) b
    by (simp add: demo_leased_simps)
qed

text \<open>
  C25: From its creation on, through any sequence of packets and calls of its interface, references taken and released included, a server that
  lives has at most one lease for a hardware address and for an IP address, its hash table finds exactly the leases of its list, and its reference
  count is the number of references that were taken and not released. It is freed by the release of the last one, and then no lease is left
  allocated. It never uses a lease that was freed. A packet ends the process only when the scan of its options does not end or leaves the packet,
  or when the range of addresses ends at 255.255.255.255, where the search for a free address can run forever.
\<close>

theorem dhcp_server_run_invariant:
  assumes "env_ok E" and "g_dhcp_server_new index mem name up addr = Inr s0"
  shows "case foldl (server_step E) (Alive s0) es of
      Alive s \<Rightarrow> (\<forall>k\<in>leases s. \<forall>l\<in>leases s. lease_mac k = lease_mac l \<or> lease_nip k = lease_nip l \<longrightarrow> k = l) \<and>
        (\<forall>l. l \<in> leases s \<longleftrightarrow> (\<exists>a. nip_lease_hash s (lease_nip l) = Some a \<and> heap s a = Some l)) \<and>
        ref_count s = 1 + int (count_list es Ref) - int (count_list es Unref) \<and> 0 < ref_count s
    | Freed h \<Rightarrow> h = Map.empty \<and> (\<exists>es1 es2. es = es1 @ Unref # es2 \<and> count_list es1 Ref = count_list es1 Unref)
    | Hangs \<Rightarrow> \<exists>now mem rd. Listener now mem False rd \<in> set es \<and>
        (endless rd \<or> (\<exists>lo hi. Set_ip_range lo hi \<in> set es \<and> inet_aton E hi = Some 0xffffffff))
    | Overruns \<Rightarrow> \<exists>now mem rd. Listener now mem False rd \<in> set es \<and> overruns rd
    | Crashed \<Rightarrow> False"
proof -
  let ?x = "foldl (server_step E) (Alive s0) es"
  have "lease_inv s0 \<and> end_ip s0 = 0 \<and> ref_count s0 = 1"
    using assms(2) by (auto simp: g_dhcp_server_new_def lease_inv_def tab_def split: if_splits)
  then have s0: "life_ok E (Alive s0)" "end_ip s0 = 0" "ref_count s0 = 1" using assms(1) by simp_all
  have ok: "life_ok E ?x" by (rule server_run.run_inv [OF s0(1)]) (simp add: list_all_iff)
  have past: "history E es ?x" by (rule run_history [OF s0(1,3,2)])
  show ?thesis
  proof (cases ?x)
    case (Alive s)
    have i: "lease_inv s" "0 < ref_count s" using ok Alive by simp_all
    have "k = l" if "k \<in> leases s" "l \<in> leases s" "lease_mac k = lease_mac l \<or> lease_nip k = lease_nip l" for k l
      using table.view_mac [of E s k l] table.view_nip [of E s k l] assms(1) i(1) that by blast
    moreover have "l \<in> leases s \<longleftrightarrow> (\<exists>a. nip_lease_hash s (lease_nip l) = Some a \<and> heap s a = Some l)" for l
      by (auto simp: leases_def linked_def tab_hash [OF i(1) [unfolded lease_inv_def]])
    ultimately show ?thesis using past Alive i(2) by (simp add: ref_balance_def)
  next
    case (Freed h)
    then show ?thesis using past ok by (auto simp: ref_balance_def life_ok_def)
  next
    case Hangs
    have "(0xffffffff :: u32) = - 1" by simp
    have "\<exists>now mem rd. Listener now mem False rd \<in> set es \<and>
        (endless rd \<or> (\<exists>lo hi. Set_ip_range lo hi \<in> set es \<and> inet_aton E hi = Some (- 1)))"
      using past unfolding Hangs by (simp add: range_end_def bswap_32_minus_1) blast
    then show ?thesis unfolding Hangs server_life.case \<open>0xffffffff = - 1\<close> .
  next
    case Crashed
    then show ?thesis using ok by (simp add: life_ok_def)
  qed (use past in auto)
qed

theorem dhcp_server_run_invariant_witness:
  "\<exists>s0 h. g_dhcp_server_new 3 True (Some ''p2p0'') True 0x014da8c0 = Inr s0 \<and>
     foldl (server_step demo_env) (Alive s0) [Set_ip_range ''192.168.77.1'' ''192.168.77.1'', Start (Ok ()) True 7, Ref,
       Listener 1000 True False (Ok (bytes_of_packet (demo_client 2 DHCPDISCOVER))), Unref, Unref] = Freed h \<and> h = Map.empty"
proof -
  obtain s0 where s0: "g_dhcp_server_new 3 True (Some ''p2p0'') True 0x014da8c0 = Inr s0" by (simp add: g_dhcp_server_new_def)
  let ?p = "demo_client 2 DHCPDISCOVER"
  let ?as = "[Set_ip_range ''192.168.77.1'' ''192.168.77.1'', Start (Ok ()) True 7, Ref]"
  let ?es = "?as @ [Listener 1000 True False (Ok (bytes_of_packet ?p)), Unref, Unref]"
  note run = dhcp_server_run_invariant [OF demo_env_ok s0, of ?es]
  obtain s1 where s1: "foldl (server_step demo_env) (Alive s0) ?as = Alive s1" "lease_inv s1" "ref_count s1 = 2" "end_ip s1 \<noteq> - 1"
    using s0 bswap_32_eq_iff [of 21866688 "- 1"]
    by (auto simp: bswap_32_minus_1 g_dhcp_server_new_def g_dhcp_server_set_ip_range_def g_dhcp_server_start_def g_dhcp_server_ref_def
        demo_env_def lives_def sbind_def lease_inv_def tab_def)
  have d: "client_request ?p [(DHCP_MESSAGE_TYPE, [DHCPDISCOVER])]" "packet_ok ?p"
    using demo_client_request [of DHCPDISCOVER 2] by simp_all
  obtain s2 where s2: "handle_packet demo_env 1000 True ?p DHCPDISCOVER False None s1 = Some (s2, Ok ())" "good s1 1000 (chaddr ?p) s2"
    by (rule handle_packet_good [OF demo_env_ok s1(2) handle_packet_returns [OF s1(2,4)] d(2)])
  have ev: "server_event_step demo_env s1 (Listener 1000 True False (Ok (bytes_of_packet ?p))) = Alive s2"
    using listener_event_client_request [OF d(1), of DHCPDISCOVER None s1 None demo_env 1000 True] s2(1) by simp
  have two: "ref_count s2 = 2" "lease_inv s2" using s2(2) s1(3) by (simp_all add: good_def frame_def)
  then obtain s3 where "g_dhcp_server_unref (s2\<lparr>ref_count := 1\<rparr>) = (s3, Ok True)"
    using unref_last [of "s2\<lparr>ref_count := 1\<rparr>"] by (auto simp: lease_inv_def)
  then have "foldl (server_step demo_env) (Alive s0) ?es = Freed (heap s3)"
    using s1(1) ev unref_other [of s2] two(1) by (simp del: server_event_step.simps(1))
  then show ?thesis using run s0 by auto
qed

text \<open>
  An offered address is not reserved. The lease of an offer expires at second 300 of the epoch, so
  at any later time the server regards the address as free for whoever asks for it next.
\<close>

lemma dhcp_offer_expired_at_once:
  assumes "env_ok E" and "lease_inv s" and "try_add_lease E now mem OFFER_TIME mac (htonl nip) s = (s', Ok (Some a))"
    and "300 < later"
  shows "check_requested_nip later nip s' = (s', Ok True)"
proof -
  let ?l = "the_lease s now OFFER_TIME mac nip"
  have acc: "acceptable s nip mac" "mem \<or> (\<exists>k\<in>leases s. lease_mac k = take 6 mac \<or> lease_nip k = nip)"
    using table.add_refused [of E s nip mac mem now OFFER_TIME] assms(1,2,3) by auto
  obtain b s1 where s1: "add_lease E now mem OFFER_TIME mac (htonl nip) s = (s1, Ok b)" "frame s s1" "lease_inv s1"
    by (rule add_lease_spec [OF assms(1,2), of "htonl nip" mac mem now OFFER_TIME]) (use acc in auto)
  then have s': "s' = s1" using assms(3) by (simp add: try_add_lease_def)
  have "?l \<in> leases s'" by (rule table.add_grants(1) [OF _ assms(3)]) (use assms in simp)
  then obtain c where "c \<in> set (lease_list s')" "heap s' c = Some ?l" by (auto simp: leases_def linked_def)
  moreover from this have "nip_lease_hash s' nip = Some c"
    using s1(3) tab_hash [of "{}" "heap s'" "next_addr s'" "lease_list s'" "nip_lease_hash s'" nip c]
    by (simp add: s' lease_inv_def the_lease_def)
  moreover have "is_expired_lease later ?l" using assms(4) by (simp add: is_expired_lease_def the_lease_def)
  moreover have "start_ip s' = start_ip s" "end_ip s' = end_ip s" using s1(2) s' by (simp_all add: frame_def)
  ultimately show ?thesis using acc(1)
    by (simp add: check_requested_nip_def find_lease_by_nip_def deref_def sbind_def acceptable_def not_less)
qed

theorem dhcp_offer_expired_at_once_witness:
  "\<exists>s' a. try_add_lease demo_env 1700000000 True OFFER_TIME (replicate 16 2) (htonl 0xc0a84d65) demo_server = (s', Ok (Some a)) \<and>
     check_requested_nip 1700000001 0xc0a84d65 s' = (s', Ok True)"
proof -
  have "acceptable demo_server 0xc0a84d65 (replicate 16 2)"
    by (simp add: acceptable_def demo_server_def MAC_BCAST_ADDR_def MAC_ANY_ADDR_def)
  then obtain s' a where a: "try_add_lease demo_env 1700000000 True OFFER_TIME (replicate 16 2) (htonl 0xc0a84d65) demo_server =
      (s', Ok (Some a))"
    using table.add_done [of demo_env demo_server "0xc0a84d65" "replicate 16 2" True 1700000000 OFFER_TIME] demo_env_ok demo_server_inv
    by blast
  then show ?thesis using dhcp_offer_expired_at_once [OF demo_env_ok demo_server_inv a, of 1700000001] by simp
qed

text \<open>
  C28: What a client puts on the wire is what the handler gets: a request that carries a message type,
  possibly a server identifier and a requested address, is read back from its bytes with these values
  and handed to the handler; one for another server is dropped.
\<close>

theorem listener_event_dispatches:
  assumes "client_request p os" and "map_of os DHCP_MESSAGE_TYPE = Some [type]"
    and "DHCPDISCOVER \<le> type" and "type \<le> DHCPINFORM"
    and "map_of os DHCP_SERVER_ID = map_option put_be32 sid" and "map_of os DHCP_REQUESTED_IP = map_option put_be32 req"
  shows "listener_event E now mem False (Ok (bytes_of_packet p)) s =
    (if sid = None \<or> sid = Some (server_nip s)
     then map_option (\<lambda>(s, r). (s, rbind r (\<lambda>_. Ok True))) (handle_packet E now mem p type (sid \<noteq> None) req s)
     else Some (s, Ok True))"
proof (cases "sid = None \<or> sid = Some (server_nip s)")
  case True
  then show ?thesis using listener_event_client_request [OF assms(1-5) True assms(6), of E now mem] by simp
next
  case False
  then have "get_u32_option p DHCP_SERVER_ID = Some (Ok sid)"
    using get_u32_option_data [OF assms(1), of DHCP_SERVER_ID] assms(5) by (cases sid) auto
  moreover have "type \<noteq> 0" using assms(3) by auto
  ultimately show ?thesis using False check_packet_type_data [OF assms(1-4)]
    by (auto simp: listener_event_def dhcp_recv_client_request [OF assms(1)] scan_def)
qed

theorem listener_event_dispatches_witness:
  "listener_event demo_env 1000 True False (Ok (bytes_of_packet (demo_client 2 DHCPDISCOVER))) demo_leased =
     map_option (\<lambda>(s, r). (s, rbind r (\<lambda>_. Ok True)))
       (handle_packet demo_env 1000 True (demo_client 2 DHCPDISCOVER) DHCPDISCOVER False None demo_leased)"
  using listener_event_dispatches [OF demo_client_request(1) [of DHCPDISCOVER 2], of DHCPDISCOVER None None demo_env 1000 True demo_leased]
  by simp

end
