(* ===== verification/Dhcp_Handshake.thy ===== *)
theory Dhcp_Handshake
  imports Dhcp_Client_Correct Dhcp_Server
begin

text \<open>
  The client and the server together: what one of them sends is what the other one understands, up to
  the full exchange that ends with a lease on both sides.
\<close>

unbundle bit_operations_syntax

subsection \<open>Frames\<close>

lemma ip_udp_frame_parts:
  obtains ck uck where
    "ip_udp_frame q sip sport dip dport =
       [0x45, 0] @ bytes_16 (htons 576) @ [0, 0, 0, 0, 64, 17] @ bytes_16 ck @ bytes_32 sip @ bytes_32 dip @
       bytes_16 (htons sport) @ bytes_16 (htons dport) @ bytes_16 (htons 556) @ bytes_16 uck @ take 548 (bytes_of_packet q)"
    "ck = dhcp_checksum ([0x45, 0] @ bytes_16 (htons 576) @ [0, 0, 0, 0, 64, 17, 0, 0] @ bytes_32 sip @ bytes_32 dip)"
    "uck = dhcp_checksum ([0, 0] @ bytes_16 (htons 556) @ [0, 0, 0, 0, 0, 17, 0, 0] @ bytes_32 sip @ bytes_32 dip @
       bytes_16 (htons sport) @ bytes_16 (htons dport) @ bytes_16 (htons 556) @ [0, 0] @ take 548 (bytes_of_packet q))"
proof -
  have z: "bytes_16 0 = [0, 0]" by (simp add: bytes_16_def)
  show ?thesis by (rule that) (simp_all add: ip_udp_frame_def iphdr_def udphdr_def Let_def z)
qed

lemma l2_frame_roundtrip:
  assumes q: "packet_ok q" "cookie q = htonl DHCP_MAGIC" and old: "length old = 628"
  shows "dhcp_recv_l2_packet (Ok (ip_udp_frame q sip sport dip 68)) old = Ok (sent_part (drop 548 old) q)"
proof -
  obtain ck uck where f: "ip_udp_frame q sip sport dip 68 =
       [0x45, 0] @ bytes_16 (htons 576) @ [0, 0, 0, 0, 64, 17] @ bytes_16 ck @ bytes_32 sip @ bytes_32 dip @
       bytes_16 (htons sport) @ bytes_16 (htons 68) @ bytes_16 (htons 556) @ bytes_16 uck @ take 548 (bytes_of_packet q)"
    and ck: "ck = dhcp_checksum ([0x45, 0] @ bytes_16 (htons 576) @ [0, 0, 0, 0, 64, 17, 0, 0] @ bytes_32 sip @ bytes_32 dip)"
    and uck: "uck = dhcp_checksum ([0, 0] @ bytes_16 (htons 556) @ [0, 0, 0, 0, 0, 17, 0, 0] @ bytes_32 sip @ bytes_32 dip @
       bytes_16 (htons sport) @ bytes_16 (htons 68) @ bytes_16 (htons 556) @ [0, 0] @ take 548 (bytes_of_packet q))"
    by (rule ip_udp_frame_parts [of q sip sport dip 68])
  define data where "data = take 548 (bytes_of_packet q)"
  have ld: "length data = 548" using length_bytes_of_packet [OF q(1)] by (simp add: data_def)
  define fr where "fr = ip_udp_frame q sip sport dip 68"
  define F where "F = take 656 (fr @ replicate 656 0)"
  have F: "F = 0x45 # 0 # bytes_16 (htons 576) @ [0, 0, 0, 0, 64, 17] @ bytes_16 ck @ bytes_32 sip @ bytes_32 dip @
       bytes_16 (htons sport) @ bytes_16 (htons 68) @ bytes_16 (htons 556) @ bytes_16 uck @ data @ replicate 80 0"
    using ld by (simp add: F_def fr_def f data_def [symmetric])
  have lfr: "length fr = 576" using ld by (simp add: fr_def f data_def [symmetric])
  have parts: "take 2 (drop 2 F) = bytes_16 (htons 576)" "F ! 0 = 0x45" "F ! 9 = 17" "take 2 (drop 10 F) = bytes_16 ck"
    "take 2 (drop 22 F) = bytes_16 (htons 68)" "take 2 (drop 24 F) = bytes_16 (htons 556)" "take 2 (drop 26 F) = bytes_16 uck"
    "take 10 F = 0x45 # 0 # bytes_16 (htons 576) @ [0, 0, 0, 0, 64, 17]" "take 8 (drop 12 F) = bytes_32 sip @ bytes_32 dip"
    "take 6 (drop 20 F) = bytes_16 (htons sport) @ bytes_16 (htons 68) @ bytes_16 (htons 556)" "drop 28 F = data @ replicate 80 0"
    by (simp_all add: F nth_append numeral_2_eq_2 numeral_3_eq_3)
  have n: "min (length fr) 656 = 576" "unat (ntohs (htons 576)) = 576" using lfr by simp_all
  have sane: "sanity_check F 576" by (simp add: sanity_check_def parts)
  have ipsum: "dhcp_checksum (take 10 F @ [0, 0] @ take 8 (drop 12 F)) = ck" by (simp add: parts ck)
  have udpsum: "dhcp_checksum (take 576 (replicate 2 0 @ bytes_16 (htons 556) @ replicate 5 0 @ [F ! 9] @ [0, 0] @ take 8 (drop 12 F) @
      take 6 (drop 20 F) @ [0, 0] @ drop 28 F)) = uck"
  proof -
    have "replicate 2 (0 :: u8) = [0, 0]" "replicate 5 (0 :: u8) = [0, 0, 0, 0, 0]" by (simp_all add: numeral_eq_Suc)
    then show ?thesis using ld by (simp add: parts uck data_def [symmetric])
  qed
  have copy: "memcpy old 0 F 28 548 = Ok (data @ drop 548 old)"
    using old ld by (subst memcpy_Ok) (simp_all add: F parts)
  have "packet_of_bytes (data @ drop 548 old) = sent_part (drop 548 old) q"
    using bytes_of_sent_part [OF q(1), of "drop 548 old"] packet_of_bytes_of_packet [of "sent_part (drop 548 old) q"] q(1) old
    by (simp add: data_def sent_part_def packet_ok_def)
  then show ?thesis
    unfolding dhcp_recv_l2_packet_def fr_def [symmetric] rbind.simps Let_def F_def [symmetric] parts(1,4,6,7)
      word_16_bytes n udpsum ipsum
    using q(2) copy by (simp add: sane sent_part_def)
qed

subsection \<open>From the client to the server\<close>

text \<open>The options of a client's message behind the ones given by the protocol do not hide any of them.\<close>

lemma client_message_request:
  assumes m: "client_message c os p" and codes: "fst ` set os \<subseteq> {DHCP_MESSAGE_TYPE, DHCP_REQUESTED_IP, DHCP_SERVER_ID, DHCP_MAX_SIZE}"
  obtains ps where "client_request (sent_part (replicate 80 0) p) (os @ ps)"
    "\<And>k. k \<in> {DHCP_MESSAGE_TYPE, DHCP_REQUESTED_IP, DHCP_SERVER_ID} \<Longrightarrow> map_of (os @ ps) k = map_of os k"
proof -
  obtain sent where s: "has_opts p (os @ request_opts c @ sent)" "fst ` set sent \<subseteq> {0x0c, 0x3d}"
      "length (enc_opts (os @ request_opts c @ sent)) < 308"
    using m by (auto simp: client_message_def)
  let ?ps = "request_opts c @ sent"
  have keys: "fst ` set ?ps \<subseteq> {DHCP_PARAM_REQ, 0x0c, 0x3d}" using s(2) by (auto simp: request_opts_def)
  have none: "map_of ?ps k = None" if "k \<notin> {DHCP_PARAM_REQ, 0x0c, 0x3d}" for k
    using keys that by (simp only: map_of_eq_None_iff) blast
  then have look: "map_of (os @ ?ps) k = map_of os k" if "k \<notin> {DHCP_PARAM_REQ, 0x0c, 0x3d}" for k
    unfolding map_of_append [of os ?ps] map_add_def none [OF that] by (simp split: option.splits)
  have all: "fst ` set (os @ ?ps) \<subseteq> {DHCP_MESSAGE_TYPE, DHCP_REQUESTED_IP, DHCP_SERVER_ID, DHCP_MAX_SIZE, DHCP_PARAM_REQ, 0x0c, 0x3d}"
    using keys codes by (auto simp only: set_append image_Un)
  have "has_opts (sent_part (replicate 80 0) p) (os @ ?ps)"
    by (rule sent_part_opts [OF s(1,3)]) simp
  moreover have "\<forall>ov\<in>set (os @ ?ps). fst ov \<noteq> DHCP_OPTION_OVERLOAD" using all by fastforce
  moreover have "map_of (os @ ?ps) DHCP_VENDOR = None" using all by (simp only: map_of_eq_None_iff) fastforce
  ultimately have "client_request (sent_part (replicate 80 0) p) (os @ ?ps)"
    using m by (simp add: client_request_def client_message_def sent_part_def)
  then show ?thesis by (rule that) (rule look, auto)
qed

lemma server_hears_client:
  assumes m: "client_message c os p" and codes: "fst ` set os \<subseteq> {DHCP_MESSAGE_TYPE, DHCP_REQUESTED_IP, DHCP_SERVER_ID, DHCP_MAX_SIZE}"
    and type: "map_of os DHCP_MESSAGE_TYPE = Some [type]" "DHCPDISCOVER \<le> type" "type \<le> DHCPINFORM"
    and sid: "map_of os DHCP_SERVER_ID = map_option put_be32 sid" "sid = None \<or> sid = Some (server_nip s)"
    and req: "map_of os DHCP_REQUESTED_IP = map_option put_be32 req"
  shows "listener_event S now mem False (Ok (take 548 (bytes_of_packet p))) s =
    map_option (\<lambda>(s, r). (s, rbind r (\<lambda>_. Ok True)))
      (handle_packet S now mem (sent_part (replicate 80 0) p) type (sid \<noteq> None) req s)"
proof -
  let ?p = "sent_part (replicate 80 0) p"
  obtain ps where ps: "client_request ?p (os @ ps)"
      "\<And>k. k \<in> {DHCP_MESSAGE_TYPE, DHCP_REQUESTED_IP, DHCP_SERVER_ID} \<Longrightarrow> map_of (os @ ps) k = map_of os k"
    using client_message_request [OF m codes] by blast
  have ok: "packet_ok p" using m by (auto simp: client_message_def has_opts_def)
  have "packet_ok ?p" using ok by (simp add: packet_ok_def sent_part_def)
  then have "dhcp_recv_l3_packet (Ok (take 548 (bytes_of_packet p))) = dhcp_recv_l3_packet (Ok (bytes_of_packet ?p))"
    by (simp add: dhcp_recv_l3_packet_def packet_of_sent_bytes [OF ok] packet_of_bytes_of_packet)
  then have "listener_event S now mem False (Ok (take 548 (bytes_of_packet p))) s = listener_event S now mem False (Ok (bytes_of_packet ?p)) s"
    by (simp only: listener_event_def)
  also have "\<dots> = map_option (\<lambda>(s, r). (s, rbind r (\<lambda>_. Ok True))) (handle_packet S now mem ?p type (sid \<noteq> None) req s)"
    by (rule listener_event_client_request [OF ps(1)]) (use ps(2) type sid req in simp_all)
  finally show ?thesis .
qed

subsection \<open>From the server to the client\<close>

lemma short_opts_codes: "short_opts os \<Longrightarrow> \<forall>ov\<in>set os. fst ov \<noteq> DHCP_OPTION_OVERLOAD"
  by (auto simp: short_opts_def)

lemma client_hears_server:
  assumes r: "reply s d type q" and d: "xid d = client_xid c" "take 6 (chaddr d) = take 6 (mac_address c)"
    and c: "listen_mode c = L2" and old: "length old = 628"
  shows "client_listener_event E False (Ok (ip_udp_frame q sip sport dip 68)) old c =
    map_option (\<lambda>(c, r). (c, rbind r (\<lambda>_. Ok True))) (client_handle E (sent_part (drop 548 old) q) type c)"
proof -
  let ?q = "sent_part (drop 548 old) q"
  obtain os where os: "has_opts q ((DHCP_MESSAGE_TYPE, [type]) # (DHCP_SERVER_ID, put_be32 (server_nip s)) # os)" "short_opts os"
    using r by (auto simp: reply_def)
  let ?os = "(DHCP_MESSAGE_TYPE, [type]) # (DHCP_SERVER_ID, put_be32 (server_nip s)) # os"
  have h: "has_opts ?q ?os" by (rule sent_part_opts [OF os(1)]) (use os(2) old in \<open>simp_all add: short_opts_def\<close>)
  have "packet_ok q" "cookie q = htonl DHCP_MAGIC" using r os(1) by (auto simp: reply_def has_opts_def)
  note l2 = l2_frame_roundtrip [OF this old, of sip sport dip]
  have over: "\<forall>ov\<in>set ?os. fst ov \<noteq> DHCP_OPTION_OVERLOAD" using short_opts_codes [OF os(2)] by simp
  obtain a where "dhcp_get_option ?q DHCP_MESSAGE_TYPE = Some (Ok (Some a))" "mem_read (opt_mem ?q) a = Ok type"
    by (rule message_type_enc [OF h over]) simp
  moreover have "check_package_owner c ?q"
    using r d by (simp add: check_package_owner_def reply_def sent_part_def)
  ultimately show ?thesis using c by (simp add: client_listener_event_def l2 scan_def)
qed

lemma reply_server_id:
  assumes r: "reply s d type q" and old: "length rest = 80"
  shows "get_u32_option (sent_part rest q) DHCP_SERVER_ID = Some (Ok (Some (server_nip s)))"
proof -
  obtain os where os: "has_opts q ((DHCP_MESSAGE_TYPE, [type]) # (DHCP_SERVER_ID, put_be32 (server_nip s)) # os)" "short_opts os"
    using r by (auto simp: reply_def)
  let ?os = "(DHCP_MESSAGE_TYPE, [type]) # (DHCP_SERVER_ID, put_be32 (server_nip s)) # os"
  have h: "has_opts (sent_part rest q) ?os" by (rule sent_part_opts [OF os(1)]) (use os(2) old in \<open>simp_all add: short_opts_def\<close>)
  show ?thesis by (rule get_u32_option_enc(2) [OF h]) (use short_opts_codes [OF os(2)] in simp_all)
qed

subsection \<open>The client's answers\<close>

lemma client_message_cong:
  "client_xid c' = client_xid c \<Longrightarrow> mac_address c' = mac_address c \<Longrightarrow> request_list c' = request_list c \<Longrightarrow>
     client_message c os p = client_message c' os p"
  by (simp add: client_message_def request_opts_def)

lemma stay_listening: "listen_mode c = mode \<Longrightarrow> ignore (switch_listening_mode E mode) c = (c, Ok ())"
  by (simp add: ignore_def switch_listening_mode_def)

lemma client_takes_offer:
  assumes c: "client_ok c" "cstate c = INIT_SELECTING" "listen_mode c = L2"
    and sid: "get_u32_option p DHCP_SERVER_ID = Some (Ok (Some ip))"
  obtains c2 r where "client_handle E p DHCPOFFER c = Some (c2, Ok ())" "outputs c2 = outputs c @ [Sent_raw r]"
    "client_message c2 [(DHCP_MESSAGE_TYPE, [DHCPREQUEST]), (DHCP_REQUESTED_IP, put_be32 (ntohl (yiaddr p))), (DHCP_SERVER_ID, put_be32 ip)] r"
    "client_ok c2" "cstate c2 = REQUESTING" "listen_mode c2 = L2" "same_client c c2" "client_xid c2 = client_xid c"
    "sources c2 = [timeout c2 \<mapsto> (request_timeout, 3000)]"
proof -
  let ?c = "c\<lparr>sources := (sources c)(timeout c := None), timeout := 0, retry_times := 0, server_ip := ip,
    requested_ip := ntohl (yiaddr p), cstate := REQUESTING\<rparr>"
  have "timer_free 0 (c\<lparr>sources := (sources c)(timeout c := None)\<rparr>)" using c(1) by (simp add: client_ok_def timer_removed)
  from timer_free_empty [OF this] have none: "(sources c)(timeout c := None) = Map.empty" by simp
  have cf: "config_ok ?c" using c(1) by (simp add: client_ok_def timer_inv_def config_ok_def)
  obtain r where r: "select_packet E ?c = Ok r"
      "client_message ?c [(DHCP_MESSAGE_TYPE, [DHCPREQUEST]), (DHCP_REQUESTED_IP, put_be32 (requested_ip ?c)), (DHCP_SERVER_ID, put_be32 (server_ip ?c))] r"
    by (rule select_packet_spec [OF cf, of E])
  let ?c2 = "armed request_timeout 3000 (?c\<lparr>outputs := outputs c @ [Sent_raw r]\<rparr>)"
  have send: "ignore (send_select E) ?c = (?c\<lparr>outputs := outputs c @ [Sent_raw r]\<rparr>, Ok ())"
    using r(1) by (simp add: send_select_def sbind_def emit_def ignore_def)
  have handle: "handle_offer E p (Some ip) c = (?c2, Ok ())"
    using c(3) by (simp add: handle_offer_def g_source_remove_def start_request_def stay_listening sbind_Ok send)
  then have h: "client_handle E p DHCPOFFER c = Some (?c2, Ok ())"
    using c(2) sid by (simp add: client_handle_def scan_def)
  have ok: "client_ok ?c2" by (rule client_handle_ok [OF h c(1)])
  have m: "client_message ?c2 [(DHCP_MESSAGE_TYPE, [DHCPREQUEST]), (DHCP_REQUESTED_IP, put_be32 (ntohl (yiaddr p))), (DHCP_SERVER_ID, put_be32 ip)] r"
    by (rule client_message_cong [THEN iffD1, OF _ _ _ r(2) [simplified]]) (simp_all add: armed_def)
  show ?thesis
    by (rule that [OF h _ m ok]) (use c none in \<open>simp_all add: armed_def same_client_def\<close>)
qed

lemma close_listening:
  "ignore (switch_listening_mode E L_NONE) c = (c\<lparr>listen_mode := L_NONE, watched := (listen_mode c = L_NONE \<and> watched c)\<rparr>, Ok ())"
  by (cases c) (simp add: ignore_def switch_listening_mode_def)

lemma client_takes_ack:
  assumes c: "client_ok c" "cstate c = REQUESTING"
    and lease: "client_get_lease p = Some (Ok ls)" and vals: "get_request p (request_list c) (code_value_hash c) = Some (Ok vs)"
  obtains c3 where "client_handle E p DHCPACK c = Some (c3, Ok ())" "cstate c3 = BOUND" "assigned_ip c3 = Some (yiaddr p)"
    "client_lease_seconds c3 = ls" "code_value_hash c3 = vs" "listen_mode c3 = L_NONE"
    "sources c3 = [timeout c3 \<mapsto> (start_renew_timeout, 1000 * unat (drop_bit 1 ls))]"
    "outputs c3 = outputs c @ (if registered c LEASE_AVAILABLE then [Notify LEASE_AVAILABLE] else [])"
proof -
  let ?s = "if timeout c > 0 then (sources c)(timeout c := None) else sources c"
  have "timer_free 0 (c\<lparr>sources := ?s\<rparr>)"
    using c(1) by (auto simp: client_ok_def timer_removed timer_zero)
  from timer_free_empty [OF this] have none: "?s = Map.empty" by simp
  let ?c1 = "c\<lparr>retry_times := 0, sources := ?s, timeout := 0, client_lease_seconds := ls, code_value_hash := vs,
    listen_mode := L_NONE, watched := (listen_mode c = L_NONE \<and> watched c), assigned_ip := Some (yiaddr p),
    outputs := outputs c @ (if registered c LEASE_AVAILABLE then [Notify LEASE_AVAILABLE] else []), cstate := BOUND\<rparr>"
  let ?c3 = "armed start_renew_timeout (1000 * unat (drop_bit 1 ls)) ?c1"
  have "handle_ack E p ls vs c = (?c3, Ok ())"
    by (simp add: handle_ack_def remove_timeout_def g_source_remove_def close_listening notify_def start_bound_def sbind_Ok
      sbind_assoc)
  then have "client_handle E p DHCPACK c = Some (?c3, Ok ())"
    using c(2) lease vals by (simp add: client_handle_def scan_def)
  then show ?thesis by (rule that) (use none in \<open>simp_all add: armed_def\<close>)
qed

text \<open>What the client reads from an acknowledgement.\<close>

definition lease_of :: "u32 \<Rightarrow> u32" where
  "lease_of s = (let l = s AND 0x0fffffff in if l < 10 then 10 else l)"

lemma ack_lease:
  assumes r: "reply s d type q" and t: "timed s type q" and rest: "length rest = 80"
  shows "client_get_lease (sent_part rest q) = Some (Ok (lease_of (lease_seconds s)))"
proof -
  let ?hd = "\<lambda>os. (DHCP_MESSAGE_TYPE, [type]) # (DHCP_SERVER_ID, put_be32 (server_nip s)) # os"
  obtain os where os: "has_opts q (?hd os)" "short_opts os"
    using r by (auto simp: reply_def)
  obtain ps where ps: "has_opts q (?hd ((DHCP_LEASE_TIME, put_be32 (lease_seconds s)) # ps))"
    using t by (auto simp: timed_def)
  have os': "os = (DHCP_LEASE_TIME, put_be32 (lease_seconds s)) # ps"
    using has_opts_unique [OF os(1) ps] by simp
  have h: "has_opts (sent_part rest q) (?hd os)" by (rule sent_part_opts [OF os(1)]) (use os(2) rest in \<open>simp_all add: short_opts_def\<close>)
  have "get_u32_option (sent_part rest q) DHCP_LEASE_TIME = Some (Ok (Some (lease_seconds s)))"
    by (rule get_u32_option_enc(2) [OF h]) (use short_opts_codes [OF os(2)] in \<open>simp_all add: os'\<close>)
  then show ?thesis by (simp add: client_get_lease_def lease_of_def)
qed

lemma get_request_reply:
  assumes r: "reply s d type q" and rest: "length rest = 80" and cs: "set cs \<subseteq> {0x01, 0x03, 0x06}"
  shows "\<exists>vs. get_request (sent_part rest q) cs hash = Some (Ok vs)"
proof -
  let ?q = "sent_part rest q"
  obtain os where os: "has_opts q ((DHCP_MESSAGE_TYPE, [type]) # (DHCP_SERVER_ID, put_be32 (server_nip s)) # os)" "short_opts os"
    using r by (auto simp: reply_def)
  let ?os = "(DHCP_MESSAGE_TYPE, [type]) # (DHCP_SERVER_ID, put_be32 (server_nip s)) # os"
  have h: "has_opts ?q ?os" by (rule sent_part_opts [OF os(1)]) (use os(2) rest in \<open>simp_all add: short_opts_def\<close>)
  have over: "\<forall>ov\<in>set ?os. fst ov \<noteq> DHCP_OPTION_OVERLOAD" using short_opts_codes [OF os(2)] by simp
  have one: "dhcp_get_option ?q code = Some (Ok None) \<or>
      (\<exists>a v. dhcp_get_option ?q code = Some (Ok (Some a)) \<and> option_values (opt_mem ?q) a (dhcp_get_code_type code) = Ok v)"
    if "code \<in> {0x01, 0x03, 0x06}" for code :: u8
  proof (cases "map_of ?os code")
    case None
    then show ?thesis using dhcp_get_option_data [OF h over, of code] by simp
  next
    case (Some d)
    have ip: "fst (dhcp_get_code_type code) = OPTION_IP"
    proof -
      have "list_all (\<lambda>code. fst (dhcp_get_code_type code) = OPTION_IP) [0x01, 0x03, 0x06]" by code_simp
      then show ?thesis using that by auto
    qed
    have "(code, d) \<in> set os" using map_of_SomeD [OF Some] that by auto
    then obtain v where d: "d = put_be32 v" using os(2) by (fastforce simp: short_opts_def)
    obtain pre post where s: "opt_mem ?q = pre @ d @ post" "dhcp_get_option ?q code = Some (Ok (Some (length pre)))"
        "mem_read (opt_mem ?q) (length pre - 1) = Ok (of_nat (length d))"
      by (rule dhcp_get_option_split [OF h over Some])
    have "option_values (opt_mem ?q) (length pre) (OPTION_IP, snd (dhcp_get_code_type code)) = Ok (Some (map snd [(d, sprint_nip d)]))"
      by (rule option_values_items) (use s d item_ip in auto)
    then show ?thesis using s(2) ip by (metis prod.collapse)
  qed
  show ?thesis using cs
  proof (induction cs arbitrary: hash)
    case (Cons c cs)
    then have "ucast c \<in> {0x01, 0x03, 0x06 :: u8}" by auto
    from one [OF this] Cons show ?case by (auto simp: Let_def)
  qed simp
qed

subsection \<open>The exchange\<close>

lemma client_message_fields:
  assumes "client_message c os p" and "length (mac_address c) = 6"
  shows "xid (sent_part rest p) = client_xid c" "take 6 (chaddr (sent_part rest p)) = mac_address c"
    "length rest = 80 \<Longrightarrow> packet_ok (sent_part rest p)"
  using assms by (auto simp: client_message_def sent_part_def has_opts_def packet_ok_def)

lemma server_offers_client:
  assumes d: "is_discover c (Sent_raw d)" "length (mac_address c) = 6"
    and s: "env_ok S" "lease_inv s" "aged s" "end_ip s \<noteq> 0xffffffff" "start_ip s \<noteq> 0"
      "\<forall>k\<in>leases s. start_ip s \<le> lease_nip k \<and> lease_nip k \<le> end_ip s"
    and mac: "mac_address c \<noteq> MAC_BCAST_ADDR" "mac_address c \<noteq> MAC_ANY_ADDR"
    and free: "\<exists>n. start_ip s \<le> n \<and> n \<le> end_ip s \<and> usable n \<and> (\<forall>k\<in>leases s. lease_nip k \<noteq> n)"
  obtains s1 q d1 nip d' k where "listener_event S now True False (Ok (take 548 (bytes_of_packet d))) s = Some (s1, Ok True)"
    "sent s1 = sent s @ [(q, server_nip s, d1)]" "reply s d' DHCPOFFER q" "xid d' = client_xid c" "take 6 (chaddr d') = mac_address c"
    "yiaddr q = htonl nip" "start_ip s \<le> nip" "nip \<le> end_ip s" "k \<in> leases s1" "lease_mac k = mac_address c" "lease_nip k = nip"
    "lease_inv s1" "frame s (s1\<lparr>sent := sent s\<rparr>)" "acceptable s nip (mac_address c)"
proof -
  obtain a where m: "client_message c ((DHCP_MESSAGE_TYPE, [DHCPDISCOVER]) # (if a \<noteq> 0 then [(DHCP_REQUESTED_IP, put_be32 a)] else []) @
      [(DHCP_MAX_SIZE, put_be16 576)]) d"
    using d(1) by (auto simp: is_discover_def)
  let ?d = "sent_part (replicate 80 0) d" and ?req = "if a \<noteq> 0 then Some a else None"
  note f = client_message_fields [OF m d(2), of "replicate 80 0"]
  have hear: "listener_event S now True False (Ok (take 548 (bytes_of_packet d))) s =
      map_option (\<lambda>(s, r). (s, rbind r (\<lambda>_. Ok True))) (handle_packet S now True ?d DHCPDISCOVER False ?req s)"
    using server_hears_client [OF m, where sid = None and type = DHCPDISCOVER and req = ?req] by (auto split: if_splits)
  have "\<exists>s1 q nip. handle_packet S now True ?d DHCPDISCOVER False ?req s = Some (s1, Ok ()) \<and>
    sent s1 = sent s @ [(q, server_nip s, dest q)] \<and> reply s ?d DHCPOFFER q \<and> yiaddr q = htonl nip \<and>
    start_ip s \<le> nip \<and> nip \<le> end_ip s \<and> (\<exists>k\<in>leases s1. lease_mac k = take 6 (chaddr ?d) \<and> lease_nip k = nip) \<and>
    good s now (chaddr ?d) s1 \<and> acceptable s nip (chaddr ?d)"
    by (rule server_offers) (use s mac free f in simp_all)
  then obtain s1 q nip where o: "handle_packet S now True ?d DHCPDISCOVER False ?req s = Some (s1, Ok ())"
    "sent s1 = sent s @ [(q, server_nip s, dest q)]" "reply s ?d DHCPOFFER q" "yiaddr q = htonl nip"
    "start_ip s \<le> nip" "nip \<le> end_ip s" "\<exists>k\<in>leases s1. lease_mac k = take 6 (chaddr ?d) \<and> lease_nip k = nip"
    "good s now (chaddr ?d) s1" "acceptable s nip (chaddr ?d)" by blast
  obtain k where k: "k \<in> leases s1" "lease_mac k = mac_address c" "lease_nip k = nip" using o(7) f(2) by auto
  have "acceptable s nip (mac_address c)" using o(9) f(2) d(2) by (simp add: acceptable_def)
  then show ?thesis
    using o(8) by (intro that [OF _ o(2,3) f(1,2) o(4-6) k]) (simp_all add: hear o(1) good_def)
qed

lemma server_acks_client:
  assumes m: "client_message c [(DHCP_MESSAGE_TYPE, [DHCPREQUEST]), (DHCP_REQUESTED_IP, put_be32 (lease_nip k)), (DHCP_SERVER_ID, put_be32 (server_nip s))] r"
      "length (mac_address c) = 6"
    and s: "env_ok S" "lease_inv s" "k \<in> leases s" "lease_mac k = mac_address c" "acceptable s (lease_nip k) (mac_address c)"
  obtains s2 q d2 d' where "listener_event S now True False (Ok (take 548 (bytes_of_packet r))) s = Some (s2, Ok True)"
    "sent s2 = sent s @ [(q, server_nip s, d2)]" "reply s d' DHCPACK q" "xid d' = client_xid c" "take 6 (chaddr d') = mac_address c"
    "yiaddr q = htonl (lease_nip k)" "timed s DHCPACK q" "k\<lparr>expire := now + int (unat (lease_seconds s))\<rparr> \<in> leases s2"
proof -
  let ?r = "sent_part (replicate 80 0) r"
  note f = client_message_fields [OF m, of "replicate 80 0"]
  have hear: "listener_event S now True False (Ok (take 548 (bytes_of_packet r))) s =
      map_option (\<lambda>(s, r). (s, rbind r (\<lambda>_. Ok True)))
        (handle_packet S now True ?r DHCPREQUEST True (Some (lease_nip k)) s)"
    using server_hears_client [OF m(1), where sid = "Some (server_nip s)" and type = DHCPREQUEST and req = "Some (lease_nip k)"] by auto
  have "\<exists>s2 q. handle_packet S now True ?r DHCPREQUEST True (Some (lease_nip k)) s = Some (s2, Ok ()) \<and>
    sent s2 = sent s @ [(q, server_nip s, dest q)] \<and> reply s ?r DHCPACK q \<and> yiaddr q = htonl (lease_nip k) \<and>
    leases s2 = insert (k\<lparr>expire := now + int (unat (lease_seconds s))\<rparr>) (leases s - {k}) \<and>
    good s now (chaddr ?r) s2 \<and> timed s DHCPACK q"
    by (rule server_acks) (use s m(2) f in \<open>simp_all add: acceptable_def\<close>)
  then obtain s2 q where a: "handle_packet S now True ?r DHCPREQUEST True (Some (lease_nip k)) s = Some (s2, Ok ())"
    "sent s2 = sent s @ [(q, server_nip s, dest q)]" "reply s ?r DHCPACK q" "yiaddr q = htonl (lease_nip k)" "timed s DHCPACK q"
    "leases s2 = insert (k\<lparr>expire := now + int (unat (lease_seconds s))\<rparr>) (leases s - {k})" by blast
  show ?thesis by (rule that [OF _ a(2,3) f(1,2) a(4,5)]) (simp_all add: hear a)
qed

text \<open>
  C5: Client and server agree. When a client that requests at most the subnet mask, the routers and the
  name servers is started and every message reaches the other side, four messages give it a lease: the
  server receives the DISCOVER, the client its offer, the server the REQUEST, the client the
  acknowledgement. Then the client is bound to an address of the server's range, the server's lease table
  holds this address for it until the lease time is over, and the client will renew at half the time.
\<close>

theorem dhcp_handshake:
  assumes "timer_free 0 c" and "ctype c = G_DHCP_IPV4" and "retry_times c = 0" and "c_open E0 L2"
    and "set (request_list c) \<subseteq> {0x01, 0x03, 0x06}" and "registered c LEASE_AVAILABLE"
    and "env_ok S" and "lease_inv s" and "aged s" and "end_ip s \<noteq> 0xffffffff" and "start_ip s \<noteq> 0"
    and "\<forall>k\<in>leases s. start_ip s \<le> lease_nip k \<and> lease_nip k \<le> end_ip s"
    and "mac_address c \<noteq> MAC_BCAST_ADDR" and "mac_address c \<noteq> MAC_ANY_ADDR"
    and "\<exists>n. start_ip s \<le> n \<and> n \<le> end_ip s \<and> usable n \<and> (\<forall>k\<in>leases s. lease_nip k \<noteq> n)"
    and "length old1 = 628" and "length old2 = 628"
  shows "\<exists>c1 d s1 q1 d1 c2 r s2 q2 d2 c3 nip.
    g_dhcp_client_start E0 l c = (c1, Ok ()) \<and> outputs c1 = outputs c @ [Sent_raw d] \<and>
    listener_event S now1 True False (Ok (take 548 (bytes_of_packet d))) s = Some (s1, Ok True) \<and>
    sent s1 = sent s @ [(q1, server_nip s, d1)] \<and>
    client_listener_event E1 False (Ok (ip_udp_frame q1 (server_nip s) 67 (fst d1) 68)) old1 c1 = Some (c2, Ok True) \<and>
    outputs c2 = outputs c1 @ [Sent_raw r] \<and>
    listener_event S now2 True False (Ok (take 548 (bytes_of_packet r))) s1 = Some (s2, Ok True) \<and>
    sent s2 = sent s1 @ [(q2, server_nip s, d2)] \<and>
    client_listener_event E2 False (Ok (ip_udp_frame q2 (server_nip s) 67 (fst d2) 68)) old2 c2 = Some (c3, Ok True) \<and>
    outputs c3 = outputs c2 @ [Notify LEASE_AVAILABLE] \<and> cstate c3 = BOUND \<and> assigned_ip c3 = Some (htonl nip) \<and>
    start_ip s \<le> nip \<and> nip \<le> end_ip s \<and>
    \<lparr>expire = now2 + int (unat (lease_seconds s)), lease_nip = nip, lease_mac = mac_address c\<rparr> \<in> leases s2 \<and>
    client_lease_seconds c3 = lease_of (lease_seconds s) \<and>
    sources c3 = [timeout c3 \<mapsto> (start_renew_timeout, 1000 * unat (drop_bit 1 (lease_of (lease_seconds s))))]"
proof -
  obtain c1 d where c1: "g_dhcp_client_start E0 l c = (c1, Ok ())" "outputs c1 = outputs c @ [Sent_raw d]" "is_discover c1 (Sent_raw d)"
    "client_ok c1" "cstate c1 = INIT_SELECTING" "listen_mode c1 = L2" "same_client c c1"
    by (rule client_starts [OF assms(1-4), where l = l])
  note same1 = c1(7) [unfolded same_client_def]
  have mac: "length (mac_address c1) = 6" "mac_address c1 = mac_address c"
    using c1(4) same1 by (auto simp: client_ok_def timer_inv_def config_ok_def)
  obtain s1 q1 d1 nip d' k where s1: "listener_event S now1 True False (Ok (take 548 (bytes_of_packet d))) s = Some (s1, Ok True)"
    "sent s1 = sent s @ [(q1, server_nip s, d1)]" "reply s d' DHCPOFFER q1" "xid d' = client_xid c1" "take 6 (chaddr d') = mac_address c1"
    "yiaddr q1 = htonl nip" "start_ip s \<le> nip" "nip \<le> end_ip s" "k \<in> leases s1" "lease_mac k = mac_address c1" "lease_nip k = nip"
    "lease_inv s1" "frame s (s1\<lparr>sent := sent s\<rparr>)" "acceptable s nip (mac_address c1)"
    by (rule server_offers_client [OF c1(3) mac(1) assms(7-12), where ?now = now1]) (use assms(13-15) mac in auto)
  have f: "server_nip s1 = server_nip s" "lease_seconds s1 = lease_seconds s" "acceptable s1 (lease_nip k) (mac_address c1)"
    using s1(11,13,14) by (simp_all add: frame_def acceptable_def)
  let ?p1 = "sent_part (drop 548 old1) q1"
  obtain c2 r where c2: "client_handle E1 ?p1 DHCPOFFER c1 = Some (c2, Ok ())" "outputs c2 = outputs c1 @ [Sent_raw r]"
    "client_message c2 [(DHCP_MESSAGE_TYPE, [DHCPREQUEST]), (DHCP_REQUESTED_IP, put_be32 (ntohl (yiaddr ?p1))), (DHCP_SERVER_ID, put_be32 (server_nip s))] r"
    "client_ok c2" "cstate c2 = REQUESTING" "listen_mode c2 = L2" "same_client c1 c2" "client_xid c2 = client_xid c1"
    by (rule client_takes_offer [OF c1(4-6) reply_server_id [OF s1(3)], of "drop 548 old1" E1]) (use assms(16) in simp_all)
  note same2 = c2(7) [unfolded same_client_def]
  have nip: "ntohl (yiaddr ?p1) = lease_nip k" using s1(6,11) by (simp add: sent_part_def)
  have hear1: "client_listener_event E1 False (Ok (ip_udp_frame q1 (server_nip s) 67 (fst d1) 68)) old1 c1 = Some (c2, Ok True)"
    using client_hears_server [OF s1(3) s1(4) _ c1(6) assms(16)] s1(5) mac(1) c2(1) by simp
  obtain s2 q2 d2 d'' where s2: "listener_event S now2 True False (Ok (take 548 (bytes_of_packet r))) s1 = Some (s2, Ok True)"
    "sent s2 = sent s1 @ [(q2, server_nip s1, d2)]" "reply s1 d'' DHCPACK q2" "xid d'' = client_xid c2" "take 6 (chaddr d'') = mac_address c2"
    "yiaddr q2 = htonl (lease_nip k)" "timed s1 DHCPACK q2" "k\<lparr>expire := now2 + int (unat (lease_seconds s1))\<rparr> \<in> leases s2"
    by (rule server_acks_client [where c = c2 and r = r and s = s1 and k = k and S = S and now = now2])
      (use c2(3) nip f mac s1(9,10,12) same2 assms(7) in simp_all)
  let ?p2 = "sent_part (drop 548 old2) q2"
  have "\<exists>vs. get_request ?p2 (request_list c2) (code_value_hash c2) = Some (Ok vs)"
    by (rule get_request_reply [OF s2(3)]) (use assms(5,17) same1 same2 in simp_all)
  then obtain vs where vs: "get_request ?p2 (request_list c2) (code_value_hash c2) = Some (Ok vs)" by blast
  have ls: "client_get_lease ?p2 = Some (Ok (lease_of (lease_seconds s)))"
    using ack_lease [OF s2(3,7), of "drop 548 old2"] assms(17) f(2) by simp
  obtain c3 where c3: "client_handle E2 ?p2 DHCPACK c2 = Some (c3, Ok ())" "cstate c3 = BOUND" "assigned_ip c3 = Some (yiaddr ?p2)"
    "client_lease_seconds c3 = lease_of (lease_seconds s)"
    "sources c3 = [timeout c3 \<mapsto> (start_renew_timeout, 1000 * unat (drop_bit 1 (lease_of (lease_seconds s))))]"
    "outputs c3 = outputs c2 @ (if registered c2 LEASE_AVAILABLE then [Notify LEASE_AVAILABLE] else [])"
    by (rule client_takes_ack [OF c2(4,5) ls vs, of E2])
  have hear2: "client_listener_event E2 False (Ok (ip_udp_frame q2 (server_nip s) 67 (fst d2) 68)) old2 c2 = Some (c3, Ok True)"
    using client_hears_server [OF s2(3) s2(4) _ c2(6) assms(17)] s2(5) mac(1) same2 c3(1) by simp
  have "k\<lparr>expire := now2 + int (unat (lease_seconds s))\<rparr> =
      \<lparr>expire = now2 + int (unat (lease_seconds s)), lease_nip = nip, lease_mac = mac_address c\<rparr>"
    using s1(10,11) mac(2) by (cases k) simp
  then show ?thesis
    using c1(1,2) s1(1,2,7,8) hear1 c2(2) s2(1,2,8) f(1,2) hear2 c3 same1 same2 assms(6) s1(11)
    by (intro exI conjI) (assumption | simp add: sent_part_def s2(6))+
qed

definition demo_asks :: GDHCPClient where
  "demo_asks = fst (g_dhcp_client_register_event LEASE_AVAILABLE True demo_dhcp)"

lemma demo_asks_ok: "timer_free 0 demo_asks" "mac_address demo_asks = [2, 0, 0, 0, 0, 7]" "request_list demo_asks = []"
  "ctype demo_asks = G_DHCP_IPV4" "retry_times demo_asks = 0" "registered demo_asks LEASE_AVAILABLE"
proof -
  have "client_ok demo_asks" unfolding demo_asks_def
    using client_step_ok [of demo_dhcp "Registers LEASE_AVAILABLE True"] client_new_timers [OF demo_dhcp_new] by simp
  then show "timer_free 0 demo_asks"
    by (simp add: demo_asks_def client_ok_def timer_free_def g_dhcp_client_register_event_def demo_dhcp_def g_dhcp_client_new_def)
qed (simp_all add: demo_asks_def g_dhcp_client_register_event_def demo_dhcp_def g_dhcp_client_new_def)

lemma demo_server_simps: "end_ip demo_server \<noteq> 0xffffffff" "end_ip demo_server \<noteq> - 1" "start_ip demo_server \<noteq> 0"
  by (simp_all add: demo_server_def)

lemma six: "replicate 6 x = [x, x, x, x, x, x]"
  by (simp add: numeral_eq_Suc)

theorem dhcp_handshake_witness:
  "\<exists>c1 d s1 q1 d1 c2 r s2 q2 d2 c3 nip.
    g_dhcp_client_start demo_client_env None demo_asks = (c1, Ok ()) \<and> outputs c1 = outputs demo_asks @ [Sent_raw d] \<and>
    listener_event demo_env 1000 True False (Ok (take 548 (bytes_of_packet d))) demo_server = Some (s1, Ok True) \<and>
    sent s1 = sent demo_server @ [(q1, server_nip demo_server, d1)] \<and>
    client_listener_event demo_client_env False (Ok (ip_udp_frame q1 (server_nip demo_server) 67 (fst d1) 68)) (replicate 628 0) c1 =
      Some (c2, Ok True) \<and>
    outputs c2 = outputs c1 @ [Sent_raw r] \<and>
    listener_event demo_env 1001 True False (Ok (take 548 (bytes_of_packet r))) s1 = Some (s2, Ok True) \<and>
    sent s2 = sent s1 @ [(q2, server_nip demo_server, d2)] \<and>
    client_listener_event demo_client_env False (Ok (ip_udp_frame q2 (server_nip demo_server) 67 (fst d2) 68)) (replicate 628 0) c2 =
      Some (c3, Ok True) \<and>
    outputs c3 = outputs c2 @ [Notify LEASE_AVAILABLE] \<and> cstate c3 = BOUND \<and> assigned_ip c3 = Some (htonl nip) \<and>
    start_ip demo_server \<le> nip \<and> nip \<le> end_ip demo_server \<and>
    \<lparr>expire = 1001 + int (unat (lease_seconds demo_server)), lease_nip = nip, lease_mac = mac_address demo_asks\<rparr> \<in> leases s2 \<and>
    client_lease_seconds c3 = lease_of (lease_seconds demo_server) \<and>
    sources c3 = [timeout c3 \<mapsto> (start_renew_timeout, 1000 * unat (drop_bit 1 (lease_of (lease_seconds demo_server))))]"
proof (rule dhcp_handshake)
  have "usable 0xc0a84d66" by (simp add: usable_def)
  then show "\<exists>n. start_ip demo_server \<le> n \<and> n \<le> end_ip demo_server \<and> usable n \<and> (\<forall>k\<in>leases demo_server. lease_nip k \<noteq> n)"
    unfolding demo_server_leases by (intro exI [of _ "0xc0a84d66"]) (simp add: demo_server_def)
  show "env_ok demo_env" "lease_inv demo_server" by (rule demo_env_ok demo_server_inv)+
  show "aged demo_server" unfolding aged_def small_def demo_server_leases by (simp add: by_age_def demo_server_def)
qed (simp_all add: demo_asks_ok demo_client_env_def demo_server_leases demo_server_simps MAC_BCAST_ADDR_def MAC_ANY_ADDR_def
    six)

subsection \<open>Frames that are shorter than their headers\<close>

text \<open>An IP header without options whose total length ends before the UDP header does, and a UDP header that agrees.\<close>

definition short_ip_frame :: "u8 list" where
  "short_ip_frame = [0x45, 0, 0, 20, 0, 0, 0, 0, 64, 17, 0x7a, 0xda, 0, 0, 0, 0, 0, 0, 0, 0, 0, 67, 0, 68, 0, 0, 0, 0]"

text \<open>
  A frame of 28 bytes whose IP header announces a total length of 20 passes every check of the reception
  of frames: its length, the header fields and the checksum. The number of payload bytes to copy is then 20 - 28,
  which as a \<open>size_t\<close> runs over every block, so a client that listens on a raw socket crashes.
\<close>

lemma dhcp_client_short_frame_faults:
  assumes "listen_mode c = L2"
  shows "client_listener_event E False (Ok short_ip_frame) old c = Some (c, Fault)"
proof -
  let ?f = "short_ip_frame @ replicate 628 0"
  have len: "length short_ip_frame = 28" by (simp add: short_ip_frame_def)
  have f: "take 656 (short_ip_frame @ replicate 656 0) = ?f" by (simp add: len)
  have tot: "take 2 (drop 2 ?f) = [0, 20]" and ck: "take 2 (drop 10 ?f) = [0x7a, 0xda]" and uck: "take 2 (drop 26 ?f) = [0, 0]"
    and ip: "take 10 ?f @ [0, 0] @ take 8 (drop 12 ?f) = [0x45, 0, 0, 20, 0, 0, 0, 0, 64, 17, 0, 0, 0, 0, 0, 0, 0, 0, 0, 0]"
    and ports: "take 2 (drop 22 ?f) = [0, 68]" "take 2 (drop 24 ?f) = [0, 0]" "?f ! 0 = 0x45" "?f ! 9 = 17"
    unfolding short_ip_frame_def by (simp_all del: replicate.simps)
  have "sum_words [0x45, 0, 0, 20, 0, 0, 0, 0, 64, 17, 0, 0, 0, 0, 0, 0, 0, 0, 0, 0] = 9605" "fold_sum 9605 = 9605"
    by (simp, subst fold_sum.simps, simp)
  moreover have "NOT (of_nat 9605) = word_16 [0x7a, 0xda]" by (simp add: word_16_def)
  ultimately have "dhcp_checksum [0x45, 0, 0, 20, 0, 0, 0, 0, 64, 17, 0, 0, 0, 0, 0, 0, 0, 0, 0, 0] = word_16 [0x7a, 0xda]"
    by (simp only: dhcp_checksum_def)
  moreover have "word_16 [0, 0] = 0" "unat (ntohs (word_16 [0, 20])) = 20" by code_simp+
  moreover have "sanity_check ?f 20" unfolding sanity_check_def ports by code_simp
  ultimately have "dhcp_recv_l2_packet (Ok short_ip_frame) old = Fault"
    unfolding dhcp_recv_l2_packet_def rbind.simps Let_def f tot ck uck ip by (simp add: len)
  then show ?thesis using assms by (simp add: client_listener_event_def)
qed

lemma dhcp_client_short_frame_faults_witness:
  "client_listener_event demo_client_env False (Ok short_ip_frame) [] (demo_dhcp\<lparr>listen_mode := L2\<rparr>) =
     Some (demo_dhcp\<lparr>listen_mode := L2\<rparr>, Fault)"
  by (rule dhcp_client_short_frame_faults) simp

text \<open>
  C39: What the raw socket of the server carries, the client reads back: a frame made of a complete packet for the
  client's port is accepted and gives the fields of the packet and its first 308 bytes of options; behind them
  the packet variable keeps what it held.
\<close>

theorem dhcp_frame_roundtrip:
  assumes "packet_ok q" and "cookie q = htonl DHCP_MAGIC" and "length old = 628"
  shows "dhcp_recv_l2_packet (Ok (ip_udp_frame q sip sport dip 68)) old =
    Ok (q\<lparr>options := take 308 (options q) @ drop 548 old\<rparr>)"
  using l2_frame_roundtrip [OF assms, of sip sport dip] by (simp add: sent_part_def)

theorem dhcp_frame_roundtrip_witness:
  "dhcp_recv_l2_packet (Ok (ip_udp_frame demo_packet 0x0137a8c0 67 0xffffffff 68)) (replicate 628 7) =
    Ok (demo_packet\<lparr>options := take 308 (options demo_packet) @ drop 548 (replicate 628 7)\<rparr>)"
proof (rule dhcp_frame_roundtrip)
  show "packet_ok demo_packet" using demo_packet_opts by (simp add: has_opts_def)
  show "cookie demo_packet = htonl DHCP_MAGIC"
    by (rule dhcp_init_header_spec [of DHCPOFFER]) (simp_all add: demo_packet_def)
qed simp

end
