(* ===== verification/Dhcp_Config.thy ===== *)
theory Dhcp_Config
  imports Options Dhcp_Values
begin

text \<open>
  The command line of the DHCP program (\<open>src/dhcp_config.c\<close>). All addresses are given as IPv6 texts; for a server they are verified and, since only IPv4
  works, turned into dotted decimals. \<open>pton\<close> is \<open>inet_pton\<close> for IPv6, which gives the 16 bytes of an address.
\<close>

unbundle bit_operations_syntax

subsection \<open>Configuration\<close>

record dhcp_options =
  dc_verbose :: bool
  dc_silent :: bool
  dc_debug :: bool
  dc_client :: bool
  dc_server :: bool
  dc_ipv4 :: bool
  dc_ipv6 :: bool
  dc_interface :: "char list option"
  dc_ip_binary :: "char list option"
  dc_local :: "char list option"
  dc_gateway :: "char list option"
  dc_dns :: "char list option"
  dc_subnet :: "char list option"
  dc_ip_from :: "char list option"
  dc_ip_to :: "char list option"

datatype dhcp_opt =
    OPT_HELP | OPT_VERBOSE | OPT_SILENT | OPT_DEBUG | OPT_CLIENT | OPT_SERVER | OPT_IPV4 | OPT_IPV6
  | OPT_INTERFACE "char list" | OPT_IP_BINARY "char list" | OPT_LOCAL "char list" | OPT_GATEWAY "char list" | OPT_DNS "char list"
  | OPT_SUBNET "char list" | OPT_IP_FROM "char list" | OPT_IP_TO "char list"
  | OPT_MISSING | OPT_UNKNOWN | OPT_OTHER

definition owfd_dhcp_init_config :: dhcp_options where
  "owfd_dhcp_init_config =
     \<lparr>dc_verbose = False, dc_silent = False, dc_debug = False, dc_client = False, dc_server = False, dc_ipv4 = False, dc_ipv6 = False,
      dc_interface = None, dc_ip_binary = None, dc_local = None, dc_gateway = None, dc_dns = None, dc_subnet = None, dc_ip_from = None,
      dc_ip_to = None\<rparr>"

subsection \<open>Addresses\<close>

definition v4_prefix :: "u8 list" where
  "v4_prefix = replicate 10 0 @ [0xff, 0xff]"

definition verify_address :: "(char list \<Rightarrow> u8 list option) \<Rightarrow> char list option \<Rightarrow> bool \<Rightarrow> unit result" where
  "verify_address pton argval ipv4 =
     (case argval of
        None \<Rightarrow> Err EINVAL
      | Some v \<Rightarrow>
          (case pton v of
             None \<Rightarrow> Err EINVAL
           | Some addr \<Rightarrow> if ipv4 \<and> take 12 addr \<noteq> v4_prefix then Err EINVAL else Ok ()))"

text \<open>\<open>inet_ntop\<close> for IPv4 prints the bytes of the address in memory.\<close>

definition inet_ntop :: "u32 \<Rightarrow> char list" where
  "inet_ntop src = sprint_nip (bytes_32 src)"

definition ipv4_text :: "(char list \<Rightarrow> u8 list option) \<Rightarrow> char list \<Rightarrow> char list" where
  "ipv4_text pton v =
     (let addr = (case pton v of None \<Rightarrow> replicate 16 0 | Some a \<Rightarrow> a);
          b = (\<lambda>i. ucast (addr ! i) :: u32)
      in inet_ntop (htonl (push_bit 24 (b 12) OR push_bit 16 (b 13) OR push_bit 8 (b 14) OR b 15)))"

type_synonym field_update = "char list \<Rightarrow> dhcp_options \<Rightarrow> dhcp_options"

definition make_ipv4 :: "(char list \<Rightarrow> u8 list option) \<Rightarrow> char list option \<Rightarrow> field_update \<Rightarrow> (dhcp_options, unit) parse_op" where
  "make_ipv4 pton argval update =
     (case argval of None \<Rightarrow> slift Fault | Some v \<Rightarrow> set_string (ipv4_text pton v) update)"

definition server_address ::
    "(char list \<Rightarrow> u8 list option) \<Rightarrow> (dhcp_options \<Rightarrow> char list option) \<Rightarrow> field_update \<Rightarrow> (dhcp_options, unit) parse_op" where
  "server_address pton field update =
     sbind (sget (\<lambda>(conf, mem). (field conf, dc_ipv4 conf))) (\<lambda>(v, ipv4).
     sbind (slift (verify_address pton v ipv4)) (\<lambda>_.
     if ipv4 then make_ipv4 pton v update else sret ()))"

subsection \<open>The command line\<close>

fun dhcp_parse_option :: "dhcp_opt \<Rightarrow> bool \<Rightarrow> (dhcp_options, bool) parse_op" where
  "dhcp_parse_option OPT_MISSING h = serr EINVAL"
| "dhcp_parse_option OPT_UNKNOWN h = serr EINVAL"
| "dhcp_parse_option OPT_HELP h = sret True"
| "dhcp_parse_option OPT_VERBOSE h = sbind (set_conf (\<lambda>c. c\<lparr>dc_verbose := True\<rparr>)) (\<lambda>_. sret h)"
| "dhcp_parse_option OPT_SILENT h = sbind (set_conf (\<lambda>c. c\<lparr>dc_silent := True\<rparr>)) (\<lambda>_. sret h)"
| "dhcp_parse_option OPT_DEBUG h = sbind (set_conf (\<lambda>c. c\<lparr>dc_debug := True\<rparr>)) (\<lambda>_. sret h)"
| "dhcp_parse_option OPT_CLIENT h = sbind (set_conf (\<lambda>c. c\<lparr>dc_server := False, dc_client := True\<rparr>)) (\<lambda>_. sret h)"
| "dhcp_parse_option OPT_SERVER h = sbind (set_conf (\<lambda>c. c\<lparr>dc_client := False, dc_server := True\<rparr>)) (\<lambda>_. sret h)"
| "dhcp_parse_option OPT_IPV4 h = sbind (set_conf (\<lambda>c. c\<lparr>dc_ipv6 := False, dc_ipv4 := True\<rparr>)) (\<lambda>_. sret h)"
| "dhcp_parse_option OPT_IPV6 h = sbind (set_conf (\<lambda>c. c\<lparr>dc_ipv4 := False, dc_ipv6 := True\<rparr>)) (\<lambda>_. sret h)"
| "dhcp_parse_option (OPT_INTERFACE a) h = sbind (set_string a (\<lambda>t c. c\<lparr>dc_interface := Some t\<rparr>)) (\<lambda>_. sret h)"
| "dhcp_parse_option (OPT_IP_BINARY a) h = sbind (set_string a (\<lambda>t c. c\<lparr>dc_ip_binary := Some t\<rparr>)) (\<lambda>_. sret h)"
| "dhcp_parse_option (OPT_LOCAL a) h = sbind (set_string a (\<lambda>t c. c\<lparr>dc_local := Some t\<rparr>)) (\<lambda>_. sret h)"
| "dhcp_parse_option (OPT_GATEWAY a) h = sbind (set_string a (\<lambda>t c. c\<lparr>dc_gateway := Some t\<rparr>)) (\<lambda>_. sret h)"
| "dhcp_parse_option (OPT_DNS a) h = sbind (set_string a (\<lambda>t c. c\<lparr>dc_dns := Some t\<rparr>)) (\<lambda>_. sret h)"
| "dhcp_parse_option (OPT_SUBNET a) h = sbind (set_string a (\<lambda>t c. c\<lparr>dc_subnet := Some t\<rparr>)) (\<lambda>_. sret h)"
| "dhcp_parse_option (OPT_IP_FROM a) h = sbind (set_string a (\<lambda>t c. c\<lparr>dc_ip_from := Some t\<rparr>)) (\<lambda>_. sret h)"
| "dhcp_parse_option (OPT_IP_TO a) h = sbind (set_string a (\<lambda>t c. c\<lparr>dc_ip_to := Some t\<rparr>)) (\<lambda>_. sret h)"
| "dhcp_parse_option OPT_OTHER h = sret h"

text \<open>The six addresses of a server, one after the other; the first that is wrong ends the program.\<close>

definition server_addresses :: "(char list \<Rightarrow> u8 list option) \<Rightarrow> (dhcp_options, unit) parse_op" where
  "server_addresses pton =
     sbind (server_address pton dc_local (\<lambda>t c. c\<lparr>dc_local := Some t\<rparr>)) (\<lambda>_.
     sbind (server_address pton dc_gateway (\<lambda>t c. c\<lparr>dc_gateway := Some t\<rparr>)) (\<lambda>_.
     sbind (server_address pton dc_dns (\<lambda>t c. c\<lparr>dc_dns := Some t\<rparr>)) (\<lambda>_.
     sbind (server_address pton dc_subnet (\<lambda>t c. c\<lparr>dc_subnet := Some t\<rparr>)) (\<lambda>_.
     sbind (server_address pton dc_ip_from (\<lambda>t c. c\<lparr>dc_ip_from := Some t\<rparr>)) (\<lambda>_.
     server_address pton dc_ip_to (\<lambda>t c. c\<lparr>dc_ip_to := Some t\<rparr>))))))"

text \<open>What is checked behind the loop over the options.\<close>

definition check_config :: "(char list \<Rightarrow> u8 list option) \<Rightarrow> char list \<Rightarrow> (dhcp_options, unit) parse_op" where
  "check_config pton bindir =
     sbind (sget fst) (\<lambda>conf.
     if \<not> dc_client conf \<and> \<not> dc_server conf then serr EINVAL
     else if \<not> dc_ipv4 conf \<and> \<not> dc_ipv6 conf then serr EINVAL
     else if dc_ipv6 conf then serr EINVAL
     else if dc_interface conf = None then serr EINVAL
     else
       sbind (default_string dc_ip_binary (bindir @ ''/ip'') (\<lambda>t c. c\<lparr>dc_ip_binary := Some t\<rparr>)) (\<lambda>_.
       if dc_server conf then server_addresses pton else sret ()))"

definition owfd_dhcp_parse_argv :: "(char list \<Rightarrow> u8 list option) \<Rightarrow> char list \<Rightarrow> dhcp_opt list \<Rightarrow> bool \<Rightarrow> (dhcp_options, unit) parse_op" where
  "owfd_dhcp_parse_argv pton bindir opts unparsed =
     sbind (parse_options dhcp_parse_option opts False) (\<lambda>h.
     if h then serr EAGAIN
     else if unparsed then serr EINVAL
     else check_config pton bindir)"

subsection \<open>What the options say\<close>

definition dhcp_bad_opt :: "dhcp_opt \<Rightarrow> bool" where
  "dhcp_bad_opt opt \<longleftrightarrow> opt = OPT_MISSING \<or> opt = OPT_UNKNOWN"

fun dhcp_put_option :: "dhcp_opt \<Rightarrow> dhcp_options \<Rightarrow> dhcp_options" where
  "dhcp_put_option OPT_VERBOSE c = c\<lparr>dc_verbose := True\<rparr>"
| "dhcp_put_option OPT_SILENT c = c\<lparr>dc_silent := True\<rparr>"
| "dhcp_put_option OPT_DEBUG c = c\<lparr>dc_debug := True\<rparr>"
| "dhcp_put_option OPT_CLIENT c = c\<lparr>dc_server := False, dc_client := True\<rparr>"
| "dhcp_put_option OPT_SERVER c = c\<lparr>dc_client := False, dc_server := True\<rparr>"
| "dhcp_put_option OPT_IPV4 c = c\<lparr>dc_ipv6 := False, dc_ipv4 := True\<rparr>"
| "dhcp_put_option OPT_IPV6 c = c\<lparr>dc_ipv4 := False, dc_ipv6 := True\<rparr>"
| "dhcp_put_option (OPT_INTERFACE a) c = c\<lparr>dc_interface := Some a\<rparr>"
| "dhcp_put_option (OPT_IP_BINARY a) c = c\<lparr>dc_ip_binary := Some a\<rparr>"
| "dhcp_put_option (OPT_LOCAL a) c = c\<lparr>dc_local := Some a\<rparr>"
| "dhcp_put_option (OPT_GATEWAY a) c = c\<lparr>dc_gateway := Some a\<rparr>"
| "dhcp_put_option (OPT_DNS a) c = c\<lparr>dc_dns := Some a\<rparr>"
| "dhcp_put_option (OPT_SUBNET a) c = c\<lparr>dc_subnet := Some a\<rparr>"
| "dhcp_put_option (OPT_IP_FROM a) c = c\<lparr>dc_ip_from := Some a\<rparr>"
| "dhcp_put_option (OPT_IP_TO a) c = c\<lparr>dc_ip_to := Some a\<rparr>"
| "dhcp_put_option _ c = c"

interpretation dhcp_parser: option_parser dhcp_parse_option dhcp_bad_opt "\<lambda>opt. opt = OPT_HELP" dhcp_put_option
  by unfold_locales
    (case_tac opt; auto simp: wp_simps wp_set_string wp_set_conf dhcp_bad_opt_def oom_def set_tl head_missing dest: list.set_sel(2))

text \<open>The kind of program that was asked for, the version of IP, and the arguments, by the name of the address.\<close>

datatype dhcp_mode = Client_mode | Server_mode

fun mode_arg :: "dhcp_opt \<Rightarrow> dhcp_mode option" where
  "mode_arg OPT_CLIENT = Some Client_mode"
| "mode_arg OPT_SERVER = Some Server_mode"
| "mode_arg _ = None"

fun ipv4_arg :: "dhcp_opt \<Rightarrow> bool option" where
  "ipv4_arg OPT_IPV4 = Some True"
| "ipv4_arg OPT_IPV6 = Some False"
| "ipv4_arg _ = None"

fun dhcp_interface_arg :: "dhcp_opt \<Rightarrow> char list option" where
  "dhcp_interface_arg (OPT_INTERFACE a) = Some a"
| "dhcp_interface_arg _ = None"

fun ip_binary_arg :: "dhcp_opt \<Rightarrow> char list option" where
  "ip_binary_arg (OPT_IP_BINARY a) = Some a"
| "ip_binary_arg _ = None"

datatype address = Local | Gateway | Dns | Subnet | Ip_from | Ip_to

definition address_arg :: "address \<Rightarrow> dhcp_opt \<Rightarrow> char list option" where
  "address_arg a opt =
     (case opt of
        OPT_LOCAL v \<Rightarrow> if a = Local then Some v else None
      | OPT_GATEWAY v \<Rightarrow> if a = Gateway then Some v else None
      | OPT_DNS v \<Rightarrow> if a = Dns then Some v else None
      | OPT_SUBNET v \<Rightarrow> if a = Subnet then Some v else None
      | OPT_IP_FROM v \<Rightarrow> if a = Ip_from then Some v else None
      | OPT_IP_TO v \<Rightarrow> if a = Ip_to then Some v else None
      | _ \<Rightarrow> None)"

fun address_of :: "address \<Rightarrow> dhcp_options \<Rightarrow> char list option" where
  "address_of Local c = dc_local c"
| "address_of Gateway c = dc_gateway c"
| "address_of Dns c = dc_dns c"
| "address_of Subnet c = dc_subnet c"
| "address_of Ip_from c = dc_ip_from c"
| "address_of Ip_to c = dc_ip_to c"

text \<open>The dotted decimal of an IPv4 address that is written as an IPv6 address.\<close>

definition mapped_v4 :: "(char list \<Rightarrow> u8 list option) \<Rightarrow> char list \<Rightarrow> char list option" where
  "mapped_v4 pton v =
     (case pton v of None \<Rightarrow> None | Some a \<Rightarrow> if take 12 a = v4_prefix then Some (sprint_nip (drop 12 a)) else None)"

definition pton_ok :: "(char list \<Rightarrow> u8 list option) \<Rightarrow> bool" where
  "pton_ok pton \<longleftrightarrow> (\<forall>v a. pton v = Some a \<longrightarrow> length a = 16)"

lemma not_bit_u8: "8 \<le> n \<Longrightarrow> \<not> bit b n" for b :: u8
  by (auto dest: bit_imp_le_length)

lemma bytes_of_parts:
  "bytes_32 (htonl (push_bit 24 (ucast b0) OR push_bit 16 (ucast b1) OR push_bit 8 (ucast b2) OR ucast b3)) = [b0, b1, b2, b3]"
  for b0 b1 b2 b3 :: u8
  unfolding bytes_32_def
  by (auto intro!: bit_word_eqI simp: bit_simps bit_bswap_32 not_bit_u8 dest: bit_imp_le_length)

lemma ipv4_text_mapped:
  assumes "pton_ok pton" and "mapped_v4 pton v = Some t"
  shows "ipv4_text pton v = t"
proof -
  obtain a where a: "pton v = Some a" "t = sprint_nip (drop 12 a)" using assms(2) by (auto simp: mapped_v4_def split: option.splits if_splits)
  then have "length a = 16" using assms(1) by (simp add: pton_ok_def)
  then show ?thesis by (simp add: ipv4_text_def Let_def inet_ntop_def bytes_of_parts a sprint_nip_def)
qed

subsection \<open>The addresses of a server\<close>

fun put_address :: "address \<Rightarrow> char list \<Rightarrow> dhcp_options \<Rightarrow> dhcp_options" where
  "put_address Local t c = c\<lparr>dc_local := Some t\<rparr>"
| "put_address Gateway t c = c\<lparr>dc_gateway := Some t\<rparr>"
| "put_address Dns t c = c\<lparr>dc_dns := Some t\<rparr>"
| "put_address Subnet t c = c\<lparr>dc_subnet := Some t\<rparr>"
| "put_address Ip_from t c = c\<lparr>dc_ip_from := Some t\<rparr>"
| "put_address Ip_to t c = c\<lparr>dc_ip_to := Some t\<rparr>"

lemma address_of_put: "address_of a (put_address b t c) = (if a = b then Some t else address_of a c)"
  by (cases a; cases b) simp_all

text \<open>What is not an address.\<close>

definition same_rest :: "dhcp_options \<Rightarrow> dhcp_options \<Rightarrow> bool" where
  "same_rest c c' \<longleftrightarrow>
     dc_client c' = dc_client c \<and> dc_server c' = dc_server c \<and> dc_ipv4 c' = dc_ipv4 c \<and> dc_interface c' = dc_interface c \<and>
     dc_ip_binary c' = dc_ip_binary c"

lemma same_rest_put: "same_rest c (put_address a t c)"
  by (cases a) (simp_all add: same_rest_def)

lemma wp_server_address:
  assumes "pton_ok pton" and "dc_ipv4 conf"
  shows "wp (server_address pton field update) Q (conf, mem) =
    (case Option.bind (field conf) (mapped_v4 pton) of
       None \<Rightarrow> Q (Err EINVAL) (conf, mem)
     | Some t \<Rightarrow> if mem \<noteq> [] \<and> \<not> hd mem then Q (Err ENOMEM) (conf, tl mem) else Q (Ok ()) (update t conf, tl mem))"
proof (cases "Option.bind (field conf) (mapped_v4 pton)")
  case None
  then show ?thesis using assms(2)
    by (auto simp: server_address_def verify_address_def wp_simps mapped_v4_def bind_eq_None_conv split: option.splits if_splits)
next
  case (Some t)
  then obtain v where v: "field conf = Some v" "mapped_v4 pton v = Some t" by (auto simp: bind_eq_Some_conv)
  then obtain a where "pton v = Some a" "take 12 a = v4_prefix" by (auto simp: mapped_v4_def split: option.splits if_splits)
  then show ?thesis using assms(2) v(1) Some ipv4_text_mapped [OF assms(1) v(2)]
    by (simp add: server_address_def verify_address_def make_ipv4_def wp_simps wp_set_string)
qed

definition address_steps :: "(char list \<Rightarrow> u8 list option) \<Rightarrow> address list \<Rightarrow> (dhcp_options, unit) parse_op" where
  "address_steps pton as = foldr (\<lambda>a rest. sbind (server_address pton (address_of a) (put_address a)) (\<lambda>_. rest)) as (sret ())"

lemma address_steps_spec:
  assumes pton: "pton_ok pton"
  shows "dc_ipv4 conf \<Longrightarrow> distinct as \<Longrightarrow> wp (address_steps pton as) (\<lambda>r (conf', mem'). oom mem r \<or>
    (if \<exists>a\<in>set as. Option.bind (address_of a conf) (mapped_v4 pton) = None then r = Err EINVAL
     else r = Ok () \<and> same_rest conf conf' \<and>
       (\<forall>a. address_of a conf' = (if a \<in> set as then Option.bind (address_of a conf) (mapped_v4 pton) else address_of a conf)))) (conf, mem)"
proof (induction as arbitrary: conf mem)
  case (Cons a as)
  let ?Q = "\<lambda>mem r (conf', mem'). oom mem r \<or>
    (if \<exists>b\<in>set (a # as). Option.bind (address_of b conf) (mapped_v4 pton) = None then r = Err EINVAL
     else r = Ok () \<and> same_rest conf conf' \<and>
       (\<forall>b. address_of b conf' = (if b \<in> set (a # as) then Option.bind (address_of b conf) (mapped_v4 pton) else address_of b conf)))"
  have eq: "address_steps pton (a # as) = sbind (server_address pton (address_of a) (put_address a)) (\<lambda>_. address_steps pton as)"
    by (simp add: address_steps_def)
  show ?case
  proof (cases "Option.bind (address_of a conf) (mapped_v4 pton)")
    case None
    then show ?thesis unfolding eq wp_sbind wp_server_address [OF pton Cons.prems(1)] by (simp add: andthen_simps)
  next
    case (Some t)
    let ?c = "put_address a t conf"
    have c: "dc_ipv4 ?c" using same_rest_put [of conf a t] Cons.prems(1) by (simp add: same_rest_def)
    have others: "(\<exists>b\<in>set (a # as). Option.bind (address_of b conf) (mapped_v4 pton) = None) \<longleftrightarrow>
        (\<exists>b\<in>set as. Option.bind (address_of b ?c) (mapped_v4 pton) = None)"
      using Some Cons.prems(2) by (auto simp: address_of_put)
    let ?P = "\<lambda>r (conf', mem'). oom (tl mem) r \<or>
      (if \<exists>b\<in>set as. Option.bind (address_of b ?c) (mapped_v4 pton) = None then r = Err EINVAL
       else r = Ok () \<and> same_rest ?c conf' \<and>
         (\<forall>b. address_of b conf' = (if b \<in> set as then Option.bind (address_of b ?c) (mapped_v4 pton) else address_of b ?c)))"
    have "?Q mem r s'" if q: "?P r s'" for r :: "unit result" and s' :: "dhcp_options \<times> bool list"
    proof -
      obtain conf' mem' where s': "s' = (conf', mem')" by (rule prod.exhaust)
      consider "oom (tl mem) r" | "\<not> oom (tl mem) r" "\<exists>b\<in>set (a # as). Option.bind (address_of b conf) (mapped_v4 pton) = None"
        | "\<not> oom (tl mem) r" "\<not> (\<exists>b\<in>set (a # as). Option.bind (address_of b conf) (mapped_v4 pton) = None)" by blast
      then show ?thesis
      proof cases
        case 1
        then have "oom mem r" by (rule oom_sub [OF _ set_tl])
        then show ?thesis by (simp add: s')
      next
        case 2
        then have "r = Err EINVAL" using q unfolding others by (simp add: s')
        then show ?thesis using 2(2) by (simp add: s')
      next
        case 3
        then have p: "r = Ok ()" "same_rest ?c conf'"
            "\<forall>b. address_of b conf' = (if b \<in> set as then Option.bind (address_of b ?c) (mapped_v4 pton) else address_of b ?c)"
          using q unfolding others by (simp_all add: s')
        have "same_rest conf conf'" using p(2) same_rest_put [of conf a t] by (simp add: same_rest_def)
        moreover have "address_of b conf' = (if b \<in> set (a # as) then Option.bind (address_of b conf) (mapped_v4 pton) else address_of b conf)" for b
          using p(3) [THEN spec, of b] Some Cons.prems(2) by (auto simp: address_of_put)
        ultimately show ?thesis unfolding s' prod.case if_not_P [OF 3(2)] using p(1) by blast
      qed
    qed
    then have "wp (address_steps pton as) (?Q mem) (?c, tl mem)"
      using wp_mono [OF Cons.IH [where mem = "tl mem", OF c]] Cons.prems(2) by simp
    then show ?thesis unfolding eq wp_sbind wp_server_address [OF pton Cons.prems(1)]
      by (simp add: Some andthen_simps oom_def head_missing)
  qed
qed (simp add: address_steps_def wp_simps same_rest_def)

lemma server_addresses_steps: "server_addresses pton = address_steps pton [Local, Gateway, Dns, Subnet, Ip_from, Ip_to]"
proof -
  have last: "sbind f sret = f" for f :: "(dhcp_options, unit) parse_op"
    by (auto simp: sbind_def fun_eq_iff split: prod.splits result.splits)
  have "address_of Local = dc_local" "address_of Gateway = dc_gateway" "address_of Dns = dc_dns" "address_of Subnet = dc_subnet"
    "address_of Ip_from = dc_ip_from" "address_of Ip_to = dc_ip_to"
    "put_address Local = (\<lambda>t c. c\<lparr>dc_local := Some t\<rparr>)" "put_address Gateway = (\<lambda>t c. c\<lparr>dc_gateway := Some t\<rparr>)"
    "put_address Dns = (\<lambda>t c. c\<lparr>dc_dns := Some t\<rparr>)" "put_address Subnet = (\<lambda>t c. c\<lparr>dc_subnet := Some t\<rparr>)"
    "put_address Ip_from = (\<lambda>t c. c\<lparr>dc_ip_from := Some t\<rparr>)" "put_address Ip_to = (\<lambda>t c. c\<lparr>dc_ip_to := Some t\<rparr>)"
    by (simp_all add: fun_eq_iff)
  then show ?thesis by (simp add: server_addresses_def address_steps_def last)
qed

lemma all_addresses: "set [Local, Gateway, Dns, Subnet, Ip_from, Ip_to] = UNIV"
proof -
  have "a \<in> set [Local, Gateway, Dns, Subnet, Ip_from, Ip_to]" for a by (cases a) simp_all
  then show ?thesis by blast
qed

lemma server_addresses_spec:
  assumes "pton_ok pton" and "dc_ipv4 conf"
  shows "wp (server_addresses pton) (\<lambda>r (conf', mem'). oom mem r \<or>
    (if \<exists>a. Option.bind (address_of a conf) (mapped_v4 pton) = None then r = Err EINVAL
     else r = Ok () \<and> same_rest conf conf' \<and> (\<forall>a. address_of a conf' = Option.bind (address_of a conf) (mapped_v4 pton)))) (conf, mem)"
proof -
  have "distinct [Local, Gateway, Dns, Subnet, Ip_from, Ip_to]" by simp
  from address_steps_spec [OF assms this, of mem] show ?thesis
    unfolding server_addresses_steps all_addresses by (simp only: UNIV_I if_True bex_UNIV)
qed

subsection \<open>The whole command line\<close>

lemma given_options:
  defines "c \<equiv> \<lambda>opts. fold dhcp_put_option opts owfd_dhcp_init_config"
  shows "dc_interface (c opts) = last_arg dhcp_interface_arg opts" "dc_ip_binary (c opts) = last_arg ip_binary_arg opts"
    "address_of a (c opts) = last_arg (address_arg a) opts"
proof -
  have put: "dc_interface (dhcp_put_option opt c) = or_else (dhcp_interface_arg opt) (dc_interface c)"
    "dc_ip_binary (dhcp_put_option opt c) = or_else (ip_binary_arg opt) (dc_ip_binary c)" for opt c
    by (cases opt; simp)+
  have put_a: "address_of a (dhcp_put_option opt c) = or_else (address_arg a opt) (address_of a c)" for opt c
    by (cases a; cases opt; simp add: address_arg_def)
  have "address_of a owfd_dhcp_init_config = None" by (cases a) (simp_all add: owfd_dhcp_init_config_def)
  then show "dc_interface (c opts) = last_arg dhcp_interface_arg opts" "dc_ip_binary (c opts) = last_arg ip_binary_arg opts"
    "address_of a (c opts) = last_arg (address_arg a) opts"
    using field_fold [of dc_interface dhcp_put_option dhcp_interface_arg] field_fold [of dc_ip_binary dhcp_put_option ip_binary_arg]
      field_fold [of "address_of a" dhcp_put_option "address_arg a"] put put_a
    by (simp_all add: c_def owfd_dhcp_init_config_def)
qed

text \<open>The two pairs of switches: the last one of a pair counts.\<close>

definition modes :: "dhcp_mode option \<Rightarrow> bool option \<Rightarrow> dhcp_options \<Rightarrow> bool" where
  "modes m v c \<longleftrightarrow> dc_client c = (m = Some Client_mode) \<and> dc_server c = (m = Some Server_mode) \<and>
     dc_ipv4 c = (v = Some True) \<and> dc_ipv6 c = (v = Some False)"

lemma modes_put: "modes m v c \<Longrightarrow> modes (or_else (mode_arg opt) m) (or_else (ipv4_arg opt) v) (dhcp_put_option opt c)"
  by (cases opt) (auto simp: modes_def)

lemma modes_fold:
  "modes m v c \<Longrightarrow> modes (or_else (last_arg mode_arg opts) m) (or_else (last_arg ipv4_arg opts) v) (fold dhcp_put_option opts c)"
proof (induction opts arbitrary: m v c)
  case (Cons opt opts)
  from Cons.IH [OF modes_put [OF Cons.prems, of opt]] show ?case by (simp add: or_else_def split: option.splits)
qed simp

lemma given_modes: "modes (last_arg mode_arg opts) (last_arg ipv4_arg opts) (fold dhcp_put_option opts owfd_dhcp_init_config)"
  using modes_fold [of None None owfd_dhcp_init_config opts] by (simp add: modes_def owfd_dhcp_init_config_def)

text \<open>The configuration that a command line stands for, when there is one: \<open>None\<close> is an invalid command line.\<close>

definition valid_command :: "(char list \<Rightarrow> u8 list option) \<Rightarrow> dhcp_opt list \<Rightarrow> bool" where
  "valid_command pton opts \<longleftrightarrow>
     last_arg mode_arg opts \<noteq> None \<and> last_arg ipv4_arg opts = Some True \<and> last_arg dhcp_interface_arg opts \<noteq> None \<and>
     (last_arg mode_arg opts = Some Server_mode \<longrightarrow> (\<forall>a. Option.bind (last_arg (address_arg a) opts) (mapped_v4 pton) \<noteq> None))"

definition dhcp_configured :: "(char list \<Rightarrow> u8 list option) \<Rightarrow> char list \<Rightarrow> dhcp_opt list \<Rightarrow> dhcp_options \<Rightarrow> bool" where
  "dhcp_configured pton bindir opts c \<longleftrightarrow>
     dc_client c = (last_arg mode_arg opts = Some Client_mode) \<and> dc_server c = (last_arg mode_arg opts = Some Server_mode) \<and>
     dc_interface c = last_arg dhcp_interface_arg opts \<and> dc_interface c \<noteq> None \<and>
     dc_ip_binary c = or_else (last_arg ip_binary_arg opts) (Some (bindir @ ''/ip'')) \<and>
     (dc_server c \<longrightarrow> (\<forall>a. address_of a c = Option.bind (last_arg (address_arg a) opts) (mapped_v4 pton) \<and> address_of a c \<noteq> None))"

lemma check_config_spec:
  fixes opts
  defines "c \<equiv> fold dhcp_put_option opts owfd_dhcp_init_config"
  assumes pton: "pton_ok pton"
  shows "wp (check_config pton bindir) (\<lambda>r (conf', mem'). oom mem r \<or>
    r = (if valid_command pton opts then Ok () else Err EINVAL) \<and> (is_ok r \<longrightarrow> dhcp_configured pton bindir opts conf')) (c, mem)"
    (is "wp _ ?Q _")
proof -
  have m: "dc_client c = (last_arg mode_arg opts = Some Client_mode)" "dc_server c = (last_arg mode_arg opts = Some Server_mode)"
    "dc_ipv4 c = (last_arg ipv4_arg opts = Some True)" "dc_ipv6 c = (last_arg ipv4_arg opts = Some False)"
    using given_modes [of opts] by (simp_all add: modes_def c_def)
  have o: "dc_interface c = last_arg dhcp_interface_arg opts" "dc_ip_binary c = last_arg ip_binary_arg opts"
    "address_of a c = last_arg (address_arg a) opts" for a
    by (simp_all add: c_def given_options)
  consider "last_arg mode_arg opts = None \<or> last_arg ipv4_arg opts \<noteq> Some True \<or> last_arg dhcp_interface_arg opts = None"
    | i where "last_arg mode_arg opts \<noteq> None" "last_arg ipv4_arg opts = Some True" "last_arg dhcp_interface_arg opts = Some i" by blast
  then show ?thesis
  proof cases
    case 1
    then have "wp (check_config pton bindir) (\<lambda>r s. r = Err EINVAL) (c, mem)"
      using m o(1) by (cases "last_arg mode_arg opts"; cases "last_arg ipv4_arg opts") (auto simp: check_config_def wp_simps)
    then show ?thesis using 1 by (elim wp_mono) (auto simp: valid_command_def)
  next
    case 2
    let ?c1 = "if dc_ip_binary c = None then c\<lparr>dc_ip_binary := Some (bindir @ ''/ip'')\<rparr> else c"
    have c1: "dc_client ?c1 = (last_arg mode_arg opts = Some Client_mode)" "dc_server ?c1 = (last_arg mode_arg opts = Some Server_mode)"
      "dc_ipv4 ?c1" "dc_interface ?c1 = Some i" "dc_ip_binary ?c1 = or_else (last_arg ip_binary_arg opts) (Some (bindir @ ''/ip''))"
      using m o 2 by (auto simp: or_else_def split: option.split)
    have a1: "address_of a ?c1 = last_arg (address_arg a) opts" for a using o(3) [of a] by (cases a) auto
    have rest: "wp (if dc_server c then server_addresses pton else sret ()) ?Q (?c1, mem2)" if mem2: "set mem2 \<subseteq> set mem" for mem2
    proof (cases "dc_server c")
      case False
      then show ?thesis using 2 m c1
        by (auto simp: wp_simps valid_command_def dhcp_configured_def simp del: or_else_None)
    next
      case True
      have "wp (server_addresses pton) ?Q (?c1, mem2)"
      proof (rule wp_mono [OF server_addresses_spec [OF pton c1(3)]])
        fix r :: "unit result" and s :: "dhcp_options \<times> bool list"
        assume q: "case s of (conf', mem') \<Rightarrow> oom mem2 r \<or>
          (if \<exists>a. Option.bind (address_of a ?c1) (mapped_v4 pton) = None then r = Err EINVAL
           else r = Ok () \<and> same_rest ?c1 conf' \<and> (\<forall>a. address_of a conf' = Option.bind (address_of a ?c1) (mapped_v4 pton)))"
        obtain conf' mem' where s: "s = (conf', mem')" by (rule prod.exhaust)
        have v: "valid_command pton opts \<longleftrightarrow> \<not> (\<exists>a. Option.bind (address_of a ?c1) (mapped_v4 pton) = None)"
          using 2 True m(2) unfolding a1 by (auto simp: valid_command_def)
        show "?Q r s"
        proof (cases "oom mem2 r")
          case True
          then show ?thesis using oom_sub [OF True mem2] by (simp add: s)
        next
          case False
          show ?thesis
          proof (cases "valid_command pton opts")
            case valid: True
            then have p: "r = Ok ()" "same_rest ?c1 conf'" "\<forall>a. address_of a conf' = Option.bind (address_of a ?c1) (mapped_v4 pton)"
              using q False v by (simp_all add: s)
            have "dhcp_configured pton bindir opts conf'"
              using p(2,3) c1 v valid 2(3) unfolding a1 same_rest_def dhcp_configured_def by auto
            then show ?thesis using p(1) valid by (simp add: s)
          next
            case invalid: False
            then have "r = Err EINVAL" using q False v by (simp add: s)
            then show ?thesis using invalid by (simp add: s)
          qed
        qed
      qed
      then show ?thesis using True by simp
    qed
    have "wp (sbind (default_string dc_ip_binary (bindir @ ''/ip'') (\<lambda>t c. c\<lparr>dc_ip_binary := Some t\<rparr>))
        (\<lambda>_. if dc_server c then server_addresses pton else sret ())) ?Q (c, mem)"
    proof (rule wp_sbindI [OF default_string_spec])
      fix r :: "unit result" and s :: "dhcp_options \<times> bool list"
      assume q: "case s of (conf', mem') \<Rightarrow> oom mem r \<or> r = Ok () \<and> conf' = ?c1 \<and> set mem' \<subseteq> set mem"
      obtain conf' mem' where s: "s = (conf', mem')" by (rule prod.exhaust)
      show "andthen (\<lambda>_. if dc_server c then server_addresses pton else sret ()) ?Q r s"
      proof (cases "oom mem r")
        case True
        then show ?thesis by (simp add: s oom_def andthen_simps)
      next
        case False
        then have "r = Ok ()" "conf' = ?c1" "set mem' \<subseteq> set mem" using q by (simp_all add: s)
        then show ?thesis using rest [of mem'] by (simp only: s andthen_simps)
      qed
    qed
    moreover have "dc_client c \<or> dc_server c"
      using 2(1) m(1,2) by (cases "last_arg mode_arg opts"; cases "the (last_arg mode_arg opts)") auto
    moreover have "dc_ipv4 c" "\<not> dc_ipv6 c" "dc_interface c = Some i" using 2(2,3) m(3,4) o(1) by simp_all
    ultimately show ?thesis by (auto simp: check_config_def wp_sbind wp_basic andthen_simps)
  qed
qed

text \<open>
  C16: The command line of the DHCP program. Unless memory runs out, an unknown option or a missing argument is an invalid command line and help wins
  over the rest. Otherwise the command line is valid exactly when it names client or server, IPv4, an interface and, for a server, six
  IPv6 texts of IPv4 addresses, with nothing left over; then the last option of each kind counts, exactly one of client and server is
  set, and the six addresses of a server are the dotted decimals of the given ones.
\<close>

theorem dhcp_parse_argv_correct:
  assumes "pton_ok pton" and "owfd_dhcp_parse_argv pton bindir opts unparsed (owfd_dhcp_init_config, mem) = ((conf, mem'), r)"
  shows "r = Err ENOMEM \<and> False \<in> set mem \<or>
    r = (if \<exists>opt\<in>set opts. dhcp_bad_opt opt then Err EINVAL
         else if OPT_HELP \<in> set opts then Err EAGAIN
         else if unparsed \<or> \<not> valid_command pton opts then Err EINVAL
         else Ok ()) \<and>
    (is_ok r \<longrightarrow> dhcp_configured pton bindir opts conf)"
proof -
  let ?c = "fold dhcp_put_option opts owfd_dhcp_init_config"
  let ?Q = "\<lambda>r (conf, mem'). r = Err ENOMEM \<and> False \<in> set mem \<or>
    r = (if \<exists>opt\<in>set opts. dhcp_bad_opt opt then Err EINVAL
         else if OPT_HELP \<in> set opts then Err EAGAIN
         else if unparsed \<or> \<not> valid_command pton opts then Err EINVAL
         else Ok ()) \<and>
    (is_ok r \<longrightarrow> dhcp_configured pton bindir opts conf)"
  have "wp (owfd_dhcp_parse_argv pton bindir opts unparsed) ?Q (owfd_dhcp_init_config, mem)"
    unfolding owfd_dhcp_parse_argv_def
  proof (rule wp_sbindI [OF dhcp_parser.parse_options_spec])
    fix r :: "bool result" and s :: "dhcp_options \<times> bool list"
    assume q: "case s of (conf', mem') \<Rightarrow> oom mem r \<or>
      (if \<exists>opt\<in>set opts. dhcp_bad_opt opt then r = Err EINVAL
       else r = Ok (False \<or> (\<exists>opt\<in>set opts. opt = OPT_HELP)) \<and> conf' = ?c \<and> set mem' \<subseteq> set mem)"
    obtain conf1 mem1 where s: "s = (conf1, mem1)" by (rule prod.exhaust)
    have "wp (check_config pton bindir) ?Q (?c, mem1)"
      if "set mem1 \<subseteq> set mem" "\<not> (\<exists>opt\<in>set opts. dhcp_bad_opt opt)" "OPT_HELP \<notin> set opts" "\<not> unparsed"
      by (rule wp_mono [OF check_config_spec [OF assms(1)]]) (use that in \<open>auto simp: oom_def\<close>)
    then show "andthen (\<lambda>h. if h then serr EAGAIN else if unparsed then serr EINVAL else check_config pton bindir) ?Q r s"
      using q by (auto simp: s oom_def andthen_simps wp_basic split: if_splits)
  qed
  then show ?thesis by (simp add: wp_iff assms(2))
qed

text \<open>An \<open>inet_pton\<close> that knows the texts of a small network.\<close>

definition demo_pton :: "char list \<Rightarrow> u8 list option" where
  "demo_pton t =
     (if t = ''::ffff:192.168.77.1'' then Some (v4_prefix @ [192, 168, 77, 1])
      else if t = ''::ffff:255.255.255.0'' then Some (v4_prefix @ [255, 255, 255, 0])
      else if t = ''fe80::1'' then Some ([0xfe, 0x80] @ replicate 13 0 @ [1])
      else None)"

lemma demo_pton_ok: "pton_ok demo_pton"
  by (simp add: pton_ok_def demo_pton_def v4_prefix_def)

definition demo_command :: "dhcp_opt list" where
  "demo_command = [OPT_SERVER, OPT_IPV4, OPT_INTERFACE ''wlan0'', OPT_LOCAL ''::ffff:192.168.77.1'', OPT_GATEWAY ''::ffff:192.168.77.1'',
     OPT_DNS ''::ffff:192.168.77.1'', OPT_SUBNET ''::ffff:255.255.255.0'', OPT_IP_FROM ''::ffff:192.168.77.1'', OPT_IP_TO ''::ffff:192.168.77.1'']"

theorem dhcp_parse_argv_correct_witness:
  "\<exists>conf mem'. owfd_dhcp_parse_argv demo_pton ''/sbin'' demo_command False (owfd_dhcp_init_config, []) = ((conf, mem'), Ok ()) \<and>
     dc_server conf \<and> dc_local conf = Some ''192.168.77.1'' \<and> dc_subnet conf = Some ''255.255.255.0'' \<and> dc_ip_binary conf = Some ''/sbin/ip''"
proof -
  obtain conf mem' r where o: "owfd_dhcp_parse_argv demo_pton ''/sbin'' demo_command False (owfd_dhcp_init_config, []) = ((conf, mem'), r)"
    by (metis surj_pair)
  have t: "mapped_v4 demo_pton ''::ffff:192.168.77.1'' = Some ''192.168.77.1''" "mapped_v4 demo_pton ''::ffff:255.255.255.0'' = Some ''255.255.255.0''"
    by code_simp+
  have args: "last_arg (address_arg a) demo_command = Some (if a = Subnet then ''::ffff:255.255.255.0'' else ''::ffff:192.168.77.1'')" for a
    by (cases a) (simp_all add: demo_command_def address_arg_def)
  have v: "valid_command demo_pton demo_command" using t
    by (simp add: valid_command_def args) (simp add: demo_command_def)
  have "\<forall>opt\<in>set demo_command. \<not> dhcp_bad_opt opt" "OPT_HELP \<notin> set demo_command" by (simp_all add: demo_command_def dhcp_bad_opt_def)
  then have "r = Ok ()" "dhcp_configured demo_pton ''/sbin'' demo_command conf"
    using dhcp_parse_argv_correct [OF demo_pton_ok o] v by auto
  moreover have "last_arg mode_arg demo_command = Some Server_mode" "last_arg ip_binary_arg demo_command = None" by (simp_all add: demo_command_def)
  ultimately show ?thesis using o t args [of Local] args [of Subnet]
    by (fastforce simp: dhcp_configured_def dest: spec [of _ Local] spec [of _ Subnet])
qed

end
