(* ===== verification/Dhcp_Daemon.thy ===== *)
theory Dhcp_Daemon
  imports Dhcp_Config Dhcp_Server Dhcp_Client_Correct Kernel
begin

text \<open>
  The DHCP program (\<open>src/dhcp.c\<close>): a client or a server for one interface, whose address it sets with the program \<open>ip\<close>. It is built on the
  models of client and server. GLib's main loop is a list of what happens while it runs; callbacks of the client run when the function that
  made them is done, which is the same, as they only read what the client does not change afterwards.
\<close>

unbundle bit_operations_syntax

subsection \<open>State\<close>

text \<open>
  \<open>dh_watch\<close> tells whether the source of the signal descriptor exists and \<open>dh_stale\<close> how often it was removed when it did not. \<open>dh_cmds\<close> are the
  commands given to \<open>ip\<close>, each with whether it worked. The strings and the loop object are values.
\<close>

record owfd_dhcp = kernel +
  dh_conf :: dhcp_options
  dh_ifindex :: int
  dh_iflabel :: "char list option"
  dh_loop :: bool
  dh_quit :: bool
  dh_sfd :: int
  dh_watch :: bool
  dh_stale :: nat
  dh_client :: "GDHCPClient option"
  dh_client_addr :: "char list option"
  dh_server :: "GDHCPServer option"
  dh_server_addr :: "char list option"
  dh_cmds :: "(char list list \<times> bool) list"

type_synonym 'a dop = "(owfd_dhcp, 'a) op"
type_synonym 'a dlop = "owfd_dhcp \<Rightarrow> (owfd_dhcp \<times> 'a result) option"

text \<open>A string of the configuration; a null pointer is not followed.\<close>

definition conf_string :: "(dhcp_options \<Rightarrow> char list option) \<Rightarrow> char list dop" where
  "conf_string f = sbind (sget (\<lambda>s. f (dh_conf s))) (\<lambda>v. case v of None \<Rightarrow> slift Fault | Some t \<Rightarrow> sret t)"

definition g_main_loop_quit :: "unit dop" where
  "g_main_loop_quit = smod (\<lambda>s. s\<lparr>dh_quit := True\<rparr>)"

text \<open>An operation on the client or the server.\<close>

definition on_client :: "(GDHCPClient, 'a) op \<Rightarrow> 'a dop" where
  "on_client f s = (case dh_client s of None \<Rightarrow> (s, Fault) | Some c \<Rightarrow> (case f c of (c, r) \<Rightarrow> (s\<lparr>dh_client := Some c\<rparr>, r)))"

definition on_server :: "(GDHCPServer, 'a) op \<Rightarrow> 'a dop" where
  "on_server f s = (case dh_server s of None \<Rightarrow> (s, Fault) | Some v \<Rightarrow> (case f v of (v, r) \<Rightarrow> (s\<lparr>dh_server := Some v\<rparr>, r)))"

subsection \<open>The program ip\<close>

text \<open>
  A child that executes \<open>ip\<close>, and the wait for it. The answer to \<open>waitpid\<close> is an error or a number: 0 when the child was killed, else one more
  than its exit status.
\<close>

definition log_ip :: "char list list \<Rightarrow> bool \<Rightarrow> unit dop" where
  "log_ip argv ok = smod (\<lambda>s. s\<lparr>dh_cmds := dh_cmds s @ [(argv, ok)]\<rparr>)"

definition run_ip :: "answers \<Rightarrow> char list list \<Rightarrow> unit dop" where
  "run_ip K argv =
     sbind (attempt (sys K)) (\<lambda>r.
     case r of
       Inl e \<Rightarrow> sbind (log_ip argv False) (\<lambda>_. serr e)
     | Inr _ \<Rightarrow>
         sbind (sys_call K) (\<lambda>a.
         if a_err a = None \<and> a_num a = 1 then log_ip argv True
         else sbind (log_ip argv False) (\<lambda>_. serr EFAULT)))"

definition label_args :: "char list option \<Rightarrow> char list list" where
  "label_args l = (case l of None \<Rightarrow> [] | Some label \<Rightarrow> [''label'', label])"

definition flush_if_addr :: "answers \<Rightarrow> unit dop" where
  "flush_if_addr K =
     sbind (conf_string dc_ip_binary) (\<lambda>bin.
     sbind (conf_string dc_interface) (\<lambda>i.
     sbind (sget dh_iflabel) (\<lambda>l.
     run_ip K ([bin, ''addr'', ''flush'', ''dev'', i] @ label_args l))))"

definition add_if_addr :: "answers \<Rightarrow> char list \<Rightarrow> unit dop" where
  "add_if_addr K addr =
     sbind (conf_string dc_ip_binary) (\<lambda>bin.
     sbind (conf_string dc_interface) (\<lambda>i.
     sbind (sget dh_iflabel) (\<lambda>l.
     run_ip K ([bin, ''addr'', ''add'', addr, ''dev'', i] @ label_args l))))"

subsection \<open>Callbacks of the client\<close>

definition g_dhcp_client_get_address :: "GDHCPClient \<Rightarrow> char list option" where
  "g_dhcp_client_get_address c = map_option inet_ntop (assigned_ip c)"

text \<open>Errors of setting the address end the main loop.\<close>

definition or_quit :: "unit dop \<Rightarrow> unit dop \<Rightarrow> unit dop" where
  "or_quit m m' = sbind (attempt m) (\<lambda>r. case r of Inl _ \<Rightarrow> g_main_loop_quit | Inr _ \<Rightarrow> m')"

definition client_lease_fn :: "answers \<Rightarrow> unit dop" where
  "client_lease_fn K =
     sbind (sget dh_client) (\<lambda>client.
     case client of
       None \<Rightarrow> slift Fault
     | Some c \<Rightarrow>
         (case g_dhcp_client_get_address c of
            None \<Rightarrow> g_main_loop_quit
          | Some addr \<Rightarrow>
              let subnet = (case g_dhcp_client_get_option c G_DHCP_SUBNET of Some (t # _) \<Rightarrow> t | _ \<Rightarrow> ''24'') in
              sbind (attempt (sys K)) (\<lambda>r.
              case r of
                Inl _ \<Rightarrow> g_main_loop_quit
              | Inr _ \<Rightarrow>
                  let a = addr @ ''/'' @ subnet in
                  sbind (sget dh_client_addr) (\<lambda>old.
                  if old = Some a then sret ()
                  else
                    sbind (smod (\<lambda>s. s\<lparr>dh_client_addr := Some a\<rparr>)) (\<lambda>_.
                    or_quit (flush_if_addr K) (or_quit (add_if_addr K a) (sret ())))))))"

definition client_no_lease_fn :: "unit dop" where
  "client_no_lease_fn = g_main_loop_quit"

fun client_callbacks :: "answers \<Rightarrow> client_output list \<Rightarrow> unit dop" where
  "client_callbacks K [] = sret ()"
| "client_callbacks K (x # xs) =
     sbind
       (case x of
          Notify LEASE_AVAILABLE \<Rightarrow> client_lease_fn K
        | Notify NO_LEASE \<Rightarrow> client_no_lease_fn
        | _ \<Rightarrow> sret ()) (\<lambda>_.
     client_callbacks K xs)"

text \<open>What the client does, and the callbacks it makes.\<close>

definition client_does :: "answers \<Rightarrow> (GDHCPClient, 'a) op \<Rightarrow> 'a dop" where
  "client_does K f =
     sbind (sget dh_client) (\<lambda>client.
     sbind (attempt (on_client f)) (\<lambda>r.
     sbind (sget dh_client) (\<lambda>client'.
     sbind (client_callbacks K (drop (length (outputs (the client))) (outputs (the client')))) (\<lambda>_.
     case r of Inl e \<Rightarrow> serr e | Inr x \<Rightarrow> sret x))))"

subsection \<open>Signals\<close>

definition owfd_dhcp_sfd_fn :: "answers \<Rightarrow> bool \<Rightarrow> bool dop" where
  "owfd_dhcp_sfd_fn K hup =
     (if hup then sbind g_main_loop_quit (\<lambda>_. sret False)
      else
        sbind (sget dh_sfd) (\<lambda>sfd.
        sbind (attempt (sys_read K sfd 128)) (\<lambda>l.
        case l of
          Inl _ \<Rightarrow> sbind g_main_loop_quit (\<lambda>_. sret False)
        | Inr info \<Rightarrow> if length info \<noteq> 128 then sret True else sbind g_main_loop_quit (\<lambda>_. sret False))))"

text \<open>GLib destroys the source when its callback returns \<open>FALSE\<close>.\<close>

definition signal_source :: "answers \<Rightarrow> bool \<Rightarrow> unit dop" where
  "signal_source K hup =
     sbind (owfd_dhcp_sfd_fn K hup) (\<lambda>stays. if stays then sret () else smod (\<lambda>s. s\<lparr>dh_watch := False\<rparr>))"

definition remove_signal_source :: "unit dop" where
  "remove_signal_source = smod (\<lambda>s. if dh_watch s then s\<lparr>dh_watch := False\<rparr> else s\<lparr>dh_stale := dh_stale s + 1\<rparr>)"

subsection \<open>The main loop\<close>

text \<open>A signal, a timer of the client, a packet for the client, a packet for the server.\<close>

datatype dhcp_input =
    Signal bool | Timer client_env nat | Frame client_env bool "u8 list result" "u8 list" | Packet int bool bool "u8 list result"

definition client_frame :: "answers \<Rightarrow> client_env \<Rightarrow> bool \<Rightarrow> u8 list result \<Rightarrow> u8 list \<Rightarrow> unit dlop" where
  "client_frame K CE hup rd old s =
     (case dh_client s of
        None \<Rightarrow> Some (s, Ok ())
      | Some c \<Rightarrow>
          (case client_listener_event CE hup rd old c of
             None \<Rightarrow> None
           | Some (c', r) \<Rightarrow> Some (sbind (client_does K (\<lambda>_. (c', r))) (\<lambda>_. sret ()) s)))"

definition server_packet :: "dhcp_env \<Rightarrow> int \<Rightarrow> bool \<Rightarrow> bool \<Rightarrow> u8 list result \<Rightarrow> unit dlop" where
  "server_packet E now mem hup rd s =
     (case dh_server s of
        None \<Rightarrow> Some (s, Ok ())
      | Some v \<Rightarrow>
          (case listener_event E now mem hup rd v of
             None \<Rightarrow> None
           | Some (v', r) \<Rightarrow> Some (sbind (on_server (\<lambda>_. (v', r))) (\<lambda>_. sret ()) s)))"

text \<open>A source that does not exist reports nothing.\<close>

fun dispatch_input :: "answers \<Rightarrow> dhcp_env \<Rightarrow> dhcp_input \<Rightarrow> unit dlop" where
  "dispatch_input K E (Signal hup) s = Some (if dh_watch s then signal_source K hup s else (s, Ok ()))"
| "dispatch_input K E (Timer CE i) s = Some (if dh_client s = None then (s, Ok ()) else client_does K (fire CE i) s)"
| "dispatch_input K E (Frame CE hup rd old) s = client_frame K CE hup rd old s"
| "dispatch_input K E (Packet now mem hup rd) s = server_packet E now mem hup rd s"

text \<open>The loop returns when a callback has quit it; \<open>None\<close> is a loop that waits for more, or a callback that does not return.\<close>

fun main_loop :: "answers \<Rightarrow> dhcp_env \<Rightarrow> dhcp_input list \<Rightarrow> unit dlop" where
  "main_loop K E [] s = (if dh_quit s then Some (s, Ok ()) else None)"
| "main_loop K E (i # is) s =
     (if dh_quit s then Some (s, Ok ())
      else
        case dispatch_input K E i s of
          None \<Rightarrow> None
        | Some (s', Fault) \<Rightarrow> Some (s', Fault)
        | Some (s', _) \<Rightarrow> main_loop K E is s')"

definition g_main_loop_run :: "answers \<Rightarrow> dhcp_env \<Rightarrow> dhcp_input list \<Rightarrow> unit dlop" where
  "g_main_loop_run K E inputs s = main_loop K E inputs (s\<lparr>dh_quit := False\<rparr>)"

text \<open>The result of opening the socket of the server is an answer of the kernel.\<close>

definition start_gdhcp :: "answers \<Rightarrow> client_env \<Rightarrow> unit dop" where
  "start_gdhcp K CE =
     sbind (sget (\<lambda>s. dc_client (dh_conf s))) (\<lambda>client.
     sbind
       (if client then attempt (client_does K (g_dhcp_client_start CE None))
        else
          sbind (sys_call K) (\<lambda>a.
          attempt (on_server (g_dhcp_server_start (case a_err a of None \<Rightarrow> Ok () | Some e \<Rightarrow> Err e) True (of_nat (a_num a)))))) (\<lambda>r.
     case r of Inl _ \<Rightarrow> serr EFAULT | Inr _ \<Rightarrow> sret ()))"

definition owfd_dhcp_run :: "answers \<Rightarrow> dhcp_env \<Rightarrow> client_env \<Rightarrow> dhcp_input list \<Rightarrow> unit dlop" where
  "owfd_dhcp_run K E CE inputs s =
     (case start_gdhcp K CE s of
        (s, Ok _) \<Rightarrow> g_main_loop_run K E inputs s
      | (s, Err e) \<Rightarrow> Some (s, Err e)
      | (s, Fault) \<Rightarrow> Some (s, Fault))"

subsection \<open>End\<close>

definition end_client :: "answers \<Rightarrow> client_env \<Rightarrow> unit dop" where
  "end_client K CE =
     sbind (sget dh_client) (\<lambda>client.
     if client = None then sret ()
     else
       sbind (attempt (on_client (g_dhcp_client_stop CE))) (\<lambda>_.
       sbind (sget dh_client_addr) (\<lambda>addr.
       sbind
         (if addr = None then sret ()
          else sbind (attempt (flush_if_addr K)) (\<lambda>_. smod (\<lambda>s. s\<lparr>dh_client_addr := None\<rparr>))) (\<lambda>_.
       smod (\<lambda>s. s\<lparr>dh_client := None\<rparr>)))))"

definition end_server :: "answers \<Rightarrow> unit dop" where
  "end_server K =
     sbind (sget dh_server) (\<lambda>server.
     sbind
       (if server = None then sret ()
        else
          sbind (on_server g_dhcp_server_stop) (\<lambda>_.
          sbind (on_server g_dhcp_server_unref) (\<lambda>_.
          smod (\<lambda>s. s\<lparr>dh_server := None\<rparr>)))) (\<lambda>_.
     sbind (sget dh_server_addr) (\<lambda>addr.
     if addr = None then sret ()
     else sbind (attempt (flush_if_addr K)) (\<lambda>_. smod (\<lambda>s. s\<lparr>dh_server_addr := None\<rparr>)))))"

definition owfd_dhcp_teardown :: "answers \<Rightarrow> client_env \<Rightarrow> unit dop" where
  "owfd_dhcp_teardown K CE =
     sbind (sget (\<lambda>s. dc_client (dh_conf s))) (\<lambda>client.
     sbind (if client then end_client K CE else end_server K) (\<lambda>_.
     sbind (sget dh_sfd) (\<lambda>sfd.
     sbind (if sfd \<ge> 0 then sbind remove_signal_source (\<lambda>_. sys_close sfd) else sret ()) (\<lambda>_.
     smod (\<lambda>s. s\<lparr>dh_loop := False, dh_iflabel := None\<rparr>)))))"

subsection \<open>Beginning\<close>

text \<open>What the queries about the interface give when client or server are created.\<close>

record interface_facts =
  if_mem :: bool
  if_name :: "string option"
  if_up :: bool
  if_mac :: "u8 list"
  if_addr :: u32

definition create_client :: "answers \<Rightarrow> interface_facts \<Rightarrow> bool \<Rightarrow> unit dop" where
  "create_client K I mem =
     sbind (sys K) (\<lambda>_.
     sbind (conf_string dc_interface) (\<lambda>i.
     sbind (smod (\<lambda>s. s\<lparr>dh_iflabel := Some (i @ '':openwfd'')\<rparr>)) (\<lambda>_.
     sbind (sget dh_ifindex) (\<lambda>index.
     case g_dhcp_client_new G_DHCP_IPV4 index (if_mem I) (if_name I) (if_up I) (if_mac I) of
       Inl e \<Rightarrow> serr (if e = G_DHCP_CLIENT_ERROR_NOMEM then ENOMEM else EINVAL)
     | Inr c \<Rightarrow>
         sbind (smod (\<lambda>s. s\<lparr>dh_client := Some c\<rparr>)) (\<lambda>_.
         sbind (attempt (on_client (g_dhcp_client_set_send mem 0x0c (Some (map of_char ''<hostname>''))))) (\<lambda>_.
         sbind (on_client (g_dhcp_client_set_request 1)) (\<lambda>_.
         sbind (on_client (g_dhcp_client_set_request 6)) (\<lambda>_.
         sbind (on_client (g_dhcp_client_set_request 3)) (\<lambda>_.
         sbind (on_client (g_dhcp_client_register_event LEASE_AVAILABLE True)) (\<lambda>_.
         on_client (g_dhcp_client_register_event NO_LEASE True)))))))))))"

definition create_server :: "answers \<Rightarrow> dhcp_env \<Rightarrow> interface_facts \<Rightarrow> unit dop" where
  "create_server K E I =
     sbind (attempt (sys K)) (\<lambda>r.
     case r of
       Inl _ \<Rightarrow> serr ENOMEM
     | Inr _ \<Rightarrow>
         sbind (conf_string dc_local) (\<lambda>local.
         sbind (conf_string dc_subnet) (\<lambda>subnet.
         let addr = local @ ''/'' @ subnet in
         sbind (smod (\<lambda>s. s\<lparr>dh_server_addr := Some addr\<rparr>)) (\<lambda>_.
         sbind (flush_if_addr K) (\<lambda>_.
         sbind (add_if_addr K addr) (\<lambda>_.
         sbind (sget dh_ifindex) (\<lambda>index.
         case g_dhcp_server_new index (if_mem I) (if_name I) (if_up I) (if_addr I) of
           Inl e \<Rightarrow> serr (if e = G_DHCP_SERVER_ERROR_NOMEM then ENOMEM else EINVAL)
         | Inr v \<Rightarrow>
             sbind (smod (\<lambda>s. s\<lparr>dh_server := Some v\<rparr>)) (\<lambda>_.
             sbind (on_server (g_dhcp_server_set_lease_time (60 * 60))) (\<lambda>_.
             sbind (sget dh_conf) (\<lambda>conf.
             sbind (on_server (g_dhcp_server_set_option E G_DHCP_SUBNET (dc_subnet conf))) (\<lambda>_.
             sbind (on_server (g_dhcp_server_set_option E G_DHCP_ROUTER (dc_gateway conf))) (\<lambda>_.
             sbind (on_server (g_dhcp_server_set_option E G_DHCP_DNS_SERVER (dc_dns conf))) (\<lambda>_.
             sbind (conf_string dc_ip_from) (\<lambda>lo.
             sbind (conf_string dc_ip_to) (\<lambda>hi.
             on_server (g_dhcp_server_set_ip_range E lo hi))))))))))))))))"

definition setup_signals :: "answers \<Rightarrow> unit dop" where
  "setup_signals K =
     sbind (foldr (\<lambda>sig rest. sbind (sys K) (\<lambda>_. rest)) [2, 15, 3, 1, 13 :: nat] (sbind (sys K) (\<lambda>_. sret ()))) (\<lambda>_.
     sbind (sys_open K) (\<lambda>fd.
     smod (\<lambda>s. s\<lparr>dh_sfd := fd, dh_watch := True\<rparr>)))"

definition owfd_dhcp_setup :: "answers \<Rightarrow> dhcp_env \<Rightarrow> client_env \<Rightarrow> interface_facts \<Rightarrow> bool \<Rightarrow> unit dop" where
  "owfd_dhcp_setup K E CE I mem =
     sbind (attempt (
       sbind (attempt (sys K)) (\<lambda>r.
       case r of
         Inl _ \<Rightarrow> serr EINVAL
       | Inr a \<Rightarrow>
           sbind (smod (\<lambda>s. s\<lparr>dh_ifindex := int (a_num a), dh_loop := True\<rparr>)) (\<lambda>_.
           sbind (setup_signals K) (\<lambda>_.
           sbind (sget (\<lambda>s. dc_client (dh_conf s))) (\<lambda>client.
           if client then create_client K I mem else create_server K E I)))))) (\<lambda>r.
     case r of Inl e \<Rightarrow> sbind (owfd_dhcp_teardown K CE) (\<lambda>_. serr e) | Inr _ \<Rightarrow> sret ())"

definition dhcp_init :: "dhcp_options \<Rightarrow> kernel \<Rightarrow> owfd_dhcp" where
  "dhcp_init conf k = kernel.extend k
     \<lparr>dh_conf = conf, dh_ifindex = 0, dh_iflabel = None, dh_loop = False, dh_quit = False, dh_sfd = - 1, dh_watch = False, dh_stale = 0,
      dh_client = None, dh_client_addr = None, dh_server = None, dh_server_addr = None, dh_cmds = []\<rparr>"

text \<open>From a configuration to the end.\<close>

definition run_config ::
    "answers \<Rightarrow> dhcp_env \<Rightarrow> client_env \<Rightarrow> interface_facts \<Rightarrow> bool \<Rightarrow> dhcp_input list \<Rightarrow> unit dlop" where
  "run_config K E CE I mem inputs s =
     (case owfd_dhcp_setup K E CE I mem s of
        (s, Ok _) \<Rightarrow>
          (case owfd_dhcp_run K E CE inputs s of
             None \<Rightarrow> None
           | Some (s, Fault) \<Rightarrow> Some (s, Fault)
           | Some (s, r) \<Rightarrow> Some (sbind (owfd_dhcp_teardown K CE) (\<lambda>_. slift r) s))
      | (s, r) \<Rightarrow> Some (s, r))"

text \<open>\<open>strs\<close> tells which copies of strings find memory; see \<open>owfd_dhcp_parse_argv\<close> for the command line.\<close>

definition owfd_dhcp_main ::
    "answers \<Rightarrow> dhcp_env \<Rightarrow> client_env \<Rightarrow> interface_facts \<Rightarrow> bool \<Rightarrow> dhcp_input list \<Rightarrow> bool list \<Rightarrow> (char list \<Rightarrow> u8 list option) \<Rightarrow>
     char list \<Rightarrow> dhcp_opt list \<Rightarrow> bool \<Rightarrow> kernel \<Rightarrow> (owfd_dhcp \<times> unit result) option" where
  "owfd_dhcp_main K E CE I mem inputs strs pton bindir opts unparsed k =
     (case owfd_dhcp_parse_argv pton bindir opts unparsed (owfd_dhcp_init_config, strs) of
        ((conf, _), Ok _) \<Rightarrow> run_config K E CE I mem inputs (dhcp_init conf k)
      | ((conf, _), r) \<Rightarrow> Some (dhcp_init conf k, r))"

end
