(* ===== verification/Spec2Isabelle.thy ===== *)
theory Spec2Isabelle
  imports Rtsp_Decoder Rtsp_Tokenizer Rtsp_Ctrl Wpa_Parser Wpa_Ctrl_Time P2pd_Ends Dhcp_Handshake Dhcp_Daemon
begin

text \<open>
  A verification library for OpenWFD, a Wifi-Display implementation in C. It models the parts of the program with logic of their own: the ring buffer,
  the RTSP decoder, tokenizer and control channel, the parser of and the channel to wpa_supplicant, the P2P daemon that runs the supplicant, the DHCP
  server and client of \<open>gdhcp\<close>, and the DHCP program. Files are named relative to \<open>src/src/\<close>.

  \<^bold>\<open>How the parts interact.\<close> \<open>rtsp_ctrl.c\<close> keeps a TCP connection in an epoll instance and sends from a ring buffer
  (\<open>shl_ring.c\<close>). The decoder (\<open>rtsp_decoder.c\<close>) collects received bytes in another ring buffer, cuts them into messages and
  hands them to a callback; the lines of a message are split by \<open>rtsp_tokenizer.c\<close>. \<open>wpa_ctrl.c\<close> talks to wpa_supplicant
  through datagram sockets; the events it receives are parsed by \<open>wpa_parser.c\<close>, and \<open>p2pd_interface.c\<close> starts the
  supplicant, waits for its socket, and hands parsed events to its users, which form a list of \<open>shl_dlist.h\<close>. \<open>p2pd.c\<close> is
  the main loop around it, with the options of \<open>p2pd_config.c\<close>. DHCP client and server share packet and option handling
  (\<open>gdhcp/common.c\<close>), which uses byte order accessors (\<open>gdhcp/unaligned.h\<close>); the client falls back to link-local addresses
  (\<open>gdhcp/ipv4ll.c\<close>). \<open>dhcp.c\<close> runs one of them, with the options of \<open>dhcp_config.c\<close>, and sets addresses with
  the program \<open>ip\<close>.

  \<^bold>\<open>Conventions.\<close> An operation is a function from the state to the new state and a result (\<open>Prelude\<close>): a value, an
  error number, or \<open>Fault\<close>, which stands for undefined behaviour, an access outside of an array, to freed or uninitialised memory, or the
  use of a descriptor that is not open. That a run never gives \<open>Fault\<close> is therefore memory safety. Widths are those of the C types
  (\<open>8 word\<close> up to \<open>64 word\<close>); \<open>int\<close> and \<open>nat\<close> stand for values that cannot overflow, with the
  reason given where they are used: times in microseconds stay far below \<open>2 ^ 63\<close>, and reference counts far below \<open>2 ^ 31\<close>.
  Strings are values, so that their ownership is not shown, except for the one string that is used after it was freed
  (\<open>restart_uses_freed_address\<close>). Weakest preconditions and triples for operations are in \<open>Wp\<close>, operations that may run for
  ever in \<open>Loops\<close>.

  \<^bold>\<open>Theories and what they show.\<close>

  \<^item> \<open>Ring\<close> (\<open>shl_ring.c\<close>): \<open>shl_ring_push\<close>, \<open>pull\<close>, \<open>flush\<close>,
    \<open>peek\<close>, \<open>copy\<close> with the growth of the buffer at \<open>size_t\<close> width. Any sequence of operations refines a byte
    queue and stays in bounds.
  \<^item> \<open>Rtsp_Decoder\<close>, \<open>Rtsp_Header\<close> (\<open>rtsp_decoder.c\<close>): the character machine \<open>feed_char\<close>
    with its arrays and allocation failures. It refines an abstract decoder, does not depend on how the bytes are cut into chunks, and reads back
    canonical messages when the allocator serves requests in proportion to their length. \<open>Rtsp_Header\<close> describes what cleaning a line
    does.
  \<^item> \<open>Rtsp_Tokenizer\<close>, \<open>Cstring\<close> (\<open>rtsp_tokenizer.c\<close>): the in-place tokenizer against a reference
    grammar, and the round trip through quoting. \<open>Cstring\<close> has the string functions of the C library.
  \<^item> \<open>Rtsp_Ctrl\<close> (\<open>rtsp_ctrl.c\<close>): the channel with the part of the kernel it changes (\<open>Kernel\<close>). The
    locale \<open>ctrl_contract\<close> carries a predicate through the dispatcher and all callbacks; it is interpreted with the invariant of owned
    descriptors and with the statement that nothing is written any more.
  \<^item> \<open>Wpa_Parser\<close> (\<open>wpa_parser.c\<close>): the event table with its binary search, the argument tokenizer, and all event
    parsers against a description of the events.
  \<^item> \<open>Wpa_Ctrl\<close>, \<open>Wpa_Ctrl_Correct\<close>, \<open>Wpa_Ctrl_Time\<close> (\<open>wpa_ctrl.c\<close>): both sockets with their
    files, the ping timer, requests with timeouts and the dispatcher. Owned descriptors and files are tracked through every run; opening is all or
    nothing; a request returns in time. Two defects are proved: the time of a request is counted more than once, and a ping without a reply loses the
    timer.
  \<^item> \<open>Dlist\<close> (\<open>shl_dlist.h\<close>): the linked list over a heap of nodes refines a list.
  \<^item> \<open>P2pd_Interface\<close>, \<open>P2pd_Interface_Correct\<close>, \<open>P2pd_Interface_Properties\<close>
    (\<open>p2pd_interface.c\<close>, \<open>p2pd_dummy.c\<close>): the process of the supplicant, the wait for its socket, and the event users.
    Creation is all or nothing, and every user gets every event once.
  \<^item> \<open>Options\<close>, \<open>P2pd\<close>, \<open>P2pd_Ends\<close> (\<open>p2pd_config.c\<close>, \<open>p2pd.c\<close>): command line,
    signals and the whole life of the daemon, which leaves nothing behind and, when every system call takes some time, ends when it is told to. The
    locale \<open>option_parser\<close> serves both command lines.
  \<^item> \<open>Byte_Order\<close>, \<open>Dhcp_Common\<close> (\<open>gdhcp/unaligned.h\<close>, \<open>gdhcp/common.c\<close>): packets, options,
    checksums, frames. Checksums are judged by an independent ones' complement sum, \<open>ones_sum\<close>.
  \<^item> \<open>Dhcp_Lease\<close>, \<open>Dhcp_Server\<close> (\<open>gdhcp/server.c\<close>): leases as heap objects that a list and a hash table
    share, and all packet handlers. The table is consistent after any sequence of packets and calls, nobody loses a lease to others, and the last
    release of the server frees all leases. An offer reserves nothing, and a renewal by \<open>ciaddr\<close> is not granted; both are proved as the
    code has them.
  \<^item> \<open>Dhcp_Client\<close>, \<open>Dhcp_Client_Correct\<close>, \<open>Dhcp_Client_Packets\<close>, \<open>Dhcp_Values\<close>
    (\<open>gdhcp/client.c\<close>, \<open>gdhcp/ipv4ll.c\<close>): the state machine with its timers and listeners as a step function on events, the
    packets it sends and accepts, and the texts of option values. What the argument of \<open>g_dhcp_client_start\<close> points to is kept
    (\<open>address_ptr\<close>), because a restart passes the client's own string, which is freed before it is copied.
  \<^item> \<open>Dhcp_Handshake\<close>: client and server composed through the bytes of their frames.
  \<^item> \<open>Dhcp_Config\<close>, \<open>Dhcp_Daemon\<close> (\<open>dhcp_config.c\<close>, \<open>dhcp.c\<close>): command line, children,
    callbacks, setup, main loop and teardown.

  The locale \<open>stepper\<close> of the prelude is the interface of every component that is driven by events: a step function that keeps an
  invariant for the events allowed. Each interpretation proves that for the model of the code.

  \<^bold>\<open>Parameters.\<close> Code that is not part of the program is an argument of the definitions. The allocator is a function that serves
  or refuses a request; the kernel and the peers are the answers of \<open>Kernel\<close>: the n-th system call of a run gets the n-th answer, so that
  a statement for all answers holds for every behaviour of the kernel and every delay. GLib's main loop, clock and random numbers, and what sockets
  deliver, are fields of the events of the DHCP programs. \<open>answers_ok\<close> and \<open>allocator_ok\<close> name what is relied on. A callback
  is a function from what it is called with to the calls it makes; callbacks neither dispatch nor drop the last reference.

  \<^bold>\<open>Loops.\<close> Scans over arrays are structural recursion on what is left, or have a measure proved to decrease. Some loops may run
  for ever and are partial functions with \<open>None\<close> as the outcome of such a run: the option scan of \<open>dhcp_get_option\<close>, the
  searches for a random link-local address and for a free address of the server, and the loops over system calls (\<open>until_done\<close>): those of
  requests, of the wait for the supplicant and of the main loop. Their termination is proved under conditions that are stated (a packet without
  overloaded fields, a range that does not end at the last address, time that passes with every system call), and where the program can hang that is
  proved too. The only bound on a loop that is not a bound of the data is the 128 of \<open>recv_all\<close>, which is the bound of the code.

  \<^bold>\<open>Not modelled.\<close> The DHCPv6 branches and the reference count of the DHCP client; formatting and log output
  (\<open>shl_log.c\<close>, \<open>shl_llog.h\<close>, \<open>debug\<close> of \<open>gdhcp\<close>); the help texts and log levels of the programs;
  freeing the strings of configurations; pure socket and \<open>ioctl\<close> calls (\<open>dhcp_l3_socket\<close>, \<open>if_name_to_index\<close>);
  what the child process does between \<open>fork\<close> and \<open>execve\<close>; the constants of \<open>openwfd/\<close>, which no modelled code
  uses; the development tool \<open>../tools/openwfd_ie.c\<close>; the unit tests under \<open>../test/\<close>.
\<close>

end
